(* ===== verification/Qiran_Prelude.thy ===== *)
theory Qiran_Prelude
  imports Main "HOL-Library.Word"
begin

section \<open>Shared types, hints and lemmas\<close>

text \<open>
  What every component of the flight software shares: the machine integers of
  \<^verbatim>\<open>stdint.h\<close> as words of their width, the status and health enumerations of
  \<^verbatim>\<open>include/qiran/qiran_types.h\<close>, the constants of
  \<^verbatim>\<open>include/qiran/qiran_config.h\<close>, the named collections the component proofs feed to
  the simplifier, and the lemmas about masked free-running indices, loops over arrays and
  bounded queues that several components use.
\<close>

unbundle bit_operations_syntax

type_synonym u8 = "8 word"
type_synonym u16 = "16 word"
type_synonym u32 = "32 word"
type_synonym u64 = "64 word"

text \<open>An \<^verbatim>\<open>int32_t\<close> is a 32-bit word read by \<^term>\<open>sint\<close>.\<close>

type_synonym i32 = "32 word"
type_synonym i16 = "16 word"

text \<open>A function pointer or a context pointer is a handle; \<^verbatim>\<open>NULL\<close> is \<^term>\<open>None\<close>.\<close>

type_synonym handle = nat

datatype qiran_status =
    QIRAN_OK
  | QIRAN_ERR_PARAM
  | QIRAN_ERR_STATE
  | QIRAN_ERR_TIMEOUT
  | QIRAN_ERR_HARDWARE
  | QIRAN_ERR_RANGE
  | QIRAN_ERR_INTEGRITY
  | QIRAN_ERR_BUSY
  | QIRAN_ERR_UNSUPPORTED

fun status_code :: "qiran_status \<Rightarrow> u32" where
  "status_code QIRAN_OK = 0"
| "status_code QIRAN_ERR_PARAM = 1"
| "status_code QIRAN_ERR_STATE = 2"
| "status_code QIRAN_ERR_TIMEOUT = 3"
| "status_code QIRAN_ERR_HARDWARE = 4"
| "status_code QIRAN_ERR_RANGE = 5"
| "status_code QIRAN_ERR_INTEGRITY = 6"
| "status_code QIRAN_ERR_BUSY = 7"
| "status_code QIRAN_ERR_UNSUPPORTED = 8"

datatype qiran_health = QIRAN_HEALTH_HEALTHY | QIRAN_HEALTH_FAILED

datatype qiran_payload_status =
  QIRAN_PAYLOAD_NON_OPERATIONAL | QIRAN_PAYLOAD_OPERATIONAL

definition QIRAN_MINOR_CYCLE_MS :: nat where "QIRAN_MINOR_CYCLE_MS = 20"
definition QIRAN_MINOR_PER_MAJOR :: nat where "QIRAN_MINOR_PER_MAJOR = 25"
definition QIRAN_IRQ_QUEUE_DEPTH :: u32 where "QIRAN_IRQ_QUEUE_DEPTH = 8"
definition QIRAN_UART_RX_RING_BYTES :: u32 where "QIRAN_UART_RX_RING_BYTES = 256"
definition QIRAN_LOG_DEPTH :: u32 where "QIRAN_LOG_DEPTH = 128"
definition QIRAN_STAGE_RETRY_LIMIT :: u16 where "QIRAN_STAGE_RETRY_LIMIT = 3"
definition QIRAN_RESET_REQUEST_LIMIT :: u16 where "QIRAN_RESET_REQUEST_LIMIT = 3"
definition QIRAN_REENTRY_LIMIT :: u32 where "QIRAN_REENTRY_LIMIT = 5"
definition QIRAN_WATCHDOG_TIMEOUT_MS :: u32 where "QIRAN_WATCHDOG_TIMEOUT_MS = 5 * 20"

named_theorems cfg_consts "values of the configuration constants"
named_theorems frame "components an operation leaves alone"
named_theorems inv_intro "invariant preservation by the operations"

lemmas qiran_config_consts [cfg_consts] =
  QIRAN_MINOR_CYCLE_MS_def QIRAN_MINOR_PER_MAJOR_def QIRAN_IRQ_QUEUE_DEPTH_def
  QIRAN_UART_RX_RING_BYTES_def QIRAN_LOG_DEPTH_def QIRAN_STAGE_RETRY_LIMIT_def
  QIRAN_RESET_REQUEST_LIMIT_def QIRAN_REENTRY_LIMIT_def QIRAN_WATCHDOG_TIMEOUT_MS_def

subsection \<open>Words\<close>

lemma unat_u32_less: "unat (w :: u32) < 4294967296"
  using unsigned_less [where ?'a = nat and w = w] by simp

lemma unat_of_nat_eq_u32: "n < 4294967296 \<Longrightarrow> unat (of_nat n :: u32) = n"
  by (simp add: unat_of_nat)

lemma unat_eq_of_nat: "unat (w :: 'a::len word) = n \<Longrightarrow> w = of_nat n"
  by auto

lemma unat_minus_one_less: "(w :: 'a::len word) \<noteq> 0 \<Longrightarrow> unat (w - 1) = unat w - 1"
  by (simp add: unat_minus_one)

lemma unat_and_mask: "unat ((w :: 'a::len word) AND mask k) = unat w mod 2 ^ k"
proof -
  have "unat (take_bit k w) = take_bit k (unat w)" by (rule unsigned_take_bit_eq)
  also have "\<dots> = unat w mod 2 ^ k" by (rule take_bit_eq_mod)
  finally show ?thesis by (simp only: take_bit_eq_mask)
qed

lemma unat_add_mod_pow2:
  assumes "k \<le> LENGTH('a::len)"
  shows "unat ((a :: 'a word) + of_nat i) mod 2 ^ k = (unat a + i) mod 2 ^ k"
proof -
  have d: "(2::nat) ^ k dvd 2 ^ LENGTH('a)" using assms by (rule le_imp_power_dvd)
  have "unat (a + of_nat i) = (unat a + i) mod 2 ^ LENGTH('a)"
    by (simp add: unat_word_ariths unat_of_nat mod_add_right_eq)
  then show ?thesis using d by (simp add: mod_mod_cancel)
qed

lemma unat_diff_add_one:
  assumes "Suc (unat ((h :: 'a::len word) - t)) < 2 ^ LENGTH('a)"
  shows "unat (h + 1 - t) = Suc (unat (h - t))"
proof -
  have e: "h + 1 - t = (h - t) + 1" by simp
  show ?thesis unfolding e using assms by (simp add: unat_word_ariths)
qed

lemma unat_diff_minus_one:
  assumes "(h :: 'a::len word) \<noteq> t"
  shows "unat (h - (t + 1)) = unat (h - t) - 1"
proof -
  have e: "h - (t + 1) = (h - t) - 1" by simp
  have "h - t \<noteq> 0" using assms by simp
  then show ?thesis unfolding e by (rule unat_minus_one)
qed

lemma xor_eq_0_iff_eq: "a XOR b = 0 \<longleftrightarrow> a = b" for a b :: "'a::len word"
proof
  assume "a XOR b = 0"
  then have "(a XOR b) XOR b = b" by simp
  then show "a = b" by (simp add: xor.assoc)
qed simp

lemma xor_right_cancel: "a XOR x = b XOR x \<longleftrightarrow> a = b" for a b x :: "'a::len word"
proof
  assume "a XOR x = b XOR x"
  then have "(a XOR x) XOR x = (b XOR x) XOR x" by simp
  then show "a = b" by (simp add: xor.assoc)
qed simp

lemma xor_left_cancel: "x XOR a = x XOR b \<longleftrightarrow> a = b" for a b x :: "'a::len word"
  using xor_right_cancel [of a x b] by (simp add: xor.commute)

lemma mod_add_neq:
  assumes "i < n" "n < (c::nat)"
  shows "(t + i) mod c \<noteq> (t + n) mod c"
proof
  assume "(t + i) mod c = (t + n) mod c"
  then have "(t + n) mod c = (t + i) mod c" by simp
  then have "c dvd (t + n) - (t + i)" using assms(1) by (metis add_left_mono less_imp_le mod_eq_dvd_iff_nat)
  then have "c dvd n - i" by simp
  then show False using assms by (simp add: nat_dvd_not_less)
qed

text \<open>An enumeration as the list of its constructors: the index of the entry at \<open>i\<close> is \<open>i\<close>.\<close>

lemma takeWhile_neq_nth:
  assumes "distinct xs" "i < length xs"
  shows "takeWhile (\<lambda>x. x \<noteq> xs ! i) xs = take i xs"
  by (rule takeWhile_eq_take_P_nth)
     (use assms nth_eq_iff_index_eq [OF assms(1)] in auto)

end
