(* ===== verification/Plat_Cpu.thy ===== *)
theory Plat_Cpu
  imports Qiran_Prelude
begin

section \<open>Processor services: \<^verbatim>\<open>src/plat/plat_cpu.c\<close>\<close>

text \<open>
  The processor as the rest of the software sees it: the interrupt mask of the core and a
  free-running cycle counter. What the counter will read is hardware, so it is part of the
  state as an arbitrary sequence of readings, consumed one per read. The clock frequency is
  the board support package's. Of the performance monitor the two control registers are kept:
  the control register as it was last written, and the enable register, whose written ones set
  bits. Barriers have no effect on a sequential state. The state of every component is one field of an extensible record: a component's
  operations work on any extension of the record its own theory declares.
\<close>

record cpu_state =
  cpu_irq_masked :: bool
  cpu_readings :: "nat \<Rightarrow> u32"
  cpu_reads :: nat
  cpu_clk_hz :: u32
  cpu_pmcr :: u32
  cpu_pmcnten :: u32

record cpu_world =
  w_cpu :: cpu_state

definition PMCR_ENABLE_ALL :: u32 where "PMCR_ENABLE_ALL = push_bit 0 1"
definition PMCR_CYCLE_RESET :: u32 where "PMCR_CYCLE_RESET = push_bit 2 1"
definition PMCR_CYCLE_DIV64 :: u32 where "PMCR_CYCLE_DIV64 = push_bit 3 1"
definition PMCNTEN_CYCLE :: u32 where "PMCNTEN_CYCLE = push_bit 31 1"

definition plat_cpu_init :: "'a cpu_world_scheme \<Rightarrow> 'a cpu_world_scheme" where
  "plat_cpu_init w =
    (let pmcr = cpu_pmcr (w_cpu w);
         pmcr = pmcr OR (PMCR_ENABLE_ALL OR PMCR_CYCLE_RESET);
         pmcr = pmcr AND NOT PMCR_CYCLE_DIV64;
         w = w\<lparr>w_cpu := (w_cpu w)\<lparr>cpu_pmcr := pmcr\<rparr>\<rparr>
     in w\<lparr>w_cpu := (w_cpu w)\<lparr>cpu_pmcnten := cpu_pmcnten (w_cpu w) OR PMCNTEN_CYCLE\<rparr>\<rparr>)"

definition plat_cpu_cycle_count :: "'a cpu_world_scheme \<Rightarrow> u32 \<times> 'a cpu_world_scheme" where
  "plat_cpu_cycle_count w =
    (cpu_readings (w_cpu w) (cpu_reads (w_cpu w)),
     w\<lparr>w_cpu := (w_cpu w)\<lparr>cpu_reads := Suc (cpu_reads (w_cpu w))\<rparr>\<rparr>)"

definition plat_cpu_cycles_per_us :: "'a cpu_world_scheme \<Rightarrow> u32" where
  "plat_cpu_cycles_per_us w = cpu_clk_hz (w_cpu w) div 1000000"

definition plat_cpu_irq_disable :: "'a cpu_world_scheme \<Rightarrow> u32 \<times> 'a cpu_world_scheme" where
  "plat_cpu_irq_disable w =
    (if cpu_irq_masked (w_cpu w) then 0x80 else 0,
     w\<lparr>w_cpu := (w_cpu w)\<lparr>cpu_irq_masked := True\<rparr>\<rparr>)"

definition plat_cpu_irq_restore :: "u32 \<Rightarrow> 'a cpu_world_scheme \<Rightarrow> 'a cpu_world_scheme" where
  "plat_cpu_irq_restore prior w =
    (if prior = 0 then w\<lparr>w_cpu := (w_cpu w)\<lparr>cpu_irq_masked := False\<rparr>\<rparr> else w)"

text \<open>A critical section leaves the mask as it found it, so sections nest: whatever the
  guarded code does to the other components, entering and leaving around it is the code
  itself, provided it leaves the processor state alone.\<close>

lemma critical_section:
  assumes "w_cpu (body (snd (plat_cpu_irq_disable w))) = w_cpu (snd (plat_cpu_irq_disable w))"
  shows "w_cpu (plat_cpu_irq_restore (fst (plat_cpu_irq_disable w))
           (body (snd (plat_cpu_irq_disable w)))) = w_cpu w"
  using assms by (simp add: plat_cpu_irq_disable_def plat_cpu_irq_restore_def)

text \<open>After initialisation the cycle counter is enabled and counts every cycle, not every 64th.\<close>

lemma plat_cpu_init_counts:
  "bit (cpu_pmcr (w_cpu (plat_cpu_init w))) 0 \<and> \<not> bit (cpu_pmcr (w_cpu (plat_cpu_init w))) 3 \<and>
   bit (cpu_pmcnten (w_cpu (plat_cpu_init w))) 31"
  by (simp add: plat_cpu_init_def Let_def PMCR_ENABLE_ALL_def PMCR_CYCLE_RESET_def PMCR_CYCLE_DIV64_def
      PMCNTEN_CYCLE_def bit_simps)

lemma plat_cpu_init_frame [simp]:
  "w\<lparr>w_cpu := w_cpu (plat_cpu_init w)\<rparr> = plat_cpu_init w"
  "cpu_world.more (plat_cpu_init w) = cpu_world.more w"
  by (simp_all add: plat_cpu_init_def Let_def)

end
