(* ===== verification/Exec_Core.thy ===== *)
theory Exec_Core
  imports Plat_Cpu
begin

section \<open>The cyclic executive: \<^verbatim>\<open>src/exec/exec_core.c\<close>\<close>

text \<open>
  The tick interrupt only counts; the loop keeps its own mirror and advances it by the
  difference. The wait for the next minor cycle sleeps until an interrupt: what happens
  during the sleeps is the argument \<open>wakes\<close>, the number of ticks taken in each
  (none, when another source woke the core), and the wait returns \<^term>\<open>None\<close> when these
  are used up with no tick pending. Interrupts can also arrive after the loop has read the
  tick counter and before it reads the major-cycle counter, in the wait and in the
  resynchronisation alike: \<open>mid\<close> of them do.
\<close>

record exec_state =
  ex_isr_ticks :: u32
  ex_isr_majors :: u32
  ex_isr_position :: u8
  ex_consumed :: u32
  ex_consumed_majors :: u32
  ex_elapsed_minor :: u64
  ex_slot :: u32
  ex_major_cycles :: u64
  ex_major_due :: bool
  ex_body_start :: u32
  ex_body_started :: bool
  ex_body_last :: u32
  ex_body_worst :: u32
  ex_overrun_events :: u32
  ex_overrun_lost :: u32
  ex_overrun_worst :: u32

record exec_world = cpu_world +
  w_exec :: exec_state

record exec_stats =
  st_minor_cycles :: u64
  st_major_cycles :: u64
  st_overrun_events :: u32
  st_overrun_cycles_lost :: u32
  st_overrun_worst :: u32
  st_body_cycles_last :: u32
  st_body_cycles_worst :: u32

text \<open>The reduction loop of \<^verbatim>\<open>advance\<close>.\<close>

function slot_reduce :: "u32 \<Rightarrow> u32" where
  "slot_reduce slot =
    (if of_nat QIRAN_MINOR_PER_MAJOR \<le> slot
     then slot_reduce (slot - of_nat QIRAN_MINOR_PER_MAJOR) else slot)"
  by pat_completeness auto
termination
proof (relation "measure unat")
  fix slot :: u32
  assume "of_nat QIRAN_MINOR_PER_MAJOR \<le> slot"
  then show "(slot - of_nat QIRAN_MINOR_PER_MAJOR, slot) \<in> measure unat"
    by (simp add: cfg_consts unat_sub word_le_nat_alt)
qed simp

declare slot_reduce.simps [simp del]

definition advance :: "u32 \<Rightarrow> exec_state \<Rightarrow> exec_state" where
  "advance pending s =
    s\<lparr>ex_slot := slot_reduce (ex_slot s + pending),
      ex_elapsed_minor := ex_elapsed_minor s + ucast pending\<rparr>"

definition exec_init :: "'a exec_world_scheme \<Rightarrow> 'a exec_world_scheme" where
  "exec_init w = w\<lparr>w_exec :=
    \<lparr>ex_isr_ticks = 0, ex_isr_majors = 0, ex_isr_position = 0, ex_consumed = 0,
     ex_consumed_majors = 0, ex_elapsed_minor = 0, ex_slot = 0, ex_major_cycles = 0,
     ex_major_due = False, ex_body_start = 0, ex_body_started = False, ex_body_last = 0,
     ex_body_worst = 0, ex_overrun_events = 0, ex_overrun_lost = 0, ex_overrun_worst = 0\<rparr>\<rparr>"

definition exec_tick :: "exec_state \<Rightarrow> exec_state" where
  "exec_tick s =
    (let s = s\<lparr>ex_isr_ticks := ex_isr_ticks s + 1\<rparr>;
         s = s\<lparr>ex_isr_position := ex_isr_position s + 1\<rparr>
     in if of_nat QIRAN_MINOR_PER_MAJOR \<le> ex_isr_position s
        then s\<lparr>ex_isr_position := 0, ex_isr_majors := ex_isr_majors s + 1\<rparr> else s)"

definition exec_on_minor_tick :: "'a exec_world_scheme \<Rightarrow> 'a exec_world_scheme" where
  "exec_on_minor_tick w = w\<lparr>w_exec := exec_tick (w_exec w)\<rparr>"

definition exec_resync :: "nat \<Rightarrow> 'a exec_world_scheme \<Rightarrow> 'a exec_world_scheme" where
  "exec_resync mid w =
    (let raw = ex_isr_ticks (w_exec w);
         s = advance (raw - ex_consumed (w_exec w)) (w_exec w);
         w = (exec_on_minor_tick ^^ mid) (w\<lparr>w_exec := s\<lparr>ex_consumed := raw\<rparr>\<rparr>);
         s = (w_exec w)\<lparr>ex_consumed_majors := ex_isr_majors (w_exec w), ex_major_due := False\<rparr>;
         (now, w) = plat_cpu_cycle_count (w\<lparr>w_exec := s\<rparr>)
     in w\<lparr>w_exec := (w_exec w)\<lparr>ex_body_start := now, ex_body_started := True\<rparr>\<rparr>)"

text \<open>Before the loop: the body of the previous cycle is timed.\<close>

definition exec_wait_begin :: "'a exec_world_scheme \<Rightarrow> 'a exec_world_scheme" where
  "exec_wait_begin w =
    (let w = (if ex_body_started (w_exec w)
              then (let (now, w) = plat_cpu_cycle_count w; s = w_exec w;
                        body = now - ex_body_start s; s = s\<lparr>ex_body_last := body\<rparr>
                    in w\<lparr>w_exec := (if ex_body_worst s < body then s\<lparr>ex_body_worst := body\<rparr> else s)\<rparr>)
              else w)
     in w\<lparr>w_exec := (w_exec w)\<lparr>ex_major_due := False\<rparr>\<rparr>)"

definition exec_pending :: "'a exec_world_scheme \<Rightarrow> u32" where
  "exec_pending w = ex_isr_ticks (w_exec w) - ex_consumed (w_exec w)"

text \<open>The wait itself: leave as soon as a tick is pending, otherwise sleep.\<close>

fun exec_wait_loop :: "nat list \<Rightarrow> 'a exec_world_scheme \<Rightarrow> 'a exec_world_scheme option" where
  "exec_wait_loop [] w = (if exec_pending w \<noteq> 0 then Some w else None)"
| "exec_wait_loop (n # wakes) w =
     (if exec_pending w \<noteq> 0 then Some w
      else exec_wait_loop wakes ((exec_on_minor_tick ^^ n) w))"

definition exec_account :: "u32 \<Rightarrow> u32 \<Rightarrow> exec_state \<Rightarrow> exec_state" where
  "exec_account raw pending s =
    (let s = (if 1 < pending
              then (let lost = pending - 1;
                        s = s\<lparr>ex_overrun_events := ex_overrun_events s + 1,
                              ex_overrun_lost := ex_overrun_lost s + lost\<rparr>
                    in if ex_overrun_worst s < lost then s\<lparr>ex_overrun_worst := lost\<rparr> else s)
              else s)
     in advance pending (s\<lparr>ex_consumed := raw\<rparr>))"

definition exec_majors :: "exec_state \<Rightarrow> exec_state" where
  "exec_majors s =
    (if ex_isr_majors s \<noteq> ex_consumed_majors s
     then s\<lparr>ex_consumed_majors := ex_isr_majors s, ex_major_due := True,
            ex_major_cycles := ex_major_cycles s + 1\<rparr>
     else s)"

definition exec_wait_end :: "nat \<Rightarrow> 'a exec_world_scheme \<Rightarrow> 'a exec_world_scheme" where
  "exec_wait_end mid w =
    (let w = w\<lparr>w_exec := exec_account (ex_isr_ticks (w_exec w)) (exec_pending w) (w_exec w)\<rparr>;
         w = (exec_on_minor_tick ^^ mid) w;
         (now, w) = plat_cpu_cycle_count (w\<lparr>w_exec := exec_majors (w_exec w)\<rparr>)
     in w\<lparr>w_exec := (w_exec w)\<lparr>ex_body_start := now, ex_body_started := True\<rparr>\<rparr>)"

definition exec_wait_for_minor_tick ::
  "nat list \<Rightarrow> nat \<Rightarrow> 'a exec_world_scheme \<Rightarrow> 'a exec_world_scheme option" where
  "exec_wait_for_minor_tick wakes mid w =
    map_option (exec_wait_end mid) (exec_wait_loop wakes (exec_wait_begin w))"

definition exec_major_tick_due :: "'a exec_world_scheme \<Rightarrow> bool" where
  "exec_major_tick_due w = ex_major_due (w_exec w)"

definition exec_minor_tick_count :: "'a exec_world_scheme \<Rightarrow> u64" where
  "exec_minor_tick_count w = ex_elapsed_minor (w_exec w)"

definition exec_raw_tick_count :: "'a exec_world_scheme \<Rightarrow> u32" where
  "exec_raw_tick_count w = ex_isr_ticks (w_exec w)"

definition exec_slot :: "'a exec_world_scheme \<Rightarrow> u32" where
  "exec_slot w = ex_slot (w_exec w)"

definition exec_stats_get :: "'a exec_world_scheme \<Rightarrow> exec_stats" where
  "exec_stats_get w =
    (let s = w_exec w in
     \<lparr>st_minor_cycles = ex_elapsed_minor s - ucast (ex_overrun_lost s),
      st_major_cycles = ex_major_cycles s,
      st_overrun_events = ex_overrun_events s,
      st_overrun_cycles_lost = ex_overrun_lost s,
      st_overrun_worst = ex_overrun_worst s,
      st_body_cycles_last = ex_body_last s,
      st_body_cycles_worst = ex_body_worst s\<rparr>)"

definition exec_budget_cycles :: "'a exec_world_scheme \<Rightarrow> u32" where
  "exec_budget_cycles w = plat_cpu_cycles_per_us w * 1000 * of_nat QIRAN_MINOR_CYCLE_MS"

definition exec_cycles_to_us :: "u32 \<Rightarrow> 'a exec_world_scheme \<Rightarrow> u32" where
  "exec_cycles_to_us cycles w =
    (let per_us = plat_cpu_cycles_per_us w in if per_us = 0 then 0 else cycles div per_us)"

subsection \<open>Runs of the executive\<close>

text \<open>The ticks taken while asleep in the wait.\<close>

fun exec_wait_ticks :: "nat list \<Rightarrow> 'a exec_world_scheme \<Rightarrow> nat" where
  "exec_wait_ticks [] w = 0"
| "exec_wait_ticks (n # wakes) w =
     (if exec_pending w \<noteq> 0 then 0
      else n + exec_wait_ticks wakes ((exec_on_minor_tick ^^ n) w))"

text \<open>
  The states the executive reaches, with true counts kept beside them as natural numbers:
  \<open>T\<close> ticks taken by the interrupt, \<open>C\<close> collected by the loop, \<open>K\<close> taken when the loop
  last read the major count, \<open>N\<close> minor cycles begun, \<open>R\<close> ticks discarded by resynchronising.
  Ticks come at any time, and the rest of the software may change anything but the executive.
  The backlog stays below one wrap of the tick counter, two years and eight months of ticks.
\<close>

abbreviation backlog_ok :: "nat \<Rightarrow> bool" where
  "backlog_ok n \<equiv> n < 4294967271"

inductive exec_reach ::
  "nat \<Rightarrow> nat \<Rightarrow> nat \<Rightarrow> nat \<Rightarrow> nat \<Rightarrow> 'a exec_world_scheme \<Rightarrow> bool" where
  init: "exec_reach 0 0 0 0 0 (exec_init w)"
| tick: "exec_reach T C K N R w \<Longrightarrow> exec_reach (Suc T) C K N R (exec_on_minor_tick w)"
| wait: "exec_reach T C K N R w \<Longrightarrow> exec_wait_for_minor_tick wakes mid w = Some w1 \<Longrightarrow>
    t = T + exec_wait_ticks wakes (exec_wait_begin w) \<Longrightarrow> backlog_ok (t + mid - C) \<Longrightarrow>
    exec_reach (t + mid) t (t + mid) (Suc N) R w1"
| resync: "exec_reach T C K N R w \<Longrightarrow> backlog_ok (T + mid - C) \<Longrightarrow>
    exec_reach (T + mid) T (T + mid) N (R + (T - C)) (exec_resync mid w)"
| other: "exec_reach T C K N R w \<Longrightarrow> w_exec w1 = w_exec w \<Longrightarrow> exec_reach T C K N R w1"

definition exec_counts :: "nat \<Rightarrow> nat \<Rightarrow> nat \<Rightarrow> nat \<Rightarrow> nat \<Rightarrow> exec_state \<Rightarrow> bool" where
  "exec_counts T C K N R s \<longleftrightarrow>
    ex_isr_ticks s = of_nat T \<and> ex_isr_position s = of_nat (T mod 25) \<and>
    ex_isr_majors s = of_nat (T div 25) \<and> ex_consumed s = of_nat C \<and>
    ex_elapsed_minor s = of_nat C \<and> ex_slot s = of_nat (C mod 25) \<and>
    ex_consumed_majors s = of_nat (K div 25) \<and>
    ex_overrun_lost s = of_nat (C - N - R) \<and> N + R \<le> C \<and> C \<le> K \<and> K \<le> T"

lemma slot_reduce_mod: "unat (slot_reduce s) = unat s mod 25"
proof (induction s rule: slot_reduce.induct)
  case (1 s)
  show ?case
  proof (cases "of_nat QIRAN_MINOR_PER_MAJOR \<le> s")
    case True
    then have "25 \<le> unat s" by (simp add: cfg_consts word_le_nat_alt)
    then have "unat (s - 25) mod 25 = unat s mod 25"
      by (simp add: unat_sub word_le_nat_alt le_mod_geq)
    then show ?thesis using 1 True by (simp add: slot_reduce.simps [of s] cfg_consts)
  next
    case False
    then show ?thesis
      by (simp add: slot_reduce.simps [of s] cfg_consts word_le_nat_alt)
  qed
qed

lemma slot_reduce_small: "s < 25 \<Longrightarrow> slot_reduce s = s"
  by (simp add: slot_reduce.simps [of s] cfg_consts linorder_not_le [symmetric])

lemma exec_counts_tick:
  assumes "exec_counts T C K N R s"
  shows "exec_counts (Suc T) C K N R (exec_tick s)"
proof -
  have pos: "unat (of_nat (T mod 25) + 1 :: u8) = Suc (T mod 25)"
    by (simp add: unat_word_ariths unat_of_nat)
  have ge: "(25 :: u8) \<le> of_nat (T mod 25) + 1 \<longleftrightarrow> T mod 25 = 24"
    unfolding word_le_nat_alt pos using mod_less_divisor [of 25 T] by auto
  have s1: "Suc T mod 25 = (if T mod 25 = 24 then 0 else Suc (T mod 25))"
    by (simp add: mod_Suc)
  have s2: "Suc T div 25 = (if T mod 25 = 24 then Suc (T div 25) else T div 25)"
    by (simp add: div_Suc mod_Suc)
  show ?thesis
    using assms ge
    by (auto simp: exec_counts_def exec_tick_def Let_def cfg_consts s1 s2 add.commute)
qed

lemma exec_on_minor_tick_exec [simp]: "w_exec (exec_on_minor_tick w) = exec_tick (w_exec w)"
  by (simp add: exec_on_minor_tick_def)

lemma exec_counts_ticks:
  "exec_counts T C K N R (w_exec w) \<Longrightarrow>
   exec_counts (T + n) C K N R (w_exec ((exec_on_minor_tick ^^ n) w))"
  by (induction n) (simp_all add: exec_counts_tick)

lemma exec_counts_pending:
  assumes "exec_counts T C K N R s" "T - C < 4294967296"
  shows "unat (ex_isr_ticks s - ex_consumed s) = T - C"
proof -
  have "C \<le> T" using assms by (simp add: exec_counts_def)
  then have "ex_isr_ticks s - ex_consumed s = of_nat (T - C)"
    using assms by (simp add: exec_counts_def of_nat_diff)
  then show ?thesis using assms(2) by (simp add: unat_of_nat)
qed

lemma exec_counts_advance:
  assumes "C \<le> T" "backlog_ok (T - C)" "ex_slot s = of_nat (C mod 25)" "ex_elapsed_minor s = of_nat C"
    and "unat p = T - C"
  shows "ex_slot (advance p s) = of_nat (T mod 25)" "ex_elapsed_minor (advance p s) = of_nat T"
proof -
  have c: "C mod 25 < 25" by simp
  have "unat (ex_slot s + p) = C mod 25 + (T - C)"
    using assms c by (simp add: unat_word_ariths unat_of_nat)
  then have "unat (slot_reduce (ex_slot s + p)) = (C mod 25 + (T - C)) mod 25"
    by (simp add: slot_reduce_mod)
  also have "\<dots> = (C + (T - C)) mod 25" by (rule mod_add_left_eq)
  also have "\<dots> = T mod 25" using assms(1) by simp
  finally show "ex_slot (advance p s) = of_nat (T mod 25)"
    by (simp add: advance_def unat_eq_of_nat)
  have "unat (ucast p :: u64) = T - C"
    using assms(5) unat_u32_less [of p] by (simp add: unsigned_ucast_eq take_bit_eq_mod)
  then have "(ucast p :: u64) = of_nat (T - C)" by (rule unat_eq_of_nat)
  then show "ex_elapsed_minor (advance p s) = of_nat T"
    using assms(1,4) by (simp add: advance_def of_nat_diff)
qed

lemma exec_account_fields:
  "ex_isr_ticks (exec_account raw p s) = ex_isr_ticks s"
  "ex_isr_position (exec_account raw p s) = ex_isr_position s"
  "ex_isr_majors (exec_account raw p s) = ex_isr_majors s"
  "ex_consumed (exec_account raw p s) = raw"
  "ex_consumed_majors (exec_account raw p s) = ex_consumed_majors s"
  "ex_slot (exec_account raw p s) = ex_slot (advance p s)"
  "ex_elapsed_minor (exec_account raw p s) = ex_elapsed_minor (advance p s)"
  "ex_major_due (exec_account raw p s) = ex_major_due s"
  "ex_overrun_lost (exec_account raw p s) =
     (if 1 < p then ex_overrun_lost s + (p - 1) else ex_overrun_lost s)"
  by (simp_all add: exec_account_def advance_def Let_def)

lemma exec_counts_account:
  assumes "exec_counts T C K N R s" "backlog_ok (T - C)" "C < T" "unat p = T - C"
  shows "ex_overrun_lost (exec_account (ex_isr_ticks s) p s) = of_nat (T - Suc N - R)"
    and "ex_slot (exec_account (ex_isr_ticks s) p s) = of_nat (T mod 25)"
    and "ex_elapsed_minor (exec_account (ex_isr_ticks s) p s) = of_nat T"
proof -
  have sl: "ex_slot s = of_nat (C mod 25)" "ex_elapsed_minor s = of_nat C" "C \<le> T" "N + R \<le> C"
      "ex_overrun_lost s = of_nat (C - N - R)"
    using assms(1) by (auto simp: exec_counts_def)
  have one: "1 < p \<longleftrightarrow> 1 < T - C" by (simp add: word_less_nat_alt assms(4))
  have pw: "p = of_nat (T - C)" using assms(4) by (rule unat_eq_of_nat)
  have split: "T - Suc N - R = (C - N - R) + (T - C - 1)" using sl assms(3) by simp
  have "p - 1 = of_nat (T - C - 1)" using assms(3) by (simp add: pw of_nat_diff)
  then have "of_nat (T - Suc N - R) = (of_nat (C - N - R) + (p - 1) :: u32)"
    unfolding split by (simp only: of_nat_add)
  moreover have "\<not> 1 < T - C \<Longrightarrow> T - Suc N - R = C - N - R" using sl assms(3) by simp
  ultimately show "ex_overrun_lost (exec_account (ex_isr_ticks s) p s) = of_nat (T - Suc N - R)"
    unfolding exec_account_fields one sl(5) by (cases "1 < T - C") simp_all
  show "ex_slot (exec_account (ex_isr_ticks s) p s) = of_nat (T mod 25)"
    and "ex_elapsed_minor (exec_account (ex_isr_ticks s) p s) = of_nat T"
    using exec_counts_advance [OF sl(3) assms(2) sl(1,2) assms(4)]
    by (simp_all add: exec_account_fields)
qed

lemma exec_counts_ticks_majors:
  assumes "exec_counts T C T N R ((w_exec w)\<lparr>ex_consumed_majors := of_nat (T div 25)\<rparr>)"
  shows "exec_counts (T + n) C (T + n) N R ((w_exec ((exec_on_minor_tick ^^ n) w))
      \<lparr>ex_consumed_majors := ex_isr_majors (w_exec ((exec_on_minor_tick ^^ n) w))\<rparr>)"
    and "ex_consumed_majors (w_exec ((exec_on_minor_tick ^^ n) w)) = ex_consumed_majors (w_exec w)"
proof -
  have tick: "exec_tick (s\<lparr>ex_consumed_majors := m\<rparr>) = exec_tick s\<lparr>ex_consumed_majors := m\<rparr>"
      "ex_consumed_majors (exec_tick s) = ex_consumed_majors s" for s m
    by (simp_all add: exec_tick_def Let_def)
  have "exec_counts (T + n) C T N R
      ((w_exec ((exec_on_minor_tick ^^ n) w))\<lparr>ex_consumed_majors := of_nat (T div 25)\<rparr>)"
  proof (induction n)
    case 0
    then show ?case using assms by simp
  next
    case (Suc n)
    then have "exec_counts (Suc (T + n)) C T N R
        (exec_tick (w_exec ((exec_on_minor_tick ^^ n) w)\<lparr>ex_consumed_majors := of_nat (T div 25)\<rparr>))"
      by (intro exec_counts_tick) simp
    then show ?case by (simp add: tick)
  qed
  then show "exec_counts (T + n) C (T + n) N R ((w_exec ((exec_on_minor_tick ^^ n) w))
      \<lparr>ex_consumed_majors := ex_isr_majors (w_exec ((exec_on_minor_tick ^^ n) w))\<rparr>)"
    by (simp add: exec_counts_def)
  show "ex_consumed_majors (w_exec ((exec_on_minor_tick ^^ n) w)) = ex_consumed_majors (w_exec w)"
    by (induction n) (simp_all add: tick)
qed

lemma exec_ticks_due: "ex_major_due (w_exec ((exec_on_minor_tick ^^ n) w)) = ex_major_due (w_exec w)"
  by (induction n) (simp_all add: exec_tick_def Let_def)

text \<open>One whole collection: account the backlog, let \<open>mid\<close> further ticks in, read the majors.\<close>

lemma exec_counts_collect:
  assumes c: "exec_counts T C K N R (w_exec w)" and b: "backlog_ok (T - C)" "C < T"
  shows "exec_counts (T + mid) T (T + mid) (Suc N) R (w_exec (exec_wait_end mid w))"
    and "ex_major_due (w_exec (exec_wait_end mid w)) \<longleftrightarrow>
      ex_major_due (w_exec w) \<or> (of_nat ((T + mid) div 25) :: u32) \<noteq> of_nat (K div 25)"
proof -
  let ?s = "w_exec w"
  define s1 where "s1 = exec_account (ex_isr_ticks ?s) (exec_pending w) ?s"
  define w1 where "w1 = w\<lparr>w_exec := s1\<rparr>"
  define w2 where "w2 = (exec_on_minor_tick ^^ mid) w1"
  have p: "unat (exec_pending w) = T - C"
    unfolding exec_pending_def using c b(1) by (intro exec_counts_pending) auto
  have le: "C \<le> K" "K \<le> T" "N + R \<le> C" using c by (auto simp: exec_counts_def)
  have "exec_counts T T T (Suc N) R ((w_exec w1)\<lparr>ex_consumed_majors := of_nat (T div 25)\<rparr>)"
    using c exec_counts_account [OF c b p] le b(2)
    by (simp add: exec_counts_def exec_account_fields s1_def w1_def)
  note tk = exec_counts_ticks_majors [OF this, of mid, folded w2_def]
  have cm: "ex_consumed_majors (w_exec w2) = of_nat (K div 25)"
    using tk(2) c by (simp add: w1_def s1_def exec_account_fields exec_counts_def)
  have due: "ex_major_due (w_exec w2) = ex_major_due ?s"
    by (simp add: w2_def exec_ticks_due w1_def s1_def exec_account_fields)
  have maj: "ex_isr_majors (w_exec w2) = of_nat ((T + mid) div 25)"
    using tk(1) by (simp add: exec_counts_def)
  have end_eq: "w_exec (exec_wait_end mid w) =
      (exec_majors (w_exec w2))\<lparr>ex_body_start := cpu_readings (w_cpu w2) (cpu_reads (w_cpu w2)),
        ex_body_started := True\<rparr>"
    by (simp add: exec_wait_end_def Let_def plat_cpu_cycle_count_def w2_def w1_def s1_def)
  show "exec_counts (T + mid) T (T + mid) (Suc N) R (w_exec (exec_wait_end mid w))"
    using tk(1) by (simp add: end_eq exec_majors_def exec_counts_def)
  show "ex_major_due (w_exec (exec_wait_end mid w)) \<longleftrightarrow>
      ex_major_due ?s \<or> (of_nat ((T + mid) div 25) :: u32) \<noteq> of_nat (K div 25)"
    by (simp add: end_eq exec_majors_def cm due maj)
qed

lemma exec_counts_begin:
  "exec_counts T C K N R (w_exec w) \<Longrightarrow> exec_counts T C K N R (w_exec (exec_wait_begin w))"
  by (simp add: exec_wait_begin_def plat_cpu_cycle_count_def Let_def exec_counts_def)

lemma exec_begin_not_due: "\<not> ex_major_due (w_exec (exec_wait_begin w))"
  by (simp add: exec_wait_begin_def Let_def split: prod.splits)

lemma exec_begin_pending [simp]: "exec_pending (exec_wait_begin w) = exec_pending w"
  by (simp add: exec_wait_begin_def plat_cpu_cycle_count_def Let_def exec_pending_def)

lemma exec_counts_wait_loop:
  assumes "exec_wait_loop wakes w = Some w1" "exec_counts T C K N R (w_exec w)"
  shows "exec_counts (T + exec_wait_ticks wakes w) C K N R (w_exec w1)"
    and "exec_pending w1 \<noteq> 0" and "ex_major_due (w_exec w1) = ex_major_due (w_exec w)"
proof -
  have "exec_counts (T + exec_wait_ticks wakes w) C K N R (w_exec w1) \<and> exec_pending w1 \<noteq> 0 \<and>
    ex_major_due (w_exec w1) = ex_major_due (w_exec w)"
    using assms
  proof (induction wakes w arbitrary: T rule: exec_wait_loop.induct)
    case (2 n wakes w)
    show ?case
    proof (cases "exec_pending w = 0")
      case True
      have "exec_counts (T + n) C K N R (w_exec ((exec_on_minor_tick ^^ n) w))"
        using 2(3) by (rule exec_counts_ticks)
      then show ?thesis using 2(1,2) True by (fastforce simp: exec_ticks_due add.assoc)
    next
      case False
      then show ?thesis using 2 by simp
    qed
  qed (auto split: if_splits)
  then show "exec_counts (T + exec_wait_ticks wakes w) C K N R (w_exec w1)"
    and "exec_pending w1 \<noteq> 0" and "ex_major_due (w_exec w1) = ex_major_due (w_exec w)"
    by auto
qed

lemma exec_counts_wait:
  assumes c: "exec_counts T C K N R (w_exec w)"
    and r: "exec_wait_for_minor_tick wakes mid w = Some w1"
    and t: "t = T + exec_wait_ticks wakes (exec_wait_begin w)" and b: "backlog_ok (t + mid - C)"
  shows "exec_counts (t + mid) t (t + mid) (Suc N) R (w_exec w1)" and "C < t"
    and "ex_major_due (w_exec w1) \<longleftrightarrow> (of_nat ((t + mid) div 25) :: u32) \<noteq> of_nat (K div 25)"
proof -
  obtain w2 where w2: "exec_wait_loop wakes (exec_wait_begin w) = Some w2" "w1 = exec_wait_end mid w2"
    using r by (auto simp: exec_wait_for_minor_tick_def)
  note l = exec_counts_wait_loop [OF w2(1) exec_counts_begin [OF c], folded t]
  have b': "backlog_ok (t - C)" using b by simp
  have "unat (exec_pending w2) = t - C"
    unfolding exec_pending_def using l(1) b' by (intro exec_counts_pending) auto
  then show lt: "C < t" using l(2) unat_eq_zero by fastforce
  show "exec_counts (t + mid) t (t + mid) (Suc N) R (w_exec w1)"
    using exec_counts_collect(1) [OF l(1) b' lt] w2(2) by simp
  show "ex_major_due (w_exec w1) \<longleftrightarrow> (of_nat ((t + mid) div 25) :: u32) \<noteq> of_nat (K div 25)"
    using exec_counts_collect(2) [OF l(1) b' lt] w2(2) l(3) exec_begin_not_due [of w] by simp
qed

lemma exec_counts_resync:
  assumes c: "exec_counts T C K N R (w_exec w)" and b: "backlog_ok (T + mid - C)"
  shows "exec_counts (T + mid) T (T + mid) N (R + (T - C)) (w_exec (exec_resync mid w))"
proof -
  let ?s = "w_exec w"
  have le: "C \<le> T" "N + R \<le> C" using c by (auto simp: exec_counts_def)
  have b': "backlog_ok (T - C)" using b by simp
  have p: "unat (ex_isr_ticks ?s - ex_consumed ?s) = T - C"
    using c b' by (intro exec_counts_pending) auto
  have e: "T - N - (R + (T - C)) = C - N - R" using le by simp
  define s1 where "s1 = advance (ex_isr_ticks ?s - ex_consumed ?s) ?s"
  define w1 where "w1 = w\<lparr>w_exec := s1\<lparr>ex_consumed := ex_isr_ticks ?s\<rparr>\<rparr>"
  have sl: "ex_slot s1 = of_nat (T mod 25)" "ex_elapsed_minor s1 = of_nat T"
    using c le exec_counts_advance [of C T "w_exec w", OF le(1) b' _ _ p]
    by (auto simp: exec_counts_def s1_def)
  have "exec_counts T T T N (R + (T - C)) ((w_exec w1)\<lparr>ex_consumed_majors := of_nat (T div 25)\<rparr>)"
    using c le sl by (simp add: exec_counts_def w1_def e) (simp add: s1_def advance_def)
  from exec_counts_ticks_majors(1) [OF this, of mid] show ?thesis
    by (simp add: exec_resync_def Let_def plat_cpu_cycle_count_def w1_def s1_def exec_counts_def)
qed

lemma exec_reach_counts: "exec_reach T C K N R w \<Longrightarrow> exec_counts T C K N R (w_exec w)"
proof (induction rule: exec_reach.induct)
  case (init w)
  then show ?case by (simp add: exec_counts_def exec_init_def)
next
  case (tick T C K N R w)
  then show ?case by (simp add: exec_on_minor_tick_def exec_counts_tick)
next
  case (wait T C K N R w wakes mid w1 t)
  then show ?case using exec_counts_wait(1) by blast
next
  case (resync T C K N R w)
  then show ?case using exec_counts_resync by blast
next
  case (other T C K N R w w1)
  then show ?case by simp
qed

lemma backlog_of_nat_neq:
  assumes "K \<le> T" "T - K < 4294967271"
  shows "(of_nat (T div 25) :: u32) = of_nat (K div 25) \<longleftrightarrow> T div 25 = K div 25"
proof
  assume eq: "(of_nat (T div 25) :: u32) = of_nat (K div 25)"
  have le: "K div 25 \<le> T div 25" using assms(1) by (rule div_le_mono)
  have "(of_nat (T div 25 - K div 25) :: u32) = 0" using eq le by (simp add: of_nat_diff)
  then have "unat (of_nat (T div 25 - K div 25) :: u32) = 0" by simp
  moreover have "T div 25 - K div 25 < 4294967296" using assms by arith
  ultimately have "T div 25 - K div 25 = 0" by (simp only: unat_of_nat_eq_u32)
  then show "T div 25 = K div 25" using le by simp
qed simp

subsection \<open>Properties\<close>

text \<open>C14: In every state the executive can reach, the minor-cycle count is the number of ticks
  collected, the slot is that count modulo the 25 minor cycles of a major cycle whatever was
  overrun, and every tick collected is a minor cycle begun, one charged as lost to an overrun,
  or one discarded by a resynchronisation: nothing is lost silently.\<close>

theorem exec_tick_accounting:
  assumes "exec_reach T C K N R w" "T < 2 ^ 32"
  shows "unat (exec_minor_tick_count w) = C \<and> unat (exec_raw_tick_count w) = T \<and>
    unat (exec_slot w) = C mod 25 \<and>
    unat (st_overrun_cycles_lost (exec_stats_get w)) = C - (N + R) \<and> N + R \<le> C \<and> C \<le> T \<and>
    unat (st_minor_cycles (exec_stats_get w)) = N + R"
proof -
  let ?s = "w_exec w"
  have c: "exec_counts T C K N R ?s" using assms(1) by (rule exec_reach_counts)
  then have le: "N + R \<le> C" "C \<le> T" by (auto simp: exec_counts_def)
  have u64: "unat (of_nat n :: u64) = n" if "n < 4294967296" for n
    using that by (simp add: unat_of_nat)
  have "ex_overrun_lost ?s = of_nat (C - N - R)" using c unfolding exec_counts_def by blast
  then have lost: "unat (ex_overrun_lost ?s) = C - (N + R)"
    using unat_of_nat_eq_u32 [of "C - (N + R)"] le assms(2) by (simp add: diff_diff_left del: of_nat_diff)
  have "unat (ucast (ex_overrun_lost ?s) :: u64) = C - (N + R)"
    using lost unat_u32_less [of "ex_overrun_lost ?s"] by (simp add: unsigned_ucast_eq take_bit_eq_mod)
  then have "(ucast (ex_overrun_lost ?s) :: u64) = of_nat (C - (N + R))" by (rule unat_eq_of_nat)
  moreover have "ex_elapsed_minor ?s = of_nat C" using c by (simp add: exec_counts_def)
  ultimately have m: "st_minor_cycles (exec_stats_get w) = of_nat (N + R)"
    using le by (simp add: exec_stats_get_def Let_def of_nat_diff)
  have "C mod 25 < 4294967296" using mod_less_divisor [of 25 C] by linarith
  moreover have "unat (st_minor_cycles (exec_stats_get w)) = N + R"
    unfolding m using le assms(2) by (intro u64) simp
  moreover have "st_overrun_cycles_lost (exec_stats_get w) = ex_overrun_lost ?s"
    by (simp add: exec_stats_get_def Let_def)
  ultimately show ?thesis
    using c le assms(2) lost
    by (simp add: exec_counts_def exec_minor_tick_count_def exec_raw_tick_count_def exec_slot_def
        unat_of_nat_eq_u32 u64 del: of_nat_diff of_nat_add)
qed

definition exec_world0 :: "exec_world" where
  "exec_world0 = \<lparr>w_cpu = \<lparr>cpu_irq_masked = False, cpu_readings = (\<lambda>n. of_nat (100 * n)),
    cpu_reads = 0, cpu_clk_hz = 666000000, cpu_pmcr = 0, cpu_pmcnten = 0\<rparr>,
    w_exec = \<lparr>ex_isr_ticks = 0, ex_isr_majors = 0, ex_isr_position = 0, ex_consumed = 0,
      ex_consumed_majors = 0, ex_elapsed_minor = 0, ex_slot = 0, ex_major_cycles = 0,
      ex_major_due = False, ex_body_start = 0, ex_body_started = False, ex_body_last = 0,
      ex_body_worst = 0, ex_overrun_events = 0, ex_overrun_lost = 0, ex_overrun_worst = 0\<rparr>\<rparr>"

text \<open>A run of it: asleep, woken once by another interrupt, then by three ticks at once.\<close>

definition exec_world1 :: "exec_world" where
  "exec_world1 = the (exec_wait_for_minor_tick [0, 3] 1 (exec_init exec_world0))"

lemmas exec_eval =
  exec_world0_def exec_init_def exec_wait_for_minor_tick_def exec_wait_begin_def
  exec_pending_def exec_on_minor_tick_def exec_tick_def exec_wait_end_def exec_account_def
  exec_majors_def advance_def slot_reduce_small plat_cpu_cycle_count_def Let_def cfg_consts

lemma exec_world1_wait:
  "exec_wait_for_minor_tick [0, 3] 1 (exec_init exec_world0) = Some exec_world1"
  "exec_wait_ticks [0, 3] (exec_wait_begin (exec_init exec_world0)) = 3"
  by (simp_all add: exec_world1_def exec_eval numeral_3_eq_3)

lemma exec_world1_reach: "exec_reach 4 3 4 1 0 exec_world1"
proof -
  have t: "3 = 0 + exec_wait_ticks [0, 3] (exec_wait_begin (exec_init exec_world0))"
    unfolding exec_world1_wait(2) by simp
  have b: "backlog_ok (3 + 1 - 0)" by simp
  show ?thesis
    using exec_reach.wait [OF exec_reach.init exec_world1_wait(1) t b] by (simp only: One_nat_def) simp
qed

theorem exec_tick_accounting_witness:
  "unat (exec_slot exec_world1) = 3 \<and>
   unat (st_overrun_cycles_lost (exec_stats_get exec_world1)) = 2 \<and>
   unat (st_minor_cycles (exec_stats_get exec_world1)) = 1"
  using exec_tick_accounting [OF exec_world1_reach] by simp

text \<open>The major cycle is due in the cycle the wait opens exactly when a multiple of 25 ticks
  lies between the last read of the major count and this one, so an overrun that carries the
  loop past the boundary does not lose it.\<close>

theorem exec_major_due_iff:
  assumes "exec_reach T C K N R w" "exec_wait_for_minor_tick wakes mid w = Some w1"
    and "t = T + exec_wait_ticks wakes (exec_wait_begin w) + mid" "backlog_ok (t - C)"
  shows "exec_major_tick_due w1 \<longleftrightarrow> t div 25 \<noteq> K div 25"
proof -
  have c: "exec_counts T C K N R (w_exec w)" using assms(1) by (rule exec_reach_counts)
  then have "C \<le> K" "K \<le> T" by (auto simp: exec_counts_def)
  then have k: "K \<le> t" "t - K < 4294967271" using assms(3,4) by auto
  show ?thesis
    unfolding exec_major_tick_due_def
    using exec_counts_wait(3) [OF c assms(2) refl] assms(3,4) backlog_of_nat_neq [OF k] by simp
qed

theorem exec_major_due_iff_witness: "\<not> exec_major_tick_due exec_world1"
  using exec_major_due_iff [OF exec_reach.init [of exec_world0] exec_world1_wait(1) refl]
  by (simp add: exec_world1_wait(2))

text \<open>The wait returns exactly when a tick is already pending or one is taken in one of the
  sleeps: interrupts from other sources do not end it, and no tick can be missed by it.\<close>

theorem exec_wait_returns:
  assumes "\<forall>n \<in> set wakes. n < 2 ^ 32"
  shows "exec_wait_for_minor_tick wakes mid w \<noteq> None \<longleftrightarrow>
    exec_raw_tick_count w \<noteq> ex_consumed (w_exec w) \<or> (\<exists>n \<in> set wakes. n \<noteq> 0)"
proof -
  have tick: "exec_pending ((exec_on_minor_tick ^^ n) v) = exec_pending v + of_nat n"
    for n and v :: "'a exec_world_scheme"
  proof -
    have "ex_isr_ticks (w_exec ((exec_on_minor_tick ^^ n) v)) = ex_isr_ticks (w_exec v) + of_nat n \<and>
      ex_consumed (w_exec ((exec_on_minor_tick ^^ n) v)) = ex_consumed (w_exec v)"
      by (induction n) (simp_all add: exec_tick_def Let_def)
    then show ?thesis by (simp add: exec_pending_def)
  qed
  have loop: "exec_wait_loop wakes v \<noteq> None \<longleftrightarrow> exec_pending v \<noteq> 0 \<or> (\<exists>n \<in> set wakes. n \<noteq> 0)"
    for v :: "'a exec_world_scheme"
    using assms
  proof (induction wakes arbitrary: v)
    case (Cons n wakes)
    have "(of_nat n :: u32) = 0 \<longleftrightarrow> n = 0"
      using Cons.prems unat_of_nat_eq_u32 [of n] by auto
    then show ?case
      using Cons.IH [of "(exec_on_minor_tick ^^ n) v"] Cons.prems tick [of n v] by auto
  qed simp
  show ?thesis
    using loop [of "exec_wait_begin w"]
    by (simp add: exec_wait_for_minor_tick_def exec_pending_def [of w] exec_raw_tick_count_def)
qed

theorem exec_wait_returns_witness:
  "exec_wait_for_minor_tick [0, 0, 2] 0 (exec_init exec_world0) \<noteq> None \<and>
   exec_wait_for_minor_tick [0, 0] 0 (exec_init exec_world0) = None"
proof -
  have "ex_consumed (w_exec (exec_init exec_world0)) = 0"
    "exec_raw_tick_count (exec_init exec_world0) = 0"
    by (simp_all add: exec_raw_tick_count_def exec_init_def)
  then show ?thesis
    using exec_wait_returns [of "[0, 0, 2]" 0 "exec_init exec_world0"]
      exec_wait_returns [of "[0, 0]" 0 "exec_init exec_world0"]
    by simp
qed

text \<open>
  A tick that arrives between the two counter reads of one wait is seen by the second read
  only: the loop then begins slot 24 with the major cycle already due, and slot 0 without it.
\<close>

lemma exec_major_due_early:
  assumes "exec_reach T C K N R w" "exec_wait_for_minor_tick wakes 1 w = Some w1"
    and "t = T + exec_wait_ticks wakes (exec_wait_begin w)" "backlog_ok (t + 1 - C)"
    and "t mod 25 = 24" "K div 25 = t div 25"
  shows "exec_slot w1 = 24 \<and> exec_major_tick_due w1"
proof -
  have c: "exec_counts T C K N R (w_exec w)" using assms(1) by (rule exec_reach_counts)
  then have k: "K \<le> t + 1" "t + 1 - K < 4294967271" using assms(3,4) by (auto simp: exec_counts_def)
  have "(t + 1) div 25 = Suc (t div 25)" using assms(5) by (simp add: div_Suc mod_Suc)
  then have d: "(t + 1) div 25 \<noteq> K div 25" using assms(6) by simp
  show ?thesis
    using exec_counts_wait [OF c assms(2,3,4)] backlog_of_nat_neq [OF k] d assms(5)
    by (simp add: exec_counts_def exec_slot_def exec_major_tick_due_def)
qed

end
