(* ===== verification/Exec_Sched.thy ===== *)
theory Exec_Sched
  imports Exec_Core
begin

section \<open>The task list and its timing: \<^verbatim>\<open>src/exec/exec_sched.c\<close>\<close>

text \<open>
  The fixed task table, the per-task measurements taken around each call of the loop, and the
  schedulability check. \<^term>\<open>EXEC_TASK_COUNT\<close> stands for every identifier out of range.
  The names of the tasks are in \<open>Exec_Major\<close>.
\<close>

datatype exec_task_id =
    EXEC_TASK_INTERRUPTS | EXEC_TASK_HEALTH_CHECK | EXEC_TASK_COMMS | EXEC_TASK_TELECOMMAND
  | EXEC_TASK_PL_CONTROL | EXEC_TASK_DATA_PATH | EXEC_TASK_FDIR | EXEC_TASK_HEALTH_CONSOLIDATE
  | EXEC_TASK_TELEMETRY | EXEC_TASK_MAJOR | EXEC_TASK_WATCHDOG | EXEC_TASK_COUNT

definition exec_tasks :: "exec_task_id list" where
  "exec_tasks = [EXEC_TASK_INTERRUPTS, EXEC_TASK_HEALTH_CHECK, EXEC_TASK_COMMS, EXEC_TASK_TELECOMMAND,
     EXEC_TASK_PL_CONTROL, EXEC_TASK_DATA_PATH, EXEC_TASK_FDIR, EXEC_TASK_HEALTH_CONSOLIDATE,
     EXEC_TASK_TELEMETRY, EXEC_TASK_MAJOR, EXEC_TASK_WATCHDOG]"

datatype exec_cycle_class = EXEC_CYCLE_MINOR | EXEC_CYCLE_MAJOR | EXEC_CYCLE_SPREAD

record exec_task_def =
  td_cycle :: exec_cycle_class
  td_period_slots :: u16
  td_phase_slot :: u16
  td_estimate_us :: u32

record exec_task_stat =
  ts_runs :: u32
  ts_cycles_last :: u32
  ts_cycles_worst :: u32
  ts_cycles_total :: u64

record exec_sched_result =
  sk_worst_slot_cycles :: u32
  sk_worst_slot :: u32
  sk_budget_cycles :: u32
  sk_margin_cycles :: u32
  sk_estimate_sum_us :: u32
  sk_fits :: bool
  sk_complete :: bool

definition k_task :: "exec_task_id \<Rightarrow> exec_task_def" where
  "k_task tid =
    (if tid = EXEC_TASK_MAJOR
     then \<lparr>td_cycle = EXEC_CYCLE_MAJOR, td_period_slots = of_nat QIRAN_MINOR_PER_MAJOR,
           td_phase_slot = 0, td_estimate_us = 0\<rparr>
     else \<lparr>td_cycle = EXEC_CYCLE_MINOR, td_period_slots = 1, td_phase_slot = 0, td_estimate_us = 0\<rparr>)"

record sched_state =
  sc_stat :: "exec_task_id \<Rightarrow> exec_task_stat"
  sc_entered :: "exec_task_id \<Rightarrow> u32"

record sched_world = exec_world +
  w_sched :: sched_state

definition stat_zero :: exec_task_stat where
  "stat_zero = \<lparr>ts_runs = 0, ts_cycles_last = 0, ts_cycles_worst = 0, ts_cycles_total = 0\<rparr>"

definition exec_sched_init :: "'a sched_world_scheme \<Rightarrow> 'a sched_world_scheme" where
  "exec_sched_init w = w\<lparr>w_sched := \<lparr>sc_stat = (\<lambda>_. stat_zero), sc_entered = (\<lambda>_. 0)\<rparr>\<rparr>"

definition exec_task_enter :: "exec_task_id \<Rightarrow> 'a sched_world_scheme \<Rightarrow> 'a sched_world_scheme" where
  "exec_task_enter tid w =
    (if tid = EXEC_TASK_COUNT then w
     else (let (now, w) = plat_cpu_cycle_count w
           in w\<lparr>w_sched := (w_sched w)\<lparr>sc_entered := (sc_entered (w_sched w))(tid := now)\<rparr>\<rparr>))"

definition stat_add :: "u32 \<Rightarrow> exec_task_stat \<Rightarrow> exec_task_stat" where
  "stat_add elapsed s =
    (let s = s\<lparr>ts_runs := ts_runs s + 1, ts_cycles_last := elapsed,
               ts_cycles_total := ts_cycles_total s + ucast elapsed\<rparr>
     in if ts_cycles_worst s < elapsed then s\<lparr>ts_cycles_worst := elapsed\<rparr> else s)"

definition exec_task_leave :: "exec_task_id \<Rightarrow> 'a sched_world_scheme \<Rightarrow> 'a sched_world_scheme" where
  "exec_task_leave tid w =
    (if tid = EXEC_TASK_COUNT then w
     else (let (now, w) = plat_cpu_cycle_count w; s = w_sched w; elapsed = now - sc_entered s tid
           in w\<lparr>w_sched := s\<lparr>sc_stat := (sc_stat s)(tid := stat_add elapsed (sc_stat s tid))\<rparr>\<rparr>))"

text \<open>\<^verbatim>\<open>EXEC_RUN\<close>: one task of the loop, measured.\<close>

definition exec_run ::
  "exec_task_id \<Rightarrow> ('a sched_world_scheme \<Rightarrow> 'a sched_world_scheme) \<Rightarrow>
   'a sched_world_scheme \<Rightarrow> 'a sched_world_scheme" where
  "exec_run tid call w = exec_task_leave tid (call (exec_task_enter tid w))"

definition due_at_slot :: "exec_task_def \<Rightarrow> u32 \<Rightarrow> bool" where
  "due_at_slot t slot =
    (case td_cycle t of
       EXEC_CYCLE_MINOR \<Rightarrow> True
     | EXEC_CYCLE_MAJOR \<Rightarrow> slot = 0
     | EXEC_CYCLE_SPREAD \<Rightarrow>
         if td_period_slots t = 0 then False
         else slot mod ucast (td_period_slots t) = ucast (td_phase_slot t))"

definition slot_sum :: "exec_task_def list \<Rightarrow> exec_task_stat list \<Rightarrow> nat \<Rightarrow> u32 \<Rightarrow> u32" where
  "slot_sum tasks stats count slot =
    fold (\<lambda>i sum. if due_at_slot (tasks ! i) slot then sum + ts_cycles_worst (stats ! i) else sum)
      [0..<count] 0"

text \<open>The result is the worst sum and the slot it was found in.\<close>

definition worst_slot_scan ::
  "exec_task_def list \<Rightarrow> exec_task_stat list \<Rightarrow> nat \<Rightarrow> u32 \<times> u32" where
  "worst_slot_scan tasks stats count =
    fold (\<lambda>slot (worst, worst_slot).
        let sum = slot_sum tasks stats count (of_nat slot)
        in if worst < sum then (sum, of_nat slot) else (worst, worst_slot))
      [0..<QIRAN_MINOR_PER_MAJOR] (0, 0)"

definition exec_task_due :: "exec_task_id \<Rightarrow> 'a sched_world_scheme \<Rightarrow> bool" where
  "exec_task_due tid w =
    (if tid = EXEC_TASK_COUNT then False else due_at_slot (k_task tid) (exec_slot w))"

definition exec_task_def_get :: "exec_task_id \<Rightarrow> exec_task_def option" where
  "exec_task_def_get tid = (if tid = EXEC_TASK_COUNT then None else Some (k_task tid))"

definition exec_task_stat_get :: "exec_task_id \<Rightarrow> 'a sched_world_scheme \<Rightarrow> exec_task_stat option" where
  "exec_task_stat_get tid w =
    (if tid = EXEC_TASK_COUNT then None else Some (sc_stat (w_sched w) tid))"

definition exec_task_mean_cycles :: "exec_task_id \<Rightarrow> 'a sched_world_scheme \<Rightarrow> u32" where
  "exec_task_mean_cycles tid w =
    (let s = sc_stat (w_sched w) tid in
     if tid = EXEC_TASK_COUNT \<or> ts_runs s = 0 then 0
     else ucast (ts_cycles_total s div ucast (ts_runs s)))"

definition exec_sched_check :: "'a sched_world_scheme \<Rightarrow> exec_sched_result" where
  "exec_sched_check w =
    (let stats = map (sc_stat (w_sched w)) exec_tasks;
         (worst, worst_slot) = worst_slot_scan (map k_task exec_tasks) stats (length exec_tasks);
         budget = exec_budget_cycles w;
         fits = worst \<le> budget
     in \<lparr>sk_worst_slot_cycles = worst, sk_worst_slot = worst_slot, sk_budget_cycles = budget,
         sk_margin_cycles = (if fits then budget - worst else 0),
         sk_estimate_sum_us = fold (\<lambda>tid sum. sum + td_estimate_us (k_task tid)) exec_tasks 0,
         sk_fits = fits,
         sk_complete = list_all (\<lambda>tid. \<not> (td_cycle (k_task tid) = EXEC_CYCLE_MINOR \<and>
           ts_runs (sc_stat (w_sched w) tid) = 0)) exec_tasks\<rparr>)"

subsection \<open>The scan finds the worst slot\<close>

lemma worst_slot_fold:
  fixes f :: "nat \<Rightarrow> u32"
  assumes "fold (\<lambda>slot (worst, ws). if worst < f slot then (f slot, of_nat slot) else (worst, ws))
    [0..<n] (0, 0) = (m, k :: u32)" and "0 < n" "n < 2 ^ 32"
  shows "unat k < n \<and> f (unat k) = m \<and> (\<forall>i < n. f i \<le> m) \<and> (\<forall>i < unat k. f i < m) \<or>
    m = 0 \<and> k = 0 \<and> (\<forall>i < n. f i = 0)"
  using assms
proof (induction n arbitrary: m k)
  case (Suc n)
  obtain m0 k0 where f0: "fold (\<lambda>slot (worst, ws). if worst < f slot then (f slot, of_nat slot :: u32)
      else (worst, ws)) [0..<n] (0, 0) = (m0, k0)" by fastforce
  have un: "unat (of_nat n :: u32) = n" using Suc.prems by (intro unat_of_nat_eq_u32) simp
  have step: "(m, k) = (if m0 < f n then (f n, of_nat n) else (m0, k0))"
    using Suc.prems(1) f0 by simp
  show ?case
  proof (cases "n = 0")
    case True
    then have "m0 = 0" "k0 = 0" using f0 by auto
    then show ?thesis using step True by (auto simp: word_gt_0 split: if_splits)
  next
    case False
    then have ih: "unat k0 < n \<and> f (unat k0) = m0 \<and> (\<forall>i < n. f i \<le> m0) \<and> (\<forall>i < unat k0. f i < m0) \<or>
        m0 = 0 \<and> k0 = 0 \<and> (\<forall>i < n. f i = 0)"
      using Suc.IH [OF f0] Suc.prems(3) by simp
    show ?thesis
    proof (cases "m0 < f n")
      case True
      then have mk: "m = f n" "unat k = n" using step un by auto
      have "f i < f n" if "i < n" for i using ih that True le_less_trans by force
      then show ?thesis using mk by (auto simp: less_Suc_eq less_imp_le)
    next
      case False
      then have "m = m0" "k = k0" "f n \<le> m0" using step by auto
      then show ?thesis using ih by (auto simp: less_Suc_eq)
    qed
  qed
qed simp

lemma worst_slot_scan_max:
  assumes "worst_slot_scan tasks stats n = (m, k)"
  shows "unat k < 25" "slot_sum tasks stats n k = m"
    "\<forall>i < 25. slot_sum tasks stats n (of_nat i) \<le> m"
    "\<forall>i < unat k. slot_sum tasks stats n (of_nat i) < m"
proof -
  let ?f = "\<lambda>i. slot_sum tasks stats n (of_nat i)"
  have "fold (\<lambda>slot (worst, ws). if worst < ?f slot then (?f slot, of_nat slot) else (worst, ws))
      [0..<25] (0, 0) = (m, k)"
    using assms unfolding worst_slot_scan_def Let_def QIRAN_MINOR_PER_MAJOR_def .
  from worst_slot_fold [OF this]
  have "unat k < 25 \<and> ?f (unat k) = m \<and> (\<forall>i < 25. ?f i \<le> m) \<and> (\<forall>i < unat k. ?f i < m) \<or>
    m = 0 \<and> k = 0 \<and> (\<forall>i < 25. ?f i = 0)" by simp
  then show "unat k < 25" "slot_sum tasks stats n k = m"
    "\<forall>i < 25. ?f i \<le> m" "\<forall>i < unat k. ?f i < m"
    by (auto dest: spec [of _ 0])
qed

text \<open>The sum of the measured worst times of the tasks due in a slot, without wrap-around.\<close>

definition slot_load :: "(exec_task_id \<Rightarrow> exec_task_stat) \<Rightarrow> u32 \<Rightarrow> nat" where
  "slot_load stat slot =
    (\<Sum>tid \<leftarrow> filter (\<lambda>tid. due_at_slot (k_task tid) slot) exec_tasks. unat (ts_cycles_worst (stat tid)))"

lemma slot_sum_load:
  assumes "slot_load stat slot < 2 ^ 32"
  shows "unat (slot_sum (map k_task exec_tasks) (map stat exec_tasks) (length exec_tasks) slot) =
    slot_load stat slot"
proof -
  let ?g = "\<lambda>tid (sum::u32). if due_at_slot (k_task tid) slot then sum + ts_cycles_worst (stat tid) else sum"
  have idx: "fold (\<lambda>i sum. if due_at_slot (map k_task l ! i) slot
        then sum + ts_cycles_worst (map stat l ! i) else sum) [0..<length l] a = fold ?g l a" for l a
  proof -
    have "fold (\<lambda>i sum. if due_at_slot (map k_task l ! i) slot
        then sum + ts_cycles_worst (map stat l ! i) else sum) [0..<length l] a =
      fold (\<lambda>i. ?g (l ! i)) [0..<length l] a"
      by (rule fold_cong) auto
    also have "\<dots> = fold ?g (map ((!) l) [0..<length l]) a" by (simp only: fold_map comp_def)
    finally show ?thesis by (simp only: map_nth)
  qed
  have "fold ?g l a = a + of_nat (\<Sum>tid \<leftarrow> filter (\<lambda>tid. due_at_slot (k_task tid) slot) l.
      unat (ts_cycles_worst (stat tid)))" for l a
    by (induction l arbitrary: a) simp_all
  then have "slot_sum (map k_task exec_tasks) (map stat exec_tasks) (length exec_tasks) slot =
      of_nat (slot_load stat slot)"
    by (simp add: slot_sum_def idx slot_load_def)
  then show ?thesis using assms by (simp add: unat_of_nat_eq_u32)
qed

text \<open>The schedulability check accepts exactly when in every slot of the major cycle the
  measured worst times of the tasks due there fit the minor cycle's budget, and the slot it
  reports is the first whose load is the greatest of all (loads that fit a 32-bit count).\<close>

theorem exec_sched_check_correct:
  assumes "\<forall>slot < 25. slot_load (sc_stat (w_sched w)) (of_nat slot) < 2 ^ 32"
  defines "r \<equiv> exec_sched_check w"
  shows "(sk_fits r \<longleftrightarrow>
      (\<forall>slot < 25. slot_load (sc_stat (w_sched w)) (of_nat slot) \<le> unat (exec_budget_cycles w))) \<and>
    unat (sk_worst_slot r) < 25 \<and>
    unat (sk_worst_slot_cycles r) = slot_load (sc_stat (w_sched w)) (sk_worst_slot r) \<and>
    (\<forall>slot < 25. slot_load (sc_stat (w_sched w)) (of_nat slot) \<le> unat (sk_worst_slot_cycles r)) \<and>
    (\<forall>slot < unat (sk_worst_slot r).
      slot_load (sc_stat (w_sched w)) (of_nat slot) < unat (sk_worst_slot_cycles r))"
proof -
  let ?stat = "sc_stat (w_sched w)"
  obtain m k where mk: "worst_slot_scan (map k_task exec_tasks) (map ?stat exec_tasks)
      (length exec_tasks) = (m, k)" by fastforce
  have r: "sk_worst_slot_cycles r = m" "sk_worst_slot r = k" "sk_fits r \<longleftrightarrow> m \<le> exec_budget_cycles w"
    by (simp_all add: r_def exec_sched_check_def Let_def mk)
  have load: "unat (slot_sum (map k_task exec_tasks) (map ?stat exec_tasks) (length exec_tasks)
      (of_nat i)) = slot_load ?stat (of_nat i)" if "i < 25" for i
    using assms(1) that by (intro slot_sum_load) blast
  note sc = worst_slot_scan_max [OF mk]
  have m: "unat m = slot_load ?stat k" using load [OF sc(1)] sc(2) by simp
  have le: "slot_load ?stat (of_nat i) \<le> unat m" if "i < 25" for i
    using sc(3) that unfolding load [OF that, symmetric] word_le_nat_alt by blast
  have lt: "slot_load ?stat (of_nat i) < unat m" if "i < unat k" for i
  proof -
    have i: "i < 25" using that sc(1) by simp
    show ?thesis using sc(4) that unfolding load [OF i, symmetric] word_less_nat_alt by blast
  qed
  have fits: "m \<le> exec_budget_cycles w \<longleftrightarrow>
      (\<forall>i < 25. slot_load ?stat (of_nat i) \<le> unat (exec_budget_cycles w))"
  proof
    assume "m \<le> exec_budget_cycles w"
    then show "\<forall>i < 25. slot_load ?stat (of_nat i) \<le> unat (exec_budget_cycles w)"
      unfolding word_le_nat_alt using le le_trans by blast
  next
    assume "\<forall>i < 25. slot_load ?stat (of_nat i) \<le> unat (exec_budget_cycles w)"
    then have "slot_load ?stat (of_nat (unat k)) \<le> unat (exec_budget_cycles w)" using sc(1) by blast
    then show "m \<le> exec_budget_cycles w" by (simp add: word_le_nat_alt m)
  qed
  show ?thesis unfolding r using fits sc(1) m le lt by blast
qed

text \<open>
  What a task's record says of the runs measured so far: the mean is at most the worst, as long
  as the run count, two years of minor cycles, has not wrapped.
\<close>

definition stat_ok :: "nat \<Rightarrow> exec_task_stat \<Rightarrow> bool" where
  "stat_ok n s \<longleftrightarrow> ts_runs s = of_nat n \<and> ts_cycles_last s \<le> ts_cycles_worst s \<and>
    unat (ts_cycles_total s) \<le> n * unat (ts_cycles_worst s)"

lemma stat_add_ok:
  assumes "stat_ok n s" "n < 2 ^ 32 - 1"
  shows "stat_ok (Suc n) (stat_add e s)"
proof -
  have w: "ts_cycles_worst (stat_add e s) = max (ts_cycles_worst s) e"
    by (auto simp: stat_add_def Let_def max_def not_less dest: less_imp_le)
  have f: "ts_runs (stat_add e s) = ts_runs s + 1" "ts_cycles_last (stat_add e s) = e"
      "ts_cycles_total (stat_add e s) = ts_cycles_total s + ucast e"
    by (simp_all add: stat_add_def Let_def)
  let ?w = "unat (ts_cycles_worst (stat_add e s))"
  have le: "unat e \<le> ?w" "unat (ts_cycles_worst s) \<le> ?w"
    by (simp_all add: w max_def word_le_nat_alt)
  have ue: "unat (ucast e :: u64) = unat e"
    using unat_u32_less [of e] by (simp add: unsigned_ucast_eq take_bit_eq_mod)
  have "unat (ts_cycles_total s) \<le> n * ?w"
    using assms(1) le(2) by (auto simp: stat_ok_def intro: le_trans mult_le_mono2)
  moreover have "unat (ts_cycles_total (stat_add e s)) \<le> unat (ts_cycles_total s) + unat e"
    by (simp add: f unat_word_ariths ue)
  ultimately have "unat (ts_cycles_total (stat_add e s)) \<le> Suc n * ?w" using le(1) by simp
  then show ?thesis using assms(1) by (simp add: stat_ok_def f w)
qed

definition sched_world0 :: sched_world where
  "sched_world0 = \<lparr>w_cpu = w_cpu exec_world0, w_exec = w_exec exec_world0,
    w_sched = \<lparr>sc_stat = (\<lambda>tid. stat_add (if tid = EXEC_TASK_MAJOR then 7000000 else 1000000) stat_zero),
      sc_entered = (\<lambda>_. 0)\<rparr>\<rparr>"

lemma sched_world0_load:
  "slot_load (sc_stat (w_sched sched_world0)) slot = (if slot = 0 then 17000000 else 10000000)"
  by (simp add: slot_load_def sched_world0_def exec_tasks_def due_at_slot_def k_task_def
      stat_add_def stat_zero_def Let_def)

lemma sched_world0_budget: "exec_budget_cycles sched_world0 = 13320000"
  by (simp add: exec_budget_cycles_def plat_cpu_cycles_per_us_def sched_world0_def exec_world0_def
      cfg_consts)

theorem exec_sched_check_correct_witness:
  "\<not> sk_fits (exec_sched_check sched_world0)"
proof -
  have "\<forall>slot < 25. slot_load (sc_stat (w_sched sched_world0)) (of_nat slot) < 2 ^ 32"
    by (simp add: sched_world0_load)
  from exec_sched_check_correct [OF this] show ?thesis
    by (auto simp: sched_world0_load sched_world0_budget intro!: exI [of _ 0])
qed

end
