(* ===== verification/Svc_Time.thy ===== *)
theory Svc_Time
  imports Exec_Sched
begin

section \<open>Time and timeouts: \<^verbatim>\<open>src/svc/svc_time.c\<close>\<close>

text \<open>
  The 32-bit tick count of the interrupt extended to 64 bits by the differences between
  readings, the epoch correlation, and timeouts as deadlines. Reading the time changes the
  state, so every query that reads it returns the state too. The functions with the prefix
  \<^verbatim>\<open>svc_\<close> take a pointer, \<^term>\<open>None\<close> when null; the callers hold their timeouts as fields, and
  use the operation on the value.
\<close>

record time_state =
  tm_last_raw :: u32
  tm_ticks :: u64
  tm_epoch_ms :: u64
  tm_epoch_valid :: bool

record time_world = sched_world +
  w_time :: time_state

record svc_timeout =
  to_deadline_ms :: u64
  to_armed :: bool

definition svc_time_init :: "'a time_world_scheme \<Rightarrow> 'a time_world_scheme" where
  "svc_time_init w = w\<lparr>w_time := \<lparr>tm_last_raw = exec_raw_tick_count w, tm_ticks = 0,
     tm_epoch_ms = 0, tm_epoch_valid = False\<rparr>\<rparr>"

definition svc_time_now_ms :: "'a time_world_scheme \<Rightarrow> u64 \<times> 'a time_world_scheme" where
  "svc_time_now_ms w =
    (let raw = exec_raw_tick_count w; s = w_time w;
         s = s\<lparr>tm_ticks := tm_ticks s + ucast (raw - tm_last_raw s)\<rparr>;
         s = s\<lparr>tm_last_raw := raw\<rparr>
     in (tm_ticks s * of_nat QIRAN_MINOR_CYCLE_MS, w\<lparr>w_time := s\<rparr>))"

definition svc_time_tick :: "'a time_world_scheme \<Rightarrow> u32" where
  "svc_time_tick w = exec_raw_tick_count w"

definition svc_time_epoch_set :: "u64 \<Rightarrow> 'a time_world_scheme \<Rightarrow> 'a time_world_scheme" where
  "svc_time_epoch_set obc_time_ms w =
    (let (now, w) = svc_time_now_ms w
     in w\<lparr>w_time := (w_time w)\<lparr>tm_epoch_ms := obc_time_ms - now, tm_epoch_valid := True\<rparr>\<rparr>)"

definition svc_time_epoch_valid :: "'a time_world_scheme \<Rightarrow> bool" where
  "svc_time_epoch_valid w = tm_epoch_valid (w_time w)"

definition svc_time_epoch_ms :: "'a time_world_scheme \<Rightarrow> u64 \<times> 'a time_world_scheme" where
  "svc_time_epoch_ms w = (let (now, w) = svc_time_now_ms w in (tm_epoch_ms (w_time w) + now, w))"

definition timeout_arm ::
  "svc_timeout \<Rightarrow> u32 \<Rightarrow> 'a time_world_scheme \<Rightarrow> svc_timeout \<times> 'a time_world_scheme" where
  "timeout_arm t duration_ms w =
    (let (now, w) = svc_time_now_ms w
     in (t\<lparr>to_deadline_ms := now + ucast duration_ms, to_armed := True\<rparr>, w))"

definition timeout_disarm :: "svc_timeout \<Rightarrow> svc_timeout" where
  "timeout_disarm t = t\<lparr>to_armed := False\<rparr>"

definition timeout_expired :: "svc_timeout \<Rightarrow> 'a time_world_scheme \<Rightarrow> bool \<times> 'a time_world_scheme" where
  "timeout_expired t w =
    (if \<not> to_armed t then (False, w)
     else (let (now, w) = svc_time_now_ms w in (to_deadline_ms t \<le> now, w)))"

definition timeout_remaining_ms :: "svc_timeout \<Rightarrow> 'a time_world_scheme \<Rightarrow> u32 \<times> 'a time_world_scheme" where
  "timeout_remaining_ms t w =
    (if \<not> to_armed t then (0, w)
     else (let (now, w) = svc_time_now_ms w
           in (if to_deadline_ms t \<le> now then 0 else ucast (to_deadline_ms t - now), w)))"

definition svc_timeout_arm ::
  "svc_timeout option \<Rightarrow> u32 \<Rightarrow> 'a time_world_scheme \<Rightarrow> svc_timeout option \<times> 'a time_world_scheme" where
  "svc_timeout_arm p duration_ms w =
    (case p of None \<Rightarrow> (None, w) | Some t \<Rightarrow> map_prod Some (\<lambda>w. w) (timeout_arm t duration_ms w))"

definition svc_timeout_disarm :: "svc_timeout option \<Rightarrow> svc_timeout option" where
  "svc_timeout_disarm p = map_option timeout_disarm p"

definition svc_timeout_expired :: "svc_timeout option \<Rightarrow> 'a time_world_scheme \<Rightarrow> bool \<times> 'a time_world_scheme" where
  "svc_timeout_expired p w = (case p of None \<Rightarrow> (False, w) | Some t \<Rightarrow> timeout_expired t w)"

definition svc_timeout_remaining_ms :: "svc_timeout option \<Rightarrow> 'a time_world_scheme \<Rightarrow> u32 \<times> 'a time_world_scheme" where
  "svc_timeout_remaining_ms p w = (case p of None \<Rightarrow> (0, w) | Some t \<Rightarrow> timeout_remaining_ms t w)"

definition svc_timeout_elapsed_ms ::
  "svc_timeout option \<Rightarrow> u32 \<Rightarrow> 'a time_world_scheme \<Rightarrow> u32 \<times> 'a time_world_scheme" where
  "svc_timeout_elapsed_ms p duration_ms w =
    (let (left, w) = svc_timeout_remaining_ms p w in (duration_ms - left, w))"

subsection \<open>The clock\<close>

text \<open>
  \<open>time_at T0 T w\<close>: of the \<open>T\<close> ticks taken by the interrupt \<open>T0\<close> were before the clock was
  initialised, and less than one wrap of the tick counter has passed since the last reading.
  It is what \<^verbatim>\<open>svc_time_init\<close> establishes and ticks and readings keep.
\<close>

definition time_at :: "nat \<Rightarrow> nat \<Rightarrow> 'a time_world_scheme \<Rightarrow> bool" where
  "time_at T0 T w \<longleftrightarrow> (\<exists>L. T0 \<le> L \<and> L \<le> T \<and> T - L < 2 ^ 32 \<and>
     exec_raw_tick_count w = of_nat T \<and> tm_last_raw (w_time w) = of_nat L \<and>
     tm_ticks (w_time w) = of_nat (L - T0))"

lemma time_at_init: "exec_raw_tick_count w = of_nat T \<Longrightarrow> time_at T T (svc_time_init w)"
  by (auto simp: time_at_def svc_time_init_def exec_raw_tick_count_def)

lemma time_now:
  assumes "time_at T0 T w"
  shows "svc_time_now_ms w = (of_nat (20 * (T - T0)),
      w\<lparr>w_time := (w_time w)\<lparr>tm_ticks := of_nat (T - T0), tm_last_raw := of_nat T\<rparr>\<rparr>)"
proof -
  obtain L where L: "T0 \<le> L" "L \<le> T" "T - L < 2 ^ 32" "exec_raw_tick_count w = of_nat T"
      "tm_last_raw (w_time w) = of_nat L" "tm_ticks (w_time w) = of_nat (L - T0)"
    using assms by (auto simp: time_at_def)
  have "exec_raw_tick_count w - tm_last_raw (w_time w) = of_nat (T - L)"
    using L by (simp add: of_nat_diff)
  moreover have "unat (ucast (of_nat (T - L) :: u32) :: u64) = T - L"
    using L(3) by (simp add: unsigned_ucast_eq take_bit_eq_mod unat_of_nat)
  ultimately have "ucast (exec_raw_tick_count w - tm_last_raw (w_time w)) = (of_nat (T - L) :: u64)"
    using unat_eq_of_nat by metis
  then have "tm_ticks (w_time w) + ucast (exec_raw_tick_count w - tm_last_raw (w_time w)) =
      (of_nat (T - T0) :: u64)"
    using L by (simp add: of_nat_diff)
  then show ?thesis
    using L(4)
    by (simp add: svc_time_now_ms_def Let_def cfg_consts mult.commute
        del: distrib_left_numeral distrib_right_numeral)
qed

lemma time_at_now: "time_at T0 T w \<Longrightarrow> time_at T0 T (snd (svc_time_now_ms w))"
  unfolding time_now by (auto simp: time_at_def exec_raw_tick_count_def intro!: exI [of _ T])

text \<open>Ticks taken since, and anything the software does to the other components.\<close>

lemma time_at_later:
  assumes "time_at T0 T w" "w_time w1 = w_time (snd (svc_time_now_ms w))"
    and "exec_raw_tick_count w1 = of_nat (T + n)" "n < 2 ^ 32"
  shows "time_at T0 (T + n) w1"
proof -
  have "T0 \<le> T" using assms(1) by (auto simp: time_at_def)
  then show ?thesis
    using assms time_now [OF assms(1)] by (auto simp: time_at_def intro!: exI [of _ T])
qed

lemma time_now_nat:
  assumes "time_at T0 T w" "T - T0 < 2 ^ 59"
  shows "unat (fst (svc_time_now_ms w)) = 20 * (T - T0)"
  using assms(2) unfolding time_now [OF assms(1)] by (simp add: unat_of_nat del: of_nat_mult)

text \<open>C40: The clock is exact and monotone across any number of wraps of the 32-bit tick counter,
  as long as it is read at least once per wrap: \<open>n\<close> ticks after a reading, it reads exactly
  \<open>n\<close> minor cycles more.\<close>

theorem svc_time_exact:
  assumes "time_at T0 T w" and "w_time w1 = w_time (snd (svc_time_now_ms w))"
    and "exec_raw_tick_count w1 = exec_raw_tick_count w + of_nat n" "n < 2 ^ 32" "T + n < 2 ^ 59"
  shows "unat (fst (svc_time_now_ms w1)) = unat (fst (svc_time_now_ms w)) + 20 * n \<and>
    time_at T0 (T + n) w1"
proof -
  have "exec_raw_tick_count w = of_nat T" using assms(1) by (auto simp: time_at_def)
  then have l: "time_at T0 (T + n) w1"
    using assms by (intro time_at_later [OF assms(1,2)]) simp_all
  have "T0 \<le> T" using assms(1) by (auto simp: time_at_def)
  then show ?thesis
    using time_now_nat [OF l] time_now_nat [OF assms(1)] assms(5) l by simp
qed

definition time_world0 :: "nat \<Rightarrow> time_world" where
  "time_world0 n = \<lparr>w_cpu = w_cpu exec_world0,
     w_exec = (w_exec exec_world0)\<lparr>ex_isr_ticks := of_nat n\<rparr>, w_sched = w_sched sched_world0,
     w_time = \<lparr>tm_last_raw = 0xFFFFFFFE, tm_ticks = 5, tm_epoch_ms = 0, tm_epoch_valid = False\<rparr>\<rparr>"

lemma time_world0_at: "time_at 4294967289 4294967295 (time_world0 4294967295)"
  by (auto simp: time_at_def time_world0_def exec_raw_tick_count_def intro!: exI [of _ 4294967294])

text \<open>Six ticks in, one below the wrap of the counter, and three ticks later, past it.\<close>

theorem svc_time_exact_witness:
  "unat (fst (svc_time_now_ms (snd (svc_time_now_ms (time_world0 4294967295))
     \<lparr>w_exec := (w_exec (time_world0 4294967295))\<lparr>ex_isr_ticks := 2\<rparr>\<rparr>))) = 180"
proof -
  let ?w = "time_world0 4294967295"
  let ?w1 = "snd (svc_time_now_ms ?w)\<lparr>w_exec := (w_exec ?w)\<lparr>ex_isr_ticks := 2\<rparr>\<rparr>"
  have "unat (fst (svc_time_now_ms ?w)) = 120"
    using time_now_nat [OF time_world0_at] by simp
  moreover have "exec_raw_tick_count ?w1 = exec_raw_tick_count ?w + of_nat 3"
    by (simp add: exec_raw_tick_count_def time_world0_def)
  ultimately show ?thesis using svc_time_exact [OF time_world0_at, of ?w1 3] by simp
qed

text \<open>A timeout armed for \<open>d\<close> milliseconds and queried \<open>n\<close> ticks later has expired exactly
  when \<open>20 n \<ge> d\<close>; what remains and what has elapsed add up to \<open>d\<close>, and the elapsed time
  saturates at \<open>d\<close>.\<close>

theorem svc_timeout_exact:
  assumes "time_at T0 T w" "svc_timeout_arm (Some t0) d w = (p, w0)"
    and "w_time w1 = w_time w0" "exec_raw_tick_count w1 = exec_raw_tick_count w + of_nat n"
    and "n < 2 ^ 32" "T + n < 2 ^ 58"
  shows "(fst (svc_timeout_expired p w1) \<longleftrightarrow> unat d \<le> 20 * n) \<and>
    unat (fst (svc_timeout_remaining_ms p w1)) = unat d - 20 * n \<and>
    unat (fst (svc_timeout_elapsed_ms p d w1)) = min (unat d) (20 * n)"
proof -
  define a where "a = 20 * (T - T0)"
  have T: "T0 \<le> T" "exec_raw_tick_count w = of_nat T" using assms(1) by (auto simp: time_at_def)
  have p: "p = Some (t0\<lparr>to_deadline_ms := of_nat (a + unat d), to_armed := True\<rparr>)"
      "w0 = snd (svc_time_now_ms w)"
    using assms(2) time_now [OF assms(1)]
    by (auto simp: svc_timeout_arm_def timeout_arm_def Let_def a_def)
  have "time_at T0 (T + n) w1"
    using assms(3-5) T(2) p(2) by (intro time_at_later [OF assms(1)]) simp_all
  from time_now [OF this] have now: "fst (svc_time_now_ms w1) = of_nat (a + 20 * n)"
    using T(1) by (simp add: a_def algebra_simps)
  have b: "a + unat d < 2 ^ 64" "a + 20 * n < 2 ^ 64"
    using assms(6) unat_u32_less [of d] by (simp_all add: a_def)
  have u: "unat (of_nat (a + unat d) :: u64) = a + unat d"
      "unat (of_nat (a + 20 * n) :: u64) = a + 20 * n"
    using b by (simp_all add: unat_of_nat del: of_nat_add of_nat_mult)
  have exp: "of_nat (a + unat d) \<le> (of_nat (a + 20 * n) :: u64) \<longleftrightarrow> unat d \<le> 20 * n"
    unfolding word_le_nat_alt u by simp
  have rem: "unat (ucast ((of_nat (a + unat d) :: u64) - of_nat (a + 20 * n)) :: u32) = unat d - 20 * n"
    if "\<not> unat d \<le> 20 * n"
  proof -
    have "(of_nat (a + unat d) :: u64) - of_nat (a + 20 * n) = of_nat (unat d - 20 * n)"
      using that by (simp add: of_nat_diff)
    moreover have "unat d - 20 * n < 4294967296" using unat_u32_less [of d] by simp
    ultimately show ?thesis
      by (simp add: unsigned_ucast_eq take_bit_eq_mod unat_of_nat del: of_nat_diff)
  qed
  obtain w2 where w2: "svc_time_now_ms w1 = (of_nat (a + 20 * n), w2)"
    using now by (metis prod.collapse)
  have e: "fst (svc_timeout_expired p w1) \<longleftrightarrow> unat d \<le> 20 * n"
    by (simp only: svc_timeout_expired_def p option.case timeout_expired_def w2 Let_def) (simp add: exp del: of_nat_add of_nat_mult)
  have r: "unat (fst (svc_timeout_remaining_ms p w1)) = unat d - 20 * n"
    using rem
    by (simp add: svc_timeout_remaining_ms_def p timeout_remaining_ms_def w2 Let_def exp
        del: of_nat_add of_nat_mult)
  then have "fst (svc_timeout_remaining_ms p w1) \<le> d" by (simp add: word_le_nat_alt)
  then have "unat (d - fst (svc_timeout_remaining_ms p w1)) = unat d - (unat d - 20 * n)"
    using r by (simp add: unat_sub)
  then have "unat (fst (svc_timeout_elapsed_ms p d w1)) = min (unat d) (20 * n)"
    by (auto simp: svc_timeout_elapsed_ms_def Let_def split: prod.splits)
  then show ?thesis using e r by blast
qed

theorem svc_timeout_exact_witness:
  "\<not> fst (svc_timeout_expired (fst (svc_timeout_arm (Some \<lparr>to_deadline_ms = 0, to_armed = False\<rparr>) 50
       (time_world0 4294967295))) (snd (svc_time_now_ms (time_world0 4294967295))
         \<lparr>w_exec := (w_exec (time_world0 4294967295))\<lparr>ex_isr_ticks := 1\<rparr>\<rparr>))"
proof -
  let ?w = "time_world0 4294967295"
  let ?w1 = "snd (svc_time_now_ms ?w)\<lparr>w_exec := (w_exec ?w)\<lparr>ex_isr_ticks := 1\<rparr>\<rparr>"
  obtain p w0 where arm: "svc_timeout_arm (Some \<lparr>to_deadline_ms = 0, to_armed = False\<rparr>) 50 ?w = (p, w0)"
    by fastforce
  then have "w_time ?w1 = w_time w0"
    by (auto simp: svc_timeout_arm_def timeout_arm_def split: prod.splits)
  moreover have "exec_raw_tick_count ?w1 = exec_raw_tick_count ?w + of_nat 2"
    by (simp add: exec_raw_tick_count_def time_world0_def)
  ultimately show ?thesis
    using svc_timeout_exact [OF time_world0_at arm, of ?w1 2] arm by simp
qed

end
