(* ===== verification/Bounded_Fifo.thy ===== *)
theory Bounded_Fifo
  imports Qiran_Prelude "HOL-Library.Sublist"
begin

section \<open>Bounded queues over free-running indices\<close>

text \<open>
  Three components hand data from interrupts to the cyclic loop through the same structure:
  the byte ring (\<^verbatim>\<open>svc_ring.c\<close>), the interrupt event queues (\<^verbatim>\<open>plat_irq.c\<close>) and the
  fault log (\<^verbatim>\<open>svc_log.c\<close>). Each keeps a power-of-two array and two 32-bit counters that are
  masked on use and never reset. This theory has the two lemmas about that representation,
  the interface of a bounded queue as a locale, and what every user of the interface gets:
  draining returns a prefix in order, and over any interleaving of pushes and pops nothing
  accepted is lost, duplicated or reordered.
\<close>

subsection \<open>The representation\<close>

definition ring_items :: "u32 \<Rightarrow> u32 \<Rightarrow> u32 \<Rightarrow> 'a list \<Rightarrow> 'a list" where
  "ring_items m t h buf =
    map (\<lambda>i. buf ! unat ((t + of_nat i) AND m)) [0..<unat (h - t)]"

definition ring_ok :: "nat \<Rightarrow> u32 \<Rightarrow> u32 \<Rightarrow> u32 \<Rightarrow> 'a list \<Rightarrow> bool" where
  "ring_ok k m t h buf \<longleftrightarrow>
    k < 32 \<and> m = mask k \<and> length buf = 2 ^ k \<and> unat (h - t) \<le> 2 ^ k"

lemma length_ring_items [simp]: "length (ring_items m t h buf) = unat (h - t)"
  by (simp add: ring_items_def)

lemma ring_items_empty [simp]: "ring_items m t t buf = []"
  by (simp add: ring_items_def)

lemma ring_index:
  assumes "k < 32"
  shows "unat ((t + of_nat i :: u32) AND mask k) = (unat t + i) mod 2 ^ k"
  using assms by (simp only: unat_and_mask) (rule unat_add_mod_pow2, simp)

lemma ring_index_head:
  assumes "k < 32"
  shows "unat ((h :: u32) AND mask k) = (unat t + unat (h - t)) mod 2 ^ k"
proof -
  have "h = t + of_nat (unat (h - t))" by simp
  then show ?thesis using ring_index [OF assms, of t "unat (h - t)"] by simp
qed

lemma pow2_less_u32: "k < 32 \<Longrightarrow> (2::nat) ^ k < 4294967296"
  using power_strict_increasing [of k 32 "2::nat"] by simp

lemma unat_mask_less:
  assumes "k < 32"
  shows "unat (mask k :: u32) = 2 ^ k - 1"
proof -
  have n: "(mask k :: nat) = 2 ^ k - 1" by (rule mask_eq_exp_minus_1)
  have "unat (of_nat (mask k) :: u32) = mask k"
    using pow2_less_u32 [OF assms] by (intro unat_of_nat_eq_u32) (simp only: n)
  then have "unat (mask k :: u32) = mask k" by (simp only: of_nat_mask_eq)
  then show ?thesis by (simp only: n)
qed

text \<open>The test \<^verbatim>\<open>(head - tail) > mask\<close> is the test for a full queue.\<close>

lemma ring_full_iff:
  assumes "ring_ok k m t h buf"
  shows "m < h - t \<longleftrightarrow> length (ring_items m t h buf) = 2 ^ k"
proof -
  have "m < h - t \<longleftrightarrow> 2 ^ k - 1 < unat (h - t)"
    using assms by (simp add: ring_ok_def word_less_nat_alt unat_mask_less)
  then show ?thesis using assms by (auto simp: ring_ok_def)
qed

lemma ring_items_push:
  assumes ok: "ring_ok k m t h buf" and room: "\<not> m < h - t"
  shows "ring_items m t (h + 1) (buf[unat (h AND m) := x]) = ring_items m t h buf @ [x]"
    and "ring_ok k m t (h + 1) (buf[unat (h AND m) := x])"
proof -
  let ?n = "unat (h - t)"
  from ok have k: "k < 32" and m: "m = mask k" and l: "length buf = 2 ^ k" and le: "?n \<le> 2 ^ k"
    by (auto simp: ring_ok_def)
  have n: "?n < 2 ^ k" using ring_full_iff [OF ok] room le by simp
  have suc: "unat (h + 1 - t) = Suc ?n"
    using n pow2_less_u32 [OF k] by (intro unat_diff_add_one) simp
  have hd: "unat (h AND m) = (unat t + ?n) mod 2 ^ k" using k by (simp add: m ring_index_head)
  have other: "unat ((t + of_nat i) AND m) \<noteq> unat (h AND m)" if "i < ?n" for i
    using mod_add_neq [OF that n] k by (simp add: m ring_index hd [unfolded m])
  have last: "unat ((t + of_nat ?n) AND m) = unat (h AND m)" by simp
  have lt: "unat (h AND m) < length buf" by (simp add: hd l)
  show "ring_items m t (h + 1) (buf[unat (h AND m) := x]) = ring_items m t h buf @ [x]"
    using lt by (simp add: ring_items_def suc nth_list_update_neq [OF other [symmetric]])
  show "ring_ok k m t (h + 1) (buf[unat (h AND m) := x])"
    using n by (simp add: ring_ok_def suc k m l)
qed

lemma ring_items_pop:
  assumes "h \<noteq> t"
  shows "ring_items m t h buf = buf ! unat (t AND m) # ring_items m (t + 1) h buf"
proof -
  have "h - t \<noteq> 0" using assms by simp
  then have n: "unat (h - t) = Suc (unat (h - (t + 1)))"
    by (simp add: unat_diff_minus_one [OF assms] unat_gt_0 Suc_pred)
  have "[0..<Suc j] = 0 # map Suc [0..<j]" for j
    by (simp add: map_Suc_upt upt_conv_Cons del: upt_Suc)
  then show ?thesis by (simp add: ring_items_def n add.assoc del: upt_Suc)
qed

lemma ring_ok_pop:
  assumes "ring_ok k m t h buf" "h \<noteq> t"
  shows "ring_ok k m (t + 1) h buf"
  using assms by (auto simp: ring_ok_def unat_diff_minus_one)

subsection \<open>The queue interface\<close>

datatype 'a fifo_op = Push 'a | Pop

text \<open>A run of the producer and the consumer: what was accepted, what was taken out.\<close>

fun fifo_run ::
  "('a \<Rightarrow> 'q \<Rightarrow> bool \<times> 'q) \<Rightarrow> ('q \<Rightarrow> ('a \<times> 'q) option) \<Rightarrow> 'a fifo_op list \<Rightarrow> 'q \<Rightarrow>
   'a list \<times> 'a list \<times> 'q" where
  "fifo_run push pop [] q = ([], [], q)"
| "fifo_run push pop (Push x # ops) q =
     (let (ok, q1) = push x q; (acc, out, q2) = fifo_run push pop ops q1
      in (if ok then x # acc else acc, out, q2))"
| "fifo_run push pop (Pop # ops) q =
     (case pop q of
        None \<Rightarrow> fifo_run push pop ops q
      | Some (x, q1) \<Rightarrow> (let (acc, out, q2) = fifo_run push pop ops q1 in (acc, x # out, q2)))"

fun fifo_pushed :: "'a fifo_op list \<Rightarrow> 'a list" where
  "fifo_pushed [] = []"
| "fifo_pushed (Push x # ops) = x # fifo_pushed ops"
| "fifo_pushed (Pop # ops) = fifo_pushed ops"

lemma fifo_run_subseq:
  "fifo_run push pop ops q = (acc, out, q2) \<Longrightarrow> subseq acc (fifo_pushed ops)"
proof (induction ops arbitrary: q acc out)
  case (Cons op ops)
  then show ?case
    by (cases op) (auto split: prod.splits option.splits if_splits)
qed simp

text \<open>The consumer's loop: take until the queue is empty or \<^term>\<open>n\<close> have been taken.\<close>

fun drain_with :: "('q \<Rightarrow> ('a \<times> 'q) option) \<Rightarrow> nat \<Rightarrow> 'q \<Rightarrow> 'a list \<times> 'q" where
  "drain_with pop 0 q = ([], q)"
| "drain_with pop (Suc n) q =
     (case pop q of
        None \<Rightarrow> ([], q)
      | Some (x, q1) \<Rightarrow> (let (xs, q2) = drain_with pop n q1 in (x # xs, q2)))"

locale bounded_fifo =
  fixes invar :: "'q \<Rightarrow> bool"
    and items :: "'q \<Rightarrow> 'a list"
    and cap :: "'q \<Rightarrow> nat"
    and push :: "'a \<Rightarrow> 'q \<Rightarrow> bool \<times> 'q"
    and pop :: "'q \<Rightarrow> ('a \<times> 'q) option"
  assumes items_le_cap: "invar q \<Longrightarrow> length (items q) \<le> cap q"
    and push_room: "invar q \<Longrightarrow> length (items q) < cap q \<Longrightarrow>
      fst (push x q) \<and> items (snd (push x q)) = items q @ [x]"
    and push_full: "invar q \<Longrightarrow> length (items q) = cap q \<Longrightarrow>
      \<not> fst (push x q) \<and> items (snd (push x q)) = items q"
    and push_invar: "invar q \<Longrightarrow> invar (snd (push x q)) \<and> cap (snd (push x q)) = cap q"
    and pop_empty: "invar q \<Longrightarrow> items q = [] \<Longrightarrow> pop q = None"
    and pop_cons: "invar q \<Longrightarrow> items q = x # xs \<Longrightarrow>
      \<exists>q1. pop q = Some (x, q1) \<and> items q1 = xs \<and> invar q1 \<and> cap q1 = cap q"
begin

lemma push_cases:
  assumes "invar q"
  obtains (room) q1 where "push x q = (True, q1)" "items q1 = items q @ [x]"
      "length (items q) < cap q" "invar q1" "cap q1 = cap q"
  | (full) q1 where "push x q = (False, q1)" "items q1 = items q"
      "length (items q) = cap q" "invar q1" "cap q1 = cap q"
proof (cases "length (items q) < cap q")
  case True
  show ?thesis
    by (rule room [of "snd (push x q)"])
       (use push_room [OF assms True, of x] push_invar [OF assms, of x] True in
        \<open>auto simp: prod_eq_iff\<close>)
next
  case False
  then have f: "length (items q) = cap q" using items_le_cap [OF assms] by simp
  show ?thesis
    by (rule full [of "snd (push x q)"])
       (use push_full [OF assms f, of x] push_invar [OF assms, of x] f in
        \<open>auto simp: prod_eq_iff\<close>)
qed

lemma drain_prefix:
  assumes "invar q"
  shows "\<exists>q1. drain_with pop n q = (take n (items q), q1) \<and>
           items q1 = drop n (items q) \<and> invar q1 \<and> cap q1 = cap q"
  using assms
proof (induction n arbitrary: q)
  case (Suc n)
  show ?case
  proof (cases "items q")
    case Nil
    then show ?thesis using Suc.prems by (simp add: pop_empty)
  next
    case (Cons x xs)
    then obtain q1 where q1: "pop q = Some (x, q1)" "items q1 = xs" "invar q1" "cap q1 = cap q"
      using pop_cons [OF Suc.prems] by blast
    obtain q2 where "drain_with pop n q1 = (take n xs, q2)" "items q2 = drop n xs"
        "invar q2" "cap q2 = cap q1"
      using Suc.IH [OF q1(3)] q1(2) by auto
    then show ?thesis using q1 Cons by simp
  qed
qed simp

text \<open>Nothing accepted is lost, duplicated or reordered, whatever the interleaving.\<close>

lemma fifo_run_conserves:
  assumes "invar q" and "fifo_run push pop ops q = (acc, out, q2)"
  shows "items q @ acc = out @ items q2 \<and> invar q2"
  using assms
proof (induction ops arbitrary: q acc out)
  case (Cons op ops)
  show ?case
  proof (cases op)
    case (Push x)
    from Cons.prems(1) show ?thesis
    proof (cases rule: push_cases [of q x])
      case (room q1)
      then show ?thesis
        using Cons.IH [of q1] Cons.prems(2) Push by (fastforce split: prod.splits)
    next
      case (full q1)
      then show ?thesis
        using Cons.IH [of q1] Cons.prems(2) Push by (fastforce split: prod.splits)
    qed
  next
    case Pop
    show ?thesis
    proof (cases "items q")
      case Nil
      then have "pop q = None" using Cons.prems(1) by (simp add: pop_empty)
      then show ?thesis using Cons.IH [of q] Cons.prems Pop by simp
    next
      case (Cons x xs)
      obtain q1 where q1: "pop q = Some (x, q1)" "items q1 = xs" "invar q1"
        using pop_cons [OF Cons.prems(1) Cons] by blast
      then show ?thesis
        using Cons.IH [of q1] Cons.prems(2) Pop Cons by (fastforce split: prod.splits)
    qed
  qed
qed simp

end

end
