(* ===== verification/Svc_Log.thy ===== *)
theory Svc_Log
  imports Svc_Time Bounded_Fifo
begin

section \<open>The event log: \<^verbatim>\<open>src/svc/svc_log.c\<close> and \<^verbatim>\<open>include/qiran/svc/svc_fault.h\<close>\<close>

text \<open>
  The fault identifiers and severities, and the log every component writes to. Several
  interrupts and the loop write, so the index update is guarded by the interrupt mask; a full
  log refuses the newest record and counts it. \<^term>\<open>bounded_fifo\<close> is interpreted on it.
\<close>

datatype qiran_severity =
  QIRAN_SEV_MINOR | QIRAN_SEV_MEDIUM | QIRAN_SEV_CRITICAL | QIRAN_SEV_SEVERE | QIRAN_SEV_COUNT

fun severity_idx :: "qiran_severity \<Rightarrow> nat" where
  "severity_idx QIRAN_SEV_MINOR = 0"
| "severity_idx QIRAN_SEV_MEDIUM = 1"
| "severity_idx QIRAN_SEV_CRITICAL = 2"
| "severity_idx QIRAN_SEV_SEVERE = 3"
| "severity_idx QIRAN_SEV_COUNT = 4"

datatype qiran_escalation =
  QIRAN_ESCALATE_LOG_ONLY | QIRAN_ESCALATE_REPORT | QIRAN_ESCALATE_POWER_RESET

datatype qiran_fault_id =
  QIRAN_FAULT_NONE | QIRAN_FAULT_BOOT_IMAGE | QIRAN_FAULT_SAFE_OUTPUTS |
  QIRAN_FAULT_POST | QIRAN_FAULT_DEVINIT | QIRAN_FAULT_LINK_ESTABLISH |
  QIRAN_FAULT_CYCLE_OVERRUN | QIRAN_FAULT_IRQ_OVERFLOW | QIRAN_FAULT_UART_RX_OVERFLOW |
  QIRAN_FAULT_PL_ERROR | QIRAN_FAULT_WATCHDOG_EXPIRY | QIRAN_FAULT_MEMORY |
  QIRAN_FAULT_CONFIG | QIRAN_FAULT_STAGE_TIMEOUT | QIRAN_FAULT_PRECOND |
  QIRAN_FAULT_CONTROL_LOOP | QIRAN_FAULT_OVERCURRENT | QIRAN_FAULT_BROWNOUT |
  QIRAN_FAULT_TEMPERATURE | QIRAN_FAULT_LASER_TEC | QIRAN_FAULT_LASER_POWER |
  QIRAN_FAULT_MRR_LOCK | QIRAN_FAULT_CROW_TUNE | QIRAN_FAULT_UMZI_TUNE |
  QIRAN_FAULT_DLI_LOCK | QIRAN_FAULT_MRR_RELOCK | QIRAN_FAULT_SPAD_OPTICAL_POWER |
  QIRAN_FAULT_SPAD_DARK_COUNT | QIRAN_FAULT_SPW_LINK | QIRAN_FAULT_PACKET_INTEGRITY |
  QIRAN_FAULT_PACKET_SEQUENCE | QIRAN_FAULT_OUTPUT_QUEUE | QIRAN_FAULT_HK_SAMPLE |
  QIRAN_FAULT_HK_TRANSMIT | QIRAN_FAULT_COMMAND_REJECTED | QIRAN_FAULT_COMMAND_FAILED |
  QIRAN_FAULT_DDR_OVERRUN | QIRAN_FAULT_NAND_WRITE | QIRAN_FAULT_BUFFER_OWNERSHIP |
  QIRAN_FAULT_DATA_PRODUCT | QIRAN_FAULT_COUNT

text \<open>The identifiers in the order of their values.\<close>

definition fault_ids :: "qiran_fault_id list" where
  "fault_ids =
   [QIRAN_FAULT_NONE, QIRAN_FAULT_BOOT_IMAGE, QIRAN_FAULT_SAFE_OUTPUTS, QIRAN_FAULT_POST,
   QIRAN_FAULT_DEVINIT, QIRAN_FAULT_LINK_ESTABLISH, QIRAN_FAULT_CYCLE_OVERRUN,
   QIRAN_FAULT_IRQ_OVERFLOW, QIRAN_FAULT_UART_RX_OVERFLOW, QIRAN_FAULT_PL_ERROR,
   QIRAN_FAULT_WATCHDOG_EXPIRY, QIRAN_FAULT_MEMORY, QIRAN_FAULT_CONFIG,
   QIRAN_FAULT_STAGE_TIMEOUT, QIRAN_FAULT_PRECOND, QIRAN_FAULT_CONTROL_LOOP,
   QIRAN_FAULT_OVERCURRENT, QIRAN_FAULT_BROWNOUT, QIRAN_FAULT_TEMPERATURE,
   QIRAN_FAULT_LASER_TEC, QIRAN_FAULT_LASER_POWER, QIRAN_FAULT_MRR_LOCK,
   QIRAN_FAULT_CROW_TUNE, QIRAN_FAULT_UMZI_TUNE, QIRAN_FAULT_DLI_LOCK,
   QIRAN_FAULT_MRR_RELOCK, QIRAN_FAULT_SPAD_OPTICAL_POWER, QIRAN_FAULT_SPAD_DARK_COUNT,
   QIRAN_FAULT_SPW_LINK, QIRAN_FAULT_PACKET_INTEGRITY, QIRAN_FAULT_PACKET_SEQUENCE,
   QIRAN_FAULT_OUTPUT_QUEUE, QIRAN_FAULT_HK_SAMPLE, QIRAN_FAULT_HK_TRANSMIT,
   QIRAN_FAULT_COMMAND_REJECTED, QIRAN_FAULT_COMMAND_FAILED, QIRAN_FAULT_DDR_OVERRUN,
   QIRAN_FAULT_NAND_WRITE, QIRAN_FAULT_BUFFER_OWNERSHIP, QIRAN_FAULT_DATA_PRODUCT]"

definition fault_idx :: "qiran_fault_id \<Rightarrow> nat" where
  "fault_idx f = length (takeWhile (\<lambda>g. g \<noteq> f) fault_ids)"

lemma fault_ids_range: "f \<in> set fault_ids \<longleftrightarrow> f \<noteq> QIRAN_FAULT_COUNT"
  by (cases f) (simp_all add: fault_ids_def)

lemma fault_idx_count: "fault_idx QIRAN_FAULT_COUNT = length fault_ids"
  by (simp add: fault_idx_def fault_ids_def)

lemma fault_idx_less: "f \<noteq> QIRAN_FAULT_COUNT \<Longrightarrow> fault_idx f < length fault_ids"
  by (cases f) (simp_all add: fault_idx_def fault_ids_def)

datatype svc_log_category = SVC_LOG_EVENT | SVC_LOG_FAULT | SVC_LOG_TRACE

fun log_category_idx :: "svc_log_category \<Rightarrow> nat" where
  "log_category_idx SVC_LOG_EVENT = 0"
| "log_category_idx SVC_LOG_FAULT = 1"
| "log_category_idx SVC_LOG_TRACE = 2"

record svc_log_record =
  lr_tick :: u32
  lr_detail :: u32
  lr_code :: u16
  lr_severity :: u8
  lr_category :: u8

record log_state =
  lg_buf :: "svc_log_record list"
  lg_head :: u32
  lg_tail :: u32
  lg_dropped :: u32
  lg_total :: u32
  lg_fault_total :: u32

record log_world = time_world +
  w_log :: log_state

definition LOG_MASK :: u32 where "LOG_MASK = QIRAN_LOG_DEPTH - 1"

text \<open>The slot and the index: the part of \<^verbatim>\<open>push\<close> that stores the record.\<close>

definition log_put :: "svc_log_record \<Rightarrow> log_state \<Rightarrow> bool \<times> log_state" where
  "log_put r s =
    (let head = lg_head s in
     if LOG_MASK < head - lg_tail s then (False, s\<lparr>lg_dropped := lg_dropped s + 1\<rparr>)
     else (True, s\<lparr>lg_buf := (lg_buf s)[unat (head AND LOG_MASK) := r], lg_head := head + 1\<rparr>))"

definition log_push ::
  "u16 \<Rightarrow> u8 \<Rightarrow> u8 \<Rightarrow> u32 \<Rightarrow> 'a log_world_scheme \<Rightarrow> 'a log_world_scheme" where
  "log_push code category severity detail w =
    (let (prior, w) = plat_cpu_irq_disable w;
         s = snd (log_put \<lparr>lr_tick = exec_raw_tick_count w, lr_detail = detail, lr_code = code,
               lr_severity = severity, lr_category = category\<rparr> (w_log w));
         s = s\<lparr>lg_total := lg_total s + 1\<rparr>;
         s = (if category = of_nat (log_category_idx SVC_LOG_FAULT)
              then s\<lparr>lg_fault_total := lg_fault_total s + 1\<rparr> else s)
     in plat_cpu_irq_restore prior (w\<lparr>w_log := s\<rparr>))"

definition svc_log_init :: "'a log_world_scheme \<Rightarrow> 'a log_world_scheme" where
  "svc_log_init w = w\<lparr>w_log := (w_log w)\<lparr>lg_head := 0, lg_tail := 0, lg_dropped := 0,
     lg_total := 0, lg_fault_total := 0\<rparr>\<rparr>"

definition svc_log_event :: "u16 \<Rightarrow> u32 \<Rightarrow> 'a log_world_scheme \<Rightarrow> 'a log_world_scheme" where
  "svc_log_event code detail = log_push code (of_nat (log_category_idx SVC_LOG_EVENT)) 0 detail"

definition svc_log_fault ::
  "qiran_fault_id \<Rightarrow> qiran_severity \<Rightarrow> u32 \<Rightarrow> 'a log_world_scheme \<Rightarrow> 'a log_world_scheme" where
  "svc_log_fault f severity detail =
    log_push (of_nat (fault_idx f)) (of_nat (log_category_idx SVC_LOG_FAULT))
      (of_nat (severity_idx severity)) detail"

definition svc_log_trace :: "u16 \<Rightarrow> u32 \<Rightarrow> 'a log_world_scheme \<Rightarrow> 'a log_world_scheme" where
  "svc_log_trace code detail = log_push code (of_nat (log_category_idx SVC_LOG_TRACE)) 0 detail"

definition log_pop :: "log_state \<Rightarrow> (svc_log_record \<times> log_state) option" where
  "log_pop s =
    (let tail = lg_tail s in
     if lg_head s = tail then None
     else Some (lg_buf s ! unat (tail AND LOG_MASK), s\<lparr>lg_tail := tail + 1\<rparr>))"

text \<open>The records read are the result; \<open>out\<close> says whether the caller gave a buffer.\<close>

definition svc_log_read ::
  "bool \<Rightarrow> u32 \<Rightarrow> 'a log_world_scheme \<Rightarrow> svc_log_record list \<times> 'a log_world_scheme" where
  "svc_log_read out n w =
    (if \<not> out then ([], w)
     else (let (rs, s) = drain_with log_pop (unat n) (w_log w) in (rs, w\<lparr>w_log := s\<rparr>)))"

definition svc_log_count :: "'a log_world_scheme \<Rightarrow> u32" where
  "svc_log_count w = lg_head (w_log w) - lg_tail (w_log w)"

definition svc_log_dropped :: "'a log_world_scheme \<Rightarrow> u32" where
  "svc_log_dropped w = lg_dropped (w_log w)"

definition svc_log_total :: "'a log_world_scheme \<Rightarrow> u32" where
  "svc_log_total w = lg_total (w_log w)"

definition svc_log_fault_total :: "'a log_world_scheme \<Rightarrow> u32" where
  "svc_log_fault_total w = lg_fault_total (w_log w)"

subsection \<open>The log is a bounded queue\<close>

definition log_invar :: "log_state \<Rightarrow> bool" where
  "log_invar s \<longleftrightarrow> ring_ok 7 LOG_MASK (lg_tail s) (lg_head s) (lg_buf s)"

definition log_queue :: "log_state \<Rightarrow> svc_log_record list" where
  "log_queue s = ring_items LOG_MASK (lg_tail s) (lg_head s) (lg_buf s)"

lemma log_put_cases:
  assumes "log_invar s"
  shows "length (log_queue s) < 128 \<and> fst (log_put r s) \<and>
      log_queue (snd (log_put r s)) = log_queue s @ [r] \<and> log_invar (snd (log_put r s)) \<or>
    length (log_queue s) = 128 \<and> log_put r s = (False, s\<lparr>lg_dropped := lg_dropped s + 1\<rparr>)"
proof -
  have ok: "ring_ok 7 LOG_MASK (lg_tail s) (lg_head s) (lg_buf s)"
    using assms by (simp add: log_invar_def)
  have "unat (lg_head s - lg_tail s) \<le> 128" using ok by (simp add: ring_ok_def)
  then show ?thesis
    using ring_full_iff [OF ok] ring_items_push [OF ok, of r]
    by (cases "LOG_MASK < lg_head s - lg_tail s")
       (simp_all add: log_put_def Let_def log_queue_def log_invar_def)
qed

interpretation lq: bounded_fifo log_invar log_queue "\<lambda>_. 128" log_put log_pop
proof
  fix s :: log_state and r assume "log_invar s"
  then show "length (log_queue s) \<le> 128"
    by (simp add: log_invar_def ring_ok_def log_queue_def)
  from \<open>log_invar s\<close> show "log_invar (snd (log_put r s)) \<and> 128 = (128::nat)"
    using log_put_cases [of s r] by (auto simp: log_invar_def)
next
  fix s :: log_state and r assume "log_invar s" "length (log_queue s) < 128"
  then show "fst (log_put r s) \<and> log_queue (snd (log_put r s)) = log_queue s @ [r]"
    using log_put_cases [of s r] by auto
next
  fix s :: log_state and r assume "log_invar s" "length (log_queue s) = 128"
  then show "\<not> fst (log_put r s) \<and> log_queue (snd (log_put r s)) = log_queue s"
    using log_put_cases [of s r] by (auto simp: log_queue_def)
next
  fix s :: log_state assume "log_queue s = []"
  then show "log_pop s = None"
    by (simp add: log_queue_def log_pop_def unat_eq_0 flip: length_0_conv)
next
  fix s :: log_state and r rs assume inv: "log_invar s" and q: "log_queue s = r # rs"
  have ne: "lg_head s \<noteq> lg_tail s" using q by (auto simp: log_queue_def)
  show "\<exists>s1. log_pop s = Some (r, s1) \<and> log_queue s1 = rs \<and> log_invar s1 \<and> 128 = (128::nat)"
    using ring_items_pop [OF ne, of LOG_MASK "lg_buf s"] ring_ok_pop [OF _ ne] ne inv q
    by (auto simp: log_pop_def Let_def log_queue_def log_invar_def)
qed

subsection \<open>What writing does\<close>

text \<open>Entering and leaving the critical section cancel out: a write changes the log only.\<close>

definition log_step :: "svc_log_record \<Rightarrow> log_state \<Rightarrow> log_state" where
  "log_step r s =
    (let s = snd (log_put r s); s = s\<lparr>lg_total := lg_total s + 1\<rparr>
     in if lr_category r = 1 then s\<lparr>lg_fault_total := lg_fault_total s + 1\<rparr> else s)"

definition log_rec :: "'a log_world_scheme \<Rightarrow> u16 \<Rightarrow> u8 \<Rightarrow> u8 \<Rightarrow> u32 \<Rightarrow> svc_log_record" where
  "log_rec w code category severity detail =
    \<lparr>lr_tick = exec_raw_tick_count w, lr_detail = detail, lr_code = code,
     lr_severity = severity, lr_category = category\<rparr>"

lemma log_rec_fields [simp]:
  "lr_tick (log_rec w c k v d) = exec_raw_tick_count w" "lr_detail (log_rec w c k v d) = d"
  "lr_code (log_rec w c k v d) = c" "lr_severity (log_rec w c k v d) = v"
  "lr_category (log_rec w c k v d) = k"
  by (simp_all add: log_rec_def)

lemma log_push_eq:
  "log_push code category severity detail w =
    w\<lparr>w_log := log_step (log_rec w code category severity detail) (w_log w)\<rparr>"
  by (simp add: log_push_def plat_cpu_irq_disable_def plat_cpu_irq_restore_def Let_def log_step_def
      exec_raw_tick_count_def log_rec_def)

lemmas svc_log_eqs = svc_log_event_def svc_log_fault_def svc_log_trace_def log_push_eq

lemma log_step_fields:
  "lg_total (log_step r s) = lg_total s + 1" "lg_tail (log_step r s) = lg_tail s"
  "lg_fault_total (log_step r s) = (if lr_category r = 1 then lg_fault_total s + 1 else lg_fault_total s)"
  by (simp_all add: log_step_def log_put_def Let_def)

lemma log_step_cases:
  assumes "log_invar s"
  obtains (kept) "log_queue (log_step r s) = log_queue s @ [r]" "lg_dropped (log_step r s) = lg_dropped s"
      "log_invar (log_step r s)" "length (log_queue s) < 128"
  | (dropped) "log_queue (log_step r s) = log_queue s" "lg_dropped (log_step r s) = lg_dropped s + 1"
      "log_invar (log_step r s)" "length (log_queue s) = 128"
proof -
  have same: "log_queue (log_step r s) = log_queue (snd (log_put r s))"
      "log_invar (log_step r s) = log_invar (snd (log_put r s))"
      "lg_dropped (log_step r s) = lg_dropped (snd (log_put r s))"
    by (simp_all add: log_step_def Let_def log_queue_def log_invar_def)
  have "fst (log_put r s) \<Longrightarrow> lg_dropped (snd (log_put r s)) = lg_dropped s"
    by (simp add: log_put_def Let_def split: if_splits)
  then show thesis
    using log_put_cases [OF assms, of r] kept dropped assms unfolding same
    by (auto simp: log_queue_def log_invar_def)
qed

text \<open>Every operation on the log, in any order, by any writer.\<close>

datatype log_op =
    Log_event u16 u32
  | Log_fault qiran_fault_id qiran_severity u32
  | Log_trace u16 u32
  | Log_read u32

fun log_run :: "log_op list \<Rightarrow> 'a log_world_scheme \<Rightarrow> svc_log_record list \<times> 'a log_world_scheme" where
  "log_run [] w = ([], w)"
| "log_run (Log_event c d # ops) w = log_run ops (svc_log_event c d w)"
| "log_run (Log_fault f v d # ops) w = log_run ops (svc_log_fault f v d w)"
| "log_run (Log_trace c d # ops) w = log_run ops (svc_log_trace c d w)"
| "log_run (Log_read n # ops) w =
     (let (rs, w) = svc_log_read True n w; (rs', w) = log_run ops w in (rs @ rs', w))"

fun log_written :: "log_op list \<Rightarrow> (u16 \<times> u32) list" where
  "log_written [] = []"
| "log_written (Log_event c d # ops) = (c, d) # log_written ops"
| "log_written (Log_fault f v d # ops) = (of_nat (fault_idx f), d) # log_written ops"
| "log_written (Log_trace c d # ops) = (c, d) # log_written ops"
| "log_written (Log_read n # ops) = log_written ops"

abbreviation log_key :: "svc_log_record \<Rightarrow> u16 \<times> u32" where
  "log_key r \<equiv> (lr_code r, lr_detail r)"

definition log_faults :: "log_op list \<Rightarrow> nat" where
  "log_faults ops = length (filter (\<lambda>op. case op of Log_fault f v d \<Rightarrow> True | _ \<Rightarrow> False) ops)"

definition log_run_ok :: "log_op list \<Rightarrow> 'a log_world_scheme \<Rightarrow> svc_log_record list \<Rightarrow> log_state \<Rightarrow> bool" where
  "log_run_ok ops w out s \<longleftrightarrow>
    subseq (map log_key (out @ log_queue s)) (map log_key (log_queue (w_log w)) @ log_written ops) \<and>
    of_nat (length (out @ log_queue s)) + lg_dropped s =
      (of_nat (length (log_queue (w_log w)) + length (log_written ops)) + lg_dropped (w_log w) :: u32) \<and>
    lg_total s = lg_total (w_log w) + of_nat (length (log_written ops)) \<and>
    lg_fault_total s = lg_fault_total (w_log w) + of_nat (log_faults ops) \<and> log_invar s"

lemma log_run_write:
  fixes w w1 :: "'a log_world_scheme"
  assumes inv: "log_invar (w_log w)"
    and ih: "\<And>v :: 'a log_world_scheme. log_invar (w_log v) \<Longrightarrow>
      log_run_ok ops v (fst (log_run ops v)) (w_log (snd (log_run ops v)))"
    and w1: "w_log w1 = log_step r (w_log w)"
    and run: "log_run (op # ops) w = log_run ops w1"
    and op: "log_written (op # ops) = log_key r # log_written ops"
      "log_faults (op # ops) = (if lr_category r = 1 then Suc (log_faults ops) else log_faults ops)"
  shows "log_run_ok (op # ops) w (fst (log_run (op # ops) w)) (w_log (snd (log_run (op # ops) w)))"
proof -
  obtain out s where os: "fst (log_run ops w1) = out" "w_log (snd (log_run ops w1)) = s" by simp
  from inv show ?thesis
  proof (cases rule: log_step_cases [of _ r])
    case kept
    then have "log_run_ok ops w1 out s" using ih [of w1] w1 os by simp
    then show ?thesis
      using kept unfolding log_run_ok_def w1 run os op by (simp add: log_step_fields algebra_simps)
  next
    case dropped
    then have r: "log_run_ok ops w1 out s" using ih [of w1] w1 os by simp
    have "subseq (map log_key (log_queue (w_log w)) @ log_written ops)
        (map log_key (log_queue (w_log w)) @ log_key r # log_written ops)"
      by (simp only: subseq_append') (rule subseq_Cons', rule subseq_order.refl)
    then show ?thesis
      using dropped r subseq_order.trans unfolding log_run_ok_def w1 run os op
      by (fastforce simp: log_step_fields algebra_simps)
  qed
qed

lemma log_drain_counts:
  "lg_dropped (snd (drain_with log_pop k s)) = lg_dropped s \<and>
   lg_total (snd (drain_with log_pop k s)) = lg_total s \<and>
   lg_fault_total (snd (drain_with log_pop k s)) = lg_fault_total s"
  by (induction k arbitrary: s) (simp_all add: log_pop_def Let_def case_prod_beta)

lemma log_run_all:
  "log_invar (w_log w) \<Longrightarrow> log_run_ok ops w (fst (log_run ops w)) (w_log (snd (log_run ops w)))"
proof (induction ops arbitrary: w)
  case (Cons op ops)
  note wr = log_run_write [OF Cons.prems Cons.IH]
  show ?case
  proof (cases op)
    case (Log_read n)
    let ?q = "log_queue (w_log w)"
    obtain s1 where s1: "drain_with log_pop (unat n) (w_log w) = (take (unat n) ?q, s1)"
        "log_queue s1 = drop (unat n) ?q" "log_invar s1"
      using lq.drain_prefix [OF Cons.prems, of "unat n"] by blast
    have same: "lg_dropped s1 = lg_dropped (w_log w) \<and> lg_total s1 = lg_total (w_log w) \<and>
        lg_fault_total s1 = lg_fault_total (w_log w)"
      using log_drain_counts [of "unat n" "w_log w"] s1(1) by simp
    let ?w1 = "w\<lparr>w_log := s1\<rparr>"
    obtain out w2 where r: "log_run ops ?w1 = (out, w2)" by fastforce
    have ih: "log_run_ok ops ?w1 out (w_log w2)" using Cons.IH [of ?w1] s1(3) r by simp
    have run: "log_run (op # ops) w = (take (unat n) ?q @ out, w2)"
      using r by (simp add: Log_read svc_log_read_def s1(1))
    have len: "length (take (unat n) ?q) + length (drop (unat n) ?q) = length ?q"
      by (simp flip: length_append)
    have "subseq (map log_key (take (unat n) ?q) @ map log_key (out @ log_queue (w_log w2)))
        (map log_key (take (unat n) ?q) @ map log_key (drop (unat n) ?q) @ log_written ops)"
      using ih s1(2) by (simp add: log_run_ok_def subseq_append')
    then have "subseq (map log_key (take (unat n) ?q @ out @ log_queue (w_log w2)))
        (map log_key ?q @ log_written ops)"
      by (simp only: map_append append_assoc) (simp only: append_take_drop_id flip: map_append append_assoc)
    moreover have "of_nat (length ((take (unat n) ?q @ out) @ log_queue (w_log w2))) + lg_dropped (w_log w2) =
        (of_nat (length ?q + length (log_written ops)) + lg_dropped (w_log w) :: u32)"
    proof -
      have "of_nat (length ((take (unat n) ?q @ out) @ log_queue (w_log w2))) + lg_dropped (w_log w2) =
          of_nat (length (take (unat n) ?q)) +
            (of_nat (length (out @ log_queue (w_log w2))) + lg_dropped (w_log w2) :: u32)"
        by (simp only: append_assoc length_append [of "take (unat n) ?q"] of_nat_add add.assoc)
      also have "\<dots> = of_nat (length (take (unat n) ?q)) +
          (of_nat (length (drop (unat n) ?q) + length (log_written ops)) + lg_dropped (w_log w))"
        using ih s1(2) same by (simp only: log_run_ok_def) simp
      also have "\<dots> = of_nat ((length (take (unat n) ?q) + length (drop (unat n) ?q)) +
          length (log_written ops)) + lg_dropped (w_log w)"
        by (simp only: of_nat_add add.assoc)
      finally show ?thesis by (simp only: len)
    qed
    ultimately show ?thesis
      using ih same unfolding log_run_ok_def run by (simp add: Log_read log_faults_def)
  next
    case (Log_event c d)
    show ?thesis
      by (rule wr [of "svc_log_event c d w" "log_rec w c 0 0 d"])
         (simp_all add: Log_event log_faults_def svc_log_eqs)
  next
    case (Log_fault f v d)
    show ?thesis
      by (rule wr [of "svc_log_fault f v d w" "log_rec w (of_nat (fault_idx f)) 1 (of_nat (severity_idx v)) d"])
         (simp_all add: Log_fault log_faults_def svc_log_eqs)
  next
    case (Log_trace c d)
    show ?thesis
      by (rule wr [of "svc_log_trace c d w" "log_rec w c 2 0 d"])
         (simp_all add: Log_trace log_faults_def svc_log_eqs)
  qed
qed (simp add: log_run_ok_def log_faults_def)

text \<open>Whatever the writers and the reader do, what has been read and what is still in the log
  is a subsequence of what was written, in order; the entries read, kept and dropped add up to
  the entries written; and the totals count every write and every fault, kept or dropped.\<close>

theorem svc_log_conserves:
  assumes "length (lg_buf (w_log w)) = 128" and "length ops < 2 ^ 32"
    and "log_run ops (svc_log_init w) = (out, w1)"
  shows "subseq (map log_key (out @ log_queue (w_log w1))) (log_written ops) \<and>
    length out + length (log_queue (w_log w1)) + unat (svc_log_dropped w1) = length (log_written ops) \<and>
    length (log_queue (w_log w1)) \<le> 128 \<and>
    unat (svc_log_total w1) = length (log_written ops) \<and>
    unat (svc_log_fault_total w1) = log_faults ops"
proof -
  let ?w0 = "svc_log_init w" and ?W = "length (log_written ops)"
  have "log_invar (w_log ?w0)"
    using assms(1) by (simp add: svc_log_init_def log_invar_def ring_ok_def LOG_MASK_def cfg_consts
        mask_eq_exp_minus_1)
  then have "log_run_ok ops ?w0 out (w_log w1)" using log_run_all [of ?w0 ops] assms(3) by simp
  then have r: "subseq (map log_key (out @ log_queue (w_log w1))) (log_written ops)"
      "of_nat (length (out @ log_queue (w_log w1))) + lg_dropped (w_log w1) = (of_nat ?W :: u32)"
      "lg_total (w_log w1) = of_nat ?W" "lg_fault_total (w_log w1) = of_nat (log_faults ops)"
      "log_invar (w_log w1)"
    by (auto simp: log_run_ok_def svc_log_init_def log_queue_def)
  have W: "?W \<le> length ops" by (induction ops rule: log_written.induct) auto
  have F: "log_faults ops \<le> length ops" by (simp add: log_faults_def)
  have le: "length (out @ log_queue (w_log w1)) \<le> ?W"
    using list_emb_length [OF r(1)] by simp
  have "lg_dropped (w_log w1) = of_nat ?W - of_nat (length (out @ log_queue (w_log w1)))"
    using r(2) by (simp add: algebra_simps del: length_append)
  also have "\<dots> = of_nat (?W - length (out @ log_queue (w_log w1)))"
    using le by (simp only: of_nat_diff)
  finally have d: "lg_dropped (w_log w1) = of_nat (?W - length (out @ log_queue (w_log w1)))" .
  have "unat (lg_dropped (w_log w1)) = ?W - length (out @ log_queue (w_log w1))"
    unfolding d using W assms(2) by (intro unat_of_nat_eq_u32) simp
  moreover have "unat (of_nat ?W :: u32) = ?W" "unat (of_nat (log_faults ops) :: u32) = log_faults ops"
    using W F assms(2) by (simp_all add: unat_of_nat_eq_u32)
  ultimately show ?thesis
    using r le lq.items_le_cap [OF r(5)]
    by (simp add: svc_log_dropped_def svc_log_total_def svc_log_fault_total_def)
qed

definition log_world0 :: log_world where
  "log_world0 = \<lparr>w_cpu = w_cpu exec_world0, w_exec = w_exec exec_world0,
     w_sched = w_sched sched_world0, w_time = w_time (time_world0 0),
     w_log = \<lparr>lg_buf = replicate 128 \<lparr>lr_tick = 0, lr_detail = 0, lr_code = 0, lr_severity = 0,
       lr_category = 0\<rparr>, lg_head = 9, lg_tail = 4, lg_dropped = 2, lg_total = 7, lg_fault_total = 3\<rparr>\<rparr>"

theorem svc_log_conserves_witness:
  "unat (svc_log_total (snd (log_run [Log_event 1 2, Log_read 5,
     Log_fault QIRAN_FAULT_POST QIRAN_SEV_MEDIUM 7] (svc_log_init log_world0)))) = 2"
proof -
  let ?ops = "[Log_event 1 2, Log_read 5, Log_fault QIRAN_FAULT_POST QIRAN_SEV_MEDIUM 7]"
  have "length (lg_buf (w_log log_world0)) = 128" "length ?ops < 2 ^ 32"
    by (simp_all add: log_world0_def)
  from svc_log_conserves [OF this, of "fst (log_run ?ops (svc_log_init log_world0))"
      "snd (log_run ?ops (svc_log_init log_world0))"]
  show ?thesis by (simp del: log_run.simps)
qed

end
