(* ===== verification/Plat_Irq.thy ===== *)
theory Plat_Irq
  imports Svc_Log
begin

section \<open>The interrupt framework: \<^verbatim>\<open>src/plat/plat_irq.c\<close> over \<^verbatim>\<open>src/plat/plat_gic.c\<close>\<close>

text \<open>
  Six sources, each with a queue of eight events between the shared handler and the loop. The
  acknowledge hook belongs to the device's owner: the handler takes the interpretation
  \<open>ack\<close> of the hooks as an argument. Of the interrupt controller, a board support package
  object, the state keeps what this code sets: which lines were connected and enabled; whether
  the package finds, initialises and connects the controller is arbitrary. Names for print
  are not modelled.
\<close>

datatype plat_irq_id =
    PLAT_IRQ_TIMER | PLAT_IRQ_WATCHDOG | PLAT_IRQ_DMA | PLAT_IRQ_SPW | PLAT_IRQ_UART
  | PLAT_IRQ_PL_ERROR | PLAT_IRQ_COUNT

record plat_irq_event =
  ev_tick :: u32
  ev_datum :: u32
  ev_kind :: u16
  ev_seq :: u16

text \<open>The acknowledge hooks: the one of this source tree, and those registered from outside.\<close>

datatype irq_ack = Uart_ack | Ext_ack handle

record plat_irq_source =
  is_irq_id :: u32
  is_trigger :: u8
  is_ack :: "irq_ack option"
  is_ctx :: "handle option"

record irq_slot =
  iq_src :: plat_irq_source
  iq_registered :: bool
  iq_q :: "plat_irq_event list"
  iq_head :: u32
  iq_tail :: u32
  iq_taken :: u32
  iq_dropped :: u32
  iq_cycles_last :: u32
  iq_cycles_worst :: u32
  iq_seq :: u16

text \<open>What a line of the controller is connected to: the shared handler with the slot of its
  source, or the tick of the private timer.\<close>

datatype gic_target = Irq_handler plat_irq_id | Timer_isr

record gic_state =
  gc_ready :: bool
  gc_cfg_found :: bool
  gc_cfg_ok :: bool
  gc_connect_ok :: "u32 \<Rightarrow> bool"
  gc_priority :: "u32 \<rightharpoonup> u8 \<times> u8"
  gc_lines :: "u32 \<rightharpoonup> gic_target"
  gc_enabled :: "u32 \<Rightarrow> bool"
  gc_started :: bool

record irq_world = log_world +
  w_gic :: gic_state
  w_irq :: "plat_irq_id \<Rightarrow> irq_slot"

record plat_irq_stats =
  iqs_taken :: u32
  iqs_dropped :: u32
  iqs_cycles_last :: u32
  iqs_cycles_worst :: u32

definition plat_gic_init :: "'a irq_world_scheme \<Rightarrow> qiran_status \<times> 'a irq_world_scheme" where
  "plat_gic_init w =
    (if gc_ready (w_gic w) then (QIRAN_OK, w)
     else if \<not> gc_cfg_found (w_gic w) then (QIRAN_ERR_HARDWARE, w)
     else if \<not> gc_cfg_ok (w_gic w) then (QIRAN_ERR_HARDWARE, w)
     else (QIRAN_OK, w\<lparr>w_gic := (w_gic w)\<lparr>gc_ready := True\<rparr>\<rparr>))"

text \<open>A null handler is \<^term>\<open>None\<close>. The priority is set whether or not the line connects.\<close>

definition plat_gic_connect ::
  "u32 \<Rightarrow> gic_target option \<Rightarrow> u8 \<Rightarrow> u8 \<Rightarrow> 'a irq_world_scheme \<Rightarrow> qiran_status \<times> 'a irq_world_scheme" where
  "plat_gic_connect irq handler priority trigger w =
    (if \<not> gc_ready (w_gic w) then (QIRAN_ERR_STATE, w)
     else if handler = None then (QIRAN_ERR_PARAM, w)
     else (let w = w\<lparr>w_gic := (w_gic w)\<lparr>gc_priority := (gc_priority (w_gic w))(irq \<mapsto> (priority, trigger))\<rparr>\<rparr>
           in if \<not> gc_connect_ok (w_gic w) irq then (QIRAN_ERR_HARDWARE, w)
              else (QIRAN_OK, w\<lparr>w_gic := (w_gic w)\<lparr>gc_lines := (gc_lines (w_gic w))(irq := handler)\<rparr>\<rparr>)))"

definition plat_gic_enable :: "u32 \<Rightarrow> 'a irq_world_scheme \<Rightarrow> 'a irq_world_scheme" where
  "plat_gic_enable irq w =
    (if gc_ready (w_gic w)
     then w\<lparr>w_gic := (w_gic w)\<lparr>gc_enabled := (gc_enabled (w_gic w))(irq := True)\<rparr>\<rparr> else w)"

definition plat_gic_disable :: "u32 \<Rightarrow> 'a irq_world_scheme \<Rightarrow> 'a irq_world_scheme" where
  "plat_gic_disable irq w =
    (if gc_ready (w_gic w)
     then w\<lparr>w_gic := (w_gic w)\<lparr>gc_enabled := (gc_enabled (w_gic w))(irq := False)\<rparr>\<rparr> else w)"

definition plat_gic_start :: "'a irq_world_scheme \<Rightarrow> 'a irq_world_scheme" where
  "plat_gic_start w = w\<lparr>w_gic := (w_gic w)\<lparr>gc_started := True\<rparr>\<rparr>"

definition Q_MASK :: u32 where "Q_MASK = QIRAN_IRQ_QUEUE_DEPTH - 1"

text \<open>The slot and the index: the part of the handler that stores the event.\<close>

definition irq_put :: "plat_irq_event \<Rightarrow> irq_slot \<Rightarrow> bool \<times> irq_slot" where
  "irq_put e s =
    (let head = iq_head s in
     if Q_MASK < head - iq_tail s then (False, s\<lparr>iq_dropped := iq_dropped s + 1\<rparr>)
     else (True, s\<lparr>iq_q := (iq_q s)[unat (head AND Q_MASK) := e], iq_head := head + 1\<rparr>))"

definition irq_publish :: "u32 \<Rightarrow> u32 \<Rightarrow> u16 \<Rightarrow> irq_slot \<Rightarrow> irq_slot" where
  "irq_publish tick datum kind s =
    (let s = s\<lparr>iq_taken := iq_taken s + 1\<rparr>;
         s = snd (irq_put \<lparr>ev_tick = tick, ev_datum = datum, ev_kind = kind, ev_seq = iq_seq s\<rparr> s)
     in s\<lparr>iq_seq := iq_seq s + 1\<rparr>)"

definition irq_handler ::
  "(irq_ack \<Rightarrow> handle option \<Rightarrow> u16 \<Rightarrow> 'a irq_world_scheme \<Rightarrow> u32 \<times> u16 \<times> 'a irq_world_scheme) \<Rightarrow>
   plat_irq_id \<Rightarrow> 'a irq_world_scheme \<Rightarrow> 'a irq_world_scheme" where
  "irq_handler ack irq w =
    (let (start, w) = plat_cpu_cycle_count w;
         src = iq_src (w_irq w irq);
         (datum, kind, w) = ack (the (is_ack src)) (is_ctx src) 0 w;
         w = w\<lparr>w_irq := (w_irq w)(irq := irq_publish (exec_raw_tick_count w) datum kind (w_irq w irq))\<rparr>;
         (stop, w) = plat_cpu_cycle_count w;
         elapsed = stop - start;
         s = (w_irq w irq)\<lparr>iq_cycles_last := elapsed\<rparr>;
         s = (if iq_cycles_worst s < elapsed then s\<lparr>iq_cycles_worst := elapsed\<rparr> else s)
     in w\<lparr>w_irq := (w_irq w)(irq := s)\<rparr>)"

definition irq_reset :: "irq_slot \<Rightarrow> irq_slot" where
  "irq_reset s =
    s\<lparr>iq_src := \<lparr>is_irq_id = 0, is_trigger = 0, is_ack = None, is_ctx = None\<rparr>,
      iq_registered := False, iq_head := 0, iq_tail := 0, iq_taken := 0, iq_dropped := 0,
      iq_cycles_last := 0, iq_cycles_worst := 0, iq_seq := 0\<rparr>"

definition plat_irq_init :: "'a irq_world_scheme \<Rightarrow> 'a irq_world_scheme" where
  "plat_irq_init w = w\<lparr>w_irq := (\<lambda>irq. irq_reset (w_irq w irq))\<rparr>"

text \<open>The controller priorities of \<^verbatim>\<open>include/qiran/plat/plat_gic.h\<close>.\<close>

fun k_priority :: "plat_irq_id \<Rightarrow> u8" where
  "k_priority PLAT_IRQ_TIMER = 0x08"
| "k_priority PLAT_IRQ_WATCHDOG = 0x10"
| "k_priority PLAT_IRQ_DMA = 0x20"
| "k_priority PLAT_IRQ_SPW = 0x28"
| "k_priority PLAT_IRQ_UART = 0x30"
| "k_priority PLAT_IRQ_PL_ERROR = 0x38"
| "k_priority PLAT_IRQ_COUNT = 0"

definition plat_irq_register ::
  "plat_irq_id \<Rightarrow> plat_irq_source option \<Rightarrow> 'a irq_world_scheme \<Rightarrow> qiran_status \<times> 'a irq_world_scheme" where
  "plat_irq_register irq src w =
    (case src of
       None \<Rightarrow> (QIRAN_ERR_PARAM, w)
     | Some src \<Rightarrow>
         if irq = PLAT_IRQ_COUNT \<or> is_ack src = None then (QIRAN_ERR_PARAM, w)
         else if iq_registered (w_irq w irq) then (QIRAN_ERR_STATE, w)
         else (let w = w\<lparr>w_irq := (w_irq w)(irq := (w_irq w irq)\<lparr>iq_src := src\<rparr>)\<rparr>;
                   (st, w) = plat_gic_connect (is_irq_id src) (Some (Irq_handler irq)) (k_priority irq) (is_trigger src) w
               in if st \<noteq> QIRAN_OK then (st, w)
                  else (QIRAN_OK, w\<lparr>w_irq := (w_irq w)(irq := (w_irq w irq)\<lparr>iq_registered := True\<rparr>)\<rparr>)))"

definition plat_irq_registered :: "plat_irq_id \<Rightarrow> 'a irq_world_scheme \<Rightarrow> bool" where
  "plat_irq_registered irq w \<longleftrightarrow> irq \<noteq> PLAT_IRQ_COUNT \<and> iq_registered (w_irq w irq)"

definition plat_irq_enable :: "plat_irq_id \<Rightarrow> 'a irq_world_scheme \<Rightarrow> 'a irq_world_scheme" where
  "plat_irq_enable irq w =
    (if irq \<noteq> PLAT_IRQ_COUNT \<and> iq_registered (w_irq w irq)
     then plat_gic_enable (is_irq_id (iq_src (w_irq w irq))) w else w)"

definition plat_irq_disable :: "plat_irq_id \<Rightarrow> 'a irq_world_scheme \<Rightarrow> 'a irq_world_scheme" where
  "plat_irq_disable irq w =
    (if irq \<noteq> PLAT_IRQ_COUNT \<and> iq_registered (w_irq w irq)
     then plat_gic_disable (is_irq_id (iq_src (w_irq w irq))) w else w)"

definition irq_pop :: "irq_slot \<Rightarrow> (plat_irq_event \<times> irq_slot) option" where
  "irq_pop s =
    (let tail = iq_tail s in
     if iq_head s = tail then None
     else Some (iq_q s ! unat (tail AND Q_MASK), s\<lparr>iq_tail := tail + 1\<rparr>))"

definition plat_irq_take ::
  "plat_irq_id \<Rightarrow> 'a irq_world_scheme \<Rightarrow> plat_irq_event option \<times> 'a irq_world_scheme" where
  "plat_irq_take irq w =
    (if irq = PLAT_IRQ_COUNT then (None, w)
     else (case irq_pop (w_irq w irq) of
             None \<Rightarrow> (None, w)
           | Some (e, s) \<Rightarrow> (Some e, w\<lparr>w_irq := (w_irq w)(irq := s)\<rparr>)))"

definition plat_irq_pending :: "plat_irq_id \<Rightarrow> 'a irq_world_scheme \<Rightarrow> u32" where
  "plat_irq_pending irq w =
    (if irq = PLAT_IRQ_COUNT then 0 else iq_head (w_irq w irq) - iq_tail (w_irq w irq))"

definition plat_irq_stats_get :: "plat_irq_id \<Rightarrow> 'a irq_world_scheme \<Rightarrow> plat_irq_stats option" where
  "plat_irq_stats_get irq w =
    (if irq = PLAT_IRQ_COUNT then None
     else (let s = w_irq w irq
           in Some \<lparr>iqs_taken = iq_taken s, iqs_dropped = iq_dropped s,
                    iqs_cycles_last = iq_cycles_last s, iqs_cycles_worst = iq_cycles_worst s\<rparr>))"

subsection \<open>Each event queue is a bounded queue\<close>

definition irq_invar :: "irq_slot \<Rightarrow> bool" where
  "irq_invar s \<longleftrightarrow> ring_ok 3 Q_MASK (iq_tail s) (iq_head s) (iq_q s)"

definition irq_queue :: "irq_slot \<Rightarrow> plat_irq_event list" where
  "irq_queue s = ring_items Q_MASK (iq_tail s) (iq_head s) (iq_q s)"

lemma irq_put_cases:
  assumes "irq_invar s"
  shows "length (irq_queue s) < 8 \<and> fst (irq_put e s) \<and>
      irq_queue (snd (irq_put e s)) = irq_queue s @ [e] \<and> irq_invar (snd (irq_put e s)) \<or>
    length (irq_queue s) = 8 \<and> irq_put e s = (False, s\<lparr>iq_dropped := iq_dropped s + 1\<rparr>)"
proof -
  have ok: "ring_ok 3 Q_MASK (iq_tail s) (iq_head s) (iq_q s)"
    using assms by (simp add: irq_invar_def)
  have "unat (iq_head s - iq_tail s) \<le> 8" using ok by (simp add: ring_ok_def)
  then show ?thesis
    using ring_full_iff [OF ok] ring_items_push [OF ok, of e]
    by (cases "Q_MASK < iq_head s - iq_tail s")
       (simp_all add: irq_put_def Let_def irq_queue_def irq_invar_def)
qed

interpretation iq: bounded_fifo irq_invar irq_queue "\<lambda>_. 8" irq_put irq_pop
proof
  fix s :: irq_slot and e assume "irq_invar s"
  then show "length (irq_queue s) \<le> 8"
    by (simp add: irq_invar_def ring_ok_def irq_queue_def)
  from \<open>irq_invar s\<close> show "irq_invar (snd (irq_put e s)) \<and> 8 = (8::nat)"
    using irq_put_cases [of s e] by (auto simp: irq_invar_def)
next
  fix s :: irq_slot and e assume "irq_invar s" "length (irq_queue s) < 8"
  then show "fst (irq_put e s) \<and> irq_queue (snd (irq_put e s)) = irq_queue s @ [e]"
    using irq_put_cases [of s e] by auto
next
  fix s :: irq_slot and e assume "irq_invar s" "length (irq_queue s) = 8"
  then show "\<not> fst (irq_put e s) \<and> irq_queue (snd (irq_put e s)) = irq_queue s"
    using irq_put_cases [of s e] by (auto simp: irq_queue_def)
next
  fix s :: irq_slot assume "irq_queue s = []"
  then show "irq_pop s = None"
    by (simp add: irq_queue_def irq_pop_def unat_eq_0 flip: length_0_conv)
next
  fix s :: irq_slot and e es assume inv: "irq_invar s" and q: "irq_queue s = e # es"
  have ne: "iq_head s \<noteq> iq_tail s" using q by (auto simp: irq_queue_def)
  show "\<exists>s1. irq_pop s = Some (e, s1) \<and> irq_queue s1 = es \<and> irq_invar s1 \<and> 8 = (8::nat)"
    using ring_items_pop [OF ne, of Q_MASK "iq_q s"] ring_ok_pop [OF _ ne] ne inv q
    by (auto simp: irq_pop_def Let_def irq_queue_def irq_invar_def)
qed

subsection \<open>What the consumer can tell from the sequence numbers\<close>

text \<open>A run of one source: an interrupt, with whatever its hook does, or the loop taking an event.\<close>

type_synonym 'w ack_hook = "irq_ack \<Rightarrow> handle option \<Rightarrow> u16 \<Rightarrow> 'w \<Rightarrow> u32 \<times> u16 \<times> 'w"

fun irq_run ::
  "plat_irq_id \<Rightarrow> 'a irq_world_scheme ack_hook option list \<Rightarrow> 'a irq_world_scheme \<Rightarrow>
   plat_irq_event list \<times> 'a irq_world_scheme" where
  "irq_run irq [] w = ([], w)"
| "irq_run irq (Some ack # ops) w = irq_run irq ops (irq_handler ack irq w)"
| "irq_run irq (None # ops) w =
     (let (e, w) = plat_irq_take irq w; (es, w) = irq_run irq ops w
      in (case e of None \<Rightarrow> es | Some e \<Rightarrow> e # es, w))"

definition irq_fired :: "'b option list \<Rightarrow> nat" where
  "irq_fired ops = length (filter (\<lambda>op. op \<noteq> None) ops)"

text \<open>A hook that works on its device and other components, not on the event queues.\<close>

definition ack_keeps_irq :: "'a irq_world_scheme ack_hook \<Rightarrow> bool" where
  "ack_keeps_irq ack \<longleftrightarrow> (\<forall>a c k w. w_irq (snd (snd (ack a c k w))) = w_irq w)"

definition irq_same :: "irq_slot \<Rightarrow> irq_slot \<Rightarrow> bool" where
  "irq_same s t \<longleftrightarrow> iq_q s = iq_q t \<and> iq_head s = iq_head t \<and> iq_tail s = iq_tail t \<and>
    iq_dropped s = iq_dropped t"

lemma irq_same_put:
  "irq_same s t \<Longrightarrow> fst (irq_put e s) = fst (irq_put e t) \<and> irq_same (snd (irq_put e s)) (snd (irq_put e t))"
  by (simp add: irq_same_def irq_put_def Let_def)

lemma irq_same_pop:
  "irq_same s t \<Longrightarrow> rel_option (\<lambda>(x, s) (y, t). x = y \<and> irq_same s t) (irq_pop s) (irq_pop t)"
  by (simp add: irq_same_def irq_pop_def Let_def)

lemma irq_handler_slot:
  assumes "ack_keeps_irq ack"
  shows "\<exists>e. ev_seq e = iq_seq (w_irq w irq) \<and>
    irq_same (snd (irq_put e (w_irq w irq))) (w_irq (irq_handler ack irq w) irq) \<and>
    iq_seq (w_irq (irq_handler ack irq w) irq) = iq_seq (w_irq w irq) + 1 \<and>
    iq_taken (w_irq (irq_handler ack irq w) irq) = iq_taken (w_irq w irq) + 1"
proof -
  define w0 where "w0 = snd (plat_cpu_cycle_count w)"
  obtain d k w1 where a: "ack (the (is_ack (iq_src (w_irq w0 irq)))) (is_ctx (iq_src (w_irq w0 irq))) 0 w0 =
      (d, k, w1)" by (metis prod_cases3)
  have "w_irq w1 = w_irq w0" using assms a by (metis ack_keeps_irq_def snd_conv)
  moreover have "w_irq w0 = w_irq w" by (simp add: w0_def plat_cpu_cycle_count_def)
  ultimately have w1: "w_irq w1 irq = w_irq w irq" by simp
  have cc: "plat_cpu_cycle_count w = (cpu_readings (w_cpu w) (cpu_reads (w_cpu w)), w0)"
    by (simp add: w0_def plat_cpu_cycle_count_def)
  have h: "irq_same (irq_publish (exec_raw_tick_count w1) d k (w_irq w irq)) (w_irq (irq_handler ack irq w) irq)"
      "iq_seq (w_irq (irq_handler ack irq w) irq) = iq_seq (irq_publish (exec_raw_tick_count w1) d k (w_irq w irq))"
      "iq_taken (w_irq (irq_handler ack irq w) irq) = iq_taken (irq_publish (exec_raw_tick_count w1) d k (w_irq w irq))"
    unfolding irq_handler_def Let_def cc prod.case a
    by (simp_all add: plat_cpu_cycle_count_def irq_same_def w1)
  show ?thesis
    using h
    by (intro exI [of _ "\<lparr>ev_tick = exec_raw_tick_count w1, ev_datum = d, ev_kind = k,
          ev_seq = iq_seq (w_irq w irq)\<rparr>"])
       (simp add: irq_publish_def Let_def irq_same_def irq_put_def split: if_splits)
qed

lemma irq_run_fifo:
  assumes "irq_run irq ops w = (out, w1)" "irq \<noteq> PLAT_IRQ_COUNT" "\<forall>ack. Some ack \<in> set ops \<longrightarrow> ack_keeps_irq ack"
    and "irq_same s (w_irq w irq)"
  shows "\<exists>fops acc s1. fifo_run irq_put irq_pop fops s = (acc, out, s1) \<and> irq_same s1 (w_irq w1 irq) \<and>
    map ev_seq (fifo_pushed fops) = map (\<lambda>i. iq_seq (w_irq w irq) + of_nat i) [0..<irq_fired ops] \<and>
    iq_dropped s1 + of_nat (length acc) = iq_dropped s + of_nat (irq_fired ops) \<and>
    iq_taken (w_irq w1 irq) = iq_taken (w_irq w irq) + of_nat (irq_fired ops)"
  using assms
proof (induction ops arbitrary: w out s)
  case Nil
  then show ?case by (intro exI [of _ "[]"]) (simp add: irq_fired_def)
next
  case (Cons op ops)
  show ?case
  proof (cases op)
    case (Some ack)
    let ?w = "irq_handler ack irq w"
    obtain e where e: "ev_seq e = iq_seq (w_irq w irq)"
        "irq_same (snd (irq_put e (w_irq w irq))) (w_irq ?w irq)"
        "iq_seq (w_irq ?w irq) = iq_seq (w_irq w irq) + 1" "iq_taken (w_irq ?w irq) = iq_taken (w_irq w irq) + 1"
      using irq_handler_slot [of ack w irq] Cons.prems(3) Some by auto
    have "irq_same (snd (irq_put e s)) (w_irq ?w irq)"
      using irq_same_put [OF Cons.prems(4), of e] e(2) by (simp add: irq_same_def)
    moreover have "irq_run irq ops ?w = (out, w1)" using Cons.prems(1) Some by simp
    ultimately obtain fops acc s1 where f: "fifo_run irq_put irq_pop fops (snd (irq_put e s)) = (acc, out, s1)"
        "irq_same s1 (w_irq w1 irq)"
        "map ev_seq (fifo_pushed fops) = map (\<lambda>i. iq_seq (w_irq ?w irq) + of_nat i) [0..<irq_fired ops]"
        "iq_dropped s1 + of_nat (length acc) = iq_dropped (snd (irq_put e s)) + of_nat (irq_fired ops)"
        "iq_taken (w_irq w1 irq) = iq_taken (w_irq ?w irq) + of_nat (irq_fired ops)"
      using Cons.IH [of ?w out "snd (irq_put e s)"] Cons.prems(2,3) by auto
    have fired: "irq_fired (op # ops) = Suc (irq_fired ops)" by (simp add: Some irq_fired_def)
    have seqs: "map ev_seq (fifo_pushed (Push e # fops)) =
        map (\<lambda>i. iq_seq (w_irq w irq) + of_nat i) [0..<irq_fired (op # ops)]"
      unfolding fired by (simp add: upt_conv_Cons map_Suc_upt [symmetric] f(3) e(1,3) add.assoc
          comp_def del: upt_Suc)
    obtain ok s0 where p: "irq_put e s = (ok, s0)" by fastforce
    have d: "iq_dropped s0 + of_bool ok = iq_dropped s + 1"
      using p by (auto simp: irq_put_def Let_def split: if_splits)
    have acc: "iq_dropped s1 + of_nat (length (if ok then e # acc else acc)) =
        iq_dropped s + of_nat (irq_fired (op # ops))"
      using f(4) d p unfolding fired by (cases ok) (simp_all add: algebra_simps)
    show ?thesis
      using f(1,2,5) p seqs acc e(4) fired
      by (intro exI [of _ "Push e # fops"] exI [of _ "if ok then e # acc else acc"] exI [of _ s1])
         (simp add: algebra_simps)
  next
    case None
    obtain e w2 es where t: "plat_irq_take irq w = (e, w2)" "irq_run irq ops w2 = (es, w1)"
        "out = (case e of None \<Rightarrow> es | Some e \<Rightarrow> e # es)"
      using Cons.prems(1) None by (auto split: prod.splits)
    have fired: "irq_fired (op # ops) = irq_fired ops" by (simp add: None irq_fired_def)
    have rel: "rel_option (\<lambda>(x, s) (y, t). x = y \<and> irq_same s t) (irq_pop s) (irq_pop (w_irq w irq))"
      using Cons.prems(4) by (rule irq_same_pop)
    obtain s2 where s2: "irq_same s2 (w_irq w2 irq)" "iq_dropped s2 = iq_dropped s"
        "iq_seq (w_irq w2 irq) = iq_seq (w_irq w irq)" "iq_taken (w_irq w2 irq) = iq_taken (w_irq w irq)"
        "irq_pop s = (case e of None \<Rightarrow> None | Some x \<Rightarrow> Some (x, s2))" "e = None \<longrightarrow> s2 = s"
    proof (cases "irq_pop (w_irq w irq)")
      case None
      then show thesis
        using that [of s] rel t(1) Cons.prems(2,4) by (auto simp: plat_irq_take_def)
    next
      case (Some p)
      then obtain x t0 where p: "irq_pop (w_irq w irq) = Some (x, t0)" by (cases p) auto
      then obtain s0 where "irq_pop s = Some (x, s0)" "irq_same s0 t0"
        using rel by (auto simp: option_rel_Some2)
      then show thesis
        using that [of s0] p t(1) Cons.prems(2)
        by (auto simp: plat_irq_take_def irq_pop_def Let_def split: if_splits)
    qed
    obtain fops acc s1 where f: "fifo_run irq_put irq_pop fops s2 = (acc, es, s1)"
        "irq_same s1 (w_irq w1 irq)"
        "map ev_seq (fifo_pushed fops) = map (\<lambda>i. iq_seq (w_irq w2 irq) + of_nat i) [0..<irq_fired ops]"
        "iq_dropped s1 + of_nat (length acc) = iq_dropped s2 + of_nat (irq_fired ops)"
        "iq_taken (w_irq w1 irq) = iq_taken (w_irq w2 irq) + of_nat (irq_fired ops)"
      using Cons.IH [of w2 es s2] Cons.prems(2,3) t(2) s2(1) by auto
    show ?thesis
      using f t(3) s2 fired
      by (intro exI [of _ "Pop # fops"] exI [of _ acc] exI [of _ s1]) (auto split: option.splits)
  qed
qed

text \<open>C7: The k-th interrupt of a source since start-up stamps sequence number k: what the loop
  takes and what is still queued carry a subsequence of 0, 1, 2, ... in order, the numbers
  missing from it are exactly the events counted as dropped, and at most eight are queued. So a
  gap in the sequence shows the consumer how many events it lost, and there is no other loss.\<close>

theorem plat_irq_sequence:
  assumes "irq \<noteq> PLAT_IRQ_COUNT" and "length (iq_q (w_irq w irq)) = 8"
    and "\<forall>ack. Some ack \<in> set ops \<longrightarrow> ack_keeps_irq ack" and "length ops < 2 ^ 32"
    and "irq_run irq ops (plat_irq_init w) = (out, w1)"
  defines "s \<equiv> w_irq w1 irq"
  shows "subseq (map ev_seq (out @ irq_queue s)) (map of_nat [0..<irq_fired ops]) \<and>
    length out + length (irq_queue s) + unat (iq_dropped s) = irq_fired ops \<and>
    unat (iq_taken s) = irq_fired ops \<and> length (irq_queue s) \<le> 8"
proof -
  let ?s0 = "w_irq (plat_irq_init w) irq" and ?n = "irq_fired ops"
  have inv: "irq_invar ?s0" and q0: "irq_queue ?s0 = []" "iq_seq ?s0 = 0" "iq_dropped ?s0 = 0"
      "iq_taken ?s0 = 0"
    using assms(2) by (simp_all add: plat_irq_init_def irq_reset_def irq_invar_def irq_queue_def
        ring_ok_def Q_MASK_def cfg_consts mask_eq_exp_minus_1)
  obtain fops acc s1 where f: "fifo_run irq_put irq_pop fops ?s0 = (acc, out, s1)" "irq_same s1 s"
      "map ev_seq (fifo_pushed fops) = map of_nat [0..<?n]"
      "iq_dropped s1 + of_nat (length acc) = (of_nat ?n :: u32)" "iq_taken s = of_nat ?n"
    using irq_run_fifo [OF assms(5,1,3), of ?s0] by (auto simp: irq_same_def q0 s_def)
  have acc: "acc = out @ irq_queue s1" "irq_invar s1"
    using iq.fifo_run_conserves [OF inv f(1)] q0 by auto
  have same: "irq_queue s1 = irq_queue s" "iq_dropped s1 = iq_dropped s"
    using f(2) by (simp_all add: irq_same_def irq_queue_def)
  have sub: "subseq (map ev_seq acc) (map of_nat [0..<?n])"
    using subseq_map [OF fifo_run_subseq [OF f(1)], of ev_seq] f(3) by simp
  have n: "?n < 2 ^ 32" using assms(4) le_less_trans [OF length_filter_le] by (auto simp: irq_fired_def)
  have le: "length acc \<le> ?n" using list_emb_length [OF sub] by simp
  have "iq_dropped s = of_nat ?n - of_nat (length acc)" using f(4) same by (simp add: algebra_simps)
  also have "\<dots> = of_nat (?n - length acc)" using le by (simp only: of_nat_diff)
  finally have d: "iq_dropped s = of_nat (?n - length acc)" .
  have "unat (iq_dropped s) = ?n - length acc" unfolding d using n by (intro unat_of_nat_eq_u32) simp
  then show ?thesis
    using sub acc same le f(5) n iq.items_le_cap [OF acc(2)] by (simp add: unat_of_nat_eq_u32)
qed

definition irq_slot0 :: irq_slot where
  "irq_slot0 = \<lparr>iq_src = \<lparr>is_irq_id = 0, is_trigger = 0, is_ack = None, is_ctx = None\<rparr>,
    iq_registered = False,
    iq_q = replicate 8 \<lparr>ev_tick = 0, ev_datum = 0, ev_kind = 0, ev_seq = 0\<rparr>,
    iq_head = 3, iq_tail = 1, iq_taken = 3, iq_dropped = 0, iq_cycles_last = 0,
    iq_cycles_worst = 0, iq_seq = 3\<rparr>"

definition gic_state0 :: gic_state where
  "gic_state0 = \<lparr>gc_ready = False, gc_cfg_found = True, gc_cfg_ok = True,
    gc_connect_ok = (\<lambda>_. True), gc_priority = Map.empty, gc_lines = Map.empty, gc_enabled = (\<lambda>_. False), gc_started = False\<rparr>"

definition irq_world0 :: irq_world where
  "irq_world0 = \<lparr>w_cpu = w_cpu exec_world0, w_exec = w_exec exec_world0,
     w_sched = w_sched sched_world0, w_time = w_time (time_world0 0), w_log = w_log log_world0,
     w_gic = gic_state0, w_irq = (\<lambda>_. irq_slot0)\<rparr>"

theorem plat_irq_sequence_witness:
  "unat (iq_taken (w_irq (snd (irq_run PLAT_IRQ_SPW
     [Some (\<lambda>_ _ _ w. (7, 1, w)), None, Some (\<lambda>_ _ _ w. (8, 1, w))]
     (plat_irq_init irq_world0))) PLAT_IRQ_SPW)) = 2"
proof -
  let ?ops = "[Some (\<lambda>_ _ _ w. (7, 1, w)), None, Some (\<lambda>_ _ _ w. (8, 1, w))]"
  have len: "length (iq_q (w_irq irq_world0 PLAT_IRQ_SPW)) = 8"
    by (simp add: irq_world0_def irq_slot0_def)
  have acks: "\<forall>ack. Some ack \<in> set ?ops \<longrightarrow> ack_keeps_irq ack" by (simp add: ack_keeps_irq_def)
  obtain out w1 where r: "irq_run PLAT_IRQ_SPW ?ops (plat_irq_init irq_world0) = (out, w1)"
    by fastforce
  have n: "length ?ops < 2 ^ 32" "PLAT_IRQ_SPW \<noteq> PLAT_IRQ_COUNT" "irq_fired ?ops = 2"
    by (simp_all add: irq_fired_def)
  show ?thesis using plat_irq_sequence [OF n(2) len acks n(1) r] unfolding n(3) r by (simp only: snd_conv)
qed

end
