(* ===== verification/Svc_Ring.thy ===== *)
theory Svc_Ring
  imports Bounded_Fifo
begin

section \<open>The byte ring: \<^verbatim>\<open>src/svc/svc_ring.c\<close>\<close>

text \<open>
  The single-producer single-consumer ring. The storage is the list the ring was given; the
  memory barriers order the two sides on the hardware and do nothing to a sequential state.
  The interface of \<^verbatim>\<open>Bounded_Fifo\<close> is interpreted on it.
\<close>

record svc_ring =
  rg_buf :: "u8 list"
  rg_mask :: u32
  rg_head :: u32
  rg_tail :: u32
  rg_dropped :: u32

text \<open>A null ring or null storage is \<^term>\<open>None\<close>.\<close>

definition svc_ring_init ::
  "u8 list option \<Rightarrow> u32 \<Rightarrow> svc_ring option \<Rightarrow> qiran_status \<times> svc_ring option" where
  "svc_ring_init storage capacity r =
    (if r = None \<or> storage = None \<or> capacity = 0 then (QIRAN_ERR_PARAM, r)
     else if capacity AND (capacity - 1) \<noteq> 0 then (QIRAN_ERR_PARAM, r)
     else (QIRAN_OK, Some \<lparr>rg_buf = the storage, rg_mask = capacity - 1, rg_head = 0,
                           rg_tail = 0, rg_dropped = 0\<rparr>))"

definition svc_ring_reset :: "svc_ring option \<Rightarrow> svc_ring option" where
  "svc_ring_reset r = map_option (\<lambda>r. r\<lparr>rg_head := 0, rg_tail := 0, rg_dropped := 0\<rparr>) r"

definition svc_ring_push :: "u8 \<Rightarrow> svc_ring \<Rightarrow> bool \<times> svc_ring" where
  "svc_ring_push byte r =
    (let head = rg_head r in
     if rg_mask r < head - rg_tail r then (False, r\<lparr>rg_dropped := rg_dropped r + 1\<rparr>)
     else (let r = r\<lparr>rg_buf := (rg_buf r)[unat (head AND rg_mask r) := byte]\<rparr>
           in (True, r\<lparr>rg_head := head + 1\<rparr>)))"

definition svc_ring_pop :: "svc_ring \<Rightarrow> (u8 \<times> svc_ring) option" where
  "svc_ring_pop r =
    (let tail = rg_tail r in
     if rg_head r = tail then None
     else Some (rg_buf r ! unat (tail AND rg_mask r), r\<lparr>rg_tail := tail + 1\<rparr>))"

text \<open>\<^verbatim>\<open>svc_ring_read\<close>: the bytes written to the caller's buffer; their number is the result.\<close>

definition svc_ring_read :: "u32 \<Rightarrow> svc_ring \<Rightarrow> u8 list \<times> svc_ring" where
  "svc_ring_read n r = drain_with svc_ring_pop (unat n) r"

definition svc_ring_count :: "svc_ring \<Rightarrow> u32" where
  "svc_ring_count r = rg_head r - rg_tail r"

definition svc_ring_free :: "svc_ring \<Rightarrow> u32" where
  "svc_ring_free r = (rg_mask r + 1) - (rg_head r - rg_tail r)"

subsection \<open>The ring is a bounded queue\<close>

definition ring_invar :: "svc_ring \<Rightarrow> bool" where
  "ring_invar r \<longleftrightarrow> (\<exists>k. ring_ok k (rg_mask r) (rg_tail r) (rg_head r) (rg_buf r))"

definition ring_queue :: "svc_ring \<Rightarrow> u8 list" where
  "ring_queue r = ring_items (rg_mask r) (rg_tail r) (rg_head r) (rg_buf r)"

definition ring_cap :: "svc_ring \<Rightarrow> nat" where
  "ring_cap r = length (rg_buf r)"

lemma ring_queue_length: "length (ring_queue r) = unat (svc_ring_count r)"
  by (simp add: ring_queue_def svc_ring_count_def)

lemma ring_push_room:
  assumes "ring_invar r" "length (ring_queue r) < ring_cap r"
  shows "svc_ring_push x r = (True, snd (svc_ring_push x r)) \<and>
    ring_queue (snd (svc_ring_push x r)) = ring_queue r @ [x] \<and>
    ring_invar (snd (svc_ring_push x r)) \<and> ring_cap (snd (svc_ring_push x r)) = ring_cap r"
proof -
  obtain k where ok: "ring_ok k (rg_mask r) (rg_tail r) (rg_head r) (rg_buf r)"
    using assms(1) by (auto simp: ring_invar_def)
  then have "length (rg_buf r) = 2 ^ k" by (simp add: ring_ok_def)
  then have room: "\<not> rg_mask r < rg_head r - rg_tail r"
    using ring_full_iff [OF ok] assms(2) by (simp add: ring_cap_def ring_queue_def)
  show ?thesis
    using ring_items_push [OF ok room, of x] room
    by (auto simp: svc_ring_push_def Let_def ring_queue_def ring_invar_def ring_cap_def)
qed

lemma ring_push_full:
  assumes "ring_invar r" "length (ring_queue r) = ring_cap r"
  shows "svc_ring_push x r = (False, r\<lparr>rg_dropped := rg_dropped r + 1\<rparr>)"
proof -
  obtain k where ok: "ring_ok k (rg_mask r) (rg_tail r) (rg_head r) (rg_buf r)"
    using assms(1) by (auto simp: ring_invar_def)
  then have "length (rg_buf r) = 2 ^ k" by (simp add: ring_ok_def)
  then show ?thesis
    using ring_full_iff [OF ok] assms(2)
    by (simp add: ring_cap_def ring_queue_def svc_ring_push_def)
qed

lemma ring_dropped_same [simp]:
  "ring_invar (r\<lparr>rg_dropped := d\<rparr>) = ring_invar r" "ring_queue (r\<lparr>rg_dropped := d\<rparr>) = ring_queue r"
  "ring_cap (r\<lparr>rg_dropped := d\<rparr>) = ring_cap r"
  by (simp_all add: ring_invar_def ring_queue_def ring_cap_def)

lemma ring_pop_cons:
  assumes "ring_invar r" "ring_queue r = x # xs"
  shows "\<exists>r1. svc_ring_pop r = Some (x, r1) \<and> ring_queue r1 = xs \<and> ring_invar r1 \<and> ring_cap r1 = ring_cap r"
proof -
  obtain k where ok: "ring_ok k (rg_mask r) (rg_tail r) (rg_head r) (rg_buf r)"
    using assms(1) by (auto simp: ring_invar_def)
  have ne: "rg_head r \<noteq> rg_tail r" using assms(2) by (auto simp: ring_queue_def)
  show ?thesis
    using ring_items_pop [OF ne, of "rg_mask r" "rg_buf r"] ring_ok_pop [OF ok ne] ne assms(2)
    by (auto simp: svc_ring_pop_def Let_def ring_queue_def ring_invar_def ring_cap_def)
qed

interpretation ring: bounded_fifo ring_invar ring_queue ring_cap svc_ring_push svc_ring_pop
proof
  fix q :: svc_ring assume "ring_invar q"
  then show "length (ring_queue q) \<le> ring_cap q"
    by (auto simp: ring_invar_def ring_queue_def ring_cap_def ring_ok_def)
next
  fix q :: svc_ring and x assume "ring_invar q" "length (ring_queue q) < ring_cap q"
  then show "fst (svc_ring_push x q) \<and> ring_queue (snd (svc_ring_push x q)) = ring_queue q @ [x]"
    using ring_push_room [of q x] by (metis fst_conv)
next
  fix q :: svc_ring and x assume "ring_invar q" "length (ring_queue q) = ring_cap q"
  then show "\<not> fst (svc_ring_push x q) \<and> ring_queue (snd (svc_ring_push x q)) = ring_queue q"
    by (simp add: ring_push_full)
next
  fix q :: svc_ring and x assume inv: "ring_invar q"
  then have "length (ring_queue q) \<le> ring_cap q"
    by (auto simp: ring_invar_def ring_queue_def ring_cap_def ring_ok_def)
  then show "ring_invar (snd (svc_ring_push x q)) \<and> ring_cap (snd (svc_ring_push x q)) = ring_cap q"
    using inv ring_push_room [of q x] ring_push_full [of q x] by (auto simp: le_less)
next
  fix q :: svc_ring assume "ring_queue q = []"
  then show "svc_ring_pop q = None"
    by (simp add: ring_queue_def svc_ring_pop_def unat_eq_0 flip: length_0_conv)
next
  fix q :: svc_ring and x xs assume "ring_invar q" "ring_queue q = x # xs"
  then show "\<exists>q1. svc_ring_pop q = Some (x, q1) \<and> ring_queue q1 = xs \<and> ring_invar q1 \<and>
      ring_cap q1 = ring_cap q"
    by (rule ring_pop_cons)
qed

subsection \<open>Properties\<close>

lemma nat_and_pred_pow2: "0 < n \<Longrightarrow> n AND (n - 1) = 0 \<Longrightarrow> \<exists>k. n = 2 ^ k" for n :: nat
proof (induction n rule: less_induct)
  case (less n)
  have rec: "n AND (n - 1) =
      of_bool (odd n \<and> odd (n - 1)) + 2 * ((n div 2) AND ((n - 1) div 2))"
    by (rule and_rec)
  show ?case
  proof (cases "even n")
    case True
    then obtain m where m: "n = 2 * m" by (elim evenE)
    have "(2 * m - 1) div 2 = m - 1" by arith
    then have "m AND (m - 1) = 0" using rec less.prems(2) by (simp add: m)
    then obtain k where "m = 2 ^ k" using less.IH [of m] less.prems(1) m by auto
    then show ?thesis by (intro exI [of _ "Suc k"]) (simp add: m)
  next
    case False
    then have "(n - 1) div 2 = n div 2" by (metis odd_two_times_div_two_succ add_diff_cancel_right' nonzero_mult_div_cancel_left zero_neq_numeral)
    then have "n div 2 = 0" using rec less.prems(2) by simp
    then show ?thesis using False by (intro exI [of _ 0]) (simp, arith)
  qed
qed

lemma and_pred_pow2:
  assumes "(c :: u32) \<noteq> 0" "c AND (c - 1) = 0"
  obtains k where "k < 32" "unat c = 2 ^ k"
proof -
  have "unat c AND (unat c - 1) = 0"
    using assms(2) unsigned_and_eq [of c "c - 1", where ?'a = nat] assms(1)
    by (simp add: unat_minus_one_less)
  then obtain k where k: "unat c = 2 ^ k" using nat_and_pred_pow2 [of "unat c"] assms(1)
    by (auto simp: unat_gt_0)
  have "(2::nat) ^ k < 2 ^ 32" using unat_u32_less [of c] k by simp
  then have "k < 32" using power_less_imp_less_exp [of "2::nat" k 32] by simp
  then show thesis using k that by blast
qed

text \<open>\<^verbatim>\<open>svc_ring_init\<close> accepts exactly the capacities that are powers of two, and the ring
  it makes over a storage of that size is an empty, well-formed queue of that capacity.\<close>

theorem svc_ring_init_correct:
  assumes "length st = unat c"
  shows "(fst (svc_ring_init (Some st) c (Some r0)) = QIRAN_OK \<longleftrightarrow> (\<exists>k. unat c = 2 ^ k)) \<and>
    (\<forall>r. svc_ring_init (Some st) c (Some r0) = (QIRAN_OK, Some r) \<longrightarrow>
      ring_invar r \<and> ring_queue r = [] \<and> ring_cap r = unat c \<and> svc_ring_free r = c)"
proof
  have "c AND (c - 1) = 0" if k: "unat c = 2 ^ k" for k
  proof -
    have "(2::nat) ^ k < 2 ^ 32" using unat_u32_less [of c] k by simp
    then have k32: "k < 32" using power_less_imp_less_exp [of "2::nat" k 32] by simp
    have "c = of_nat (2 ^ k)" using k by (rule unat_eq_of_nat)
    then have m: "c - 1 = mask k" by (simp add: mask_eq_exp_minus_1)
    have "unat (c AND mask k) = 0" by (simp add: unat_and_mask k)
    then show ?thesis unfolding m by (simp add: unat_eq_0)
  qed
  moreover have "c \<noteq> 0" if "unat c = 2 ^ k" for k using that by auto
  moreover have "\<exists>k. unat c = 2 ^ k" if "c \<noteq> 0" "c AND (c - 1) = 0" using and_pred_pow2 [OF that] by auto
  ultimately show "fst (svc_ring_init (Some st) c (Some r0)) = QIRAN_OK \<longleftrightarrow> (\<exists>k. unat c = 2 ^ k)"
    by (auto simp: svc_ring_init_def)
  show "\<forall>r. svc_ring_init (Some st) c (Some r0) = (QIRAN_OK, Some r) \<longrightarrow>
      ring_invar r \<and> ring_queue r = [] \<and> ring_cap r = unat c \<and> svc_ring_free r = c"
  proof (intro allI impI)
    fix r assume r: "svc_ring_init (Some st) c (Some r0) = (QIRAN_OK, Some r)"
    then have c: "c \<noteq> 0" "c AND (c - 1) = 0" by (auto simp: svc_ring_init_def split: if_splits)
    then obtain k where k: "k < 32" "unat c = 2 ^ k" by (rule and_pred_pow2)
    have "c = of_nat (2 ^ k)" using k(2) by (rule unat_eq_of_nat)
    then have "c - 1 = mask k" by (simp add: mask_eq_exp_minus_1)
    then have "ring_ok k (c - 1) 0 0 st" using k assms by (simp add: ring_ok_def)
    then show "ring_invar r \<and> ring_queue r = [] \<and> ring_cap r = unat c \<and> svc_ring_free r = c"
      using r c assms
      by (auto simp: svc_ring_init_def ring_invar_def ring_queue_def ring_cap_def svc_ring_free_def)
  qed
qed

definition ring4 :: svc_ring where
  "ring4 = \<lparr>rg_buf = [0, 0, 0, 0], rg_mask = 3, rg_head = 0, rg_tail = 0, rg_dropped = 0\<rparr>"

theorem svc_ring_init_correct_witness:
  "svc_ring_init (Some [0, 0, 0, 0]) 4 (Some ring4) = (QIRAN_OK, Some ring4) \<and>
   ring_invar ring4 \<and> svc_ring_free ring4 = 4"
proof -
  have e: "svc_ring_init (Some [0, 0, 0, 0]) 4 (Some ring4) = (QIRAN_OK, Some ring4)"
    by (simp add: svc_ring_init_def ring4_def)
  then show ?thesis using svc_ring_init_correct [of "[0, 0, 0, 0]" 4 ring4] by simp
qed

lemma ring4_invar: "ring_invar ring4"
  by (auto simp: ring_invar_def ring4_def ring_ok_def intro!: exI [of _ 2])
     (simp add: mask_eq_exp_minus_1)

text \<open>Over any interleaving of the interrupt pushing and the loop popping, the bytes taken
  out followed by those still in the ring are the bytes that were in it followed by those
  accepted, in order; each refused byte is counted as dropped, and none is accepted beyond the
  capacity.\<close>

theorem svc_ring_conserves:
  assumes "ring_invar r" "fifo_run svc_ring_push svc_ring_pop ops r = (acc, out, r1)"
  shows "ring_queue r @ acc = out @ ring_queue r1 \<and> ring_invar r1 \<and>
    length (ring_queue r1) \<le> ring_cap r1 \<and>
    rg_dropped r1 + of_nat (length acc) =
      rg_dropped r + of_nat (length (filter (\<lambda>op. op \<noteq> Pop) ops))"
proof -
  have "rg_dropped r1 + of_nat (length acc) =
      rg_dropped r + of_nat (length (filter (\<lambda>op. op \<noteq> Pop) ops))"
    using assms(2)
  proof (induction ops arbitrary: r acc out)
    case (Cons op ops)
    show ?case
    proof (cases op)
      case (Push x)
      obtain ok q1 acc1 out1 where s: "svc_ring_push x r = (ok, q1)"
          "fifo_run svc_ring_push svc_ring_pop ops q1 = (acc1, out1, r1)" "acc = (if ok then x # acc1 else acc1)"
        using Cons.prems Push by (auto split: prod.splits)
      show ?thesis
        using Cons.IH [OF s(2)] s(1,3) Push
        by (auto simp: svc_ring_push_def Let_def algebra_simps split: if_splits)
    next
      case Pop
      then show ?thesis
        using Cons.IH Cons.prems
        by (auto simp: svc_ring_pop_def Let_def split: option.splits prod.splits if_splits)
    qed
  qed simp
  moreover have "ring_queue r @ acc = out @ ring_queue r1 \<and> ring_invar r1"
    using assms by (rule ring.fifo_run_conserves)
  ultimately show ?thesis using ring.items_le_cap by blast
qed

theorem svc_ring_conserves_witness:
  "\<exists>r1. fifo_run svc_ring_push svc_ring_pop [Push 1, Push 2, Push 3, Push 4, Push 5, Pop, Push 6] ring4 =
     ([1, 2, 3, 4, 6], [1], r1) \<and> ring_queue r1 = [2, 3, 4, 6] \<and> rg_dropped r1 = 1"
proof -
  obtain r1 where r1: "fifo_run svc_ring_push svc_ring_pop
      [Push 1, Push 2, Push 3, Push 4, Push 5, Pop, Push 6] ring4 = ([1, 2, 3, 4, 6], [1], r1)"
    by (simp add: ring4_def svc_ring_push_def svc_ring_pop_def Let_def)
  have "ring_queue ring4 = []" "rg_dropped ring4 = 0" by (simp_all add: ring4_def ring_queue_def)
  then show ?thesis
    using svc_ring_conserves [OF ring4_invar r1] r1 by (auto simp: algebra_simps)
qed

text \<open>\<^verbatim>\<open>svc_ring_read\<close> takes the oldest bytes, at most as many as asked for.\<close>

lemma svc_ring_read_prefix:
  assumes "ring_invar r"
  shows "fst (svc_ring_read n r) = take (unat n) (ring_queue r)"
    and "ring_queue (snd (svc_ring_read n r)) = drop (unat n) (ring_queue r)"
    and "ring_invar (snd (svc_ring_read n r))"
  using ring.drain_prefix [OF assms, of "unat n"] by (auto simp: svc_ring_read_def)

end
