(* ===== verification/Plat_Isr_Uart.thy ===== *)
theory Plat_Isr_Uart
  imports Plat_Irq Svc_Ring
begin

section \<open>The serial receiver: \<^verbatim>\<open>src/plat/plat_isr_uart.c\<close>\<close>

text \<open>
  The receive ring between the serial interrupt and the loop. The device's drain function moves
  the received bytes into the ring and classifies the interrupt: it is registered from outside,
  so the functions that call it take its interpretation.
\<close>

record uart_device =
  ud_irq_id :: u32
  ud_trigger :: u8
  ud_drain :: "handle option"
  ud_ctx :: "handle option"

record uart_state =
  ua_rx :: svc_ring
  ua_drain :: "handle option"
  ua_ctx :: "handle option"

record uart_world = irq_world +
  w_uart :: uart_state

type_synonym uart_drain = "handle \<Rightarrow> handle option \<Rightarrow> svc_ring \<Rightarrow> u16 \<Rightarrow> u32 \<times> u16 \<times> svc_ring"

definition uart_ack ::
  "uart_drain \<Rightarrow> handle option \<Rightarrow> u16 \<Rightarrow> 'a uart_world_scheme \<Rightarrow> u32 \<times> u16 \<times> 'a uart_world_scheme" where
  "uart_ack drain ctx kind w =
    (let s = w_uart w; (datum, kind, rx) = drain (the (ua_drain s)) (ua_ctx s) (ua_rx s) kind
     in (datum, kind, w\<lparr>w_uart := s\<lparr>ua_rx := rx\<rparr>\<rparr>))"

definition plat_isr_uart_init ::
  "uart_device option \<Rightarrow> 'a uart_world_scheme \<Rightarrow> qiran_status \<times> 'a uart_world_scheme" where
  "plat_isr_uart_init dev w =
    (let storage = rg_buf (ua_rx (w_uart w));
         (st, rx) = svc_ring_init (Some storage) QIRAN_UART_RX_RING_BYTES (Some (ua_rx (w_uart w)));
         w = w\<lparr>w_uart := (w_uart w)\<lparr>ua_rx := the rx\<rparr>\<rparr>
     in if st \<noteq> QIRAN_OK then (st, w)
        else (case dev of
            None \<Rightarrow> (QIRAN_OK, w\<lparr>w_uart := (w_uart w)\<lparr>ua_drain := None, ua_ctx := None\<rparr>\<rparr>)
          | Some dev \<Rightarrow>
              if ud_drain dev = None then (QIRAN_ERR_PARAM, w)
              else (let w = w\<lparr>w_uart := (w_uart w)\<lparr>ua_drain := ud_drain dev, ua_ctx := ud_ctx dev\<rparr>\<rparr>;
                        src = \<lparr>is_irq_id = ud_irq_id dev, is_trigger = ud_trigger dev,
                               is_ack = Some Uart_ack, is_ctx = None\<rparr>;
                        (st, w) = plat_irq_register PLAT_IRQ_UART (Some src) w
                    in if st \<noteq> QIRAN_OK then (st, w) else (QIRAN_OK, plat_irq_enable PLAT_IRQ_UART w))))"

text \<open>\<open>out\<close> says whether the caller gave a buffer; the bytes read are the result.\<close>

definition plat_isr_uart_read ::
  "bool \<Rightarrow> u32 \<Rightarrow> 'a uart_world_scheme \<Rightarrow> u8 list \<times> 'a uart_world_scheme" where
  "plat_isr_uart_read out n w =
    (if \<not> out \<or> n = 0 then ([], w)
     else (let (bs, rx) = svc_ring_read n (ua_rx (w_uart w))
           in (bs, w\<lparr>w_uart := (w_uart w)\<lparr>ua_rx := rx\<rparr>\<rparr>)))"

definition plat_isr_uart_available :: "'a uart_world_scheme \<Rightarrow> u32" where
  "plat_isr_uart_available w = svc_ring_count (ua_rx (w_uart w))"

definition plat_isr_uart_overflow :: "'a uart_world_scheme \<Rightarrow> u32" where
  "plat_isr_uart_overflow w = rg_dropped (ua_rx (w_uart w))"

definition plat_isr_uart_take :: "'a uart_world_scheme \<Rightarrow> plat_irq_event option \<times> 'a uart_world_scheme" where
  "plat_isr_uart_take w = plat_irq_take PLAT_IRQ_UART w"

lemma uart_ack_keeps_irq:
  "w_irq (snd (snd (uart_ack drain ctx kind w))) = w_irq w"
  by (simp add: uart_ack_def Let_def split: prod.splits)

lemma uart_init_ring:
  assumes "length (rg_buf (ua_rx (w_uart w))) = 256" "plat_isr_uart_init None w = (st, w1)"
  shows "st = QIRAN_OK" "ring_invar (ua_rx (w_uart w1))" "ring_queue (ua_rx (w_uart w1)) = []"
    "ring_cap (ua_rx (w_uart w1)) = 256"
proof -
  have "ring_ok 8 255 0 0 (rg_buf (ua_rx (w_uart w)))"
    using assms(1) by (simp add: ring_ok_def mask_eq_exp_minus_1)
  then show "st = QIRAN_OK" "ring_invar (ua_rx (w_uart w1))" "ring_queue (ua_rx (w_uart w1)) = []"
    "ring_cap (ua_rx (w_uart w1)) = 256"
    using assms
    by (auto simp: plat_isr_uart_init_def Let_def svc_ring_init_def cfg_consts ring_invar_def
        ring_queue_def ring_cap_def)
qed

end
