(* ===== verification/Svc_Fdir.thy ===== *)
theory Svc_Fdir
  imports Plat_Isr_Uart
begin

section \<open>Fault handling: \<^verbatim>\<open>src/svc/svc_fdir.c\<close>\<close>

text \<open>
  Any context reports a fault by counting it; the loop classifies what is new, once per class
  and pass, and escalates what reached its limit to the observer. The observer's link is
  registered from outside this component, so the operations that can escalate take the
  environment \<open>E\<close> with the meaning of the two registered functions. Arrays over fault classes,
  severities and interrupt sources are functions.
\<close>

record svc_fdir_policy =
  fp_severity :: qiran_severity
  fp_escalation :: qiran_escalation
  fp_limit :: u16

definition fdir_policy :: "qiran_severity \<Rightarrow> qiran_escalation \<Rightarrow> u16 \<Rightarrow> svc_fdir_policy" where
  "fdir_policy s e l = \<lparr>fp_severity = s, fp_escalation = e, fp_limit = l\<rparr>"

text \<open>The table has no entry for \<^term>\<open>QIRAN_FAULT_COUNT\<close>; the last equation is never used by
  an operation given a fault in range.\<close>

fun k_policy :: "qiran_fault_id \<Rightarrow> svc_fdir_policy" where
  "k_policy QIRAN_FAULT_NONE = fdir_policy QIRAN_SEV_MINOR QIRAN_ESCALATE_LOG_ONLY 0"
| "k_policy QIRAN_FAULT_BOOT_IMAGE = fdir_policy QIRAN_SEV_CRITICAL QIRAN_ESCALATE_POWER_RESET QIRAN_RESET_REQUEST_LIMIT"
| "k_policy QIRAN_FAULT_SAFE_OUTPUTS = fdir_policy QIRAN_SEV_SEVERE QIRAN_ESCALATE_REPORT 0"
| "k_policy QIRAN_FAULT_POST = fdir_policy QIRAN_SEV_CRITICAL QIRAN_ESCALATE_POWER_RESET QIRAN_RESET_REQUEST_LIMIT"
| "k_policy QIRAN_FAULT_DEVINIT = fdir_policy QIRAN_SEV_CRITICAL QIRAN_ESCALATE_POWER_RESET QIRAN_RESET_REQUEST_LIMIT"
| "k_policy QIRAN_FAULT_LINK_ESTABLISH = fdir_policy QIRAN_SEV_CRITICAL QIRAN_ESCALATE_POWER_RESET QIRAN_RESET_REQUEST_LIMIT"
| "k_policy QIRAN_FAULT_CYCLE_OVERRUN = fdir_policy QIRAN_SEV_CRITICAL QIRAN_ESCALATE_REPORT 5"
| "k_policy QIRAN_FAULT_IRQ_OVERFLOW = fdir_policy QIRAN_SEV_MEDIUM QIRAN_ESCALATE_LOG_ONLY 0"
| "k_policy QIRAN_FAULT_UART_RX_OVERFLOW = fdir_policy QIRAN_SEV_MINOR QIRAN_ESCALATE_LOG_ONLY 0"
| "k_policy QIRAN_FAULT_PL_ERROR = fdir_policy QIRAN_SEV_CRITICAL QIRAN_ESCALATE_REPORT 5"
| "k_policy QIRAN_FAULT_WATCHDOG_EXPIRY = fdir_policy QIRAN_SEV_SEVERE QIRAN_ESCALATE_REPORT 0"
| "k_policy QIRAN_FAULT_MEMORY = fdir_policy QIRAN_SEV_CRITICAL QIRAN_ESCALATE_POWER_RESET 3"
| "k_policy QIRAN_FAULT_CONFIG = fdir_policy QIRAN_SEV_CRITICAL QIRAN_ESCALATE_REPORT 3"
| "k_policy QIRAN_FAULT_STAGE_TIMEOUT = fdir_policy QIRAN_SEV_CRITICAL QIRAN_ESCALATE_REPORT 3"
| "k_policy QIRAN_FAULT_PRECOND = fdir_policy QIRAN_SEV_CRITICAL QIRAN_ESCALATE_REPORT QIRAN_STAGE_RETRY_LIMIT"
| "k_policy QIRAN_FAULT_CONTROL_LOOP = fdir_policy QIRAN_SEV_CRITICAL QIRAN_ESCALATE_REPORT 5"
| "k_policy QIRAN_FAULT_OVERCURRENT = fdir_policy QIRAN_SEV_SEVERE QIRAN_ESCALATE_POWER_RESET 0"
| "k_policy QIRAN_FAULT_BROWNOUT = fdir_policy QIRAN_SEV_SEVERE QIRAN_ESCALATE_POWER_RESET 0"
| "k_policy QIRAN_FAULT_TEMPERATURE = fdir_policy QIRAN_SEV_SEVERE QIRAN_ESCALATE_POWER_RESET 0"
| "k_policy QIRAN_FAULT_LASER_TEC = fdir_policy QIRAN_SEV_CRITICAL QIRAN_ESCALATE_REPORT QIRAN_STAGE_RETRY_LIMIT"
| "k_policy QIRAN_FAULT_LASER_POWER = fdir_policy QIRAN_SEV_CRITICAL QIRAN_ESCALATE_REPORT QIRAN_STAGE_RETRY_LIMIT"
| "k_policy QIRAN_FAULT_MRR_LOCK = fdir_policy QIRAN_SEV_CRITICAL QIRAN_ESCALATE_REPORT QIRAN_STAGE_RETRY_LIMIT"
| "k_policy QIRAN_FAULT_CROW_TUNE = fdir_policy QIRAN_SEV_CRITICAL QIRAN_ESCALATE_REPORT QIRAN_STAGE_RETRY_LIMIT"
| "k_policy QIRAN_FAULT_UMZI_TUNE = fdir_policy QIRAN_SEV_CRITICAL QIRAN_ESCALATE_REPORT QIRAN_STAGE_RETRY_LIMIT"
| "k_policy QIRAN_FAULT_DLI_LOCK = fdir_policy QIRAN_SEV_CRITICAL QIRAN_ESCALATE_REPORT QIRAN_STAGE_RETRY_LIMIT"
| "k_policy QIRAN_FAULT_MRR_RELOCK = fdir_policy QIRAN_SEV_CRITICAL QIRAN_ESCALATE_REPORT QIRAN_STAGE_RETRY_LIMIT"
| "k_policy QIRAN_FAULT_SPAD_OPTICAL_POWER = fdir_policy QIRAN_SEV_SEVERE QIRAN_ESCALATE_REPORT 0"
| "k_policy QIRAN_FAULT_SPAD_DARK_COUNT = fdir_policy QIRAN_SEV_MEDIUM QIRAN_ESCALATE_LOG_ONLY 0"
| "k_policy QIRAN_FAULT_SPW_LINK = fdir_policy QIRAN_SEV_CRITICAL QIRAN_ESCALATE_REPORT 3"
| "k_policy QIRAN_FAULT_PACKET_INTEGRITY = fdir_policy QIRAN_SEV_MEDIUM QIRAN_ESCALATE_LOG_ONLY 0"
| "k_policy QIRAN_FAULT_PACKET_SEQUENCE = fdir_policy QIRAN_SEV_MEDIUM QIRAN_ESCALATE_LOG_ONLY 0"
| "k_policy QIRAN_FAULT_OUTPUT_QUEUE = fdir_policy QIRAN_SEV_CRITICAL QIRAN_ESCALATE_REPORT 5"
| "k_policy QIRAN_FAULT_HK_SAMPLE = fdir_policy QIRAN_SEV_MEDIUM QIRAN_ESCALATE_LOG_ONLY 0"
| "k_policy QIRAN_FAULT_HK_TRANSMIT = fdir_policy QIRAN_SEV_CRITICAL QIRAN_ESCALATE_REPORT 5"
| "k_policy QIRAN_FAULT_COMMAND_REJECTED = fdir_policy QIRAN_SEV_MINOR QIRAN_ESCALATE_LOG_ONLY 0"
| "k_policy QIRAN_FAULT_COMMAND_FAILED = fdir_policy QIRAN_SEV_CRITICAL QIRAN_ESCALATE_REPORT 3"
| "k_policy QIRAN_FAULT_DDR_OVERRUN = fdir_policy QIRAN_SEV_CRITICAL QIRAN_ESCALATE_REPORT 3"
| "k_policy QIRAN_FAULT_NAND_WRITE = fdir_policy QIRAN_SEV_CRITICAL QIRAN_ESCALATE_REPORT 3"
| "k_policy QIRAN_FAULT_BUFFER_OWNERSHIP = fdir_policy QIRAN_SEV_CRITICAL QIRAN_ESCALATE_REPORT 3"
| "k_policy QIRAN_FAULT_DATA_PRODUCT = fdir_policy QIRAN_SEV_MEDIUM QIRAN_ESCALATE_LOG_ONLY 0"
| "k_policy QIRAN_FAULT_COUNT = fdir_policy QIRAN_SEV_COUNT QIRAN_ESCALATE_LOG_ONLY 0"

record svc_fdir_record =
  fr_occurrences :: u32
  fr_escalations :: u32
  fr_last_tick :: u32
  fr_last_detail :: u32
  fr_flag :: bool
  fr_elevated :: bool

record svc_fdir_uplink =
  fu_report_flag :: "handle option"
  fu_request_power_reset :: "handle option"

record fdir_state =
  fd_reported :: "qiran_fault_id \<Rightarrow> u32"
  fd_serviced :: "qiran_fault_id \<Rightarrow> u32"
  fd_detail :: "qiran_fault_id \<Rightarrow> u32"
  fd_tick :: "qiran_fault_id \<Rightarrow> u32"
  fd_record :: "qiran_fault_id \<Rightarrow> svc_fdir_record"
  fd_by_severity :: "qiran_severity \<Rightarrow> u32"
  fd_uplink :: svc_fdir_uplink
  fd_uplink_set :: bool
  fd_undelivered :: u32
  fd_reentries :: u32
  fd_seen_overruns :: u32
  fd_seen_uart_overflow :: u32
  fd_seen_irq_dropped :: "plat_irq_id \<Rightarrow> u32"

record fdir_world = uart_world +
  w_fdir :: fdir_state

text \<open>What the registered functions do.\<close>

record 'w fdir_env =
  fe_report_flag :: "handle \<Rightarrow> qiran_fault_id \<Rightarrow> qiran_severity \<Rightarrow> u32 \<Rightarrow> 'w \<Rightarrow> qiran_status \<times> 'w"
  fe_request_power_reset :: "handle \<Rightarrow> qiran_fault_id \<Rightarrow> 'w \<Rightarrow> qiran_status \<times> 'w"

definition svc_fdir_init :: "'a fdir_world_scheme \<Rightarrow> 'a fdir_world_scheme" where
  "svc_fdir_init w = w\<lparr>w_fdir :=
    \<lparr>fd_reported = (\<lambda>_. 0), fd_serviced = (\<lambda>_. 0), fd_detail = (\<lambda>_. 0), fd_tick = (\<lambda>_. 0),
     fd_record = (\<lambda>_. \<lparr>fr_occurrences = 0, fr_escalations = 0, fr_last_tick = 0,
       fr_last_detail = 0, fr_flag = False, fr_elevated = False\<rparr>),
     fd_by_severity = (\<lambda>_. 0),
     fd_uplink = \<lparr>fu_report_flag = None, fu_request_power_reset = None\<rparr>,
     fd_uplink_set = False, fd_undelivered = 0, fd_reentries = 0, fd_seen_overruns = 0,
     fd_seen_uart_overflow = 0, fd_seen_irq_dropped = (\<lambda>_. 0)\<rparr>\<rparr>"

definition svc_fdir_set_uplink ::
  "svc_fdir_uplink option \<Rightarrow> 'a fdir_world_scheme \<Rightarrow> qiran_status \<times> 'a fdir_world_scheme" where
  "svc_fdir_set_uplink uplink w =
    (case uplink of
       None \<Rightarrow> (QIRAN_OK, w\<lparr>w_fdir := (w_fdir w)
         \<lparr>fd_uplink := \<lparr>fu_report_flag = None, fu_request_power_reset = None\<rparr>, fd_uplink_set := False\<rparr>\<rparr>)
     | Some u \<Rightarrow>
         if fu_report_flag u = None \<or> fu_request_power_reset u = None then (QIRAN_ERR_PARAM, w)
         else (QIRAN_OK, w\<lparr>w_fdir := (w_fdir w)\<lparr>fd_uplink := u, fd_uplink_set := True\<rparr>\<rparr>))"

definition svc_fdir_report :: "qiran_fault_id \<Rightarrow> u32 \<Rightarrow> 'a fdir_world_scheme \<Rightarrow> 'a fdir_world_scheme" where
  "svc_fdir_report f detail w =
    (if f = QIRAN_FAULT_COUNT then w
     else (let (prior, w) = plat_cpu_irq_disable w;
               s = w_fdir w;
               s = s\<lparr>fd_reported := (fd_reported s)(f := fd_reported s f + 1)\<rparr>;
               s = s\<lparr>fd_detail := (fd_detail s)(f := detail)\<rparr>;
               s = s\<lparr>fd_tick := (fd_tick s)(f := exec_raw_tick_count w)\<rparr>
           in plat_cpu_irq_restore prior (w\<lparr>w_fdir := s\<rparr>)))"

definition fdir_escalate ::
  "'a fdir_world_scheme fdir_env \<Rightarrow> qiran_fault_id \<Rightarrow> u32 \<Rightarrow> 'a fdir_world_scheme \<Rightarrow> 'a fdir_world_scheme" where
  "fdir_escalate E f detail w =
    (let p = k_policy f; s = w_fdir w; r = fd_record s f;
         w = w\<lparr>w_fdir := s\<lparr>fd_record := (fd_record s)(f := r\<lparr>fr_escalations := fr_escalations r + 1\<rparr>)\<rparr>\<rparr>;
         (st, w) =
           (case fp_escalation p of
              QIRAN_ESCALATE_REPORT \<Rightarrow>
                if fd_uplink_set (w_fdir w)
                then fe_report_flag E (the (fu_report_flag (fd_uplink (w_fdir w)))) f (fp_severity p) detail w
                else (QIRAN_ERR_UNSUPPORTED, w)
            | QIRAN_ESCALATE_POWER_RESET \<Rightarrow>
                if fd_uplink_set (w_fdir w)
                then fe_request_power_reset E (the (fu_request_power_reset (fd_uplink (w_fdir w)))) f w
                else (QIRAN_ERR_UNSUPPORTED, w)
            | QIRAN_ESCALATE_LOG_ONLY \<Rightarrow> (QIRAN_OK, w))
     in if st \<noteq> QIRAN_OK
        then w\<lparr>w_fdir := (w_fdir w)\<lparr>fd_undelivered := fd_undelivered (w_fdir w) + 1\<rparr>\<rparr> else w)"

definition fdir_classify ::
  "'a fdir_world_scheme fdir_env \<Rightarrow> qiran_fault_id \<Rightarrow> u32 \<Rightarrow> 'a fdir_world_scheme \<Rightarrow> 'a fdir_world_scheme" where
  "fdir_classify E f occurrences w =
    (let p = k_policy f; s = w_fdir w; detail = fd_detail s f; r = fd_record s f;
         r = r\<lparr>fr_occurrences := fr_occurrences r + occurrences, fr_last_detail := detail,
               fr_last_tick := fd_tick s f, fr_flag := True\<rparr>;
         s = s\<lparr>fd_record := (fd_record s)(f := r),
               fd_by_severity := (fd_by_severity s)(fp_severity p :=
                 fd_by_severity s (fp_severity p) + occurrences)\<rparr>;
         w = svc_log_fault f (fp_severity p) detail (w\<lparr>w_fdir := s\<rparr>)
     in case fp_severity p of
          QIRAN_SEV_SEVERE \<Rightarrow> fdir_escalate E f detail w
        | QIRAN_SEV_CRITICAL \<Rightarrow>
            if fp_limit p \<noteq> 0 \<and> ucast (fp_limit p) \<le> fr_occurrences r \<and> \<not> fr_elevated r
            then fdir_escalate E f detail
                   (w\<lparr>w_fdir := s\<lparr>fd_record := (fd_record s)(f := r\<lparr>fr_elevated := True\<rparr>)\<rparr>\<rparr>)
            else w
        | _ \<Rightarrow> w)"

text \<open>The interrupt sources in the order of their values.\<close>

definition irq_ids :: "plat_irq_id list" where
  "irq_ids = [PLAT_IRQ_TIMER, PLAT_IRQ_WATCHDOG, PLAT_IRQ_DMA, PLAT_IRQ_SPW, PLAT_IRQ_UART, PLAT_IRQ_PL_ERROR]"

definition irq_idx :: "plat_irq_id \<Rightarrow> nat" where
  "irq_idx irq = length (takeWhile (\<lambda>i. i \<noteq> irq) irq_ids)"

definition collect_irq_dropped :: "plat_irq_id \<Rightarrow> 'a fdir_world_scheme \<Rightarrow> 'a fdir_world_scheme" where
  "collect_irq_dropped irq w =
    (let dropped = iq_dropped (w_irq w irq); s = w_fdir w
     in if dropped \<noteq> fd_seen_irq_dropped s irq
        then svc_fdir_report QIRAN_FAULT_IRQ_OVERFLOW (of_nat (irq_idx irq))
               (w\<lparr>w_fdir := s\<lparr>fd_seen_irq_dropped := (fd_seen_irq_dropped s)(irq := dropped)\<rparr>\<rparr>)
        else w)"

definition collect_platform_counters :: "'a fdir_world_scheme \<Rightarrow> 'a fdir_world_scheme" where
  "collect_platform_counters w =
    (let ex = exec_stats_get w;
         w = (if st_overrun_events ex \<noteq> fd_seen_overruns (w_fdir w)
              then (let delta = st_overrun_events ex - fd_seen_overruns (w_fdir w);
                        w = w\<lparr>w_fdir := (w_fdir w)\<lparr>fd_seen_overruns := st_overrun_events ex\<rparr>\<rparr>
                    in (svc_fdir_report QIRAN_FAULT_CYCLE_OVERRUN (st_overrun_cycles_lost ex) ^^ unat delta) w)
              else w);
         now = plat_isr_uart_overflow w;
         w = (if now \<noteq> fd_seen_uart_overflow (w_fdir w)
              then svc_fdir_report QIRAN_FAULT_UART_RX_OVERFLOW now
                     (w\<lparr>w_fdir := (w_fdir w)\<lparr>fd_seen_uart_overflow := now\<rparr>\<rparr>)
              else w)
     in fold collect_irq_dropped irq_ids w)"

text \<open>The loop that takes every queued event of a source.\<close>

fun irq_drain ::
  "nat \<Rightarrow> plat_irq_id \<Rightarrow> (plat_irq_event \<Rightarrow> 'a irq_world_scheme \<Rightarrow> 'a irq_world_scheme) \<Rightarrow>
   'a irq_world_scheme \<Rightarrow> 'a irq_world_scheme" where
  "irq_drain 0 irq f w = w"
| "irq_drain (Suc n) irq f w =
     (case plat_irq_take irq w of (None, w) \<Rightarrow> w | (Some ev, w) \<Rightarrow> irq_drain n irq f (f ev w))"

definition irq_service ::
  "plat_irq_id \<Rightarrow> (plat_irq_event \<Rightarrow> 'a irq_world_scheme \<Rightarrow> 'a irq_world_scheme) \<Rightarrow>
   'a irq_world_scheme \<Rightarrow> 'a irq_world_scheme" where
  "irq_service irq f w = irq_drain (Suc (unat (plat_irq_pending irq w))) irq f w"

definition svc_fdir_service_interrupts :: "'a fdir_world_scheme \<Rightarrow> 'a fdir_world_scheme" where
  "svc_fdir_service_interrupts w =
    (let w = irq_service PLAT_IRQ_PL_ERROR (\<lambda>ev. svc_fdir_report QIRAN_FAULT_PL_ERROR (ev_datum ev)) w
     in irq_service PLAT_IRQ_WATCHDOG (\<lambda>ev. svc_fdir_report QIRAN_FAULT_WATCHDOG_EXPIRY (ev_datum ev)) w)"

definition service_class ::
  "'a fdir_world_scheme fdir_env \<Rightarrow> qiran_fault_id \<Rightarrow> 'a fdir_world_scheme \<Rightarrow> 'a fdir_world_scheme" where
  "service_class E f w =
    (let s = w_fdir w; reported = fd_reported s f; nnew = reported - fd_serviced s f
     in if nnew = 0 then w
        else fdir_classify E f nnew (w\<lparr>w_fdir := s\<lparr>fd_serviced := (fd_serviced s)(f := reported)\<rparr>\<rparr>))"

definition error_handling_service ::
  "'a fdir_world_scheme fdir_env \<Rightarrow> 'a fdir_world_scheme \<Rightarrow> 'a fdir_world_scheme" where
  "error_handling_service E w = fold (service_class E) (tl fault_ids) (collect_platform_counters w)"

definition fdir_unserviced :: "qiran_fault_id \<Rightarrow> 'a fdir_world_scheme \<Rightarrow> u32" where
  "fdir_unserviced f w = fd_reported (w_fdir w) f - fd_serviced (w_fdir w) f"

definition svc_fdir_occurrences :: "qiran_fault_id \<Rightarrow> 'a fdir_world_scheme \<Rightarrow> u32" where
  "svc_fdir_occurrences f w =
    (if f = QIRAN_FAULT_COUNT then 0
     else fr_occurrences (fd_record (w_fdir w) f) + fdir_unserviced f w)"

definition svc_fdir_retries_exhausted :: "qiran_fault_id \<Rightarrow> 'a fdir_world_scheme \<Rightarrow> bool" where
  "svc_fdir_retries_exhausted f w =
    (if f = QIRAN_FAULT_COUNT then False
     else if fp_limit (k_policy f) = 0 then False
     else ucast (fp_limit (k_policy f)) \<le> svc_fdir_occurrences f w)"

definition svc_fdir_clear :: "qiran_fault_id \<Rightarrow> 'a fdir_world_scheme \<Rightarrow> 'a fdir_world_scheme" where
  "svc_fdir_clear f w =
    (if f = QIRAN_FAULT_COUNT then w
     else (let (prior, w) = plat_cpu_irq_disable w;
               s = w_fdir w;
               w = plat_cpu_irq_restore prior
                     (w\<lparr>w_fdir := s\<lparr>fd_serviced := (fd_serviced s)(f := fd_reported s f)\<rparr>\<rparr>);
               s = w_fdir w
           in w\<lparr>w_fdir := s\<lparr>fd_record := (fd_record s)(f := (fd_record s f)
                \<lparr>fr_occurrences := 0, fr_flag := False, fr_elevated := False\<rparr>)\<rparr>\<rparr>))"

definition svc_fdir_flag :: "qiran_fault_id \<Rightarrow> 'a fdir_world_scheme \<Rightarrow> bool" where
  "svc_fdir_flag f w \<longleftrightarrow> f \<noteq> QIRAN_FAULT_COUNT \<and> fr_flag (fd_record (w_fdir w) f)"

definition svc_fdir_record_get :: "qiran_fault_id \<Rightarrow> 'a fdir_world_scheme \<Rightarrow> svc_fdir_record option" where
  "svc_fdir_record_get f w = (if f = QIRAN_FAULT_COUNT then None else Some (fd_record (w_fdir w) f))"

definition svc_fdir_policy_get :: "qiran_fault_id \<Rightarrow> svc_fdir_policy option" where
  "svc_fdir_policy_get f = (if f = QIRAN_FAULT_COUNT then None else Some (k_policy f))"

definition svc_fdir_severity_count :: "qiran_severity \<Rightarrow> 'a fdir_world_scheme \<Rightarrow> u32" where
  "svc_fdir_severity_count v w = (if v = QIRAN_SEV_COUNT then 0 else fd_by_severity (w_fdir w) v)"

definition svc_fdir_undelivered :: "'a fdir_world_scheme \<Rightarrow> u32" where
  "svc_fdir_undelivered w = fd_undelivered (w_fdir w)"

definition svc_fdir_reentry_note ::
  "'a fdir_world_scheme fdir_env \<Rightarrow> qiran_fault_id \<Rightarrow> 'a fdir_world_scheme \<Rightarrow> 'a fdir_world_scheme" where
  "svc_fdir_reentry_note E cause w =
    (let w = w\<lparr>w_fdir := (w_fdir w)\<lparr>fd_reentries := fd_reentries (w_fdir w) + 1\<rparr>\<rparr>;
         n = fd_reentries (w_fdir w);
         w = svc_log_event (of_nat (fault_idx cause)) n w
     in if QIRAN_REENTRY_LIMIT < n then fdir_escalate E cause n w else w)"

definition svc_fdir_reentry_count :: "'a fdir_world_scheme \<Rightarrow> u32" where
  "svc_fdir_reentry_count w = fd_reentries (w_fdir w)"

definition svc_fdir_reentry_exceeded :: "'a fdir_world_scheme \<Rightarrow> bool" where
  "svc_fdir_reentry_exceeded w \<longleftrightarrow> QIRAN_REENTRY_LIMIT < fd_reentries (w_fdir w)"

subsection \<open>Each fault class is accounted for on its own\<close>

text \<open>What the component relies on from the observer's link: the one thing it may do to the fault
  service while it is being used is to report that it could not transmit.\<close>

definition link_keeps :: "'a fdir_world_scheme \<Rightarrow> 'a fdir_world_scheme \<Rightarrow> bool" where
  "link_keeps w v \<longleftrightarrow> w_log v = w_log w \<and> fd_serviced (w_fdir v) = fd_serviced (w_fdir w) \<and>
     fd_record (w_fdir v) = fd_record (w_fdir w) \<and> fd_reentries (w_fdir v) = fd_reentries (w_fdir w) \<and>
     (\<forall>f. f = QIRAN_FAULT_HK_TRANSMIT \<or> fd_reported (w_fdir v) f = fd_reported (w_fdir w) f \<and>
        fd_detail (w_fdir v) f = fd_detail (w_fdir w) f \<and> fd_tick (w_fdir v) f = fd_tick (w_fdir w) f)"

definition uplink_ok :: "'a fdir_world_scheme fdir_env \<Rightarrow> bool" where
  "uplink_ok E \<longleftrightarrow> (\<forall>h f v d w. link_keeps w (snd (fe_report_flag E h f v d w))) \<and>
     (\<forall>h f w. link_keeps w (snd (fe_request_power_reset E h f w)))"

definition fdir_counted :: "qiran_fault_id \<Rightarrow> u32 \<Rightarrow> u32 \<Rightarrow> fdir_state \<Rightarrow> fdir_state" where
  "fdir_counted f detail tick s =
    s\<lparr>fd_reported := (fd_reported s)(f := fd_reported s f + 1),
      fd_detail := (fd_detail s)(f := detail), fd_tick := (fd_tick s)(f := tick)\<rparr>"

lemma svc_fdir_report_eq:
  "svc_fdir_report f detail w =
    (if f = QIRAN_FAULT_COUNT then w
     else w\<lparr>w_fdir := fdir_counted f detail (exec_raw_tick_count w) (w_fdir w)\<rparr>)"
  by (simp add: svc_fdir_report_def plat_cpu_irq_disable_def plat_cpu_irq_restore_def Let_def
      fdir_counted_def exec_raw_tick_count_def)

definition fdir_cleared :: "qiran_fault_id \<Rightarrow> fdir_state \<Rightarrow> fdir_state" where
  "fdir_cleared f s =
    s\<lparr>fd_serviced := (fd_serviced s)(f := fd_reported s f),
      fd_record := (fd_record s)(f := (fd_record s f)
        \<lparr>fr_occurrences := 0, fr_flag := False, fr_elevated := False\<rparr>)\<rparr>"

lemma svc_fdir_clear_eq:
  "svc_fdir_clear f w =
    (if f = QIRAN_FAULT_COUNT then w else w\<lparr>w_fdir := fdir_cleared f (w_fdir w)\<rparr>)"
  by (simp add: svc_fdir_clear_def plat_cpu_irq_disable_def plat_cpu_irq_restore_def Let_def
      fdir_cleared_def)

text \<open>The record of one class after a pass that finds \<open>n\<close> new occurrences of it.\<close>

definition fdir_escalates :: "qiran_fault_id \<Rightarrow> svc_fdir_record \<Rightarrow> bool" where
  "fdir_escalates f r \<longleftrightarrow>
    fp_severity (k_policy f) = QIRAN_SEV_SEVERE \<or>
    fp_severity (k_policy f) = QIRAN_SEV_CRITICAL \<and> fp_limit (k_policy f) \<noteq> 0 \<and>
      ucast (fp_limit (k_policy f)) \<le> fr_occurrences r \<and> \<not> fr_elevated r"

definition fdir_class_record ::
  "qiran_fault_id \<Rightarrow> u32 \<Rightarrow> u32 \<Rightarrow> u32 \<Rightarrow> svc_fdir_record \<Rightarrow> svc_fdir_record" where
  "fdir_class_record f n detail tick r =
    (if n = 0 then r
     else (let r = r\<lparr>fr_occurrences := fr_occurrences r + n, fr_last_detail := detail,
                     fr_last_tick := tick, fr_flag := True\<rparr>
           in if fdir_escalates f r
              then (if fp_severity (k_policy f) = QIRAN_SEV_CRITICAL then r\<lparr>fr_elevated := True\<rparr> else r)
                \<lparr>fr_escalations := fr_escalations r + 1\<rparr>
              else r))"

lemma fdir_escalate_fdir:
  assumes "uplink_ok E"
  shows "fd_serviced (w_fdir (fdir_escalate E f d w)) = fd_serviced (w_fdir w)"
    "fd_record (w_fdir (fdir_escalate E f d w)) = (fd_record (w_fdir w))
      (f := (fd_record (w_fdir w) f)\<lparr>fr_escalations := fr_escalations (fd_record (w_fdir w) f) + 1\<rparr>)"
    "w_log (fdir_escalate E f d w) = w_log w"
    "g \<noteq> QIRAN_FAULT_HK_TRANSMIT \<Longrightarrow> fd_reported (w_fdir (fdir_escalate E f d w)) g = fd_reported (w_fdir w) g \<and>
      fd_detail (w_fdir (fdir_escalate E f d w)) g = fd_detail (w_fdir w) g \<and>
      fd_tick (w_fdir (fdir_escalate E f d w)) g = fd_tick (w_fdir w) g"
proof -
  have u: "link_keeps u (snd (fe_report_flag E h g v x u))"
    "link_keeps u (snd (fe_request_power_reset E h g u))" for h g v x u
    using assms by (simp_all add: uplink_ok_def)
  have k: "link_keeps u v \<Longrightarrow> w_log v = w_log u" "link_keeps u v \<Longrightarrow> fd_serviced (w_fdir v) = fd_serviced (w_fdir u)"
    "link_keeps u v \<Longrightarrow> fd_record (w_fdir v) = fd_record (w_fdir u)"
    "link_keeps u v \<Longrightarrow> g \<noteq> QIRAN_FAULT_HK_TRANSMIT \<Longrightarrow> fd_reported (w_fdir v) g = fd_reported (w_fdir u) g"
    "link_keeps u v \<Longrightarrow> g \<noteq> QIRAN_FAULT_HK_TRANSMIT \<Longrightarrow> fd_detail (w_fdir v) g = fd_detail (w_fdir u) g"
    "link_keeps u v \<Longrightarrow> g \<noteq> QIRAN_FAULT_HK_TRANSMIT \<Longrightarrow> fd_tick (w_fdir v) g = fd_tick (w_fdir u) g" for u v g
    unfolding link_keeps_def by blast+
  note u' = k [OF u(1)] k [OF u(2)]
  show "fd_serviced (w_fdir (fdir_escalate E f d w)) = fd_serviced (w_fdir w)"
    "fd_record (w_fdir (fdir_escalate E f d w)) = (fd_record (w_fdir w))
      (f := (fd_record (w_fdir w) f)\<lparr>fr_escalations := fr_escalations (fd_record (w_fdir w) f) + 1\<rparr>)"
    "w_log (fdir_escalate E f d w) = w_log w"
    "g \<noteq> QIRAN_FAULT_HK_TRANSMIT \<Longrightarrow> fd_reported (w_fdir (fdir_escalate E f d w)) g = fd_reported (w_fdir w) g \<and>
      fd_detail (w_fdir (fdir_escalate E f d w)) g = fd_detail (w_fdir w) g \<and>
      fd_tick (w_fdir (fdir_escalate E f d w)) g = fd_tick (w_fdir w) g"
    by (cases "fp_escalation (k_policy f)"; simp add: fdir_escalate_def Let_def case_prod_beta u')+
qed

lemma svc_log_fault_fdir [frame]: "w_fdir (svc_log_fault f v d w) = w_fdir w"
  by (simp add: svc_log_eqs)

lemma fdir_class_record_critical:
  assumes "fp_severity (k_policy f) = QIRAN_SEV_CRITICAL" "n \<noteq> 0" "fp_limit (k_policy f) = l" "l \<noteq> 0"
  shows "fr_occurrences (fdir_class_record f n d t r) = fr_occurrences r + n"
    "fr_elevated (fdir_class_record f n d t r) \<longleftrightarrow>
       fr_elevated r \<or> ucast l \<le> fr_occurrences r + n"
    "fr_escalations (fdir_class_record f n d t r) =
       fr_escalations r + (if ucast l \<le> fr_occurrences r + n \<and> \<not> fr_elevated r then 1 else 0)"
  using assms by (auto simp: fdir_class_record_def fdir_escalates_def Let_def)

lemma service_class_fdir:
  assumes "uplink_ok E"
  shows "fd_serviced (w_fdir (service_class E f w)) = (fd_serviced (w_fdir w))(f := fd_reported (w_fdir w) f)"
    "fd_record (w_fdir (service_class E f w)) = (fd_record (w_fdir w))(f :=
       fdir_class_record f (fdir_unserviced f w) (fd_detail (w_fdir w) f) (fd_tick (w_fdir w) f)
         (fd_record (w_fdir w) f))"
    "g \<noteq> QIRAN_FAULT_HK_TRANSMIT \<Longrightarrow> fd_reported (w_fdir (service_class E f w)) g = fd_reported (w_fdir w) g \<and>
      fd_detail (w_fdir (service_class E f w)) g = fd_detail (w_fdir w) g \<and>
      fd_tick (w_fdir (service_class E f w)) g = fd_tick (w_fdir w) g"
  using fdir_escalate_fdir [OF assms]
  by (cases "fp_severity (k_policy f)"; simp add: service_class_def fdir_classify_def Let_def
      svc_log_fault_fdir fdir_class_record_def fdir_escalates_def fdir_unserviced_def)+

lemma service_fold_fdir:
  assumes "uplink_ok E" "distinct fs" "f \<noteq> QIRAN_FAULT_HK_TRANSMIT"
  shows "fd_reported (w_fdir (fold (service_class E) fs w)) f = fd_reported (w_fdir w) f"
    and "f \<in> set fs \<Longrightarrow> fd_serviced (w_fdir (fold (service_class E) fs w)) f = fd_reported (w_fdir w) f"
    and "f \<in> set fs \<Longrightarrow> fd_record (w_fdir (fold (service_class E) fs w)) f =
       fdir_class_record f (fdir_unserviced f w) (fd_detail (w_fdir w) f) (fd_tick (w_fdir w) f)
         (fd_record (w_fdir w) f)"
proof -
  have "fd_reported (w_fdir (fold (service_class E) fs w)) f = fd_reported (w_fdir w) f \<and>
    fd_serviced (w_fdir (fold (service_class E) fs w)) f =
      (if f \<in> set fs then fd_reported (w_fdir w) f else fd_serviced (w_fdir w) f) \<and>
    fd_record (w_fdir (fold (service_class E) fs w)) f =
      (if f \<in> set fs then fdir_class_record f (fdir_unserviced f w) (fd_detail (w_fdir w) f)
         (fd_tick (w_fdir w) f) (fd_record (w_fdir w) f) else fd_record (w_fdir w) f)"
    using assms(2)
  proof (induction fs arbitrary: w)
    case (Cons g fs)
    note s = service_class_fdir(1,2) [OF assms(1), of g w] service_class_fdir(3) [OF assms(1,3), of g w]
    show ?case
      using Cons.IH [of "service_class E g w"] Cons.prems s
      by (cases "f = g") (simp_all add: fdir_unserviced_def)
  qed simp
  then show "fd_reported (w_fdir (fold (service_class E) fs w)) f = fd_reported (w_fdir w) f"
    and "f \<in> set fs \<Longrightarrow> fd_serviced (w_fdir (fold (service_class E) fs w)) f = fd_reported (w_fdir w) f"
    and "f \<in> set fs \<Longrightarrow> fd_record (w_fdir (fold (service_class E) fs w)) f =
       fdir_class_record f (fdir_unserviced f w) (fd_detail (w_fdir w) f) (fd_tick (w_fdir w) f)
         (fd_record (w_fdir w) f)"
    by auto
qed

lemma fault_ids_tl: "distinct (tl fault_ids)"
    "f \<in> set (tl fault_ids) \<longleftrightarrow> f \<noteq> QIRAN_FAULT_NONE \<and> f \<noteq> QIRAN_FAULT_COUNT"
  by (simp add: fault_ids_def, cases f, simp_all add: fault_ids_def)

text \<open>The classes a pass of the service can itself report: the three counters it collects, and the
  failure to transmit.\<close>

abbreviation platform_faults :: "qiran_fault_id set" where
  "platform_faults \<equiv>
     {QIRAN_FAULT_CYCLE_OVERRUN, QIRAN_FAULT_UART_RX_OVERFLOW, QIRAN_FAULT_IRQ_OVERFLOW,
      QIRAN_FAULT_HK_TRANSMIT}"

definition fdir_cell_same :: "qiran_fault_id \<Rightarrow> fdir_state \<Rightarrow> fdir_state \<Rightarrow> bool" where
  "fdir_cell_same f s t \<longleftrightarrow> fd_reported s f = fd_reported t f \<and> fd_serviced s f = fd_serviced t f \<and>
     fd_record s f = fd_record t f"

lemma fdir_cell_same_trans:
  "fdir_cell_same f s t \<Longrightarrow> fdir_cell_same f t u \<Longrightarrow> fdir_cell_same f s u"
  by (simp add: fdir_cell_same_def)

lemma report_cell_other: "f \<noteq> g \<Longrightarrow> fdir_cell_same f (w_fdir (svc_fdir_report g d w)) (w_fdir w)"
  by (simp add: svc_fdir_report_eq fdir_counted_def fdir_cell_same_def)

lemma collect_cell_other:
  assumes "f \<notin> platform_faults"
  shows "fdir_cell_same f (w_fdir (collect_platform_counters w)) (w_fdir w)"
proof -
  have pow: "fdir_cell_same f (w_fdir ((svc_fdir_report QIRAN_FAULT_CYCLE_OVERRUN d ^^ n) v)) (w_fdir v)"
    for d n and v :: "'a fdir_world_scheme"
  proof (induction n)
    case (Suc n)
    then show ?case
      using assms report_cell_other [of f QIRAN_FAULT_CYCLE_OVERRUN d
          "(svc_fdir_report QIRAN_FAULT_CYCLE_OVERRUN d ^^ n) v"] fdir_cell_same_trans by fastforce
  qed (simp add: fdir_cell_same_def)
  have irq: "fdir_cell_same f (w_fdir (collect_irq_dropped i v)) (w_fdir v)"
    for i and v :: "'a fdir_world_scheme"
    using assms by (simp add: collect_irq_dropped_def Let_def svc_fdir_report_eq fdir_counted_def
        fdir_cell_same_def)
  have irqs: "fdir_cell_same f (w_fdir (fold collect_irq_dropped is v)) (w_fdir v)"
    for "is" and v :: "'a fdir_world_scheme"
    by (induction "is" arbitrary: v) (simp add: fdir_cell_same_def,
        use irq fdir_cell_same_trans in fastforce)
  define w1 where "w1 = (if st_overrun_events (exec_stats_get w) \<noteq> fd_seen_overruns (w_fdir w)
      then (svc_fdir_report QIRAN_FAULT_CYCLE_OVERRUN (st_overrun_cycles_lost (exec_stats_get w)) ^^
          unat (st_overrun_events (exec_stats_get w) - fd_seen_overruns (w_fdir w)))
        (w\<lparr>w_fdir := (w_fdir w)\<lparr>fd_seen_overruns := st_overrun_events (exec_stats_get w)\<rparr>\<rparr>) else w)"
  define w2 where "w2 = (if plat_isr_uart_overflow w1 \<noteq> fd_seen_uart_overflow (w_fdir w1)
      then svc_fdir_report QIRAN_FAULT_UART_RX_OVERFLOW (plat_isr_uart_overflow w1)
        (w1\<lparr>w_fdir := (w_fdir w1)\<lparr>fd_seen_uart_overflow := plat_isr_uart_overflow w1\<rparr>\<rparr>) else w1)"
  have "fdir_cell_same f (w_fdir w1) (w_fdir w)"
    using pow [where d = "st_overrun_cycles_lost (exec_stats_get w)" and
        v = "w\<lparr>w_fdir := (w_fdir w)\<lparr>fd_seen_overruns := st_overrun_events (exec_stats_get w)\<rparr>\<rparr>"]
    by (simp add: w1_def fdir_cell_same_def)
  moreover have "fdir_cell_same f (w_fdir w2) (w_fdir w1)"
    using assms by (simp add: w2_def svc_fdir_report_eq fdir_counted_def fdir_cell_same_def)
  moreover have "collect_platform_counters w = fold collect_irq_dropped irq_ids w2"
    by (simp only: collect_platform_counters_def Let_def w1_def w2_def)
  ultimately show ?thesis using irqs [of irq_ids w2] fdir_cell_same_trans by metis
qed

lemma error_handling_cell:
  fixes w :: "'a fdir_world_scheme"
  assumes "uplink_ok E" "f \<notin> platform_faults" "f \<noteq> QIRAN_FAULT_NONE" "f \<noteq> QIRAN_FAULT_COUNT"
  defines "s \<equiv> w_fdir w" and "t \<equiv> w_fdir (error_handling_service E w)"
  shows "fd_reported t f = fd_reported s f" "fd_serviced t f = fd_reported s f"
    "\<exists>d k. fd_record t f = fdir_class_record f (fd_reported s f - fd_serviced s f) d k (fd_record s f)"
proof -
  have "f \<noteq> QIRAN_FAULT_HK_TRANSMIT" using assms(2) by simp
  note fold = service_fold_fdir [OF assms(1) fault_ids_tl(1) this, where w = "collect_platform_counters w"]
  show "fd_reported t f = fd_reported s f" "fd_serviced t f = fd_reported s f"
    "\<exists>d k. fd_record t f = fdir_class_record f (fd_reported s f - fd_serviced s f) d k (fd_record s f)"
    using fold fault_ids_tl(2) [of f] collect_cell_other [OF assms(2), of w] assms(3,4)
    unfolding s_def t_def error_handling_service_def
    by (auto simp: fdir_cell_same_def fdir_unserviced_def intro!: exI)
qed

subsection \<open>Properties\<close>

lemma fdir_occurrences_service:
  assumes "uplink_ok E" "f \<notin> platform_faults" "f \<noteq> QIRAN_FAULT_NONE"
  shows "svc_fdir_occurrences f (error_handling_service E w) = svc_fdir_occurrences f w"
proof (cases "f = QIRAN_FAULT_COUNT")
  case True
  then show ?thesis by (simp add: svc_fdir_occurrences_def)
next
  case False
  obtain d k where r: "fd_record (w_fdir (error_handling_service E w)) f =
      fdir_class_record f (fd_reported (w_fdir w) f - fd_serviced (w_fdir w) f) d k (fd_record (w_fdir w) f)"
    using error_handling_cell(3) [OF assms False] by blast
  have occ: "fr_occurrences (fdir_class_record f n d k r) = fr_occurrences r + n" for n r
    by (simp add: fdir_class_record_def Let_def)
  show ?thesis
    using error_handling_cell(1,2) [OF assms False, of w] False
    by (simp add: svc_fdir_occurrences_def fdir_unserviced_def r occ)
qed

text \<open>The answer to "how often, and are the retries exhausted" does not depend on whether the
  fault slot of the cycle has run: servicing a class moves its new occurrences to its record
  without changing their sum, so a caller asking right after reporting is never a count short.\<close>

theorem fdir_occurrences_stable:
  assumes "uplink_ok E" "f \<notin> platform_faults" "f \<noteq> QIRAN_FAULT_NONE"
  shows "svc_fdir_occurrences f (error_handling_service E w) = svc_fdir_occurrences f w \<and>
    svc_fdir_retries_exhausted f (error_handling_service E w) = svc_fdir_retries_exhausted f w \<and>
    svc_fdir_occurrences f (svc_fdir_report f d w) =
      svc_fdir_occurrences f w + (if f = QIRAN_FAULT_COUNT then 0 else 1)"
  using fdir_occurrences_service [OF assms, of w]
  by (simp add: svc_fdir_retries_exhausted_def)
    (simp add: svc_fdir_report_eq svc_fdir_occurrences_def fdir_unserviced_def fdir_counted_def)

text \<open>Reports, passes of the service and clears in any order.\<close>

datatype fdir_op = Fd_report qiran_fault_id u32 | Fd_service | Fd_clear qiran_fault_id

fun fdir_run ::
  "'a fdir_world_scheme fdir_env \<Rightarrow> fdir_op list \<Rightarrow> 'a fdir_world_scheme \<Rightarrow> 'a fdir_world_scheme" where
  "fdir_run E [] w = w"
| "fdir_run E (Fd_report f d # ops) w = fdir_run E ops (svc_fdir_report f d w)"
| "fdir_run E (Fd_service # ops) w = fdir_run E ops (error_handling_service E w)"
| "fdir_run E (Fd_clear f # ops) w = fdir_run E ops (svc_fdir_clear f w)"

definition fdir_reports :: "qiran_fault_id \<Rightarrow> fdir_op list \<Rightarrow> nat" where
  "fdir_reports f ops = length (filter (\<lambda>op. case op of Fd_report g d \<Rightarrow> g = f | _ \<Rightarrow> False) ops)"

text \<open>\<open>n\<close> reports of the class since it was last cleared, \<open>m\<close> of them serviced; \<open>e\<close> escalations before.\<close>

definition fdir_counts :: "qiran_fault_id \<Rightarrow> nat \<Rightarrow> nat \<Rightarrow> u32 \<Rightarrow> fdir_state \<Rightarrow> bool" where
  "fdir_counts f n m e s \<longleftrightarrow> m \<le> n \<and>
    fd_reported s f - fd_serviced s f = of_nat (n - m) \<and>
    fr_occurrences (fd_record s f) = of_nat m \<and>
    fr_elevated (fd_record s f) = (unat (fp_limit (k_policy f)) \<le> m) \<and>
    fr_escalations (fd_record s f) = e + (if unat (fp_limit (k_policy f)) \<le> m then 1 else 0)"

definition fdir_critical :: "qiran_fault_id \<Rightarrow> bool" where
  "fdir_critical f \<longleftrightarrow> fp_severity (k_policy f) = QIRAN_SEV_CRITICAL \<and> fp_limit (k_policy f) \<noteq> 0"

lemma fdir_counts_service:
  assumes "uplink_ok E" "fdir_critical f" "f \<notin> platform_faults" "fdir_counts f n m e (w_fdir w)" "n < 2 ^ 32"
  shows "fdir_counts f n n e (w_fdir (error_handling_service E w))"
proof -
  have f: "f \<noteq> QIRAN_FAULT_NONE" "f \<noteq> QIRAN_FAULT_COUNT"
    using assms(2) by (auto simp: fdir_critical_def fdir_policy_def)
  let ?s = "w_fdir w" and ?t = "w_fdir (error_handling_service E w)"
  let ?l = "fp_limit (k_policy f)"
  obtain d k where r: "fd_record ?t f =
      fdir_class_record f (fd_reported ?s f - fd_serviced ?s f) d k (fd_record ?s f)"
    using error_handling_cell(3) [OF assms(1,3) f] by blast
  note c = assms(4) [unfolded fdir_counts_def]
  have new: "fd_reported ?s f - fd_serviced ?s f = of_nat (n - m)" using c by blast
  have le: "ucast ?l \<le> (of_nat n :: u32) \<longleftrightarrow> unat ?l \<le> n"
    using assms(5) by (simp add: word_le_nat_alt unat_of_nat_eq_u32 unsigned_ucast_eq take_bit_eq_mod)
      (use unsigned_less [of ?l, where ?'a = nat] in simp)
  have sum: "fr_occurrences (fd_record ?s f) + of_nat (n - m) = (of_nat n :: u32)"
    using c by (simp add: of_nat_diff)
  have diff: "fd_reported ?t f - fd_serviced ?t f = 0"
    using error_handling_cell(1,2) [OF assms(1,3) f, of w] by simp
  show ?thesis
  proof (cases "of_nat (n - m) = (0 :: u32)")
    case True
    have "n - m < 4294967296" using assms(5) by simp
    then have "n - m = 0" using True unat_of_nat_eq_u32 [of "n - m"] by simp
    then have "n = m" using c by simp
    then show ?thesis
      using c diff unfolding fdir_counts_def r new by (simp add: fdir_class_record_def)
  next
    case False
    note rec = fdir_class_record_critical [of f "of_nat (n - m)" ?l d k "fd_record ?s f",
        OF _ False refl, unfolded sum le]
    have cr: "fp_severity (k_policy f) = QIRAN_SEV_CRITICAL" "?l \<noteq> 0"
      using assms(2) by (auto simp: fdir_critical_def)
    show ?thesis
      unfolding fdir_counts_def r new rec [OF cr] diff using c by auto
  qed
qed

lemma fdir_counts_report:
  assumes "fdir_counts f n m e (w_fdir w)" "f \<noteq> QIRAN_FAULT_COUNT"
  shows "fdir_counts f (if g = f then Suc n else n) m e (w_fdir (svc_fdir_report g d w))"
  using assms
  by (auto simp: fdir_counts_def svc_fdir_report_eq fdir_counted_def Suc_diff_le algebra_simps)

lemma fdir_counts_clear:
  "f \<noteq> g \<Longrightarrow> fdir_counts f n m e (w_fdir w) \<Longrightarrow> fdir_counts f n m e (w_fdir (svc_fdir_clear g w))"
  by (simp add: fdir_counts_def svc_fdir_clear_eq fdir_cleared_def)

text \<open>The two critical classes that a pass of the service can itself report. Cycle overruns are collected
  before the classes are serviced, so a pass services all of them. A failure to transmit can come up
  in the middle of a pass, from the link that an escalation is handed to: what a link may report is
  at most one such failure a call.\<close>

definition link_reports_once :: "'a fdir_world_scheme fdir_env \<Rightarrow> bool" where
  "link_reports_once E \<longleftrightarrow>
    (\<forall>h f v d w. unat (fd_reported (w_fdir (snd (fe_report_flag E h f v d w))) QIRAN_FAULT_HK_TRANSMIT -
       fd_reported (w_fdir w) QIRAN_FAULT_HK_TRANSMIT) \<le> 1) \<and>
    (\<forall>h f w. unat (fd_reported (w_fdir (snd (fe_request_power_reset E h f w))) QIRAN_FAULT_HK_TRANSMIT -
       fd_reported (w_fdir w) QIRAN_FAULT_HK_TRANSMIT) \<le> 1)"

text \<open>The reports of a class an operation makes, and those a run of operations makes.\<close>

definition fdir_new :: "'a fdir_world_scheme fdir_env \<Rightarrow> qiran_fault_id \<Rightarrow> fdir_op \<Rightarrow> 'a fdir_world_scheme \<Rightarrow> nat" where
  "fdir_new E f op w = (case op of
     Fd_report g d \<Rightarrow> if g = f then 1 else 0
   | Fd_clear g \<Rightarrow> 0
   | Fd_service \<Rightarrow>
       if f = QIRAN_FAULT_CYCLE_OVERRUN then unat (st_overrun_events (exec_stats_get w) - fd_seen_overruns (w_fdir w))
       else if f = QIRAN_FAULT_HK_TRANSMIT
       then unat (fd_reported (w_fdir (error_handling_service E w)) f - fd_reported (w_fdir w) f) else 0)"

fun fdir_total :: "'a fdir_world_scheme fdir_env \<Rightarrow> qiran_fault_id \<Rightarrow> fdir_op list \<Rightarrow> 'a fdir_world_scheme \<Rightarrow> nat" where
  "fdir_total E f [] w = 0"
| "fdir_total E f (op # ops) w = fdir_new E f op w + fdir_total E f ops (fdir_run E [op] w)"

lemma fdir_total_reports:
  "f \<noteq> QIRAN_FAULT_CYCLE_OVERRUN \<Longrightarrow> f \<noteq> QIRAN_FAULT_HK_TRANSMIT \<Longrightarrow> fdir_total E f ops w = fdir_reports f ops"
  by (induction ops arbitrary: w) (simp_all add: fdir_reports_def fdir_new_def split: fdir_op.split)

lemma fdir_run_Cons: "fdir_run E (op # ops) w = fdir_run E ops (fdir_run E [op] w)"
  by (cases op) simp_all

lemma escalate_once:
  assumes "link_reports_once E"
  shows "unat (fd_reported (w_fdir (fdir_escalate E f d w)) QIRAN_FAULT_HK_TRANSMIT - fd_reported (w_fdir w) QIRAN_FAULT_HK_TRANSMIT) \<le> 1"
proof -
  have u: "unat (fd_reported (w_fdir (snd (fe_report_flag E h g v x u))) QIRAN_FAULT_HK_TRANSMIT - fd_reported (w_fdir u) QIRAN_FAULT_HK_TRANSMIT) \<le> 1"
    "unat (fd_reported (w_fdir (snd (fe_request_power_reset E h g u))) QIRAN_FAULT_HK_TRANSMIT - fd_reported (w_fdir u) QIRAN_FAULT_HK_TRANSMIT) \<le> 1"
    for h g v x u using assms unfolding link_reports_once_def by blast+
  define v where "v = w\<lparr>w_fdir := (w_fdir w)\<lparr>fd_record := (fd_record (w_fdir w))
    (f := (fd_record (w_fdir w) f)\<lparr>fr_escalations := fr_escalations (fd_record (w_fdir w) f) + 1\<rparr>)\<rparr>\<rparr>"
  have v: "fd_reported (w_fdir v) = fd_reported (w_fdir w)" by (simp add: v_def)
  show ?thesis
    unfolding fdir_escalate_def Let_def v_def [symmetric] v [symmetric]
    by (cases "fp_escalation (k_policy f)") (simp_all add: case_prod_beta u [unfolded One_nat_def])
qed

lemma service_class_once:
  assumes "uplink_ok E" "f = QIRAN_FAULT_HK_TRANSMIT \<longrightarrow> link_reports_once E"
  shows "unat (fd_reported (w_fdir (service_class E g w)) f - fd_reported (w_fdir w) f) \<le> (if f = QIRAN_FAULT_HK_TRANSMIT then 1 else 0)"
proof (cases "f = QIRAN_FAULT_HK_TRANSMIT")
  case True
  have e: "unat (fd_reported (w_fdir (fdir_escalate E g d v)) QIRAN_FAULT_HK_TRANSMIT - fd_reported (w_fdir w) QIRAN_FAULT_HK_TRANSMIT) \<le> 1"
    if "fd_reported (w_fdir v) = fd_reported (w_fdir w)" for d v
    using escalate_once [of E g d v] assms(2) True that by simp
  show ?thesis
    using True by (cases "fp_severity (k_policy g)"; simp add: service_class_def fdir_classify_def Let_def svc_log_fault_fdir e [unfolded One_nat_def])
next
  case False
  then show ?thesis using service_class_fdir(3) [OF assms(1) False, of g w] by simp
qed

text \<open>What a pass finds of a critical class that has been counted so far, and leaves.\<close>

lemma class_record_counts:
  fixes d t :: u32
  assumes "fdir_critical f" "fdir_counts f n m e s" "n < 2 ^ 32"
  defines "r \<equiv> fdir_class_record f (fd_reported s f - fd_serviced s f) d t (fd_record s f)"
  shows "fr_occurrences r = of_nat n \<and> fr_elevated r = (unat (fp_limit (k_policy f)) \<le> n) \<and>
    fr_escalations r = e + (if unat (fp_limit (k_policy f)) \<le> n then 1 else 0)"
proof -
  let ?l = "fp_limit (k_policy f)"
  note c = assms(2) [unfolded fdir_counts_def]
  have le: "ucast ?l \<le> (of_nat n :: u32) \<longleftrightarrow> unat ?l \<le> n"
    using assms(3) by (simp add: word_le_nat_alt unat_of_nat_eq_u32 unsigned_ucast_eq take_bit_eq_mod)
      (use unsigned_less [of ?l, where ?'a = nat] in simp)
  have new: "fd_reported s f - fd_serviced s f = of_nat (n - m)" using c by blast
  have sum: "fr_occurrences (fd_record s f) + of_nat (n - m) = (of_nat n :: u32)" using c by (simp add: of_nat_diff)
  show ?thesis
  proof (cases "of_nat (n - m) = (0 :: u32)")
    case True
    have "n - m < 4294967296" using assms(3) by simp
    then have "n = m" using True unat_of_nat_eq_u32 [of "n - m"] c by simp
    then show ?thesis using c by (simp add: r_def new fdir_class_record_def)
  next
    case False
    have cr: "fp_severity (k_policy f) = QIRAN_SEV_CRITICAL" "?l \<noteq> 0" using assms(1) by (auto simp: fdir_critical_def)
    show ?thesis
      unfolding r_def new fdir_class_record_critical [of f "of_nat (n - m)" ?l d t "fd_record s f", OF cr(1) False refl cr(2), unfolded sum le]
      using c by auto
  qed
qed

lemma service_class_counts:
  fixes g :: qiran_fault_id
  assumes "uplink_ok E" "f = QIRAN_FAULT_HK_TRANSMIT \<longrightarrow> link_reports_once E" "fdir_critical f"
    and "fdir_counts f n m e (w_fdir w)" "n < 2 ^ 32"
  defines "v \<equiv> service_class E g w"
  defines "k \<equiv> unat (fd_reported (w_fdir v) f - fd_reported (w_fdir w) f)"
  shows "fdir_counts f (n + k) (if g = f then n else m) e (w_fdir v)"
proof -
  note s = service_class_fdir(1,2) [OF assms(1), of g w, folded v_def]
  note c = assms(4) [unfolded fdir_counts_def]
  have k: "fd_reported (w_fdir v) f = fd_reported (w_fdir w) f + of_nat k" by (simp add: k_def)
  show ?thesis
  proof (cases "g = f")
    case True
    have "fd_reported (w_fdir v) f - fd_serviced (w_fdir v) f = of_nat k" using True by (simp add: s k)
    then show ?thesis
      using class_record_counts [OF assms(3-5)] True by (simp add: fdir_counts_def s fdir_unserviced_def)
  next
    case False
    have "fd_reported (w_fdir v) f - fd_serviced (w_fdir v) f = of_nat (n - m) + of_nat k"
      using False c by (simp add: s k)
    also have "\<dots> = of_nat (n + k - m)" using c by (simp add: of_nat_diff)
    finally show ?thesis using c False by (simp add: fdir_counts_def s)
  qed
qed

lemma unat_diff_add:
  fixes a b c :: u32
  assumes "unat (b - a) + unat (c - b) < 2 ^ 32"
  shows "unat (c - a) = unat (b - a) + unat (c - b)"
proof -
  have "unat ((b - a) + (c - b)) = unat (b - a) + unat (c - b)"
    using assms by (intro unat_add_lem [THEN iffD1]) simp
  moreover have "(b - a) + (c - b) = c - a" by simp
  ultimately show ?thesis by (simp only:)
qed

lemma service_fold_once:
  assumes "uplink_ok E" "f = QIRAN_FAULT_HK_TRANSMIT \<longrightarrow> link_reports_once E"
  shows "length fs < 2 ^ 31 \<Longrightarrow> unat (fd_reported (w_fdir (fold (service_class E) fs w)) f - fd_reported (w_fdir w) f) \<le>
    (if f = QIRAN_FAULT_HK_TRANSMIT then length fs else 0)"
proof (induction fs arbitrary: w)
  case (Cons g fs)
  define v where "v = service_class E g w"
  define x where "x = fold (service_class E) fs v"
  have k: "unat (fd_reported (w_fdir v) f - fd_reported (w_fdir w) f) \<le> (if f = QIRAN_FAULT_HK_TRANSMIT then 1 else 0)"
    unfolding v_def by (rule service_class_once [OF assms])
  have l: "unat (fd_reported (w_fdir x) f - fd_reported (w_fdir v) f) \<le> (if f = QIRAN_FAULT_HK_TRANSMIT then length fs else 0)"
    unfolding x_def using Cons by simp
  have "unat (fd_reported (w_fdir x) f - fd_reported (w_fdir w) f) =
      unat (fd_reported (w_fdir v) f - fd_reported (w_fdir w) f) + unat (fd_reported (w_fdir x) f - fd_reported (w_fdir v) f)"
    using k l Cons.prems by (intro unat_diff_add) (auto split: if_splits)
  then show ?case using k l by (auto simp: x_def v_def split: if_splits)
qed simp

lemma service_fold_counts:
  assumes "uplink_ok E" "f = QIRAN_FAULT_HK_TRANSMIT \<longrightarrow> link_reports_once E" "fdir_critical f"
  shows "fdir_counts f n m e (w_fdir w) \<Longrightarrow> distinct fs \<Longrightarrow> length fs < 2 ^ 31 \<Longrightarrow>
    k = unat (fd_reported (w_fdir (fold (service_class E) fs w)) f - fd_reported (w_fdir w) f) \<Longrightarrow> n + k < 2 ^ 32 \<Longrightarrow>
    \<exists>m'. fdir_counts f (n + k) m' e (w_fdir (fold (service_class E) fs w)) \<and> (if f \<in> set fs then n \<le> m' else m' = m)"
proof (induction fs arbitrary: n m w k)
  case (Cons g fs)
  define v where "v = service_class E g w"
  define i where "i = unat (fd_reported (w_fdir v) f - fd_reported (w_fdir w) f)"
  define j where "j = unat (fd_reported (w_fdir (fold (service_class E) fs v)) f - fd_reported (w_fdir v) f)"
  have "i \<le> 1" using service_class_once [OF assms(1,2), of g w] by (simp add: i_def v_def split: if_splits)
  moreover have "j \<le> length fs" using service_fold_once [OF assms(1,2), of fs v] Cons.prems(3) by (simp add: j_def split: if_splits)
  ultimately have ij: "i + j < 2 ^ 32" using Cons.prems(3) by simp
  have k: "k = i + j"
    using unat_diff_add [OF ij [unfolded i_def j_def]] unfolding Cons.prems(4) i_def j_def v_def by simp
  have c: "fdir_counts f (n + i) (if g = f then n else m) e (w_fdir v)"
    unfolding i_def v_def using Cons.prems by (intro service_class_counts [OF assms]) simp_all
  obtain m' where m': "fdir_counts f (n + i + j) m' e (w_fdir (fold (service_class E) fs v))"
      "if f \<in> set fs then n + i \<le> m' else m' = (if g = f then n else m)"
    using Cons.IH [OF c _ _ j_def] Cons.prems k by auto
  have f: "fold (service_class E) (g # fs) w = fold (service_class E) fs v" by (simp add: v_def)
  have n: "n + k = n + i + j" using k by simp
  have "if f \<in> set (g # fs) then n \<le> m' else m' = m" using m'(2) Cons.prems(2) by (cases "f \<in> set fs") (auto split: if_splits)
  then show ?case unfolding f n using m'(1) by blast
qed auto

text \<open>Collecting the platform's counters reports an overrun for each of the executive's.\<close>

lemma collect_reports:
  fixes w :: "'a fdir_world_scheme"
  assumes "f \<noteq> QIRAN_FAULT_UART_RX_OVERFLOW" "f \<noteq> QIRAN_FAULT_IRQ_OVERFLOW"
  defines "k \<equiv> (if f = QIRAN_FAULT_CYCLE_OVERRUN then st_overrun_events (exec_stats_get w) - fd_seen_overruns (w_fdir w) else 0)"
  shows "fd_reported (w_fdir (collect_platform_counters w)) f = fd_reported (w_fdir w) f + k"
    "fd_serviced (w_fdir (collect_platform_counters w)) f = fd_serviced (w_fdir w) f"
    "fd_record (w_fdir (collect_platform_counters w)) f = fd_record (w_fdir w) f"
proof -
  let ?o = QIRAN_FAULT_CYCLE_OVERRUN
  have step: "fd_reported (w_fdir (svc_fdir_report ?o d v)) g = fd_reported (w_fdir v) g + (if g = ?o then 1 else 0)"
      "fd_serviced (w_fdir (svc_fdir_report ?o d v)) = fd_serviced (w_fdir v)"
      "fd_record (w_fdir (svc_fdir_report ?o d v)) = fd_record (w_fdir v)" for d g and v :: "'a fdir_world_scheme"
    by (simp_all add: svc_fdir_report_eq fdir_counted_def)
  have pow: "fd_reported (w_fdir ((svc_fdir_report ?o d ^^ n) v)) g = fd_reported (w_fdir v) g + (if g = ?o then of_nat n else 0) \<and>
      fd_serviced (w_fdir ((svc_fdir_report ?o d ^^ n) v)) = fd_serviced (w_fdir v) \<and>
      fd_record (w_fdir ((svc_fdir_report ?o d ^^ n) v)) = fd_record (w_fdir v)" for d n g and v :: "'a fdir_world_scheme"
    by (induction n) (simp_all add: step)
  have irqs: "fdir_cell_same f (w_fdir (fold collect_irq_dropped is v)) (w_fdir v)" for "is" and v :: "'a fdir_world_scheme"
  proof (induction "is" arbitrary: v)
    case (Cons i js)
    have "fdir_cell_same f (w_fdir (collect_irq_dropped i v)) (w_fdir v)"
      using assms(2) by (simp add: collect_irq_dropped_def Let_def svc_fdir_report_eq fdir_counted_def fdir_cell_same_def)
    then show ?case using Cons.IH [of "collect_irq_dropped i v"] fdir_cell_same_trans by simp
  qed (simp add: fdir_cell_same_def)
  define w1 where "w1 = (if st_overrun_events (exec_stats_get w) \<noteq> fd_seen_overruns (w_fdir w)
      then (svc_fdir_report ?o (st_overrun_cycles_lost (exec_stats_get w)) ^^
          unat (st_overrun_events (exec_stats_get w) - fd_seen_overruns (w_fdir w)))
        (w\<lparr>w_fdir := (w_fdir w)\<lparr>fd_seen_overruns := st_overrun_events (exec_stats_get w)\<rparr>\<rparr>) else w)"
  define w2 where "w2 = (if plat_isr_uart_overflow w1 \<noteq> fd_seen_uart_overflow (w_fdir w1)
      then svc_fdir_report QIRAN_FAULT_UART_RX_OVERFLOW (plat_isr_uart_overflow w1)
        (w1\<lparr>w_fdir := (w_fdir w1)\<lparr>fd_seen_uart_overflow := plat_isr_uart_overflow w1\<rparr>\<rparr>) else w1)"
  have 1: "fd_reported (w_fdir w1) f = fd_reported (w_fdir w) f + k" "fd_serviced (w_fdir w1) f = fd_serviced (w_fdir w) f"
      "fd_record (w_fdir w1) f = fd_record (w_fdir w) f"
    by (simp_all add: w1_def k_def pow)
  have 2: "fdir_cell_same f (w_fdir w2) (w_fdir w1)"
    using assms(1) by (simp add: w2_def svc_fdir_report_eq fdir_counted_def fdir_cell_same_def)
  have "collect_platform_counters w = fold collect_irq_dropped irq_ids w2"
    by (simp only: collect_platform_counters_def Let_def w1_def w2_def)
  with fdir_cell_same_trans [OF irqs [of irq_ids w2] 2] 1
  show "fd_reported (w_fdir (collect_platform_counters w)) f = fd_reported (w_fdir w) f + k"
    "fd_serviced (w_fdir (collect_platform_counters w)) f = fd_serviced (w_fdir w) f"
    "fd_record (w_fdir (collect_platform_counters w)) f = fd_record (w_fdir w) f"
    by (simp_all add: fdir_cell_same_def)
qed

text \<open>One pass of the service, for every critical class.\<close>

lemma fdir_pass_counts:
  assumes "uplink_ok E" "f = QIRAN_FAULT_HK_TRANSMIT \<longrightarrow> link_reports_once E" "fdir_critical f"
    and "fdir_counts f n m e (w_fdir w)" "n + fdir_new E f Fd_service w < 2 ^ 32"
  shows "\<exists>m'. fdir_counts f (n + fdir_new E f Fd_service w) m' e (w_fdir (error_handling_service E w)) \<and> n \<le> m' \<and>
    (f \<noteq> QIRAN_FAULT_HK_TRANSMIT \<longrightarrow> m' = n + fdir_new E f Fd_service w)"
proof -
  have f: "f \<noteq> QIRAN_FAULT_NONE" "f \<noteq> QIRAN_FAULT_COUNT" "f \<noteq> QIRAN_FAULT_UART_RX_OVERFLOW" "f \<noteq> QIRAN_FAULT_IRQ_OVERFLOW"
    using assms(3) by (auto simp: fdir_critical_def fdir_policy_def)
  let ?c = "collect_platform_counters w" and ?v = "error_handling_service E w"
  define d where "d = unat (fd_reported (w_fdir ?c) f - fd_reported (w_fdir w) f)"
  define k where "k = unat (fd_reported (w_fdir (fold (service_class E) (tl fault_ids) ?c)) f - fd_reported (w_fdir ?c) f)"
  have len: "length (tl fault_ids) < 2 ^ 31" by (simp add: fault_ids_def)
  have k0: "f \<noteq> QIRAN_FAULT_HK_TRANSMIT \<longrightarrow> k = 0" using service_fold_once [OF assms(1,2) len, of ?c] unfolding k_def by (intro impI) (simp only: if_False le_zero_eq)
  have d: "d = (if f = QIRAN_FAULT_CYCLE_OVERRUN then unat (st_overrun_events (exec_stats_get w) - fd_seen_overruns (w_fdir w)) else 0)"
    unfolding d_def collect_reports(1) [OF f(3,4)] by simp
  have hk: "k = unat (fd_reported (w_fdir ?v) f - fd_reported (w_fdir w) f)" if "f = QIRAN_FAULT_HK_TRANSMIT"
    unfolding k_def collect_reports(1) [OF f(3,4)] using that by (simp add: error_handling_service_def)
  have new: "fdir_new E f Fd_service w = d + k"
  proof (cases "f = QIRAN_FAULT_HK_TRANSMIT")
    case True
    then have "fdir_new E f Fd_service w = unat (fd_reported (w_fdir ?v) f - fd_reported (w_fdir w) f)" by (simp add: fdir_new_def)
    then show ?thesis using hk [OF True] d True by simp
  next
    case False
    then show ?thesis using k0 by (simp add: d fdir_new_def)
  qed
  have "fdir_counts f (n + d) m e (w_fdir ?c)"
    using assms(4) collect_reports(2,3) [OF f(3,4), of w]
    by (auto simp: fdir_counts_def d_def of_nat_diff algebra_simps)
  from service_fold_counts [OF assms(1-3) this fault_ids_tl(1) len k_def]
  obtain m' where "fdir_counts f (n + d + k) m' e (w_fdir ?v)" "n + d \<le> m'"
    using assms(5) new f(1,2) fault_ids_tl(2) [of f] by (auto simp: error_handling_service_def)
  then show ?thesis using k0 new by (intro exI [of _ m']) (auto simp: fdir_counts_def add.assoc)
qed

lemma fdir_total_counts:
  assumes "uplink_ok E" "f = QIRAN_FAULT_HK_TRANSMIT \<longrightarrow> link_reports_once E" "fdir_critical f"
  shows "fdir_counts f n m e (w_fdir w) \<Longrightarrow> Fd_clear f \<notin> set ops \<Longrightarrow> n + fdir_total E f ops w < 2 ^ 32 \<Longrightarrow>
    \<exists>m'. fdir_counts f (n + fdir_total E f ops w) m' e (w_fdir (fdir_run E ops w))"
proof (induction ops arbitrary: n m w)
  case (Cons op ops)
  have f: "f \<noteq> QIRAN_FAULT_COUNT" using assms(3) by (auto simp: fdir_critical_def fdir_policy_def)
  have "\<exists>m'. fdir_counts f (n + fdir_new E f op w) m' e (w_fdir (fdir_run E [op] w))"
  proof (cases op)
    case (Fd_report g d)
    then show ?thesis using fdir_counts_report [OF Cons.prems(1) f, of g d] by (auto simp: fdir_new_def split: if_splits)
  next
    case Fd_service
    then show ?thesis using fdir_pass_counts [OF assms Cons.prems(1)] Cons.prems(3) by auto
  next
    case (Fd_clear g)
    then show ?thesis using fdir_counts_clear [of f g n m e w] Cons.prems(1,2) by (auto simp: fdir_new_def)
  qed
  then obtain m' where "fdir_counts f (n + fdir_new E f op w) m' e (w_fdir (fdir_run E [op] w))" by blast
  from Cons.IH [OF this] show ?case using Cons.prems(2,3) by (subst fdir_run_Cons) (simp add: add.assoc)
qed auto

text \<open>C6: A critical class, every one of them, is escalated exactly once between two clears when its
  reports reach the limit, and not before, however its reports, those of other classes and the passes
  of the service interleave. The reports are those made from outside, one for each overrun of the
  executive, which a pass collects before it services anything, and one for each failure of the link to
  transmit. After a pass, \<open>m\<close> reports have been serviced: all of them, for every class but the failure to
  transmit, of which a pass may leave those its own escalations brought up for the next. The record
  shows one escalation more if those reach the limit and none otherwise, and whether the retries are
  exhausted is answered for all of them. Fewer than \<open>2 ^ 32\<close> reports come up, and the observer's link keeps
  its contract, which the housekeeping link is shown to do (\<open>hk_uplink_ok\<close>, \<open>hk_uplink_once\<close>).\<close>

theorem fdir_escalates_once:
  fixes w :: "'a fdir_world_scheme"
  assumes "uplink_ok E" "f = QIRAN_FAULT_HK_TRANSMIT \<longrightarrow> link_reports_once E" "fdir_critical f" "Fd_clear f \<notin> set ops"
  defines "w0 \<equiv> svc_fdir_clear f w" and "n \<equiv> fdir_total E f ops (svc_fdir_clear f w)"
  defines "w1 \<equiv> fdir_run E ops w0"
  defines "new \<equiv> fdir_new E f Fd_service w1"
  defines "w2 \<equiv> error_handling_service E w1"
  assumes "n + new < 2 ^ 32"
  shows "\<exists>m. n \<le> m \<and> m \<le> n + new \<and> (f \<noteq> QIRAN_FAULT_HK_TRANSMIT \<longrightarrow> m = n + new) \<and>
    fr_escalations (fd_record (w_fdir w2) f) = fr_escalations (fd_record (w_fdir w) f) +
      (if unat (fp_limit (k_policy f)) \<le> m then 1 else 0) \<and>
    svc_fdir_occurrences f w2 = of_nat (n + new) \<and>
    (svc_fdir_retries_exhausted f w2 \<longleftrightarrow> unat (fp_limit (k_policy f)) \<le> n + new) \<and>
    (f \<noteq> QIRAN_FAULT_CYCLE_OVERRUN \<and> f \<noteq> QIRAN_FAULT_HK_TRANSMIT \<longrightarrow> n + new = fdir_reports f ops)"
proof -
  let ?e = "fr_escalations (fd_record (w_fdir w) f)"
  have f: "f \<noteq> QIRAN_FAULT_COUNT" "fp_limit (k_policy f) \<noteq> 0"
    using assms(3) by (auto simp: fdir_critical_def fdir_policy_def)
  have "fdir_counts f 0 0 ?e (w_fdir w0)"
    using f by (simp add: w0_def fdir_counts_def svc_fdir_clear_eq fdir_cleared_def unat_eq_0)
  from fdir_total_counts [OF assms(1-3) this assms(4)]
  obtain k where "fdir_counts f n k ?e (w_fdir w1)" using assms(10) by (auto simp: n_def w0_def w1_def)
  from fdir_pass_counts [OF assms(1-3) this assms(10) [unfolded new_def]]
  obtain m where m: "fdir_counts f (n + new) m ?e (w_fdir w2)" "n \<le> m" "f \<noteq> QIRAN_FAULT_HK_TRANSMIT \<longrightarrow> m = n + new"
    unfolding new_def w2_def by blast
  have le: "ucast (fp_limit (k_policy f)) \<le> (of_nat (n + new) :: u32) \<longleftrightarrow> unat (fp_limit (k_policy f)) \<le> n + new"
    using assms(10) unsigned_less [of "fp_limit (k_policy f)", where ?'a = nat]
    by (simp add: word_le_nat_alt unat_of_nat_eq_u32 unsigned_ucast_eq take_bit_eq_mod del: of_nat_add)
  have mn: "m \<le> n + new" using m(1) by (simp add: fdir_counts_def)
  have occ: "svc_fdir_occurrences f w2 = of_nat (n + new)"
    using m(1) f mn by (simp add: svc_fdir_occurrences_def fdir_unserviced_def fdir_counts_def del: of_nat_add)
  have exh: "svc_fdir_retries_exhausted f w2 \<longleftrightarrow> unat (fp_limit (k_policy f)) \<le> n + new"
    using f le by (simp add: svc_fdir_retries_exhausted_def occ del: of_nat_add)
  have esc: "fr_escalations (fd_record (w_fdir w2) f) = ?e + (if unat (fp_limit (k_policy f)) \<le> m then 1 else 0)"
    using m(1) by (simp add: fdir_counts_def)
  have "f \<noteq> QIRAN_FAULT_CYCLE_OVERRUN \<and> f \<noteq> QIRAN_FAULT_HK_TRANSMIT \<longrightarrow> n + new = fdir_reports f ops"
    by (simp add: n_def new_def fdir_total_reports) (simp add: fdir_new_def)
  then show ?thesis using m(2,3) mn occ exh esc by blast
qed

text \<open>The policy table leaves no class without a consequence: a critical class has a limit
  and is delivered to the observer at it, a severe one is delivered at once and has no limit, and
  a lesser one is neither counted towards a limit nor delivered.\<close>

theorem fdir_policy_complete:
  "f = QIRAN_FAULT_COUNT \<or>
   (let p = k_policy f in
      case fp_severity p of
        QIRAN_SEV_CRITICAL \<Rightarrow> fp_limit p \<noteq> 0 \<and> fp_escalation p \<noteq> QIRAN_ESCALATE_LOG_ONLY
      | QIRAN_SEV_SEVERE \<Rightarrow> fp_limit p = 0 \<and> fp_escalation p \<noteq> QIRAN_ESCALATE_LOG_ONLY
      | QIRAN_SEV_COUNT \<Rightarrow> False
      | _ \<Rightarrow> fp_limit p = 0 \<and> fp_escalation p = QIRAN_ESCALATE_LOG_ONLY)"
  by (cases f) (simp_all add: fdir_policy_def cfg_consts)

lemma length_filter_both: "length (filter (\<lambda>x. P x \<and> Q x) xs) \<le> length (filter Q xs)"
  by (induction xs) auto

lemma service_class_log:
  assumes "uplink_ok E"
  shows "lg_total (w_log (service_class E f w)) =
    lg_total (w_log w) + (if fdir_unserviced f w = 0 then 0 else 1)"
  using fdir_escalate_fdir(3) [OF assms]
  by (cases "fp_severity (k_policy f)"; simp add: service_class_def fdir_classify_def Let_def
      svc_log_eqs log_step_fields fdir_unserviced_def)

text \<open>A failure to transmit may come up during the pass and then be serviced in it.\<close>

lemma service_fold_log:
  assumes "uplink_ok E" "distinct fs"
  defines "new \<equiv> \<lambda>w. filter (\<lambda>f. fdir_unserviced f w \<noteq> 0 \<and> f \<noteq> QIRAN_FAULT_HK_TRANSMIT)"
  shows "\<exists>k. lg_total (w_log (fold (service_class E) fs w)) = lg_total (w_log w) + of_nat k \<and>
    length (new w fs) \<le> k \<and> k \<le> length (new w fs) + (if QIRAN_FAULT_HK_TRANSMIT \<in> set fs then 1 else 0)"
  using assms(2)
proof (induction fs arbitrary: w)
  case Nil
  then show ?case by (intro exI [of _ 0]) (simp add: new_def)
next
  case (Cons g fs)
  have "fdir_unserviced f (service_class E g w) = fdir_unserviced f w"
    if "f \<in> set fs" "f \<noteq> QIRAN_FAULT_HK_TRANSMIT" for f
    using service_class_fdir(1) [OF assms(1), of g w] service_class_fdir(3) [OF assms(1) that(2), of g w] Cons.prems that
    by (auto simp: fdir_unserviced_def)
  then have n: "new (service_class E g w) fs = new w fs"
    unfolding new_def by (intro filter_cong) auto
  obtain k where k: "lg_total (w_log (fold (service_class E) fs (service_class E g w))) =
      lg_total (w_log (service_class E g w)) + of_nat k" "length (new w fs) \<le> k"
      "k \<le> length (new w fs) + (if QIRAN_FAULT_HK_TRANSMIT \<in> set fs then 1 else 0)"
    using Cons.IH [of "service_class E g w"] Cons.prems unfolding n by auto
  show ?case
    using k Cons.prems service_class_log [OF assms(1), of g w]
    by (intro exI [of _ "k + (if fdir_unserviced g w = 0 then 0 else 1)"]) (auto simp: new_def)
qed

text \<open>Collecting the counters touches the fault state only.\<close>

definition fdir_only :: "'a fdir_world_scheme \<Rightarrow> 'a fdir_world_scheme \<Rightarrow> bool" where
  "fdir_only w v \<longleftrightarrow> (\<exists>s. v = w\<lparr>w_fdir := s\<rparr>)"

lemma fdir_only_refl: "fdir_only w w"
  unfolding fdir_only_def by (intro exI [of _ "w_fdir w"]) simp

lemma fdir_only_trans: "fdir_only w v \<Longrightarrow> fdir_only v u \<Longrightarrow> fdir_only w u"
  by (auto simp: fdir_only_def)

lemma fdir_only_report: "fdir_only w v \<Longrightarrow> fdir_only w (svc_fdir_report f d v)"
  by (auto simp: fdir_only_def svc_fdir_report_eq)

lemma fdir_only_upd: "fdir_only w v \<Longrightarrow> fdir_only w (v\<lparr>w_fdir := s\<rparr>)"
  by (auto simp: fdir_only_def)

lemma fdir_only_pow: "fdir_only w v \<Longrightarrow> fdir_only w ((svc_fdir_report f d ^^ n) v)"
  by (induction n) (simp_all add: fdir_only_report)

lemma fdir_only_irqs: "fdir_only w v \<Longrightarrow> fdir_only w (fold collect_irq_dropped is v)"
  by (induction "is" arbitrary: v)
    (simp_all add: collect_irq_dropped_def Let_def fdir_only_report fdir_only_upd)

lemma collect_fdir_only: "fdir_only w (collect_platform_counters w)"
  unfolding collect_platform_counters_def Let_def
  by (intro fdir_only_irqs)
    (simp add: fdir_only_report fdir_only_upd fdir_only_pow fdir_only_refl)

lemma collect_log: "w_log (collect_platform_counters w) = w_log w"
  using collect_fdir_only [of w] by (auto simp: fdir_only_def)

text \<open>One pass writes one log entry per class that has something new, whatever the number of
  occurrences, and one more if the link fails during the pass; so at most 39: a fault repeating every
  cycle cannot flood the log.\<close>

theorem fdir_log_bounded:
  fixes w :: "'a fdir_world_scheme"
  assumes "uplink_ok E"
  defines "new \<equiv> filter (\<lambda>f. fdir_unserviced f (collect_platform_counters w) \<noteq> 0 \<and> f \<noteq> QIRAN_FAULT_HK_TRANSMIT)
    (tl fault_ids)"
  shows "\<exists>k. svc_log_total (error_handling_service E w) = svc_log_total w + of_nat k \<and>
    length new \<le> k \<and> k \<le> length new + 1 \<and> k \<le> 39"
proof -
  have "length new \<le> length (filter (\<lambda>f. f \<noteq> QIRAN_FAULT_HK_TRANSMIT) (tl fault_ids))"
    unfolding new_def by (rule length_filter_both)
  also have "\<dots> = 38" by (simp add: fault_ids_def)
  finally have "length new \<le> 38" .
  then show ?thesis
    using service_fold_log [OF assms(1) fault_ids_tl(1), of "collect_platform_counters w"]
    by (fastforce simp: svc_log_total_def error_handling_service_def collect_log new_def split: if_splits)
qed

text \<open>The global re-entry limit: after \<open>n\<close> re-entries since start-up the limit is exceeded
  exactly when \<open>n\<close> is above five, and each of those escalates its cause to the observer.\<close>

theorem fdir_reentry_limit:
  fixes w :: "'a fdir_world_scheme"
  assumes "uplink_ok E" "n < 2 ^ 32 - 1" "svc_fdir_reentry_count w = of_nat n" "f \<noteq> QIRAN_FAULT_COUNT"
  defines "w1 \<equiv> svc_fdir_reentry_note E f w"
  shows "(svc_fdir_reentry_exceeded w \<longleftrightarrow> 5 < n) \<and>
    (fr_escalations (fd_record (w_fdir w1) f) =
       fr_escalations (fd_record (w_fdir w) f) + (if 5 < Suc n then 1 else 0)) \<and>
    fd_serviced (w_fdir w1) = fd_serviced (w_fdir w)"
proof -
  have n: "unat (of_nat n :: u32) = n" "unat (of_nat n + 1 :: u32) = Suc n"
    using assms(2) unat_of_nat_eq_u32 [of n] unat_of_nat_eq_u32 [of "Suc n"] by (simp_all add: add.commute)
  have lt: "(5 :: u32) < of_nat n \<longleftrightarrow> 5 < n" "(5 :: u32) < of_nat n + 1 \<longleftrightarrow> 5 < Suc n"
    unfolding word_less_nat_alt n by simp_all
  show ?thesis
    using lt assms(3) fdir_escalate_fdir [OF assms(1)]
    by (auto simp: svc_fdir_reentry_exceeded_def svc_fdir_reentry_count_def w1_def
        svc_fdir_reentry_note_def Let_def cfg_consts svc_log_eqs)
qed

subsection \<open>Witnesses\<close>

definition fdir_env0 :: "fdir_world fdir_env" where
  "fdir_env0 = \<lparr>fe_report_flag = (\<lambda>_ _ _ _ w. (QIRAN_OK, w)),
     fe_request_power_reset = (\<lambda>_ _ w. (QIRAN_OK, w))\<rparr>"

definition uart_state0 :: uart_state where
  "uart_state0 = \<lparr>ua_rx = \<lparr>rg_buf = replicate 256 0, rg_mask = 255, rg_head = 0, rg_tail = 0,
     rg_dropped = 0\<rparr>, ua_drain = None, ua_ctx = None\<rparr>"

definition fdir_state0 :: fdir_state where
  "fdir_state0 = \<lparr>fd_reported = (\<lambda>_. 0), fd_serviced = (\<lambda>_. 0), fd_detail = (\<lambda>_. 0), fd_tick = (\<lambda>_. 0),
     fd_record = (\<lambda>_. \<lparr>fr_occurrences = 0, fr_escalations = 0, fr_last_tick = 0,
       fr_last_detail = 0, fr_flag = False, fr_elevated = False\<rparr>),
     fd_by_severity = (\<lambda>_. 0),
     fd_uplink = \<lparr>fu_report_flag = Some 0, fu_request_power_reset = Some 1\<rparr>,
     fd_uplink_set = True, fd_undelivered = 0, fd_reentries = 5, fd_seen_overruns = 0,
     fd_seen_uart_overflow = 0, fd_seen_irq_dropped = (\<lambda>_. 0)\<rparr>"

definition fdir_world0 :: fdir_world where
  "fdir_world0 = \<lparr>w_cpu = w_cpu exec_world0, w_exec = w_exec exec_world0,
     w_sched = w_sched sched_world0, w_time = w_time (time_world0 0), w_log = w_log log_world0,
     w_gic = gic_state0, w_irq = (\<lambda>_. irq_slot0), w_uart = uart_state0, w_fdir = fdir_state0\<rparr>"

lemma fdir_env0_ok: "uplink_ok fdir_env0"
  by (simp add: uplink_ok_def link_keeps_def fdir_env0_def)

theorem fdir_occurrences_stable_witness:
  "svc_fdir_occurrences QIRAN_FAULT_POST
     (error_handling_service fdir_env0 (svc_fdir_report QIRAN_FAULT_POST 7 fdir_world0)) = 1"
proof -
  have "svc_fdir_occurrences QIRAN_FAULT_POST fdir_world0 = 0"
    by (simp add: svc_fdir_occurrences_def fdir_unserviced_def fdir_world0_def fdir_state0_def)
  then show ?thesis
    using fdir_occurrences_stable [OF fdir_env0_ok, of QIRAN_FAULT_POST fdir_world0 7]
      fdir_occurrences_stable [OF fdir_env0_ok, of QIRAN_FAULT_POST
        "svc_fdir_report QIRAN_FAULT_POST 7 fdir_world0"]
    by simp
qed

lemma fdir_env0_once: "link_reports_once fdir_env0"
  by (simp add: link_reports_once_def fdir_env0_def)

text \<open>A failed self test, reported four times around two passes; its limit is three.\<close>

theorem fdir_escalates_once_witness:
  "fr_escalations (fd_record (w_fdir (error_handling_service fdir_env0 (fdir_run fdir_env0
     [Fd_report QIRAN_FAULT_POST 1, Fd_service, Fd_report QIRAN_FAULT_POST 1,
      Fd_report QIRAN_FAULT_POST 2, Fd_service, Fd_clear QIRAN_FAULT_MRR_LOCK, Fd_report QIRAN_FAULT_POST 3]
     (svc_fdir_clear QIRAN_FAULT_POST fdir_world0)))) QIRAN_FAULT_POST) = 1"
proof -
  let ?f = QIRAN_FAULT_POST
  define ops where "ops = [Fd_report ?f 1, Fd_service, Fd_report ?f 1,
      Fd_report ?f 2, Fd_service, Fd_clear QIRAN_FAULT_MRR_LOCK, Fd_report ?f 3]"
  have n: "fdir_total fdir_env0 ?f ops v = 4" "fdir_new fdir_env0 ?f Fd_service v = 0" for v
    by (simp_all add: ops_def fdir_new_def)
  have c: "fdir_critical ?f" "unat (fp_limit (k_policy ?f)) = 3"
    by (simp_all add: fdir_critical_def fdir_policy_def cfg_consts)
  have "fr_escalations (fd_record (w_fdir fdir_world0) ?f) = 0"
    by (simp add: fdir_world0_def fdir_state0_def)
  moreover have "Fd_clear ?f \<notin> set ops" by (simp add: ops_def)
  ultimately have "fr_escalations (fd_record (w_fdir (error_handling_service fdir_env0 (fdir_run fdir_env0 ops
      (svc_fdir_clear ?f fdir_world0)))) ?f) = 1"
    using fdir_escalates_once [OF fdir_env0_ok _ c(1), of ops fdir_world0] unfolding n c(2) by auto
  then show ?thesis unfolding ops_def .
qed

theorem fdir_log_bounded_witness:
  "\<exists>n \<le> 39. svc_log_total (error_handling_service fdir_env0 fdir_world0) = 7 + of_nat n"
proof -
  have "svc_log_total fdir_world0 = 7"
    by (simp add: svc_log_total_def fdir_world0_def log_world0_def)
  then show ?thesis using fdir_log_bounded [OF fdir_env0_ok, of fdir_world0] by auto
qed

theorem fdir_reentry_limit_witness:
  "fr_escalations (fd_record (w_fdir (svc_fdir_reentry_note fdir_env0 QIRAN_FAULT_POST fdir_world0))
     QIRAN_FAULT_POST) = 1"
proof -
  have "svc_fdir_reentry_count fdir_world0 = of_nat 5"
    by (simp add: svc_fdir_reentry_count_def fdir_world0_def fdir_state0_def)
  then show ?thesis
    using fdir_reentry_limit [OF fdir_env0_ok, of 5 fdir_world0 QIRAN_FAULT_POST]
    by (simp add: fdir_world0_def fdir_state0_def)
qed

end
