(* ===== verification/Svc_Crc.thy ===== *)
theory Svc_Crc
  imports Qiran_Prelude
begin

section \<open>Checksum: \<^verbatim>\<open>src/svc/svc_crc.c\<close>\<close>

text \<open>
  The table-driven reflected CRC-32 that every frame, stored record and configuration
  block carries. A buffer and its length are one byte list; a \<^verbatim>\<open>NULL\<close> buffer is
  \<^term>\<open>None\<close>. The table is shown to compute the bitwise division by the polynomial, the
  update to be linear over exclusive or, and from that every corruption confined to four
  consecutive bytes to change the checksum.
\<close>

definition k_nibble :: "u32 list" where
  "k_nibble =
    [0x00000000, 0x1DB71064, 0x3B6E20C8, 0x26D930AC,
     0x76DC4190, 0x6B6B51F4, 0x4DB26158, 0x5005713C,
     0xEDB88320, 0xF00F9344, 0xD6D6A3E8, 0xCB61B38C,
     0x9B64C2B0, 0x86D3D2D4, 0xA00AE278, 0xBDBDF21C]"

definition SVC_CRC32_INIT :: u32 where "SVC_CRC32_INIT = 0xFFFFFFFF"

text \<open>One table lookup, which consumes four bits.\<close>

definition crc_nibble :: "u32 \<Rightarrow> u32" where
  "crc_nibble crc = k_nibble ! unat (crc AND 0x0F) XOR drop_bit 4 crc"

fun crc_loop :: "u32 \<Rightarrow> u8 list \<Rightarrow> u32" where
  "crc_loop crc [] = crc"
| "crc_loop crc (b # bs) = crc_loop (crc_nibble (crc_nibble (crc XOR ucast b))) bs"

definition svc_crc32_update :: "u32 \<Rightarrow> u8 list option \<Rightarrow> u32" where
  "svc_crc32_update crc data = (case data of None \<Rightarrow> crc | Some bs \<Rightarrow> crc_loop crc bs)"

definition svc_crc32_finish :: "u32 \<Rightarrow> u32" where
  "svc_crc32_finish crc = crc XOR 0xFFFFFFFF"

definition svc_crc32 :: "u8 list option \<Rightarrow> u32" where
  "svc_crc32 data = svc_crc32_finish (svc_crc32_update SVC_CRC32_INIT data)"

abbreviation crc32 :: "u8 list \<Rightarrow> u32" where
  "crc32 bs \<equiv> svc_crc32 (Some bs)"

subsection \<open>The bitwise reference\<close>

text \<open>Division by the reflected polynomial, one bit at a time.\<close>

definition crc_bit :: "u32 \<Rightarrow> u32" where
  "crc_bit crc = (if odd crc then drop_bit 1 crc XOR 0xEDB88320 else drop_bit 1 crc)"

fun crc_bitwise :: "u32 \<Rightarrow> u8 list \<Rightarrow> u32" where
  "crc_bitwise crc [] = crc"
| "crc_bitwise crc (b # bs) = crc_bitwise ((crc_bit ^^ 8) (crc XOR ucast b)) bs"

lemma crc_bit_xor: "crc_bit (a XOR b) = crc_bit a XOR crc_bit b"
  by (rule bit_word_eqI) (auto simp: crc_bit_def bit_simps simp flip: bit_0)

lemma crc_bit_pow_xor: "(crc_bit ^^ n) (a XOR b) = (crc_bit ^^ n) a XOR (crc_bit ^^ n) b"
  by (induction n) (simp_all add: crc_bit_xor)

lemma crc_bit_even: "\<not> bit c 0 \<Longrightarrow> crc_bit c = drop_bit 1 c"
  by (simp add: crc_bit_def bit_0)

lemma crc_bit_pow_drop:
  "(\<And>i. i < n \<Longrightarrow> \<not> bit c i) \<Longrightarrow> (crc_bit ^^ n) c = drop_bit n c"
proof (induction n)
  case 0
  then show ?case by simp
next
  case (Suc n)
  have IH: "(crc_bit ^^ n) c = drop_bit n c" using Suc by simp
  have "\<not> bit (drop_bit n c) 0" using Suc.prems [of n] by (simp add: bit_drop_bit_eq)
  then have "crc_bit (drop_bit n c) = drop_bit 1 (drop_bit n c)" by (rule crc_bit_even)
  then show ?case using IH by simp
qed

lemma nibble_cases:
  fixes c :: u32
  assumes "\<And>n. n < 16 \<Longrightarrow> P (of_nat n)"
  shows "P (c AND 0x0F)"
proof -
  have "unat (c AND mask 4) < 16" by (simp only: unat_and_mask) simp
  moreover have "(0x0F :: u32) = mask 4" by (simp add: mask_eq_exp_minus_1)
  ultimately have "unat (c AND 0x0F) < 16" by simp
  then have "P (of_nat (unat (c AND 0x0F)))" by (rule assms)
  then show ?thesis by simp
qed

lemma less_16_cases: "n < (16::nat) \<Longrightarrow> n \<in> {0, 1, 2, 3, 4, 5, 6, 7, 8, 9, 10, 11, 12, 13, 14, 15}"
  by (simp only: insert_iff empty_iff) arith

lemmas nibble_casesE = less_16_cases [unfolded insert_iff empty_iff]

lemma crc_bit_4: "(crc_bit ^^ 4) c = crc_bit (crc_bit (crc_bit (crc_bit c)))"
  by (simp add: eval_nat_numeral)

lemma crc_bit_table:
  assumes "n < 16"
  shows "(crc_bit ^^ 4) (of_nat n) = k_nibble ! n"
  using nibble_casesE [OF assms] unfolding crc_bit_4
  by (elim disjE FalseE) (simp_all add: crc_bit_def k_nibble_def)

text \<open>The table lookup is four steps of the division.\<close>

lemma crc_split: "c = (c AND 0x0F) XOR (c AND NOT 0x0F)" for c :: u32
  by (rule bit_word_eqI) (auto simp: bit_simps)

lemma crc_nibble_bitwise: "crc_nibble c = (crc_bit ^^ 4) c"
proof -
  have low: "(crc_bit ^^ 4) (c AND 0x0F) = k_nibble ! unat (c AND 0x0F)"
    by (rule nibble_cases) (simp add: crc_bit_table unat_of_nat)
  have mask: "(0x0F :: u32) = mask 4" by (simp add: mask_eq_exp_minus_1)
  have high: "(crc_bit ^^ 4) (c AND NOT 0x0F) = drop_bit 4 (c AND NOT 0x0F)"
    by (rule crc_bit_pow_drop) (simp add: mask bit_simps)
  also have "\<dots> = drop_bit 4 c"
    by (rule bit_word_eqI) (auto simp: mask bit_simps dest: bit_imp_le_length)
  finally have high': "(crc_bit ^^ 4) (c AND NOT 0x0F) = drop_bit 4 c" .
  have "(crc_bit ^^ 4) c = (crc_bit ^^ 4) ((c AND 0x0F) XOR (c AND NOT 0x0F))"
    by (simp only: crc_split [symmetric])
  also have "\<dots> = k_nibble ! unat (c AND 0x0F) XOR drop_bit 4 c"
    by (simp only: crc_bit_pow_xor low high')
  finally show ?thesis by (simp only: crc_nibble_def)
qed

text \<open>A byte of input: two lookups, eight steps of the division.\<close>

definition crc_byte :: "u32 \<Rightarrow> u32" where
  "crc_byte c = crc_nibble (crc_nibble c)"

lemma crc_byte_bitwise: "crc_byte c = (crc_bit ^^ 8) c"
  using funpow_add [of 4 4 crc_bit] by (simp add: crc_byte_def crc_nibble_bitwise)

lemma crc_loop_Cons: "crc_loop c (b # bs) = crc_loop (crc_byte (c XOR ucast b)) bs"
  by (simp add: crc_byte_def)

lemma crc_loop_bitwise: "crc_loop c bs = crc_bitwise c bs"
  by (induction bs arbitrary: c) (simp_all add: crc_byte_bitwise crc_byte_def [symmetric])

lemma crc_loop_append: "crc_loop c (xs @ ys) = crc_loop (crc_loop c xs) ys"
  by (induction xs arbitrary: c) simp_all

subsection \<open>Error detection\<close>

lemma crc_byte_xor: "crc_byte (a XOR b) = crc_byte a XOR crc_byte b"
  by (simp only: crc_byte_bitwise crc_bit_pow_xor)

lemma crc_nibble_0: "crc_nibble 0 = 0"
  by (simp add: crc_nibble_def k_nibble_def)

text \<open>The top nibbles of the table are distinct, so no state but zero is sent to zero.\<close>

lemma k_nibble_top:
  assumes "n < 16" and "drop_bit 28 (k_nibble ! n) = 0"
  shows "n = 0"
  using nibble_casesE [OF assms(1)] assms(2)
  by (elim disjE FalseE) (simp_all add: k_nibble_def)

lemma mask4: "(0x0F :: u32) = mask 4"
  by (simp add: mask_eq_exp_minus_1)

lemma crc_nibble_eq_0:
  assumes "crc_nibble c = 0"
  shows "c = 0"
proof -
  let ?n = "unat (c AND 0x0F)"
  have n: "?n < 16" by (rule nibble_cases) (simp add: unat_of_nat)
  have "k_nibble ! ?n = drop_bit 4 c"
    using assms by (simp add: crc_nibble_def xor_eq_0_iff_eq)
  then have "drop_bit 28 (k_nibble ! ?n) = drop_bit 32 c" by (simp add: drop_bit_drop_bit)
  also have "\<dots> = 0" by (rule drop_bit_word_beyond) simp
  finally have n0: "?n = 0" using n by (blast intro: k_nibble_top)
  then have low: "c AND 0x0F = 0" by (simp add: unat_eq_0)
  have "drop_bit 4 c = 0" using assms n0 by (simp add: crc_nibble_def k_nibble_def)
  moreover have "c AND NOT 0x0F = push_bit 4 (drop_bit 4 c)"
    by (rule bit_word_eqI) (auto simp: mask4 bit_simps)
  ultimately have "c AND NOT 0x0F = 0" by simp
  then show ?thesis using low crc_split [of c] by simp
qed

lemma crc_nibble_xor: "crc_nibble (a XOR b) = crc_nibble a XOR crc_nibble b"
  by (simp only: crc_nibble_bitwise crc_bit_pow_xor)

lemma crc_nibble_inj: "crc_nibble a = crc_nibble b \<longleftrightarrow> a = b"
proof
  assume "crc_nibble a = crc_nibble b"
  then have "crc_nibble (a XOR b) = 0" by (simp add: crc_nibble_xor)
  then have "a XOR b = 0" by (rule crc_nibble_eq_0)
  then show "a = b" by (simp add: xor_eq_0_iff_eq)
qed simp

lemma crc_byte_inj [simp]: "crc_byte a = crc_byte b \<longleftrightarrow> a = b"
  by (simp add: crc_byte_def crc_nibble_inj)

lemma crc_loop_inj [simp]: "crc_loop a bs = crc_loop b bs \<longleftrightarrow> a = b"
proof (induction bs arbitrary: a b)
  case (Cons x bs)
  show ?case by (simp only: crc_loop_Cons Cons.IH crc_byte_inj xor_right_cancel)
qed simp

text \<open>Four bytes enter the state as one little-endian word, followed by four empty steps.\<close>

fun le_word :: "u8 list \<Rightarrow> u32" where
  "le_word [] = 0"
| "le_word (b # bs) = ucast b XOR push_bit 8 (le_word bs)"

lemma crc_byte_shift:
  assumes "\<And>i. 24 \<le> i \<Longrightarrow> \<not> bit y i"
  shows "crc_byte (push_bit 8 y) = y"
proof -
  have "crc_byte (push_bit 8 y) = drop_bit 8 (push_bit 8 y)"
    unfolding crc_byte_bitwise by (rule crc_bit_pow_drop) (simp add: bit_simps)
  also have "\<dots> = y"
    using assms by (intro bit_word_eqI) (auto simp: bit_simps not_le [symmetric])
  finally show ?thesis .
qed

lemma bit_ucast_u8: "8 \<le> i \<Longrightarrow> \<not> bit (ucast (b :: u8) :: u32) i"
  by (auto simp: bit_simps dest: bit_imp_le_length)

lemma le_word_bits: "8 * length bs \<le> i \<Longrightarrow> \<not> bit (le_word bs) i"
proof (induction bs arbitrary: i)
  case (Cons b bs)
  then have "\<not> bit (le_word bs) (i - 8)" by simp
  then show ?case using Cons.prems by (auto simp: bit_simps dest: bit_imp_le_length)
qed simp

lemma le_word_inj:
  "length xs = length ys \<Longrightarrow> length xs \<le> 4 \<Longrightarrow> le_word xs = le_word ys \<Longrightarrow> xs = ys"
proof (induction xs ys rule: list_induct2)
  case (Cons x xs y ys)
  have eq: "bit (ucast x XOR push_bit 8 (le_word xs)) i =
            bit (ucast y XOR push_bit 8 (le_word ys)) i" for i
    using Cons.prems by simp
  have "x = y"
  proof (rule bit_word_eqI)
    fix i assume "i < LENGTH(8)"
    then show "bit x i = bit y i" using eq [of i] by (simp add: bit_simps)
  qed
  moreover have "le_word xs = le_word ys"
  proof (rule bit_word_eqI)
    fix i assume i: "i < LENGTH(32)"
    show "bit (le_word xs) i = bit (le_word ys) i"
    proof (cases "i < 24")
      case True
      then show ?thesis using eq [of "i + 8"] \<open>x = y\<close> by (auto simp: bit_simps)
    next
      case False
      then show ?thesis
        using le_word_bits [of xs i] le_word_bits [of ys i] Cons.hyps Cons.prems by simp
    qed
  qed
  ultimately show ?case using Cons by simp
qed simp

lemma crc_loop_le_word:
  "length bs \<le> 4 \<Longrightarrow> crc_loop c bs = (crc_byte ^^ length bs) (c XOR le_word bs)"
proof (induction bs arbitrary: c)
  case (Cons b bs)
  have sh: "crc_byte (push_bit 8 (le_word bs)) = le_word bs"
    using Cons.prems by (intro crc_byte_shift) (simp add: le_word_bits)
  have "crc_loop c (b # bs) =
          (crc_byte ^^ length bs) (crc_byte (c XOR ucast b) XOR le_word bs)"
    using Cons by (simp only: crc_loop_Cons) simp
  also have "crc_byte (c XOR ucast b) XOR le_word bs =
               crc_byte ((c XOR ucast b) XOR push_bit 8 (le_word bs))"
    by (simp only: crc_byte_xor sh)
  finally show ?case by (simp add: funpow_swap1 xor.assoc)
qed simp

lemma crc_byte_pow_inj: "(crc_byte ^^ n) a = (crc_byte ^^ n) b \<longleftrightarrow> a = b"
  by (induction n) simp_all

lemma crc_loop_short_inj:
  assumes "length xs = length ys" "length xs \<le> 4" "crc_loop c xs = crc_loop c ys"
  shows "xs = ys"
proof -
  have "le_word xs = le_word ys"
    using assms by (simp add: crc_loop_le_word crc_byte_pow_inj xor_left_cancel)
  then show ?thesis using assms(1,2) by (intro le_word_inj)
qed

lemma svc_crc32_Some: "crc32 bs = crc_loop SVC_CRC32_INIT bs XOR 0xFFFFFFFF"
  by (simp add: svc_crc32_def svc_crc32_update_def svc_crc32_finish_def)

lemma svc_crc32_eq_iff: "crc32 xs = crc32 ys \<longleftrightarrow> crc_loop SVC_CRC32_INIT xs = crc_loop SVC_CRC32_INIT ys"
  by (simp only: svc_crc32_Some xor_right_cancel)

lemma crc32_burst_neq:
  assumes "length xs = length ys" and "length xs \<le> 4" and "xs \<noteq> ys"
  shows "crc32 (p @ xs @ s) \<noteq> crc32 (p @ ys @ s)"
proof
  assume "crc32 (p @ xs @ s) = crc32 (p @ ys @ s)"
  then have "crc_loop (crc_loop SVC_CRC32_INIT p) xs = crc_loop (crc_loop SVC_CRC32_INIT p) ys"
    by (simp add: svc_crc32_eq_iff crc_loop_append)
  with assms(1,2) have "xs = ys" by (rule crc_loop_short_inj)
  with assms(3) show False by simp
qed

subsection \<open>Properties\<close>

text \<open>The table-driven update computes, for every state and every message, the bitwise
  division by the reflected polynomial 0xEDB88320, so the optimisation to two lookups a byte
  changes no checksum, and feeding a message in two parts gives the checksum of the whole.\<close>

theorem svc_crc32_update_bitwise:
  "svc_crc32_update crc (Some (xs @ ys)) = crc_bitwise crc (xs @ ys) \<and>
   svc_crc32_update (svc_crc32_update crc (Some xs)) (Some ys) = svc_crc32_update crc (Some (xs @ ys))"
  by (simp add: svc_crc32_update_def crc_loop_append crc_loop_bitwise [symmetric])

text \<open>C17: a corruption confined to at most four consecutive bytes always changes the
  checksum, wherever in the message it lies: no such damage passes a frame, packet, stored
  record or configuration block check.\<close>

theorem svc_crc32_detects_burst:
  assumes "length xs = length ys" and "length xs \<le> 4" and "xs \<noteq> ys"
  shows "crc32 (p @ xs @ s) \<noteq> crc32 (p @ ys @ s)"
  using assms by (rule crc32_burst_neq)

theorem svc_crc32_detects_burst_witness:
  "crc32 ([1] @ [0x31, 0x32] @ [7, 9]) \<noteq> crc32 ([1] @ [0x31, 0x33] @ [7, 9])"
  by (rule svc_crc32_detects_burst) simp_all

text \<open>The published check value of the standard, over the digits one to nine.\<close>

lemma svc_crc32_check_value:
  "crc32 [0x31, 0x32, 0x33, 0x34, 0x35, 0x36, 0x37, 0x38, 0x39] = 0xCBF43926"
  by (simp add: svc_crc32_Some SVC_CRC32_INIT_def crc_nibble_def k_nibble_def)

end
