(* ===== verification/Svc_Config.thy ===== *)
theory Svc_Config
  imports Svc_Fdir Svc_Crc
begin

section \<open>Configuration and calibration: \<^verbatim>\<open>src/svc/svc_config.c\<close>\<close>

text \<open>
  The parameter block with its limits, its checksum and its non-volatile image, and the ground
  calibration. A signed 32-bit value is a word read by \<^term>\<open>sint\<close>; the image and the
  calibration are structures of 32-bit fields without padding, kept in storage as the
  little-endian bytes of their words. The storage functions are registered from outside: the
  environment \<open>E\<close> says what they do, a read returning the bytes it stored at the destination.
\<close>

datatype svc_config_param =
  CFG_LASER_TEC_SETPOINT_MDEGC | CFG_LASER_TEC_BAND_MDEGC | CFG_LASER_TEC_NOMINAL_MS |
  CFG_LASER_TEC_TIMEOUT_MS | CFG_LASER_BIAS_TARGET_UA | CFG_LASER_BIAS_RAMP_UA_PER_MS |
  CFG_LASER_LI_TOLERANCE_PCT | CFG_MRR_BUDGET_MS | CFG_CROW_BUDGET_MS |
  CFG_CROW_PUMP_BUDGET_NW | CFG_UMZI_BUDGET_MS | CFG_DLI_STABLE_BAND_UK |
  CFG_DLI_SETTLE_NOMINAL_MS | CFG_DLI_SETTLE_MAX_MS | CFG_DLI_PHASE_LOCK_MS |
  CFG_DLI_BUDGET_MS | CFG_DLI_LOCK_RMS_MRAD | CFG_DLI_LOCK_RMS_STRICT_MRAD |
  CFG_DLI_SERVO_BW_HZ | CFG_SPAD_BUDGET_MS | CFG_SPAD_DARK_CHECK_MS |
  CFG_SPAD_DARK_ABORT_RATIO | CFG_SPAD_DARK_LOG_RATIO | CFG_PVS_T1_BUDGET_MS |
  CFG_PVS_T2_BUDGET_MS | CFG_PVS_SWEEP_POINTS | CFG_PVS_SWEEP_SETTLE_MS |
  CFG_PVS_INTEGRATION_MS | CFG_HK_PERIOD_MS | CFG_SPW_START_TIMEOUT_MS | SVC_CONFIG_PARAM_COUNT

definition config_params :: "svc_config_param list" where
  "config_params =
   [CFG_LASER_TEC_SETPOINT_MDEGC, CFG_LASER_TEC_BAND_MDEGC, CFG_LASER_TEC_NOMINAL_MS,
   CFG_LASER_TEC_TIMEOUT_MS, CFG_LASER_BIAS_TARGET_UA, CFG_LASER_BIAS_RAMP_UA_PER_MS,
   CFG_LASER_LI_TOLERANCE_PCT, CFG_MRR_BUDGET_MS, CFG_CROW_BUDGET_MS, CFG_CROW_PUMP_BUDGET_NW,
   CFG_UMZI_BUDGET_MS, CFG_DLI_STABLE_BAND_UK, CFG_DLI_SETTLE_NOMINAL_MS,
   CFG_DLI_SETTLE_MAX_MS, CFG_DLI_PHASE_LOCK_MS, CFG_DLI_BUDGET_MS, CFG_DLI_LOCK_RMS_MRAD,
   CFG_DLI_LOCK_RMS_STRICT_MRAD, CFG_DLI_SERVO_BW_HZ, CFG_SPAD_BUDGET_MS,
   CFG_SPAD_DARK_CHECK_MS, CFG_SPAD_DARK_ABORT_RATIO, CFG_SPAD_DARK_LOG_RATIO,
   CFG_PVS_T1_BUDGET_MS, CFG_PVS_T2_BUDGET_MS, CFG_PVS_SWEEP_POINTS, CFG_PVS_SWEEP_SETTLE_MS,
   CFG_PVS_INTEGRATION_MS, CFG_HK_PERIOD_MS, CFG_SPW_START_TIMEOUT_MS]"

definition param_idx :: "svc_config_param \<Rightarrow> nat" where
  "param_idx p = length (takeWhile (\<lambda>q. q \<noteq> p) config_params)"

record svc_config_def =
  cd_min :: int
  cd_max :: int
  cd_def :: int
  cd_writable_in_flight :: bool

definition config_def :: "int \<Rightarrow> int \<Rightarrow> int \<Rightarrow> bool \<Rightarrow> svc_config_def" where
  "config_def lo hi d wr = \<lparr>cd_min = lo, cd_max = hi, cd_def = d, cd_writable_in_flight = wr\<rparr>"

text \<open>The table has no entry for \<^term>\<open>SVC_CONFIG_PARAM_COUNT\<close>.\<close>

fun k_def :: "svc_config_param \<Rightarrow> svc_config_def" where
  "k_def CFG_LASER_TEC_SETPOINT_MDEGC = config_def 0 50000 27000 True"
| "k_def CFG_LASER_TEC_BAND_MDEGC = config_def 1 1000 100 True"
| "k_def CFG_LASER_TEC_NOMINAL_MS = config_def 1000 120000 15000 False"
| "k_def CFG_LASER_TEC_TIMEOUT_MS = config_def 1000 120000 30000 False"
| "k_def CFG_LASER_BIAS_TARGET_UA = config_def 55000 60000 57500 True"
| "k_def CFG_LASER_BIAS_RAMP_UA_PER_MS = config_def 1 1000 1000 True"
| "k_def CFG_LASER_LI_TOLERANCE_PCT = config_def 1 50 30 True"
| "k_def CFG_MRR_BUDGET_MS = config_def 1000 120000 10000 False"
| "k_def CFG_CROW_BUDGET_MS = config_def 1000 120000 20000 False"
| "k_def CFG_CROW_PUMP_BUDGET_NW = config_def 1 10000 1000 True"
| "k_def CFG_UMZI_BUDGET_MS = config_def 1000 120000 10000 False"
| "k_def CFG_DLI_STABLE_BAND_UK = config_def 1 10000 1500 True"
| "k_def CFG_DLI_SETTLE_NOMINAL_MS = config_def 1000 240000 30000 False"
| "k_def CFG_DLI_SETTLE_MAX_MS = config_def 1000 240000 60000 False"
| "k_def CFG_DLI_PHASE_LOCK_MS = config_def 1000 120000 10000 False"
| "k_def CFG_DLI_BUDGET_MS = config_def 1000 240000 80000 False"
| "k_def CFG_DLI_LOCK_RMS_MRAD = config_def 1 1000 140 True"
| "k_def CFG_DLI_LOCK_RMS_STRICT_MRAD = config_def 1 1000 100 True"
| "k_def CFG_DLI_SERVO_BW_HZ = config_def 300 500 400 True"
| "k_def CFG_SPAD_BUDGET_MS = config_def 1000 120000 5000 False"
| "k_def CFG_SPAD_DARK_CHECK_MS = config_def 100 10000 2000 False"
| "k_def CFG_SPAD_DARK_ABORT_RATIO = config_def 2 100 10 True"
| "k_def CFG_SPAD_DARK_LOG_RATIO = config_def 2 10 2 True"
| "k_def CFG_PVS_T1_BUDGET_MS = config_def 1000 60000 10000 False"
| "k_def CFG_PVS_T2_BUDGET_MS = config_def 1000 300000 120000 False"
| "k_def CFG_PVS_SWEEP_POINTS = config_def 15 128 15 True"
| "k_def CFG_PVS_SWEEP_SETTLE_MS = config_def 1 10 2 True"
| "k_def CFG_PVS_INTEGRATION_MS = config_def 1000 10000 5000 True"
| "k_def CFG_HK_PERIOD_MS = config_def 100 10000 1000 True"
| "k_def CFG_SPW_START_TIMEOUT_MS = config_def 100 10000 1000 True"
| "k_def SVC_CONFIG_PARAM_COUNT = config_def 0 0 0 False"

record config_image =
  im_magic :: u32
  im_version :: u32
  im_count :: u32
  im_reserved :: u32
  im_value :: "i32 list"
  im_crc :: u32

record svc_cal_li_point =
  li_current_ua :: u32
  li_power_nw :: u32

record svc_calibration =
  ca_magic :: u32
  ca_version :: u32
  ca_li_count :: u32
  ca_reserved :: u32
  ca_li :: "svc_cal_li_point list"
  ca_dli_setpoint_uk :: "i32 list"
  ca_branch_efficiency_ppm :: "u32 list"
  ca_dark_count_baseline_cps :: "u32 list"
  ca_spectral_bandwidth_pm :: u32
  ca_pvs_amplitude :: u32
  ca_pvs_linewidth_khz :: u32
  ca_pvs_noise_floor :: u32
  ca_crc :: u32

definition CONFIG_MAGIC :: u32 where "CONFIG_MAGIC = 0x51434647"
definition CAL_MAGIC :: u32 where "CAL_MAGIC = 0x51434C42"
definition CONFIG_VERSION :: u32 where "CONFIG_VERSION = 1"
definition CAL_VERSION :: u32 where "CAL_VERSION = 1"
definition SVC_CONFIG_OFFSET_PARAMS :: u32 where "SVC_CONFIG_OFFSET_PARAMS = 0"
definition SVC_CONFIG_OFFSET_CAL :: u32 where "SVC_CONFIG_OFFSET_CAL = 512"
definition SVC_CAL_LI_POINTS :: u32 where "SVC_CAL_LI_POINTS = 16"

subsection \<open>Structures in memory\<close>

definition le_bytes :: "u32 \<Rightarrow> u8 list" where
  "le_bytes w = [ucast w, ucast (drop_bit 8 w), ucast (drop_bit 16 w), ucast (drop_bit 24 w)]"

definition word_bytes :: "u32 list \<Rightarrow> u8 list" where
  "word_bytes ws = concat (map le_bytes ws)"

fun bytes_words :: "u8 list \<Rightarrow> u32 list" where
  "bytes_words (a # b # c # d # bs) =
     (ucast a OR push_bit 8 (ucast b) OR push_bit 16 (ucast c) OR push_bit 24 (ucast d)) # bytes_words bs"
| "bytes_words _ = []"

definition image_words :: "config_image \<Rightarrow> u32 list" where
  "image_words im = [im_magic im, im_version im, im_count im, im_reserved im] @ im_value im @ [im_crc im]"

definition words_image :: "u32 list \<Rightarrow> config_image" where
  "words_image ws = \<lparr>im_magic = ws ! 0, im_version = ws ! 1, im_count = ws ! 2, im_reserved = ws ! 3,
     im_value = take 30 (drop 4 ws), im_crc = ws ! 34\<rparr>"

definition cal_words :: "svc_calibration \<Rightarrow> u32 list" where
  "cal_words c = [ca_magic c, ca_version c, ca_li_count c, ca_reserved c] @
     concat (map (\<lambda>p. [li_current_ua p, li_power_nw p]) (ca_li c)) @
     ca_dli_setpoint_uk c @ ca_branch_efficiency_ppm c @ ca_dark_count_baseline_cps c @
     [ca_spectral_bandwidth_pm c, ca_pvs_amplitude c, ca_pvs_linewidth_khz c, ca_pvs_noise_floor c, ca_crc c]"

fun words_points :: "u32 list \<Rightarrow> svc_cal_li_point list" where
  "words_points (a # b # ws) = \<lparr>li_current_ua = a, li_power_nw = b\<rparr> # words_points ws"
| "words_points _ = []"

definition words_cal :: "u32 list \<Rightarrow> svc_calibration" where
  "words_cal ws = \<lparr>ca_magic = ws ! 0, ca_version = ws ! 1, ca_li_count = ws ! 2, ca_reserved = ws ! 3,
     ca_li = words_points (take 32 (drop 4 ws)), ca_dli_setpoint_uk = take 2 (drop 36 ws),
     ca_branch_efficiency_ppm = take 2 (drop 38 ws), ca_dark_count_baseline_cps = take 2 (drop 40 ws),
     ca_spectral_bandwidth_pm = ws ! 42, ca_pvs_amplitude = ws ! 43, ca_pvs_linewidth_khz = ws ! 44,
     ca_pvs_noise_floor = ws ! 45, ca_crc = ws ! 46\<rparr>"

definition sizeof_image :: u32 where "sizeof_image = 140"
definition sizeof_cal :: u32 where "sizeof_cal = 188"

text \<open>The checksum of a structure: over all its bytes but the last field's.\<close>

definition struct_crc :: "u32 list \<Rightarrow> u32" where
  "struct_crc ws = svc_crc32 (Some (word_bytes (butlast ws)))"

subsection \<open>State\<close>

record svc_config_storage =
  cs_read :: "handle option"
  cs_write :: "handle option"

record config_state =
  cf_value :: "svc_config_param \<Rightarrow> i32"
  cf_live_crc :: u32
  cf_locked :: bool
  cf_storage :: svc_config_storage
  cf_storage_set :: bool
  cf_cal :: svc_calibration
  cf_cal_valid :: bool
  cf_changes :: u32
  cf_rejections :: u32
  cf_corrections :: u32

record config_world = fdir_world +
  w_config :: config_state

record 'w config_env =
  ce_read :: "handle \<Rightarrow> u32 \<Rightarrow> u32 \<Rightarrow> 'w \<Rightarrow> qiran_status \<times> u8 list \<times> 'w"
  ce_write :: "handle \<Rightarrow> u32 \<Rightarrow> u8 list \<Rightarrow> 'w \<Rightarrow> qiran_status \<times> 'w"

subsection \<open>Operations\<close>

definition live_crc :: "config_state \<Rightarrow> u32" where
  "live_crc s = svc_crc32 (Some (word_bytes (map (cf_value s) config_params)))"

definition in_range :: "svc_config_param \<Rightarrow> i32 \<Rightarrow> bool" where
  "in_range p v \<longleftrightarrow> cd_min (k_def p) \<le> sint v \<and> sint v \<le> cd_max (k_def p)"

definition load_defaults :: "config_state \<Rightarrow> config_state" where
  "load_defaults s =
    (let s = s\<lparr>cf_value := fold (\<lambda>p f. f(p := word_of_int (cd_def (k_def p)))) config_params (cf_value s)\<rparr>
     in s\<lparr>cf_live_crc := live_crc s\<rparr>)"

definition cal_zero :: svc_calibration where
  "cal_zero = words_cal (replicate 47 0)"

definition svc_config_init :: "'a config_world_scheme \<Rightarrow> 'a config_world_scheme" where
  "svc_config_init w =
    w\<lparr>w_config := (load_defaults (w_config w))
      \<lparr>cf_locked := False, cf_storage_set := False, cf_storage := \<lparr>cs_read = None, cs_write = None\<rparr>,
       cf_cal_valid := False, cf_changes := 0, cf_rejections := 0, cf_corrections := 0,
       cf_cal := cal_zero\<rparr>\<rparr>"

definition svc_config_set_storage ::
  "svc_config_storage option \<Rightarrow> 'a config_world_scheme \<Rightarrow> qiran_status \<times> 'a config_world_scheme" where
  "svc_config_set_storage st w =
    (case st of
       None \<Rightarrow> (QIRAN_OK, w\<lparr>w_config := (w_config w)
         \<lparr>cf_storage_set := False, cf_storage := \<lparr>cs_read = None, cs_write = None\<rparr>\<rparr>\<rparr>)
     | Some st \<Rightarrow>
         if cs_read st = None \<or> cs_write st = None then (QIRAN_ERR_PARAM, w)
         else (QIRAN_OK, w\<lparr>w_config := (w_config w)\<lparr>cf_storage := st, cf_storage_set := True\<rparr>\<rparr>))"

definition svc_config_get :: "svc_config_param \<Rightarrow> 'a config_world_scheme \<Rightarrow> i32" where
  "svc_config_get p w = (if p = SVC_CONFIG_PARAM_COUNT then 0 else cf_value (w_config w) p)"

definition svc_config_def_get :: "svc_config_param \<Rightarrow> svc_config_def option" where
  "svc_config_def_get p = (if p = SVC_CONFIG_PARAM_COUNT then None else Some (k_def p))"

definition svc_config_set ::
  "svc_config_param \<Rightarrow> i32 \<Rightarrow> 'a config_world_scheme \<Rightarrow> qiran_status \<times> 'a config_world_scheme" where
  "svc_config_set p v w =
    (if p = SVC_CONFIG_PARAM_COUNT then (QIRAN_ERR_PARAM, w)
     else if \<not> in_range p v
     then (QIRAN_ERR_RANGE, svc_fdir_report QIRAN_FAULT_CONFIG (of_nat (param_idx p))
            (w\<lparr>w_config := (w_config w)\<lparr>cf_rejections := cf_rejections (w_config w) + 1\<rparr>\<rparr>))
     else if cf_locked (w_config w) \<and> \<not> cd_writable_in_flight (k_def p)
     then (QIRAN_ERR_STATE,
            w\<lparr>w_config := (w_config w)\<lparr>cf_rejections := cf_rejections (w_config w) + 1\<rparr>\<rparr>)
     else (let s = w_config w; s = s\<lparr>cf_value := (cf_value s)(p := v)\<rparr>;
               s = s\<lparr>cf_live_crc := live_crc s\<rparr>; s = s\<lparr>cf_changes := cf_changes s + 1\<rparr>
           in (QIRAN_OK, svc_log_event (of_nat (param_idx p)) v (w\<lparr>w_config := s\<rparr>))))"

definition svc_config_lock :: "'a config_world_scheme \<Rightarrow> 'a config_world_scheme" where
  "svc_config_lock w = w\<lparr>w_config := (w_config w)\<lparr>cf_locked := True\<rparr>\<rparr>"

definition svc_config_unlock :: "'a config_world_scheme \<Rightarrow> 'a config_world_scheme" where
  "svc_config_unlock w = w\<lparr>w_config := (w_config w)\<lparr>cf_locked := False\<rparr>\<rparr>"

definition svc_config_locked :: "'a config_world_scheme \<Rightarrow> bool" where
  "svc_config_locked w = cf_locked (w_config w)"

text \<open>One value of a stored block: taken, or replaced by its default and reported.\<close>

definition take_param ::
  "config_image \<Rightarrow> nat \<Rightarrow> u32 \<times> 'a config_world_scheme \<Rightarrow> u32 \<times> 'a config_world_scheme" where
  "take_param im i = (\<lambda>(corrected, w).
    (let p = config_params ! i; v = im_value im ! i; s = w_config w
     in if in_range p v then (corrected, w\<lparr>w_config := s\<lparr>cf_value := (cf_value s)(p := v)\<rparr>\<rparr>)
        else (corrected + 1, svc_fdir_report QIRAN_FAULT_CONFIG (of_nat i)
          (w\<lparr>w_config := s\<lparr>cf_value := (cf_value s)(p := word_of_int (cd_def (k_def p))),
             cf_corrections := cf_corrections s + 1\<rparr>\<rparr>))))"

definition read_params ::
  "'a config_world_scheme config_env \<Rightarrow> 'a config_world_scheme \<Rightarrow> qiran_status \<times> 'a config_world_scheme" where
  "read_params E w =
    (let (st, bs, w) = ce_read E (the (cs_read (cf_storage (w_config w)))) SVC_CONFIG_OFFSET_PARAMS sizeof_image w;
         ws = bytes_words bs; im = words_image ws
     in if st \<noteq> QIRAN_OK then (QIRAN_ERR_HARDWARE, w)
        else if im_magic im \<noteq> CONFIG_MAGIC \<or> im_version im \<noteq> CONFIG_VERSION then (QIRAN_ERR_INTEGRITY, w)
        else if struct_crc ws \<noteq> im_crc im then (QIRAN_ERR_INTEGRITY, w)
        else (let n = (if im_count im < of_nat (length config_params) then unat (im_count im)
                       else length config_params);
                  (corrected, w) = fold (take_param im) [0..<n] (0, w);
                  w = w\<lparr>w_config := (w_config w)\<lparr>cf_live_crc := live_crc (w_config w)\<rparr>\<rparr>
              in (if corrected = 0 then QIRAN_OK else QIRAN_ERR_RANGE, w)))"

definition read_calibration ::
  "'a config_world_scheme config_env \<Rightarrow> 'a config_world_scheme \<Rightarrow> qiran_status \<times> 'a config_world_scheme" where
  "read_calibration E w =
    (let (st, bs, w) = ce_read E (the (cs_read (cf_storage (w_config w)))) SVC_CONFIG_OFFSET_CAL sizeof_cal w;
         ws = bytes_words bs; cal = words_cal ws
     in if st \<noteq> QIRAN_OK then (QIRAN_ERR_HARDWARE, w)
        else if ca_magic cal \<noteq> CAL_MAGIC \<or> ca_version cal \<noteq> CAL_VERSION then (QIRAN_ERR_INTEGRITY, w)
        else if struct_crc ws \<noteq> ca_crc cal then (QIRAN_ERR_INTEGRITY, w)
        else if SVC_CAL_LI_POINTS < ca_li_count cal then (QIRAN_ERR_INTEGRITY, w)
        else (QIRAN_OK, w\<lparr>w_config := (w_config w)\<lparr>cf_cal := cal, cf_cal_valid := True\<rparr>\<rparr>))"

definition svc_config_load ::
  "'a config_world_scheme config_env \<Rightarrow> 'a config_world_scheme \<Rightarrow> qiran_status \<times> 'a config_world_scheme" where
  "svc_config_load E w =
    (if \<not> cf_storage_set (w_config w)
     then (QIRAN_ERR_UNSUPPORTED, svc_fdir_report QIRAN_FAULT_CONFIG 0 w)
     else (let (params, w) = read_params E w;
               (params, w) =
                 (if params \<noteq> QIRAN_OK \<and> params \<noteq> QIRAN_ERR_RANGE
                  then (QIRAN_ERR_INTEGRITY, svc_fdir_report QIRAN_FAULT_CONFIG 0
                         (w\<lparr>w_config := load_defaults (w_config w)\<rparr>))
                  else (params, w));
               (cal, w) = read_calibration E w;
               w = (if cal \<noteq> QIRAN_OK
                    then svc_fdir_report QIRAN_FAULT_CONFIG 1
                           (w\<lparr>w_config := (w_config w)\<lparr>cf_cal_valid := False\<rparr>\<rparr>)
                    else w)
           in (params, w)))"

definition image_of :: "config_state \<Rightarrow> config_image" where
  "image_of s =
    (let im = \<lparr>im_magic = CONFIG_MAGIC, im_version = CONFIG_VERSION,
               im_count = of_nat (length config_params), im_reserved = 0,
               im_value = map (cf_value s) config_params, im_crc = 0\<rparr>
     in im\<lparr>im_crc := struct_crc (image_words im)\<rparr>)"

definition svc_config_save ::
  "'a config_world_scheme config_env \<Rightarrow> 'a config_world_scheme \<Rightarrow> qiran_status \<times> 'a config_world_scheme" where
  "svc_config_save E w =
    (if \<not> cf_storage_set (w_config w) then (QIRAN_ERR_UNSUPPORTED, w)
     else ce_write E (the (cs_write (cf_storage (w_config w)))) SVC_CONFIG_OFFSET_PARAMS
            (word_bytes (image_words (image_of (w_config w)))) w)"

definition svc_config_verify ::
  "'a config_world_scheme config_env \<Rightarrow> 'a config_world_scheme \<Rightarrow> qiran_status \<times> 'a config_world_scheme" where
  "svc_config_verify E w =
    (let s = w_config w;
         crc_bad = (live_crc s \<noteq> cf_live_crc s);
         out_of_range = length (filter (\<lambda>p. \<not> in_range p (cf_value s p)) config_params)
     in if \<not> crc_bad \<and> out_of_range = 0 then (QIRAN_OK, w)
        else (let w = svc_fdir_report QIRAN_FAULT_CONFIG (of_nat out_of_range)
                        (w\<lparr>w_config := s\<lparr>cf_corrections := cf_corrections s + 1\<rparr>\<rparr>);
                  (restored, w) =
                    (if cf_storage_set (w_config w)
                     then (let (st, w) = read_params E w in (st = QIRAN_OK, w)) else (False, w))
              in if restored then (QIRAN_ERR_INTEGRITY, w)
                 else (QIRAN_ERR_INTEGRITY, w\<lparr>w_config := load_defaults (w_config w)\<rparr>)))"

definition svc_config_calibration :: "'a config_world_scheme \<Rightarrow> svc_calibration option" where
  "svc_config_calibration w = (if cf_cal_valid (w_config w) then Some (cf_cal (w_config w)) else None)"

definition svc_config_calibration_set ::
  "'a config_world_scheme config_env \<Rightarrow> svc_calibration option \<Rightarrow> 'a config_world_scheme \<Rightarrow>
   qiran_status \<times> 'a config_world_scheme" where
  "svc_config_calibration_set E cal w =
    (case cal of
       None \<Rightarrow> (QIRAN_ERR_PARAM, w)
     | Some cal \<Rightarrow>
         if SVC_CAL_LI_POINTS < ca_li_count cal then (QIRAN_ERR_RANGE, w)
         else (let updated = cal\<lparr>ca_magic := CAL_MAGIC, ca_version := CAL_VERSION\<rparr>;
                   updated = updated\<lparr>ca_crc := struct_crc (cal_words updated)\<rparr>;
                   w = w\<lparr>w_config := (w_config w)\<lparr>cf_cal := updated, cf_cal_valid := True,
                         cf_changes := cf_changes (w_config w) + 1\<rparr>\<rparr>
               in if cf_storage_set (w_config w)
                  then ce_write E (the (cs_write (cf_storage (w_config w)))) SVC_CONFIG_OFFSET_CAL
                         (word_bytes (cal_words (cf_cal (w_config w)))) w
                  else (QIRAN_OK, w)))"

text \<open>The scan for the bracketing points, from index \<open>i\<close> on.\<close>

fun li_scan :: "u32 \<Rightarrow> svc_cal_li_point list \<Rightarrow> qiran_status \<times> u32 option" where
  "li_scan current (lo # hi # ps) =
     (if li_current_ua hi < current then li_scan current (hi # ps)
      else (let span = li_current_ua hi - li_current_ua lo
            in if span = 0 then (QIRAN_OK, Some (li_power_nw lo))
               else (let rise = ucast (li_power_nw hi - li_power_nw lo) :: u64;
                         run = ucast (current - li_current_ua lo) :: u64
                     in (QIRAN_OK, Some (li_power_nw lo + ucast ((rise * run) div ucast span))))))"
| "li_scan current _ = (QIRAN_ERR_RANGE, None)"

text \<open>\<open>out\<close> says whether the caller gave a result pointer; the power is written on success only.\<close>

definition svc_config_li_expected_nw ::
  "bool \<Rightarrow> u32 \<Rightarrow> 'a config_world_scheme \<Rightarrow> qiran_status \<times> u32 option" where
  "svc_config_li_expected_nw out current w =
    (let cal = cf_cal (w_config w); li = ca_li cal; n = unat (ca_li_count cal)
     in if \<not> out then (QIRAN_ERR_PARAM, None)
        else if \<not> cf_cal_valid (w_config w) \<or> ca_li_count cal < 2 then (QIRAN_ERR_UNSUPPORTED, None)
        else if current < li_current_ua (li ! 0) \<or> li_current_ua (li ! (n - 1)) < current
        then (QIRAN_ERR_RANGE, None)
        else li_scan current (take n li))"

definition svc_config_changes :: "'a config_world_scheme \<Rightarrow> u32" where
  "svc_config_changes w = cf_changes (w_config w)"

definition svc_config_rejections :: "'a config_world_scheme \<Rightarrow> u32" where
  "svc_config_rejections w = cf_rejections (w_config w)"

definition svc_config_corrections :: "'a config_world_scheme \<Rightarrow> u32" where
  "svc_config_corrections w = cf_corrections (w_config w)"

definition svc_config_calibration_valid :: "'a config_world_scheme \<Rightarrow> bool" where
  "svc_config_calibration_valid w = cf_cal_valid (w_config w)"

subsection \<open>The image of a structure\<close>

lemma le_bytes_word:
  "ucast (ucast w :: u8) OR push_bit 8 (ucast (ucast (drop_bit 8 w) :: u8)) OR
   push_bit 16 (ucast (ucast (drop_bit 16 w) :: u8)) OR
   push_bit 24 (ucast (ucast (drop_bit 24 w) :: u8)) = (w :: u32)"
proof (rule bit_word_eqI)
  fix n assume "n < LENGTH(32)"
  then have n: "n < 32" by simp
  consider "n < 8" | "8 \<le> n" "n < 16" | "16 \<le> n" "n < 24" | "24 \<le> n" by linarith
  then show "bit (ucast (ucast w :: u8) OR push_bit 8 (ucast (ucast (drop_bit 8 w) :: u8)) OR
      push_bit 16 (ucast (ucast (drop_bit 16 w) :: u8)) OR
      push_bit 24 (ucast (ucast (drop_bit 24 w) :: u8)) :: u32) n = bit w n"
    using n by cases (simp_all add: bit_simps less_diff_conv2 not_less)
qed

lemma bytes_word_bytes [simp]: "bytes_words (word_bytes ws) = ws"
  by (induction ws) (simp_all add: word_bytes_def le_bytes_def le_bytes_word)

lemma length_word_bytes [simp]: "length (word_bytes ws) = 4 * length ws"
  by (induction ws) (simp_all add: word_bytes_def le_bytes_def)

lemma config_params_facts:
  "length config_params = 30" "distinct config_params"
  "p \<in> set config_params \<longleftrightarrow> p \<noteq> SVC_CONFIG_PARAM_COUNT"
  by (simp_all add: config_params_def, cases p, simp_all)

lemma words_image_words:
  "length (im_value im) = 30 \<Longrightarrow> words_image (image_words im) = im"
  by (cases im) (simp add: words_image_def image_words_def nth_append)

subsection \<open>The invariant of the parameter block\<close>

definition config_ok :: "config_state \<Rightarrow> bool" where
  "config_ok s \<longleftrightarrow>
    (\<forall>p. p \<noteq> SVC_CONFIG_PARAM_COUNT \<longrightarrow> in_range p (cf_value s p)) \<and> cf_live_crc s = live_crc s"

lemma k_def_ok: "p \<noteq> SVC_CONFIG_PARAM_COUNT \<Longrightarrow>
    cd_min (k_def p) \<le> cd_def (k_def p) \<and> cd_def (k_def p) \<le> cd_max (k_def p) \<and>
    0 \<le> cd_min (k_def p) \<and> cd_max (k_def p) < 2 ^ 31"
  by (cases p) (simp_all add: config_def_def)

lemma in_range_default: "p \<noteq> SVC_CONFIG_PARAM_COUNT \<Longrightarrow> in_range p (word_of_int (cd_def (k_def p)))"
  using k_def_ok [of p] by (simp add: in_range_def signed_of_int signed_take_bit_int_eq_self)

lemma fold_upd: "fold (\<lambda>p f. f(p := g p)) ps f p = (if p \<in> set ps then g p else f p)"
  by (induction ps arbitrary: f) auto

lemma load_defaults_value:
  "p \<noteq> SVC_CONFIG_PARAM_COUNT \<Longrightarrow> cf_value (load_defaults s) p = word_of_int (cd_def (k_def p))"
  by (simp add: load_defaults_def Let_def fold_upd config_params_facts)

lemma live_crc_same: "cf_value s = cf_value t \<Longrightarrow> live_crc s = live_crc t"
  by (simp add: live_crc_def)

lemma load_defaults_ok: "config_ok (load_defaults s)"
  using load_defaults_value [of _ s] in_range_default
  by (auto simp: config_ok_def) (simp add: load_defaults_def Let_def live_crc_def)

lemma config_ok_fields [simp]:
  "config_ok (s\<lparr>cf_locked := b\<rparr>) = config_ok s" "config_ok (s\<lparr>cf_rejections := n\<rparr>) = config_ok s"
  "config_ok (s\<lparr>cf_changes := n\<rparr>) = config_ok s" "config_ok (s\<lparr>cf_cal := c\<rparr>) = config_ok s"
  "config_ok (s\<lparr>cf_cal_valid := b\<rparr>) = config_ok s" "config_ok (s\<lparr>cf_storage_set := b\<rparr>) = config_ok s"
  "config_ok (s\<lparr>cf_storage := st\<rparr>) = config_ok s" "config_ok (s\<lparr>cf_corrections := n\<rparr>) = config_ok s"
  by (simp_all add: config_ok_def live_crc_def)

lemma report_config [simp]: "w_config (svc_fdir_report f d w) = w_config w"
  by (simp add: svc_fdir_report_eq)

lemma log_event_config [simp]: "w_config (svc_log_event c d w) = w_config w"
  by (simp add: svc_log_eqs)

lemma init_ok: "config_ok (w_config (svc_config_init w))"
  using load_defaults_ok [of "w_config w"] by (simp add: svc_config_init_def)

lemma set_ok: "config_ok (w_config w) \<Longrightarrow> config_ok (w_config (snd (svc_config_set p v w)))"
  by (auto simp: svc_config_set_def Let_def config_ok_def live_crc_def)

text \<open>What reading a stored block does to the values.\<close>

lemma take_params_value:
  assumes "n \<le> 30"
  shows "cf_value (w_config (snd (fold (take_param im) [0..<n] (c, w)))) p =
      (if p \<in> set (take n config_params)
       then (let v = im_value im ! param_idx p in if in_range p v then v else word_of_int (cd_def (k_def p)))
       else cf_value (w_config w) p)"
    and "cf_storage_set (w_config (snd (fold (take_param im) [0..<n] (c, w)))) = cf_storage_set (w_config w)"
    and "fst (fold (take_param im) [0..<n] (c, w)) =
      c + of_nat (length (filter (\<lambda>i. \<not> in_range (config_params ! i) (im_value im ! i)) [0..<n]))"
proof -
  have idx: "param_idx (config_params ! i) = i" if "i < 30" for i
    using that by (simp add: param_idx_def takeWhile_neq_nth config_params_facts)
  have "cf_value (w_config (snd (fold (take_param im) [0..<n] (c, w)))) p =
      (if p \<in> set (take n config_params)
       then (let v = im_value im ! param_idx p in if in_range p v then v else word_of_int (cd_def (k_def p)))
       else cf_value (w_config w) p) \<and>
    cf_storage_set (w_config (snd (fold (take_param im) [0..<n] (c, w)))) = cf_storage_set (w_config w) \<and>
    fst (fold (take_param im) [0..<n] (c, w)) =
      c + of_nat (length (filter (\<lambda>i. \<not> in_range (config_params ! i) (im_value im ! i)) [0..<n]))"
    using assms
  proof (induction n)
    case (Suc n)
    obtain c1 w1 where f: "fold (take_param im) [0..<n] (c, w) = (c1, w1)" by fastforce
    have step: "fold (take_param im) [0..<Suc n] (c, w) = take_param im n (c1, w1)" by (simp add: f)
    have t: "take (Suc n) config_params = take n config_params @ [config_params ! n]"
      using Suc.prems by (simp add: take_Suc_conv_app_nth config_params_facts)
    show ?case
      using Suc.IH Suc.prems idx [of n] unfolding step f t
      by (auto simp: take_param_def Let_def)
  qed simp
  then show "cf_value (w_config (snd (fold (take_param im) [0..<n] (c, w)))) p =
      (if p \<in> set (take n config_params)
       then (let v = im_value im ! param_idx p in if in_range p v then v else word_of_int (cd_def (k_def p)))
       else cf_value (w_config w) p)"
    and "cf_storage_set (w_config (snd (fold (take_param im) [0..<n] (c, w)))) = cf_storage_set (w_config w)"
    and "fst (fold (take_param im) [0..<n] (c, w)) =
      c + of_nat (length (filter (\<lambda>i. \<not> in_range (config_params ! i) (im_value im ! i)) [0..<n]))"
    by blast+
qed

subsection \<open>Properties\<close>

text \<open>What the component relies on from the storage: a block written is the block read back from
  its offset, and reading leaves the software's state alone. \<open>med\<close> is the medium.\<close>

definition storage_ok ::
  "'a config_world_scheme config_env \<Rightarrow> svc_config_storage \<Rightarrow>
   ('a config_world_scheme \<Rightarrow> u32 \<Rightarrow> u8 list option) \<Rightarrow> bool" where
  "storage_ok E st med \<longleftrightarrow>
    (\<forall>off bs w w1. ce_write E (the (cs_write st)) off bs w = (QIRAN_OK, w1) \<longrightarrow>
       med w1 = (med w)(off \<mapsto> bs) \<and> w_config w1 = w_config w) \<and>
    (\<forall>off n w bs. med w off = Some bs \<and> length bs = unat n \<longrightarrow>
       ce_read E (the (cs_read st)) off n w = (QIRAN_OK, bs, w)) \<and>
    (\<forall>off n w. w_config (snd (snd (ce_read E (the (cs_read st)) off n w))) = w_config w)"

lemma image_of_fields:
  "words_image (image_words (image_of s)) = image_of s"
  "im_magic (image_of s) = CONFIG_MAGIC" "im_version (image_of s) = CONFIG_VERSION"
  "im_count (image_of s) = 30" "im_value (image_of s) = map (cf_value s) config_params"
  "im_crc (image_of s) = struct_crc (image_words (image_of s))"
  "length (image_words (image_of s)) = 35"
  by (rule words_image_words, simp_all add: image_of_def Let_def config_params_facts struct_crc_def
      image_words_def butlast_append)

lemma param_idx_nth: "p \<noteq> SVC_CONFIG_PARAM_COUNT \<Longrightarrow> param_idx p < 30 \<and> config_params ! param_idx p = p"
  by (cases p) (simp_all add: param_idx_def config_params_def)

text \<open>Reading a complete, intact block.\<close>

lemma read_params_image:
  assumes "config_ok s" "ce_read E (the (cs_read (cf_storage (w_config w)))) SVC_CONFIG_OFFSET_PARAMS sizeof_image w =
      (QIRAN_OK, word_bytes (image_words (image_of s)), w)"
  shows "fst (read_params E w) = QIRAN_OK"
    and "p \<noteq> SVC_CONFIG_PARAM_COUNT \<Longrightarrow> cf_value (w_config (snd (read_params E w))) p = cf_value s p"
proof -
  let ?im = "image_of s"
  obtain c w1 where f: "fold (take_param ?im) [0..<30] (0, w) = (c, w1)" by fastforce
  have v: "im_value ?im ! param_idx p = cf_value s p" if "p \<noteq> SVC_CONFIG_PARAM_COUNT" for p
    using param_idx_nth [OF that] by (simp add: image_of_fields config_params_facts)
  have good: "in_range p (cf_value s p)" if "p \<noteq> SVC_CONFIG_PARAM_COUNT" for p
    using assms(1) that by (simp add: config_ok_def)
  have "in_range (config_params ! i) (im_value ?im ! i)" if "i < 30" for i
  proof -
    have "config_params ! i \<in> set config_params" using that config_params_facts(1) nth_mem by metis
    then show ?thesis
      using good that by (simp add: image_of_fields config_params_facts)
  qed
  then have "filter (\<lambda>i. \<not> in_range (config_params ! i) (im_value ?im ! i)) [0..<30] = []"
    by (auto simp: filter_empty_conv)
  then have c: "c = 0" using take_params_value(3) [of 30 ?im 0 w] f by simp
  have val: "cf_value (w_config w1) p = cf_value s p" if "p \<noteq> SVC_CONFIG_PARAM_COUNT" for p
    using take_params_value(1) [of 30 ?im 0 w p] f v [OF that] good [OF that] that
    by (simp add: Let_def config_params_facts)
  have r: "read_params E w = (QIRAN_OK, w1\<lparr>w_config := (w_config w1)\<lparr>cf_live_crc := live_crc (w_config w1)\<rparr>\<rparr>)"
    using f c
    by (simp only: read_params_def assms(2) Let_def prod.case bytes_word_bytes image_of_fields
        config_params_facts(1)) (simp del: upt_rec_numeral)
  show "fst (read_params E w) = QIRAN_OK" by (simp add: r)
  show "p \<noteq> SVC_CONFIG_PARAM_COUNT \<Longrightarrow> cf_value (w_config (snd (read_params E w))) p = cf_value s p"
    using val by (simp add: r)
qed

lemma read_calibration_value:
  assumes "\<forall>off n w. w_config (snd (snd (ce_read E (the (cs_read (cf_storage (w_config v)))) off n w))) = w_config w"
  shows "cf_value (w_config (snd (read_calibration E v))) = cf_value (w_config v)"
proof -
  obtain st bs w1 where r: "ce_read E (the (cs_read (cf_storage (w_config v)))) SVC_CONFIG_OFFSET_CAL sizeof_cal v =
      (st, bs, w1)" by (metis prod_cases3)
  then have "w_config w1 = w_config v" using assms by (metis snd_conv)
  then show ?thesis by (simp add: read_calibration_def r Let_def)
qed

lemma read_params_storage [simp]:
  "(\<forall>off n w. w_config (snd (snd (ce_read E (the (cs_read (cf_storage (w_config v)))) off n w))) = w_config w) \<Longrightarrow>
   cf_storage (w_config (snd (read_params E v))) = cf_storage (w_config v)"
proof -
  assume a: "\<forall>off n w. w_config (snd (snd (ce_read E (the (cs_read (cf_storage (w_config v)))) off n w))) = w_config w"
  have t: "cf_storage (w_config (snd (take_param im i (c, w)))) = cf_storage (w_config w)" for im i c and w :: "'a config_world_scheme"
    by (simp add: take_param_def Let_def)
  have f: "cf_storage (w_config (snd (fold (take_param im) is cw))) = cf_storage (w_config (snd cw))"
    for im "is" and cw :: "u32 \<times> 'a config_world_scheme"
    by (induction "is" arbitrary: cw) (simp_all, metis prod.collapse t)
  obtain st bs w1 where r: "ce_read E (the (cs_read (cf_storage (w_config v)))) SVC_CONFIG_OFFSET_PARAMS sizeof_image v =
      (st, bs, w1)" by (metis prod_cases3)
  then have w1: "w_config w1 = w_config v" using a by (metis snd_conv)
  show ?thesis
    using f [where cw = "(0, w1)"] w1
    by (simp add: read_params_def r Let_def case_prod_beta)
qed

text \<open>C12: What the save wrote, a later load brings back: after any change to the software's state,
  a load from the same medium returns every parameter to its value at the save.\<close>

theorem svc_config_roundtrip:
  assumes "storage_ok E st med" and "config_ok (w_config w)"
    and "cf_storage_set (w_config w)" "cf_storage (w_config w) = st"
    and "svc_config_save E w = (QIRAN_OK, w1)" and "med w2 = med w1"
    and "cf_storage_set (w_config w2)" "cf_storage (w_config w2) = st"
  shows "fst (svc_config_load E w2) = QIRAN_OK \<and>
    (\<forall>p. svc_config_get p (snd (svc_config_load E w2)) = svc_config_get p w)"
proof -
  let ?bs = "word_bytes (image_words (image_of (w_config w)))"
  have reads: "\<forall>off n w. w_config (snd (snd (ce_read E (the (cs_read st)) off n w))) = w_config w"
    using assms(1) unfolding storage_ok_def by blast
  have "ce_write E (the (cs_write st)) SVC_CONFIG_OFFSET_PARAMS ?bs w = (QIRAN_OK, w1)"
    using assms(3,4,5) by (simp add: svc_config_save_def)
  then have "med w1 = (med w)(SVC_CONFIG_OFFSET_PARAMS \<mapsto> ?bs)"
    using assms(1) unfolding storage_ok_def by blast
  then have "med w2 SVC_CONFIG_OFFSET_PARAMS = Some ?bs" using assms(6) by simp
  moreover have "length ?bs = unat sizeof_image" by (simp add: image_of_fields sizeof_image_def)
  ultimately have "ce_read E (the (cs_read st)) SVC_CONFIG_OFFSET_PARAMS sizeof_image w2 = (QIRAN_OK, ?bs, w2)"
    using assms(1) unfolding storage_ok_def by blast
  then have rd: "fst (read_params E w2) = QIRAN_OK"
      "p \<noteq> SVC_CONFIG_PARAM_COUNT \<Longrightarrow> cf_value (w_config (snd (read_params E w2))) p = cf_value (w_config w) p" for p
    using read_params_image [OF assms(2), of E w2] assms(8) by auto
  obtain w3 where w3: "read_params E w2 = (QIRAN_OK, w3)" using rd(1) by (cases "read_params E w2") auto
  have "cf_storage (w_config w3) = st"
    using read_params_storage [of E w2] reads assms(8) w3 by (metis snd_conv)
  then have cal: "cf_value (w_config (snd (read_calibration E w3))) = cf_value (w_config w3)"
    using reads by (intro read_calibration_value) simp
  show ?thesis
    using rd(2) w3 cal assms(7)
    by (auto simp: svc_config_load_def Let_def svc_config_get_def split: prod.splits)
qed

text \<open>The outcomes of reading a block, as they concern the invariant.\<close>

definition block_complete :: "u8 list \<Rightarrow> bool" where
  "block_complete bs \<longleftrightarrow> 30 \<le> unat (im_count (words_image (bytes_words bs)))"

text \<open>The cases of \<^verbatim>\<open>read_params\<close>: refused with the values untouched, or \<open>n\<close> values taken.\<close>

lemma read_params_cases:
  assumes reads: "\<forall>off n w. w_config (snd (snd (ce_read E (the (cs_read (cf_storage (w_config v)))) off n w))) = w_config w"
    and r: "ce_read E (the (cs_read (cf_storage (w_config v)))) SVC_CONFIG_OFFSET_PARAMS sizeof_image v = (st, bs, w1)"
  obtains (refused) "fst (read_params E v) \<noteq> QIRAN_OK" "fst (read_params E v) \<noteq> QIRAN_ERR_RANGE"
      "w_config (snd (read_params E v)) = w_config v"
  | (taken) im n where "im = words_image (bytes_words bs)" "st = QIRAN_OK"
      "n = (if im_count im < 30 then unat (im_count im) else 30)"
      "\<And>p. cf_value (w_config (snd (read_params E v))) p =
         (if p \<in> set (take n config_params)
          then (let x = im_value im ! param_idx p in if in_range p x then x else word_of_int (cd_def (k_def p)))
          else cf_value (w_config v) p)"
      "cf_live_crc (w_config (snd (read_params E v))) = live_crc (w_config (snd (read_params E v)))"
proof -
  let ?ws = "bytes_words bs" and ?im = "words_image (bytes_words bs)"
  let ?n = "if im_count ?im < 30 then unat (im_count ?im) else 30"
  have w1: "w_config w1 = w_config v" using reads r by (metis snd_conv)
  show thesis
  proof (cases "st = QIRAN_OK \<and> im_magic ?im = CONFIG_MAGIC \<and> im_version ?im = CONFIG_VERSION \<and>
      struct_crc ?ws = im_crc ?im")
    case False
    then show thesis by (intro refused) (auto simp: read_params_def r Let_def w1)
  next
    case True
    obtain c w2 where f: "fold (take_param ?im) [0..<?n] (0, w1) = (c, w2)" by fastforce
    have n: "?n \<le> 30" by (simp add: word_less_nat_alt)
    have e: "snd (read_params E v) = w2\<lparr>w_config := (w_config w2)\<lparr>cf_live_crc := live_crc (w_config w2)\<rparr>\<rparr>"
      using True f config_params_facts(1)
      by (cases "im_count ?im < 30") (simp_all add: read_params_def r Let_def del: upt_rec_numeral)
    show thesis
    proof (rule taken [of ?im ?n])
      show "cf_value (w_config (snd (read_params E v))) p =
         (if p \<in> set (take ?n config_params)
          then (let x = im_value ?im ! param_idx p in if in_range p x then x else word_of_int (cd_def (k_def p)))
          else cf_value (w_config v) p)" for p
        using take_params_value(1) [OF n, of ?im 0 w1 p] f w1 unfolding e by simp
      show "cf_live_crc (w_config (snd (read_params E v))) = live_crc (w_config (snd (read_params E v)))"
        by (simp add: e live_crc_def)
    qed (use True in simp_all)
  qed
qed

lemma read_params_ok:
  assumes reads: "\<forall>off n w. w_config (snd (snd (ce_read E (the (cs_read (cf_storage (w_config v)))) off n w))) = w_config w"
    and comp: "\<And>bs w0. ce_read E (the (cs_read (cf_storage (w_config v)))) SVC_CONFIG_OFFSET_PARAMS sizeof_image v =
        (QIRAN_OK, bs, w0) \<Longrightarrow> block_complete bs"
    and ok: "fst (read_params E v) = QIRAN_OK \<or> fst (read_params E v) = QIRAN_ERR_RANGE"
  shows "config_ok (w_config (snd (read_params E v)))"
proof -
  obtain st bs w1 where r: "ce_read E (the (cs_read (cf_storage (w_config v)))) SVC_CONFIG_OFFSET_PARAMS sizeof_image v =
      (st, bs, w1)" by (metis prod_cases3)
  from reads r show ?thesis
  proof (cases rule: read_params_cases)
    case refused
    then show ?thesis using ok by simp
  next
    case (taken im n)
    then have "block_complete bs" using comp r by simp
    then have "n = 30" using taken(1,3) by (simp add: block_complete_def word_less_nat_alt)
    then show ?thesis
      using taken(4,5) in_range_default by (simp add: config_ok_def Let_def config_params_facts)
  qed
qed

text \<open>The periodic check leaves the block alone when every value is within its limits and the
  checksum matches, and whatever overwrote it, leaves it so afterwards: restored from storage or
  from the defaults (given that a readable stored block holds all the parameters of this build).\<close>

theorem svc_config_verify_restores:
  assumes "\<forall>off n w. w_config (snd (snd (ce_read E (the (cs_read st)) off n w))) = w_config w"
    and "\<forall>w w0 bs. ce_read E (the (cs_read st)) SVC_CONFIG_OFFSET_PARAMS sizeof_image w = (QIRAN_OK, bs, w0) \<longrightarrow>
      block_complete bs"
    and "cf_storage (w_config w) = st"
  shows "config_ok (w_config (snd (svc_config_verify E w))) \<and>
    (if config_ok (w_config w) then svc_config_verify E w = (QIRAN_OK, w)
     else fst (svc_config_verify E w) = QIRAN_ERR_INTEGRITY)"
proof -
  let ?s = "w_config w"
  let ?out = "length (filter (\<lambda>p. \<not> in_range p (cf_value ?s p)) config_params)"
  let ?v = "svc_fdir_report QIRAN_FAULT_CONFIG (of_nat ?out)
      (w\<lparr>w_config := ?s\<lparr>cf_corrections := cf_corrections ?s + 1\<rparr>\<rparr>)"
  have iff: "config_ok ?s \<longleftrightarrow> live_crc ?s = cf_live_crc ?s \<and> ?out = 0"
    by (auto simp: config_ok_def filter_empty_conv config_params_facts)
  have st: "cf_storage (w_config ?v) = st" using assms(3) by simp
  have read: "config_ok (w_config (snd (read_params E ?v)))" if "fst (read_params E ?v) = QIRAN_OK"
    using that assms(1,2) by (intro read_params_ok) (auto simp: st simp del: report_config)
  show ?thesis
    using iff read load_defaults_ok
    by (auto simp: svc_config_verify_def Let_def simp del: length_0_conv split: prod.splits)
qed

text \<open>
  The proviso is needed. A stored block with fewer values, of an earlier build, restores only
  those: the values beyond stay as they were corrupted, and the checksum is taken over them.
\<close>

lemma svc_config_verify_partial:
  assumes "\<forall>off n w. w_config (snd (snd (ce_read E (the (cs_read (cf_storage (w_config v)))) off n w))) = w_config w"
    and "ce_read E (the (cs_read (cf_storage (w_config v)))) SVC_CONFIG_OFFSET_PARAMS sizeof_image v = (QIRAN_OK, bs, w1)"
    and "fst (read_params E v) = QIRAN_OK" "unat (im_count (words_image (bytes_words bs))) \<le> param_idx p"
    and "p \<noteq> SVC_CONFIG_PARAM_COUNT"
  shows "cf_value (w_config (snd (read_params E v))) p = cf_value (w_config v) p \<and>
    cf_live_crc (w_config (snd (read_params E v))) = live_crc (w_config (snd (read_params E v)))"
  using assms(1,2)
proof (cases rule: read_params_cases)
  case refused
  then show ?thesis using assms(3) by simp
next
  case (taken im n)
  have i: "param_idx p < 30" "config_params ! param_idx p = p" using param_idx_nth [OF assms(5)] by auto
  have "n \<le> param_idx p" using taken(1,3) assms(4) i(1) by (auto simp: word_less_nat_alt)
  then have "p \<notin> set (take n config_params)"
    using i config_params_facts(1) nth_eq_iff_index_eq [OF config_params_facts(2)]
    by (auto simp: in_set_conv_nth)
  then show ?thesis using taken(4,5) by simp
qed

text \<open>A parameter is set exactly when it exists, the value is within its limits and the lock
  allows it; then that parameter and no other takes the value, and otherwise none changes. The
  block stays within its limits with a valid checksum.\<close>

theorem svc_config_set_effect:
  assumes "config_ok (w_config w)"
  shows "(fst (svc_config_set p v w) = QIRAN_OK \<longleftrightarrow>
      p \<noteq> SVC_CONFIG_PARAM_COUNT \<and> cd_min (k_def p) \<le> sint v \<and> sint v \<le> cd_max (k_def p) \<and>
      (svc_config_locked w \<longrightarrow> cd_writable_in_flight (k_def p))) \<and>
    (\<forall>q. svc_config_get q (snd (svc_config_set p v w)) =
      (if q = p \<and> fst (svc_config_set p v w) = QIRAN_OK then v else svc_config_get q w)) \<and>
    config_ok (w_config (snd (svc_config_set p v w)))"
  using set_ok [OF assms]
  by (auto simp: svc_config_set_def Let_def svc_config_get_def svc_config_locked_def in_range_def)

lemma li_point:
  assumes "li_current_ua lo \<le> c" "c \<le> li_current_ua hi" "li_power_nw lo \<le> li_power_nw hi"
  defines "rise \<equiv> unat (li_power_nw hi) - unat (li_power_nw lo)"
    and "run \<equiv> unat c - unat (li_current_ua lo)"
    and "span \<equiv> unat (li_current_ua hi) - unat (li_current_ua lo)"
  shows "unat (li_power_nw lo + ucast ((ucast (li_power_nw hi - li_power_nw lo) *
      ucast (c - li_current_ua lo) :: u64) div ucast (li_current_ua hi - li_current_ua lo))) =
    unat (li_power_nw lo) + rise * run div span" and "rise * run div span \<le> rise"
proof -
  have le: "unat (li_current_ua lo) \<le> unat c" "unat c \<le> unat (li_current_ua hi)"
      "unat (li_power_nw lo) \<le> unat (li_power_nw hi)"
    using assms(1-3) by (simp_all add: word_le_nat_alt)
  have u: "unat (ucast x :: u64) = unat x" for x :: u32
    using unat_u32_less [of x] by (simp add: unsigned_ucast_eq take_bit_eq_mod)
  have span_le: "li_current_ua lo \<le> li_current_ua hi" using assms(1,2) by (rule order_trans)
  have d: "unat (ucast (li_power_nw hi - li_power_nw lo) :: u64) = rise"
      "unat (ucast (c - li_current_ua lo) :: u64) = run"
      "unat (ucast (li_current_ua hi - li_current_ua lo) :: u64) = span"
    unfolding u rise_def run_def span_def using assms(1-3) span_le by (simp_all add: unat_sub)
  have rs: "run \<le> span" using le by (simp add: run_def span_def)
  show q: "rise * run div span \<le> rise"
    using rs by (metis bot_nat_0.extremum div_by_0 div_le_mono div_mult_self_is_m mult_le_mono2 neq0_conv)
  have b: "rise < 4294967296" "run < 4294967296"
    using unat_u32_less [of "li_power_nw hi"] unat_u32_less [of c] by (simp_all add: rise_def run_def)
  then have "rise * run < 4294967296 * 4294967296" by (intro mult_strict_mono) simp_all
  then have m: "unat ((ucast (li_power_nw hi - li_power_nw lo) :: u64) * ucast (c - li_current_ua lo)) = rise * run"
    by (simp add: unat_word_ariths d)
  have z: "unat ((ucast (li_power_nw hi - li_power_nw lo) * ucast (c - li_current_ua lo) :: u64) div
      ucast (li_current_ua hi - li_current_ua lo)) = rise * run div span"
    by (simp only: unat_div m d)
  have "unat (ucast x :: u32) = unat x mod 4294967296" for x :: u64
    by (simp add: unsigned_ucast_eq take_bit_eq_mod)
  then have "unat (ucast ((ucast (li_power_nw hi - li_power_nw lo) * ucast (c - li_current_ua lo) :: u64) div
      ucast (li_current_ua hi - li_current_ua lo)) :: u32) = rise * run div span"
    using q b(1) by (simp only: z) simp
  moreover have "unat (li_power_nw lo) + rise * run div span < 4294967296"
    using q le(3) unat_u32_less [of "li_power_nw hi"] by (simp add: rise_def)
  ultimately show "unat (li_power_nw lo + ucast ((ucast (li_power_nw hi - li_power_nw lo) *
      ucast (c - li_current_ua lo) :: u64) div ucast (li_current_ua hi - li_current_ua lo))) =
    unat (li_power_nw lo) + rise * run div span"
    by (simp add: unat_word_ariths)
qed

lemma li_scan_bracket:
  assumes "2 \<le> length ps" "li_current_ua (ps ! 0) \<le> c" "c \<le> li_current_ua (last ps)"
    and "sorted (map li_power_nw ps)"
  shows "\<exists>i p. Suc i < length ps \<and> li_current_ua (ps ! i) \<le> c \<and> c \<le> li_current_ua (ps ! Suc i) \<and>
    li_scan c ps = (QIRAN_OK, Some p) \<and> li_power_nw (ps ! i) \<le> p \<and> p \<le> li_power_nw (ps ! Suc i) \<and>
    unat p = unat (li_power_nw (ps ! i)) +
      (unat (li_power_nw (ps ! Suc i)) - unat (li_power_nw (ps ! i))) *
      (unat c - unat (li_current_ua (ps ! i))) div
      (unat (li_current_ua (ps ! Suc i)) - unat (li_current_ua (ps ! i)))"
  using assms
proof (induction c ps rule: li_scan.induct)
  case (1 c lo hi ps)
  show ?case
  proof (cases "li_current_ua hi < c")
    case True
    have "ps \<noteq> []" using 1(4) True by auto
    then have "2 \<le> length (hi # ps)" by (cases ps) auto
    moreover have "li_current_ua ((hi # ps) ! 0) \<le> c" using True by simp
    moreover have "c \<le> li_current_ua (last (hi # ps))" using 1(4) by simp
    moreover have "sorted (map li_power_nw (hi # ps))" using 1(5) by simp
    ultimately obtain i p where "Suc i < length (hi # ps)" "li_current_ua ((hi # ps) ! i) \<le> c"
        "c \<le> li_current_ua ((hi # ps) ! Suc i)" "li_scan c (hi # ps) = (QIRAN_OK, Some p)"
        "li_power_nw ((hi # ps) ! i) \<le> p" "p \<le> li_power_nw ((hi # ps) ! Suc i)"
        "unat p = unat (li_power_nw ((hi # ps) ! i)) +
          (unat (li_power_nw ((hi # ps) ! Suc i)) - unat (li_power_nw ((hi # ps) ! i))) *
          (unat c - unat (li_current_ua ((hi # ps) ! i))) div
          (unat (li_current_ua ((hi # ps) ! Suc i)) - unat (li_current_ua ((hi # ps) ! i)))"
      using 1(1) [OF True] by blast
    then show ?thesis using True by (intro exI [of _ "Suc i"] exI [of _ p]) simp
  next
    case False
    then have le: "li_current_ua lo \<le> c" "c \<le> li_current_ua hi" "li_power_nw lo \<le> li_power_nw hi"
      using 1(3,5) by auto
    note pt = li_point [OF le]
    show ?thesis
    proof (cases "li_current_ua hi - li_current_ua lo = 0")
      case True
      then show ?thesis
        using le False by (intro exI [of _ 0] exI [of _ "li_power_nw lo"]) auto
    next
      case span: False
      define p where "p = li_power_nw lo + ucast ((ucast (li_power_nw hi - li_power_nw lo) *
          ucast (c - li_current_ua lo) :: u64) div ucast (li_current_ua hi - li_current_ua lo))"
      have s: "li_scan c (lo # hi # ps) = (QIRAN_OK, Some p)"
        using False span by (simp add: Let_def p_def)
      have le2: "unat (li_power_nw lo) \<le> unat (li_power_nw hi)" using le(3) by (simp add: word_le_nat_alt)
      have "li_power_nw lo \<le> p" "p \<le> li_power_nw hi"
        unfolding word_le_nat_alt p_def pt(1) using pt(2) le2 by linarith+
      then show ?thesis
        using s le pt(1) by (intro exI [of _ 0] exI [of _ p]) (simp add: p_def)
    qed
  qed
qed auto

text \<open>On a calibration curve whose power does not fall with the current, a current within the
  curve's span is answered by linear interpolation between the two points around it, rounded
  down and without overflow, so by a power between theirs; outside the span it is refused.\<close>

theorem svc_config_li_interpolates:
  assumes "svc_config_calibration w = Some cal" "2 \<le> ca_li_count cal" "unat (ca_li_count cal) \<le> length (ca_li cal)"
    and "sorted (map li_power_nw (take (unat (ca_li_count cal)) (ca_li cal)))"
  defines "ps \<equiv> take (unat (ca_li_count cal)) (ca_li cal)"
  shows "if li_current_ua (hd ps) \<le> c \<and> c \<le> li_current_ua (last ps)
    then \<exists>i p. Suc i < length ps \<and> li_current_ua (ps ! i) \<le> c \<and> c \<le> li_current_ua (ps ! Suc i) \<and>
      svc_config_li_expected_nw True c w = (QIRAN_OK, Some p) \<and>
      li_power_nw (ps ! i) \<le> p \<and> p \<le> li_power_nw (ps ! Suc i) \<and>
      unat p = unat (li_power_nw (ps ! i)) +
        (unat (li_power_nw (ps ! Suc i)) - unat (li_power_nw (ps ! i))) *
        (unat c - unat (li_current_ua (ps ! i))) div
        (unat (li_current_ua (ps ! Suc i)) - unat (li_current_ua (ps ! i)))
    else svc_config_li_expected_nw True c w = (QIRAN_ERR_RANGE, None)"
proof -
  let ?n = "unat (ca_li_count cal)"
  have n2: "2 \<le> ?n" using assms(2) by (simp add: word_le_nat_alt)
  have v: "cf_cal_valid (w_config w)" "cf_cal (w_config w) = cal"
    using assms(1) by (auto simp: svc_config_calibration_def split: if_splits)
  have len: "length ps = ?n" using assms(3) by (simp add: ps_def)
  have ends: "hd ps = ca_li cal ! 0" "last ps = ca_li cal ! (?n - 1)" "ps ! 0 = hd ps"
  proof -
    have ne: "ps \<noteq> []" "ca_li cal \<noteq> []" using len n2 assms(3) by auto
    show "hd ps = ca_li cal ! 0" using ne n2 by (simp add: ps_def hd_conv_nth)
    show "last ps = ca_li cal ! (?n - 1)" using ne(1) n2 assms(3) by (simp add: last_conv_nth len) (simp add: ps_def)
    show "ps ! 0 = hd ps" using ne(1) by (simp add: hd_conv_nth)
  qed
  have e: "svc_config_li_expected_nw True c w =
      (if li_current_ua (hd ps) \<le> c \<and> c \<le> li_current_ua (last ps) then li_scan c ps else (QIRAN_ERR_RANGE, None))"
    using v assms(2) unfolding ends(1,2) by (auto simp: svc_config_li_expected_nw_def Let_def ps_def)
  show ?thesis
    using li_scan_bracket [of ps c] n2 len ends assms(4) unfolding e ps_def [symmetric] by auto
qed

text \<open>On a falling curve the difference of the powers wraps, and the answer is no interpolation.\<close>

lemma li_scan_falling:
  "li_scan 5 [\<lparr>li_current_ua = 0, li_power_nw = 100\<rparr>, \<lparr>li_current_ua = 10, li_power_nw = 0\<rparr>] =
     (QIRAN_OK, Some 2147483698)"
  by simp

subsection \<open>Witnesses\<close>

text \<open>A medium that fails every write and every read, and one curve of two points.\<close>

definition config_env0 :: "config_world config_env" where
  "config_env0 = \<lparr>ce_read = (\<lambda>_ _ _ w. (QIRAN_ERR_HARDWARE, [], w)),
     ce_write = (\<lambda>_ _ _ w. (QIRAN_ERR_HARDWARE, w))\<rparr>"

definition cal0 :: svc_calibration where
  "cal0 = cal_zero\<lparr>ca_li_count := 2, ca_li :=
     [\<lparr>li_current_ua = 1000, li_power_nw = 50\<rparr>, \<lparr>li_current_ua = 2000, li_power_nw = 150\<rparr>]\<rparr>"

definition config_state0 :: config_state where
  "config_state0 = load_defaults \<lparr>cf_value = (\<lambda>_. 0), cf_live_crc = 0, cf_locked = False,
     cf_storage = \<lparr>cs_read = Some 0, cs_write = Some 1\<rparr>, cf_storage_set = True, cf_cal = cal0,
     cf_cal_valid = True, cf_changes = 0, cf_rejections = 0, cf_corrections = 0\<rparr>"

definition config_world0 :: config_world where
  "config_world0 = \<lparr>w_cpu = w_cpu exec_world0, w_exec = w_exec exec_world0,
     w_sched = w_sched sched_world0, w_time = w_time (time_world0 0), w_log = w_log log_world0,
     w_gic = gic_state0, w_irq = (\<lambda>_. irq_slot0), w_uart = uart_state0, w_fdir = fdir_state0,
     w_config = config_state0\<rparr>"

text \<open>A medium that keeps what is written to it, beside the software's state.\<close>

record media_world = config_world +
  w_media :: "u32 \<Rightarrow> u8 list option"

definition media_env :: "media_world config_env" where
  "media_env = \<lparr>ce_read = (\<lambda>_ off n w. case w_media w off of
       None \<Rightarrow> (QIRAN_ERR_HARDWARE, [], w)
     | Some bs \<Rightarrow> if length bs = unat n then (QIRAN_OK, bs, w) else (QIRAN_ERR_HARDWARE, [], w)),
     ce_write = (\<lambda>_ off bs w. (QIRAN_OK, w\<lparr>w_media := (w_media w)(off \<mapsto> bs)\<rparr>))\<rparr>"

definition media_world0 :: media_world where
  "media_world0 = config_world.extend config_world0 \<lparr>w_media = (\<lambda>_. None)\<rparr>"

lemma media_env_ok: "storage_ok media_env st w_media"
  by (simp add: storage_ok_def media_env_def split: option.splits)

lemma config_world0_ok: "config_ok (w_config config_world0)" "w_config media_world0 = w_config config_world0"
  "cf_storage_set (w_config config_world0)"
  "cf_storage (w_config config_world0) = \<lparr>cs_read = Some 0, cs_write = Some 1\<rparr>"
  "svc_config_calibration config_world0 = Some cal0"
  by (simp_all add: config_world0_def config_state0_def load_defaults_ok media_world0_def
      config_world.defs)
    (simp_all add: load_defaults_def Let_def svc_config_calibration_def)

theorem svc_config_roundtrip_witness:
  "fst (svc_config_load media_env (svc_config_init (snd (svc_config_save media_env media_world0))
     \<lparr>w_config := w_config media_world0\<rparr>)) = QIRAN_OK"
proof -
  let ?w1 = "snd (svc_config_save media_env media_world0)"
  have "svc_config_save media_env media_world0 = (QIRAN_OK, ?w1)"
    by (simp add: svc_config_save_def config_world0_ok media_env_def)
  from svc_config_roundtrip [OF media_env_ok _ _ _ this, of "\<lparr>cs_read = Some 0, cs_write = Some 1\<rparr>"
      "svc_config_init ?w1\<lparr>w_config := w_config media_world0\<rparr>"]
  show ?thesis by (simp add: config_world0_ok svc_config_init_def)
qed

theorem svc_config_verify_restores_witness:
  "config_ok (w_config (snd (svc_config_verify config_env0
     (config_world0\<lparr>w_config := config_state0\<lparr>cf_live_crc := 7, cf_value := (\<lambda>_. 99)\<rparr>\<rparr>))))"
  using svc_config_verify_restores [of config_env0 _ "config_world0\<lparr>w_config :=
      config_state0\<lparr>cf_live_crc := 7, cf_value := (\<lambda>_. 99)\<rparr>\<rparr>"]
  by (simp add: config_env0_def)

theorem svc_config_set_effect_witness:
  "fst (svc_config_set CFG_HK_PERIOD_MS 500 config_world0) = QIRAN_OK \<and>
   fst (svc_config_set CFG_HK_PERIOD_MS 50 config_world0) \<noteq> QIRAN_OK"
  using svc_config_set_effect [OF config_world0_ok(1), of CFG_HK_PERIOD_MS 500]
    svc_config_set_effect [OF config_world0_ok(1), of CFG_HK_PERIOD_MS 50]
  by (simp add: config_def_def)

theorem svc_config_li_interpolates_witness:
  "\<exists>p. svc_config_li_expected_nw True 1505 config_world0 = (QIRAN_OK, Some p) \<and> unat p = 100"
proof -
  have "2 \<le> ca_li_count cal0" "unat (ca_li_count cal0) \<le> length (ca_li cal0)"
      "sorted (map li_power_nw (take (unat (ca_li_count cal0)) (ca_li cal0)))"
    by (simp_all add: cal0_def)
  from svc_config_li_interpolates [OF config_world0_ok(5) this, of 1505] show ?thesis
    by (auto simp: cal0_def less_Suc_eq)
qed

end
