(* ===== verification/Svc_Health.thy ===== *)
theory Svc_Health
  imports Svc_Config
begin

section \<open>Health and the watchdog: \<^verbatim>\<open>src/svc/svc_health.c\<close>, \<^verbatim>\<open>src/svc/svc_watchdog.c\<close>\<close>

text \<open>
  Registered monitors run on their own periods; the verdict formed from the gating ones decides
  whether the watchdog is serviced. The array of monitors and its count are one list: the
  entries beyond the count are never read. Two checks belong to this component, others are
  registered from outside and interpreted by the environment, as is the watchdog's timer.
\<close>

definition SVC_HEALTH_MONITOR_MAX :: nat where "SVC_HEALTH_MONITOR_MAX = 16"

datatype svc_health_class = SVC_HEALTH_ADVISORY | SVC_HEALTH_GATING

datatype health_check_fn = Check_exec_timing | Check_config_integrity | Ext_check handle

record monitor =
  mo_name :: string
  mo_check :: health_check_fn
  mo_ctx :: "handle option"
  mo_fault :: qiran_fault_id
  mo_period :: u32
  mo_tolerance :: u32
  mo_countdown :: u32
  mo_gating :: bool
  mo_runs :: u32
  mo_failures :: u32
  mo_consecutive :: u32
  mo_last_value :: u32
  mo_last_status :: qiran_status

record health_state =
  hl_monitor :: "monitor list"
  hl_state :: qiran_health
  hl_transitions :: u32
  hl_seen_overruns :: u32

record svc_watchdog_backend =
  wb_arm :: "handle option"
  wb_kick :: "handle option"

record watchdog_state =
  wd_backend :: svc_watchdog_backend
  wd_armed :: bool
  wd_suppressed :: u32

record health_world = config_world +
  w_health :: health_state
  w_watchdog :: watchdog_state

record 'w health_env =
  he_config :: "'w config_env"
  he_check :: "handle \<Rightarrow> handle option \<Rightarrow> 'w \<Rightarrow> qiran_status \<times> u32 \<times> 'w"
  he_arm :: "handle \<Rightarrow> u32 \<Rightarrow> 'w \<Rightarrow> qiran_status \<times> 'w"
  he_kick :: "handle \<Rightarrow> 'w \<Rightarrow> 'w"

definition svc_health_count :: "'a health_world_scheme \<Rightarrow> u32" where
  "svc_health_count w = of_nat (length (hl_monitor (w_health w)))"

text \<open>A check returns its status and the value it reports.\<close>

definition check_exec_timing :: "'a health_world_scheme \<Rightarrow> qiran_status \<times> u32 \<times> 'a health_world_scheme" where
  "check_exec_timing w =
    (let st = exec_stats_get w; value = st_overrun_events st
     in if st_overrun_events st \<noteq> hl_seen_overruns (w_health w)
        then (QIRAN_ERR_TIMEOUT, value, w\<lparr>w_health := (w_health w)\<lparr>hl_seen_overruns := st_overrun_events st\<rparr>\<rparr>)
        else (QIRAN_OK, value, w))"

definition check_config_integrity ::
  "'a health_world_scheme health_env \<Rightarrow> 'a health_world_scheme \<Rightarrow> qiran_status \<times> u32 \<times> 'a health_world_scheme" where
  "check_config_integrity E w =
    (let value = svc_config_corrections w; (st, w) = svc_config_verify (he_config E) w in (st, value, w))"

definition health_run_check ::
  "'a health_world_scheme health_env \<Rightarrow> monitor \<Rightarrow> 'a health_world_scheme \<Rightarrow>
   qiran_status \<times> u32 \<times> 'a health_world_scheme" where
  "health_run_check E m w =
    (case mo_check m of
       Check_exec_timing \<Rightarrow> check_exec_timing w
     | Check_config_integrity \<Rightarrow> check_config_integrity E w
     | Ext_check h \<Rightarrow> he_check E h (mo_ctx m) w)"

text \<open>A null name or check is \<^term>\<open>None\<close>.\<close>

definition svc_health_register ::
  "string option \<Rightarrow> health_check_fn option \<Rightarrow> handle option \<Rightarrow> svc_health_class \<Rightarrow> u32 \<Rightarrow> u32 \<Rightarrow>
   qiran_fault_id \<Rightarrow> 'a health_world_scheme \<Rightarrow> qiran_status \<times> 'a health_world_scheme" where
  "svc_health_register name check ctx cls period tolerance fault w =
    (let s = w_health w; count = length (hl_monitor s)
     in if name = None \<or> check = None \<or> period = 0 \<or> fault = QIRAN_FAULT_COUNT
        then (QIRAN_ERR_PARAM, w)
        else if SVC_HEALTH_MONITOR_MAX \<le> count then (QIRAN_ERR_RANGE, w)
        else (QIRAN_OK, w\<lparr>w_health := s\<lparr>hl_monitor := hl_monitor s @
          [\<lparr>mo_name = the name, mo_check = the check, mo_ctx = ctx, mo_fault = fault,
            mo_period = period, mo_tolerance = tolerance,
            mo_countdown = of_nat count mod period + 1, mo_gating = (cls = SVC_HEALTH_GATING),
            mo_runs = 0, mo_failures = 0, mo_consecutive = 0, mo_last_value = 0,
            mo_last_status = QIRAN_OK\<rparr>]\<rparr>\<rparr>))"

definition svc_health_init :: "'a health_world_scheme \<Rightarrow> 'a health_world_scheme" where
  "svc_health_init w =
    (let w = w\<lparr>w_health := \<lparr>hl_monitor = [], hl_state = QIRAN_HEALTH_HEALTHY, hl_transitions = 0,
               hl_seen_overruns = 0\<rparr>\<rparr>;
         w = snd (svc_health_register (Some ''exec_timing'') (Some Check_exec_timing) None
                    SVC_HEALTH_GATING 1 2 QIRAN_FAULT_NONE w)
     in snd (svc_health_register (Some ''config_integrity'') (Some Check_config_integrity) None
               SVC_HEALTH_GATING (of_nat QIRAN_MINOR_PER_MAJOR) 1 QIRAN_FAULT_NONE w))"

definition contributing :: "monitor \<Rightarrow> bool" where
  "contributing m \<longleftrightarrow> mo_gating m \<and> mo_tolerance m < mo_consecutive m"

text \<open>The record of a monitor after a run.\<close>

definition monitor_ran :: "qiran_status \<Rightarrow> u32 \<Rightarrow> monitor \<Rightarrow> monitor" where
  "monitor_ran st value m =
    (let m = m\<lparr>mo_runs := mo_runs m + 1, mo_last_value := value, mo_last_status := st\<rparr>
     in if st = QIRAN_OK then m\<lparr>mo_consecutive := 0\<rparr>
        else m\<lparr>mo_failures := mo_failures m + 1, mo_consecutive := mo_consecutive m + 1\<rparr>)"

definition monitor_upd :: "nat \<Rightarrow> (monitor \<Rightarrow> monitor) \<Rightarrow> 'a health_world_scheme \<Rightarrow> 'a health_world_scheme" where
  "monitor_upd i f w =
    w\<lparr>w_health := (w_health w)\<lparr>hl_monitor := (hl_monitor (w_health w))[i := f (hl_monitor (w_health w) ! i)]\<rparr>\<rparr>"

definition health_check_one ::
  "'a health_world_scheme health_env \<Rightarrow> nat \<Rightarrow> 'a health_world_scheme \<Rightarrow> 'a health_world_scheme" where
  "health_check_one E i w =
    (let m = hl_monitor (w_health w) ! i
     in if length (hl_monitor (w_health w)) \<le> i then w
        else if 1 < mo_countdown m then monitor_upd i (\<lambda>m. m\<lparr>mo_countdown := mo_countdown m - 1\<rparr>) w
        else (let w = monitor_upd i (\<lambda>m. m\<lparr>mo_countdown := mo_period m\<rparr>) w;
                  (st, value, w) = health_run_check E (hl_monitor (w_health w) ! i) w;
                  w = monitor_upd i (monitor_ran st value) w;
                  m = hl_monitor (w_health w) ! i
              in if st \<noteq> QIRAN_OK \<and> mo_fault m \<noteq> QIRAN_FAULT_NONE
                 then svc_fdir_report (mo_fault m) value w else w))"

text \<open>The count is read on every turn of the loop and never exceeds the array.\<close>

definition health_check :: "'a health_world_scheme health_env \<Rightarrow> 'a health_world_scheme \<Rightarrow> 'a health_world_scheme" where
  "health_check E w = fold (health_check_one E) [0..<SVC_HEALTH_MONITOR_MAX] w"

fun health_code :: "qiran_health \<Rightarrow> u32" where
  "health_code QIRAN_HEALTH_HEALTHY = 0"
| "health_code QIRAN_HEALTH_FAILED = 1"

definition health_consolidate :: "'a health_world_scheme \<Rightarrow> 'a health_world_scheme" where
  "health_consolidate w =
    (let s = w_health w;
         verdict = (if list_ex contributing (hl_monitor s) then QIRAN_HEALTH_FAILED else QIRAN_HEALTH_HEALTHY)
     in if verdict \<noteq> hl_state s
        then svc_log_event (of_nat (fault_idx QIRAN_FAULT_NONE)) (health_code verdict)
               (w\<lparr>w_health := s\<lparr>hl_state := verdict, hl_transitions := hl_transitions s + 1\<rparr>\<rparr>)
        else w)"

definition svc_health_state :: "'a health_world_scheme \<Rightarrow> qiran_health" where
  "svc_health_state w = hl_state (w_health w)"

definition svc_health_gating_count :: "'a health_world_scheme \<Rightarrow> u32" where
  "svc_health_gating_count w = of_nat (length (filter contributing (hl_monitor (w_health w))))"

definition svc_health_transitions :: "'a health_world_scheme \<Rightarrow> u32" where
  "svc_health_transitions w = hl_transitions (w_health w)"

definition svc_health_all_passing :: "'a health_world_scheme \<Rightarrow> bool" where
  "svc_health_all_passing w = list_all (\<lambda>m. mo_last_status m = QIRAN_OK) (hl_monitor (w_health w))"

definition svc_health_monitor_stat :: "nat \<Rightarrow> 'a health_world_scheme \<Rightarrow> (monitor \<times> bool) option" where
  "svc_health_monitor_stat i w =
    (let ms = hl_monitor (w_health w)
     in if length ms \<le> i then None else Some (ms ! i, contributing (ms ! i)))"

subsection \<open>The watchdog\<close>

definition svc_watchdog_init ::
  "'a health_world_scheme health_env \<Rightarrow> svc_watchdog_backend option \<Rightarrow> 'a health_world_scheme \<Rightarrow>
   qiran_status \<times> 'a health_world_scheme" where
  "svc_watchdog_init E backend w =
    (let w = w\<lparr>w_watchdog := (w_watchdog w)\<lparr>wd_armed := False, wd_suppressed := 0\<rparr>\<rparr>
     in case backend of
          None \<Rightarrow> (QIRAN_OK, w\<lparr>w_watchdog := (w_watchdog w)\<lparr>wd_backend := \<lparr>wb_arm = None, wb_kick = None\<rparr>\<rparr>\<rparr>)
        | Some b \<Rightarrow>
            if wb_arm b = None \<or> wb_kick b = None then (QIRAN_ERR_PARAM, w)
            else (let w = w\<lparr>w_watchdog := (w_watchdog w)\<lparr>wd_backend := b\<rparr>\<rparr>;
                      (st, w) = he_arm E (the (wb_arm b)) QIRAN_WATCHDOG_TIMEOUT_MS w
                  in if st \<noteq> QIRAN_OK then (QIRAN_ERR_HARDWARE, w)
                     else (QIRAN_OK, w\<lparr>w_watchdog := (w_watchdog w)\<lparr>wd_armed := True\<rparr>\<rparr>)))"

definition watchdog_tickle_if_healthy ::
  "'a health_world_scheme health_env \<Rightarrow> 'a health_world_scheme \<Rightarrow> 'a health_world_scheme" where
  "watchdog_tickle_if_healthy E w =
    (if svc_health_state w \<noteq> QIRAN_HEALTH_HEALTHY
     then w\<lparr>w_watchdog := (w_watchdog w)\<lparr>wd_suppressed := wd_suppressed (w_watchdog w) + 1\<rparr>\<rparr>
     else if wd_armed (w_watchdog w) then he_kick E (the (wb_kick (wd_backend (w_watchdog w)))) w
     else w)"

definition svc_watchdog_armed :: "'a health_world_scheme \<Rightarrow> bool" where
  "svc_watchdog_armed w = wd_armed (w_watchdog w)"

definition svc_watchdog_suppressed_cycles :: "'a health_world_scheme \<Rightarrow> u32" where
  "svc_watchdog_suppressed_cycles w = wd_suppressed (w_watchdog w)"

subsection \<open>Each monitor on its own schedule\<close>

text \<open>What the component relies on from registered code: checks and storage leave the monitors alone.\<close>

definition checks_ok :: "'a health_world_scheme health_env \<Rightarrow> bool" where
  "checks_ok E \<longleftrightarrow>
    (\<forall>h c w. hl_monitor (w_health (snd (snd (he_check E h c w)))) = hl_monitor (w_health w)) \<and>
    (\<forall>h off n w. w_health (snd (snd (ce_read (he_config E) h off n w))) = w_health w)"

lemma report_health [simp]: "w_health (svc_fdir_report f d w) = w_health w"
  by (simp add: svc_fdir_report_eq)

lemma take_params_health: "w_health (snd (fold (take_param im) is cw)) = w_health (snd cw)"
  for cw :: "u32 \<times> 'a health_world_scheme"
proof (induction "is" arbitrary: cw)
  case (Cons i "is")
  have "w_health (snd (take_param im i cw)) = w_health (snd cw)"
    by (cases cw) (simp add: take_param_def Let_def)
  then show ?case using Cons by simp
qed simp

lemma read_params_health:
  assumes "\<forall>h off n w. w_health (snd (snd (ce_read E h off n w))) = w_health w"
  shows "w_health (snd (read_params E v)) = w_health v"
proof -
  obtain st bs w1 where r: "ce_read E (the (cs_read (cf_storage (w_config v)))) SVC_CONFIG_OFFSET_PARAMS sizeof_image v =
      (st, bs, w1)" by (metis prod_cases3)
  then have "w_health w1 = w_health v" using assms by (metis snd_conv)
  then show ?thesis
    using take_params_health [where cw = "(0, w1)"] by (simp add: read_params_def r Let_def case_prod_beta)
qed

lemma verify_health:
  assumes "\<forall>h off n w. w_health (snd (snd (ce_read E h off n w))) = w_health w"
  shows "w_health (snd (svc_config_verify E w)) = w_health w"
  using read_params_health [OF assms] by (simp add: svc_config_verify_def Let_def case_prod_beta)

lemma run_check_keeps:
  assumes "checks_ok E"
  shows "hl_monitor (w_health (snd (snd (health_run_check E m w)))) = hl_monitor (w_health w)"
proof -
  have "w_health (snd (svc_config_verify (he_config E) w)) = w_health w"
    using assms by (intro verify_health) (simp add: checks_ok_def)
  then show ?thesis
    using assms by (cases "mo_check m")
      (simp_all add: health_run_check_def check_exec_timing_def check_config_integrity_def Let_def
        case_prod_beta checks_ok_def)
qed

definition monitor_after :: "qiran_status \<times> u32 \<Rightarrow> monitor \<Rightarrow> monitor" where
  "monitor_after r m =
    (if 1 < mo_countdown m then m\<lparr>mo_countdown := mo_countdown m - 1\<rparr>
     else monitor_ran (fst r) (snd r) (m\<lparr>mo_countdown := mo_period m\<rparr>))"

lemma health_check_one_monitors:
  assumes "checks_ok E"
  shows "\<exists>r. hl_monitor (w_health (health_check_one E i w)) =
    (hl_monitor (w_health w))[i := monitor_after r (hl_monitor (w_health w) ! i)]"
proof -
  let ?ms = "hl_monitor (w_health w)"
  let ?w1 = "monitor_upd i (\<lambda>m. m\<lparr>mo_countdown := mo_period m\<rparr>) w"
  obtain st x w2 where c: "health_run_check E (hl_monitor (w_health ?w1) ! i) ?w1 = (st, x, w2)"
    by (rule prod_cases3)
  have w2: "hl_monitor (w_health w2) = ?ms[i := (?ms ! i)\<lparr>mo_countdown := mo_period (?ms ! i)\<rparr>]"
    using run_check_keeps [OF assms, of "hl_monitor (w_health ?w1) ! i" ?w1] c
    by (simp add: monitor_upd_def)
  show ?thesis
  proof (cases "length ?ms \<le> i")
    case True
    then show ?thesis by (simp add: health_check_one_def Let_def list_update_beyond)
  next
    case False
    show ?thesis
    proof (cases "1 < mo_countdown (?ms ! i)")
      case True
      then show ?thesis using False
        by (auto simp: health_check_one_def Let_def monitor_after_def monitor_upd_def)
    next
      case nd: False
      then show ?thesis using False c w2
        by (intro exI [of _ "(st, x)"])
          (auto simp: health_check_one_def Let_def monitor_after_def, simp_all add: monitor_upd_def)
    qed
  qed
qed

lemma health_check_monitors:
  assumes "checks_ok E" "length (hl_monitor (w_health w)) \<le> SVC_HEALTH_MONITOR_MAX"
  shows "length (hl_monitor (w_health (health_check E w))) = length (hl_monitor (w_health w)) \<and>
    (\<forall>i < length (hl_monitor (w_health w)).
      \<exists>r. hl_monitor (w_health (health_check E w)) ! i = monitor_after r (hl_monitor (w_health w) ! i))"
proof -
  have "length (hl_monitor (w_health (fold (health_check_one E) [0..<n] w))) = length (hl_monitor (w_health w)) \<and>
    (\<forall>i < length (hl_monitor (w_health w)).
      if i < n then \<exists>r. hl_monitor (w_health (fold (health_check_one E) [0..<n] w)) ! i =
          monitor_after r (hl_monitor (w_health w) ! i)
      else hl_monitor (w_health (fold (health_check_one E) [0..<n] w)) ! i = hl_monitor (w_health w) ! i)" for n
  proof (induction n)
    case (Suc n)
    let ?w = "fold (health_check_one E) [0..<n] w"
    obtain r where r: "hl_monitor (w_health (health_check_one E n ?w)) =
        (hl_monitor (w_health ?w))[n := monitor_after r (hl_monitor (w_health ?w) ! n)]"
      using health_check_one_monitors [OF assms(1)] by blast
    have "\<exists>a b. monitor_after r m = monitor_after (a, b) m" for m by (cases r) auto
    then show ?case using Suc r by (auto simp: nth_list_update less_Suc_eq)
  qed simp
  from this [of SVC_HEALTH_MONITOR_MAX] show ?thesis
    using assms(2) by (auto simp: health_check_def)
qed

text \<open>\<open>a\<close> counts the cycles since the monitor would have run last before its registration.\<close>

definition monitor_phase :: "nat \<Rightarrow> nat \<Rightarrow> monitor \<Rightarrow> bool" where
  "monitor_phase p a m \<longleftrightarrow> 0 < p \<and> mo_period m = of_nat p \<and> mo_countdown m = of_nat (p - a mod p) \<and>
    mo_runs m = of_nat (a div p)"

lemma monitor_phase_step:
  assumes "monitor_phase p a m" "p < 2 ^ 32"
  shows "monitor_phase p (Suc a) (monitor_after r m)"
proof -
  have p: "0 < p" "a mod p < p" using assms(1) by (auto simp: monitor_phase_def)
  have cd: "unat (mo_countdown m) = p - a mod p"
    using assms by (simp add: monitor_phase_def unat_of_nat_eq_u32 del: of_nat_diff)
  have due: "1 < mo_countdown m \<longleftrightarrow> Suc (a mod p) < p"
    unfolding word_less_nat_alt cd using p by auto
  show ?thesis
  proof (cases "Suc (a mod p) < p")
    case True
    have "p - a mod p = Suc (p - Suc (a mod p))" using True by simp
    then have "(of_nat (p - a mod p) :: u32) - 1 = of_nat (p - Suc (a mod p))"
      by (simp only: of_nat_Suc) simp
    then show ?thesis
      using assms(1) True due by (simp add: monitor_phase_def monitor_after_def mod_Suc div_Suc)
  next
    case False
    then have "Suc (a mod p) = p" using p by simp
    then show ?thesis
      using assms(1) due
      by (simp add: monitor_phase_def monitor_after_def monitor_ran_def Let_def mod_Suc div_Suc add.commute)
  qed
qed

lemma health_checks_phase:
  assumes "checks_ok E" "length (hl_monitor (w_health w)) \<le> SVC_HEALTH_MONITOR_MAX"
    and "i < length (hl_monitor (w_health w))" "monitor_phase p a (hl_monitor (w_health w) ! i)" "p < 2 ^ 32"
  shows "length (hl_monitor (w_health ((health_check E ^^ n) w))) = length (hl_monitor (w_health w)) \<and>
    monitor_phase p (a + n) (hl_monitor (w_health ((health_check E ^^ n) w)) ! i)"
proof (induction n)
  case (Suc n)
  let ?w = "(health_check E ^^ n) w"
  have l: "length (hl_monitor (w_health ?w)) \<le> SVC_HEALTH_MONITOR_MAX" using Suc assms(2) by simp
  show ?case
    using health_check_monitors [OF assms(1) l] Suc assms(3,5) monitor_phase_step by fastforce
qed (use assms(4) in simp)

text \<open>C22: A monitor registered as number \<open>i\<close> with period \<open>p\<close> runs in the minor cycles
  i mod p + 1, then every p-th one after it: after n cycles it has run
  (n + p - 1 - i mod p) div p times. So none is starved and monitors of a period are spread.\<close>

theorem health_monitor_schedule:
  assumes "checks_ok E" and "svc_health_register name check ctx cls period tol fault w = (QIRAN_OK, w1)"
    and "n < 2 ^ 31"
  defines "i \<equiv> length (hl_monitor (w_health w))" and "p \<equiv> unat period"
  shows "i < SVC_HEALTH_MONITOR_MAX \<and> unat (mo_runs (hl_monitor (w_health ((health_check E ^^ n) w1)) ! i)) =
    (n + p - 1 - i mod p) div p"
proof -
  have period: "period \<noteq> 0" "0 < p" and i: "i < SVC_HEALTH_MONITOR_MAX"
    using assms(2) by (auto simp: svc_health_register_def Let_def i_def p_def unat_gt_0 split: if_splits)
  have m: "hl_monitor (w_health w1) ! i = \<lparr>mo_name = the name, mo_check = the check, mo_ctx = ctx,
      mo_fault = fault, mo_period = period, mo_tolerance = tol, mo_countdown = of_nat i mod period + 1,
      mo_gating = (cls = SVC_HEALTH_GATING), mo_runs = 0, mo_failures = 0, mo_consecutive = 0,
      mo_last_value = 0, mo_last_status = QIRAN_OK\<rparr>" "length (hl_monitor (w_health w1)) = Suc i"
    using assms(2) by (auto simp: svc_health_register_def Let_def i_def split: if_splits)
  have pb: "p < 2 ^ 32" using unat_u32_less [of period] by (simp add: p_def)
  have im: "i mod p < p" using period by simp
  define a where "a = p - 1 - i mod p"
  have a: "a < p" "a mod p = a" "a div p = 0" "p - a = Suc (i mod p)" using im by (auto simp: a_def)
  have "unat (of_nat i :: u32) = i" using i by (intro unat_of_nat_eq_u32) (simp add: SVC_HEALTH_MONITOR_MAX_def)
  then have "unat (of_nat i mod period) = i mod p" by (simp add: unat_mod p_def)
  then have "of_nat i mod period = (of_nat (i mod p) :: u32)" by (rule unat_eq_of_nat)
  then have ph: "monitor_phase p a (hl_monitor (w_health w1) ! i)"
    using a period by (simp add: monitor_phase_def m(1) p_def add.commute)
  have l: "length (hl_monitor (w_health w1)) \<le> SVC_HEALTH_MONITOR_MAX" "i < length (hl_monitor (w_health w1))"
    using m(2) i by simp_all
  have "mo_runs (hl_monitor (w_health ((health_check E ^^ n) w1)) ! i) = of_nat ((a + n) div p)"
    using health_checks_phase [OF assms(1) l ph pb, of n] by (simp add: monitor_phase_def)
  moreover have "(a + n) div p < 4294967296"
  proof (cases "p \<le> 1")
    case True
    then have "p = 1" "a = 0" using period a by auto
    then show ?thesis using assms(3) by simp
  next
    case False
    then have "(a + n) div p \<le> (a + n) div 2" using div_le_mono2 [of 2 p "a + n"] by simp
    also have "\<dots> < 4294967296" using a pb assms(3) by simp
    finally show ?thesis .
  qed
  ultimately have "unat (mo_runs (hl_monitor (w_health ((health_check E ^^ n) w1)) ! i)) = (a + n) div p"
    by (simp add: unat_of_nat_eq_u32)
  moreover have "a + n = n + p - 1 - i mod p" using im by (simp add: a_def)
  ultimately show ?thesis using i by simp
qed

text \<open>The results of successive runs of a monitor, oldest first.\<close>

definition monitor_runs :: "(qiran_status \<times> u32) list \<Rightarrow> monitor \<Rightarrow> monitor" where
  "monitor_runs rs m = fold (\<lambda>r. monitor_ran (fst r) (snd r)) rs m"

text \<open>A monitor affects the verdict exactly when it is a gating one and its most recent runs,
  more of them than its tolerance, all failed; one run that passes withdraws it.\<close>

theorem health_monitor_tolerance:
  assumes "mo_consecutive m = 0" "length rs < 2 ^ 32"
  shows "contributing (monitor_runs rs m) \<longleftrightarrow>
    mo_gating m \<and> unat (mo_tolerance m) < length (takeWhile (\<lambda>r. fst r \<noteq> QIRAN_OK) (rev rs))"
proof -
  have "mo_consecutive (monitor_runs rs m) = of_nat (length (takeWhile (\<lambda>r. fst r \<noteq> QIRAN_OK) (rev rs))) \<and>
    mo_gating (monitor_runs rs m) = mo_gating m \<and> mo_tolerance (monitor_runs rs m) = mo_tolerance m"
  proof (induction rs rule: rev_induct)
    case (snoc r rs)
    have "monitor_runs (rs @ [r]) m = monitor_ran (fst r) (snd r) (monitor_runs rs m)"
      by (simp add: monitor_runs_def)
    then show ?case using snoc by (simp add: monitor_ran_def Let_def)
  qed (use assms(1) in \<open>simp add: monitor_runs_def\<close>)
  moreover have "length (takeWhile (\<lambda>r. fst r \<noteq> QIRAN_OK) (rev rs)) < 2 ^ 32"
    using assms(2) length_takeWhile_le [of "\<lambda>r. fst r \<noteq> QIRAN_OK" "rev rs"] by simp
  ultimately show ?thesis
    by (simp add: contributing_def word_less_nat_alt unat_of_nat_eq_u32)
qed

text \<open>
  The executive's timing monitor has tolerance two: two late cycles in a row leave the verdict
  healthy, a third one fails it.
\<close>

lemma exec_timing_tolerance:
  assumes "hl_monitor (w_health (svc_health_init w)) ! 0 = m" "n < 2 ^ 32"
  shows "contributing (monitor_runs (replicate n (QIRAN_ERR_TIMEOUT, v)) m) \<longleftrightarrow> 2 < n"
proof -
  have m: "mo_gating m" "mo_tolerance m = 2" "mo_consecutive m = 0"
    using assms(1) by (auto simp: svc_health_init_def svc_health_register_def Let_def
        SVC_HEALTH_MONITOR_MAX_def cfg_consts)
  have "mo_consecutive (monitor_runs (replicate n (QIRAN_ERR_TIMEOUT, v)) m) = of_nat n \<and>
    mo_gating (monitor_runs (replicate n (QIRAN_ERR_TIMEOUT, v)) m) \<and>
    mo_tolerance (monitor_runs (replicate n (QIRAN_ERR_TIMEOUT, v)) m) = 2"
  proof (induction n)
    case (Suc n)
    then show ?case
      by (simp add: monitor_runs_def monitor_ran_def Let_def replicate_append_same [symmetric] add.commute
          del: replicate.simps replicate_append_same)
  qed (use m in \<open>simp add: monitor_runs_def\<close>)
  then show ?thesis using assms(2) by (simp add: contributing_def word_less_nat_alt unat_of_nat_eq_u32)
qed

subsection \<open>Witnesses\<close>

definition health_env0 :: "health_world health_env" where
  "health_env0 = \<lparr>he_config = \<lparr>ce_read = (\<lambda>_ _ _ w. (QIRAN_ERR_HARDWARE, [], w)),
       ce_write = (\<lambda>_ _ _ w. (QIRAN_ERR_HARDWARE, w))\<rparr>,
     he_check = (\<lambda>_ _ w. (QIRAN_OK, 5, w)), he_arm = (\<lambda>_ _ w. (QIRAN_OK, w)), he_kick = (\<lambda>_ w. w)\<rparr>"

definition health_world0 :: health_world where
  "health_world0 = config_world.extend config_world0
     \<lparr>w_health = \<lparr>hl_monitor = [], hl_state = QIRAN_HEALTH_HEALTHY, hl_transitions = 0, hl_seen_overruns = 0\<rparr>,
      w_watchdog = \<lparr>wd_backend = \<lparr>wb_arm = Some 0, wb_kick = Some 1\<rparr>, wd_armed = True, wd_suppressed = 0\<rparr>\<rparr>"

definition health_world1 :: health_world where
  "health_world1 = snd (svc_health_register (Some ''temperature'') (Some (Ext_check 4)) None
     SVC_HEALTH_ADVISORY 10 0 QIRAN_FAULT_TEMPERATURE (svc_health_init health_world0))"

theorem health_monitor_schedule_witness:
  "unat (mo_runs (hl_monitor (w_health ((health_check health_env0 ^^ 25) health_world1)) ! 2)) = 3"
proof -
  let ?w = "svc_health_init health_world0"
  have n: "length (hl_monitor (w_health ?w)) = 2"
    by (simp add: svc_health_init_def svc_health_register_def Let_def SVC_HEALTH_MONITOR_MAX_def cfg_consts)
  have "svc_health_register (Some ''temperature'') (Some (Ext_check 4)) None
     SVC_HEALTH_ADVISORY 10 0 QIRAN_FAULT_TEMPERATURE ?w = (QIRAN_OK, health_world1)"
    using n by (simp add: health_world1_def svc_health_register_def Let_def SVC_HEALTH_MONITOR_MAX_def)
  moreover have "checks_ok health_env0" by (simp add: checks_ok_def health_env0_def)
  ultimately show ?thesis using health_monitor_schedule [of health_env0 _ _ _ _ 10 _ _ ?w health_world1 25] n
    by simp
qed

theorem health_monitor_tolerance_witness:
  "\<exists>m. mo_consecutive m = 0 \<and> \<not> contributing (monitor_runs [(QIRAN_ERR_TIMEOUT, 1), (QIRAN_OK, 1)] m)"
proof -
  let ?m = "\<lparr>mo_name = ''x'', mo_check = Check_exec_timing, mo_ctx = None, mo_fault = QIRAN_FAULT_NONE,
    mo_period = 1, mo_tolerance = 0, mo_countdown = 1, mo_gating = True, mo_runs = 0, mo_failures = 0,
    mo_consecutive = 0, mo_last_value = 0, mo_last_status = QIRAN_OK\<rparr>"
  show ?thesis
    using health_monitor_tolerance [of ?m "[(QIRAN_ERR_TIMEOUT, 1), (QIRAN_OK, 1)]"]
    by (intro exI [of _ ?m]) simp
qed

end
