(* ===== verification/Mission_Seq.thy ===== *)
theory Mission_Seq
  imports Svc_Health
begin

section \<open>The mission sequence: \<^verbatim>\<open>src/mission/mission_seq.c\<close>\<close>

text \<open>
  One position in a linear list of stages, moved by what the current stage's step returns. The
  steps are registered from outside; the environment says what they do with the result record
  they are given. \<^term>\<open>STAGE_COUNT\<close> stands for every stage out of range and
  \<^term>\<open>STEP_INVALID\<close> for every result out of range. The names of the stages are in \<open>Exec_Major\<close>.
\<close>

datatype mission_stage =
    STAGE_BOOT | STAGE_PRECOND | STAGE_LASER_BRINGUP | STAGE_MRR_TUNE | STAGE_CROW_TUNE
  | STAGE_UMZI_TUNE | STAGE_DLI_LOCK | STAGE_SPAD_ENABLE | STAGE_PVS_T1 | STAGE_PVS_T2
  | STAGE_EXPERIMENT | STAGE_PROCESS | STAGE_DATA_HANDLING | STAGE_COUNT

definition mission_stages :: "mission_stage list" where
  "mission_stages = [STAGE_BOOT, STAGE_PRECOND, STAGE_LASER_BRINGUP, STAGE_MRR_TUNE, STAGE_CROW_TUNE,
     STAGE_UMZI_TUNE, STAGE_DLI_LOCK, STAGE_SPAD_ENABLE, STAGE_PVS_T1, STAGE_PVS_T2,
     STAGE_EXPERIMENT, STAGE_PROCESS, STAGE_DATA_HANDLING]"

definition stage_idx :: "mission_stage \<Rightarrow> nat" where
  "stage_idx s = length (takeWhile (\<lambda>t. t \<noteq> s) mission_stages)"

definition stage_of :: "nat \<Rightarrow> mission_stage" where
  "stage_of i = (if i < length mission_stages then mission_stages ! i else STAGE_COUNT)"

datatype mission_step_result =
  STEP_WORKING | STEP_DONE | STEP_RETRY | STEP_BACK | STEP_ABORT | STEP_INVALID

record mission_step =
  ms_result :: mission_step_result
  ms_back_to :: mission_stage
  ms_fault :: qiran_fault_id
  ms_detail :: u32

record stage_def =
  sd_fault :: qiran_fault_id
  sd_budget :: svc_config_param

fun k_stage :: "mission_stage \<Rightarrow> stage_def" where
  "k_stage STAGE_BOOT = \<lparr>sd_fault = QIRAN_FAULT_DEVINIT, sd_budget = SVC_CONFIG_PARAM_COUNT\<rparr>"
| "k_stage STAGE_PRECOND = \<lparr>sd_fault = QIRAN_FAULT_PRECOND, sd_budget = SVC_CONFIG_PARAM_COUNT\<rparr>"
| "k_stage STAGE_LASER_BRINGUP = \<lparr>sd_fault = QIRAN_FAULT_LASER_TEC, sd_budget = CFG_LASER_TEC_TIMEOUT_MS\<rparr>"
| "k_stage STAGE_MRR_TUNE = \<lparr>sd_fault = QIRAN_FAULT_MRR_LOCK, sd_budget = CFG_MRR_BUDGET_MS\<rparr>"
| "k_stage STAGE_CROW_TUNE = \<lparr>sd_fault = QIRAN_FAULT_CROW_TUNE, sd_budget = CFG_CROW_BUDGET_MS\<rparr>"
| "k_stage STAGE_UMZI_TUNE = \<lparr>sd_fault = QIRAN_FAULT_UMZI_TUNE, sd_budget = CFG_UMZI_BUDGET_MS\<rparr>"
| "k_stage STAGE_DLI_LOCK = \<lparr>sd_fault = QIRAN_FAULT_DLI_LOCK, sd_budget = CFG_DLI_BUDGET_MS\<rparr>"
| "k_stage STAGE_SPAD_ENABLE = \<lparr>sd_fault = QIRAN_FAULT_SPAD_OPTICAL_POWER, sd_budget = CFG_SPAD_BUDGET_MS\<rparr>"
| "k_stage STAGE_PVS_T1 = \<lparr>sd_fault = QIRAN_FAULT_MRR_RELOCK, sd_budget = CFG_PVS_T1_BUDGET_MS\<rparr>"
| "k_stage STAGE_PVS_T2 = \<lparr>sd_fault = QIRAN_FAULT_MRR_RELOCK, sd_budget = CFG_PVS_T2_BUDGET_MS\<rparr>"
| "k_stage STAGE_EXPERIMENT = \<lparr>sd_fault = QIRAN_FAULT_DDR_OVERRUN, sd_budget = SVC_CONFIG_PARAM_COUNT\<rparr>"
| "k_stage STAGE_PROCESS = \<lparr>sd_fault = QIRAN_FAULT_DDR_OVERRUN, sd_budget = SVC_CONFIG_PARAM_COUNT\<rparr>"
| "k_stage STAGE_DATA_HANDLING = \<lparr>sd_fault = QIRAN_FAULT_NAND_WRITE, sd_budget = SVC_CONFIG_PARAM_COUNT\<rparr>"
| "k_stage STAGE_COUNT = \<lparr>sd_fault = QIRAN_FAULT_COUNT, sd_budget = SVC_CONFIG_PARAM_COUNT\<rparr>"

record mission_state =
  mi_step :: "mission_stage \<Rightarrow> handle option"
  mi_ctx :: "mission_stage \<Rightarrow> handle option"
  mi_entries :: "mission_stage \<Rightarrow> u32"
  mi_stage :: mission_stage
  mi_entered_ms :: u64
  mi_attempts :: u32
  mi_timed_out :: bool
  mi_stalled :: bool
  mi_aborted :: bool
  mi_abort_cause :: qiran_fault_id
  mi_reentries :: u32
  mi_payload :: qiran_payload_status

record mission_world = health_world +
  w_mission :: mission_state

record 'w mission_env =
  me_step :: "handle \<Rightarrow> handle option \<Rightarrow> mission_step \<Rightarrow> 'w \<Rightarrow> mission_step \<times> 'w"
  me_fdir :: "'w fdir_env"

definition mission_upd :: "(mission_state \<Rightarrow> mission_state) \<Rightarrow> 'a mission_world_scheme \<Rightarrow> 'a mission_world_scheme" where
  "mission_upd f w = w\<lparr>w_mission := f (w_mission w)\<rparr>"

definition mission_enter :: "mission_stage \<Rightarrow> 'a mission_world_scheme \<Rightarrow> 'a mission_world_scheme" where
  "mission_enter stage w =
    (let w = mission_upd (\<lambda>s. s\<lparr>mi_stage := stage\<rparr>) w;
         (now, w) = svc_time_now_ms w;
         w = mission_upd (\<lambda>s. s\<lparr>mi_entered_ms := now, mi_timed_out := False,
               mi_entries := (mi_entries s)(stage := mi_entries s stage + 1)\<rparr>) w
     in svc_log_event (of_nat (stage_idx stage)) (mi_entries (w_mission w) stage) w)"

definition mission_seq_init :: "'a mission_world_scheme \<Rightarrow> 'a mission_world_scheme" where
  "mission_seq_init w =
    (let (now, w) = svc_time_now_ms w
     in w\<lparr>w_mission := \<lparr>mi_step = (\<lambda>_. None), mi_ctx = (\<lambda>_. None),
          mi_entries = (\<lambda>_. 0)(STAGE_BOOT := 1), mi_stage = STAGE_BOOT, mi_entered_ms = now,
          mi_attempts = 0, mi_timed_out = False, mi_stalled = False, mi_aborted = False,
          mi_abort_cause = QIRAN_FAULT_NONE, mi_reentries = 0,
          mi_payload = QIRAN_PAYLOAD_NON_OPERATIONAL\<rparr>\<rparr>)"

definition mission_seq_register ::
  "mission_stage \<Rightarrow> handle option \<Rightarrow> handle option \<Rightarrow> 'a mission_world_scheme \<Rightarrow>
   qiran_status \<times> 'a mission_world_scheme" where
  "mission_seq_register stage step ctx w =
    (if stage = STAGE_COUNT \<or> step = None then (QIRAN_ERR_PARAM, w)
     else if mi_step (w_mission w) stage \<noteq> None then (QIRAN_ERR_STATE, w)
     else (QIRAN_OK, mission_upd (\<lambda>s. s\<lparr>mi_step := (mi_step s)(stage := step),
                       mi_ctx := (mi_ctx s)(stage := ctx)\<rparr>) w))"

definition mission_stage_elapsed_ms :: "'a mission_world_scheme \<Rightarrow> u32 \<times> 'a mission_world_scheme" where
  "mission_stage_elapsed_ms w =
    (let (now, w) = svc_time_now_ms w in (ucast (now - mi_entered_ms (w_mission w)), w))"

definition mission_check_budget :: "'a mission_world_scheme \<Rightarrow> 'a mission_world_scheme" where
  "mission_check_budget w =
    (let s = w_mission w; param = sd_budget (k_stage (mi_stage s))
     in if param = SVC_CONFIG_PARAM_COUNT \<or> mi_timed_out s then w
        else (let budget = svc_config_get param w
              in if sint budget \<le> 0 then w
                 else (let (elapsed, w) = mission_stage_elapsed_ms w
                       in if budget < elapsed
                          then svc_fdir_report QIRAN_FAULT_STAGE_TIMEOUT
                                 (push_bit 24 (of_nat (stage_idx (mi_stage (w_mission w)))) OR (elapsed AND 0x00FFFFFF))
                                 (mission_upd (\<lambda>s. s\<lparr>mi_timed_out := True\<rparr>) w)
                          else w)))"

text \<open>What is done with the step's result; \<open>fault\<close> is the class the result is charged to.\<close>

definition mission_apply ::
  "'a mission_world_scheme mission_env \<Rightarrow> mission_step \<Rightarrow> qiran_fault_id \<Rightarrow> 'a mission_world_scheme \<Rightarrow>
   'a mission_world_scheme" where
  "mission_apply E out fault w =
    (case ms_result out of
       STEP_WORKING \<Rightarrow> w
     | STEP_DONE \<Rightarrow>
         (let w = svc_fdir_clear fault w;
              w = mission_upd (\<lambda>s. s\<lparr>mi_attempts := 0\<rparr>) w;
              w = (if mi_stage (w_mission w) = STAGE_SPAD_ENABLE
                   then mission_upd (\<lambda>s. s\<lparr>mi_payload := QIRAN_PAYLOAD_OPERATIONAL\<rparr>) w else w);
              i = stage_idx (mi_stage (w_mission w))
          in if i < length mission_stages - 1 then mission_enter (stage_of (i + 1)) w else w)
     | STEP_RETRY \<Rightarrow>
         (let w = mission_upd (\<lambda>s. s\<lparr>mi_attempts := mi_attempts s + 1\<rparr>) w;
              w = svc_fdir_report fault (ms_detail out) w
          in if svc_fdir_retries_exhausted fault w then mission_upd (\<lambda>s. s\<lparr>mi_stalled := True\<rparr>) w
             else mission_enter (mi_stage (w_mission w)) w)
     | STEP_BACK \<Rightarrow>
         (let w = svc_fdir_report fault (ms_detail out) w
          in if stage_idx (mi_stage (w_mission w)) \<le> stage_idx (ms_back_to out)
             then mission_upd (\<lambda>s. s\<lparr>mi_stalled := True\<rparr>) w
             else (let w = mission_upd (\<lambda>s. s\<lparr>mi_attempts := 0, mi_reentries := mi_reentries s + 1\<rparr>) w;
                       w = svc_fdir_reentry_note (me_fdir E) fault w
                   in mission_enter (ms_back_to out) w))
     | _ \<Rightarrow>
         (let w = svc_fdir_report fault (ms_detail out) w
          in mission_upd (\<lambda>s. s\<lparr>mi_stalled := True\<rparr>) w))"

definition mission_seq_step ::
  "'a mission_world_scheme mission_env \<Rightarrow> 'a mission_world_scheme \<Rightarrow> 'a mission_world_scheme" where
  "mission_seq_step E w =
    (let def = k_stage (mi_stage (w_mission w))
     in if mi_aborted (w_mission w) \<or> mi_stalled (w_mission w) then w
        else (let w = mission_check_budget w; s = w_mission w
              in case mi_step s (mi_stage s) of
                   None \<Rightarrow> w
                 | Some step \<Rightarrow>
                     (let (out, w) = me_step E step (mi_ctx s (mi_stage s))
                            \<lparr>ms_result = STEP_WORKING, ms_back_to = mi_stage s,
                             ms_fault = QIRAN_FAULT_NONE, ms_detail = 0\<rparr> w;
                          fault = (if ms_fault out \<noteq> QIRAN_FAULT_NONE then ms_fault out else sd_fault def)
                      in mission_apply E out fault w)))"

definition mission_stage_get :: "'a mission_world_scheme \<Rightarrow> mission_stage" where
  "mission_stage_get w = mi_stage (w_mission w)"

definition mission_stage_attempts :: "'a mission_world_scheme \<Rightarrow> u32" where
  "mission_stage_attempts w = mi_attempts (w_mission w)"

definition mission_stage_entries :: "mission_stage \<Rightarrow> 'a mission_world_scheme \<Rightarrow> u32" where
  "mission_stage_entries stage w = (if stage = STAGE_COUNT then 0 else mi_entries (w_mission w) stage)"

definition mission_stalled :: "'a mission_world_scheme \<Rightarrow> bool" where
  "mission_stalled w = mi_stalled (w_mission w)"

definition mission_abort :: "qiran_fault_id \<Rightarrow> 'a mission_world_scheme \<Rightarrow> 'a mission_world_scheme" where
  "mission_abort cause w =
    (if mi_aborted (w_mission w) then w
     else (let w = mission_upd (\<lambda>s. s\<lparr>mi_aborted := True, mi_abort_cause := cause,
                     mi_payload := QIRAN_PAYLOAD_NON_OPERATIONAL\<rparr>) w
           in svc_log_fault cause QIRAN_SEV_SEVERE (of_nat (stage_idx (mi_stage (w_mission w)))) w))"

definition mission_aborted :: "'a mission_world_scheme \<Rightarrow> bool" where
  "mission_aborted w = mi_aborted (w_mission w)"

definition mission_abort_cause :: "'a mission_world_scheme \<Rightarrow> qiran_fault_id" where
  "mission_abort_cause w = mi_abort_cause (w_mission w)"

definition mission_reentries :: "'a mission_world_scheme \<Rightarrow> u32" where
  "mission_reentries w = mi_reentries (w_mission w)"

definition mission_payload_status :: "'a mission_world_scheme \<Rightarrow> qiran_payload_status" where
  "mission_payload_status w = mi_payload (w_mission w)"

definition mission_payload_status_set ::
  "qiran_payload_status \<Rightarrow> 'a mission_world_scheme \<Rightarrow> 'a mission_world_scheme" where
  "mission_payload_status_set st w = mission_upd (\<lambda>s. s\<lparr>mi_payload := st\<rparr>) w"

subsection \<open>What one step does to the position\<close>

text \<open>What the component relies on from registered code: the steps and the observer's link do not
  call back into the sequence.\<close>

definition steps_ok :: "'a mission_world_scheme mission_env \<Rightarrow> bool" where
  "steps_ok E \<longleftrightarrow>
    (\<forall>h c out w. w_mission (snd (me_step E h c out w)) = w_mission w) \<and>
    (\<forall>h f v d w. w_mission (snd (fe_report_flag (me_fdir E) h f v d w)) = w_mission w) \<and>
    (\<forall>h f w. w_mission (snd (fe_request_power_reset (me_fdir E) h f w)) = w_mission w)"

lemma stage_idx_facts:
  "stage_idx s < 13 \<longleftrightarrow> s \<noteq> STAGE_COUNT" "stage_idx s \<le> 13" "stage_of (stage_idx s) = s"
  "length mission_stages = 13"
  by (cases s; simp add: stage_idx_def mission_stages_def stage_of_def)+

lemma stage_idx_of: "stage_idx (stage_of i) = (if i < 13 then i else 13)"
proof (cases "i < 13")
  case True
  moreover have "distinct mission_stages" "length mission_stages = 13" by (simp_all add: mission_stages_def)
  ultimately show ?thesis by (simp add: stage_of_def stage_idx_def takeWhile_neq_nth)
next
  case False
  then show ?thesis by (simp add: stage_of_def mission_stages_def stage_idx_def)
qed

lemma stage_idx_inj: "stage_idx s = stage_idx t \<longleftrightarrow> s = t"
  using stage_idx_facts(3) by metis

lemma fdir_mission [simp]:
  "w_mission (svc_fdir_report f d w) = w_mission w" "w_mission (svc_fdir_clear f w) = w_mission w"
  "w_mission (svc_log_event c d w) = w_mission w" "w_mission (svc_log_fault f v d w) = w_mission w"
  by (simp_all add: svc_fdir_report_eq svc_fdir_clear_eq svc_log_eqs)

lemma now_mission [simp]: "w_mission (snd (svc_time_now_ms w)) = w_mission w"
  by (simp add: svc_time_now_ms_def Let_def)

lemma mission_upd_mission [simp]: "w_mission (mission_upd f w) = f (w_mission w)"
  by (simp add: mission_upd_def)

lemma mission_enter_fields [simp]:
  "mi_stage (w_mission (mission_enter s w)) = s"
  "mi_stalled (w_mission (mission_enter s w)) = mi_stalled (w_mission w)"
  "mi_aborted (w_mission (mission_enter s w)) = mi_aborted (w_mission w)"
  "mi_attempts (w_mission (mission_enter s w)) = mi_attempts (w_mission w)"
  "mi_step (w_mission (mission_enter s w)) = mi_step (w_mission w)"
  by (simp_all add: mission_enter_def Let_def svc_time_now_ms_def)

lemma mission_escalate:
  assumes "steps_ok E"
  shows "w_mission (fdir_escalate (me_fdir E) f d w) = w_mission w"
  using assms by (cases "fp_escalation (k_policy f)")
    (simp_all add: fdir_escalate_def Let_def case_prod_beta steps_ok_def)

lemma mission_reentry:
  assumes "steps_ok E"
  shows "w_mission (svc_fdir_reentry_note (me_fdir E) f w) = w_mission w"
  using mission_escalate [OF assms] by (simp add: svc_fdir_reentry_note_def Let_def svc_log_eqs)

lemma mission_check_budget_fields:
  "mi_stage (w_mission (mission_check_budget w)) = mi_stage (w_mission w)"
  "mi_stalled (w_mission (mission_check_budget w)) = mi_stalled (w_mission w)"
  "mi_aborted (w_mission (mission_check_budget w)) = mi_aborted (w_mission w)"
  "mi_attempts (w_mission (mission_check_budget w)) = mi_attempts (w_mission w)"
  "mi_step (w_mission (mission_check_budget w)) = mi_step (w_mission w)"
  "mi_ctx (w_mission (mission_check_budget w)) = mi_ctx (w_mission w)"
  by (simp_all add: mission_check_budget_def mission_stage_elapsed_ms_def Let_def case_prod_beta)

text \<open>The abstract sequence: a position among the thirteen stages, and whether it holds.\<close>

definition mission_next :: "mission_step_result \<Rightarrow> nat \<Rightarrow> bool \<Rightarrow> nat \<Rightarrow> nat \<times> bool" where
  "mission_next r back exhausted i =
    (case r of
       STEP_WORKING \<Rightarrow> (i, False)
     | STEP_DONE \<Rightarrow> (min (i + 1) 12, False)
     | STEP_RETRY \<Rightarrow> (i, exhausted)
     | STEP_BACK \<Rightarrow> if back < i then (back, False) else (i, True)
     | _ \<Rightarrow> (i, True))"

definition mission_pos :: "'a mission_world_scheme \<Rightarrow> nat \<times> bool" where
  "mission_pos w = (stage_idx (mission_stage_get w), mission_stalled w)"

lemma mission_apply_pos:
  assumes "steps_ok E" "mission_stage_get w \<noteq> STAGE_COUNT" "\<not> mission_stalled w"
  shows "mission_pos (mission_apply E out f w) =
      mission_next (ms_result out) (stage_idx (ms_back_to out))
        (svc_fdir_retries_exhausted f (svc_fdir_report f (ms_detail out) w)) (stage_idx (mission_stage_get w)) \<and>
    mission_aborted (mission_apply E out f w) = mission_aborted w \<and>
    mi_step (w_mission (mission_apply E out f w)) = mi_step (w_mission w)"
proof -
  have i: "stage_idx (mi_stage (w_mission w)) < 13"
    using assms(2) stage_idx_facts(1) by (simp add: mission_stage_get_def)
  have ex: "svc_fdir_retries_exhausted f (svc_fdir_report f d (mission_upd g w)) =
      svc_fdir_retries_exhausted f (svc_fdir_report f d w)" for d g
    by (simp add: svc_fdir_retries_exhausted_def svc_fdir_occurrences_def fdir_unserviced_def
        svc_fdir_report_eq mission_upd_def exec_raw_tick_count_def)
  show ?thesis
    using assms(2,3) i
    by (cases "ms_result out")
      (auto simp: mission_apply_def mission_next_def mission_pos_def mission_stage_get_def mission_stalled_def
        mission_aborted_def Let_def stage_idx_facts(4) stage_idx_of ex mission_reentry [OF assms(1)])
qed

subsection \<open>Properties\<close>

text \<open>C5: One step of the sequence implements the abstract sequence on every result its stage can
  return: done moves to the next stage (the last one stays), retry repeats the stage and holds it
  when the retries of its fault class are spent, back moves to a strictly earlier stage and
  holds instead of moving forward, an abort or an unknown result holds, and a sequence that is
  aborted or held does not change at all.\<close>

theorem mission_step_refines:
  assumes "steps_ok E" "mission_stage_get w \<noteq> STAGE_COUNT"
    and "mi_step (w_mission w) (mission_stage_get w) = Some h"
  defines "v \<equiv> mission_check_budget w"
  defines "r \<equiv> me_step E h (mi_ctx (w_mission w) (mission_stage_get w)) \<lparr>ms_result = STEP_WORKING,
      ms_back_to = mission_stage_get w, ms_fault = QIRAN_FAULT_NONE, ms_detail = 0\<rparr> v"
  defines "f \<equiv> (if ms_fault (fst r) \<noteq> QIRAN_FAULT_NONE then ms_fault (fst r) else sd_fault (k_stage (mission_stage_get w)))"
  shows "if mission_aborted w \<or> mission_stalled w then mission_seq_step E w = w
    else mission_pos (mission_seq_step E w) =
      mission_next (ms_result (fst r)) (stage_idx (ms_back_to (fst r)))
        (svc_fdir_retries_exhausted f (svc_fdir_report f (ms_detail (fst r)) (snd r))) (fst (mission_pos w))"
proof (cases "mission_aborted w \<or> mission_stalled w")
  case True
  then show ?thesis by (auto simp: mission_seq_step_def mission_aborted_def mission_stalled_def)
next
  case False
  have m: "w_mission (snd r) = w_mission v" using assms(1) by (simp add: r_def steps_ok_def)
  have same: "mission_stage_get (snd r) = mission_stage_get w" "mission_stalled (snd r) = mission_stalled w"
    by (simp_all add: mission_stage_get_def mission_stalled_def m v_def mission_check_budget_fields)
  have e: "mission_seq_step E w = mission_apply E (fst r) f (snd r)"
    using False assms(3)
    by (simp add: mission_seq_step_def Let_def case_prod_beta mission_aborted_def mission_stalled_def
        mission_check_budget_fields mission_stage_get_def r_def v_def f_def)
  show ?thesis
    using mission_apply_pos [OF assms(1), of "snd r" "fst r" f] same False assms(2)
    unfolding e by (simp add: mission_pos_def)
qed

lemma mission_step_cases:
  assumes "steps_ok E" "mission_stage_get w \<noteq> STAGE_COUNT"
  shows "stage_idx (mission_stage_get (mission_seq_step E w)) \<le> Suc (stage_idx (mission_stage_get w)) \<and>
    mission_stage_get (mission_seq_step E w) \<noteq> STAGE_COUNT"
proof (cases "mission_aborted w \<or> mission_stalled w")
  case True
  then show ?thesis using assms(2)
    by (auto simp: mission_seq_step_def mission_aborted_def mission_stalled_def)
next
  case False
  let ?v = "mission_check_budget w"
  show ?thesis
  proof (cases "mi_step (w_mission w) (mission_stage_get w)")
    case None
    then have "mission_seq_step E w = ?v" using False
      by (simp add: mission_seq_step_def Let_def mission_aborted_def mission_stalled_def
          mission_check_budget_fields mission_stage_get_def)
    then show ?thesis using assms(2) by (simp add: mission_stage_get_def mission_check_budget_fields)
  next
    case (Some h)
    define r where "r = me_step E h (mi_ctx (w_mission w) (mission_stage_get w)) \<lparr>ms_result = STEP_WORKING,
      ms_back_to = mission_stage_get w, ms_fault = QIRAN_FAULT_NONE, ms_detail = 0\<rparr> ?v"
    have m: "w_mission (snd r) = w_mission ?v" using assms(1) by (simp add: r_def steps_ok_def)
    have same: "mission_stage_get (snd r) = mission_stage_get w" "mission_stalled (snd r) = mission_stalled w"
      by (simp_all add: mission_stage_get_def mission_stalled_def m mission_check_budget_fields)
    obtain f where e: "mission_seq_step E w = mission_apply E (fst r) f (snd r)"
      using False Some
      by (simp add: mission_seq_step_def Let_def case_prod_beta mission_aborted_def mission_stalled_def
          mission_check_budget_fields mission_stage_get_def r_def)
    have "fst (mission_pos (mission_seq_step E w)) \<le> Suc (stage_idx (mission_stage_get w)) \<and>
        fst (mission_pos (mission_seq_step E w)) < 13"
      using mission_apply_pos [OF assms(1), of "snd r" "fst r" f] same False assms(2)
        stage_idx_facts(1) [of "mission_stage_get w"] unfolding e
      by (cases "ms_result (fst r)") (auto simp: mission_next_def)
    then show ?thesis using stage_idx_facts(1) by (simp add: mission_pos_def)
  qed
qed

text \<open>No stage is skipped: whatever the steps return, when the sequence has come from stage
  \<open>s\<close> to a later one, it has been in every stage between them on the way.\<close>

theorem mission_no_stage_skipped:
  assumes "steps_ok E" "mission_stage_get w \<noteq> STAGE_COUNT"
    and "stage_idx (mission_stage_get w) \<le> stage_idx t"
    and "stage_idx t \<le> stage_idx (mission_stage_get ((mission_seq_step E ^^ n) w))"
  shows "\<exists>m \<le> n. mission_stage_get ((mission_seq_step E ^^ m) w) = t"
proof -
  have "mission_stage_get ((mission_seq_step E ^^ n) w) \<noteq> STAGE_COUNT \<and>
    (\<forall>t. stage_idx (mission_stage_get w) \<le> stage_idx t \<and>
       stage_idx t \<le> stage_idx (mission_stage_get ((mission_seq_step E ^^ n) w)) \<longrightarrow>
       (\<exists>m \<le> n. mission_stage_get ((mission_seq_step E ^^ m) w) = t))" for n
  proof (induction n)
    case 0
    then show ?case using assms(2) stage_idx_inj by fastforce
  next
    case (Suc n)
    let ?w = "(mission_seq_step E ^^ n) w"
    have st: "stage_idx (mission_stage_get (mission_seq_step E ?w)) \<le> Suc (stage_idx (mission_stage_get ?w))"
      "mission_stage_get (mission_seq_step E ?w) \<noteq> STAGE_COUNT"
      using mission_step_cases [OF assms(1)] Suc by auto
    show ?case
    proof (intro conjI allI impI)
      show "mission_stage_get ((mission_seq_step E ^^ Suc n) w) \<noteq> STAGE_COUNT" using st(2) by simp
      fix t assume t: "stage_idx (mission_stage_get w) \<le> stage_idx t \<and>
        stage_idx t \<le> stage_idx (mission_stage_get ((mission_seq_step E ^^ Suc n) w))"
      show "\<exists>m \<le> Suc n. mission_stage_get ((mission_seq_step E ^^ m) w) = t"
      proof (cases "stage_idx t \<le> stage_idx (mission_stage_get ?w)")
        case True
        then show ?thesis using Suc t le_SucI by blast
      next
        case False
        then have "stage_idx t = stage_idx (mission_stage_get (mission_seq_step E ?w))" using t st(1) by simp
        then show ?thesis by (intro exI [of _ "Suc n"]) (simp add: stage_idx_inj)
      qed
    qed
  qed
  then show ?thesis using assms(3,4) by blast
qed

lemma mission_service_keeps:
  assumes "steps_ok E"
  shows "w_mission (error_handling_service (me_fdir E) w) = w_mission w"
proof -
  have one: "w_mission (service_class (me_fdir E) f v) = w_mission v" for f and v :: "'a mission_world_scheme"
    using mission_escalate [OF assms]
    by (cases "fp_severity (k_policy f)") (simp_all add: service_class_def fdir_classify_def Let_def)
  have "w_mission (fold (service_class (me_fdir E)) fs v) = w_mission v" for fs and v :: "'a mission_world_scheme"
    by (induction fs arbitrary: v) (simp_all add: one)
  then show ?thesis
    using collect_fdir_only [of w] by (auto simp: error_handling_service_def fdir_only_def)
qed

text \<open>A stage step that fails its attempt every time, for a class of its own, and leaves the fault
  records alone.\<close>

definition always_retries :: "qiran_fault_id \<Rightarrow> 'a mission_world_scheme mission_env \<Rightarrow> bool" where
  "always_retries f E \<longleftrightarrow> (\<forall>h c out w. ms_result (fst (me_step E h c out w)) = STEP_RETRY \<and>
     ms_fault (fst (me_step E h c out w)) = f \<and> w_fdir (snd (me_step E h c out w)) = w_fdir w)"

lemma occurrences_same: "w_fdir v = w_fdir w \<Longrightarrow> svc_fdir_occurrences f v = svc_fdir_occurrences f w"
  by (simp add: svc_fdir_occurrences_def fdir_unserviced_def)

lemma occurrences_report:
  "f \<noteq> QIRAN_FAULT_COUNT \<Longrightarrow> svc_fdir_occurrences f (svc_fdir_report g d w) =
     (if g = f then svc_fdir_occurrences f w + 1 else svc_fdir_occurrences f w)"
  by (simp add: svc_fdir_occurrences_def fdir_unserviced_def svc_fdir_report_eq fdir_counted_def)

lemma mission_enter_fdir [simp]: "w_fdir (mission_enter s w) = w_fdir w"
  by (simp add: mission_enter_def Let_def svc_time_now_ms_def mission_upd_def svc_log_eqs)

lemma check_budget_occurrences:
  assumes "f \<noteq> QIRAN_FAULT_STAGE_TIMEOUT" "f \<noteq> QIRAN_FAULT_COUNT"
  shows "svc_fdir_occurrences f (mission_check_budget w) = svc_fdir_occurrences f w"
proof -
  have "w_fdir (mission_upd g (snd (svc_time_now_ms w))) = w_fdir w" "w_fdir (snd (svc_time_now_ms w)) = w_fdir w" for g
    by (simp_all add: mission_upd_def svc_time_now_ms_def Let_def)
  then show ?thesis
    using assms occurrences_same
    by (auto simp: mission_check_budget_def mission_stage_elapsed_ms_def Let_def case_prod_beta occurrences_report)
qed

lemma mission_retry_step:
  assumes "steps_ok E" "always_retries f E" "f \<noteq> QIRAN_FAULT_STAGE_TIMEOUT" "f \<noteq> QIRAN_FAULT_NONE"
    and "f \<noteq> QIRAN_FAULT_COUNT" "fp_limit (k_policy f) \<noteq> 0"
    and "\<not> mission_aborted w" "\<not> mission_stalled w" "mi_step (w_mission w) (mission_stage_get w) = Some h"
  defines "v \<equiv> mission_seq_step E w"
  shows "mission_stage_get v = mission_stage_get w" "\<not> mission_aborted v" "mi_step (w_mission v) = mi_step (w_mission w)"
    "mission_stage_attempts v = mission_stage_attempts w + 1"
    "svc_fdir_occurrences f v = svc_fdir_occurrences f w + 1"
    "mission_stalled v \<longleftrightarrow> ucast (fp_limit (k_policy f)) \<le> svc_fdir_occurrences f w + 1"
proof -
  let ?u = "mission_check_budget w"
  define r where "r = me_step E h (mi_ctx (w_mission w) (mission_stage_get w)) \<lparr>ms_result = STEP_WORKING,
      ms_back_to = mission_stage_get w, ms_fault = QIRAN_FAULT_NONE, ms_detail = 0\<rparr> ?u"
  have m: "w_mission (snd r) = w_mission ?u" using assms(1) by (simp add: r_def steps_ok_def)
  have fd: "ms_result (fst r) = STEP_RETRY" "ms_fault (fst r) = f" "w_fdir (snd r) = w_fdir ?u"
    using assms(2) by (simp_all add: r_def always_retries_def)
  have e: "v = mission_apply E (fst r) f (snd r)"
    using assms(4,7,8,9) fd(2)
    by (simp add: v_def mission_seq_step_def Let_def case_prod_beta mission_aborted_def mission_stalled_def
        mission_check_budget_fields mission_stage_get_def r_def)
  have occ: "svc_fdir_occurrences f (mission_upd g (snd r)) = svc_fdir_occurrences f w" for g
    using check_budget_occurrences [OF assms(3,5), of w]
      occurrences_same [of "mission_upd g (snd r)" ?u f] by (simp add: mission_upd_def fd(3))
  define y where "y = svc_fdir_report f (ms_detail (fst r)) (mission_upd (\<lambda>s. s\<lparr>mi_attempts := mi_attempts s + 1\<rparr>) (snd r))"
  have yo: "svc_fdir_occurrences f y = svc_fdir_occurrences f w + 1"
    unfolding y_def by (simp add: occurrences_report [OF assms(5)] occ)
  have ym: "w_mission y = (w_mission ?u)\<lparr>mi_attempts := mi_attempts (w_mission ?u) + 1\<rparr>"
    by (simp add: y_def m)
  have ex: "svc_fdir_retries_exhausted f y \<longleftrightarrow> ucast (fp_limit (k_policy f)) \<le> svc_fdir_occurrences f w + 1"
    using assms(5,6) yo by (simp add: svc_fdir_retries_exhausted_def)
  have v: "v = (if svc_fdir_retries_exhausted f y then mission_upd (\<lambda>s. s\<lparr>mi_stalled := True\<rparr>) y
      else mission_enter (mission_stage_get y) y)"
    by (simp add: e mission_apply_def fd(1) y_def Let_def mission_stage_get_def)
  have stall: "\<not> mi_stalled (w_mission ?u)" "\<not> mi_aborted (w_mission ?u)"
    using assms(7,8) by (simp_all add: mission_check_budget_fields mission_aborted_def mission_stalled_def)
  have vo: "svc_fdir_occurrences f v = svc_fdir_occurrences f y"
    unfolding v by (rule occurrences_same) (simp add: mission_upd_def)
  show "svc_fdir_occurrences f v = svc_fdir_occurrences f w + 1" using vo yo by simp
  show "mission_stalled v \<longleftrightarrow> ucast (fp_limit (k_policy f)) \<le> svc_fdir_occurrences f w + 1"
    unfolding ex [symmetric] v using stall by (simp add: mission_stalled_def ym)
  show "mission_stage_get v = mission_stage_get w" "\<not> mission_aborted v" "mi_step (w_mission v) = mi_step (w_mission w)"
    "mission_stage_attempts v = mission_stage_attempts w + 1"
    unfolding v using stall
    by (simp_all add: mission_stage_get_def mission_aborted_def mission_stage_attempts_def ym
        mission_check_budget_fields)
qed

text \<open>C18: The retry limit: a stage that fails every attempt with a critical class of its own is
  repeated until the attempts reach the class's limit and then held there for good, with the
  fault service running in every cycle in between: after \<open>n\<close> cycles it is held iff \<open>n\<close> is at
  least the limit, and it has made the smaller of the two numbers of attempts.\<close>

theorem mission_retry_limit:
  assumes "steps_ok E" "uplink_ok (me_fdir E)" "always_retries f E" "fdir_critical f"
    and "f \<notin> platform_faults" "f \<noteq> QIRAN_FAULT_STAGE_TIMEOUT"
    and "\<not> mission_aborted w" "\<not> mission_stalled w" "mi_step (w_mission w) (mission_stage_get w) = Some h"
    and "svc_fdir_occurrences f w = 0"
  defines "cycle \<equiv> \<lambda>w. error_handling_service (me_fdir E) (mission_seq_step E w)"
    and "L \<equiv> unat (fp_limit (k_policy f))"
  shows "(mission_stalled ((cycle ^^ n) w) \<longleftrightarrow> L \<le> n) \<and> mission_stage_get ((cycle ^^ n) w) = mission_stage_get w \<and>
    mission_stage_attempts ((cycle ^^ n) w) = mission_stage_attempts w + of_nat (min n L)"
proof -
  have f: "f \<noteq> QIRAN_FAULT_NONE" "f \<noteq> QIRAN_FAULT_COUNT" "fp_limit (k_policy f) \<noteq> 0" "0 < L"
    using assms(4) by (auto simp: fdir_critical_def fdir_policy_def L_def unat_gt_0)
  have lim: "L < 65536" using unsigned_less [of "fp_limit (k_policy f)", where ?'a = nat] by (simp add: L_def)
  have ul: "unat (ucast (fp_limit (k_policy f)) :: u32) = L"
    using lim by (simp add: unsigned_ucast_eq take_bit_eq_mod L_def)
  have "let v = (cycle ^^ n) w in
      (mission_stalled v \<longleftrightarrow> L \<le> n) \<and> mission_stage_get v = mission_stage_get w \<and> \<not> mission_aborted v \<and>
      mission_stage_attempts v = mission_stage_attempts w + of_nat (min n L) \<and>
      mi_step (w_mission v) = mi_step (w_mission w) \<and> (n \<le> L \<longrightarrow> svc_fdir_occurrences f v = of_nat n)"
  proof (induction n)
    case 0
    then show ?case using assms(7,8,10) f(4) by (simp add: Let_def)
  next
    case (Suc n)
    let ?v = "(cycle ^^ n) w"
    have keep: "mission_stalled (cycle v) = mission_stalled (mission_seq_step E v)"
        "mission_stage_get (cycle v) = mission_stage_get (mission_seq_step E v)"
        "mission_aborted (cycle v) = mission_aborted (mission_seq_step E v)"
        "mission_stage_attempts (cycle v) = mission_stage_attempts (mission_seq_step E v)"
        "mi_step (w_mission (cycle v)) = mi_step (w_mission (mission_seq_step E v))"
        "svc_fdir_occurrences f (cycle v) = svc_fdir_occurrences f (mission_seq_step E v)" for v
      using mission_service_keeps [OF assms(1)] fdir_occurrences_service [OF assms(2,5) f(1)]
      by (simp_all add: cycle_def mission_stalled_def mission_stage_get_def mission_aborted_def
          mission_stage_attempts_def)
    show ?case
    proof (cases "L \<le> n")
      case True
      then have "mission_seq_step E ?v = ?v" using Suc
        by (simp add: Let_def mission_seq_step_def mission_stalled_def)
      then show ?thesis using Suc True keep [of ?v] by (simp add: Let_def min_def)
    next
      case False
      then have nv: "\<not> mission_aborted ?v" "\<not> mission_stalled ?v"
          "mi_step (w_mission ?v) (mission_stage_get ?v) = Some h" "svc_fdir_occurrences f ?v = of_nat n"
        using Suc assms(9) by (simp_all add: Let_def)
      note st = mission_retry_step [OF assms(1,3,6) f(1-3) nv(1-3)]
      have "unat (of_nat n + 1 :: u32) = Suc n"
        using False lim unat_of_nat_eq_u32 [of "Suc n"] by (simp add: add.commute)
      then have "ucast (fp_limit (k_policy f)) \<le> (of_nat n + 1 :: u32) \<longleftrightarrow> L \<le> Suc n"
        by (simp add: word_le_nat_alt ul)
      then show ?thesis
        using st nv(4) Suc False keep [of ?v] by (simp add: Let_def min_def)
    qed
  qed
  then show ?thesis by (simp add: Let_def)
qed

text \<open>
  The detector stage is charged to a severe class, which has no limit: its retries are never
  spent, and it repeats for ever.
\<close>

lemma mission_spad_retries_unlimited:
  "\<not> svc_fdir_retries_exhausted (sd_fault (k_stage STAGE_SPAD_ENABLE)) w"
  by (simp add: svc_fdir_retries_exhausted_def fdir_policy_def)

subsection \<open>Witnesses\<close>

definition mission_env0 :: "mission_step_result \<Rightarrow> qiran_fault_id \<Rightarrow> mission_world mission_env" where
  "mission_env0 r f = \<lparr>me_step = (\<lambda>_ _ out w. (out\<lparr>ms_result := r, ms_fault := f\<rparr>, w)),
     me_fdir = \<lparr>fe_report_flag = (\<lambda>_ _ _ _ w. (QIRAN_OK, w)),
       fe_request_power_reset = (\<lambda>_ _ w. (QIRAN_OK, w))\<rparr>\<rparr>"

definition mission_world0 :: mission_world where
  "mission_world0 = health_world.extend health_world0
     \<lparr>w_mission = \<lparr>mi_step = (\<lambda>_. Some 0), mi_ctx = (\<lambda>_. None), mi_entries = (\<lambda>_. 0),
       mi_stage = STAGE_MRR_TUNE, mi_entered_ms = 0, mi_attempts = 0, mi_timed_out = False,
       mi_stalled = False, mi_aborted = False, mi_abort_cause = QIRAN_FAULT_NONE, mi_reentries = 0,
       mi_payload = QIRAN_PAYLOAD_NON_OPERATIONAL\<rparr>\<rparr>"

lemma mission_env0_ok: "steps_ok (mission_env0 r f)" "uplink_ok (me_fdir (mission_env0 r f))"
  by (simp_all add: steps_ok_def uplink_ok_def link_keeps_def mission_env0_def)

lemma mission_world0_facts:
  "mission_stage_get mission_world0 = STAGE_MRR_TUNE" "\<not> mission_aborted mission_world0"
  "\<not> mission_stalled mission_world0" "mi_step (w_mission mission_world0) s = Some 0"
  "w_fdir mission_world0 = fdir_state0" "mission_stage_attempts mission_world0 = 0"
  by (simp_all add: mission_world0_def mission_stage_get_def mission_aborted_def mission_stalled_def
      mission_stage_attempts_def health_world.defs health_world0_def config_world.defs config_world0_def)

theorem mission_step_refines_witness:
  "mission_pos (mission_seq_step (mission_env0 STEP_DONE QIRAN_FAULT_NONE) mission_world0) = (4, False)"
proof -
  have "stage_idx STAGE_MRR_TUNE = 3" by (simp add: stage_idx_def mission_stages_def)
  then show ?thesis
    using mission_step_refines [OF mission_env0_ok(1), of mission_world0 0 STEP_DONE QIRAN_FAULT_NONE]
    by (simp add: mission_world0_facts mission_env0_def mission_next_def mission_pos_def)
qed

theorem mission_no_stage_skipped_witness:
  "\<exists>m \<le> 0. mission_stage_get ((mission_seq_step (mission_env0 STEP_WORKING QIRAN_FAULT_NONE) ^^ m) mission_world0) =
     STAGE_MRR_TUNE"
  using mission_no_stage_skipped [OF mission_env0_ok(1), of mission_world0 STAGE_MRR_TUNE 0 STEP_WORKING QIRAN_FAULT_NONE]
  by (simp add: mission_world0_facts)

theorem mission_retry_limit_witness:
  "mission_stalled (((\<lambda>w. error_handling_service (me_fdir (mission_env0 STEP_RETRY QIRAN_FAULT_MRR_LOCK))
     (mission_seq_step (mission_env0 STEP_RETRY QIRAN_FAULT_MRR_LOCK) w)) ^^ 3) mission_world0)"
proof -
  let ?E = "mission_env0 STEP_RETRY QIRAN_FAULT_MRR_LOCK"
  have r: "always_retries QIRAN_FAULT_MRR_LOCK ?E" by (simp add: always_retries_def mission_env0_def)
  have c: "fdir_critical QIRAN_FAULT_MRR_LOCK" "unat (fp_limit (k_policy QIRAN_FAULT_MRR_LOCK)) = 3"
    by (simp_all add: fdir_critical_def fdir_policy_def cfg_consts)
  have o: "svc_fdir_occurrences QIRAN_FAULT_MRR_LOCK mission_world0 = 0"
    by (simp add: svc_fdir_occurrences_def fdir_unserviced_def mission_world0_facts fdir_state0_def)
  show ?thesis
    using mission_retry_limit [OF mission_env0_ok(1,2) r c(1) _ _ _ _ _ o, of 0 3] c(2)
    by (simp add: mission_world0_facts del: funpow.simps)
qed

end
