(* ===== verification/Photonic_Sched.thy ===== *)
theory Photonic_Sched
  imports Mission_Seq
begin

section \<open>The photonic control loops: \<^verbatim>\<open>src/photonic/photonic_sched.c\<close>\<close>

text \<open>
  Six loops, each called once per minor cycle while enabled. The service functions are registered
  from outside and interpreted by \<open>service\<close>. Loop names are not modelled.
\<close>

datatype photonic_loop_id =
    PHOTONIC_LOOP_LASER_TEC | PHOTONIC_LOOP_MRR | PHOTONIC_LOOP_CROW | PHOTONIC_LOOP_UMZI
  | PHOTONIC_LOOP_DLI1 | PHOTONIC_LOOP_DLI2 | PHOTONIC_LOOP_COUNT

definition photonic_loops :: "photonic_loop_id list" where
  "photonic_loops = [PHOTONIC_LOOP_LASER_TEC, PHOTONIC_LOOP_MRR, PHOTONIC_LOOP_CROW,
     PHOTONIC_LOOP_UMZI, PHOTONIC_LOOP_DLI1, PHOTONIC_LOOP_DLI2]"

record photonic_loop =
  pl_service :: "handle option"
  pl_ctx :: "handle option"
  pl_fault :: qiran_fault_id
  pl_registered :: bool
  pl_enabled :: bool
  pl_runs :: u32
  pl_failures :: u32
  pl_consecutive :: u32
  pl_cycles_last :: u32
  pl_cycles_worst :: u32

record photonic_world = mission_world +
  w_loop :: "photonic_loop_id \<Rightarrow> photonic_loop"

definition loop_upd ::
  "photonic_loop_id \<Rightarrow> (photonic_loop \<Rightarrow> photonic_loop) \<Rightarrow> 'a photonic_world_scheme \<Rightarrow> 'a photonic_world_scheme" where
  "loop_upd l f w = w\<lparr>w_loop := (w_loop w)(l := f (w_loop w l))\<rparr>"

definition photonic_sched_init :: "'a photonic_world_scheme \<Rightarrow> 'a photonic_world_scheme" where
  "photonic_sched_init w = w\<lparr>w_loop := (\<lambda>_.
     \<lparr>pl_service = None, pl_ctx = None, pl_fault = QIRAN_FAULT_CONTROL_LOOP, pl_registered = False,
      pl_enabled = False, pl_runs = 0, pl_failures = 0, pl_consecutive = 0, pl_cycles_last = 0,
      pl_cycles_worst = 0\<rparr>)\<rparr>"

definition photonic_sched_register ::
  "photonic_loop_id \<Rightarrow> handle option \<Rightarrow> handle option \<Rightarrow> qiran_fault_id \<Rightarrow> 'a photonic_world_scheme \<Rightarrow>
   qiran_status \<times> 'a photonic_world_scheme" where
  "photonic_sched_register l service ctx fault w =
    (if l = PHOTONIC_LOOP_COUNT \<or> service = None \<or> fault = QIRAN_FAULT_COUNT then (QIRAN_ERR_PARAM, w)
     else if pl_registered (w_loop w l) then (QIRAN_ERR_STATE, w)
     else (QIRAN_OK, loop_upd l (\<lambda>s. s\<lparr>pl_service := service, pl_ctx := ctx, pl_fault := fault,
             pl_registered := True\<rparr>) w))"

definition photonic_sched_enable ::
  "photonic_loop_id \<Rightarrow> 'a photonic_world_scheme \<Rightarrow> qiran_status \<times> 'a photonic_world_scheme" where
  "photonic_sched_enable l w =
    (if l = PHOTONIC_LOOP_COUNT then (QIRAN_ERR_PARAM, w)
     else if \<not> pl_registered (w_loop w l) then (QIRAN_ERR_UNSUPPORTED, w)
     else (QIRAN_OK, loop_upd l (\<lambda>s. s\<lparr>pl_enabled := True, pl_consecutive := 0\<rparr>) w))"

definition photonic_sched_disable :: "photonic_loop_id \<Rightarrow> 'a photonic_world_scheme \<Rightarrow> 'a photonic_world_scheme" where
  "photonic_sched_disable l w =
    (if l = PHOTONIC_LOOP_COUNT then w else loop_upd l (\<lambda>s. s\<lparr>pl_enabled := False\<rparr>) w)"

definition photonic_sched_disable_all :: "'a photonic_world_scheme \<Rightarrow> 'a photonic_world_scheme" where
  "photonic_sched_disable_all w = fold (\<lambda>l. loop_upd l (\<lambda>s. s\<lparr>pl_enabled := False\<rparr>)) photonic_loops w"

definition photonic_sched_enabled :: "photonic_loop_id \<Rightarrow> 'a photonic_world_scheme \<Rightarrow> bool" where
  "photonic_sched_enabled l w \<longleftrightarrow> l \<noteq> PHOTONIC_LOOP_COUNT \<and> pl_enabled (w_loop w l)"

definition loop_ran :: "qiran_status \<Rightarrow> u32 \<Rightarrow> photonic_loop \<Rightarrow> photonic_loop" where
  "loop_ran st elapsed s =
    (let s = s\<lparr>pl_runs := pl_runs s + 1, pl_cycles_last := elapsed\<rparr>;
         s = (if pl_cycles_worst s < elapsed then s\<lparr>pl_cycles_worst := elapsed\<rparr> else s)
     in if st = QIRAN_OK then s\<lparr>pl_consecutive := 0\<rparr>
        else s\<lparr>pl_failures := pl_failures s + 1, pl_consecutive := pl_consecutive s + 1\<rparr>)"

definition loop_service_one ::
  "(handle \<Rightarrow> handle option \<Rightarrow> 'a photonic_world_scheme \<Rightarrow> qiran_status \<times> 'a photonic_world_scheme) \<Rightarrow>
   photonic_loop_id \<Rightarrow> 'a photonic_world_scheme \<Rightarrow> 'a photonic_world_scheme" where
  "loop_service_one service l w =
    (if \<not> pl_enabled (w_loop w l) then w
     else (let (start, w) = plat_cpu_cycle_count w;
               (st, w) = service (the (pl_service (w_loop w l))) (pl_ctx (w_loop w l)) w;
               (stop, w) = plat_cpu_cycle_count w;
               w = loop_upd l (loop_ran st (stop - start)) w
           in if st = QIRAN_OK then w
              else svc_fdir_report (pl_fault (w_loop w l)) (pl_consecutive (w_loop w l)) w))"

definition control_loop_service_calls ::
  "(handle \<Rightarrow> handle option \<Rightarrow> 'a photonic_world_scheme \<Rightarrow> qiran_status \<times> 'a photonic_world_scheme) \<Rightarrow>
   'a photonic_world_scheme \<Rightarrow> 'a photonic_world_scheme" where
  "control_loop_service_calls service w = fold (loop_service_one service) photonic_loops w"

definition photonic_loop_stat_get :: "photonic_loop_id \<Rightarrow> 'a photonic_world_scheme \<Rightarrow> photonic_loop option" where
  "photonic_loop_stat_get l w = (if l = PHOTONIC_LOOP_COUNT then None else Some (w_loop w l))"

definition photonic_sched_enabled_count :: "'a photonic_world_scheme \<Rightarrow> u32" where
  "photonic_sched_enabled_count w = of_nat (length (filter (\<lambda>l. pl_enabled (w_loop w l)) photonic_loops))"

subsection \<open>Properties\<close>

text \<open>Only a registered loop is enabled, and a registered loop has a service function.\<close>

definition loops_ok :: "'a photonic_world_scheme \<Rightarrow> bool" where
  "loops_ok w \<longleftrightarrow> (\<forall>l. l \<noteq> PHOTONIC_LOOP_COUNT \<longrightarrow>
    (pl_enabled (w_loop w l) \<longrightarrow> pl_registered (w_loop w l)) \<and>
    (pl_registered (w_loop w l) \<longrightarrow> pl_service (w_loop w l) \<noteq> None))"

lemma loop_upd_ok [inv_intro]:
  "loops_ok w \<Longrightarrow> (\<And>s. pl_enabled (f s) \<longrightarrow> pl_enabled s) \<Longrightarrow> (\<And>s. pl_registered (f s) = pl_registered s) \<Longrightarrow>
   (\<And>s. pl_service (f s) = pl_service s) \<Longrightarrow> loops_ok (loop_upd l f w)"
  by (auto simp: loops_ok_def loop_upd_def)

lemma report_loops [simp]: "w_loop (svc_fdir_report f d w) = w_loop w"
  by (simp add: svc_fdir_report_eq)

lemma loop_service_one_ok:
  assumes "\<forall>h c v. w_loop (snd (service h c v)) = w_loop v" "loops_ok w"
  shows "loops_ok (loop_service_one service l w)"
proof -
  define w1 where "w1 = snd (plat_cpu_cycle_count w)"
  define r where "r = service (the (pl_service (w_loop w1 l))) (pl_ctx (w_loop w1 l)) w1"
  define w3 where "w3 = snd (plat_cpu_cycle_count (snd r))"
  have "w_loop w3 = w_loop w"
    using assms(1) by (simp add: w3_def r_def w1_def plat_cpu_cycle_count_def)
  then have "loops_ok w3" using assms(2) by (simp add: loops_ok_def)
  then have ok: "loops_ok (loop_upd l (loop_ran st e) w3)" for st e
    by (rule loop_upd_ok) (simp_all add: loop_ran_def Let_def)
  have "\<exists>st e v. loop_service_one service l w = w \<or> loop_service_one service l w = loop_upd l (loop_ran st e) w3 \<or>
      loop_service_one service l w = svc_fdir_report (pl_fault (w_loop v l)) (pl_consecutive (w_loop v l)) v \<and>
      v = loop_upd l (loop_ran st e) w3"
    unfolding loop_service_one_def Let_def case_prod_beta w1_def [symmetric] r_def [symmetric] w3_def [symmetric]
    by auto
  then show ?thesis using ok assms(2) by (auto simp: loops_ok_def)
qed

text \<open>Any sequence of the operations.\<close>

datatype loop_op =
    Loop_register photonic_loop_id "handle option" "handle option" qiran_fault_id
  | Loop_enable photonic_loop_id
  | Loop_disable photonic_loop_id
  | Loop_disable_all
  | Loop_service

fun loop_step ::
  "(handle \<Rightarrow> handle option \<Rightarrow> 'a photonic_world_scheme \<Rightarrow> qiran_status \<times> 'a photonic_world_scheme) \<Rightarrow>
   loop_op \<Rightarrow> 'a photonic_world_scheme \<Rightarrow> 'a photonic_world_scheme" where
  "loop_step service (Loop_register l s c f) w = snd (photonic_sched_register l s c f w)"
| "loop_step service (Loop_enable l) w = snd (photonic_sched_enable l w)"
| "loop_step service (Loop_disable l) w = photonic_sched_disable l w"
| "loop_step service Loop_disable_all w = photonic_sched_disable_all w"
| "loop_step service Loop_service w = control_loop_service_calls service w"

lemma loop_step_ok:
  assumes "\<forall>h c v. w_loop (snd (service h c v)) = w_loop v" "loops_ok w"
  shows "loops_ok (loop_step service op w)"
proof (cases op)
  case (Loop_register l s c f)
  then show ?thesis using assms(2)
    by (auto simp: photonic_sched_register_def loops_ok_def loop_upd_def)
next
  case (Loop_enable l)
  then show ?thesis using assms(2)
    by (auto simp: photonic_sched_enable_def loops_ok_def loop_upd_def)
next
  case (Loop_disable l)
  then show ?thesis using assms(2) by (auto simp: photonic_sched_disable_def intro: loop_upd_ok)
next
  case Loop_disable_all
  have "loops_ok (fold (\<lambda>l. loop_upd l (\<lambda>s. s\<lparr>pl_enabled := False\<rparr>)) ls v)" if "loops_ok v"
    for ls and v :: "'a photonic_world_scheme"
    using that by (induction ls arbitrary: v) (simp_all add: loop_upd_ok)
  then show ?thesis using assms(2) Loop_disable_all by (simp add: photonic_sched_disable_all_def)
next
  case Loop_service
  have "loops_ok (fold (loop_service_one service) ls v)" if "loops_ok v"
    for ls and v :: "'a photonic_world_scheme"
    using that by (induction ls arbitrary: v) (auto intro: loop_service_one_ok [OF assms(1)])
  then show ?thesis using assms(2) Loop_service by (simp add: control_loop_service_calls_def)
qed

text \<open>Whatever is registered, enabled, disabled and serviced after the initialisation, a loop
  that reports itself enabled is a registered one with a service function, so no lock is
  reported as held by a loop that does not exist and the service never calls a null pointer.\<close>

theorem photonic_enabled_registered:
  assumes "\<forall>h c v. w_loop (snd (service h c v)) = w_loop v"
    and "photonic_sched_enabled l (fold (loop_step service) ops (photonic_sched_init w))"
  shows "\<exists>s. photonic_loop_stat_get l (fold (loop_step service) ops (photonic_sched_init w)) = Some s \<and>
    pl_registered s \<and> pl_service s \<noteq> None"
proof -
  have "loops_ok (fold (loop_step service) ops v)" if "loops_ok v" for v
    using that by (induction ops arbitrary: v) (auto intro: loop_step_ok [OF assms(1)])
  moreover have "loops_ok (photonic_sched_init w)" by (simp add: loops_ok_def photonic_sched_init_def)
  ultimately show ?thesis
    using assms(2) by (auto simp: loops_ok_def photonic_sched_enabled_def photonic_loop_stat_get_def)
qed

theorem photonic_enabled_registered_witness:
  "\<forall>w :: photonic_world. \<exists>s. photonic_loop_stat_get PHOTONIC_LOOP_MRR (fold (loop_step (\<lambda>_ _ v. (QIRAN_OK, v)))
     [Loop_register PHOTONIC_LOOP_MRR (Some 3) None QIRAN_FAULT_MRR_LOCK, Loop_enable PHOTONIC_LOOP_MRR]
     (photonic_sched_init w)) = Some s \<and> pl_registered s \<and> pl_service s \<noteq> None"
  by (rule allI, rule photonic_enabled_registered)
     (simp_all add: photonic_sched_enabled_def photonic_sched_register_def photonic_sched_enable_def
       loop_upd_def photonic_sched_init_def)

end
