(* ===== verification/Comm_Bytes.thy ===== *)
theory Comm_Bytes
  imports Qiran_Prelude
begin

section \<open>Field packing: \<^verbatim>\<open>include/qiran/comm/comm_bytes.h\<close>\<close>

text \<open>
  Fields are written into and read from a byte buffer at a running offset, most significant
  byte first. The buffer is a byte list; a write returns the buffer and the advanced offset.
  Writing past the end of the buffer is undefined in C; the list update leaves the buffer
  alone there, and every lemma about a write asks for the room it needs.
\<close>

definition comm_put_u8 :: "u8 list \<Rightarrow> u32 \<Rightarrow> u8 \<Rightarrow> u8 list \<times> u32" where
  "comm_put_u8 buf at v = (buf[unat at := v], at + 1)"

definition comm_put_u16 :: "u8 list \<Rightarrow> u32 \<Rightarrow> u16 \<Rightarrow> u8 list \<times> u32" where
  "comm_put_u16 buf at v =
    (buf[unat at := ucast (drop_bit 8 v), unat (at + 1) := ucast (v AND 0xFF)], at + 2)"

definition comm_put_u32 :: "u8 list \<Rightarrow> u32 \<Rightarrow> u32 \<Rightarrow> u8 list \<times> u32" where
  "comm_put_u32 buf at v =
    (buf[unat at := ucast (drop_bit 24 v),
         unat (at + 1) := ucast (drop_bit 16 v AND 0xFF),
         unat (at + 2) := ucast (drop_bit 8 v AND 0xFF),
         unat (at + 3) := ucast (v AND 0xFF)], at + 4)"

definition comm_put_i16 :: "u8 list \<Rightarrow> u32 \<Rightarrow> i16 \<Rightarrow> u8 list \<times> u32" where
  "comm_put_i16 buf at v = comm_put_u16 buf at v"

definition comm_get_u16 :: "u8 list \<Rightarrow> u32 \<Rightarrow> u16" where
  "comm_get_u16 buf at = push_bit 8 (ucast (buf ! unat at)) OR ucast (buf ! unat (at + 1))"

definition comm_get_u32 :: "u8 list \<Rightarrow> u32 \<Rightarrow> u32" where
  "comm_get_u32 buf at =
    push_bit 24 (ucast (buf ! unat at)) OR push_bit 16 (ucast (buf ! unat (at + 1))) OR
    push_bit 8 (ucast (buf ! unat (at + 2))) OR ucast (buf ! unat (at + 3))"

subsection \<open>The bytes of a field\<close>

definition be16 :: "u16 \<Rightarrow> u8 list" where
  "be16 v = [ucast (drop_bit 8 v), ucast (v AND 0xFF)]"

definition be32 :: "u32 \<Rightarrow> u8 list" where
  "be32 v = [ucast (drop_bit 24 v), ucast (drop_bit 16 v AND 0xFF),
             ucast (drop_bit 8 v AND 0xFF), ucast (v AND 0xFF)]"

lemma length_be [simp]: "length (be16 v) = 2" "length (be32 w) = 4"
  by (simp_all add: be16_def be32_def)

text \<open>A cursor is a buffer already filled up to the offset: writing a field there appends
  its bytes to the filled part.\<close>

lemma unat_cursor:
  "n < 4294967296 \<Longrightarrow> unat (of_nat n :: u32) = n"
  by (simp add: unat_of_nat)

lemma unat_cursor_add:
  assumes "n + k < 4294967296"
  shows "unat (of_nat n + of_nat k :: u32) = n + k"
proof -
  have "(of_nat n + of_nat k :: u32) = of_nat (n + k)" by simp
  then show ?thesis using assms by (simp only: unat_cursor)
qed

lemmas unat_cursor_simps =
  unat_cursor unat_cursor_add [of _ 1, simplified] unat_cursor_add [of _ 2, simplified]
  unat_cursor_add [of _ 3, simplified]

lemma list_decomp2: "2 \<le> length r \<Longrightarrow> \<exists>a b rs. r = a # b # rs"
  by (cases r rule: remdups_adj.cases) auto

lemma list_decomp4: "4 \<le> length r \<Longrightarrow> \<exists>a b c d rs. r = a # b # c # d # rs"
  by (auto simp: eval_nat_numeral Suc_le_length_iff)

lemma put_u8_cursor:
  assumes "1 \<le> length r" "length xs < 4294967296"
  shows "comm_put_u8 (xs @ r) (of_nat (length xs)) v = (xs @ v # drop 1 r, of_nat (length xs + 1))"
  using assms by (cases r) (simp_all add: comm_put_u8_def unat_cursor)

lemma put_u16_cursor:
  assumes "2 \<le> length r" "length xs + 2 < 4294967296"
  shows "comm_put_u16 (xs @ r) (of_nat (length xs)) v =
         (xs @ be16 v @ drop 2 r, of_nat (length xs + 2))"
proof -
  obtain a b rs where r: "r = a # b # rs" using list_decomp2 [OF assms(1)] by blast
  show ?thesis
    using assms(2) by (simp add: r comm_put_u16_def be16_def unat_cursor_simps list_update_append)
qed

lemma put_u32_cursor:
  assumes "4 \<le> length r" "length xs + 4 < 4294967296"
  shows "comm_put_u32 (xs @ r) (of_nat (length xs)) v =
         (xs @ be32 v @ drop 4 r, of_nat (length xs + 4))"
proof -
  obtain a b c d rs where r: "r = a # b # c # d # rs" using list_decomp4 [OF assms(1)] by blast
  show ?thesis
    using assms(2)
    by (simp add: r comm_put_u32_def be32_def unat_cursor_simps list_update_append
        numeral_2_eq_2 numeral_3_eq_3)
qed

lemma get_u16_be:
  assumes "length xs + 2 < 4294967296"
  shows "comm_get_u16 (xs @ be16 v @ r) (of_nat (length xs)) = v"
proof -
  have m: "(0xFF :: u16) = mask 8" by (simp add: mask_eq_exp_minus_1)
  have g: "comm_get_u16 (xs @ be16 v @ r) (of_nat (length xs)) =
    push_bit 8 (ucast (ucast (drop_bit 8 v) :: u8)) OR ucast (ucast (v AND mask 8) :: u8)"
    using assms by (simp add: comm_get_u16_def be16_def unat_cursor_simps nth_append m)
  show ?thesis unfolding g
  proof (rule bit_word_eqI)
    fix n assume "n < LENGTH(16)"
    then consider "n < 8" | "8 \<le> n" "n < 16" by fastforce
    then show "bit (push_bit 8 (ucast (ucast (drop_bit 8 v) :: u8)) OR
        ucast (ucast (v AND mask 8) :: u8) :: u16) n = bit v n"
      by cases (simp_all add: bit_simps less_diff_conv2 not_less)
  qed
qed

lemma get_u32_be:
  assumes "length xs + 4 < 4294967296"
  shows "comm_get_u32 (xs @ be32 v @ r) (of_nat (length xs)) = v"
proof -
  have m: "(0xFF :: u32) = mask 8" by (simp add: mask_eq_exp_minus_1)
  have g: "comm_get_u32 (xs @ be32 v @ r) (of_nat (length xs)) =
    push_bit 24 (ucast (ucast (drop_bit 24 v) :: u8)) OR
    push_bit 16 (ucast (ucast (drop_bit 16 v AND mask 8) :: u8)) OR
    push_bit 8 (ucast (ucast (drop_bit 8 v AND mask 8) :: u8)) OR ucast (ucast (v AND mask 8) :: u8)"
    using assms by (simp add: comm_get_u32_def be32_def unat_cursor_simps nth_append m)
  show ?thesis unfolding g
  proof (rule bit_word_eqI)
    fix n assume "n < LENGTH(32)"
    then consider "n < 8" | "8 \<le> n" "n < 16" | "16 \<le> n" "n < 24" | "24 \<le> n" "n < 32"
      by fastforce
    then show "bit (push_bit 24 (ucast (ucast (drop_bit 24 v) :: u8)) OR
        push_bit 16 (ucast (ucast (drop_bit 16 v AND mask 8) :: u8)) OR
        push_bit 8 (ucast (ucast (drop_bit 8 v AND mask 8) :: u8)) OR
        ucast (ucast (v AND mask 8) :: u8) :: u32) n = bit v n"
      by cases (simp_all add: bit_simps less_diff_conv2 not_less)
  qed
qed

subsection \<open>Running through a buffer\<close>

text \<open>One field and an array of fields at a running offset: \<^verbatim>\<open>at = comm_put_x(buf, at, v)\<close>, once and
  in a loop. The cursor is a buffer filled up to the offset.\<close>

definition emit ::
  "(u8 list \<Rightarrow> u32 \<Rightarrow> 'v \<Rightarrow> u8 list \<times> u32) \<Rightarrow> 'v \<Rightarrow> u8 list \<times> u32 \<Rightarrow> u8 list \<times> u32" where
  "emit put v p = put (fst p) (snd p) v"

definition emit_all ::
  "(u8 list \<Rightarrow> u32 \<Rightarrow> 'v \<Rightarrow> u8 list \<times> u32) \<Rightarrow> 'v list \<Rightarrow> u8 list \<times> u32 \<Rightarrow> u8 list \<times> u32" where
  "emit_all put vs p = fold (emit put) vs p"

definition cursor :: "u8 list \<Rightarrow> u8 list \<Rightarrow> u8 list \<times> u32" where
  "cursor bs xs = (xs @ drop (length xs) bs, of_nat (length xs))"

lemma cursor_start: "(bs, 0) = cursor bs []"
  by (simp add: cursor_def)

lemma cursor_written:
  "length xs < 4294967296 \<Longrightarrow> take (unat (snd (cursor bs xs))) (fst (cursor bs xs)) = xs"
  by (simp add: cursor_def unat_cursor)

subsection \<open>The field codec interface\<close>

text \<open>
  What a frame builder relies on: writing a field at the cursor appends its fixed-width
  encoding, and reading at the offset of an encoding gives the value back. Every frame of
  the communication and storage layers is built and read through these laws.
\<close>

locale field_codec =
  fixes put :: "u8 list \<Rightarrow> u32 \<Rightarrow> 'v \<Rightarrow> u8 list \<times> u32"
    and get :: "u8 list \<Rightarrow> u32 \<Rightarrow> 'v"
    and enc :: "'v \<Rightarrow> u8 list"
    and width :: nat
  assumes put_cursor: "width \<le> length r \<Longrightarrow> length xs + width < 4294967296 \<Longrightarrow>
      put (xs @ r) (of_nat (length xs)) v = (xs @ enc v @ drop width r, of_nat (length xs + width))"
    and get_enc: "length xs + width < 4294967296 \<Longrightarrow> get (xs @ enc v @ r) (of_nat (length xs)) = v"
    and enc_width: "length (enc v) = width"
begin

lemma get_put:
  assumes "unat at + width \<le> length buf" "unat at + width < 4294967296"
  shows "get (fst (put buf at v)) at = v"
proof -
  let ?xs = "take (unat at) buf" and ?r = "drop (unat at) buf"
  have at: "at = of_nat (length ?xs)" using assms(1) by simp
  have "fst (put (?xs @ ?r) (of_nat (length ?xs)) v) = ?xs @ enc v @ drop width ?r"
    using assms by (subst put_cursor) auto
  then have "fst (put buf at v) = ?xs @ enc v @ drop width ?r" by (simp only: at [symmetric] append_take_drop_id)
  moreover have "get (?xs @ enc v @ drop width ?r) (of_nat (length ?xs)) = v"
    using assms by (intro get_enc) auto
  ultimately show ?thesis by (simp only: at [symmetric])
qed

lemma put_length:
  assumes "unat at + width \<le> length buf" "unat at + width < 4294967296"
  shows "length (fst (put buf at v)) = length buf"
proof -
  let ?xs = "take (unat at) buf" and ?r = "drop (unat at) buf"
  have at: "at = of_nat (length ?xs)" using assms(1) by simp
  have "fst (put (?xs @ ?r) (of_nat (length ?xs)) v) = ?xs @ enc v @ drop width ?r"
    using assms by (subst put_cursor) auto
  then have "fst (put buf at v) = ?xs @ enc v @ drop width ?r" by (simp only: at [symmetric] append_take_drop_id)
  then show ?thesis using assms(1) by (simp add: enc_width)
qed

lemma emit_cursor:
  assumes "length xs + width \<le> length bs" "length bs < 4294967296"
  shows "emit put v (cursor bs xs) = cursor bs (xs @ enc v)"
  using assms put_cursor [of "drop (length xs) bs" xs v]
  by (simp add: emit_def cursor_def enc_width add.commute)

lemma emit_all_cursor:
  assumes "length xs + width * length vs \<le> length bs" "length bs < 4294967296"
  shows "emit_all put vs (cursor bs xs) = cursor bs (xs @ concat (map enc vs))"
  using assms(1)
proof (induction vs arbitrary: xs)
  case Nil then show ?case by (simp add: emit_all_def)
next
  case (Cons v vs)
  then have "emit put v (cursor bs xs) = cursor bs (xs @ enc v)" by (intro emit_cursor) (simp_all add: assms(2))
  moreover have "emit_all put vs (cursor bs (xs @ enc v)) = cursor bs ((xs @ enc v) @ concat (map enc vs))"
    using Cons.prems by (intro Cons.IH) (simp add: enc_width)
  ultimately show ?case by (simp add: emit_all_def)
qed

lemma enc_inj: "width < 4294967296 \<Longrightarrow> enc v = enc w \<Longrightarrow> v = w"
  using get_enc [of "[]" v "[]"] get_enc [of "[]" w "[]"] by simp

end

text \<open>A buffer offset is a \<^verbatim>\<open>uint32_t\<close>, so widths are far below its range.\<close>

interpretation u8_field: field_codec comm_put_u8 "\<lambda>buf at. buf ! unat at" "\<lambda>v. [v]" 1
  by unfold_locales (simp_all add: put_u8_cursor unat_cursor)

text \<open>A signed 16-bit field is stored as the word it is.\<close>

interpretation i16_field: field_codec comm_put_i16 comm_get_u16 be16 2
  by unfold_locales (simp_all only: comm_put_i16_def put_u16_cursor get_u16_be length_be)

interpretation u16_field: field_codec comm_put_u16 comm_get_u16 be16 2
  by unfold_locales (simp_all only: put_u16_cursor get_u16_be length_be)

interpretation u32_field: field_codec comm_put_u32 comm_get_u32 be32 4
  by unfold_locales (simp_all only: put_u32_cursor get_u32_be length_be)

end
