(* ===== verification/Comm_Ccsds.thy ===== *)
theory Comm_Ccsds
  imports Photonic_Sched Comm_Bytes
begin

section \<open>Space packets: \<^verbatim>\<open>src/comm/comm_ccsds.c\<close>\<close>

text \<open>
  Packet building and reception: the primary header, the identifiers of the packet classes, the
  sequence counts of both directions and the checksum. A buffer is the list of its bytes and a
  separate length as in the code; a \<^verbatim>\<open>NULL\<close> pointer is \<^term>\<open>None\<close>. The consumers of the
  received packets are handles that \<open>consume\<close> interprets. Class names are not modelled.
\<close>

datatype ccsds_type = CCSDS_TM | CCSDS_TC

datatype ccsds_seq_flags =
  CCSDS_SEQ_CONTINUATION | CCSDS_SEQ_FIRST | CCSDS_SEQ_LAST | CCSDS_SEQ_UNSEGMENTED

datatype ccsds_class =
    CCSDS_CLASS_COMMAND | CCSDS_CLASS_SCIENCE_RAW | CCSDS_CLASS_SCIENCE_PROCESSED
  | CCSDS_CLASS_HEALTH | CCSDS_CLASS_EVENT | CCSDS_CLASS_FILE | CCSDS_CLASS_COUNT

definition ccsds_classes :: "ccsds_class list" where
  "ccsds_classes = [CCSDS_CLASS_COMMAND, CCSDS_CLASS_SCIENCE_RAW, CCSDS_CLASS_SCIENCE_PROCESSED,
     CCSDS_CLASS_HEALTH, CCSDS_CLASS_EVENT, CCSDS_CLASS_FILE]"

definition class_idx :: "ccsds_class \<Rightarrow> nat" where
  "class_idx c = length (takeWhile (\<lambda>d. d \<noteq> c) ccsds_classes)"

record ccsds_header =
  ch_version :: u8
  ch_type :: ccsds_type
  ch_secondary_header :: bool
  ch_apid :: u16
  ch_seq_flags :: ccsds_seq_flags
  ch_seq_count :: u16
  ch_data_length :: u16

definition CCSDS_PRIMARY_HEADER_BYTES :: u32 where "CCSDS_PRIMARY_HEADER_BYTES = 6"
definition CCSDS_VERSION_1 :: u8 where "CCSDS_VERSION_1 = 0"
definition CCSDS_APID_MAX :: u16 where "CCSDS_APID_MAX = 0x7FF"
definition CCSDS_APID_IDLE :: u16 where "CCSDS_APID_IDLE = 0x7FF"
definition CCSDS_SEQ_COUNT_MAX :: u16 where "CCSDS_SEQ_COUNT_MAX = 0x3FFF"
definition CCSDS_DATA_FIELD_MAX :: u32 where "CCSDS_DATA_FIELD_MAX = 65536"
definition CCSDS_INTEGRITY_BYTES :: u32 where "CCSDS_INTEGRITY_BYTES = 4"

lemmas ccsds_consts = CCSDS_PRIMARY_HEADER_BYTES_def CCSDS_VERSION_1_def CCSDS_APID_MAX_def
  CCSDS_APID_IDLE_def CCSDS_SEQ_COUNT_MAX_def CCSDS_DATA_FIELD_MAX_def CCSDS_INTEGRITY_BYTES_def

text \<open>The enumerations as the numbers the header carries.\<close>

fun type_code :: "ccsds_type \<Rightarrow> u16" where
  "type_code CCSDS_TM = 0"
| "type_code CCSDS_TC = 1"

definition type_of_code :: "u16 \<Rightarrow> ccsds_type" where
  "type_of_code v = (if v = 0 then CCSDS_TM else CCSDS_TC)"

fun seq_flags_code :: "ccsds_seq_flags \<Rightarrow> u16" where
  "seq_flags_code CCSDS_SEQ_CONTINUATION = 0"
| "seq_flags_code CCSDS_SEQ_FIRST = 1"
| "seq_flags_code CCSDS_SEQ_LAST = 2"
| "seq_flags_code CCSDS_SEQ_UNSEGMENTED = 3"

definition seq_flags_of_code :: "u16 \<Rightarrow> ccsds_seq_flags" where
  "seq_flags_of_code v =
    (if v = 0 then CCSDS_SEQ_CONTINUATION else if v = 1 then CCSDS_SEQ_FIRST
     else if v = 2 then CCSDS_SEQ_LAST else CCSDS_SEQ_UNSEGMENTED)"

fun k_default_apid :: "ccsds_class \<Rightarrow> u16" where
  "k_default_apid CCSDS_CLASS_COMMAND = 0x001"
| "k_default_apid CCSDS_CLASS_SCIENCE_RAW = 0x010"
| "k_default_apid CCSDS_CLASS_SCIENCE_PROCESSED = 0x011"
| "k_default_apid CCSDS_CLASS_HEALTH = 0x020"
| "k_default_apid CCSDS_CLASS_EVENT = 0x030"
| "k_default_apid CCSDS_CLASS_FILE = 0x040"
| "k_default_apid CCSDS_CLASS_COUNT = 0"

record ccsds_state =
  cc_apid :: "ccsds_class \<Rightarrow> u16"
  cc_consumer :: "ccsds_class \<Rightarrow> handle option"
  cc_ctx :: "ccsds_class \<Rightarrow> handle option"
  cc_tx_count :: "ccsds_class \<Rightarrow> u16"
  cc_rx_seen :: "ccsds_class \<Rightarrow> bool"
  cc_rx_expect :: "ccsds_class \<Rightarrow> u16"
  cc_sent :: "ccsds_class \<Rightarrow> u32"
  cc_received :: "ccsds_class \<Rightarrow> u32"
  cc_gaps :: u32
  cc_integrity_errors :: u32
  cc_length_errors :: u32
  cc_unroutable :: u32

record ccsds_world = photonic_world +
  w_ccsds :: ccsds_state

definition ccsds_upd ::
  "(ccsds_state \<Rightarrow> ccsds_state) \<Rightarrow> 'a ccsds_world_scheme \<Rightarrow> 'a ccsds_world_scheme" where
  "ccsds_upd f w = w\<lparr>w_ccsds := f (w_ccsds w)\<rparr>"

definition comm_ccsds_init :: "'a ccsds_world_scheme \<Rightarrow> 'a ccsds_world_scheme" where
  "comm_ccsds_init = ccsds_upd (\<lambda>_.
    \<lparr>cc_apid = k_default_apid, cc_consumer = (\<lambda>_. None), cc_ctx = (\<lambda>_. None),
     cc_tx_count = (\<lambda>_. 0), cc_rx_seen = (\<lambda>_. False), cc_rx_expect = (\<lambda>_. 0),
     cc_sent = (\<lambda>_. 0), cc_received = (\<lambda>_. 0), cc_gaps = 0, cc_integrity_errors = 0,
     cc_length_errors = 0, cc_unroutable = 0\<rparr>)"

definition comm_ccsds_set_apid ::
  "ccsds_class \<Rightarrow> u16 \<Rightarrow> 'a ccsds_world_scheme \<Rightarrow> qiran_status \<times> 'a ccsds_world_scheme" where
  "comm_ccsds_set_apid cls apid w =
    (if cls = CCSDS_CLASS_COUNT \<or> CCSDS_APID_MAX < apid \<or> apid = CCSDS_APID_IDLE
     then (QIRAN_ERR_PARAM, w)
     else if \<exists>c \<in> set ccsds_classes. c \<noteq> cls \<and> cc_apid (w_ccsds w) c = apid
     then (QIRAN_ERR_STATE, w)
     else (QIRAN_OK, ccsds_upd (\<lambda>s. s\<lparr>cc_apid := (cc_apid s)(cls := apid)\<rparr>) w))"

definition comm_ccsds_apid :: "ccsds_class \<Rightarrow> 'a ccsds_world_scheme \<Rightarrow> u16" where
  "comm_ccsds_apid cls w = (if cls = CCSDS_CLASS_COUNT then CCSDS_APID_IDLE else cc_apid (w_ccsds w) cls)"

definition comm_ccsds_class_of :: "u16 \<Rightarrow> 'a ccsds_world_scheme \<Rightarrow> ccsds_class" where
  "comm_ccsds_class_of apid w =
    (case find (\<lambda>c. cc_apid (w_ccsds w) c = apid) ccsds_classes of
       Some c \<Rightarrow> c | None \<Rightarrow> CCSDS_CLASS_COUNT)"

definition comm_ccsds_register ::
  "ccsds_class \<Rightarrow> handle option \<Rightarrow> handle option \<Rightarrow> 'a ccsds_world_scheme \<Rightarrow>
   qiran_status \<times> 'a ccsds_world_scheme" where
  "comm_ccsds_register cls consumer ctx w =
    (if cls = CCSDS_CLASS_COUNT \<or> consumer = None then (QIRAN_ERR_PARAM, w)
     else if cc_consumer (w_ccsds w) cls \<noteq> None then (QIRAN_ERR_STATE, w)
     else (QIRAN_OK, ccsds_upd (\<lambda>s. s\<lparr>cc_consumer := (cc_consumer s)(cls := consumer),
             cc_ctx := (cc_ctx s)(cls := ctx)\<rparr>) w))"

subsection \<open>The header\<close>

definition header_word0 :: "ccsds_header \<Rightarrow> u16" where
  "header_word0 h =
    push_bit 13 (ucast (ch_version h AND 0x07)) OR push_bit 12 (type_code (ch_type h) AND 0x01) OR
    push_bit 11 (if ch_secondary_header h then 1 else 0) OR (ch_apid h AND CCSDS_APID_MAX)"

definition header_word1 :: "ccsds_header \<Rightarrow> u16" where
  "header_word1 h =
    push_bit 14 (seq_flags_code (ch_seq_flags h) AND 0x03) OR (ch_seq_count h AND CCSDS_SEQ_COUNT_MAX)"

definition comm_ccsds_build_header ::
  "ccsds_header option \<Rightarrow> u8 list option \<Rightarrow> u32 \<Rightarrow> qiran_status \<times> u8 list option" where
  "comm_ccsds_build_header header buf len =
    (case (header, buf) of
       (Some h, Some bs) \<Rightarrow>
         if len < CCSDS_PRIMARY_HEADER_BYTES then (QIRAN_ERR_PARAM, buf)
         else if 7 < ch_version h \<or> CCSDS_APID_MAX < ch_apid h \<or> CCSDS_SEQ_COUNT_MAX < ch_seq_count h
         then (QIRAN_ERR_RANGE, buf)
         else (let (bs, at) = comm_put_u16 bs 0 (header_word0 h);
                   (bs, at) = comm_put_u16 bs at (header_word1 h);
                   (bs, at) = comm_put_u16 bs at (ch_data_length h)
               in (QIRAN_OK, Some bs))
     | _ \<Rightarrow> (QIRAN_ERR_PARAM, buf))"

text \<open>The result structure is written on success only.\<close>

definition comm_ccsds_parse_header ::
  "u8 list option \<Rightarrow> u32 \<Rightarrow> ccsds_header option \<Rightarrow> qiran_status \<times> ccsds_header option" where
  "comm_ccsds_parse_header buf len header =
    (case (buf, header) of
       (Some bs, Some _) \<Rightarrow>
         if len < CCSDS_PRIMARY_HEADER_BYTES then (QIRAN_ERR_PARAM, header)
         else (let word0 = comm_get_u16 bs 0; word1 = comm_get_u16 bs 2
               in (QIRAN_OK, Some \<lparr>ch_version = ucast (drop_bit 13 word0 AND 0x07),
                    ch_type = type_of_code (drop_bit 12 word0 AND 0x01),
                    ch_secondary_header = (drop_bit 11 word0 AND 0x01 \<noteq> 0),
                    ch_apid = word0 AND CCSDS_APID_MAX,
                    ch_seq_flags = seq_flags_of_code (drop_bit 14 word1 AND 0x03),
                    ch_seq_count = word1 AND CCSDS_SEQ_COUNT_MAX,
                    ch_data_length = comm_get_u16 bs 4\<rparr>))
     | _ \<Rightarrow> (QIRAN_ERR_PARAM, header))"

definition comm_ccsds_packet_bytes :: "ccsds_header option \<Rightarrow> u32" where
  "comm_ccsds_packet_bytes header =
    (case header of None \<Rightarrow> 0
     | Some h \<Rightarrow> CCSDS_PRIMARY_HEADER_BYTES + ucast (ch_data_length h) + 1)"

subsection \<open>Building and receiving\<close>

definition build_fields :: "ccsds_class \<Rightarrow> u32 \<Rightarrow> ccsds_state \<Rightarrow> ccsds_header" where
  "build_fields cls field_len s =
    \<lparr>ch_version = CCSDS_VERSION_1, ch_type = CCSDS_TM, ch_secondary_header = False,
     ch_apid = cc_apid s cls, ch_seq_flags = CCSDS_SEQ_UNSEGMENTED,
     ch_seq_count = cc_tx_count s cls, ch_data_length = ucast (field_len - 1)\<rparr>"

text \<open>The copy loop: \<open>n\<close> bytes of the application data to the buffer at \<open>at\<close>.\<close>

definition copy_bytes :: "u8 list \<Rightarrow> u32 \<Rightarrow> nat \<Rightarrow> u8 list \<Rightarrow> u8 list" where
  "copy_bytes src at n bs = fold (\<lambda>i bs. bs[unat (at + of_nat i) := src ! i]) [0..<n] bs"

definition comm_ccsds_build ::
  "ccsds_class \<Rightarrow> u8 list option \<Rightarrow> u32 \<Rightarrow> u8 list option \<Rightarrow> u32 \<Rightarrow> 'a ccsds_world_scheme \<Rightarrow>
   qiran_status \<times> u8 list option \<times> u32 option \<times> 'a ccsds_world_scheme" where
  "comm_ccsds_build cls app_data app_len buf len w =
    (if cls = CCSDS_CLASS_COUNT \<or> buf = None \<or> app_data = None \<and> app_len \<noteq> 0
     then (QIRAN_ERR_PARAM, buf, None, w)
     else (let field_len = app_len + CCSDS_INTEGRITY_BYTES;
               total = CCSDS_PRIMARY_HEADER_BYTES + field_len
           in if field_len = 0 \<or> CCSDS_DATA_FIELD_MAX < field_len then (QIRAN_ERR_RANGE, buf, None, w)
              else if len < total then (QIRAN_ERR_RANGE, buf, None, w)
              else (let (st, buf) = comm_ccsds_build_header (Some (build_fields cls field_len (w_ccsds w))) buf len
                    in if st \<noteq> QIRAN_OK then (st, buf, None, w)
                       else (let bs = copy_bytes (the app_data) CCSDS_PRIMARY_HEADER_BYTES (unat app_len) (the buf);
                                 crc = crc32 (take (unat app_len) (drop (unat CCSDS_PRIMARY_HEADER_BYTES) bs));
                                 (bs, _) = comm_put_u32 bs (CCSDS_PRIMARY_HEADER_BYTES + app_len) crc;
                                 w = ccsds_upd (\<lambda>s. s\<lparr>cc_tx_count := (cc_tx_count s)(cls :=
                                       (cc_tx_count s cls + 1) AND CCSDS_SEQ_COUNT_MAX),
                                     cc_sent := (cc_sent s)(cls := cc_sent s cls + 1)\<rparr>) w
                             in (QIRAN_OK, Some bs, Some total, w)))))"

text \<open>The sequence check of the reception, and the bookkeeping after it.\<close>

definition ccsds_gap_check ::
  "ccsds_class \<Rightarrow> u16 \<Rightarrow> 'a ccsds_world_scheme \<Rightarrow> 'a ccsds_world_scheme" where
  "ccsds_gap_check cls count w =
    (let s = w_ccsds w
     in if cc_rx_seen s cls \<and> count \<noteq> cc_rx_expect s cls
        then svc_fdir_report QIRAN_FAULT_PACKET_SEQUENCE
               (push_bit 16 (ucast (cc_rx_expect s cls)) OR ucast count)
               (ccsds_upd (\<lambda>s. s\<lparr>cc_gaps := cc_gaps s + 1\<rparr>) w)
        else w)"

definition ccsds_received :: "ccsds_class \<Rightarrow> u16 \<Rightarrow> ccsds_state \<Rightarrow> ccsds_state" where
  "ccsds_received cls count s =
    s\<lparr>cc_rx_seen := (cc_rx_seen s)(cls := True),
      cc_rx_expect := (cc_rx_expect s)(cls := (count + 1) AND CCSDS_SEQ_COUNT_MAX),
      cc_received := (cc_received s)(cls := cc_received s cls + 1)\<rparr>"

text \<open>The local header before it is parsed; every field is written by the parser.\<close>

definition header_unset :: ccsds_header where
  "header_unset = \<lparr>ch_version = 0, ch_type = CCSDS_TM, ch_secondary_header = False, ch_apid = 0,
     ch_seq_flags = CCSDS_SEQ_CONTINUATION, ch_seq_count = 0, ch_data_length = 0\<rparr>"

type_synonym 'w ccsds_consume =
  "handle \<Rightarrow> handle option \<Rightarrow> ccsds_header \<Rightarrow> u8 list \<Rightarrow> 'w \<Rightarrow> qiran_status \<times> 'w"

definition ccsds_refuse ::
  "(ccsds_state \<Rightarrow> ccsds_state) \<Rightarrow> u32 \<Rightarrow> qiran_status \<Rightarrow> 'a ccsds_world_scheme \<Rightarrow>
   qiran_status \<times> 'a ccsds_world_scheme" where
  "ccsds_refuse count detail st w =
    (st, svc_fdir_report QIRAN_FAULT_PACKET_INTEGRITY detail (ccsds_upd count w))"

definition comm_ccsds_receive ::
  "'a ccsds_world_scheme ccsds_consume \<Rightarrow> u8 list option \<Rightarrow> u32 \<Rightarrow> 'a ccsds_world_scheme \<Rightarrow>
   qiran_status \<times> 'a ccsds_world_scheme" where
  "comm_ccsds_receive consume packet len w =
    (let (st, parsed) = comm_ccsds_parse_header packet len (Some header_unset);
         header = the parsed; bs = the packet
     in if st \<noteq> QIRAN_OK then (st, w)
        else (let field_len = ucast (ch_data_length header) + 1;
                  app_len = field_len - CCSDS_INTEGRITY_BYTES;
                  app = take (unat app_len) (drop (unat CCSDS_PRIMARY_HEADER_BYTES) bs);
                  cls = comm_ccsds_class_of (ch_apid header) w
              in if CCSDS_PRIMARY_HEADER_BYTES + field_len \<noteq> len
                 then ccsds_refuse (\<lambda>s. s\<lparr>cc_length_errors := cc_length_errors s + 1\<rparr>) field_len QIRAN_ERR_INTEGRITY w
                 else if field_len < CCSDS_INTEGRITY_BYTES
                 then ccsds_refuse (\<lambda>s. s\<lparr>cc_length_errors := cc_length_errors s + 1\<rparr>) field_len QIRAN_ERR_INTEGRITY w
                 else if comm_get_u32 bs (CCSDS_PRIMARY_HEADER_BYTES + app_len) \<noteq> crc32 app
                 then ccsds_refuse (\<lambda>s. s\<lparr>cc_integrity_errors := cc_integrity_errors s + 1\<rparr>)
                        (ucast (ch_apid header)) QIRAN_ERR_INTEGRITY w
                 else if cls = CCSDS_CLASS_COUNT
                 then ccsds_refuse (\<lambda>s. s\<lparr>cc_unroutable := cc_unroutable s + 1\<rparr>)
                        (ucast (ch_apid header)) QIRAN_ERR_UNSUPPORTED w
                 else (let w = ccsds_upd (ccsds_received cls (ch_seq_count header))
                                 (ccsds_gap_check cls (ch_seq_count header) w)
                       in case cc_consumer (w_ccsds w) cls of
                            None \<Rightarrow> (QIRAN_ERR_UNSUPPORTED, ccsds_upd (\<lambda>s. s\<lparr>cc_unroutable := cc_unroutable s + 1\<rparr>) w)
                          | Some h \<Rightarrow> consume h (cc_ctx (w_ccsds w) cls) header app w)))"

definition comm_ccsds_sent :: "ccsds_class \<Rightarrow> 'a ccsds_world_scheme \<Rightarrow> u32" where
  "comm_ccsds_sent cls w = (if cls = CCSDS_CLASS_COUNT then 0 else cc_sent (w_ccsds w) cls)"

definition comm_ccsds_received :: "ccsds_class \<Rightarrow> 'a ccsds_world_scheme \<Rightarrow> u32" where
  "comm_ccsds_received cls w = (if cls = CCSDS_CLASS_COUNT then 0 else cc_received (w_ccsds w) cls)"

definition comm_ccsds_sequence_gaps :: "'a ccsds_world_scheme \<Rightarrow> u32" where
  "comm_ccsds_sequence_gaps w = cc_gaps (w_ccsds w)"

definition comm_ccsds_integrity_errors :: "'a ccsds_world_scheme \<Rightarrow> u32" where
  "comm_ccsds_integrity_errors w = cc_integrity_errors (w_ccsds w)"

definition comm_ccsds_length_errors :: "'a ccsds_world_scheme \<Rightarrow> u32" where
  "comm_ccsds_length_errors w = cc_length_errors (w_ccsds w)"

definition comm_ccsds_unroutable :: "'a ccsds_world_scheme \<Rightarrow> u32" where
  "comm_ccsds_unroutable w = cc_unroutable (w_ccsds w)"

subsection \<open>Fields of a header word\<close>

text \<open>The masks of the code are the low bits.\<close>

lemma ccsds_masks:
  "x AND 0x07 = take_bit 3 x" "x AND 0x01 = take_bit 1 x" "x AND 0x03 = take_bit 2 x"
  "x AND 0x7FF = take_bit 11 x" "x AND 0x3FFF = take_bit 14 x" for x :: "'a::len word"
  by (simp_all add: take_bit_eq_mask mask_eq_exp_minus_1)

lemma word0_fields:
  fixes v :: u8 and t s a :: u16
  defines "w0 \<equiv> push_bit 13 (ucast (take_bit 3 v)) OR push_bit 12 (take_bit 1 t) OR
    push_bit 11 (take_bit 1 s) OR take_bit 11 a"
  shows "ucast (take_bit 3 (drop_bit 13 w0)) = take_bit 3 v"
    and "take_bit 1 (drop_bit 12 w0) = take_bit 1 t"
    and "take_bit 1 (drop_bit 11 w0) = take_bit 1 s"
    and "take_bit 11 w0 = take_bit 11 a"
  unfolding w0_def
  subgoal by (rule bit_word_eqI) (auto simp: bit_simps simp del: take_bit_Suc_0 One_nat_def simp flip: bit_0)
  subgoal by (rule bit_word_eqI) (auto simp: bit_simps simp del: take_bit_Suc_0 One_nat_def simp flip: bit_0)
  subgoal by (rule bit_word_eqI) (auto simp: bit_simps simp del: take_bit_Suc_0 One_nat_def simp flip: bit_0)
  subgoal by (rule bit_word_eqI) (auto simp: bit_simps simp del: take_bit_Suc_0 One_nat_def simp flip: bit_0)
  done

lemma word1_fields:
  fixes f c :: u16
  defines "w1 \<equiv> push_bit 14 (take_bit 2 f) OR take_bit 14 c"
  shows "take_bit 2 (drop_bit 14 w1) = take_bit 2 f" and "take_bit 14 w1 = take_bit 14 c"
  unfolding w1_def by (rule bit_word_eqI; auto simp: bit_simps)+

lemma take_bit_id:
  "x < 2 ^ n \<Longrightarrow> take_bit n x = x" for x :: "'a::len word"
  by (simp add: take_bit_eq_mask less_mask_eq)

lemma type_code_inverse [simp]: "type_of_code (take_bit 1 (type_code t)) = t"
  by (cases t) (simp_all add: type_of_code_def)

lemma seq_flags_code_inverse [simp]: "seq_flags_of_code (take_bit 2 (seq_flags_code f)) = f"
  by (cases f) (simp_all add: seq_flags_of_code_def)

text \<open>A header whose fields fit their widths.\<close>

definition header_ok :: "ccsds_header \<Rightarrow> bool" where
  "header_ok h \<longleftrightarrow> ch_version h \<le> 7 \<and> ch_apid h \<le> CCSDS_APID_MAX \<and> ch_seq_count h \<le> CCSDS_SEQ_COUNT_MAX"

definition header_bytes :: "ccsds_header \<Rightarrow> u8 list" where
  "header_bytes h = be16 (header_word0 h) @ be16 (header_word1 h) @ be16 (ch_data_length h)"

lemma length_header_bytes [simp]: "length (header_bytes h) = 6"
  by (simp add: header_bytes_def)

lemma header_fields:
  assumes "header_ok h"
  shows "ucast (drop_bit 13 (header_word0 h) AND 0x07) = ch_version h"
    and "type_of_code (drop_bit 12 (header_word0 h) AND 0x01) = ch_type h"
    and "(drop_bit 11 (header_word0 h) AND 0x01 \<noteq> 0) = ch_secondary_header h"
    and "header_word0 h AND CCSDS_APID_MAX = ch_apid h"
    and "seq_flags_of_code (drop_bit 14 (header_word1 h) AND 0x03) = ch_seq_flags h"
    and "header_word1 h AND CCSDS_SEQ_COUNT_MAX = ch_seq_count h"
proof -
  let ?s = "if ch_secondary_header h then 1 else 0 :: u16"
  have b: "?s = take_bit 1 ?s" by simp
  have w0: "header_word0 h = push_bit 13 (ucast (take_bit 3 (ch_version h))) OR
      push_bit 12 (take_bit 1 (type_code (ch_type h))) OR push_bit 11 (take_bit 1 ?s) OR take_bit 11 (ch_apid h)"
    unfolding header_word0_def ccsds_consts ccsds_masks by (simp only: b [symmetric])
  have w1: "header_word1 h = push_bit 14 (take_bit 2 (seq_flags_code (ch_seq_flags h))) OR take_bit 14 (ch_seq_count h)"
    unfolding header_word1_def ccsds_consts ccsds_masks ..
  have v: "take_bit 3 (ch_version h) = ch_version h" "take_bit 11 (ch_apid h) = ch_apid h"
    "take_bit 14 (ch_seq_count h) = ch_seq_count h"
    using assms(1) by (auto intro!: take_bit_id simp: header_ok_def ccsds_consts word_le_nat_alt word_less_nat_alt)
  show "ucast (drop_bit 13 (header_word0 h) AND 0x07) = ch_version h"
    "type_of_code (drop_bit 12 (header_word0 h) AND 0x01) = ch_type h"
    "header_word0 h AND CCSDS_APID_MAX = ch_apid h"
    "seq_flags_of_code (drop_bit 14 (header_word1 h) AND 0x03) = ch_seq_flags h"
    "header_word1 h AND CCSDS_SEQ_COUNT_MAX = ch_seq_count h"
    by (simp_all only: ccsds_consts ccsds_masks w0 w1 word0_fields word1_fields
        type_code_inverse seq_flags_code_inverse) (simp_all only: v)
  have "drop_bit 11 (header_word0 h) AND 0x01 = take_bit 1 ?s"
    by (simp only: ccsds_masks w0 word0_fields)
  then show "(drop_bit 11 (header_word0 h) AND 0x01 \<noteq> 0) = ch_secondary_header h"
    by (simp split: if_splits)
qed

lemma build_header_bytes:
  assumes "6 \<le> length bs"
  shows "comm_ccsds_build_header (Some h) (Some bs) len =
    (if len < 6 then (QIRAN_ERR_PARAM, Some bs)
     else if \<not> header_ok h then (QIRAN_ERR_RANGE, Some bs)
     else (QIRAN_OK, Some (header_bytes h @ drop 6 bs)))"
proof -
  have p: "comm_put_u16 bs 0 a = (be16 a @ drop 2 bs, 2)" for a
    using put_u16_cursor [of bs "[]" a] assms by simp
  have q: "comm_put_u16 (be16 a @ drop 2 bs) 2 b = (be16 a @ be16 b @ drop 4 bs, 4)" for a b
    using put_u16_cursor [of "drop 2 bs" "be16 a" b] assms by simp
  have r: "comm_put_u16 (be16 a @ be16 b @ drop 4 bs) 4 c = (be16 a @ be16 b @ be16 c @ drop 6 bs, 6)" for a b c
    using put_u16_cursor [of "drop 4 bs" "be16 a @ be16 b" c] assms by simp
  show ?thesis
    by (simp add: comm_ccsds_build_header_def ccsds_consts header_ok_def header_bytes_def p q r linorder_not_le [symmetric]
        del: not_le not_less)
qed

lemma parse_header_bytes:
  assumes "header_ok h" "6 \<le> len"
  shows "comm_ccsds_parse_header (Some (header_bytes h @ r)) len (Some h0) = (QIRAN_OK, Some h)"
proof -
  have g0: "comm_get_u16 (header_bytes h @ r) 0 = header_word0 h"
    using get_u16_be [of "[]" "header_word0 h"] by (simp add: header_bytes_def)
  have g2: "comm_get_u16 (header_bytes h @ r) 2 = header_word1 h"
    using get_u16_be [of "be16 (header_word0 h)" "header_word1 h"] by (simp add: header_bytes_def)
  have g4: "comm_get_u16 (header_bytes h @ r) 4 = ch_data_length h"
    using get_u16_be [of "be16 (header_word0 h) @ be16 (header_word1 h)" "ch_data_length h"]
    by (simp add: header_bytes_def)
  have n: "\<not> len < 6" using assms(2) by simp
  show ?thesis
    by (simp only: comm_ccsds_parse_header_def ccsds_consts option.case prod.case n if_False Let_def g0 g2 g4
        header_fields [OF assms(1), unfolded ccsds_consts]) simp
qed

subsection \<open>A packet as its bytes\<close>

definition ccsds_packet :: "ccsds_header \<Rightarrow> u8 list \<Rightarrow> u8 list" where
  "ccsds_packet h app = header_bytes h @ app @ be32 (crc32 app)"

lemma length_ccsds_packet [simp]: "length (ccsds_packet h app) = length app + 10"
  by (simp add: ccsds_packet_def)

lemma copy_bytes_eq:
  assumes "length xs + n < 4294967296" "n \<le> length src" "n \<le> length r"
  shows "copy_bytes src (of_nat (length xs)) n (xs @ r) = xs @ take n src @ drop n r"
  using assms
proof (induction n)
  case 0 then show ?case by (simp add: copy_bytes_def)
next
  case (Suc n)
  have u: "unat (of_nat (length xs) + of_nat n :: u32) = length xs + n"
    using Suc.prems(1) by (intro unat_cursor_add) simp
  have "copy_bytes src (of_nat (length xs)) (Suc n) (xs @ r) =
      (copy_bytes src (of_nat (length xs)) n (xs @ r))[unat (of_nat (length xs) + of_nat n :: u32) := src ! n]"
    by (simp add: copy_bytes_def)
  also have "\<dots> = (xs @ take n src @ drop n r)[length xs + n := src ! n]"
    using Suc by (simp only: u)
  also have "\<dots> = xs @ take (Suc n) src @ drop (Suc n) r"
    using Suc.prems(2,3)
    by (simp add: list_update_append take_Suc_conv_app_nth flip: Cons_nth_drop_Suc)
  finally show ?case .
qed

definition ccsds_sent_one :: "ccsds_class \<Rightarrow> ccsds_state \<Rightarrow> ccsds_state" where
  "ccsds_sent_one cls s = s\<lparr>cc_tx_count := (cc_tx_count s)(cls := (cc_tx_count s cls + 1) AND CCSDS_SEQ_COUNT_MAX),
     cc_sent := (cc_sent s)(cls := cc_sent s cls + 1)\<rparr>"

lemma build_eq:
  assumes "cls \<noteq> CCSDS_CLASS_COUNT" "length app = n" "n \<le> 65532" "n + 10 \<le> unat len" "n + 10 \<le> length bs"
    and "header_ok (build_fields cls (of_nat (n + 4)) (w_ccsds w))"
  shows "comm_ccsds_build cls (Some app) (of_nat n) (Some bs) len w =
    (QIRAN_OK, Some (ccsds_packet (build_fields cls (of_nat (n + 4)) (w_ccsds w)) app @ drop (n + 10) bs),
     Some (of_nat (n + 10)), ccsds_upd (ccsds_sent_one cls) w)"
proof -
  let ?h = "build_fields cls (of_nat (n + 4)) (w_ccsds w)"
  have fl: "of_nat n + (4::u32) = of_nat (n + 4)" "6 + (of_nat (n + 4) :: u32) = of_nat (n + 10)"
    "6 + (of_nat n :: u32) = of_nat (n + 6)" by simp_all
  have un: "unat (of_nat (n + k) :: u32) = n + k" if "k \<le> 10" for k
    using assms(3) that by (intro unat_cursor) simp
  have nz: "of_nat (n + 4) \<noteq> (0::u32)"
  proof
    assume z: "of_nat (n + 4) = (0::u32)"
    show False using un [of 4] unfolding z by simp
  qed
  have le: "\<not> CCSDS_DATA_FIELD_MAX < of_nat (n + 4)" "\<not> len < of_nat (n + 10)" "\<not> len < 6"
    using un [of 4] un [of 10] assms(3,4) by (simp_all add: ccsds_consts word_less_nat_alt del: of_nat_add)
  have bh: "comm_ccsds_build_header (Some ?h) (Some bs) len = (QIRAN_OK, Some (header_bytes ?h @ drop 6 bs))"
    using assms(5,6) le(3) by (subst build_header_bytes) simp_all
  have cp: "copy_bytes app 6 n (header_bytes ?h @ drop 6 bs) = header_bytes ?h @ app @ drop (n + 6) bs"
    using copy_bytes_eq [of "header_bytes ?h" n app "drop 6 bs"] assms(2,3,5) by simp
  have pt: "comm_put_u32 (header_bytes ?h @ app @ drop (n + 6) bs) (of_nat (n + 6)) c =
      (header_bytes ?h @ app @ be32 c @ drop (n + 10) bs, of_nat (n + 10))" for c
    using put_u32_cursor [of "drop (n + 6) bs" "header_bytes ?h @ app" c] assms(2,3,5)
    by (simp add: add.commute)
  have "unat (of_nat n :: u32) = n" using un [of 0] by simp
  then show ?thesis
    using assms(1,2) nz le(1,2)
    by (simp add: comm_ccsds_build_def CCSDS_INTEGRITY_BYTES_def CCSDS_PRIMARY_HEADER_BYTES_def fl bh cp pt
        ccsds_packet_def ccsds_sent_one_def [abs_def] Let_def del: of_nat_add)
qed

lemma receive_eq:
  assumes "header_ok h" "length app = n" "n \<le> 65532" "ch_data_length h = of_nat (n + 3)"
    and "cls = comm_ccsds_class_of (ch_apid h) w"
  shows "comm_ccsds_receive consume (Some (header_bytes h @ app @ be32 c @ r)) (of_nat (n + 10)) w =
    (if c \<noteq> crc32 app
     then ccsds_refuse (\<lambda>s. s\<lparr>cc_integrity_errors := cc_integrity_errors s + 1\<rparr>) (ucast (ch_apid h)) QIRAN_ERR_INTEGRITY w
     else if cls = CCSDS_CLASS_COUNT
     then ccsds_refuse (\<lambda>s. s\<lparr>cc_unroutable := cc_unroutable s + 1\<rparr>) (ucast (ch_apid h)) QIRAN_ERR_UNSUPPORTED w
     else (let w = ccsds_upd (ccsds_received cls (ch_seq_count h)) (ccsds_gap_check cls (ch_seq_count h) w)
           in case cc_consumer (w_ccsds w) cls of
                None \<Rightarrow> (QIRAN_ERR_UNSUPPORTED, ccsds_upd (\<lambda>s. s\<lparr>cc_unroutable := cc_unroutable s + 1\<rparr>) w)
              | Some hn \<Rightarrow> consume hn (cc_ctx (w_ccsds w) cls) h app w))"
proof -
  have un: "unat (of_nat (n + k) :: u32) = n + k" if "k \<le> 10" for k
    using assms(3) that by (intro unat_cursor) simp
  have dl: "(ucast (of_nat (n + 3) :: u16) :: u32) = of_nat (n + 3)"
    using assms(3) by (intro word_unat_eq_iff [THEN iffD2])
      (simp add: unat_of_nat unsigned_ucast_eq take_bit_nat_eq_self del: of_nat_add)
  have fl: "(of_nat (n + 3) :: u32) + 1 = of_nat (n + 4)" "6 + (of_nat (n + 4) :: u32) = of_nat (n + 10)"
    "(of_nat (n + 4) :: u32) - 4 = of_nat n"
    "(of_nat (n + 3) :: u32) - 3 = of_nat n" "6 + (of_nat n :: u32) = of_nat (n + 6)" by simp_all
  have ge: "6 \<le> (of_nat (n + 10) :: u32)" "\<not> (of_nat (n + 4) :: u32) < 4"
    using un [of 4] un [of 10] by (simp_all add: word_le_nat_alt word_less_nat_alt del: of_nat_add)
  have ph: "comm_ccsds_parse_header (Some (header_bytes h @ app @ be32 c @ r)) (of_nat (n + 10)) (Some header_unset) =
      (QIRAN_OK, Some h)"
    using parse_header_bytes [OF assms(1) ge(1)] by (simp only:)
  have gc: "comm_get_u32 (header_bytes h @ app @ be32 c @ r) (of_nat (n + 6)) = c"
    using get_u32_be [of "header_bytes h @ app" c r] assms(2,3) by (simp add: add.commute)
  have un0: "unat (of_nat n :: u32) = n" using un [of 0] by simp
  have ap: "take n (drop (unat (6 :: u32)) (header_bytes h @ app @ be32 c @ r)) = app"
    using assms(2) by simp
  show ?thesis
    by (simp only: comm_ccsds_receive_def CCSDS_INTEGRITY_BYTES_def CCSDS_PRIMARY_HEADER_BYTES_def Let_def
        ph prod.case option.sel assms(4) dl fl ge gc un0 ap assms(5) [symmetric] if_False simp_thms)
qed

subsection \<open>The state the operations keep\<close>

definition ccsds_ok :: "ccsds_state \<Rightarrow> bool" where
  "ccsds_ok s \<longleftrightarrow> (\<forall>c. c \<noteq> CCSDS_CLASS_COUNT \<longrightarrow>
    cc_apid s c < CCSDS_APID_IDLE \<and> cc_tx_count s c \<le> CCSDS_SEQ_COUNT_MAX \<and>
    (\<forall>d. d \<noteq> CCSDS_CLASS_COUNT \<and> d \<noteq> c \<longrightarrow> cc_apid s d \<noteq> cc_apid s c))"

lemma ccsds_classes_all: "c \<in> set ccsds_classes \<longleftrightarrow> c \<noteq> CCSDS_CLASS_COUNT"
  by (cases c) (simp_all add: ccsds_classes_def)

lemma w_ccsds_upd [simp]: "w_ccsds (ccsds_upd f w) = f (w_ccsds w)"
  by (simp add: ccsds_upd_def)

lemma w_ccsds_report [simp]: "w_ccsds (svc_fdir_report f d w) = w_ccsds w"
  by (simp add: svc_fdir_report_eq)

lemma class_of_apid:
  assumes "ccsds_ok (w_ccsds w)" "c \<noteq> CCSDS_CLASS_COUNT"
  shows "comm_ccsds_class_of (cc_apid (w_ccsds w) c) w = c"
proof -
  have u: "cc_apid (w_ccsds w) d = cc_apid (w_ccsds w) c \<longleftrightarrow> d = c" if "d \<in> set ccsds_classes" for d
    using assms that unfolding ccsds_ok_def ccsds_classes_all by metis
  have "find (\<lambda>d. cc_apid (w_ccsds w) d = cc_apid (w_ccsds w) c) ccsds_classes = find (\<lambda>d. d = c) ccsds_classes"
    by (rule find_cong) (simp_all add: u)
  also have "\<dots> = Some c" using assms(2) by (cases c) (simp_all add: ccsds_classes_def)
  finally show ?thesis by (simp add: comm_ccsds_class_of_def)
qed

lemma class_of_cases:
  "comm_ccsds_class_of a w = CCSDS_CLASS_COUNT \<or> cc_apid (w_ccsds w) (comm_ccsds_class_of a w) = a"
  by (auto simp: comm_ccsds_class_of_def find_Some_iff split: option.splits)

lemma ccsds_init_ok: "ccsds_ok (w_ccsds (comm_ccsds_init w))"
proof -
  have "cc_apid (w_ccsds (comm_ccsds_init w)) = k_default_apid" "cc_tx_count (w_ccsds (comm_ccsds_init w)) = (\<lambda>_. 0)"
    by (simp_all add: comm_ccsds_init_def)
  moreover have "k_default_apid c < CCSDS_APID_IDLE" for c
    by (cases c) (simp_all add: ccsds_consts)
  moreover have "k_default_apid d \<noteq> k_default_apid c" if "d \<noteq> CCSDS_CLASS_COUNT" "d \<noteq> c" "c \<noteq> CCSDS_CLASS_COUNT" for c d
    using that by (cases c; cases d) simp_all
  ultimately show ?thesis by (simp add: ccsds_ok_def ccsds_consts)
qed

lemma ccsds_set_apid_ok:
  assumes "ccsds_ok (w_ccsds w)"
  shows "ccsds_ok (w_ccsds (snd (comm_ccsds_set_apid cls apid w)))"
proof (cases "fst (comm_ccsds_set_apid cls apid w) = QIRAN_OK")
  case False
  then have "snd (comm_ccsds_set_apid cls apid w) = w" by (auto simp: comm_ccsds_set_apid_def split: if_splits)
  with assms show ?thesis by simp
next
  case True
  then have a: "cls \<noteq> CCSDS_CLASS_COUNT" "apid < CCSDS_APID_IDLE"
      "\<And>c. c \<noteq> CCSDS_CLASS_COUNT \<Longrightarrow> c \<noteq> cls \<Longrightarrow> cc_apid (w_ccsds w) c \<noteq> apid"
    by (auto simp: comm_ccsds_set_apid_def ccsds_consts ccsds_classes_all split: if_splits)
  have "w_ccsds (snd (comm_ccsds_set_apid cls apid w)) = (w_ccsds w)\<lparr>cc_apid := (cc_apid (w_ccsds w))(cls := apid)\<rparr>"
    using True by (auto simp: comm_ccsds_set_apid_def split: if_splits)
  then show ?thesis using assms a by (auto simp: ccsds_ok_def)
qed

lemma seq_and_max: "x AND CCSDS_SEQ_COUNT_MAX \<le> CCSDS_SEQ_COUNT_MAX"
  by (rule word_and_le1)

lemma ccsds_sent_one_ok: "ccsds_ok s \<Longrightarrow> ccsds_ok (ccsds_sent_one cls s)"
  by (simp add: ccsds_ok_def ccsds_sent_one_def seq_and_max)

lemma ccsds_received_fields [simp]:
  "cc_apid (ccsds_received cls n s) = cc_apid s" "cc_tx_count (ccsds_received cls n s) = cc_tx_count s"
  "cc_consumer (ccsds_received cls n s) = cc_consumer s" "cc_ctx (ccsds_received cls n s) = cc_ctx s"
  "cc_gaps (ccsds_received cls n s) = cc_gaps s"
  by (simp_all add: ccsds_received_def)

lemma ccsds_gap_check_fields [simp]:
  "cc_apid (w_ccsds (ccsds_gap_check cls n w)) = cc_apid (w_ccsds w)"
  "cc_tx_count (w_ccsds (ccsds_gap_check cls n w)) = cc_tx_count (w_ccsds w)"
  "cc_consumer (w_ccsds (ccsds_gap_check cls n w)) = cc_consumer (w_ccsds w)"
  "cc_ctx (w_ccsds (ccsds_gap_check cls n w)) = cc_ctx (w_ccsds w)"
  by (simp_all add: ccsds_gap_check_def Let_def)

lemma build_fields_ok:
  "ccsds_ok s \<Longrightarrow> cls \<noteq> CCSDS_CLASS_COUNT \<Longrightarrow> header_ok (build_fields cls n s)"
  by (auto simp: ccsds_ok_def header_ok_def build_fields_def ccsds_consts)

subsection \<open>Sequence counts over a lossy link\<close>

lemma seq_unat: "unat (of_nat (k mod 16384) :: u16) = k mod 16384"
  by (simp add: unat_of_nat take_bit_nat_eq_self)

lemma seq_inj: "(of_nat (j mod 16384) :: u16) = of_nat (k mod 16384) \<longleftrightarrow> j mod 16384 = k mod 16384"
  using seq_unat by metis

lemma mod_add_left_iff: "(t + a) mod m = (t + b) mod m \<longleftrightarrow> a mod m = b mod m" for m :: nat
  by (simp add: nat_mod_eq_iff add.assoc)

lemma seq_le: "(of_nat (k mod 16384) :: u16) \<le> CCSDS_SEQ_COUNT_MAX"
proof -
  have "k mod 16384 \<le> 16383" using mod_less_divisor [of 16384 k] by linarith
  then show ?thesis by (simp only: word_le_nat_alt seq_unat CCSDS_SEQ_COUNT_MAX_def) simp
qed

lemma seq_succ:
  "(of_nat (k mod 16384) + 1 :: u16) AND CCSDS_SEQ_COUNT_MAX = of_nat (Suc k mod 16384)"
proof -
  have m: "CCSDS_SEQ_COUNT_MAX = mask 14" by (simp add: CCSDS_SEQ_COUNT_MAX_def mask_eq_exp_minus_1)
  have "unat ((of_nat (k mod 16384) + 1 :: u16) AND mask 14) = Suc (k mod 16384) mod 16384"
    using unat_add_mod_pow2 [of 14 "of_nat (k mod 16384) :: u16" 1]
    by (simp only: unat_and_mask seq_unat) simp
  also have "\<dots> = unat (of_nat (Suc k mod 16384) :: u16)" by (simp only: seq_unat mod_Suc_eq)
  finally show ?thesis unfolding m by (simp only: word_unat_eq_iff)
qed

text \<open>A sender builds one packet per message, each in a buffer of its size; the link delivers
  whole packets.\<close>

fun ccsds_send ::
  "ccsds_class \<Rightarrow> u8 list list \<Rightarrow> 'a ccsds_world_scheme \<Rightarrow> u8 list list \<times> 'a ccsds_world_scheme" where
  "ccsds_send cls [] w = ([], w)"
| "ccsds_send cls (app # apps) w =
     (let n = length app + 10;
          (st, buf, written, w) = comm_ccsds_build cls (Some app) (of_nat (length app))
             (Some (replicate n 0)) (of_nat n) w;
          (ps, w) = ccsds_send cls apps w
      in (the buf # ps, w))"

fun ccsds_deliver ::
  "'a ccsds_world_scheme ccsds_consume \<Rightarrow> u8 list list \<Rightarrow> 'a ccsds_world_scheme \<Rightarrow> 'a ccsds_world_scheme" where
  "ccsds_deliver consume [] w = w"
| "ccsds_deliver consume (p # ps) w =
     ccsds_deliver consume ps (snd (comm_ccsds_receive consume (Some p) (of_nat (length p)) w))"

text \<open>The places where the positions of consecutive deliveries are not consecutive, as far as a
  count of fourteen bits can tell.\<close>

fun gaps_of :: "nat list \<Rightarrow> nat" where
  "gaps_of (i # j # ks) = (if j mod 16384 = Suc i mod 16384 then 0 else 1) + gaps_of (j # ks)"
| "gaps_of _ = 0"

definition numbered_packet :: "u16 \<Rightarrow> nat \<Rightarrow> u8 list \<Rightarrow> u8 list" where
  "numbered_packet apid k app =
    ccsds_packet \<lparr>ch_version = CCSDS_VERSION_1, ch_type = CCSDS_TM, ch_secondary_header = False,
      ch_apid = apid, ch_seq_flags = CCSDS_SEQ_UNSEGMENTED, ch_seq_count = of_nat (k mod 16384),
      ch_data_length = of_nat (length app + 3)\<rparr> app"

lemma numbered_packet_build:
  assumes "cc_tx_count s cls = of_nat (k mod 16384)" "length app \<le> 65532"
  shows "ccsds_packet (build_fields cls (of_nat (length app + 4)) s) app = numbered_packet (cc_apid s cls) k app"
proof -
  have m: "(of_nat (length app + 4) - 1 :: u32) = of_nat (length app + 3)" by simp
  have "(ucast (of_nat (length app + 4) - 1 :: u32) :: u16) = of_nat (length app + 3)"
    unfolding m using assms(2) by (intro word_unat_eq_iff [THEN iffD2])
      (simp add: unat_of_nat unsigned_ucast_eq take_bit_nat_eq_self del: of_nat_add)
  then show ?thesis by (simp add: numbered_packet_def build_fields_def assms(1))
qed

lemma send_packets:
  assumes "ccsds_ok (w_ccsds w)" "cls \<noteq> CCSDS_CLASS_COUNT" "\<forall>app \<in> set apps. length app \<le> 65532"
    and "cc_tx_count (w_ccsds w) cls = of_nat (k mod 16384)"
  shows "fst (ccsds_send cls apps w) =
    map (\<lambda>i. numbered_packet (cc_apid (w_ccsds w) cls) (k + i) (apps ! i)) [0..<length apps]"
  using assms
proof (induction apps arbitrary: w k)
  case Nil then show ?case by simp
next
  case (Cons app apps)
  let ?n = "length app" and ?w1 = "ccsds_upd (ccsds_sent_one cls) w"
  have n: "?n \<le> 65532" using Cons.prems(3) by simp
  have u: "unat (of_nat (?n + 10) :: u32) = ?n + 10" using n by (intro unat_cursor) simp
  have b: "comm_ccsds_build cls (Some app) (of_nat ?n) (Some (replicate (?n + 10) 0)) (of_nat (?n + 10)) w =
      (QIRAN_OK, Some (numbered_packet (cc_apid (w_ccsds w) cls) k app), Some (of_nat (?n + 10)), ?w1)"
    using build_eq [OF Cons.prems(2) refl n, of "of_nat (?n + 10)" "replicate (?n + 10) 0" w]
      build_fields_ok [OF Cons.prems(1,2), of "of_nat (?n + 4)"]
      numbered_packet_build [OF Cons.prems(4) n] u by simp
  have t: "cc_tx_count (w_ccsds ?w1) cls = of_nat (Suc k mod 16384)"
    by (simp add: ccsds_sent_one_def Cons.prems(4) seq_succ)
  have a: "cc_apid (w_ccsds ?w1) = cc_apid (w_ccsds w)" by (simp add: ccsds_sent_one_def)
  have "fst (ccsds_send cls apps ?w1) =
      map (\<lambda>i. numbered_packet (cc_apid (w_ccsds w) cls) (Suc k + i) (apps ! i)) [0..<length apps]"
    using Cons.IH [of ?w1 "Suc k"] Cons.prems t a by (simp add: ccsds_sent_one_ok)
  moreover have "[0..<length (app # apps)] = 0 # map Suc [0..<length apps]"
    by (simp add: map_Suc_upt upt_conv_Cons del: upt_Suc)
  ultimately show ?case
    by (simp only: ccsds_send.simps Let_def b prod.case split_beta fst_conv snd_conv option.sel list.map map_map
        nth_Cons_0 nth_Cons_Suc o_def add_0_right add_Suc_shift)
qed

text \<open>What one delivery leaves in the receiver's state.\<close>

definition consumer_ok :: "'a ccsds_world_scheme ccsds_consume \<Rightarrow> bool" where
  "consumer_ok consume \<longleftrightarrow> (\<forall>h c hdr app w. w_ccsds (snd (consume h c hdr app w)) = w_ccsds w)"

lemma receive_numbered:
  fixes k :: nat
  assumes ok: "ccsds_ok (w_ccsds w)" and cls: "cls \<noteq> CCSDS_CLASS_COUNT" and n: "length app \<le> 65532"
    and cons: "consumer_ok consume"
  defines "v \<equiv> snd (comm_ccsds_receive consume (Some (numbered_packet (cc_apid (w_ccsds w) cls) k app))
      (of_nat (length app + 10)) w)"
  shows "cc_apid (w_ccsds v) = cc_apid (w_ccsds w)" "cc_tx_count (w_ccsds v) = cc_tx_count (w_ccsds w)"
    and "cc_rx_seen (w_ccsds v) cls" "cc_rx_expect (w_ccsds v) cls = of_nat (Suc k mod 16384)"
    and "cc_received (w_ccsds v) cls = cc_received (w_ccsds w) cls + 1"
    and "cc_gaps (w_ccsds v) = cc_gaps (w_ccsds w) +
      (if cc_rx_seen (w_ccsds w) cls \<and> of_nat (k mod 16384) \<noteq> cc_rx_expect (w_ccsds w) cls then 1 else 0)"
proof -
  define h where "h = \<lparr>ch_version = CCSDS_VERSION_1, ch_type = CCSDS_TM, ch_secondary_header = False,
      ch_apid = cc_apid (w_ccsds w) cls, ch_seq_flags = CCSDS_SEQ_UNSEGMENTED,
      ch_seq_count = of_nat (k mod 16384), ch_data_length = of_nat (length app + 3)\<rparr>"
  have hok: "header_ok h"
    using ok cls seq_le [of k] by (auto simp: h_def header_ok_def ccsds_ok_def ccsds_consts)
  have hf: "ch_apid h = cc_apid (w_ccsds w) cls" "ch_seq_count h = of_nat (k mod 16384)"
    "ch_data_length h = of_nat (length app + 3)"
    by (simp_all add: h_def)
  let ?w = "ccsds_upd (ccsds_received cls (of_nat (k mod 16384))) (ccsds_gap_check cls (of_nat (k mod 16384)) w)"
  have p: "numbered_packet (cc_apid (w_ccsds w) cls) k app = header_bytes h @ app @ be32 (crc32 app) @ []"
    by (simp add: numbered_packet_def ccsds_packet_def h_def)
  have r: "comm_ccsds_receive consume (Some (numbered_packet (cc_apid (w_ccsds w) cls) k app))
      (of_nat (length app + 10)) w =
    (case cc_consumer (w_ccsds ?w) cls of
       None \<Rightarrow> (QIRAN_ERR_UNSUPPORTED, ccsds_upd (\<lambda>s. s\<lparr>cc_unroutable := cc_unroutable s + 1\<rparr>) ?w)
     | Some hn \<Rightarrow> consume hn (cc_ctx (w_ccsds ?w) cls) h app ?w)"
    unfolding p
    by (subst receive_eq [OF hok refl n hf(3), of cls])
       (simp_all add: hf class_of_apid [OF ok cls] cls Let_def del: of_nat_add)
  have e: "w_ccsds v = w_ccsds ?w \<or> w_ccsds v = (w_ccsds ?w)\<lparr>cc_unroutable := cc_unroutable (w_ccsds ?w) + 1\<rparr>"
    unfolding v_def r using cons by (auto simp: consumer_ok_def split: option.splits)
  have f: "cc_apid (w_ccsds ?w) = cc_apid (w_ccsds w)" "cc_tx_count (w_ccsds ?w) = cc_tx_count (w_ccsds w)"
    "cc_rx_seen (w_ccsds ?w) cls" "cc_rx_expect (w_ccsds ?w) cls = of_nat (Suc k mod 16384)"
    "cc_received (w_ccsds ?w) cls = cc_received (w_ccsds w) cls + 1"
    "cc_gaps (w_ccsds ?w) = cc_gaps (w_ccsds w) +
      (if cc_rx_seen (w_ccsds w) cls \<and> of_nat (k mod 16384) \<noteq> cc_rx_expect (w_ccsds w) cls then 1 else 0)"
    by (simp_all add: ccsds_received_def ccsds_gap_check_def Let_def seq_succ)
  show "cc_apid (w_ccsds v) = cc_apid (w_ccsds w)" "cc_tx_count (w_ccsds v) = cc_tx_count (w_ccsds w)"
    "cc_rx_seen (w_ccsds v) cls" "cc_rx_expect (w_ccsds v) cls = of_nat (Suc k mod 16384)"
    "cc_received (w_ccsds v) cls = cc_received (w_ccsds w) cls + 1"
    "cc_gaps (w_ccsds v) = cc_gaps (w_ccsds w) +
      (if cc_rx_seen (w_ccsds w) cls \<and> of_nat (k mod 16384) \<noteq> cc_rx_expect (w_ccsds w) cls then 1 else 0)"
    using e f by auto
qed

lemma ccsds_receive_keeps:
  assumes "consumer_ok consume"
  shows "cc_apid (w_ccsds (snd (comm_ccsds_receive consume p len w))) = cc_apid (w_ccsds w) \<and>
    cc_tx_count (w_ccsds (snd (comm_ccsds_receive consume p len w))) = cc_tx_count (w_ccsds w)"
  using assms
  by (auto simp: comm_ccsds_receive_def ccsds_refuse_def consumer_ok_def Let_def split: prod.splits option.splits)

lemma ccsds_build_keeps:
  "w_ccsds (snd (snd (snd (comm_ccsds_build cls a n b len w)))) = w_ccsds w \<or>
   w_ccsds (snd (snd (snd (comm_ccsds_build cls a n b len w)))) = ccsds_sent_one cls (w_ccsds w)"
  by (auto simp: comm_ccsds_build_def ccsds_sent_one_def Let_def split: prod.splits)

text \<open>Everything the rest of the software can ask of the module.\<close>

datatype ccsds_op =
    Cc_set_apid ccsds_class u16
  | Cc_register ccsds_class "handle option" "handle option"
  | Cc_build ccsds_class "u8 list option" u32 "u8 list option" u32
  | Cc_receive "u8 list option" u32

fun ccsds_step ::
  "'a ccsds_world_scheme ccsds_consume \<Rightarrow> ccsds_op \<Rightarrow> 'a ccsds_world_scheme \<Rightarrow> 'a ccsds_world_scheme" where
  "ccsds_step consume (Cc_set_apid cls apid) w = snd (comm_ccsds_set_apid cls apid w)"
| "ccsds_step consume (Cc_register cls h ctx) w = snd (comm_ccsds_register cls h ctx w)"
| "ccsds_step consume (Cc_build cls a n b len) w = snd (snd (snd (comm_ccsds_build cls a n b len w)))"
| "ccsds_step consume (Cc_receive p len) w = snd (comm_ccsds_receive consume p len w)"

lemma ccsds_step_ok:
  assumes "ccsds_ok (w_ccsds w)" "consumer_ok consume"
  shows "ccsds_ok (w_ccsds (ccsds_step consume x w))"
proof (cases x)
  case (Cc_set_apid cls apid) then show ?thesis using ccsds_set_apid_ok [OF assms(1)] by simp
next
  case (Cc_register cls h ctx)
  have "cc_apid (w_ccsds (snd (comm_ccsds_register cls h ctx w))) = cc_apid (w_ccsds w)"
    "cc_tx_count (w_ccsds (snd (comm_ccsds_register cls h ctx w))) = cc_tx_count (w_ccsds w)"
    by (simp_all add: comm_ccsds_register_def)
  then show ?thesis using assms(1) Cc_register by (simp add: ccsds_ok_def)
next
  case (Cc_build cls a n b len)
  then show ?thesis using ccsds_build_keeps [of cls a n b len w] assms(1) ccsds_sent_one_ok by auto
next
  case (Cc_receive p len)
  then show ?thesis using ccsds_receive_keeps [OF assms(2), of p len w] assms(1) by (simp add: ccsds_ok_def)
qed

lemma ccsds_run_ok:
  assumes "ccsds_ok (w_ccsds w)" "consumer_ok consume"
  shows "ccsds_ok (w_ccsds (fold (ccsds_step consume) xs w))"
  using assms by (induction xs arbitrary: w) (simp_all add: ccsds_step_ok)

lemma class_of_idle:
  assumes "ccsds_ok (w_ccsds w)"
  shows "comm_ccsds_class_of CCSDS_APID_IDLE w = CCSDS_CLASS_COUNT"
  using class_of_cases [of CCSDS_APID_IDLE w] assms by (auto simp: ccsds_ok_def)

subsection \<open>Properties\<close>

text \<open>C25: Every header within the widths of its fields is written and read back unchanged, whatever
  the buffer held, and every other header is refused: no field can spill into a neighbour.\<close>

theorem ccsds_header_roundtrip:
  assumes "6 \<le> length bs" "6 \<le> len"
  shows "(case comm_ccsds_build_header (Some h) (Some bs) len of
      (st, out) \<Rightarrow>
        if ch_version h \<le> 7 \<and> ch_apid h \<le> 0x7FF \<and> ch_seq_count h \<le> 0x3FFF
        then st = QIRAN_OK \<and> comm_ccsds_parse_header out len (Some h0) = (QIRAN_OK, Some h) \<and>
          length (the out) = length bs \<and> drop 6 (the out) = drop 6 bs
        else st = QIRAN_ERR_RANGE \<and> out = Some bs)"
proof -
  have l: "\<not> len < 6" using assms(2) by simp
  have o: "header_ok h \<longleftrightarrow> ch_version h \<le> 7 \<and> ch_apid h \<le> 0x7FF \<and> ch_seq_count h \<le> 0x3FFF"
    by (simp add: header_ok_def ccsds_consts)
  show ?thesis
    unfolding build_header_bytes [OF assms(1)] o [symmetric]
    using assms(1) l by (simp add: parse_header_bytes [OF _ assms(2)])
qed

theorem ccsds_header_roundtrip_witness:
  "(let h = \<lparr>ch_version = 5, ch_type = CCSDS_TC, ch_secondary_header = True, ch_apid = 0x5A5,
        ch_seq_flags = CCSDS_SEQ_FIRST, ch_seq_count = 0x3ABC, ch_data_length = 0xBEEF\<rparr>
    in comm_ccsds_parse_header (snd (comm_ccsds_build_header (Some h) (Some (replicate 8 0)) 8)) 8 (Some header_unset)
       = (QIRAN_OK, Some h))"
  using ccsds_header_roundtrip [of "replicate 8 0" 8 "\<lparr>ch_version = 5, ch_type = CCSDS_TC,
      ch_secondary_header = True, ch_apid = 0x5A5, ch_seq_flags = CCSDS_SEQ_FIRST,
      ch_seq_count = 0x3ABC, ch_data_length = 0xBEEF\<rparr>" header_unset]
  by (simp add: Let_def split: prod.splits)

text \<open>C23: End to end over a link that loses packets: of the packets a sender built for a class, the
  receiver is handed some in order; it accepts each, and the gaps it reports are exactly the
  places where something was lost between two it received. A gap is reported once and then
  adopted; only a loss of a multiple of 16384 packets in a row is invisible to the count.\<close>

theorem ccsds_loss_counted:
  fixes apps :: "u8 list list" and ks :: "nat list"
  assumes "ccsds_ok (w_ccsds tx)" "ccsds_ok (w_ccsds rx)" "cls \<noteq> CCSDS_CLASS_COUNT"
    and "cc_apid (w_ccsds rx) cls = cc_apid (w_ccsds tx) cls" "consumer_ok consume"
    and "\<forall>app \<in> set apps. length app \<le> 65532" "\<forall>k \<in> set ks. k < length apps"
    and "\<not> cc_rx_seen (w_ccsds rx) cls"
  defines "v \<equiv> ccsds_deliver consume (map (nth (fst (ccsds_send cls apps tx))) ks) rx"
  shows "comm_ccsds_sequence_gaps v = comm_ccsds_sequence_gaps rx + of_nat (gaps_of ks) \<and>
    comm_ccsds_received cls v = comm_ccsds_received cls rx + of_nat (length ks)"
proof -
  define t where "t = unat (cc_tx_count (w_ccsds tx) cls)"
  define a where "a = cc_apid (w_ccsds tx) cls"
  have "cc_tx_count (w_ccsds tx) cls \<le> 0x3FFF"
    using assms(1,3) by (auto simp: ccsds_ok_def ccsds_consts)
  then have "t mod 16384 = t" by (simp add: t_def word_le_nat_alt)
  then have tc: "cc_tx_count (w_ccsds tx) cls = of_nat (t mod 16384)" by (simp add: t_def)
  let ?p = "\<lambda>k. numbered_packet a (t + k) (apps ! k)"
  have pk: "map (nth (fst (ccsds_send cls apps tx))) ks = map ?p ks"
    using assms(7) by (simp add: send_packets [OF assms(1,3,6) tc] a_def)
  have step: "cc_gaps (w_ccsds (ccsds_deliver consume (map ?p ks) w)) = cc_gaps (w_ccsds w) +
        of_nat (gaps_of (case prev of None \<Rightarrow> ks | Some i \<Rightarrow> i # ks)) \<and>
      cc_received (w_ccsds (ccsds_deliver consume (map ?p ks) w)) cls =
        cc_received (w_ccsds w) cls + of_nat (length ks)"
    if "ccsds_ok (w_ccsds w)" "cc_apid (w_ccsds w) cls = a" "\<forall>k \<in> set ks. k < length apps"
      "cc_rx_seen (w_ccsds w) cls \<longleftrightarrow> prev \<noteq> None"
      "\<forall>i. prev = Some i \<longrightarrow> cc_rx_expect (w_ccsds w) cls = of_nat (Suc (t + i) mod 16384)"
    for w prev and ks
    using that
  proof (induction ks arbitrary: w prev)
    case Nil then show ?case by (cases prev) simp_all
  next
    case (Cons k ks)
    have n: "length (apps ! k) \<le> 65532" using Cons.prems(3) assms(6) by simp
    let ?v = "snd (comm_ccsds_receive consume (Some (?p k)) (of_nat (length (?p k))) w)"
    have l: "length (?p k) = length (apps ! k) + 10" by (simp add: numbered_packet_def)
    note r = receive_numbered [OF Cons.prems(1) assms(3) n assms(5), of "t + k",
        unfolded Cons.prems(2), folded l]
    have "ccsds_ok (w_ccsds ?v)"
      using Cons.prems(1) by (simp add: ccsds_ok_def r(1,2))
    note ih = Cons.IH [OF this, of "Some k"]
    have nx: "cc_gaps (w_ccsds ?v) = cc_gaps (w_ccsds w) +
        (case prev of None \<Rightarrow> 0 | Some i \<Rightarrow> if k mod 16384 = Suc i mod 16384 then 0 else 1)"
    proof (cases prev)
      case None then show ?thesis using Cons.prems(4) r(6) by simp
    next
      case (Some i)
      have "(t + k) mod 16384 = Suc (t + i) mod 16384 \<longleftrightarrow> k mod 16384 = Suc i mod 16384"
        using mod_add_left_iff [of t k 16384 "Suc i"] by simp
      then show ?thesis using Some Cons.prems(4,5) r(6) by (simp add: seq_inj)
    qed
    have "cc_gaps (w_ccsds (ccsds_deliver consume (map ?p ks) ?v)) = cc_gaps (w_ccsds ?v) + of_nat (gaps_of (k # ks)) \<and>
        cc_received (w_ccsds (ccsds_deliver consume (map ?p ks) ?v)) cls = cc_received (w_ccsds ?v) cls + of_nat (length ks)"
      using ih r(1,3,4) Cons.prems(2,3) by simp
    then show ?case
      unfolding list.map ccsds_deliver.simps nx r(5)
      by (cases prev) (simp_all add: add.assoc)
  qed
  show ?thesis
    using step [of rx ks None] assms(2,3,4,7,8)
    by (simp add: v_def pk a_def comm_ccsds_sequence_gaps_def comm_ccsds_received_def)
qed

theorem ccsds_loss_counted_witness:
  "\<forall>w :: ccsds_world.
     let w = comm_ccsds_init w;
         v = ccsds_deliver (\<lambda>_ _ _ _ w. (QIRAN_OK, w))
               (map (nth (fst (ccsds_send CCSDS_CLASS_HEALTH [[1], [2], [3], [4]] w))) [0, 2, 3]) w
     in comm_ccsds_sequence_gaps v = 1 \<and> comm_ccsds_received CCSDS_CLASS_HEALTH v = 3"
proof
  fix w :: ccsds_world
  have z: "\<not> cc_rx_seen (w_ccsds (comm_ccsds_init w)) CCSDS_CLASS_HEALTH"
    "cc_gaps (w_ccsds (comm_ccsds_init w)) = 0" "cc_received (w_ccsds (comm_ccsds_init w)) = (\<lambda>_. 0)"
    by (simp_all add: comm_ccsds_init_def)
  show "let w = comm_ccsds_init w;
         v = ccsds_deliver (\<lambda>_ _ _ _ w. (QIRAN_OK, w))
               (map (nth (fst (ccsds_send CCSDS_CLASS_HEALTH [[1], [2], [3], [4]] w))) [0, 2, 3]) w
     in comm_ccsds_sequence_gaps v = 1 \<and> comm_ccsds_received CCSDS_CLASS_HEALTH v = 3"
    unfolding Let_def
    using ccsds_loss_counted [of "comm_ccsds_init w" "comm_ccsds_init w" CCSDS_CLASS_HEALTH
        "\<lambda>_ _ _ _ w. (QIRAN_OK, w)" "[[1], [2], [3], [4]]" "[0, 2, 3]"]
    by (simp add: ccsds_init_ok consumer_ok_def z comm_ccsds_sequence_gaps_def comm_ccsds_received_def
        del: ccsds_send.simps ccsds_deliver.simps list.map)
qed

text \<open>C24: A packet whose application data is damaged on the link in up to four consecutive bytes is
  refused by the receiver, whatever its state: the error is counted and reported with the
  packet's identifier, no consumer is called, and neither the sequence count nor any other
  part of the receiver moves.\<close>

theorem ccsds_corruption_refused:
  assumes "ccsds_ok (w_ccsds tx)" "cls \<noteq> CCSDS_CLASS_COUNT"
    and "length xs = length ys" "length xs \<le> 4" "xs \<noteq> ys" "length (p @ xs @ s) \<le> 65532"
  defines "n \<equiv> length (p @ xs @ s)"
  shows "\<exists>sent tx1. comm_ccsds_build cls (Some (p @ xs @ s)) (of_nat n) (Some (replicate (n + 10) 0)) (of_nat (n + 10)) tx =
      (QIRAN_OK, Some sent, Some (of_nat (n + 10)), tx1) \<and>
    comm_ccsds_receive consume (Some (take (6 + length p) sent @ ys @ drop (6 + length p + length xs) sent))
      (of_nat (n + 10)) rx =
    (QIRAN_ERR_INTEGRITY, svc_fdir_report QIRAN_FAULT_PACKET_INTEGRITY (ucast (comm_ccsds_apid cls tx))
       (rx\<lparr>w_ccsds := (w_ccsds rx)\<lparr>cc_integrity_errors := cc_integrity_errors (w_ccsds rx) + 1\<rparr>\<rparr>))"
proof -
  let ?h = "build_fields cls (of_nat (n + 4)) (w_ccsds tx)"
  have n: "n \<le> 65532" using assms(6) by (simp add: n_def)
  have ln: "length (p @ xs @ s) = n" by (simp only: n_def)
  have u: "unat (of_nat (n + 10) :: u32) = n + 10" using n by (intro unat_cursor) simp
  have hok: "header_ok ?h" by (rule build_fields_ok [OF assms(1,2)])
  have b: "comm_ccsds_build cls (Some (p @ xs @ s)) (of_nat n) (Some (replicate (n + 10) 0)) (of_nat (n + 10)) tx =
      (QIRAN_OK, Some (ccsds_packet ?h (p @ xs @ s)), Some (of_nat (n + 10)), ccsds_upd (ccsds_sent_one cls) tx)"
    using build_eq [OF assms(2) ln n, of "of_nat (n + 10)" "replicate (n + 10) 0" tx] hok u by simp
  have d: "take (6 + length p) (ccsds_packet ?h (p @ xs @ s)) @ ys @ drop (6 + length p + length xs) (ccsds_packet ?h (p @ xs @ s)) =
      header_bytes ?h @ (p @ ys @ s) @ be32 (crc32 (p @ xs @ s)) @ []"
    by (simp add: ccsds_packet_def)
  have m: "(of_nat (n + 4) - 1 :: u32) = of_nat (n + 3)" by simp
  have dl: "ch_data_length ?h = of_nat (n + 3)"
    unfolding build_fields_def using n
    by (simp add: m word_unat_eq_iff unat_of_nat unsigned_ucast_eq take_bit_nat_eq_self del: of_nat_add)
  have ne: "crc32 (p @ xs @ s) \<noteq> crc32 (p @ ys @ s)" by (rule crc32_burst_neq [OF assms(3,4,5)])
  have l: "length (p @ ys @ s) = n" using assms(3) by (simp add: n_def)
  have r: "comm_ccsds_receive consume (Some (header_bytes ?h @ (p @ ys @ s) @ be32 (crc32 (p @ xs @ s)) @ []))
      (of_nat (n + 10)) rx =
    ccsds_refuse (\<lambda>s. s\<lparr>cc_integrity_errors := cc_integrity_errors s + 1\<rparr>) (ucast (ch_apid ?h)) QIRAN_ERR_INTEGRITY rx"
    using receive_eq [OF hok l n dl refl, of consume "crc32 (p @ xs @ s)" "[]" rx] ne by (simp only: if_True simp_thms)
  have a: "ch_apid ?h = comm_ccsds_apid cls tx" using assms(2) by (simp add: build_fields_def comm_ccsds_apid_def)
  show ?thesis
    by (intro exI conjI, rule b) (simp only: d r ccsds_refuse_def ccsds_upd_def a)
qed

theorem ccsds_corruption_refused_witness:
  "\<forall>w :: ccsds_world. \<exists>sent tx1.
     comm_ccsds_build CCSDS_CLASS_EVENT (Some [1, 2, 3]) 3 (Some (replicate 13 0)) 13 (comm_ccsds_init w) =
       (QIRAN_OK, Some sent, Some 13, tx1) \<and>
     comm_ccsds_receive (\<lambda>_ _ _ _ w. (QIRAN_OK, w)) (Some (take 7 sent @ [9] @ drop 8 sent)) 13 w =
     (QIRAN_ERR_INTEGRITY, svc_fdir_report QIRAN_FAULT_PACKET_INTEGRITY 0x30
        (w\<lparr>w_ccsds := (w_ccsds w)\<lparr>cc_integrity_errors := cc_integrity_errors (w_ccsds w) + 1\<rparr>\<rparr>))"
proof
  fix w :: ccsds_world
  have a: "comm_ccsds_apid CCSDS_CLASS_EVENT (comm_ccsds_init w) = 0x30"
    by (simp add: comm_ccsds_apid_def comm_ccsds_init_def)
  show "\<exists>sent tx1.
     comm_ccsds_build CCSDS_CLASS_EVENT (Some [1, 2, 3]) 3 (Some (replicate 13 0)) 13 (comm_ccsds_init w) =
       (QIRAN_OK, Some sent, Some 13, tx1) \<and>
     comm_ccsds_receive (\<lambda>_ _ _ _ w. (QIRAN_OK, w)) (Some (take 7 sent @ [9] @ drop 8 sent)) 13 w =
     (QIRAN_ERR_INTEGRITY, svc_fdir_report QIRAN_FAULT_PACKET_INTEGRITY 0x30
        (w\<lparr>w_ccsds := (w_ccsds w)\<lparr>cc_integrity_errors := cc_integrity_errors (w_ccsds w) + 1\<rparr>\<rparr>))"
    using ccsds_corruption_refused [OF ccsds_init_ok, of CCSDS_CLASS_EVENT "[2]" "[9]" "[1]" "[3]" w
        "\<lambda>_ _ _ _ w. (QIRAN_OK, w)" w]
    by (simp add: a)
qed

text \<open>Routing is never ambiguous: after the initialisation and any sequence of identifier changes,
  registrations, packets built and packets received, every class has an identifier below the
  idle one that no other class has, the identifier routes back to its class, and the idle
  identifier routes to none.\<close>

theorem ccsds_routing_unambiguous:
  fixes w :: "'a ccsds_world_scheme" and xs :: "ccsds_op list"
  assumes "consumer_ok consume" "c \<noteq> CCSDS_CLASS_COUNT"
  defines "v \<equiv> fold (ccsds_step consume) xs (comm_ccsds_init w)"
  shows "comm_ccsds_apid c v < CCSDS_APID_IDLE \<and> comm_ccsds_class_of (comm_ccsds_apid c v) v = c \<and>
    (d \<noteq> c \<longrightarrow> comm_ccsds_apid d v \<noteq> comm_ccsds_apid c v) \<and>
    comm_ccsds_class_of CCSDS_APID_IDLE v = CCSDS_CLASS_COUNT"
proof -
  have ok: "ccsds_ok (w_ccsds v)" unfolding v_def by (rule ccsds_run_ok [OF ccsds_init_ok assms(1)])
  then have lt: "cc_apid (w_ccsds v) c < CCSDS_APID_IDLE" using assms(2) by (simp add: ccsds_ok_def)
  have "d \<noteq> c \<Longrightarrow> comm_ccsds_apid d v \<noteq> comm_ccsds_apid c v"
    using ok lt assms(2) by (auto simp: ccsds_ok_def comm_ccsds_apid_def)
  then show ?thesis
    using lt assms(2) class_of_apid [OF ok assms(2)] class_of_idle [OF ok] by (simp add: comm_ccsds_apid_def)
qed

theorem ccsds_routing_unambiguous_witness:
  "\<forall>w :: ccsds_world. let v = fold (ccsds_step (\<lambda>_ _ _ _ w. (QIRAN_OK, w)))
       [Cc_set_apid CCSDS_CLASS_EVENT 0x20, Cc_set_apid CCSDS_CLASS_HEALTH 0x31] (comm_ccsds_init w)
     in comm_ccsds_class_of (comm_ccsds_apid CCSDS_CLASS_HEALTH v) v = CCSDS_CLASS_HEALTH"
proof
  fix w :: ccsds_world
  show "let v = fold (ccsds_step (\<lambda>_ _ _ _ w. (QIRAN_OK, w)))
       [Cc_set_apid CCSDS_CLASS_EVENT 0x20, Cc_set_apid CCSDS_CLASS_HEALTH 0x31] (comm_ccsds_init w)
     in comm_ccsds_class_of (comm_ccsds_apid CCSDS_CLASS_HEALTH v) v = CCSDS_CLASS_HEALTH"
    using ccsds_routing_unambiguous [of "\<lambda>_ _ _ _ w. (QIRAN_OK, w)" CCSDS_CLASS_HEALTH
        "[Cc_set_apid CCSDS_CLASS_EVENT 0x20, Cc_set_apid CCSDS_CLASS_HEALTH 0x31]" w]
    by (simp add: consumer_ok_def Let_def del: fold_simps)
qed

text \<open>The length arithmetic wraps: an application length just below 2 to the 32 passes the range
  check with a packet of seven bytes, and the copy loop then runs over the whole address space.\<close>

lemma ccsds_build_length_wraps:
  assumes "ccsds_ok (w_ccsds w)" "cls \<noteq> CCSDS_CLASS_COUNT" "7 \<le> length bs"
  shows "fst (comm_ccsds_build cls (Some app) 0xFFFFFFFD (Some bs) 7 w) = QIRAN_OK"
proof -
  have "comm_ccsds_build_header (Some (build_fields cls 1 (w_ccsds w))) (Some bs) 7 =
      (QIRAN_OK, Some (header_bytes (build_fields cls 1 (w_ccsds w)) @ drop 6 bs))"
    using assms(3) build_fields_ok [OF assms(1,2)] by (subst build_header_bytes) simp_all
  moreover have "(0xFFFFFFFD :: u32) + 4 = 1" by simp
  ultimately show ?thesis
    using assms(2)
    by (simp only: comm_ccsds_build_def ccsds_consts Let_def prod.case option.distinct simp_thms if_False if_True)
       (simp add: split_beta)
qed

end
