(* ===== verification/Comm_Cmd.thy ===== *)
theory Comm_Cmd
  imports Comm_Ccsds
begin

section \<open>Telecommands: \<^verbatim>\<open>src/comm/comm_cmd.c\<close>\<close>

text \<open>
  Frames are assembled from the serial ring or arrive whole inside a space packet; each goes
  through one sequence of checks and is dispatched to the handler registered for it, and every
  command is answered by results. Handlers and the result transmitter are registered from
  outside and interpreted by the environment record; the module's own handler for the mode
  command is a constructor of its own. Command and result names are not modelled.
\<close>

datatype comm_cmd_id =
    CMD_PAYLOAD_ON | CMD_PROCESSOR_ON | CMD_PAYLOAD_OFF | CMD_LASER_ON | CMD_LASER_OFF
  | CMD_HEATERS_ON | CMD_HEATERS_OFF | CMD_MODE | CMD_PROCESSOR_RESET | CMD_POWER_ON_RESET
  | CMD_FLIGHT_MODE_RESET | COMM_CMD_COUNT

definition cmd_ids :: "comm_cmd_id list" where
  "cmd_ids = [CMD_PAYLOAD_ON, CMD_PROCESSOR_ON, CMD_PAYLOAD_OFF, CMD_LASER_ON, CMD_LASER_OFF,
     CMD_HEATERS_ON, CMD_HEATERS_OFF, CMD_MODE, CMD_PROCESSOR_RESET, CMD_POWER_ON_RESET,
     CMD_FLIGHT_MODE_RESET]"

definition cmd_idx :: "comm_cmd_id \<Rightarrow> nat" where
  "cmd_idx c = length (takeWhile (\<lambda>d. d \<noteq> c) cmd_ids)"

datatype comm_cmd_result =
    COMM_CMD_COMPLETED | COMM_CMD_ACCEPTED | COMM_CMD_REJECT_FORMAT | COMM_CMD_REJECT_UNKNOWN
  | COMM_CMD_REJECT_STATE | COMM_CMD_REJECT_PARAM | COMM_CMD_REJECT_BUSY | COMM_CMD_FAILED
  | COMM_CMD_TIMEOUT

fun result_code :: "comm_cmd_result \<Rightarrow> u32" where
  "result_code COMM_CMD_COMPLETED = 0"
| "result_code COMM_CMD_ACCEPTED = 1"
| "result_code COMM_CMD_REJECT_FORMAT = 16"
| "result_code COMM_CMD_REJECT_UNKNOWN = 17"
| "result_code COMM_CMD_REJECT_STATE = 18"
| "result_code COMM_CMD_REJECT_PARAM = 19"
| "result_code COMM_CMD_REJECT_BUSY = 20"
| "result_code COMM_CMD_FAILED = 32"
| "result_code COMM_CMD_TIMEOUT = 33"

definition COMM_CMD_PACKET_ID :: u8 where "COMM_CMD_PACKET_ID = 0xC5"
definition COMM_CMD_RESULT_ID :: u8 where "COMM_CMD_RESULT_ID = 0xC6"
definition COMM_CMD_VERSION :: u8 where "COMM_CMD_VERSION = 1"
definition COMM_CMD_FRAME_BYTES :: u32 where "COMM_CMD_FRAME_BYTES = 13"
definition COMM_CMD_RESULT_BYTES :: u32 where "COMM_CMD_RESULT_BYTES = 18"
definition PLAT_UART_KIND_GAP :: u16 where "PLAT_UART_KIND_GAP = 1"

lemmas cmd_consts = COMM_CMD_PACKET_ID_def COMM_CMD_RESULT_ID_def COMM_CMD_VERSION_def
  COMM_CMD_FRAME_BYTES_def COMM_CMD_RESULT_BYTES_def PLAT_UART_KIND_GAP_def

record comm_cmd_def =
  kd_stage_mask :: u32
  kd_takes_parameter :: bool
  kd_param_min :: int
  kd_param_max :: int
  kd_budget_ms :: u32

definition ST :: "mission_stage \<Rightarrow> u32" where
  "ST s = push_bit (stage_idx s) 1"

definition ANY_STAGE :: u32 where "ANY_STAGE = ST STAGE_COUNT - 1"
definition EARLY_ONLY :: u32 where "EARLY_ONLY = ST STAGE_BOOT OR ST STAGE_PRECOND"

definition cmd_def :: "u32 \<Rightarrow> bool \<Rightarrow> int \<Rightarrow> int \<Rightarrow> u32 \<Rightarrow> comm_cmd_def" where
  "cmd_def stages takes lo hi budget = \<lparr>kd_stage_mask = stages, kd_takes_parameter = takes,
     kd_param_min = lo, kd_param_max = hi, kd_budget_ms = budget\<rparr>"

fun k_cmd :: "comm_cmd_id \<Rightarrow> comm_cmd_def" where
  "k_cmd CMD_PAYLOAD_ON = cmd_def EARLY_ONLY False 0 0 2000"
| "k_cmd CMD_PROCESSOR_ON = cmd_def EARLY_ONLY False 0 0 2000"
| "k_cmd CMD_PAYLOAD_OFF = cmd_def ANY_STAGE False 0 0 2000"
| "k_cmd CMD_LASER_ON = cmd_def EARLY_ONLY False 0 0 5000"
| "k_cmd CMD_LASER_OFF = cmd_def ANY_STAGE False 0 0 1000"
| "k_cmd CMD_HEATERS_ON = cmd_def EARLY_ONLY False 0 0 2000"
| "k_cmd CMD_HEATERS_OFF = cmd_def ANY_STAGE False 0 0 1000"
| "k_cmd CMD_MODE = cmd_def ANY_STAGE True 0 0 1000"
| "k_cmd CMD_PROCESSOR_RESET = cmd_def ANY_STAGE False 0 0 1000"
| "k_cmd CMD_POWER_ON_RESET = cmd_def ANY_STAGE False 0 0 1000"
| "k_cmd CMD_FLIGHT_MODE_RESET = cmd_def ANY_STAGE False 0 0 1000"
| "k_cmd COMM_CMD_COUNT = cmd_def 0 False 0 0 0"

text \<open>A registered handler: the module's own for the mode command, or one from outside.\<close>

datatype cmd_handler = Mode_handler | Ext_handler handle

record cmd_inflight =
  if_active :: bool
  if_id :: comm_cmd_id
  if_parameter :: u32
  if_sequence :: u16
  if_receipt_ms :: u32
  if_budget :: svc_timeout

record cmd_state =
  cm_handler :: "comm_cmd_id \<Rightarrow> cmd_handler option"
  cm_ctx :: "comm_cmd_id \<Rightarrow> handle option"
  cm_tx :: "handle option"
  cm_tx_ctx :: "handle option"
  cm_asm :: "u8 list"
  cm_asm_len :: u32
  cm_inflight :: cmd_inflight
  cm_received :: u32
  cm_completed :: u32
  cm_rejected :: u32
  cm_failed :: u32
  cm_resyncs :: u32
  cm_last_receipt_ms :: u32

record cmd_world = ccsds_world +
  w_cmd :: cmd_state

record 'w cmd_env =
  ke_handler :: "handle \<Rightarrow> handle option \<Rightarrow> u32 \<Rightarrow> 'w \<Rightarrow> qiran_status \<times> 'w"
  ke_tx :: "handle \<Rightarrow> handle option \<Rightarrow> u8 list \<Rightarrow> 'w \<Rightarrow> qiran_status \<times> 'w"

definition cmd_upd :: "(cmd_state \<Rightarrow> cmd_state) \<Rightarrow> 'a cmd_world_scheme \<Rightarrow> 'a cmd_world_scheme" where
  "cmd_upd f w = w\<lparr>w_cmd := f (w_cmd w)\<rparr>"

definition mode_handler :: "'w \<Rightarrow> qiran_status \<times> 'w" where
  "mode_handler w = (QIRAN_OK, w)"

definition cmd_call ::
  "'w cmd_env \<Rightarrow> cmd_handler \<Rightarrow> handle option \<Rightarrow> u32 \<Rightarrow> 'w \<Rightarrow> qiran_status \<times> 'w" where
  "cmd_call E h ctx parameter w =
    (case h of Mode_handler \<Rightarrow> mode_handler w | Ext_handler h \<Rightarrow> ke_handler E h ctx parameter w)"

definition comm_cmd_init :: "'a cmd_world_scheme \<Rightarrow> 'a cmd_world_scheme" where
  "comm_cmd_init = cmd_upd (\<lambda>s. s\<lparr>cm_handler := (\<lambda>_. None)(CMD_MODE := Some Mode_handler),
     cm_ctx := (\<lambda>_. None), cm_tx := None, cm_tx_ctx := None, cm_asm_len := 0,
     cm_inflight := (cm_inflight s)\<lparr>if_active := False\<rparr>, cm_received := 0, cm_completed := 0,
     cm_rejected := 0, cm_failed := 0, cm_resyncs := 0, cm_last_receipt_ms := 0\<rparr>)"

definition comm_cmd_register ::
  "comm_cmd_id \<Rightarrow> handle option \<Rightarrow> handle option \<Rightarrow> 'a cmd_world_scheme \<Rightarrow> qiran_status \<times> 'a cmd_world_scheme" where
  "comm_cmd_register c handler ctx w =
    (if c = COMM_CMD_COUNT \<or> handler = None then (QIRAN_ERR_PARAM, w)
     else if cm_handler (w_cmd w) c \<noteq> None then (QIRAN_ERR_STATE, w)
     else (QIRAN_OK, cmd_upd (\<lambda>s. s\<lparr>cm_handler := (cm_handler s)(c := map_option Ext_handler handler),
             cm_ctx := (cm_ctx s)(c := ctx)\<rparr>) w))"

definition comm_cmd_set_transmit ::
  "handle option \<Rightarrow> handle option \<Rightarrow> 'a cmd_world_scheme \<Rightarrow> qiran_status \<times> 'a cmd_world_scheme" where
  "comm_cmd_set_transmit transmit ctx w =
    (QIRAN_OK, cmd_upd (\<lambda>s. s\<lparr>cm_tx := transmit, cm_tx_ctx := ctx\<rparr>) w)"

definition comm_cmd_def_get :: "comm_cmd_id \<Rightarrow> comm_cmd_def option" where
  "comm_cmd_def_get c = (if c = COMM_CMD_COUNT then None else Some (k_cmd c))"

definition comm_cmd_legal_in :: "comm_cmd_id \<Rightarrow> mission_stage \<Rightarrow> bool" where
  "comm_cmd_legal_in c stage \<longleftrightarrow>
    c \<noteq> COMM_CMD_COUNT \<and> stage \<noteq> STAGE_COUNT \<and> kd_stage_mask (k_cmd c) AND ST stage \<noteq> 0"

definition comm_cmd_build ::
  "comm_cmd_id \<Rightarrow> u32 \<Rightarrow> u16 \<Rightarrow> u8 list option \<Rightarrow> u32 \<Rightarrow> qiran_status \<times> u8 list option \<times> u32 option" where
  "comm_cmd_build c parameter seq buf len =
    (case buf of
       None \<Rightarrow> (QIRAN_ERR_PARAM, buf, None)
     | Some bs \<Rightarrow>
         if len < COMM_CMD_FRAME_BYTES then (QIRAN_ERR_PARAM, buf, None)
         else (let (bs, at) = comm_put_u8 bs 0 COMM_CMD_PACKET_ID;
                   (bs, at) = comm_put_u8 bs at COMM_CMD_VERSION;
                   (bs, at) = comm_put_u8 bs at (of_nat (cmd_idx c));
                   (bs, at) = comm_put_u32 bs at parameter;
                   (bs, at) = comm_put_u16 bs at seq;
                   (bs, at) = comm_put_u32 bs at (crc32 (take (unat at) bs))
               in (if at = COMM_CMD_FRAME_BYTES then QIRAN_OK else QIRAN_ERR_INTEGRITY, Some bs, Some at)))"

subsection \<open>Results\<close>

text \<open>The result frame; the local buffer is written throughout before it is used.\<close>

definition result_frame :: "u8 \<Rightarrow> u16 \<Rightarrow> u32 \<Rightarrow> comm_cmd_result \<Rightarrow> u32 \<Rightarrow> u8 list \<times> u32" where
  "result_frame raw_id seq receipt_ms result detail =
    (let bs = replicate (unat COMM_CMD_RESULT_BYTES) 0;
         (bs, at) = comm_put_u8 bs 0 COMM_CMD_RESULT_ID;
         (bs, at) = comm_put_u8 bs at COMM_CMD_VERSION;
         (bs, at) = comm_put_u32 bs at receipt_ms;
         (bs, at) = comm_put_u16 bs at seq;
         (bs, at) = comm_put_u8 bs at raw_id;
         (bs, at) = comm_put_u8 bs at (ucast (result_code result));
         (bs, at) = comm_put_u32 bs at detail
     in comm_put_u32 bs at (crc32 (take (unat at) bs)))"

definition send_result ::
  "'a cmd_world_scheme cmd_env \<Rightarrow> u8 \<Rightarrow> u16 \<Rightarrow> u32 \<Rightarrow> comm_cmd_result \<Rightarrow> u32 \<Rightarrow> 'a cmd_world_scheme \<Rightarrow> 'a cmd_world_scheme" where
  "send_result E raw_id seq receipt_ms result detail w =
    (let w = svc_log_event (ucast (push_bit 8 (ucast raw_id :: u32) OR result_code result)) detail w
     in case cm_tx (w_cmd w) of
          None \<Rightarrow> w
        | Some tx \<Rightarrow>
            (let (bs, at) = result_frame raw_id seq receipt_ms result detail
             in snd (ke_tx E tx (cm_tx_ctx (w_cmd w)) (take (unat at) bs) w)))"

definition cmd_reject ::
  "'a cmd_world_scheme cmd_env \<Rightarrow> u8 \<Rightarrow> u16 \<Rightarrow> u32 \<Rightarrow> comm_cmd_result \<Rightarrow> u32 \<Rightarrow> 'a cmd_world_scheme \<Rightarrow> 'a cmd_world_scheme" where
  "cmd_reject E raw_id seq receipt_ms result detail w =
    (let w = cmd_upd (\<lambda>s. s\<lparr>cm_rejected := cm_rejected s + 1\<rparr>) w;
         w = svc_fdir_report QIRAN_FAULT_COMMAND_REJECTED
               (push_bit 8 (ucast raw_id) OR result_code result) w
     in send_result E raw_id seq receipt_ms result detail w)"

text \<open>A command that could not be carried out.\<close>

definition cmd_fail ::
  "'a cmd_world_scheme cmd_env \<Rightarrow> comm_cmd_id \<Rightarrow> u16 \<Rightarrow> u32 \<Rightarrow> comm_cmd_result \<Rightarrow> u32 \<Rightarrow> 'a cmd_world_scheme \<Rightarrow> 'a cmd_world_scheme" where
  "cmd_fail E c seq receipt_ms result detail w =
    (let w = cmd_upd (\<lambda>s. s\<lparr>cm_failed := cm_failed s + 1\<rparr>) w;
         w = svc_fdir_report QIRAN_FAULT_COMMAND_FAILED (of_nat (cmd_idx c)) w
     in send_result E (of_nat (cmd_idx c)) seq receipt_ms result detail w)"

definition cmd_complete ::
  "'a cmd_world_scheme cmd_env \<Rightarrow> comm_cmd_id \<Rightarrow> u16 \<Rightarrow> u32 \<Rightarrow> 'a cmd_world_scheme \<Rightarrow> 'a cmd_world_scheme" where
  "cmd_complete E c seq receipt_ms w =
    send_result E (of_nat (cmd_idx c)) seq receipt_ms COMM_CMD_COMPLETED 0
      (cmd_upd (\<lambda>s. s\<lparr>cm_completed := cm_completed s + 1\<rparr>) w)"

subsection \<open>The command sequence\<close>

definition cmd_dispatch ::
  "'a cmd_world_scheme cmd_env \<Rightarrow> comm_cmd_id \<Rightarrow> u32 \<Rightarrow> u16 \<Rightarrow> u32 \<Rightarrow> 'a cmd_world_scheme \<Rightarrow> 'a cmd_world_scheme" where
  "cmd_dispatch E c parameter seq receipt_ms w =
    (case cm_handler (w_cmd w) c of
       None \<Rightarrow> cmd_fail E c seq receipt_ms COMM_CMD_FAILED (status_code QIRAN_ERR_UNSUPPORTED) w
     | Some h \<Rightarrow>
         (let (st, w) = cmd_call E h (cm_ctx (w_cmd w) c) parameter w
          in if st = QIRAN_OK then cmd_complete E c seq receipt_ms w
             else if st = QIRAN_ERR_BUSY
             then (let w = cmd_upd (\<lambda>s. s\<lparr>cm_inflight := (cm_inflight s)\<lparr>if_active := True, if_id := c,
                             if_parameter := parameter, if_sequence := seq, if_receipt_ms := receipt_ms\<rparr>\<rparr>) w;
                       (budget, w) = timeout_arm (if_budget (cm_inflight (w_cmd w))) (kd_budget_ms (k_cmd c)) w;
                       w = cmd_upd (\<lambda>s. s\<lparr>cm_inflight := (cm_inflight s)\<lparr>if_budget := budget\<rparr>\<rparr>) w
                   in send_result E (of_nat (cmd_idx c)) seq receipt_ms COMM_CMD_ACCEPTED 0 w)
             else cmd_fail E c seq receipt_ms COMM_CMD_FAILED (status_code st) w))"

definition cmd_process ::
  "'a cmd_world_scheme cmd_env \<Rightarrow> u8 list \<Rightarrow> 'a cmd_world_scheme \<Rightarrow> 'a cmd_world_scheme" where
  "cmd_process E frame w =
    (let raw_id = frame ! 2;
         parameter = comm_get_u32 frame 3;
         seq = comm_get_u16 frame 7;
         (now, w) = svc_time_now_ms w;
         receipt_ms = ucast now;
         w = cmd_upd (\<lambda>s. s\<lparr>cm_received := cm_received s + 1, cm_last_receipt_ms := receipt_ms\<rparr>) w
     in if frame ! 1 \<noteq> COMM_CMD_VERSION
        then cmd_reject E raw_id seq receipt_ms COMM_CMD_REJECT_FORMAT (ucast (frame ! 1)) w
        else if length cmd_ids \<le> unat raw_id
        then cmd_reject E raw_id seq receipt_ms COMM_CMD_REJECT_UNKNOWN (ucast raw_id) w
        else (let c = cmd_ids ! unat raw_id; value_ok = (\<not> kd_takes_parameter (k_cmd c) \<or>
                    \<not> (sint parameter < kd_param_min (k_cmd c) \<or> kd_param_max (k_cmd c) < sint parameter))
              in if if_active (cm_inflight (w_cmd w))
                 then cmd_reject E raw_id seq receipt_ms COMM_CMD_REJECT_BUSY
                        (of_nat (cmd_idx (if_id (cm_inflight (w_cmd w))))) w
                 else if \<not> comm_cmd_legal_in c (mission_stage_get w)
                 then cmd_reject E raw_id seq receipt_ms COMM_CMD_REJECT_STATE
                        (of_nat (stage_idx (mission_stage_get w))) w
                 else if \<not> value_ok
                 then cmd_reject E raw_id seq receipt_ms COMM_CMD_REJECT_PARAM parameter w
                 else cmd_dispatch E c parameter seq receipt_ms w))"

definition frame_crc_ok :: "u8 list \<Rightarrow> bool" where
  "frame_crc_ok frame \<longleftrightarrow> comm_get_u32 frame (COMM_CMD_FRAME_BYTES - 4) =
     crc32 (take (unat (COMM_CMD_FRAME_BYTES - 4)) frame)"

definition comm_cmd_submit ::
  "'a cmd_world_scheme cmd_env \<Rightarrow> u8 list option \<Rightarrow> u32 \<Rightarrow> 'a cmd_world_scheme \<Rightarrow> qiran_status \<times> 'a cmd_world_scheme" where
  "comm_cmd_submit E frame len w =
    (case frame of
       None \<Rightarrow> (QIRAN_ERR_PARAM, w)
     | Some bs \<Rightarrow>
         if len \<noteq> COMM_CMD_FRAME_BYTES then (QIRAN_ERR_PARAM, w)
         else if bs ! 0 \<noteq> COMM_CMD_PACKET_ID then (QIRAN_ERR_PARAM, w)
         else if \<not> frame_crc_ok bs then (QIRAN_ERR_INTEGRITY, w)
         else (QIRAN_OK, cmd_process E bs w))"

subsection \<open>Assembling frames from the serial link\<close>

definition cmd_resync :: "cmd_state \<Rightarrow> cmd_state" where
  "cmd_resync s =
    (let s = s\<lparr>cm_resyncs := cm_resyncs s + 1\<rparr>; n = unat (cm_asm_len s)
     in case find (\<lambda>i. cm_asm s ! i = COMM_CMD_PACKET_ID) [1..<n] of
          None \<Rightarrow> s\<lparr>cm_asm_len := 0\<rparr>
        | Some i \<Rightarrow> s\<lparr>cm_asm := fold (\<lambda>j a. a[j := a ! (i + j)]) [0..<n - i] (cm_asm s),
                      cm_asm_len := of_nat (n - i)\<rparr>)"

definition assemble_byte ::
  "'a cmd_world_scheme cmd_env \<Rightarrow> u8 \<Rightarrow> 'a cmd_world_scheme \<Rightarrow> 'a cmd_world_scheme" where
  "assemble_byte E b w =
    (if cm_asm_len (w_cmd w) = 0 \<and> b \<noteq> COMM_CMD_PACKET_ID then w
     else (let w = cmd_upd (\<lambda>s. s\<lparr>cm_asm := (cm_asm s)[unat (cm_asm_len s) := b],
                             cm_asm_len := cm_asm_len s + 1\<rparr>) w
           in if cm_asm_len (w_cmd w) \<noteq> COMM_CMD_FRAME_BYTES then w
              else if frame_crc_ok (cm_asm (w_cmd w))
              then cmd_upd (\<lambda>s. s\<lparr>cm_asm_len := 0\<rparr>) (cmd_process E (cm_asm (w_cmd w)) w)
              else cmd_upd cmd_resync w))"

text \<open>
  The reading loop ends when a read does not fill the chunk. A handler called in between could
  change the ring, so the number of reads is bounded by fuel; \<^term>\<open>None\<close> is a loop that has not
  ended. With a ring of 256 bytes that the handlers leave alone five reads are enough
  (\<open>assemble_ends\<close>).
\<close>

fun assemble :: "nat \<Rightarrow> 'a cmd_world_scheme cmd_env \<Rightarrow> 'a cmd_world_scheme \<Rightarrow> 'a cmd_world_scheme option" where
  "assemble 0 E w = None"
| "assemble (Suc fuel) E w =
     (let (chunk, w) = plat_isr_uart_read True 64 w;
          w = fold (assemble_byte E) chunk w
      in if length chunk = 64 then assemble fuel E w else Some w)"

subsection \<open>A command still running\<close>

definition cmd_track :: "'a cmd_world_scheme cmd_env \<Rightarrow> 'a cmd_world_scheme \<Rightarrow> 'a cmd_world_scheme" where
  "cmd_track E w =
    (if \<not> if_active (cm_inflight (w_cmd w)) then w
     else (let s = w_cmd w; c = if_id (cm_inflight s);
               (st, w) = cmd_call E (the (cm_handler s c)) (cm_ctx s c) (if_parameter (cm_inflight s)) w;
               f = cm_inflight (w_cmd w)
           in if st = QIRAN_ERR_BUSY
              then (let (expired, w) = timeout_expired (if_budget f) w
                    in if expired
                       then cmd_fail E (if_id f) (if_sequence f) (if_receipt_ms f) COMM_CMD_TIMEOUT
                              (kd_budget_ms (k_cmd (if_id f)))
                              (cmd_upd (\<lambda>s. s\<lparr>cm_inflight := (cm_inflight s)\<lparr>if_active := False\<rparr>\<rparr>) w)
                       else w)
              else (let w = cmd_upd (\<lambda>s. s\<lparr>cm_inflight := (cm_inflight s)\<lparr>if_active := False\<rparr>\<rparr>) w
                    in if st = QIRAN_OK then cmd_complete E (if_id f) (if_sequence f) (if_receipt_ms f) w
                       else cmd_fail E (if_id f) (if_sequence f) (if_receipt_ms f) COMM_CMD_FAILED (status_code st) w)))"

definition cmd_gap_event :: "plat_irq_event \<Rightarrow> 'a cmd_world_scheme \<Rightarrow> 'a cmd_world_scheme" where
  "cmd_gap_event ev w =
    (if ev_kind ev = PLAT_UART_KIND_GAP \<and> cm_asm_len (w_cmd w) \<noteq> 0
     then cmd_upd (\<lambda>s. s\<lparr>cm_asm_len := 0, cm_resyncs := cm_resyncs s + 1\<rparr>) w else w)"

definition comm_cmd_service_interrupts :: "'a cmd_world_scheme \<Rightarrow> 'a cmd_world_scheme" where
  "comm_cmd_service_interrupts w = irq_service PLAT_IRQ_UART cmd_gap_event w"

definition comm_cmd_service ::
  "nat \<Rightarrow> 'a cmd_world_scheme cmd_env \<Rightarrow> 'a cmd_world_scheme \<Rightarrow> 'a cmd_world_scheme option" where
  "comm_cmd_service fuel E w = assemble fuel E (cmd_track E w)"

definition comm_cmd_received :: "'a cmd_world_scheme \<Rightarrow> u32" where
  "comm_cmd_received w = cm_received (w_cmd w)"

definition comm_cmd_completed :: "'a cmd_world_scheme \<Rightarrow> u32" where
  "comm_cmd_completed w = cm_completed (w_cmd w)"

definition comm_cmd_rejected :: "'a cmd_world_scheme \<Rightarrow> u32" where
  "comm_cmd_rejected w = cm_rejected (w_cmd w)"

definition comm_cmd_failed :: "'a cmd_world_scheme \<Rightarrow> u32" where
  "comm_cmd_failed w = cm_failed (w_cmd w)"

definition comm_cmd_resyncs :: "'a cmd_world_scheme \<Rightarrow> u32" where
  "comm_cmd_resyncs w = cm_resyncs (w_cmd w)"

definition comm_cmd_in_progress :: "'a cmd_world_scheme \<Rightarrow> bool" where
  "comm_cmd_in_progress w = if_active (cm_inflight (w_cmd w))"

definition comm_cmd_last_receipt_ms :: "'a cmd_world_scheme \<Rightarrow> u32" where
  "comm_cmd_last_receipt_ms w = cm_last_receipt_ms (w_cmd w)"

subsection \<open>What the steps leave alone\<close>

text \<open>What the module relies on: a handler or the transmitter does not reach back into this
  module's state, the serial ring or the mission stage while it runs.\<close>

definition cmd_env_ok :: "'a cmd_world_scheme cmd_env \<Rightarrow> bool" where
  "cmd_env_ok E \<longleftrightarrow>
    (\<forall>h c p w. w_cmd (snd (ke_handler E h c p w)) = w_cmd w \<and> w_uart (snd (ke_handler E h c p w)) = w_uart w) \<and>
    (\<forall>h c bs w. w_cmd (snd (ke_tx E h c bs w)) = w_cmd w \<and> w_uart (snd (ke_tx E h c bs w)) = w_uart w)"

lemma cmd_upd_fields [simp]:
  "w_cmd (cmd_upd f w) = f (w_cmd w)" "w_uart (cmd_upd f w) = w_uart w"
  "w_mission (cmd_upd f w) = w_mission w"
  by (simp_all add: cmd_upd_def)

lemma cmd_services [simp]:
  "w_cmd (svc_log_event code d w) = w_cmd w" "w_uart (svc_log_event code d w) = w_uart w"
  "w_cmd (svc_fdir_report f d w) = w_cmd w" "w_uart (svc_fdir_report f d w) = w_uart w"
  "w_cmd (snd (svc_time_now_ms w)) = w_cmd w" "w_uart (snd (svc_time_now_ms w)) = w_uart w"
  "w_mission (snd (svc_time_now_ms w)) = w_mission w"
  by (simp_all add: svc_log_eqs svc_fdir_report_eq svc_time_now_ms_def Let_def)

lemma cmd_call_keeps:
  assumes "cmd_env_ok E"
  shows "w_cmd (snd (cmd_call E h c p w)) = w_cmd w" "w_uart (snd (cmd_call E h c p w)) = w_uart w"
  using assms by (auto simp: cmd_call_def mode_handler_def cmd_env_ok_def split: cmd_handler.splits)

lemma send_result_keeps:
  assumes "cmd_env_ok E"
  shows "w_cmd (send_result E i q r res d w) = w_cmd w" "w_uart (send_result E i q r res d w) = w_uart w"
  using assms by (auto simp: send_result_def cmd_env_ok_def Let_def split: option.splits prod.splits)

lemma cmd_outcomes:
  assumes "cmd_env_ok E"
  shows "w_cmd (cmd_reject E i q r res d w) = (w_cmd w)\<lparr>cm_rejected := cm_rejected (w_cmd w) + 1\<rparr>"
    and "w_cmd (cmd_fail E c q r res d w) = (w_cmd w)\<lparr>cm_failed := cm_failed (w_cmd w) + 1\<rparr>"
    and "w_cmd (cmd_complete E c q r w) = (w_cmd w)\<lparr>cm_completed := cm_completed (w_cmd w) + 1\<rparr>"
    and "w_uart (cmd_reject E i q r res d w) = w_uart w"
    and "w_uart (cmd_fail E c q r res d w) = w_uart w"
    and "w_uart (cmd_complete E c q r w) = w_uart w"
  by (simp_all add: cmd_reject_def cmd_fail_def cmd_complete_def send_result_keeps [OF assms])

text \<open>Each command received has had its final result or is the one still running.\<close>

definition cmd_final :: "cmd_state \<Rightarrow> u32" where
  "cmd_final s = cm_completed s + cm_rejected s + cm_failed s"

definition cmd_ok :: "cmd_state \<Rightarrow> bool" where
  "cmd_ok s \<longleftrightarrow> cm_received s = cmd_final s + (if if_active (cm_inflight s) then 1 else 0) \<and>
    (if_active (cm_inflight s) \<longrightarrow> if_id (cm_inflight s) \<noteq> COMM_CMD_COUNT \<and>
       cm_handler s (if_id (cm_inflight s)) \<noteq> None)"

text \<open>The fields the command sequence never writes.\<close>

definition cmd_same :: "cmd_state \<Rightarrow> cmd_state \<Rightarrow> bool" where
  "cmd_same s t \<longleftrightarrow> cm_handler t = cm_handler s \<and> cm_ctx t = cm_ctx s \<and> cm_tx t = cm_tx s \<and>
    cm_tx_ctx t = cm_tx_ctx s \<and> cm_asm t = cm_asm s \<and> cm_asm_len t = cm_asm_len s \<and> cm_resyncs t = cm_resyncs s"

lemma dispatch_keeps:
  fixes p :: u32 and q :: u16 and r :: u32
  assumes "cmd_env_ok E" "c \<noteq> COMM_CMD_COUNT" "\<not> if_active (cm_inflight (w_cmd w))"
    and "cm_received (w_cmd w) = cmd_final (w_cmd w) + 1"
  defines "v \<equiv> cmd_dispatch E c p q r w"
  shows "cmd_ok (w_cmd v) \<and> cmd_same (w_cmd w) (w_cmd v) \<and> w_uart v = w_uart w"
proof (cases "cm_handler (w_cmd w) c")
  case None
  then show ?thesis
    using assms by (simp add: cmd_dispatch_def cmd_outcomes cmd_ok_def cmd_same_def cmd_final_def)
next
  case (Some h)
  obtain st u where u: "cmd_call E h (cm_ctx (w_cmd w) c) p w = (st, u)" by (rule prod.exhaust)
  then have k: "w_cmd u = w_cmd w" "w_uart u = w_uart w" using cmd_call_keeps [OF assms(1), of h "cm_ctx (w_cmd w) c" p w] by simp_all
  consider "st = QIRAN_OK" | "st = QIRAN_ERR_BUSY" | "st \<noteq> QIRAN_OK" "st \<noteq> QIRAN_ERR_BUSY" by blast
  then show ?thesis
  proof cases
    case 2
    then show ?thesis
      using assms(2-) Some k
      by (simp add: v_def cmd_dispatch_def u send_result_keeps [OF assms(1)] timeout_arm_def cmd_ok_def cmd_same_def
          cmd_final_def split_beta Let_def)
  qed (use assms(2-) Some k in \<open>simp_all add: v_def cmd_dispatch_def u cmd_outcomes [OF assms(1)] cmd_ok_def cmd_same_def cmd_final_def\<close>)
qed

lemma cmd_ids_facts:
  "distinct cmd_ids" "length cmd_ids = 11" "c \<in> set cmd_ids \<longleftrightarrow> c \<noteq> COMM_CMD_COUNT"
  unfolding cmd_ids_def by (simp, simp, cases c) simp_all

text \<open>The checks in their order, as the reason for a refusal; \<^term>\<open>None\<close> is a command to dispatch.\<close>

definition cmd_verdict ::
  "u8 \<Rightarrow> u8 \<Rightarrow> u32 \<Rightarrow> cmd_state \<Rightarrow> mission_stage \<Rightarrow> (comm_cmd_result \<times> u32) option" where
  "cmd_verdict version raw_id p s stage =
    (if version \<noteq> COMM_CMD_VERSION then Some (COMM_CMD_REJECT_FORMAT, ucast version)
     else if length cmd_ids \<le> unat raw_id then Some (COMM_CMD_REJECT_UNKNOWN, ucast raw_id)
     else let c = cmd_ids ! unat raw_id in
       if if_active (cm_inflight s) then Some (COMM_CMD_REJECT_BUSY, of_nat (cmd_idx (if_id (cm_inflight s))))
       else if \<not> comm_cmd_legal_in c stage then Some (COMM_CMD_REJECT_STATE, of_nat (stage_idx stage))
       else if kd_takes_parameter (k_cmd c) \<and> (sint p < kd_param_min (k_cmd c) \<or> kd_param_max (k_cmd c) < sint p)
       then Some (COMM_CMD_REJECT_PARAM, p) else None)"

definition cmd_receipt :: "'a cmd_world_scheme \<Rightarrow> 'a cmd_world_scheme" where
  "cmd_receipt w = (let (now, w) = svc_time_now_ms w
     in cmd_upd (\<lambda>s. s\<lparr>cm_received := cm_received s + 1, cm_last_receipt_ms := ucast now\<rparr>) w)"

lemma process_verdict:
  "cmd_process E frame w =
    (let v = cmd_receipt w; r = cm_last_receipt_ms (w_cmd v); q = comm_get_u16 frame 7; p = comm_get_u32 frame 3
     in case cmd_verdict (frame ! 1) (frame ! 2) p (w_cmd w) (mission_stage_get w) of
          Some (reason, detail) \<Rightarrow> cmd_reject E (frame ! 2) q r reason detail v
        | None \<Rightarrow> cmd_dispatch E (cmd_ids ! unat (frame ! 2)) p q r v)"
  by (simp add: cmd_process_def cmd_verdict_def cmd_receipt_def Let_def split_beta mission_stage_get_def) blast

lemma verdict_None:
  "cmd_verdict ver i p s stage = None \<Longrightarrow> unat i < 11 \<and> \<not> if_active (cm_inflight s) \<and> cmd_ids ! unat i \<noteq> COMM_CMD_COUNT"
  using cmd_ids_facts(3) [of "cmd_ids ! unat i"]
  by (auto simp: cmd_verdict_def Let_def cmd_ids_facts(2) split: if_splits)

lemma cmd_receipt_cmd [simp]:
  "w_cmd (cmd_receipt w) = (w_cmd w)\<lparr>cm_received := cm_received (w_cmd w) + 1,
     cm_last_receipt_ms := ucast (fst (svc_time_now_ms w))\<rparr>"
  "w_uart (cmd_receipt w) = w_uart w"
  by (simp_all add: cmd_receipt_def split_beta)

lemma process_keeps:
  assumes "cmd_env_ok E" "cmd_ok (w_cmd w)"
  shows "cmd_ok (w_cmd (cmd_process E frame w)) \<and> cmd_same (w_cmd w) (w_cmd (cmd_process E frame w)) \<and>
    w_uart (cmd_process E frame w) = w_uart w"
proof (cases "cmd_verdict (frame ! 1) (frame ! 2) (comm_get_u32 frame 3) (w_cmd w) (mission_stage_get w)")
  case None
  note n = verdict_None [OF None]
  have "cm_received (w_cmd (cmd_receipt w)) = cmd_final (w_cmd (cmd_receipt w)) + 1"
    using assms(2) n by (simp add: cmd_ok_def cmd_final_def)
  from dispatch_keeps [OF assms(1), of "cmd_ids ! unat (frame ! 2)" "cmd_receipt w", OF _ _ this] n
  show ?thesis unfolding process_verdict Let_def None option.case by (simp add: cmd_same_def)
next
  case (Some x)
  obtain reason detail where x: "x = (reason, detail)" by (rule prod.exhaust)
  show ?thesis
    unfolding process_verdict Let_def Some option.case x prod.case
    using assms(2) by (simp add: cmd_outcomes [OF assms(1)] cmd_ok_def cmd_same_def cmd_final_def)
qed

lemma track_keeps:
  assumes "cmd_env_ok E" "cmd_ok (w_cmd w)"
  shows "cmd_ok (w_cmd (cmd_track E w)) \<and> cmd_same (w_cmd w) (w_cmd (cmd_track E w)) \<and>
    w_uart (cmd_track E w) = w_uart w"
proof (cases "if_active (cm_inflight (w_cmd w))")
  case False
  then show ?thesis using assms(2) by (simp add: cmd_track_def cmd_same_def)
next
  case True
  let ?s = "w_cmd w"
  obtain st u where u: "cmd_call E (the (cm_handler ?s (if_id (cm_inflight ?s)))) (cm_ctx ?s (if_id (cm_inflight ?s)))
      (if_parameter (cm_inflight ?s)) w = (st, u)" by (rule prod.exhaust)
  then have k: "w_cmd u = ?s" "w_uart u = w_uart w"
    using cmd_call_keeps [OF assms(1), of "the (cm_handler ?s (if_id (cm_inflight ?s)))" "cm_ctx ?s (if_id (cm_inflight ?s))"
        "if_parameter (cm_inflight ?s)" w] by simp_all
  have x: "w_cmd (snd (timeout_expired t u)) = ?s" "w_uart (snd (timeout_expired t u)) = w_uart w" for t
    using k by (simp_all add: timeout_expired_def split_beta)
  show ?thesis
    using True assms(2) k x
    by (simp add: cmd_track_def u Let_def split_beta cmd_outcomes [OF assms(1)] cmd_ok_def cmd_same_def cmd_final_def)
qed

lemma resync_keeps:
  "cmd_ok (cmd_resync s) = cmd_ok s" "length (cm_asm (cmd_resync s)) = length (cm_asm s)"
proof -
  have l: "length (fold (\<lambda>j a. a[j := a ! (i + j)]) js xs) = length xs" for i js and xs :: "u8 list"
    by (induction js arbitrary: xs) simp_all
  show "cmd_ok (cmd_resync s) = cmd_ok s" "length (cm_asm (cmd_resync s)) = length (cm_asm s)"
    by (simp_all add: cmd_resync_def Let_def cmd_ok_def cmd_final_def l split: option.splits)
qed

lemma cmd_ok_asm [simp]:
  "cmd_ok (s\<lparr>cm_asm_len := n\<rparr>) = cmd_ok s" "cmd_ok (s\<lparr>cm_asm := a\<rparr>) = cmd_ok s"
  "cmd_ok (s\<lparr>cm_resyncs := m\<rparr>) = cmd_ok s"
  by (simp_all add: cmd_ok_def cmd_final_def)

lemma assemble_byte_keeps:
  assumes "cmd_env_ok E" "cmd_ok (w_cmd w)"
  shows "cmd_ok (w_cmd (assemble_byte E b w)) \<and> w_uart (assemble_byte E b w) = w_uart w \<and>
    length (cm_asm (w_cmd (assemble_byte E b w))) = length (cm_asm (w_cmd w))"
proof -
  let ?w = "cmd_upd (\<lambda>s. s\<lparr>cm_asm := (cm_asm s)[unat (cm_asm_len s) := b], cm_asm_len := cm_asm_len s + 1\<rparr>) w"
  have ok: "cmd_ok (w_cmd ?w)" using assms(2) by simp
  from process_keeps [OF assms(1) ok, of "cm_asm (w_cmd ?w)"] ok assms(2)
  show ?thesis
    by (simp add: assemble_byte_def Let_def resync_keeps cmd_same_def)
qed

text \<open>The loop over the bytes of the ring ends: each full read takes 64 bytes of a finite queue
  that no handler refills.\<close>

lemma assemble_bytes_keep:
  assumes "cmd_env_ok E" "cmd_ok (w_cmd w)"
  shows "cmd_ok (w_cmd (fold (assemble_byte E) bs w)) \<and> w_uart (fold (assemble_byte E) bs w) = w_uart w \<and>
    length (cm_asm (w_cmd (fold (assemble_byte E) bs w))) = length (cm_asm (w_cmd w))"
  using assms(2)
proof (induction bs arbitrary: w)
  case (Cons b bs)
  from assemble_byte_keeps [OF assms(1) Cons.prems, of b] Cons.IH [of "assemble_byte E b w"]
  show ?case by simp
qed simp

lemma ring_read_cap: "ring_invar r \<Longrightarrow> ring_cap (snd (svc_ring_read n r)) = ring_cap r"
  using ring.drain_prefix [of r "unat n"] by (auto simp: svc_ring_read_def)

lemma assemble_ends:
  assumes "cmd_env_ok E" "cmd_ok (w_cmd w)" "ring_invar (ua_rx (w_uart w))"
    and "length (ring_queue (ua_rx (w_uart w))) < 64 * fuel"
  shows "\<exists>v. assemble fuel E w = Some v \<and> cmd_ok (w_cmd v) \<and> ring_queue (ua_rx (w_uart v)) = [] \<and>
    ring_invar (ua_rx (w_uart v)) \<and> ring_cap (ua_rx (w_uart v)) = ring_cap (ua_rx (w_uart w))"
  using assms(2-)
proof (induction fuel arbitrary: w)
  case 0 then show ?case by simp
next
  case (Suc fuel)
  obtain chunk w1 where r: "plat_isr_uart_read True 64 w = (chunk, w1)" by (rule prod.exhaust)
  note p = svc_ring_read_prefix [OF Suc.prems(2), of 64]
  have u: "chunk = take 64 (ring_queue (ua_rx (w_uart w)))" "w_cmd w1 = w_cmd w"
    "ring_queue (ua_rx (w_uart w1)) = drop 64 (ring_queue (ua_rx (w_uart w)))" "ring_invar (ua_rx (w_uart w1))"
    "ring_cap (ua_rx (w_uart w1)) = ring_cap (ua_rx (w_uart w))"
    using r p ring_read_cap [OF Suc.prems(2), of 64] by (auto simp: plat_isr_uart_read_def split_beta)
  let ?v = "fold (assemble_byte E) chunk w1"
  have v: "cmd_ok (w_cmd ?v)" "w_uart ?v = w_uart w1"
    using assemble_bytes_keep [OF assms(1), of w1 chunk] Suc.prems(1) u(2) by simp_all
  show ?case
  proof (cases "length chunk = 64")
    case True
    then have "length (ring_queue (ua_rx (w_uart ?v))) < 64 * fuel"
      using Suc.prems(3) u v(2) by simp
    from Suc.IH [OF v(1) _ this] u(4,5) v show ?thesis using True by (simp add: r)
  next
    case False
    then have "length (ring_queue (ua_rx (w_uart w))) \<le> 64" using u(1) by simp
    then show ?thesis using False u v by (simp add: r)
  qed
qed

text \<open>Everything the rest of the software can ask of the module.\<close>

datatype cmd_op =
    Ck_register comm_cmd_id "handle option" "handle option"
  | Ck_set_transmit "handle option" "handle option"
  | Ck_submit "u8 list option" u32
  | Ck_bytes "u8 list"
  | Ck_interrupts
  | Ck_service

text \<open>Bytes arriving: the serial interrupt pushes them into the ring.\<close>

definition uart_bytes :: "u8 list \<Rightarrow> 'a cmd_world_scheme \<Rightarrow> 'a cmd_world_scheme" where
  "uart_bytes bs w = w\<lparr>w_uart := (w_uart w)\<lparr>ua_rx :=
     fold (\<lambda>b r. snd (svc_ring_push b r)) bs (ua_rx (w_uart w))\<rparr>\<rparr>"

definition cmd_step ::
  "'a cmd_world_scheme cmd_env \<Rightarrow> cmd_op \<Rightarrow> 'a cmd_world_scheme option \<Rightarrow> 'a cmd_world_scheme option" where
  "cmd_step E x w = Option.bind w (\<lambda>w. case x of
       Ck_register c h ctx \<Rightarrow> Some (snd (comm_cmd_register c h ctx w))
     | Ck_set_transmit h ctx \<Rightarrow> Some (snd (comm_cmd_set_transmit h ctx w))
     | Ck_submit frame len \<Rightarrow> Some (snd (comm_cmd_submit E frame len w))
     | Ck_bytes bs \<Rightarrow> Some (uart_bytes bs w)
     | Ck_interrupts \<Rightarrow> Some (comm_cmd_service_interrupts w)
     | Ck_service \<Rightarrow> comm_cmd_service 5 E w)"

lemma gap_event_keeps:
  "cmd_ok (w_cmd (cmd_gap_event ev w)) = cmd_ok (w_cmd w)" "w_uart (cmd_gap_event ev w) = w_uart w"
  by (simp_all add: cmd_gap_event_def)

lemma irq_take_keeps:
  "w_cmd (snd (plat_irq_take irq w)) = w_cmd w" "w_uart (snd (plat_irq_take irq w)) = w_uart w"
  by (auto simp: plat_irq_take_def split: option.splits)

lemma irq_drain_keeps:
  "cmd_ok (w_cmd (irq_drain n irq cmd_gap_event w)) = cmd_ok (w_cmd w) \<and>
   w_uart (irq_drain n irq cmd_gap_event w) = w_uart w"
proof (induction n arbitrary: w)
  case (Suc n)
  obtain ev u where u: "plat_irq_take irq w = (ev, u)" by (rule prod.exhaust)
  with irq_take_keeps [of irq w] Suc show ?case
    by (cases ev) (simp_all add: gap_event_keeps)
qed simp

definition cmd_ready :: "'a cmd_world_scheme \<Rightarrow> bool" where
  "cmd_ready w \<longleftrightarrow> cmd_ok (w_cmd w) \<and> ring_invar (ua_rx (w_uart w)) \<and> ring_cap (ua_rx (w_uart w)) = 256"

lemma ring_queue_cap: "ring_invar r \<Longrightarrow> length (ring_queue r) \<le> ring_cap r"
  by (rule ring.items_le_cap)

lemma ring_pushes:
  "ring_invar r \<Longrightarrow> ring_invar (fold (\<lambda>b r. snd (svc_ring_push b r)) bs r) \<and>
     ring_cap (fold (\<lambda>b r. snd (svc_ring_push b r)) bs r) = ring_cap r"
proof (induction bs arbitrary: r)
  case (Cons b bs)
  from ring.push_invar [OF Cons.prems, of b] Cons.IH [of "snd (svc_ring_push b r)"] show ?case by simp
qed simp

lemma cmd_step_ready:
  assumes "cmd_env_ok E" "cmd_ready w"
  shows "\<exists>v. cmd_step E x (Some w) = Some v \<and> cmd_ready v"
proof -
  have ok: "cmd_ok (w_cmd w)" and ring: "ring_invar (ua_rx (w_uart w))" "ring_cap (ua_rx (w_uart w)) = 256"
    using assms(2) by (simp_all add: cmd_ready_def)
  show ?thesis
  proof (cases x)
    case (Ck_register c h ctx)
    then show ?thesis
      using ok ring by (simp add: cmd_step_def comm_cmd_register_def cmd_ready_def cmd_ok_def cmd_final_def)
  next
    case (Ck_set_transmit h ctx)
    then show ?thesis
      using ok ring by (simp add: cmd_step_def comm_cmd_set_transmit_def cmd_ready_def cmd_ok_def cmd_final_def)
  next
    case (Ck_submit frame len)
    have "snd (comm_cmd_submit E frame len w) = w \<or> snd (comm_cmd_submit E frame len w) = cmd_process E (the frame) w"
      by (simp add: comm_cmd_submit_def split: option.splits)
    then show ?thesis
      using process_keeps [OF assms(1) ok, of "the frame"] Ck_submit ok ring
      by (auto simp: cmd_step_def cmd_ready_def)
  next
    case (Ck_bytes bs)
    then show ?thesis
      using ok ring ring_pushes [OF ring(1), of bs] by (simp add: cmd_step_def uart_bytes_def cmd_ready_def)
  next
    case Ck_interrupts
    then show ?thesis
      using ok ring by (simp add: cmd_step_def comm_cmd_service_interrupts_def irq_service_def irq_drain_keeps cmd_ready_def
        del: irq_drain.simps)
  next
    case Ck_service
    note t = track_keeps [OF assms(1) ok]
    have "length (ring_queue (ua_rx (w_uart (cmd_track E w)))) < 64 * 5"
      using ring_queue_cap [OF ring(1)] ring(2) t by simp
    from assemble_ends [OF assms(1) _ _ this] t ring
    show ?thesis using Ck_service by (auto simp: cmd_step_def comm_cmd_service_def cmd_ready_def)
  qed
qed

lemma cmd_run_ready:
  assumes "cmd_env_ok E" "cmd_ready w"
  shows "\<exists>v. fold (cmd_step E) xs (Some w) = Some v \<and> cmd_ready v"
  using assms(2)
proof (induction xs arbitrary: w)
  case (Cons x xs)
  from cmd_step_ready [OF assms(1) Cons.prems, of x] obtain u where "cmd_step E x (Some w) = Some u" "cmd_ready u" by blast
  with Cons.IH show ?case by simp
qed simp

subsection \<open>Frames\<close>

definition cmd_body :: "comm_cmd_id \<Rightarrow> u32 \<Rightarrow> u16 \<Rightarrow> u8 list" where
  "cmd_body c p q = [COMM_CMD_PACKET_ID, COMM_CMD_VERSION, of_nat (cmd_idx c)] @ be32 p @ be16 q"

definition cmd_frame :: "comm_cmd_id \<Rightarrow> u32 \<Rightarrow> u16 \<Rightarrow> u8 list" where
  "cmd_frame c p q = cmd_body c p q @ be32 (crc32 (cmd_body c p q))"

lemma length_cmd_body [simp]: "length (cmd_body c p q) = 9" "length (cmd_frame c p q) = 13"
  by (simp_all add: cmd_body_def cmd_frame_def)

lemma build_frame:
  assumes "13 \<le> length bs" "13 \<le> len"
  shows "comm_cmd_build c p q (Some bs) len = (QIRAN_OK, Some (cmd_frame c p q @ drop 13 bs), Some 13)"
proof -
  let ?i = "of_nat (cmd_idx c) :: u8"
  have 1: "comm_put_u8 bs 0 a = ([a] @ drop 1 bs, 1)" for a
    using put_u8_cursor [of bs "[]" a] assms(1) by simp
  have 2: "comm_put_u8 ([a] @ drop 1 bs) 1 b = ([a, b] @ drop 2 bs, 2)" for a b
    using put_u8_cursor [of "drop 1 bs" "[a]" b] assms(1) by (simp add: numeral_2_eq_2)
  have 3: "comm_put_u8 ([a, b] @ drop 2 bs) 2 d = ([a, b, d] @ drop 3 bs, 3)" for a b d
    using put_u8_cursor [of "drop 2 bs" "[a, b]" d] assms(1) by (simp add: numeral_3_eq_3)
  have 4: "comm_put_u32 ([a, b, d] @ drop 3 bs) 3 p = (([a, b, d] @ be32 p) @ drop 7 bs, 7)" for a b d
    using put_u32_cursor [of "drop 3 bs" "[a, b, d]" p] assms(1) by simp
  have 5: "comm_put_u16 (([a, b, d] @ be32 p) @ drop 7 bs) 7 q = (([a, b, d] @ be32 p @ be16 q) @ drop 9 bs, 9)" for a b d
    using put_u16_cursor [of "drop 7 bs" "[a, b, d] @ be32 p" q] assms(1) by simp
  have 6: "comm_put_u32 (([a, b, d] @ be32 p @ be16 q) @ drop 9 bs) 9 e =
      (([a, b, d] @ be32 p @ be16 q @ be32 e) @ drop 13 bs, 13)" for a b d e
    using put_u32_cursor [of "drop 9 bs" "[a, b, d] @ be32 p @ be16 q" e] assms(1) by simp
  have n: "\<not> len < 13" using assms(2) by simp
  have t: "take (unat (9 :: u32)) (([a, b, d] @ be32 p @ be16 q) @ drop 9 bs) = [a, b, d] @ be32 p @ be16 q" for a b d
    by simp
  show ?thesis
    by (simp only: comm_cmd_build_def option.case COMM_CMD_FRAME_BYTES_def n if_False Let_def 1 prod.case 2 3 4 5 t 6 if_True)
       (simp add: cmd_frame_def cmd_body_def)
qed

lemma frame_fields:
  "cmd_frame c p q ! 0 = COMM_CMD_PACKET_ID" "cmd_frame c p q ! 1 = COMM_CMD_VERSION"
  "cmd_frame c p q ! 2 = of_nat (cmd_idx c)" "comm_get_u32 (cmd_frame c p q) 3 = p"
  "comm_get_u16 (cmd_frame c p q) 7 = q" "frame_crc_ok (cmd_frame c p q)"
proof -
  show "comm_get_u32 (cmd_frame c p q) 3 = p"
    using get_u32_be [of "[COMM_CMD_PACKET_ID, COMM_CMD_VERSION, of_nat (cmd_idx c)]" p]
    by (simp add: cmd_frame_def cmd_body_def)
  show "comm_get_u16 (cmd_frame c p q) 7 = q"
    using get_u16_be [of "[COMM_CMD_PACKET_ID, COMM_CMD_VERSION, of_nat (cmd_idx c)] @ be32 p" q]
    by (simp add: cmd_frame_def cmd_body_def)
  show "frame_crc_ok (cmd_frame c p q)"
    using get_u32_be [of "cmd_body c p q" "crc32 (cmd_body c p q)" "[]"]
    by (simp add: frame_crc_ok_def COMM_CMD_FRAME_BYTES_def cmd_frame_def)
qed (simp_all add: cmd_frame_def cmd_body_def)

lemma cmd_idx_facts:
  assumes "c \<noteq> COMM_CMD_COUNT"
  shows "cmd_idx c < 11" "cmd_ids ! cmd_idx c = c" "unat (of_nat (cmd_idx c) :: u8) = cmd_idx c"
  using assms by (cases c; simp add: cmd_idx_def cmd_ids_def)+

text \<open>The stage masks of the table, spelled out.\<close>

lemma cmd_legal_iff:
  "comm_cmd_legal_in c stage \<longleftrightarrow> c \<noteq> COMM_CMD_COUNT \<and> stage \<noteq> STAGE_COUNT \<and>
    (c \<in> {CMD_PAYLOAD_ON, CMD_PROCESSOR_ON, CMD_LASER_ON, CMD_HEATERS_ON} \<longrightarrow> stage \<in> {STAGE_BOOT, STAGE_PRECOND})"
proof -
  have any: "ANY_STAGE AND ST stage \<noteq> 0 \<longleftrightarrow> stage \<noteq> STAGE_COUNT"
    by (cases stage) (simp_all add: ANY_STAGE_def ST_def stage_idx_def mission_stages_def)
  have early: "EARLY_ONLY AND ST stage \<noteq> 0 \<longleftrightarrow> stage \<in> {STAGE_BOOT, STAGE_PRECOND}"
    by (cases stage) (simp_all add: EARLY_ONLY_def ST_def stage_idx_def mission_stages_def)
  show ?thesis
    by (cases c) (auto simp: comm_cmd_legal_in_def cmd_def_def any early)
qed

subsection \<open>Framing of a byte stream\<close>

definition frame_valid :: "u8 list \<Rightarrow> bool" where
  "frame_valid f \<longleftrightarrow> length f = 13 \<and> f ! 0 = COMM_CMD_PACKET_ID \<and> frame_crc_ok f"

text \<open>A whole frame taken from the stream: processed out of the assembly buffer, which is then empty.\<close>

definition cmd_take_frame ::
  "'a cmd_world_scheme cmd_env \<Rightarrow> u8 list \<Rightarrow> 'a cmd_world_scheme \<Rightarrow> 'a cmd_world_scheme" where
  "cmd_take_frame E f w = cmd_upd (\<lambda>s. s\<lparr>cm_asm_len := 0\<rparr>)
     (cmd_process E f (cmd_upd (\<lambda>s. s\<lparr>cm_asm := f, cm_asm_len := COMM_CMD_FRAME_BYTES\<rparr>) w))"

lemma cmd_upd_upd: "cmd_upd f (cmd_upd g w) = cmd_upd (\<lambda>s. f (g s)) w"
  by (simp add: cmd_upd_def)

lemma cmd_upd_id: "f (w_cmd w) = w_cmd w \<Longrightarrow> cmd_upd f w = w"
  by (simp add: cmd_upd_def)

lemma cmd_upd_cong: "f (w_cmd w) = g (w_cmd w) \<Longrightarrow> cmd_upd f w = cmd_upd g w"
  by (simp add: cmd_upd_def)

lemma assemble_garbage:
  assumes "cm_asm_len (w_cmd w) = 0" "COMM_CMD_PACKET_ID \<notin> set g"
  shows "fold (assemble_byte E) g w = w"
  using assms(2) by (induction g) (use assms(1) in \<open>auto simp: assemble_byte_def\<close>)

lemma take_drop_update:
  assumes "k < length xs" "k < length ys"
  shows "(take k xs @ drop k ys)[k := xs ! k] = take (Suc k) xs @ drop (Suc k) ys"
proof -
  have "drop k ys = ys ! k # drop (Suc k) ys" using assms(2) by (simp add: Cons_nth_drop_Suc)
  then show ?thesis using assms by (simp add: list_update_append take_Suc_conv_app_nth)
qed

lemma assemble_prefix:
  assumes "frame_valid f" "length (cm_asm (w_cmd w)) = 13" "cm_asm_len (w_cmd w) = 0" "k \<le> 12"
  shows "fold (assemble_byte E) (take k f) w =
    cmd_upd (\<lambda>s. s\<lparr>cm_asm := take k f @ drop k (cm_asm s), cm_asm_len := of_nat k\<rparr>) w"
  using assms(4)
proof (induction k)
  case 0
  then show ?case using assms(3) by (simp add: cmd_upd_id)
next
  case (Suc k)
  have f: "length f = 13" "f ! 0 = COMM_CMD_PACKET_ID" using assms(1) by (simp_all add: frame_valid_def)
  have u: "unat (of_nat k :: u32) = k" using Suc.prems by (intro unat_cursor) simp
  have z: "(of_nat k :: u32) = 0 \<longleftrightarrow> k = 0"
    using u arg_cong [of "of_nat k :: u32" 0 unat] by auto
  have n: "(of_nat k + 1 :: u32) \<noteq> COMM_CMD_FRAME_BYTES"
  proof
    assume "(of_nat k + 1 :: u32) = COMM_CMD_FRAME_BYTES"
    then have "(of_nat (Suc k) :: u32) = 13" by (simp add: COMM_CMD_FRAME_BYTES_def)
    then have "unat (of_nat (Suc k) :: u32) = 13" by simp
    then show False using Suc.prems by (subst (asm) unat_cursor) simp_all
  qed
  let ?w = "cmd_upd (\<lambda>s. s\<lparr>cm_asm := take k f @ drop k (cm_asm s), cm_asm_len := of_nat k\<rparr>) w"
  have t: "take (Suc k) f = take k f @ [f ! k]" using Suc.prems f by (simp add: take_Suc_conv_app_nth)
  have l: "(take k f @ drop k (cm_asm (w_cmd w)))[k := f ! k] = take (Suc k) f @ drop (Suc k) (cm_asm (w_cmd w))"
    using Suc.prems f assms(2) by (intro take_drop_update) simp_all
  have "fold (assemble_byte E) (take (Suc k) f) w = assemble_byte E (f ! k) ?w"
    using Suc by (simp add: t)
  also have "\<dots> = cmd_upd (\<lambda>s. s\<lparr>cm_asm := (cm_asm s)[unat (cm_asm_len s) := f ! k], cm_asm_len := cm_asm_len s + 1\<rparr>) ?w"
  proof -
    have "\<not> (cm_asm_len (w_cmd ?w) = 0 \<and> f ! k \<noteq> COMM_CMD_PACKET_ID)" using z f(2) by auto
    moreover have "cm_asm_len (w_cmd (cmd_upd (\<lambda>s. s\<lparr>cm_asm := (cm_asm s)[unat (cm_asm_len s) := f ! k],
        cm_asm_len := cm_asm_len s + 1\<rparr>) ?w)) \<noteq> COMM_CMD_FRAME_BYTES" using n by simp
    ultimately show ?thesis unfolding assemble_byte_def Let_def by (simp only: if_False if_True simp_thms)
  qed
  also have "\<dots> = cmd_upd (\<lambda>s. s\<lparr>cm_asm := take (Suc k) f @ drop (Suc k) (cm_asm s), cm_asm_len := of_nat (Suc k)\<rparr>) w"
    unfolding cmd_upd_upd by (rule cmd_upd_cong) (simp add: u l add.commute)
  finally show ?case .
qed

lemma assemble_frame:
  assumes "frame_valid f" "length (cm_asm (w_cmd w)) = 13" "cm_asm_len (w_cmd w) = 0"
  shows "fold (assemble_byte E) f w = cmd_take_frame E f w"
proof -
  have f: "length f = 13" "f ! 0 = COMM_CMD_PACKET_ID" "frame_crc_ok f"
    using assms(1) by (simp_all add: frame_valid_def)
  let ?w = "cmd_upd (\<lambda>s. s\<lparr>cm_asm := take 12 f @ drop 12 (cm_asm s), cm_asm_len := 12\<rparr>) w"
  have t: "f = take 12 f @ [f ! 12]"
    using f(1) take_Suc_conv_app_nth [of 12 f] by simp
  have e: "fold (assemble_byte E) f w = assemble_byte E (f ! 12) ?w"
    using assemble_prefix [OF assms, of 12] by (subst t) simp
  have "(take 12 f @ drop 12 (cm_asm (w_cmd w)))[12 := f ! 12] = f"
    using take_drop_update [of 12 f "cm_asm (w_cmd w)"] f(1) assms(2) by simp
  then have u: "cmd_upd (\<lambda>s. s\<lparr>cm_asm := (cm_asm s)[unat (cm_asm_len s) := f ! 12], cm_asm_len := cm_asm_len s + 1\<rparr>) ?w =
      cmd_upd (\<lambda>s. s\<lparr>cm_asm := f, cm_asm_len := COMM_CMD_FRAME_BYTES\<rparr>) w"
    unfolding cmd_upd_upd by (intro cmd_upd_cong) (simp add: COMM_CMD_FRAME_BYTES_def)
  have n: "\<not> (cm_asm_len (w_cmd ?w) = 0 \<and> f ! 12 \<noteq> COMM_CMD_PACKET_ID)" by simp
  show ?thesis
    unfolding e assemble_byte_def cmd_take_frame_def Let_def u using n by (simp add: f(3))
qed

subsection \<open>Properties\<close>

text \<open>C36: Every command received gets exactly one final result: whatever frames and bytes arrive,
  handlers are registered and services run after the initialisation, the services return, and
  the commands received are those completed, rejected and failed plus the one in progress, of
  which there is at most one.\<close>

theorem cmd_accounting:
  assumes "cmd_env_ok E" "ring_invar (ua_rx (w_uart w))" "ring_cap (ua_rx (w_uart w)) = 256"
  shows "\<exists>v. fold (cmd_step E) xs (Some (comm_cmd_init w)) = Some v \<and>
    comm_cmd_received v = comm_cmd_completed v + comm_cmd_rejected v + comm_cmd_failed v +
      (if comm_cmd_in_progress v then 1 else 0)"
proof -
  have "cmd_ready (comm_cmd_init w)"
    using assms(2,3) by (simp add: cmd_ready_def comm_cmd_init_def cmd_ok_def cmd_final_def)
  from cmd_run_ready [OF assms(1) this, of xs] show ?thesis
    by (auto simp: cmd_ready_def cmd_ok_def cmd_final_def comm_cmd_received_def comm_cmd_completed_def
        comm_cmd_rejected_def comm_cmd_failed_def comm_cmd_in_progress_def)
qed

theorem cmd_accounting_witness:
  "\<forall>w :: cmd_world. let E = \<lparr>ke_handler = (\<lambda>_ _ _ w. (QIRAN_ERR_BUSY, w)), ke_tx = (\<lambda>_ _ _ w. (QIRAN_OK, w))\<rparr>;
      xs = [Ck_register CMD_LASER_OFF (Some 7) None, Ck_bytes (cmd_frame CMD_LASER_OFF 0 1), Ck_service,
            Ck_submit (Some (cmd_frame CMD_MODE 0 2)) 13, Ck_service]
    in \<exists>v. fold (cmd_step E) xs (Some (comm_cmd_init (w\<lparr>w_uart := uart_state0\<rparr>))) = Some v \<and>
      comm_cmd_received v = comm_cmd_completed v + comm_cmd_rejected v + comm_cmd_failed v +
        (if comm_cmd_in_progress v then 1 else 0)"
proof
  fix w :: cmd_world
  have r: "ring_invar (ua_rx (w_uart (w\<lparr>w_uart := uart_state0\<rparr>)))" "ring_cap (ua_rx (w_uart (w\<lparr>w_uart := uart_state0\<rparr>))) = 256"
    by (auto simp: uart_state0_def ring_invar_def ring_cap_def ring_ok_def mask_eq_exp_minus_1 intro!: exI [of _ 8])
  have e: "cmd_env_ok \<lparr>ke_handler = (\<lambda>_ _ _ w. (QIRAN_ERR_BUSY, w)), ke_tx = (\<lambda>_ _ _ w :: cmd_world. (QIRAN_OK, w))\<rparr>"
    by (simp add: cmd_env_ok_def)
  show "let E = \<lparr>ke_handler = (\<lambda>_ _ _ w. (QIRAN_ERR_BUSY, w)), ke_tx = (\<lambda>_ _ _ w. (QIRAN_OK, w))\<rparr>;
      xs = [Ck_register CMD_LASER_OFF (Some 7) None, Ck_bytes (cmd_frame CMD_LASER_OFF 0 1), Ck_service,
            Ck_submit (Some (cmd_frame CMD_MODE 0 2)) 13, Ck_service]
    in \<exists>v. fold (cmd_step E) xs (Some (comm_cmd_init (w\<lparr>w_uart := uart_state0\<rparr>))) = Some v \<and>
      comm_cmd_received v = comm_cmd_completed v + comm_cmd_rejected v + comm_cmd_failed v +
        (if comm_cmd_in_progress v then 1 else 0)"
    unfolding Let_def by (rule cmd_accounting [OF e r])
qed

text \<open>C37: Every byte string submitted goes through the checks in their order. One that is not 13 bytes long,
  does not begin with the packet identifier or does not carry its own checksum is refused with nothing
  changed. After that it counts as received, and the first check that fails decides: a version other than
  the one known; an identifier beyond the table; a command still running; a command that applies energy
  outside the boot and preconditioning stages (and any command in no stage at all); a mode other than the
  only one. Each refusal names the identifier and sequence number of the frame and its own reason; what
  passes is dispatched with its own parameter and sequence number. A frame the builder makes for a
  command passes all checks up to the one for a running command, as that command.\<close>

theorem cmd_checks_in_order:
  fixes w :: "'a cmd_world_scheme" and E :: "'a cmd_world_scheme cmd_env"
  assumes "length f < 2 ^ 32"
  defines "v \<equiv> cmd_receipt w"
  defines "r \<equiv> comm_cmd_last_receipt_ms v"
  defines "stage \<equiv> mission_stage_get w"
  defines "checked \<equiv> \<lambda>raw c p q.
    if comm_cmd_in_progress w then cmd_reject E raw q r COMM_CMD_REJECT_BUSY (of_nat (cmd_idx (if_id (cm_inflight (w_cmd w))))) v
    else if stage = STAGE_COUNT \<or>
      c \<in> {CMD_PAYLOAD_ON, CMD_PROCESSOR_ON, CMD_LASER_ON, CMD_HEATERS_ON} \<and> stage \<notin> {STAGE_BOOT, STAGE_PRECOND}
    then cmd_reject E raw q r COMM_CMD_REJECT_STATE (of_nat (stage_idx stage)) v
    else if c = CMD_MODE \<and> p \<noteq> 0 then cmd_reject E raw q r COMM_CMD_REJECT_PARAM p v
    else cmd_dispatch E c p q r v"
  shows "comm_cmd_submit E (Some f) (of_nat (length f)) w =
      (if length f \<noteq> 13 \<or> f ! 0 \<noteq> COMM_CMD_PACKET_ID then (QIRAN_ERR_PARAM, w)
       else if comm_get_u32 f 9 \<noteq> crc32 (take 9 f) then (QIRAN_ERR_INTEGRITY, w)
       else (QIRAN_OK, let p = comm_get_u32 f 3; q = comm_get_u16 f 7 in
         if f ! 1 \<noteq> COMM_CMD_VERSION then cmd_reject E (f ! 2) q r COMM_CMD_REJECT_FORMAT (ucast (f ! 1)) v
         else if 11 \<le> f ! 2 then cmd_reject E (f ! 2) q r COMM_CMD_REJECT_UNKNOWN (ucast (f ! 2)) v
         else checked (f ! 2) (cmd_ids ! unat (f ! 2)) p q)) \<and>
    (c \<noteq> COMM_CMD_COUNT \<longrightarrow> 13 \<le> length bs \<longrightarrow> 13 \<le> len \<longrightarrow>
      (\<exists>frame. length frame = 13 \<and> comm_cmd_build c p q (Some bs) len = (QIRAN_OK, Some (frame @ drop 13 bs), Some 13) \<and>
        comm_cmd_submit E (Some frame) 13 w = (QIRAN_OK, checked (of_nat (cmd_idx c)) c p q)))"
proof -
  have "sint x = 0 \<longleftrightarrow> x = 0" for x :: u32 by (simp add: signed_eq_0_iff)
  then have z: "sint x < 0 \<or> 0 < sint x \<longleftrightarrow> x \<noteq> 0" for x :: u32 by (metis linorder_neqE not_less_iff_gr_or_eq)
  have par: "kd_takes_parameter (k_cmd c) \<and> (sint x < kd_param_min (k_cmd c) \<or> kd_param_max (k_cmd c) < sint x)
      \<longleftrightarrow> c = CMD_MODE \<and> x \<noteq> 0" for c and x :: u32
    by (cases c) (simp_all add: cmd_def_def z)
  have pr: "cmd_process E g w = (let p = comm_get_u32 g 3; q = comm_get_u16 g 7 in
         if g ! 1 \<noteq> COMM_CMD_VERSION then cmd_reject E (g ! 2) q r COMM_CMD_REJECT_FORMAT (ucast (g ! 1)) v
         else if 11 \<le> g ! 2 then cmd_reject E (g ! 2) q r COMM_CMD_REJECT_UNKNOWN (ucast (g ! 2)) v
         else checked (g ! 2) (cmd_ids ! unat (g ! 2)) p q)" for g
  proof (cases "g ! 1 \<noteq> COMM_CMD_VERSION \<or> 11 \<le> g ! 2")
    case True
    then show ?thesis
      by (auto simp: process_verdict Let_def cmd_verdict_def cmd_ids_facts(2) word_le_nat_alt v_def r_def comm_cmd_last_receipt_ms_def)
  next
    case False
    define c where "c = cmd_ids ! unat (g ! 2)"
    have n: "unat (g ! 2) < length cmd_ids" using False by (simp add: word_le_nat_alt cmd_ids_facts(2))
    then have "c \<in> set cmd_ids" by (simp add: c_def)
    then have "c \<noteq> COMM_CMD_COUNT" by (simp only: cmd_ids_facts(3) simp_thms)
    then have leg: "\<not> comm_cmd_legal_in c stage \<longleftrightarrow> stage = STAGE_COUNT \<or>
        c \<in> {CMD_PAYLOAD_ON, CMD_PROCESSOR_ON, CMD_LASER_ON, CMD_HEATERS_ON} \<and> stage \<notin> {STAGE_BOOT, STAGE_PRECOND}"
      unfolding cmd_legal_iff by blast
    have ver: "g ! 1 = COMM_CMD_VERSION" "\<not> 11 \<le> g ! 2" using False by simp_all
    have "cmd_verdict (g ! 1) (g ! 2) x (w_cmd w) stage =
      (if comm_cmd_in_progress w then Some (COMM_CMD_REJECT_BUSY, of_nat (cmd_idx (if_id (cm_inflight (w_cmd w)))))
       else if stage = STAGE_COUNT \<or>
          c \<in> {CMD_PAYLOAD_ON, CMD_PROCESSOR_ON, CMD_LASER_ON, CMD_HEATERS_ON} \<and> stage \<notin> {STAGE_BOOT, STAGE_PRECOND}
       then Some (COMM_CMD_REJECT_STATE, of_nat (stage_idx stage))
       else if c = CMD_MODE \<and> x \<noteq> 0 then Some (COMM_CMD_REJECT_PARAM, x) else None)" for x
      unfolding cmd_verdict_def par Let_def c_def [symmetric] leg comm_cmd_in_progress_def using n ver(1) by simp
    note vd = this [of "comm_get_u32 g 3"]
    show ?thesis
      unfolding process_verdict Let_def stage_def [symmetric] c_def [symmetric] v_def [symmetric] checked_def vd
      by (simp only: ver r_def comm_cmd_last_receipt_ms_def if_distrib [of "case_option _ _"] option.case prod.case
          if_cancel simp_thms if_False cong: if_cong)
  qed
  have len: "(of_nat (length f) :: u32) = 13 \<longleftrightarrow> length f = 13"
  proof
    assume e: "(of_nat (length f) :: u32) = 13"
    show "length f = 13" using unat_of_nat_eq_u32 [of "length f"] assms(1) unfolding e by simp
  qed simp
  have one: "comm_cmd_submit E (Some f) (of_nat (length f)) w =
      (if length f \<noteq> 13 \<or> f ! 0 \<noteq> COMM_CMD_PACKET_ID then (QIRAN_ERR_PARAM, w)
       else if comm_get_u32 f 9 \<noteq> crc32 (take 9 f) then (QIRAN_ERR_INTEGRITY, w) else (QIRAN_OK, cmd_process E f w))"
    by (simp add: comm_cmd_submit_def COMM_CMD_FRAME_BYTES_def len frame_crc_ok_def)
  have built: "comm_cmd_submit E (Some (cmd_frame c p q)) 13 w = (QIRAN_OK, checked (of_nat (cmd_idx c)) c p q)"
    if "c \<noteq> COMM_CMD_COUNT"
  proof -
    note i = cmd_idx_facts [OF that]
    have "\<not> (11 :: u8) \<le> of_nat (cmd_idx c)" using i(1) by (simp add: word_le_nat_alt i(3))
    then have "cmd_process E (cmd_frame c p q) w = checked (of_nat (cmd_idx c)) c p q"
      unfolding pr frame_fields Let_def i by simp
    then show ?thesis by (simp add: comm_cmd_submit_def frame_fields COMM_CMD_FRAME_BYTES_def)
  qed
  show ?thesis
    unfolding one pr
    using built build_frame [of bs len c p q] by (intro conjI refl impI exI [of _ "cmd_frame c p q"]) simp_all
qed

text \<open>The laser in the experiment stage; and a frame of an unknown version, one of an unknown command, and
  one whose checksum is wrong.\<close>

theorem cmd_checks_in_order_witness:
  "\<forall>w :: cmd_world. let E = \<lparr>ke_handler = (\<lambda>_ _ _ w. (QIRAN_OK, w)), ke_tx = (\<lambda>_ _ _ w. (QIRAN_OK, w))\<rparr>;
      w = comm_cmd_init (w\<lparr>w_mission := (w_mission w)\<lparr>mi_stage := STAGE_EXPERIMENT\<rparr>\<rparr>); v = cmd_receipt w;
      r = comm_cmd_last_receipt_ms v; seal = (\<lambda>bs x. bs @ be32 (crc32 bs + x)); head = COMM_CMD_PACKET_ID
    in comm_cmd_submit E (Some (cmd_frame CMD_LASER_ON 0 9)) 13 w = (QIRAN_OK, cmd_reject E 3 9 r COMM_CMD_REJECT_STATE 10 v) \<and>
       comm_cmd_submit E (Some (seal [head, COMM_CMD_VERSION + 1, 3, 0, 0, 0, 0, 0, 9] 0)) 13 w =
         (QIRAN_OK, cmd_reject E 3 9 r COMM_CMD_REJECT_FORMAT (ucast (COMM_CMD_VERSION + 1)) v) \<and>
       comm_cmd_submit E (Some (seal [head, COMM_CMD_VERSION, 11, 0, 0, 0, 0, 0, 9] 0)) 13 w =
         (QIRAN_OK, cmd_reject E 11 9 r COMM_CMD_REJECT_UNKNOWN 11 v) \<and>
       comm_cmd_submit E (Some (seal [head, COMM_CMD_VERSION, 3, 0, 0, 0, 0, 0, 9] 1)) 13 w = (QIRAN_ERR_INTEGRITY, w)"
proof
  fix w :: cmd_world
  define E where "E = \<lparr>ke_handler = (\<lambda>_ _ _ w. (QIRAN_OK, w)), ke_tx = (\<lambda>_ _ _ w :: cmd_world. (QIRAN_OK, w))\<rparr>"
  define u where "u = comm_cmd_init (w\<lparr>w_mission := (w_mission w)\<lparr>mi_stage := STAGE_EXPERIMENT\<rparr>\<rparr>)"
  let ?r = "comm_cmd_last_receipt_ms (cmd_receipt u)" and ?v = "cmd_receipt u"
  note checks = cmd_checks_in_order [where w = u and E = E]
  have st: "mission_stage_get u = STAGE_EXPERIMENT" "\<not> comm_cmd_in_progress u"
    by (simp_all add: u_def comm_cmd_init_def mission_stage_get_def comm_cmd_in_progress_def)
  have fr: "comm_cmd_build CMD_LASER_ON 0 9 (Some (replicate 13 0)) 13 = (QIRAN_OK, Some (frame @ drop 13 (replicate 13 0)), Some 13)
      \<Longrightarrow> frame = cmd_frame CMD_LASER_ON 0 9" for frame
    using build_frame [of "replicate 13 0" 13 CMD_LASER_ON 0 9] by simp
  have 1: "comm_cmd_submit E (Some (cmd_frame CMD_LASER_ON 0 9)) 13 u =
      (QIRAN_OK, cmd_reject E 3 9 ?r COMM_CMD_REJECT_STATE 10 ?v)"
    using checks [where f = "[]" and c = CMD_LASER_ON and bs = "replicate 13 0" and len = 13 and p = 0 and q = 9, THEN conjunct2] fr st
    by (auto simp: cmd_idx_def cmd_ids_def stage_idx_def mission_stages_def)
  let ?b = "\<lambda>ver raw :: u8. [COMM_CMD_PACKET_ID, ver, raw, 0, 0, 0, 0, 0, 9]"
  have seal: "comm_get_u32 (?b ver raw @ be32 x) 9 = x" "comm_get_u16 (?b ver raw @ be32 x) 7 = 9"
    "take 9 (?b ver raw @ be32 x) = ?b ver raw" "length (?b ver raw @ be32 x) = 13" for ver raw x
    using get_u32_be [of "?b ver raw" x "[]"] by (simp_all add: comm_get_u16_def)
  have at: "(?b ver raw @ be32 x) ! 0 = COMM_CMD_PACKET_ID" "(?b ver raw @ be32 x) ! 1 = ver" "(?b ver raw @ be32 x) ! 2 = raw"
    for ver raw x by simp_all
  have 2: "comm_cmd_submit E (Some (?b ver raw @ be32 (crc32 (?b ver raw) + x))) 13 u =
      (if x \<noteq> 0 then (QIRAN_ERR_INTEGRITY, u)
       else if ver \<noteq> COMM_CMD_VERSION then (QIRAN_OK, cmd_reject E raw 9 ?r COMM_CMD_REJECT_FORMAT (ucast ver) ?v)
       else if 11 \<le> raw then (QIRAN_OK, cmd_reject E raw 9 ?r COMM_CMD_REJECT_UNKNOWN (ucast raw) ?v)
       else comm_cmd_submit E (Some (?b ver raw @ be32 (crc32 (?b ver raw) + x))) 13 u)" for ver raw x
    using checks [where f = "?b ver raw @ be32 (crc32 (?b ver raw) + x)", THEN conjunct1] unfolding seal at Let_def
    by (cases "x = 0"; cases "ver = COMM_CMD_VERSION"; cases "11 \<le> raw") simp_all
  show "let E = \<lparr>ke_handler = (\<lambda>_ _ _ w. (QIRAN_OK, w)), ke_tx = (\<lambda>_ _ _ w. (QIRAN_OK, w))\<rparr>;
      w = comm_cmd_init (w\<lparr>w_mission := (w_mission w)\<lparr>mi_stage := STAGE_EXPERIMENT\<rparr>\<rparr>); v = cmd_receipt w;
      r = comm_cmd_last_receipt_ms v; seal = (\<lambda>bs x. bs @ be32 (crc32 bs + x)); head = COMM_CMD_PACKET_ID
    in comm_cmd_submit E (Some (cmd_frame CMD_LASER_ON 0 9)) 13 w = (QIRAN_OK, cmd_reject E 3 9 r COMM_CMD_REJECT_STATE 10 v) \<and>
       comm_cmd_submit E (Some (seal [head, COMM_CMD_VERSION + 1, 3, 0, 0, 0, 0, 0, 9] 0)) 13 w =
         (QIRAN_OK, cmd_reject E 3 9 r COMM_CMD_REJECT_FORMAT (ucast (COMM_CMD_VERSION + 1)) v) \<and>
       comm_cmd_submit E (Some (seal [head, COMM_CMD_VERSION, 11, 0, 0, 0, 0, 0, 9] 0)) 13 w =
         (QIRAN_OK, cmd_reject E 11 9 r COMM_CMD_REJECT_UNKNOWN 11 v) \<and>
       comm_cmd_submit E (Some (seal [head, COMM_CMD_VERSION, 3, 0, 0, 0, 0, 0, 9] 1)) 13 w = (QIRAN_ERR_INTEGRITY, w)"
    unfolding Let_def E_def [symmetric] u_def [symmetric]
  proof (intro conjI 1)
    show "comm_cmd_submit E (Some (?b (COMM_CMD_VERSION + 1) 3 @ be32 (crc32 (?b (COMM_CMD_VERSION + 1) 3) + 0))) 13 u =
        (QIRAN_OK, cmd_reject E 3 9 ?r COMM_CMD_REJECT_FORMAT (ucast (COMM_CMD_VERSION + 1)) ?v)"
      using 2 [of "COMM_CMD_VERSION + 1" 3 0] by simp
    show "comm_cmd_submit E (Some (?b COMM_CMD_VERSION 11 @ be32 (crc32 (?b COMM_CMD_VERSION 11) + 0))) 13 u =
        (QIRAN_OK, cmd_reject E 11 9 ?r COMM_CMD_REJECT_UNKNOWN 11 ?v)"
      using 2 [of COMM_CMD_VERSION 11 0] by simp
    show "comm_cmd_submit E (Some (?b COMM_CMD_VERSION 3 @ be32 (crc32 (?b COMM_CMD_VERSION 3) + 1))) 13 u = (QIRAN_ERR_INTEGRITY, u)"
      using 2 [of COMM_CMD_VERSION 3 1] by simp
  qed
qed

text \<open>C38: Framing: on a link that carries intact frames with anything but a start marker between
  them, the assembler takes exactly those frames, each once and in order, and ends ready for the
  next, whatever its buffer held before.\<close>

theorem cmd_stream_framing:
  assumes "cmd_env_ok E" "cmd_ok (w_cmd w)" "length (cm_asm (w_cmd w)) = 13" "cm_asm_len (w_cmd w) = 0"
    and "\<forall>(g, f) \<in> set segs. COMM_CMD_PACKET_ID \<notin> set g \<and> frame_valid f"
  shows "fold (assemble_byte E) (concat (map (\<lambda>(g, f). g @ f) segs)) w = fold (cmd_take_frame E) (map snd segs) w \<and>
    cm_asm_len (w_cmd (fold (cmd_take_frame E) (map snd segs) w)) = 0"
  using assms(2-)
proof (induction segs arbitrary: w)
  case Nil then show ?case by simp
next
  case (Cons x segs)
  obtain g f where x: "x = (g, f)" by (rule prod.exhaust)
  have g: "COMM_CMD_PACKET_ID \<notin> set g" and f: "frame_valid f" using Cons.prems(4) x by auto
  let ?u = "cmd_upd (\<lambda>s. s\<lparr>cm_asm := f, cm_asm_len := COMM_CMD_FRAME_BYTES\<rparr>) w"
  have ok: "cmd_ok (w_cmd ?u)" using Cons.prems(1) by simp
  let ?v = "cmd_take_frame E f w"
  have v: "cmd_ok (w_cmd ?v)" "length (cm_asm (w_cmd ?v)) = 13" "cm_asm_len (w_cmd ?v) = 0"
    using process_keeps [OF assms(1) ok, of f] f by (simp_all add: cmd_take_frame_def cmd_same_def frame_valid_def)
  have "fold (assemble_byte E) (concat (map (\<lambda>(g, f). g @ f) (x # segs))) w =
      fold (assemble_byte E) (concat (map (\<lambda>(g, f). g @ f) segs)) ?v"
    by (simp add: x assemble_garbage [OF Cons.prems(3) g] assemble_frame [OF f Cons.prems(2,3)])
  then show ?case using Cons.IH [OF v] Cons.prems(4) x by simp
qed

theorem cmd_stream_framing_witness:
  "\<forall>w :: cmd_world. let E = \<lparr>ke_handler = (\<lambda>_ _ _ w. (QIRAN_OK, w)), ke_tx = (\<lambda>_ _ _ w. (QIRAN_OK, w))\<rparr>;
      w = comm_cmd_init (w\<lparr>w_cmd := (w_cmd w)\<lparr>cm_asm := replicate 13 0\<rparr>\<rparr>);
      f = cmd_frame CMD_MODE 0 1; g = cmd_frame CMD_LASER_OFF 5 2
    in fold (assemble_byte E) ([0, 1] @ f @ [0xFF] @ g) w = cmd_take_frame E g (cmd_take_frame E f w)"
proof
  fix w :: cmd_world
  define E where "E = \<lparr>ke_handler = (\<lambda>_ _ _ w. (QIRAN_OK, w)), ke_tx = (\<lambda>_ _ _ w :: cmd_world. (QIRAN_OK, w))\<rparr>"
  define u where "u = comm_cmd_init (w\<lparr>w_cmd := (w_cmd w)\<lparr>cm_asm := replicate 13 0\<rparr>\<rparr>)"
  have u: "cmd_env_ok E" "cmd_ok (w_cmd u)" "length (cm_asm (w_cmd u)) = 13" "cm_asm_len (w_cmd u) = 0"
    by (simp_all add: E_def cmd_env_ok_def u_def comm_cmd_init_def cmd_ok_def cmd_final_def)
  have "fold (assemble_byte E) ([0, 1] @ cmd_frame CMD_MODE 0 1 @ [0xFF] @ cmd_frame CMD_LASER_OFF 5 2) u =
      cmd_take_frame E (cmd_frame CMD_LASER_OFF 5 2) (cmd_take_frame E (cmd_frame CMD_MODE 0 1) u)"
    using cmd_stream_framing [OF u, of "[([0, 1], cmd_frame CMD_MODE 0 1), ([0xFF], cmd_frame CMD_LASER_OFF 5 2)]"]
    by (simp add: frame_valid_def frame_fields(1,6) COMM_CMD_PACKET_ID_def)
  then show "let E = \<lparr>ke_handler = (\<lambda>_ _ _ w. (QIRAN_OK, w)), ke_tx = (\<lambda>_ _ _ w. (QIRAN_OK, w))\<rparr>;
      w = comm_cmd_init (w\<lparr>w_cmd := (w_cmd w)\<lparr>cm_asm := replicate 13 0\<rparr>\<rparr>);
      f = cmd_frame CMD_MODE 0 1; g = cmd_frame CMD_LASER_OFF 5 2
    in fold (assemble_byte E) ([0, 1] @ f @ [0xFF] @ g) w = cmd_take_frame E g (cmd_take_frame E f w)"
    unfolding Let_def E_def u_def .
qed

end
