(* ===== verification/Comm_Spw_Link.thy ===== *)
theory Comm_Spw_Link
  imports Comm_Cmd
begin

section \<open>The serial data link: \<^verbatim>\<open>src/comm/comm_spw_link.c\<close>\<close>

text \<open>
  Bringing the link up, watching it and moving packets. The operations that reach the fabric are
  registered from outside; the environment record interprets them, and interprets the packet
  consumers the reception calls. The names of the states are in \<open>Exec_Major\<close>.
\<close>

datatype comm_spw_state = SPW_LINK_DOWN | SPW_LINK_STARTING | SPW_LINK_RUN | SPW_LINK_FAILED

record comm_spw_ops =
  so_start :: "handle option"
  so_status :: "handle option"
  so_send :: "handle option"
  so_receive :: "handle option"
  so_ctx :: "handle option"

definition SPW_RX_BYTES :: u32 where "SPW_RX_BYTES = 512"

record spw_state =
  sp_ops :: comm_spw_ops
  sp_ops_set :: bool
  sp_state :: comm_spw_state
  sp_start_budget :: svc_timeout
  sp_attempts :: u32
  sp_disconnects :: u32
  sp_errors :: u32
  sp_sent :: u32
  sp_received :: u32
  sp_status_word :: u32
  sp_error_word :: u32
  sp_rx :: "u8 list"

record spw_world = cmd_world +
  w_spw :: spw_state

text \<open>A status call may write its two results or leave them; a receive call fills the start of the
  buffer it is given and returns the number of bytes.\<close>

record 'w spw_env =
  se_start :: "handle \<Rightarrow> handle option \<Rightarrow> 'w \<Rightarrow> qiran_status \<times> 'w"
  se_status :: "handle \<Rightarrow> handle option \<Rightarrow> bool \<Rightarrow> u32 \<Rightarrow> 'w \<Rightarrow> qiran_status \<times> bool \<times> u32 \<times> 'w"
  se_send :: "handle \<Rightarrow> handle option \<Rightarrow> u8 list \<Rightarrow> 'w \<Rightarrow> qiran_status \<times> 'w"
  se_receive :: "handle \<Rightarrow> handle option \<Rightarrow> u8 list \<Rightarrow> u32 \<Rightarrow> 'w \<Rightarrow> u32 \<times> u8 list \<times> 'w"
  se_consume :: "'w ccsds_consume"

definition spw_upd :: "(spw_state \<Rightarrow> spw_state) \<Rightarrow> 'a spw_world_scheme \<Rightarrow> 'a spw_world_scheme" where
  "spw_upd f w = w\<lparr>w_spw := f (w_spw w)\<rparr>"

definition comm_spw_link_init :: "'a spw_world_scheme \<Rightarrow> 'a spw_world_scheme" where
  "comm_spw_link_init = spw_upd (\<lambda>s. s\<lparr>
     sp_ops := \<lparr>so_start = None, so_status = None, so_send = None, so_receive = None, so_ctx = None\<rparr>,
     sp_ops_set := False, sp_state := SPW_LINK_DOWN, sp_attempts := 0, sp_disconnects := 0,
     sp_errors := 0, sp_sent := 0, sp_received := 0, sp_status_word := 0, sp_error_word := 0,
     sp_start_budget := timeout_disarm (sp_start_budget s)\<rparr>)"

definition comm_spw_link_set_ops ::
  "comm_spw_ops option \<Rightarrow> 'a spw_world_scheme \<Rightarrow> qiran_status \<times> 'a spw_world_scheme" where
  "comm_spw_link_set_ops ops w =
    (case ops of
       None \<Rightarrow> (QIRAN_OK, comm_spw_link_init w)
     | Some ops \<Rightarrow>
         if so_start ops = None \<or> so_status ops = None \<or> so_send ops = None \<or> so_receive ops = None
         then (QIRAN_ERR_PARAM, w)
         else (QIRAN_OK, spw_upd (\<lambda>s. s\<lparr>sp_ops := ops, sp_ops_set := True, sp_state := SPW_LINK_DOWN\<rparr>) w))"

definition comm_spw_link_state :: "'a spw_world_scheme \<Rightarrow> comm_spw_state" where
  "comm_spw_link_state w = sp_state (w_spw w)"

definition comm_spw_link_running :: "'a spw_world_scheme \<Rightarrow> bool" where
  "comm_spw_link_running w \<longleftrightarrow> sp_state (w_spw w) = SPW_LINK_RUN"

definition comm_spw_link_send ::
  "'a spw_world_scheme spw_env \<Rightarrow> u8 list option \<Rightarrow> u32 \<Rightarrow> 'a spw_world_scheme \<Rightarrow> qiran_status \<times> 'a spw_world_scheme" where
  "comm_spw_link_send E data len w =
    (if data = None \<or> len = 0 then (QIRAN_ERR_PARAM, w)
     else if sp_state (w_spw w) \<noteq> SPW_LINK_RUN then (QIRAN_ERR_STATE, w)
     else (let ops = sp_ops (w_spw w);
               (st, w) = se_send E (the (so_send ops)) (so_ctx ops) (take (unat len) (the data)) w
           in if st = QIRAN_OK then (st, spw_upd (\<lambda>s. s\<lparr>sp_sent := sp_sent s + 1\<rparr>) w)
              else (st, svc_fdir_report QIRAN_FAULT_SPW_LINK (status_code st)
                     (spw_upd (\<lambda>s. s\<lparr>sp_errors := sp_errors s + 1\<rparr>) w))))"

definition spw_link_event :: "plat_irq_event \<Rightarrow> 'a spw_world_scheme \<Rightarrow> 'a spw_world_scheme" where
  "spw_link_event ev w = svc_fdir_report QIRAN_FAULT_SPW_LINK (ev_datum ev)
     (spw_upd (\<lambda>s. s\<lparr>sp_errors := sp_errors s + 1, sp_error_word := ev_datum ev\<rparr>) w)"

definition comm_spw_link_service_interrupts :: "'a spw_world_scheme \<Rightarrow> 'a spw_world_scheme" where
  "comm_spw_link_service_interrupts w =
    (if \<not> sp_ops_set (w_spw w) then w else irq_service PLAT_IRQ_SPW spw_link_event w)"

text \<open>The reading loop ends when a read does not fill the buffer. How long a link can go on filling
  it is outside the code, so the loop has fuel; \<^term>\<open>None\<close> is a loop that has not ended.\<close>

fun deliver_received ::
  "nat \<Rightarrow> 'a spw_world_scheme spw_env \<Rightarrow> 'a spw_world_scheme \<Rightarrow> 'a spw_world_scheme option" where
  "deliver_received 0 E w = None"
| "deliver_received (Suc fuel) E w =
     (let ops = sp_ops (w_spw w);
          (n, rx, w) = se_receive E (the (so_receive ops)) (so_ctx ops) (sp_rx (w_spw w)) SPW_RX_BYTES w;
          w = spw_upd (\<lambda>s. s\<lparr>sp_rx := rx\<rparr>) w;
          w = (if n \<noteq> 0
               then snd (comm_ccsds_receive (se_consume E) (Some (sp_rx (w_spw w))) n
                      (spw_upd (\<lambda>s. s\<lparr>sp_received := sp_received s + 1\<rparr>) w))
               else w)
      in if n = SPW_RX_BYTES then deliver_received fuel E w else Some w)"

definition spw_query ::
  "'a spw_world_scheme spw_env \<Rightarrow> 'a spw_world_scheme \<Rightarrow> qiran_status \<times> bool \<times> 'a spw_world_scheme" where
  "spw_query E w =
    (let ops = sp_ops (w_spw w);
         (st, running, word, w) = se_status E (the (so_status ops)) (so_ctx ops) False (sp_status_word (w_spw w)) w
     in (st, running, spw_upd (\<lambda>s. s\<lparr>sp_status_word := word\<rparr>) w))"

definition spw_to :: "comm_spw_state \<Rightarrow> 'a spw_world_scheme \<Rightarrow> 'a spw_world_scheme" where
  "spw_to t = spw_upd (\<lambda>s. s\<lparr>sp_state := t\<rparr>)"

definition spw_down_step :: "'a spw_world_scheme spw_env \<Rightarrow> 'a spw_world_scheme \<Rightarrow> 'a spw_world_scheme" where
  "spw_down_step E w =
    (let w = spw_upd (\<lambda>s. s\<lparr>sp_attempts := sp_attempts s + 1\<rparr>) w; ops = sp_ops (w_spw w);
         (st, w) = se_start E (the (so_start ops)) (so_ctx ops) w
     in if st \<noteq> QIRAN_OK
        then (let w = svc_fdir_report QIRAN_FAULT_SPW_LINK 0 (spw_upd (\<lambda>s. s\<lparr>sp_errors := sp_errors s + 1\<rparr>) w)
              in if svc_fdir_retries_exhausted QIRAN_FAULT_SPW_LINK w then spw_to SPW_LINK_FAILED w else w)
        else (let (budget, w) = timeout_arm (sp_start_budget (w_spw w)) (svc_config_get CFG_SPW_START_TIMEOUT_MS w) w
              in spw_to SPW_LINK_STARTING (spw_upd (\<lambda>s. s\<lparr>sp_start_budget := budget\<rparr>) w)))"

definition spw_starting_step :: "'a spw_world_scheme spw_env \<Rightarrow> 'a spw_world_scheme \<Rightarrow> 'a spw_world_scheme" where
  "spw_starting_step E w =
    (let (st, running, w) = spw_query E w
     in if st \<noteq> QIRAN_OK
        then spw_to SPW_LINK_DOWN (svc_fdir_report QIRAN_FAULT_SPW_LINK 0
               (spw_upd (\<lambda>s. s\<lparr>sp_errors := sp_errors s + 1\<rparr>) w))
        else if running
        then (let w = spw_upd (\<lambda>s. s\<lparr>sp_start_budget := timeout_disarm (sp_start_budget s)\<rparr>) (spw_to SPW_LINK_RUN w)
              in svc_log_event 0 (sp_status_word (w_spw w)) w)
        else (let (expired, w) = timeout_expired (sp_start_budget (w_spw w)) w
              in if \<not> expired then w
                 else (let word = sp_status_word (w_spw w);
                           w = svc_fdir_report QIRAN_FAULT_SPW_LINK word (spw_upd (\<lambda>s. s\<lparr>sp_error_word := word\<rparr>) w)
                       in spw_to (if svc_fdir_retries_exhausted QIRAN_FAULT_SPW_LINK w then SPW_LINK_FAILED
                                  else SPW_LINK_DOWN) w)))"

definition spw_run_step ::
  "nat \<Rightarrow> 'a spw_world_scheme spw_env \<Rightarrow> 'a spw_world_scheme \<Rightarrow> 'a spw_world_scheme option" where
  "spw_run_step fuel E w =
    (let (st, running, w) = spw_query E w
     in if st \<noteq> QIRAN_OK \<or> \<not> running
        then (let word = sp_status_word (w_spw w);
                  w = spw_upd (\<lambda>s. s\<lparr>sp_disconnects := sp_disconnects s + 1, sp_error_word := word\<rparr>) w
              in Some (spw_to SPW_LINK_DOWN (svc_fdir_report QIRAN_FAULT_SPW_LINK word w)))
        else deliver_received fuel E w)"

definition comm_spw_link_service ::
  "nat \<Rightarrow> 'a spw_world_scheme spw_env \<Rightarrow> 'a spw_world_scheme \<Rightarrow> 'a spw_world_scheme option" where
  "comm_spw_link_service fuel E w =
    (if \<not> sp_ops_set (w_spw w) then Some w
     else (case sp_state (w_spw w) of
             SPW_LINK_DOWN \<Rightarrow> Some (spw_down_step E w)
           | SPW_LINK_STARTING \<Rightarrow> Some (spw_starting_step E w)
           | SPW_LINK_RUN \<Rightarrow> spw_run_step fuel E w
           | SPW_LINK_FAILED \<Rightarrow> Some w))"

definition comm_spw_link_start_attempts :: "'a spw_world_scheme \<Rightarrow> u32" where
  "comm_spw_link_start_attempts w = sp_attempts (w_spw w)"

definition comm_spw_link_disconnects :: "'a spw_world_scheme \<Rightarrow> u32" where
  "comm_spw_link_disconnects w = sp_disconnects (w_spw w)"

definition comm_spw_link_errors :: "'a spw_world_scheme \<Rightarrow> u32" where
  "comm_spw_link_errors w = sp_errors (w_spw w)"

definition comm_spw_link_packets_sent :: "'a spw_world_scheme \<Rightarrow> u32" where
  "comm_spw_link_packets_sent w = sp_sent (w_spw w)"

definition comm_spw_link_packets_received :: "'a spw_world_scheme \<Rightarrow> u32" where
  "comm_spw_link_packets_received w = sp_received (w_spw w)"

definition comm_spw_link_status_word :: "'a spw_world_scheme \<Rightarrow> u32" where
  "comm_spw_link_status_word w = sp_status_word (w_spw w)"

definition comm_spw_link_last_error_word :: "'a spw_world_scheme \<Rightarrow> u32" where
  "comm_spw_link_last_error_word w = sp_error_word (w_spw w)"

subsection \<open>What the steps leave alone\<close>

lemma spw_upd_fields [simp]:
  "w_spw (spw_upd f w) = f (w_spw w)" "w_fdir (spw_upd f w) = w_fdir w" "w_spw (spw_to t w) = (w_spw w)\<lparr>sp_state := t\<rparr>"
  "w_fdir (spw_to t w) = w_fdir w"
  by (simp_all add: spw_upd_def spw_to_def)

lemma spw_services [simp]:
  "w_spw (svc_log_event code d w) = w_spw w" "w_spw (svc_fdir_report f d w) = w_spw w"
  "w_fdir (svc_log_event code d w) = w_fdir w"
  by (simp_all add: svc_log_eqs svc_fdir_report_eq)

lemma spw_timeouts [simp]:
  "w_spw (snd (timeout_arm t d w)) = w_spw w" "w_spw (snd (timeout_expired t w)) = w_spw w"
  "w_fdir (snd (timeout_arm t d w)) = w_fdir w" "w_fdir (snd (timeout_expired t w)) = w_fdir w"
  by (simp_all add: timeout_arm_def timeout_expired_def svc_time_now_ms_def Let_def)

text \<open>The fabric operations and the consumers do not reach back into the link's state.\<close>

definition spw_env_ok :: "'a spw_world_scheme spw_env \<Rightarrow> bool" where
  "spw_env_ok E \<longleftrightarrow>
    (\<forall>h c w. w_spw (snd (se_start E h c w)) = w_spw w) \<and>
    (\<forall>h c r x w. w_spw (snd (snd (snd (se_status E h c r x w)))) = w_spw w) \<and>
    (\<forall>h c bs w. w_spw (snd (se_send E h c bs w)) = w_spw w) \<and>
    (\<forall>h c bs n w. w_spw (snd (snd (se_receive E h c bs n w))) = w_spw w) \<and>
    (\<forall>h c hdr app w. w_spw (snd (se_consume E h c hdr app w)) = w_spw w)"

lemma spw_env_keeps:
  assumes "spw_env_ok E"
  shows "se_start E h c w = (st, u) \<Longrightarrow> w_spw u = w_spw w"
    and "se_status E h c r x w = (st, r1, x1, u) \<Longrightarrow> w_spw u = w_spw w"
    and "se_send E h c bs w = (st, u) \<Longrightarrow> w_spw u = w_spw w"
    and "se_receive E h c bs n w = (n1, bs1, u) \<Longrightarrow> w_spw u = w_spw w"
proof -
  have k: "w_spw (snd (se_start E h c w)) = w_spw w" "w_spw (snd (snd (snd (se_status E h c r x w)))) = w_spw w"
    "w_spw (snd (se_send E h c bs w)) = w_spw w" "w_spw (snd (snd (se_receive E h c bs n w))) = w_spw w"
    using assms by (simp_all add: spw_env_ok_def)
  show "se_start E h c w = (st, u) \<Longrightarrow> w_spw u = w_spw w" "se_status E h c r x w = (st, r1, x1, u) \<Longrightarrow> w_spw u = w_spw w"
    "se_send E h c bs w = (st, u) \<Longrightarrow> w_spw u = w_spw w" "se_receive E h c bs n w = (n1, bs1, u) \<Longrightarrow> w_spw u = w_spw w"
    using k by simp_all
qed

lemma receive_spw:
  assumes "spw_env_ok E"
  shows "w_spw (snd (comm_ccsds_receive (se_consume E) p n w)) = w_spw w"
proof -
  have u: "w_spw (ccsds_upd f v) = w_spw v" "w_spw (ccsds_gap_check cls k v) = w_spw v"
    for f cls k and v :: "'a spw_world_scheme"
    by (simp_all add: ccsds_upd_def ccsds_gap_check_def Let_def)
  show ?thesis
    using assms
    by (auto simp: comm_ccsds_receive_def ccsds_refuse_def spw_env_ok_def u Let_def split: prod.splits option.splits)
qed

lemma deliver_spw:
  assumes "spw_env_ok E" "deliver_received fuel E w = Some v"
  shows "\<exists>n rx. w_spw v = (w_spw w)\<lparr>sp_received := n, sp_rx := rx\<rparr>"
  using assms(2)
proof (induction fuel arbitrary: w)
  case (Suc fuel)
  let ?ops = "sp_ops (w_spw w)"
  obtain n rx u where r: "se_receive E (the (so_receive ?ops)) (so_ctx ?ops) (sp_rx (w_spw w)) SPW_RX_BYTES w = (n, rx, u)"
    by (rule prod_cases3)
  have u: "w_spw u = w_spw w" by (rule spw_env_keeps(4) [OF assms(1) r])
  let ?t = "if n \<noteq> 0 then snd (comm_ccsds_receive (se_consume E) (Some rx) n
      (spw_upd (\<lambda>s. s\<lparr>sp_received := sp_received s + 1\<rparr>) (spw_upd (\<lambda>s. s\<lparr>sp_rx := rx\<rparr>) u)))
      else spw_upd (\<lambda>s. s\<lparr>sp_rx := rx\<rparr>) u"
  have t: "\<exists>m. w_spw ?t = (w_spw w)\<lparr>sp_received := m, sp_rx := rx\<rparr>"
  proof (cases "n = 0")
    case True
    then show ?thesis using u by (intro exI [of _ "sp_received (w_spw w)"]) simp
  next
    case False
    then show ?thesis using u by (intro exI [of _ "sp_received (w_spw w) + 1"]) (simp add: receive_spw [OF assms(1)])
  qed
  have "(if n = SPW_RX_BYTES then deliver_received fuel E ?t else Some ?t) = Some v"
    using Suc.prems by (simp add: r Let_def split: if_splits)
  then show ?case using t Suc.IH [of ?t] by (auto split: if_splits)
qed simp

lemma query_spw:
  assumes "spw_env_ok E" "spw_query E w = (st, running, v)"
  shows "\<exists>word. w_spw v = (w_spw w)\<lparr>sp_status_word := word\<rparr>"
proof -
  let ?ops = "sp_ops (w_spw w)"
  obtain st1 r1 word u where r: "se_status E (the (so_status ?ops)) (so_ctx ?ops) False (sp_status_word (w_spw w)) w =
      (st1, r1, word, u)" by (rule prod_cases4)
  show ?thesis
    using assms(2) spw_env_keeps(2) [OF assms(1) r] by (auto simp: spw_query_def r Let_def)
qed

text \<open>What holds of the link's state after a service of the fault system whose uplink leaves it alone.\<close>

lemma error_service_spw:
  assumes "\<forall>h f v d w. w_spw (snd (fe_report_flag F h f v d w)) = w_spw w"
    and "\<forall>h f w. w_spw (snd (fe_request_power_reset F h f w)) = w_spw w"
  shows "w_spw (error_handling_service F w) = w_spw w"
proof -
  have esc: "w_spw (fdir_escalate F f d v) = w_spw v" for f d and v :: "'a spw_world_scheme"
    using assms by (cases "fp_escalation (k_policy f)") (simp_all add: fdir_escalate_def Let_def case_prod_beta)
  have one: "w_spw (service_class F f v) = w_spw v" for f and v :: "'a spw_world_scheme"
    by (cases "fp_severity (k_policy f)") (simp_all add: service_class_def fdir_classify_def Let_def esc svc_log_eqs)
  have "w_spw (fold (service_class F) fs v) = w_spw v" for fs and v :: "'a spw_world_scheme"
    by (induction fs arbitrary: v) (simp_all add: one)
  then show ?thesis
    using collect_fdir_only [of w] by (auto simp: error_handling_service_def fdir_only_def)
qed

subsection \<open>Properties\<close>

text \<open>The moves of the link's state machine.\<close>

inductive spw_edge :: "comm_spw_state \<Rightarrow> comm_spw_state \<Rightarrow> bool" where
  down_retry: "spw_edge SPW_LINK_DOWN SPW_LINK_DOWN"
| down_start: "spw_edge SPW_LINK_DOWN SPW_LINK_STARTING"
| down_fail: "spw_edge SPW_LINK_DOWN SPW_LINK_FAILED"
| start_wait: "spw_edge SPW_LINK_STARTING SPW_LINK_STARTING"
| start_run: "spw_edge SPW_LINK_STARTING SPW_LINK_RUN"
| start_down: "spw_edge SPW_LINK_STARTING SPW_LINK_DOWN"
| start_fail: "spw_edge SPW_LINK_STARTING SPW_LINK_FAILED"
| run_stay: "spw_edge SPW_LINK_RUN SPW_LINK_RUN"
| run_drop: "spw_edge SPW_LINK_RUN SPW_LINK_DOWN"
| failed_stay: "spw_edge SPW_LINK_FAILED SPW_LINK_FAILED"

inductive_simps spw_edge_from:
  "spw_edge SPW_LINK_DOWN t" "spw_edge SPW_LINK_STARTING t" "spw_edge SPW_LINK_RUN t" "spw_edge SPW_LINK_FAILED t"

lemma retries_to [simp]:
  "svc_fdir_retries_exhausted f (spw_to t w) = svc_fdir_retries_exhausted f w"
  by (simp add: svc_fdir_retries_exhausted_def occurrences_same [of "spw_to t w" w])

lemma down_step_spw:
  fixes w :: "'a spw_world_scheme"
  assumes "spw_env_ok E"
  defines "v \<equiv> spw_down_step E w"
  shows "sp_attempts (w_spw v) = sp_attempts (w_spw w) + 1" "sp_disconnects (w_spw v) = sp_disconnects (w_spw w)"
    and "sp_state (w_spw v) = sp_state (w_spw w) \<or> sp_state (w_spw v) = SPW_LINK_STARTING \<or>
      sp_state (w_spw v) = SPW_LINK_FAILED \<and> svc_fdir_retries_exhausted QIRAN_FAULT_SPW_LINK v"
proof -
  let ?w = "spw_upd (\<lambda>s. s\<lparr>sp_attempts := sp_attempts s + 1\<rparr>) w"
  obtain st u where r: "se_start E (the (so_start (sp_ops (w_spw ?w)))) (so_ctx (sp_ops (w_spw ?w))) ?w = (st, u)"
    by (rule prod.exhaust)
  have u: "w_spw u = w_spw ?w" by (rule spw_env_keeps(1) [OF assms(1) r])
  let ?r = "svc_fdir_report QIRAN_FAULT_SPW_LINK 0 (spw_upd (\<lambda>s. s\<lparr>sp_errors := sp_errors s + 1\<rparr>) u)"
  let ?t = "timeout_arm (sp_start_budget (w_spw u)) (svc_config_get CFG_SPW_START_TIMEOUT_MS u) u"
  have v: "v = (if st \<noteq> QIRAN_OK
      then if svc_fdir_retries_exhausted QIRAN_FAULT_SPW_LINK ?r then spw_to SPW_LINK_FAILED ?r else ?r
      else spw_to SPW_LINK_STARTING (spw_upd (\<lambda>s. s\<lparr>sp_start_budget := fst ?t\<rparr>) (snd ?t)))"
    unfolding v_def spw_down_step_def Let_def r by (simp add: split_beta)
  have s: "w_spw ?r = (w_spw w)\<lparr>sp_attempts := sp_attempts (w_spw w) + 1, sp_errors := sp_errors (w_spw w) + 1\<rparr>"
    "w_spw (snd ?t) = (w_spw w)\<lparr>sp_attempts := sp_attempts (w_spw w) + 1\<rparr>"
    by (simp_all add: u)
  show "sp_attempts (w_spw v) = sp_attempts (w_spw w) + 1" "sp_disconnects (w_spw v) = sp_disconnects (w_spw w)"
    "sp_state (w_spw v) = sp_state (w_spw w) \<or> sp_state (w_spw v) = SPW_LINK_STARTING \<or>
      sp_state (w_spw v) = SPW_LINK_FAILED \<and> svc_fdir_retries_exhausted QIRAN_FAULT_SPW_LINK v"
    unfolding v using s by (auto simp del: spw_services spw_timeouts)
qed

lemma starting_step_spw:
  fixes w :: "'a spw_world_scheme"
  assumes "spw_env_ok E" "sp_state (w_spw w) = SPW_LINK_STARTING"
  defines "v \<equiv> spw_starting_step E w"
  shows "sp_attempts (w_spw v) = sp_attempts (w_spw w)" "sp_disconnects (w_spw v) = sp_disconnects (w_spw w)"
    and "sp_state (w_spw v) \<noteq> SPW_LINK_FAILED \<or> svc_fdir_retries_exhausted QIRAN_FAULT_SPW_LINK v"
proof -
  obtain st running u where q: "spw_query E w = (st, running, u)" by (rule prod_cases3)
  obtain word where u: "w_spw u = (w_spw w)\<lparr>sp_status_word := word\<rparr>" using query_spw [OF assms(1) q] by blast
  show "sp_attempts (w_spw v) = sp_attempts (w_spw w)" "sp_disconnects (w_spw v) = sp_disconnects (w_spw w)"
    "sp_state (w_spw v) \<noteq> SPW_LINK_FAILED \<or> svc_fdir_retries_exhausted QIRAN_FAULT_SPW_LINK v"
    using u assms(2) unfolding v_def spw_starting_step_def Let_def
    by (simp_all add: q split_beta)
qed

lemma run_step_spw:
  assumes "spw_env_ok E" "spw_run_step fuel E w = Some v" "sp_state (w_spw w) = SPW_LINK_RUN"
  shows "sp_attempts (w_spw v) = sp_attempts (w_spw w)"
    and "sp_state (w_spw v) = SPW_LINK_RUN \<and> sp_disconnects (w_spw v) = sp_disconnects (w_spw w) \<or>
      sp_state (w_spw v) = SPW_LINK_DOWN \<and> sp_disconnects (w_spw v) = sp_disconnects (w_spw w) + 1"
proof -
  obtain st running u where q: "spw_query E w = (st, running, u)" by (rule prod_cases3)
  obtain word where u: "w_spw u = (w_spw w)\<lparr>sp_status_word := word\<rparr>" using query_spw [OF assms(1) q] by blast
  show "sp_attempts (w_spw v) = sp_attempts (w_spw w)"
    "sp_state (w_spw v) = SPW_LINK_RUN \<and> sp_disconnects (w_spw v) = sp_disconnects (w_spw w) \<or>
      sp_state (w_spw v) = SPW_LINK_DOWN \<and> sp_disconnects (w_spw v) = sp_disconnects (w_spw w) + 1"
    using assms(2,3) u deliver_spw [OF assms(1), of fuel u v]
    by (auto simp: spw_run_step_def q Let_def split: if_splits)
qed

text \<open>One service moves the link only along its state machine: it never reaches the running state
  except from starting, gives up only when the retries of the link's fault class are spent, never
  leaves the failed state by itself, counts an attempt exactly when it tries to start, and a
  disconnect exactly when a running link drops.\<close>

theorem spw_link_transitions:
  assumes "spw_env_ok E" "comm_spw_link_service fuel E w = Some v" "sp_ops_set (w_spw w)"
  shows "spw_edge (comm_spw_link_state w) (comm_spw_link_state v) \<and>
    (comm_spw_link_state v = SPW_LINK_FAILED \<and> comm_spw_link_state w \<noteq> SPW_LINK_FAILED \<longrightarrow>
       svc_fdir_retries_exhausted QIRAN_FAULT_SPW_LINK v) \<and>
    comm_spw_link_start_attempts v = comm_spw_link_start_attempts w +
      (if comm_spw_link_state w = SPW_LINK_DOWN then 1 else 0) \<and>
    comm_spw_link_disconnects v = comm_spw_link_disconnects w +
      (if comm_spw_link_state w = SPW_LINK_RUN \<and> comm_spw_link_state v = SPW_LINK_DOWN then 1 else 0)"
proof (cases "sp_state (w_spw w)")
  case SPW_LINK_DOWN
  then show ?thesis
    using assms(2,3) down_step_spw [OF assms(1), of w]
    by (auto simp: comm_spw_link_service_def comm_spw_link_state_def comm_spw_link_start_attempts_def
        comm_spw_link_disconnects_def spw_edge_from)
next
  case SPW_LINK_STARTING
  then show ?thesis
    using assms(2,3) starting_step_spw [OF assms(1) SPW_LINK_STARTING]
    by (cases "sp_state (w_spw v)") (auto simp: comm_spw_link_service_def comm_spw_link_state_def
        comm_spw_link_start_attempts_def comm_spw_link_disconnects_def spw_edge_from)
next
  case SPW_LINK_RUN
  then show ?thesis
    using assms(2,3) run_step_spw [OF assms(1) _ SPW_LINK_RUN, of fuel v]
    by (auto simp: comm_spw_link_service_def comm_spw_link_state_def comm_spw_link_start_attempts_def
        comm_spw_link_disconnects_def spw_edge_from)
next
  case SPW_LINK_FAILED
  then show ?thesis
    using assms(2,3) by (auto simp: comm_spw_link_service_def comm_spw_link_state_def spw_edge_from)
qed

definition spw_env0 :: "qiran_status \<Rightarrow> bool \<Rightarrow> spw_world spw_env" where
  "spw_env0 st up = \<lparr>se_start = (\<lambda>_ _ w. (st, w)), se_status = (\<lambda>_ _ _ _ w. (st, up, 5, w)),
     se_send = (\<lambda>_ _ _ w. (st, w)), se_receive = (\<lambda>_ _ bs _ w. (0, bs, w)),
     se_consume = (\<lambda>_ _ _ _ w. (QIRAN_OK, w))\<rparr>"

lemma spw_env0_ok: "spw_env_ok (spw_env0 st up)"
  by (simp add: spw_env_ok_def spw_env0_def)

definition spw_ops0 :: comm_spw_ops where
  "spw_ops0 = \<lparr>so_start = Some 0, so_status = Some 1, so_send = Some 2, so_receive = Some 3, so_ctx = None\<rparr>"

theorem spw_link_transitions_witness:
  "\<forall>w :: spw_world. let w = snd (comm_spw_link_set_ops (Some spw_ops0) (comm_spw_link_init w))
     in \<exists>v. comm_spw_link_service 1 (spw_env0 QIRAN_OK True) w = Some v \<and>
       comm_spw_link_start_attempts v = comm_spw_link_start_attempts w + 1"
proof
  fix w :: spw_world
  let ?w = "snd (comm_spw_link_set_ops (Some spw_ops0) (comm_spw_link_init w))"
  have s: "sp_ops_set (w_spw ?w)" "comm_spw_link_state ?w = SPW_LINK_DOWN" "sp_state (w_spw ?w) = SPW_LINK_DOWN"
    by (simp_all add: comm_spw_link_set_ops_def comm_spw_link_init_def spw_ops0_def comm_spw_link_state_def)
  have d: "comm_spw_link_service 1 (spw_env0 QIRAN_OK True) ?w = Some (spw_down_step (spw_env0 QIRAN_OK True) ?w)"
    unfolding comm_spw_link_service_def using s by simp
  have "comm_spw_link_start_attempts (spw_down_step (spw_env0 QIRAN_OK True) ?w) = comm_spw_link_start_attempts ?w + 1"
    using spw_link_transitions [OF spw_env0_ok d s(1)] s(2) by simp
  with d show "let w = snd (comm_spw_link_set_ops (Some spw_ops0) (comm_spw_link_init w))
     in \<exists>v. comm_spw_link_service 1 (spw_env0 QIRAN_OK True) w = Some v \<and>
       comm_spw_link_start_attempts v = comm_spw_link_start_attempts w + 1"
    unfolding Let_def by blast
qed

text \<open>C39: A link that cannot be started is tried three times, one attempt per cycle with the fault
  service running in between, and is then given up: after \<open>n\<close> cycles it has failed iff \<open>n\<close> is at
  least three, it has made the smaller of the two numbers of attempts, and until then it is down
  and will be tried again.\<close>

theorem spw_start_retry_limit:
  fixes w :: "'a spw_world_scheme"
  assumes "uplink_ok F" "\<forall>h f v d w. w_spw (snd (fe_report_flag F h f v d w)) = w_spw w"
    and "\<forall>h f w. w_spw (snd (fe_request_power_reset F h f w)) = w_spw w"
    and start: "\<forall>h c w. fst (se_start E h c w) \<noteq> QIRAN_OK \<and> w_spw (snd (se_start E h c w)) = w_spw w \<and>
      w_fdir (snd (se_start E h c w)) = w_fdir w"
    and "sp_ops_set (w_spw w)" "comm_spw_link_state w = SPW_LINK_DOWN" "svc_fdir_occurrences QIRAN_FAULT_SPW_LINK w = 0"
  defines "cycle \<equiv> \<lambda>w. error_handling_service F (the (comm_spw_link_service 1 E w))"
  shows "comm_spw_link_state ((cycle ^^ n) w) = (if 3 \<le> n then SPW_LINK_FAILED else SPW_LINK_DOWN) \<and>
    comm_spw_link_start_attempts ((cycle ^^ n) w) = comm_spw_link_start_attempts w + of_nat (min n 3)"
proof -
  let ?f = QIRAN_FAULT_SPW_LINK
  have keep: "w_spw (cycle v) = w_spw (the (comm_spw_link_service 1 E v))"
      "svc_fdir_occurrences ?f (cycle v) = svc_fdir_occurrences ?f (the (comm_spw_link_service 1 E v))" for v
    using error_service_spw [OF assms(2,3)] fdir_occurrences_service [OF assms(1), of ?f] by (simp_all add: cycle_def)
  have down: "w_spw (cycle v) = (w_spw v)\<lparr>sp_attempts := sp_attempts (w_spw v) + 1, sp_errors := sp_errors (w_spw v) + 1,
        sp_state := if 3 \<le> svc_fdir_occurrences ?f v + 1 then SPW_LINK_FAILED else SPW_LINK_DOWN\<rparr> \<and>
      svc_fdir_occurrences ?f (cycle v) = svc_fdir_occurrences ?f v + 1"
    if v: "sp_ops_set (w_spw v)" "sp_state (w_spw v) = SPW_LINK_DOWN" for v :: "'a spw_world_scheme"
  proof -
    let ?v = "spw_upd (\<lambda>s. s\<lparr>sp_attempts := sp_attempts s + 1\<rparr>) v"
    obtain st u where r: "se_start E (the (so_start (sp_ops (w_spw ?v)))) (so_ctx (sp_ops (w_spw ?v))) ?v = (st, u)"
      by (rule prod.exhaust)
    have u: "st \<noteq> QIRAN_OK" "w_spw u = w_spw ?v" "w_fdir u = w_fdir v"
      using start [rule_format, of "the (so_start (sp_ops (w_spw ?v)))" "so_ctx (sp_ops (w_spw ?v))" ?v] r by simp_all
    let ?r = "svc_fdir_report ?f 0 (spw_upd (\<lambda>s. s\<lparr>sp_errors := sp_errors s + 1\<rparr>) u)"
    have o: "svc_fdir_occurrences ?f ?r = svc_fdir_occurrences ?f v + 1"
      using u(3) occurrences_same [of u v] by (simp add: occurrences_report occurrences_same [of "spw_upd g u" u for g])
    have x: "svc_fdir_retries_exhausted ?f ?r \<longleftrightarrow> 3 \<le> svc_fdir_occurrences ?f v + 1"
      by (simp add: svc_fdir_retries_exhausted_def o fdir_policy_def)
    have "comm_spw_link_service 1 E v = Some (if svc_fdir_retries_exhausted ?f ?r then spw_to SPW_LINK_FAILED ?r else ?r)"
      unfolding comm_spw_link_service_def spw_down_step_def Let_def r using v u(1) by simp
    then show ?thesis
      using keep [of v] u(2) v(2) o by (simp add: x occurrences_same [of "spw_to t ?r" ?r for t])
  qed
  have hold: "w_spw (cycle v) = w_spw v" if "sp_state (w_spw v) = SPW_LINK_FAILED" for v
    using keep(1) [of v] that by (simp add: comm_spw_link_service_def)
  have "let v = (cycle ^^ n) w in sp_ops_set (w_spw v) \<and>
      sp_state (w_spw v) = (if 3 \<le> n then SPW_LINK_FAILED else SPW_LINK_DOWN) \<and>
      sp_attempts (w_spw v) = sp_attempts (w_spw w) + of_nat (min n 3) \<and>
      (n \<le> 3 \<longrightarrow> svc_fdir_occurrences ?f v = of_nat n)"
  proof (induction n)
    case 0 then show ?case using assms(5-7) by (simp add: comm_spw_link_state_def)
  next
    case (Suc n)
    let ?v = "(cycle ^^ n) w"
    show ?case
    proof (cases "3 \<le> n")
      case True then show ?thesis using Suc hold [of ?v] by (simp add: Let_def min_def)
    next
      case False
      then have "n = 0 \<or> n = 1 \<or> n = 2" by arith
      moreover have "\<not> (3 :: u32) \<le> 1" by (simp add: word_le_nat_alt)
      ultimately show ?thesis using Suc down [of ?v] by (auto simp: Let_def)
    qed
  qed
  then show ?thesis by (simp add: Let_def comm_spw_link_state_def comm_spw_link_start_attempts_def)
qed

definition spw_fdir_env0 :: "spw_world fdir_env" where
  "spw_fdir_env0 = \<lparr>fe_report_flag = (\<lambda>_ _ _ _ w. (QIRAN_OK, w)), fe_request_power_reset = (\<lambda>_ _ w. (QIRAN_OK, w))\<rparr>"

theorem spw_start_retry_limit_witness:
  "\<forall>w :: spw_world. let w = snd (comm_spw_link_set_ops (Some spw_ops0) (comm_spw_link_init (w\<lparr>w_fdir := fdir_state0\<rparr>)));
       E = spw_env0 QIRAN_ERR_HARDWARE False
     in comm_spw_link_state (((\<lambda>w. error_handling_service spw_fdir_env0 (the (comm_spw_link_service 1 E w))) ^^ 4) w) = SPW_LINK_FAILED"
proof
  fix w :: spw_world
  define E where "E = spw_env0 QIRAN_ERR_HARDWARE False"
  define u where "u = snd (comm_spw_link_set_ops (Some spw_ops0) (comm_spw_link_init (w\<lparr>w_fdir := fdir_state0\<rparr>)))"
  have u: "sp_ops_set (w_spw u)" "comm_spw_link_state u = SPW_LINK_DOWN" "svc_fdir_occurrences QIRAN_FAULT_SPW_LINK u = 0"
    by (simp_all add: u_def comm_spw_link_set_ops_def comm_spw_link_init_def spw_ops0_def comm_spw_link_state_def
        svc_fdir_occurrences_def fdir_unserviced_def fdir_state0_def)
  have F: "uplink_ok spw_fdir_env0" "\<forall>h f v d w. w_spw (snd (fe_report_flag spw_fdir_env0 h f v d w)) = w_spw w"
    "\<forall>h f w. w_spw (snd (fe_request_power_reset spw_fdir_env0 h f w)) = w_spw w"
    by (simp_all add: spw_fdir_env0_def uplink_ok_def link_keeps_def)
  have E: "\<forall>h c w. fst (se_start E h c w) \<noteq> QIRAN_OK \<and> w_spw (snd (se_start E h c w)) = w_spw w \<and>
      w_fdir (snd (se_start E h c w)) = w_fdir w"
    by (simp add: E_def spw_env0_def)
  have "comm_spw_link_state (((\<lambda>w. error_handling_service spw_fdir_env0 (the (comm_spw_link_service 1 E w))) ^^ 4) u) = SPW_LINK_FAILED"
    using spw_start_retry_limit [OF F E u, of 4] by (simp del: funpow.simps)
  then show "let w = snd (comm_spw_link_set_ops (Some spw_ops0) (comm_spw_link_init (w\<lparr>w_fdir := fdir_state0\<rparr>)));
       E = spw_env0 QIRAN_ERR_HARDWARE False
     in comm_spw_link_state (((\<lambda>w. error_handling_service spw_fdir_env0 (the (comm_spw_link_service 1 E w))) ^^ 4) w) = SPW_LINK_FAILED"
    unfolding Let_def E_def u_def .
qed

end
