(* ===== verification/Comm_Output.thy ===== *)
theory Comm_Output
  imports Comm_Spw_Link
begin

section \<open>The outbound queue: \<^verbatim>\<open>src/comm/comm_output.c\<close>\<close>

text \<open>
  Descriptors of application data waiting for the data link, sent by priority of their class. A
  descriptor holds the address of the data, not a copy: what is packetised is what that memory
  holds when the descriptor is served. The memory is read through the environment record.
\<close>

fun k_output_priority :: "ccsds_class \<Rightarrow> u8" where
  "k_output_priority CCSDS_CLASS_COMMAND = 3"
| "k_output_priority CCSDS_CLASS_SCIENCE_RAW = 4"
| "k_output_priority CCSDS_CLASS_SCIENCE_PROCESSED = 2"
| "k_output_priority CCSDS_CLASS_HEALTH = 1"
| "k_output_priority CCSDS_CLASS_EVENT = 0"
| "k_output_priority CCSDS_CLASS_FILE = 4"
| "k_output_priority CCSDS_CLASS_COUNT = 0xFF"

definition OUTPUT_PACKET_BYTES :: u32 where "OUTPUT_PACKET_BYTES = 1024"
definition COMM_OUTPUT_DEPTH :: nat where "COMM_OUTPUT_DEPTH = 16"

record output_slot =
  os_data :: handle
  os_len :: u32
  os_cls :: ccsds_class
  os_used :: bool

record output_state =
  oq_slot :: "output_slot list"
  oq_pending :: u32
  oq_high_water :: u32
  oq_submitted :: u32
  oq_sent :: u32
  oq_rejected :: u32
  oq_failed :: u32
  oq_packet :: "u8 list"

record output_world = spw_world +
  w_output :: output_state

text \<open>The memory behind an address, and the operations of the link.\<close>

record 'w output_env =
  oe_bytes :: "handle \<Rightarrow> 'w \<Rightarrow> u8 list"
  oe_spw :: "'w spw_env"

definition output_upd ::
  "(output_state \<Rightarrow> output_state) \<Rightarrow> 'a output_world_scheme \<Rightarrow> 'a output_world_scheme" where
  "output_upd f w = w\<lparr>w_output := f (w_output w)\<rparr>"

definition comm_output_init :: "'a output_world_scheme \<Rightarrow> 'a output_world_scheme" where
  "comm_output_init = output_upd (\<lambda>s. s\<lparr>
     oq_slot := map (\<lambda>sl. sl\<lparr>os_used := False\<rparr>) (oq_slot s), oq_pending := 0, oq_high_water := 0,
     oq_submitted := 0, oq_sent := 0, oq_rejected := 0, oq_failed := 0\<rparr>)"

definition comm_output_priority_of :: "ccsds_class \<Rightarrow> u8" where
  "comm_output_priority_of cls = (if cls = CCSDS_CLASS_COUNT then 0xFF else k_output_priority cls)"

definition output_fill :: "nat \<Rightarrow> ccsds_class \<Rightarrow> handle \<Rightarrow> u32 \<Rightarrow> output_state \<Rightarrow> output_state" where
  "output_fill i cls data len s =
    (let s = s\<lparr>oq_slot := (oq_slot s)[i := \<lparr>os_data = data, os_len = len, os_cls = cls, os_used = True\<rparr>],
               oq_pending := oq_pending s + 1, oq_submitted := oq_submitted s + 1\<rparr>
     in if oq_high_water s < oq_pending s then s\<lparr>oq_high_water := oq_pending s\<rparr> else s)"

definition comm_output_submit ::
  "ccsds_class \<Rightarrow> handle option \<Rightarrow> u32 \<Rightarrow> 'a output_world_scheme \<Rightarrow> qiran_status \<times> 'a output_world_scheme" where
  "comm_output_submit cls data len w =
    (if cls = CCSDS_CLASS_COUNT \<or> data = None \<or> len = 0 then (QIRAN_ERR_PARAM, w)
     else if OUTPUT_PACKET_BYTES < len + CCSDS_PRIMARY_HEADER_BYTES + CCSDS_INTEGRITY_BYTES
     then (QIRAN_ERR_RANGE, w)
     else (case find (\<lambda>i. \<not> os_used (oq_slot (w_output w) ! i)) [0..<COMM_OUTPUT_DEPTH] of
             Some i \<Rightarrow> (QIRAN_OK, output_upd (output_fill i cls (the data) len) w)
           | None \<Rightarrow> (QIRAN_ERR_BUSY, svc_fdir_report QIRAN_FAULT_OUTPUT_QUEUE (of_nat (class_idx cls))
                       (output_upd (\<lambda>s. s\<lparr>oq_rejected := oq_rejected s + 1\<rparr>) w))))"

text \<open>The scan keeps the index and the priority of the best slot found so far.\<close>

definition pick_one :: "output_slot list \<Rightarrow> nat \<Rightarrow> nat \<times> u8 \<Rightarrow> nat \<times> u8" where
  "pick_one slots i = (\<lambda>(best, best_priority).
    if \<not> os_used (slots ! i) then (best, best_priority)
    else if k_output_priority (os_cls (slots ! i)) < best_priority then (i, k_output_priority (os_cls (slots ! i)))
    else (best, best_priority))"

definition pick :: "output_slot list \<Rightarrow> nat" where
  "pick slots = fst (fold (pick_one slots) [0..<COMM_OUTPUT_DEPTH] (COMM_OUTPUT_DEPTH, 0xFF))"

definition output_free :: "nat \<Rightarrow> output_state \<Rightarrow> output_state" where
  "output_free i s = s\<lparr>oq_slot := (oq_slot s)[i := (oq_slot s ! i)\<lparr>os_used := False\<rparr>],
     oq_pending := oq_pending s - 1\<rparr>"

text \<open>One turn of the loop on the slot picked; the flag says whether the loop goes on.\<close>

definition output_turn ::
  "'a output_world_scheme output_env \<Rightarrow> nat \<Rightarrow> 'a output_world_scheme \<Rightarrow> bool \<times> 'a output_world_scheme" where
  "output_turn E i w =
    (let slot = oq_slot (w_output w) ! i;
         (st, packet, written, w) = comm_ccsds_build (os_cls slot) (Some (oe_bytes E (os_data slot) w)) (os_len slot)
                                      (Some (oq_packet (w_output w))) OUTPUT_PACKET_BYTES w;
         w = output_upd (\<lambda>s. s\<lparr>oq_packet := the packet\<rparr>) w
     in if st \<noteq> QIRAN_OK
        then (let w = output_upd (\<lambda>s. (output_free i s)\<lparr>oq_failed := oq_failed s + 1\<rparr>) w
              in (True, svc_fdir_report QIRAN_FAULT_OUTPUT_QUEUE (of_nat (class_idx (os_cls slot))) w))
        else (let (st, w) = comm_spw_link_send (oe_spw E) (Some (oq_packet (w_output w))) (the written) w
              in if st \<noteq> QIRAN_OK then (False, w)
                 else (True, output_upd (\<lambda>s. (output_free i s)\<lparr>oq_sent := oq_sent s + 1\<rparr>) w)))"

text \<open>Every turn that goes on frees a slot, so one turn more than there are slots is enough fuel
  (\<open>output_service_reference\<close>); \<^term>\<open>None\<close> is a loop that has not ended.\<close>

fun comm_output_service ::
  "nat \<Rightarrow> 'a output_world_scheme output_env \<Rightarrow> 'a output_world_scheme \<Rightarrow> 'a output_world_scheme option" where
  "comm_output_service 0 E w = None"
| "comm_output_service (Suc fuel) E w =
     (if \<not> comm_spw_link_running w then Some w
      else if COMM_OUTPUT_DEPTH \<le> pick (oq_slot (w_output w)) then Some w
      else (let (go, w) = output_turn E (pick (oq_slot (w_output w))) w
            in if go then comm_output_service fuel E w else Some w))"

definition comm_output_pending :: "'a output_world_scheme \<Rightarrow> u32" where
  "comm_output_pending w = oq_pending (w_output w)"

definition comm_output_high_water :: "'a output_world_scheme \<Rightarrow> u32" where
  "comm_output_high_water w = oq_high_water (w_output w)"

definition comm_output_submitted :: "'a output_world_scheme \<Rightarrow> u32" where
  "comm_output_submitted w = oq_submitted (w_output w)"

definition comm_output_sent :: "'a output_world_scheme \<Rightarrow> u32" where
  "comm_output_sent w = oq_sent (w_output w)"

definition comm_output_rejected :: "'a output_world_scheme \<Rightarrow> u32" where
  "comm_output_rejected w = oq_rejected (w_output w)"

definition comm_output_failed :: "'a output_world_scheme \<Rightarrow> u32" where
  "comm_output_failed w = oq_failed (w_output w)"

subsection \<open>The scan finds the first slot of the best priority\<close>

text \<open>The used slots by priority, in slot order within a priority.\<close>

definition output_order :: "output_slot list \<Rightarrow> nat list" where
  "output_order slots = sort_key (\<lambda>i. k_output_priority (os_cls (slots ! i)))
     (filter (\<lambda>i. os_used (slots ! i)) [0..<COMM_OUTPUT_DEPTH])"

text \<open>One scan for a smallest key equals the head of the stable sort.\<close>

lemma insort_key_head:
  assumes "sorted (map f zs)"
  shows "(case filter (\<lambda>z. f z < f x) zs of [] \<Rightarrow> x | z # _ \<Rightarrow> z) = hd (insort_key f x zs)"
proof (cases zs)
  case Nil then show ?thesis by simp
next
  case (Cons z ys)
  show ?thesis
  proof (cases "f x \<le> f z")
    case True
    then have "filter (\<lambda>z. f z < f x) zs = []"
      using assms Cons by (fastforce simp: filter_empty_conv)
    then show ?thesis using Cons True by simp
  next
    case False
    then show ?thesis using Cons by (auto simp: not_le)
  qed
qed

lemma scan_head:
  fixes f :: "nat \<Rightarrow> 'k :: linorder" and P :: "nat \<Rightarrow> bool"
  defines "step \<equiv> \<lambda>i (b, p). if \<not> P i then (b, p) else if f i < p then (i, f i) else (b, p)"
  shows "fold step xs (b, p) = (case sort_key f (filter (\<lambda>i. P i \<and> f i < p) xs) of
    [] \<Rightarrow> (b, p) | i # _ \<Rightarrow> (i, f i))"
proof (induction xs arbitrary: b p)
  case Nil then show ?case by simp
next
  case (Cons x xs)
  show ?case
  proof (cases "P x \<and> f x < p")
    case False
    then have "step x (b, p) = (b, p)" by (auto simp: step_def)
    then show ?thesis using False Cons.IH by (auto simp: conj_commute)
  next
    case True
    define zs where "zs = sort_key f (filter (\<lambda>i. P i \<and> f i < p) xs)"
    have "sort_key f (filter (\<lambda>i. P i \<and> f i < f x) xs) = filter (\<lambda>i. f i < f x) zs"
      using True by (simp add: zs_def filter_sort conj_commute)
        (rule arg_cong [of _ _ "sort_key f"], rule filter_cong, auto)
    moreover have "sorted (map f zs)" by (simp add: zs_def)
    note insort_key_head [OF this, of x]
    moreover have "insort_key f x zs \<noteq> []" by (cases zs) auto
    moreover have "step x (b, p) = (x, f x)" using True by (simp add: step_def)
    ultimately show ?thesis
      using True Cons.IH by (auto simp: zs_def [symmetric] split: list.splits)
  qed
qed

lemma pick_order:
  assumes "\<forall>sl \<in> set slots. os_cls sl \<noteq> CCSDS_CLASS_COUNT \<or> \<not> os_used sl" "length slots = COMM_OUTPUT_DEPTH"
  shows "pick slots = (case output_order slots of [] \<Rightarrow> COMM_OUTPUT_DEPTH | i # _ \<Rightarrow> i)"
proof -
  have lt: "k_output_priority c < 0xFF" if "c \<noteq> CCSDS_CLASS_COUNT" for c
    using that by (cases c) auto
  have "filter (\<lambda>i. os_used (slots ! i) \<and> k_output_priority (os_cls (slots ! i)) < 0xFF) [0..<COMM_OUTPUT_DEPTH] =
      filter (\<lambda>i. os_used (slots ! i)) [0..<COMM_OUTPUT_DEPTH]"
    using assms by (intro filter_cong) (auto intro!: lt)
  then show ?thesis
    using scan_head [of "\<lambda>i. os_used (slots ! i)" "\<lambda>i. k_output_priority (os_cls (slots ! i))"]
    by (simp add: pick_def pick_one_def [abs_def] output_order_def split: list.split)
qed

lemma order_members: "i \<in> set (output_order slots) \<longleftrightarrow> i < COMM_OUTPUT_DEPTH \<and> os_used (slots ! i)"
  by (auto simp: output_order_def)

lemma order_tail:
  assumes "output_order slots = i # is" "length slots = COMM_OUTPUT_DEPTH"
  shows "output_order (slots[i := (slots ! i)\<lparr>os_used := False\<rparr>]) = is"
proof -
  have i: "i < COMM_OUTPUT_DEPTH" using order_members [of i slots] assms(1) by simp
  have "distinct (output_order slots)" by (simp add: output_order_def)
  then have "is = filter (\<lambda>j. j \<noteq> i) (output_order slots)"
    using assms(1) by (auto intro!: filter_True [symmetric])
  also have "\<dots> = sort_key (\<lambda>i. k_output_priority (os_cls (slots ! i)))
      (filter (\<lambda>j. os_used (slots ! j) \<and> j \<noteq> i) [0..<COMM_OUTPUT_DEPTH])"
    by (simp add: output_order_def filter_sort conj_commute)
  also have "\<dots> = output_order (slots[i := (slots ! i)\<lparr>os_used := False\<rparr>])"
    unfolding output_order_def using i assms(2)
    by (intro arg_cong2 [where f = sort_key] ext filter_cong) (auto simp: nth_list_update)
  finally show ?thesis by simp
qed

subsection \<open>One turn\<close>

text \<open>The link's send operation reaches back neither into the link's state nor into the queue.\<close>

definition output_env_ok :: "'a output_world_scheme output_env \<Rightarrow> bool" where
  "output_env_ok E \<longleftrightarrow> (\<forall>h c bs w. w_spw (snd (se_send (oe_spw E) h c bs w)) = w_spw w \<and>
     w_output (snd (se_send (oe_spw E) h c bs w)) = w_output w)"

lemma output_upd_fields [simp]:
  "w_output (output_upd f w) = f (w_output w)" "w_spw (output_upd f w) = w_spw w"
  "w_output (svc_fdir_report fl d w) = w_output w"
  "w_output (spw_upd g w) = w_output w" "w_output (ccsds_upd h w) = w_output w" "w_spw (ccsds_upd h w) = w_spw w"
  by (simp_all add: output_upd_def spw_upd_def ccsds_upd_def svc_fdir_report_eq)

lemma build_output:
  "comm_ccsds_build cls d n buf len w = (st, bs, k, v) \<Longrightarrow> w_output v = w_output w \<and> w_spw v = w_spw w"
  by (auto simp: comm_ccsds_build_def Let_def split: prod.splits if_splits)

lemma send_output:
  assumes "output_env_ok E" "comm_spw_link_send (oe_spw E) d n w = (st, v)"
  shows "w_output v = w_output w" "sp_state (w_spw v) = sp_state (w_spw w)"
proof -
  have k: "w_output t = w_output u \<and> w_spw t = w_spw u" if "se_send (oe_spw E) h c bs u = (st, t)" for h c bs u st t
    using assms(1) that unfolding output_env_ok_def by (metis snd_conv)
  show "w_output v = w_output w" "sp_state (w_spw v) = sp_state (w_spw w)"
    using assms(2) by (auto simp: comm_spw_link_send_def Let_def dest!: k split: prod.splits if_splits)
qed

text \<open>Exactly one counter moves with the slot that is freed; a turn that stops changes neither.\<close>

lemma turn_output:
  assumes "output_env_ok E" "output_turn E i w = (go, v)"
  shows "sp_state (w_spw v) = sp_state (w_spw w)"
    and "\<exists>p. w_output v = (if \<not> go then (w_output w)\<lparr>oq_packet := p\<rparr>
            else if oq_sent (w_output v) \<noteq> oq_sent (w_output w)
            then (output_free i (w_output w))\<lparr>oq_packet := p, oq_sent := oq_sent (w_output w) + 1\<rparr>
            else (output_free i (w_output w))\<lparr>oq_packet := p, oq_failed := oq_failed (w_output w) + 1\<rparr>)"
proof -
  let ?slot = "oq_slot (w_output w) ! i"
  obtain st packet written u where b: "comm_ccsds_build (os_cls ?slot) (Some (oe_bytes E (os_data ?slot) w)) (os_len ?slot)
      (Some (oq_packet (w_output w))) OUTPUT_PACKET_BYTES w = (st, packet, written, u)" by (rule prod_cases4)
  let ?u = "output_upd (\<lambda>s. s\<lparr>oq_packet := the packet\<rparr>) u"
  obtain st2 t where s: "comm_spw_link_send (oe_spw E) (Some (oq_packet (w_output ?u))) (the written) ?u = (st2, t)"
    by (rule prod.exhaust)
  note u = build_output [OF b] and t = send_output [OF assms(1) s]
  show "sp_state (w_spw v) = sp_state (w_spw w)"
    using assms(2) b s u t
    by (cases "st = QIRAN_OK"; cases "st2 = QIRAN_OK") (auto simp: output_turn_def Let_def svc_fdir_report_eq)
  show "\<exists>p. w_output v = (if \<not> go then (w_output w)\<lparr>oq_packet := p\<rparr>
            else if oq_sent (w_output v) \<noteq> oq_sent (w_output w)
            then (output_free i (w_output w))\<lparr>oq_packet := p, oq_sent := oq_sent (w_output w) + 1\<rparr>
            else (output_free i (w_output w))\<lparr>oq_packet := p, oq_failed := oq_failed (w_output w) + 1\<rparr>)"
    using assms(2) b s u t
    by (intro exI [of _ "the packet"], cases "st = QIRAN_OK"; cases "st2 = QIRAN_OK")
      (auto simp: output_turn_def Let_def output_free_def)
qed

subsection \<open>The queue's invariant\<close>

definition output_used :: "output_slot list \<Rightarrow> nat" where
  "output_used slots = length (filter os_used slots)"

definition output_ok :: "output_state \<Rightarrow> bool" where
  "output_ok s \<longleftrightarrow> length (oq_slot s) = COMM_OUTPUT_DEPTH \<and>
     (\<forall>sl \<in> set (oq_slot s). os_used sl \<longrightarrow> os_cls sl \<noteq> CCSDS_CLASS_COUNT) \<and>
     oq_pending s = of_nat (output_used (oq_slot s)) \<and>
     oq_submitted s = oq_sent s + oq_failed s + oq_pending s \<and>
     oq_pending s \<le> oq_high_water s \<and> oq_high_water s \<le> of_nat COMM_OUTPUT_DEPTH"

lemma used_update:
  assumes "i < length slots"
  shows "output_used (slots[i := x]) + (if os_used (slots ! i) then 1 else 0) =
    output_used slots + (if os_used x then 1 else 0)"
proof -
  have "slots = take i slots @ slots ! i # drop (Suc i) slots" using assms by (rule id_take_nth_drop)
  then have "output_used slots = output_used (take i slots @ slots ! i # drop (Suc i) slots)" by simp
  then show ?thesis using assms by (simp add: output_used_def upd_conv_take_nth_drop)
qed

lemma used_le: "length slots = COMM_OUTPUT_DEPTH \<Longrightarrow> output_used slots \<le> 16"
  unfolding output_used_def using length_filter_le [of os_used slots] by (simp add: COMM_OUTPUT_DEPTH_def)

lemma used_of_nat_inj: "n \<le> 16 \<Longrightarrow> m \<le> 16 \<Longrightarrow> of_nat n \<le> (of_nat m :: u32) \<longleftrightarrow> n \<le> m"
  by (simp add: word_le_nat_alt unat_of_nat)

lemma output_free_ok:
  assumes "output_ok s" "i < COMM_OUTPUT_DEPTH" "os_used (oq_slot s ! i)"
  shows "output_ok ((output_free i s)\<lparr>oq_packet := p, oq_sent := oq_sent s + 1\<rparr>)"
    and "output_ok ((output_free i s)\<lparr>oq_packet := p, oq_failed := oq_failed s + 1\<rparr>)"
proof -
  let ?slots = "(oq_slot s)[i := (oq_slot s ! i)\<lparr>os_used := False\<rparr>]"
  have l: "length (oq_slot s) = COMM_OUTPUT_DEPTH" "i < length (oq_slot s)"
    using assms(1,2) by (simp_all add: output_ok_def)
  have n: "output_used (oq_slot s) = Suc (output_used ?slots)"
    using used_update [OF l(2), of "(oq_slot s ! i)\<lparr>os_used := False\<rparr>"] assms(3) by simp
  then have m: "of_nat (output_used (oq_slot s)) = 1 + (of_nat (output_used ?slots) :: u32)" by simp
  have "output_used ?slots \<le> output_used (oq_slot s)" using n by simp
  then have le: "(of_nat (output_used ?slots) :: u32) \<le> of_nat (output_used (oq_slot s))"
    using used_le [OF l(1)] by (simp add: used_of_nat_inj)
  have cls: "\<forall>sl \<in> set ?slots. os_used sl \<longrightarrow> os_cls sl \<noteq> CCSDS_CLASS_COUNT"
    using assms(1) by (auto simp: output_ok_def dest!: set_update_subset_insert [THEN subsetD])
  have "of_nat (output_used ?slots) \<le> oq_high_water s"
    using order.trans [OF le] assms(1) by (auto simp: output_ok_def)
  then show "output_ok ((output_free i s)\<lparr>oq_packet := p, oq_sent := oq_sent s + 1\<rparr>)"
    "output_ok ((output_free i s)\<lparr>oq_packet := p, oq_failed := oq_failed s + 1\<rparr>)"
    using assms(1) cls m by (simp_all add: output_ok_def output_free_def)
qed

lemma output_fill_ok:
  assumes "output_ok s" "i < COMM_OUTPUT_DEPTH" "\<not> os_used (oq_slot s ! i)" "cls \<noteq> CCSDS_CLASS_COUNT"
  shows "output_ok (output_fill i cls data len s)"
proof -
  let ?x = "\<lparr>os_data = data, os_len = len, os_cls = cls, os_used = True\<rparr>"
  let ?slots = "(oq_slot s)[i := ?x]"
  have l: "length (oq_slot s) = COMM_OUTPUT_DEPTH" "i < length (oq_slot s)"
    using assms(1,2) by (simp_all add: output_ok_def)
  have n: "output_used ?slots = Suc (output_used (oq_slot s))"
    using used_update [OF l(2), of ?x] assms(3) by simp
  then have m: "of_nat (output_used (oq_slot s)) + 1 = (of_nat (output_used ?slots) :: u32)" by simp
  have "output_used ?slots \<le> 16" using used_le [of ?slots] l(1) by simp
  then have le: "(of_nat (output_used ?slots) :: u32) \<le> of_nat COMM_OUTPUT_DEPTH"
    unfolding COMM_OUTPUT_DEPTH_def by (simp add: used_of_nat_inj del: of_nat_numeral)
  have cls: "\<forall>sl \<in> set ?slots. os_used sl \<longrightarrow> os_cls sl \<noteq> CCSDS_CLASS_COUNT"
    using assms(1,4) by (auto simp: output_ok_def dest!: set_update_subset_insert [THEN subsetD])
  show ?thesis
    using assms(1) cls m le by (auto simp: output_ok_def output_fill_def Let_def not_less)
qed

text \<open>The queue served in a given order, stopping at the first packet the link does not take.\<close>

fun output_in_order ::
  "'a output_world_scheme output_env \<Rightarrow> nat list \<Rightarrow> 'a output_world_scheme \<Rightarrow> 'a output_world_scheme" where
  "output_in_order E [] w = w"
| "output_in_order E (i # is) w =
     (let (go, w) = output_turn E i w in if go then output_in_order E is w else w)"

lemma turn_ok:
  assumes "output_env_ok E" "output_ok (w_output w)" "output_turn E i w = (go, v)" "output_order (oq_slot (w_output w)) = i # is"
  shows "output_ok (w_output v)" "go \<Longrightarrow> output_order (oq_slot (w_output v)) = is"
proof -
  have i: "i < COMM_OUTPUT_DEPTH" "os_used (oq_slot (w_output w) ! i)"
    using order_members [of i "oq_slot (w_output w)"] assms(4) by simp_all
  have l: "length (oq_slot (w_output w)) = COMM_OUTPUT_DEPTH" using assms(2) by (simp add: output_ok_def)
  obtain p where v: "w_output v = (if \<not> go then (w_output w)\<lparr>oq_packet := p\<rparr>
      else if oq_sent (w_output v) \<noteq> oq_sent (w_output w)
      then (output_free i (w_output w))\<lparr>oq_packet := p, oq_sent := oq_sent (w_output w) + 1\<rparr>
      else (output_free i (w_output w))\<lparr>oq_packet := p, oq_failed := oq_failed (w_output w) + 1\<rparr>)"
    using turn_output(2) [OF assms(1,3)] by blast
  have "output_ok ((w_output w)\<lparr>oq_packet := p\<rparr>)" using assms(2) by (auto simp: output_ok_def)
  then show "output_ok (w_output v)"
    using output_free_ok [OF assms(2) i, of p] by (subst v) simp
  assume go
  then have "oq_slot (w_output v) = oq_slot (output_free i (w_output w))" by (subst v) simp
  then show "output_order (oq_slot (w_output v)) = is"
    using order_tail [OF assms(4) l] by (simp add: output_free_def)
qed

lemma order_length: "length (output_order slots) \<le> 16"
  using length_filter_le [of "\<lambda>i. os_used (slots ! i)" "[0..<COMM_OUTPUT_DEPTH]"]
  by (simp add: output_order_def COMM_OUTPUT_DEPTH_def)

lemma output_service_reference:
  assumes "output_env_ok E" "output_ok (w_output w)" "comm_spw_link_running w"
    and "length (output_order (oq_slot (w_output w))) < fuel"
  shows "comm_output_service fuel E w = Some (output_in_order E (output_order (oq_slot (w_output w))) w) \<and>
    output_ok (w_output (output_in_order E (output_order (oq_slot (w_output w))) w))"
  using assms(2-)
proof (induction "output_order (oq_slot (w_output w))" arbitrary: w fuel)
  case Nil
  then have "pick (oq_slot (w_output w)) = COMM_OUTPUT_DEPTH"
    by (subst pick_order) (auto simp: output_ok_def Nil.hyps [symmetric])
  then show ?case using Nil by (cases fuel) simp_all
next
  case (Cons i "is")
  obtain n where fuel: "fuel = Suc n" "length is < n"
    using Cons.prems(3) Cons.hyps(2) [symmetric] by (cases fuel) auto
  have ord: "output_order (oq_slot (w_output w)) = i # is" by (rule Cons.hyps(2) [symmetric])
  have p: "pick (oq_slot (w_output w)) = i"
    using Cons.prems(1) by (subst pick_order) (auto simp: output_ok_def ord)
  have i: "i < COMM_OUTPUT_DEPTH" using order_members [of i "oq_slot (w_output w)"] ord by simp
  obtain go v where t: "output_turn E i w = (go, v)" by (rule prod.exhaust)
  note ok = turn_ok [OF assms(1) Cons.prems(1) t ord]
  show ?case
  proof (cases go)
    case False
    then show ?thesis using fuel p i t ok(1) Cons.prems(2) unfolding ord by simp
  next
    case True
    have run: "comm_spw_link_running v"
      using turn_output(1) [OF assms(1) t] Cons.prems(2) by (simp add: comm_spw_link_running_def)
    have len: "length (output_order (oq_slot (w_output v))) < n" using fuel(2) ok(2) [OF True] by simp
    from Cons.hyps(1) [OF ok(2) [OF True, symmetric] ok(1) run len]
    show ?thesis
      using True fuel(1) p i t Cons.prems(2) ok(2) [OF True] unfolding ord by simp
  qed
qed

lemma output_service_eq:
  assumes "output_env_ok E" "output_ok (w_output w)" "17 \<le> fuel"
  shows "comm_output_service fuel E w = Some (if comm_spw_link_running w
    then output_in_order E (output_order (oq_slot (w_output w))) w else w)"
proof (cases "comm_spw_link_running w")
  case True
  then show ?thesis
    using output_service_reference [OF assms(1,2), of fuel] order_length [of "oq_slot (w_output w)"] assms(3) by simp
next
  case False
  then show ?thesis using assms(3) by (cases fuel) simp_all
qed

text \<open>A link that takes everything empties the queue.\<close>

lemma turn_goes:
  assumes "\<forall>h c bs w. fst (se_send (oe_spw E) h c bs w) = QIRAN_OK" "comm_spw_link_running w"
  shows "fst (output_turn E i w)"
proof -
  let ?slot = "oq_slot (w_output w) ! i"
  obtain st packet written u where b: "comm_ccsds_build (os_cls ?slot) (Some (oe_bytes E (os_data ?slot) w)) (os_len ?slot)
      (Some (oq_packet (w_output w))) OUTPUT_PACKET_BYTES w = (st, packet, written, u)" by (rule prod_cases4)
  have nz: "6 + l \<noteq> 0" if "\<not> 65536 < l" for l :: u32
  proof
    assume "6 + l = 0"
    then have "l = - 6" by (simp add: eq_neg_iff_add_eq_0 add.commute)
    then show False using that by simp
  qed
  have "the written \<noteq> 0" if "st = QIRAN_OK"
    using b that
    by (auto simp: comm_ccsds_build_def Let_def CCSDS_PRIMARY_HEADER_BYTES_def CCSDS_DATA_FIELD_MAX_def
        simp del: add_eq_0_iff dest!: nz split: prod.splits if_splits)
  then show ?thesis
    using b build_output [OF b] assms
    by (cases "st = QIRAN_OK")
      (auto simp: output_turn_def comm_spw_link_send_def comm_spw_link_running_def Let_def split: prod.splits,
       metis fst_conv)
qed

lemma in_order_empties:
  assumes "output_env_ok E" "\<forall>h c bs w. fst (se_send (oe_spw E) h c bs w) = QIRAN_OK"
    and "output_ok (w_output w)" "comm_spw_link_running w"
  shows "output_order (oq_slot (w_output (output_in_order E (output_order (oq_slot (w_output w))) w))) = []"
  using assms(3,4)
proof (induction "output_order (oq_slot (w_output w))" arbitrary: w)
  case Nil then show ?case by (simp add: Nil.hyps [symmetric])
next
  case (Cons i "is")
  obtain go v where t: "output_turn E i w = (go, v)" by (rule prod.exhaust)
  have go using turn_goes [OF assms(2) Cons.prems(2), of i] t by simp
  note ok = turn_ok [OF assms(1) Cons.prems(1) t Cons.hyps(2) [symmetric]]
  have "comm_spw_link_running v"
    using turn_output(1) [OF assms(1) t] Cons.prems(2) by (simp add: comm_spw_link_running_def)
  from Cons.hyps(1) [OF ok(2) [OF \<open>go\<close>, symmetric] ok(1) this]
  show ?case using \<open>go\<close> t ok(2) unfolding Cons.hyps(2) [symmetric] by simp
qed

lemma order_empty:
  assumes "length slots = COMM_OUTPUT_DEPTH" "output_order slots = []"
  shows "output_used slots = 0"
proof -
  have "\<not> os_used sl" if "sl \<in> set slots" for sl
  proof -
    obtain i where "i < length slots" "sl = slots ! i" using \<open>sl \<in> set slots\<close> by (metis in_set_conv_nth)
    then show ?thesis using order_members [of i slots] assms by simp
  qed
  then show ?thesis by (simp add: output_used_def)
qed

subsection \<open>What the module promises\<close>

text \<open>What is submitted to an empty queue lies in its slots in the order submitted.\<close>

type_synonym output_sub = "ccsds_class \<times> handle \<times> u32"

definition submit_each :: "output_sub list \<Rightarrow> 'a output_world_scheme \<Rightarrow> 'a output_world_scheme" where
  "submit_each ds w = fold (\<lambda>(c, h, n) w. snd (comm_output_submit c (Some h) n w)) ds w"

definition sub_ok :: "output_sub \<Rightarrow> bool" where
  "sub_ok = (\<lambda>(c, h, n). c \<noteq> CCSDS_CLASS_COUNT \<and> n \<noteq> 0 \<and>
     n + CCSDS_PRIMARY_HEADER_BYTES + CCSDS_INTEGRITY_BYTES \<le> OUTPUT_PACKET_BYTES)"

definition sub_slot :: "output_sub \<Rightarrow> output_slot" where
  "sub_slot = (\<lambda>(c, h, n). \<lparr>os_data = h, os_len = n, os_cls = c, os_used = True\<rparr>)"

definition slot_sub :: "output_slot \<Rightarrow> output_sub" where
  "slot_sub sl = (os_cls sl, os_data sl, os_len sl)"

lemma slot_sub_inverse [simp]: "slot_sub (sub_slot d) = d" "os_used (sub_slot d)"
  by (simp_all add: slot_sub_def sub_slot_def split_beta)

lemma submit_next:
  assumes "oq_slot (w_output w) = map sub_slot es @ x # xs" "\<not> os_used x" "length es + length (x # xs) = 16" "sub_ok d"
  shows "oq_slot (w_output (snd (comm_output_submit (fst d) (Some (fst (snd d))) (snd (snd d)) w))) = map sub_slot (es @ [d]) @ xs"
proof -
  have "find (\<lambda>i. \<not> os_used (oq_slot (w_output w) ! i)) [0..<COMM_OUTPUT_DEPTH] = Some (length es)"
    unfolding find_Some_iff using assms(1-3)
    by (intro exI [of _ "length es"]) (auto simp: COMM_OUTPUT_DEPTH_def nth_append)
  then show ?thesis
    using assms by (simp add: comm_output_submit_def sub_ok_def split_beta output_fill_def sub_slot_def Let_def
        list_update_append not_less [symmetric] del: upt_rec_numeral)
qed

lemma submit_each_slots:
  "oq_slot (w_output w) = map sub_slot es @ xs \<Longrightarrow> \<forall>x \<in> set xs. \<not> os_used x \<Longrightarrow> length es + length xs = 16 \<Longrightarrow>
   length ds \<le> length xs \<Longrightarrow> \<forall>d \<in> set ds. sub_ok d \<Longrightarrow>
   oq_slot (w_output (submit_each ds w)) = map sub_slot (es @ ds) @ drop (length ds) xs"
proof (induction ds arbitrary: es xs w)
  case (Cons d ds)
  obtain x ys where xs: "xs = x # ys" using Cons.prems(4) by (cases xs) auto
  define v where "v = snd (comm_output_submit (fst d) (Some (fst (snd d))) (snd (snd d)) w)"
  have "oq_slot (w_output v) = map sub_slot (es @ [d]) @ ys"
    unfolding v_def by (rule submit_next [where x = x]) (use Cons.prems xs in simp_all)
  from Cons.IH [OF this] Cons.prems xs
  have "oq_slot (w_output (submit_each ds v)) = map sub_slot ((es @ [d]) @ ds) @ drop (length ds) ys" by simp
  moreover have "submit_each (d # ds) w = submit_each ds v" by (simp add: submit_each_def v_def split_beta)
  ultimately show ?case by (simp add: xs)
qed (simp add: submit_each_def)

lemma insort_key_map: "insort_key f (g x) (map g xs) = map g (insort_key (\<lambda>x. f (g x)) x xs)"
  by (induction xs) simp_all

lemma sort_key_map: "sort_key f (map g xs) = map g (sort_key (\<lambda>x. f (g x)) xs)"
  by (induction xs) (simp_all add: insort_key_map)

lemma submit_each_order:
  assumes "length (oq_slot (w_output w)) = 16" "\<forall>sl \<in> set (oq_slot (w_output w)). \<not> os_used sl"
    and "length ds \<le> 16" "\<forall>d \<in> set ds. sub_ok d"
  defines "slots \<equiv> oq_slot (w_output (submit_each ds w))"
  shows "map (\<lambda>i. slot_sub (slots ! i)) (output_order slots) = sort_key (\<lambda>d. k_output_priority (fst d)) ds"
proof -
  have s: "slots = map sub_slot ds @ drop (length ds) (oq_slot (w_output w))"
    unfolding slots_def using submit_each_slots [of w "[]" "oq_slot (w_output w)" ds] assms(1-4) by simp
  have nth: "i < length ds \<Longrightarrow> slots ! i = sub_slot (ds ! i)" for i by (simp add: s nth_append)
  have free: "\<not> os_used (slots ! i)" if "length ds \<le> i" "i < 16" for i
    using that assms(1,2) by (simp add: s nth_append)
  have "[0..<COMM_OUTPUT_DEPTH] = [0..<length ds] @ [length ds..<16]"
    using assms(3) upt_add_eq_append [of 0 "length ds" "16 - length ds"] by (simp add: COMM_OUTPUT_DEPTH_def del: upt_rec_numeral)
  moreover have "filter (\<lambda>i. os_used (slots ! i)) [0..<length ds] = [0..<length ds]" by (rule filter_True) (simp add: nth)
  moreover have "filter (\<lambda>i. os_used (slots ! i)) [length ds..<16] = []" by (rule filter_False) (simp add: free)
  ultimately have used: "filter (\<lambda>i. os_used (slots ! i)) [0..<COMM_OUTPUT_DEPTH] = [0..<length ds]" by simp
  have key: "k_output_priority (os_cls sl) = k_output_priority (fst (slot_sub sl))" for sl by (simp add: slot_sub_def)
  have "map (\<lambda>i. slot_sub (slots ! i)) (output_order slots) =
      sort_key (\<lambda>d. k_output_priority (fst d)) (map (\<lambda>i. slot_sub (slots ! i)) [0..<length ds])"
    unfolding output_order_def used key by (rule sort_key_map [symmetric])
  also have "map (\<lambda>i. slot_sub (slots ! i)) [0..<length ds] = ds" by (rule nth_equalityI) (simp_all add: nth)
  finally show ?thesis .
qed

text \<open>C29: Order of sending: while the link runs, one service takes the queued descriptors by
  priority of their class and, among equals, by the number of their slot, exactly as one stable sort of
  the slots would, until the link refuses a packet; a link that refuses nothing leaves the queue empty; a
  link that does not run is left alone. The loop ends within seventeen turns. The order of the slots is
  the order of submission for what was submitted to an empty queue: that is taken by priority with the
  earliest first among equals. It is not for a queue in which a slot has been freed and taken again,
  where the comment in the code promises the earliest submission and the lowest slot is taken
  (\<open>output_reuse_order\<close>).\<close>

theorem output_priority_order:
  assumes "output_env_ok E" "output_ok (w_output w)" "17 \<le> fuel"
  defines "slots \<equiv> oq_slot (w_output w)"
  defines "order \<equiv> sort_key (\<lambda>i. comm_output_priority_of (os_cls (slots ! i))) (filter (\<lambda>i. os_used (slots ! i)) [0..<16])"
  shows "\<exists>v. comm_output_service fuel E w = Some v \<and>
    v = (if comm_spw_link_running w then output_in_order E order w else w) \<and>
    ((\<forall>h c bs w. fst (se_send (oe_spw E) h c bs w) = QIRAN_OK) \<and> comm_spw_link_running w \<longrightarrow>
       comm_output_pending v = 0) \<and>
    (\<forall>ds u. w = submit_each ds u \<and> length (oq_slot (w_output u)) = 16 \<and> (\<forall>sl \<in> set (oq_slot (w_output u)). \<not> os_used sl) \<and>
       length ds \<le> 16 \<and> (\<forall>d \<in> set ds. sub_ok d) \<longrightarrow>
       map (\<lambda>i. (os_cls (slots ! i), os_data (slots ! i), os_len (slots ! i))) order =
         sort_key (\<lambda>(c, h, n). comm_output_priority_of c) ds)"
proof -
  have p: "comm_output_priority_of = k_output_priority"
  proof
    show "comm_output_priority_of c = k_output_priority c" for c by (cases c) (simp_all add: comm_output_priority_of_def)
  qed
  have o: "order = output_order slots"
    by (simp add: order_def p output_order_def COMM_OUTPUT_DEPTH_def del: upt_rec_numeral)
  let ?v = "output_in_order E (output_order slots) w"
  have "oq_pending (w_output ?v) = 0"
    if "\<forall>h c bs w. fst (se_send (oe_spw E) h c bs w) = QIRAN_OK" "comm_spw_link_running w"
  proof -
    have "output_ok (w_output ?v)"
      using output_service_reference [OF assms(1,2) that(2), of 17] order_length [of slots] by (simp add: slots_def)
    then show ?thesis
      using order_empty [OF _ in_order_empties [OF assms(1) that(1) assms(2) that(2)]] by (auto simp: output_ok_def slots_def)
  qed
  moreover have "map (\<lambda>i. (os_cls (slots ! i), os_data (slots ! i), os_len (slots ! i))) order =
      sort_key (\<lambda>(c, h, n). comm_output_priority_of c) ds"
    if "w = submit_each ds u" "length (oq_slot (w_output u)) = 16" "\<forall>sl \<in> set (oq_slot (w_output u)). \<not> os_used sl"
      "length ds \<le> 16" "\<forall>d \<in> set ds. sub_ok d" for ds u
  proof -
    have "(\<lambda>d :: output_sub. k_output_priority (fst d)) = (\<lambda>(c, h, n). k_output_priority c)" by auto
    with submit_each_order [OF that(2-5)] show ?thesis unfolding o slots_def that(1) p slot_sub_def by simp
  qed
  ultimately show ?thesis
    using output_service_eq [OF assms(1-3)] unfolding o slots_def [symmetric] by (auto simp: comm_output_pending_def)
qed

definition output_slot0 :: output_slot where
  "output_slot0 = \<lparr>os_data = 0, os_len = 0, os_cls = CCSDS_CLASS_COUNT, os_used = False\<rparr>"

definition output_state0 :: output_state where
  "output_state0 = \<lparr>oq_slot = replicate 16 output_slot0, oq_pending = 0, oq_high_water = 0, oq_submitted = 0,
     oq_sent = 0, oq_rejected = 0, oq_failed = 0, oq_packet = replicate 1024 0\<rparr>"

lemma slots0: "replicate 16 x = [x,x,x,x,x,x,x,x,x,x,x,x,x,x,x,x]"
  by (simp add: numeral_eq_Suc)

lemma output_state0_ok: "output_ok output_state0"
  by (auto simp: output_ok_def output_state0_def COMM_OUTPUT_DEPTH_def output_used_def output_slot0_def)

text \<open>A running link that takes everything, and a memory of constant bytes.\<close>

definition output_env0 :: "output_world output_env" where
  "output_env0 = \<lparr>oe_bytes = (\<lambda>h _. [of_nat h, of_nat h]),
     oe_spw = \<lparr>se_start = (\<lambda>_ _ w. (QIRAN_OK, w)), se_status = (\<lambda>_ _ _ _ w. (QIRAN_OK, True, 5, w)),
       se_send = (\<lambda>_ _ _ w. (QIRAN_OK, w)), se_receive = (\<lambda>_ _ bs _ w. (0, bs, w)),
       se_consume = (\<lambda>_ _ _ _ w. (QIRAN_OK, w))\<rparr>\<rparr>"

lemma output_env0_ok: "output_env_ok output_env0"
  by (simp add: output_env_ok_def output_env0_def)

text \<open>Raw science queued first, an event second: the event is sent first.\<close>

theorem output_priority_order_witness:
  "\<forall>w :: output_world. let s = output_fill 1 CCSDS_CLASS_EVENT 2 1 (output_fill 0 CCSDS_CLASS_SCIENCE_RAW 1 1 output_state0);
       w = w\<lparr>w_output := s, w_spw := (w_spw w)\<lparr>sp_state := SPW_LINK_RUN\<rparr>\<rparr>
     in \<exists>v. comm_output_service 17 output_env0 w = Some v \<and> v = output_in_order output_env0 [1, 0] w \<and>
       comm_output_pending v = 0"
proof
  fix w :: output_world
  define s where "s = output_fill 1 CCSDS_CLASS_EVENT 2 1 (output_fill 0 CCSDS_CLASS_SCIENCE_RAW 1 1 output_state0)"
  define u where "u = w\<lparr>w_output := s, w_spw := (w_spw w)\<lparr>sp_state := SPW_LINK_RUN\<rparr>\<rparr>"
  have ok: "output_ok (w_output u)"
    unfolding u_def s_def
    by (simp, intro output_fill_ok output_state0_ok)
      (simp_all add: COMM_OUTPUT_DEPTH_def output_fill_def output_state0_def output_slot0_def Let_def slots0)
  have run: "comm_spw_link_running u" by (simp add: comm_spw_link_running_def u_def)
  have sel: "filter (\<lambda>i. os_used (oq_slot (w_output u) ! i)) [0..<16] = [0, 1]"
    by (simp add: u_def s_def output_fill_def output_state0_def output_slot0_def Let_def slots0 upt_rec)
  have key: "sort_key (\<lambda>i. comm_output_priority_of (os_cls (oq_slot (w_output u) ! i))) [0, 1] = [1, 0]"
    by (simp add: u_def s_def output_fill_def output_state0_def output_slot0_def Let_def slots0 comm_output_priority_of_def)
  have all: "\<forall>h c bs w. fst (se_send (oe_spw output_env0) h c bs w) = QIRAN_OK" by (simp add: output_env0_def)
  have "\<exists>v. comm_output_service 17 output_env0 u = Some v \<and> v = output_in_order output_env0 [1, 0] u \<and>
      comm_output_pending v = 0"
    using output_priority_order [OF output_env0_ok ok order.refl] run all unfolding sel key by auto
  then show "let s = output_fill 1 CCSDS_CLASS_EVENT 2 1 (output_fill 0 CCSDS_CLASS_SCIENCE_RAW 1 1 output_state0);
       w = w\<lparr>w_output := s, w_spw := (w_spw w)\<lparr>sp_state := SPW_LINK_RUN\<rparr>\<rparr>
     in \<exists>v. comm_output_service 17 output_env0 w = Some v \<and> v = output_in_order output_env0 [1, 0] w \<and>
       comm_output_pending v = 0"
    unfolding Let_def u_def s_def .
qed

text \<open>What the rest of the software does to the queue, and the link's state changing in between.\<close>

datatype output_op = Out_submit ccsds_class "handle option" u32 | Out_service | Out_link spw_state

fun output_step ::
  "'a output_world_scheme output_env \<Rightarrow> output_op \<Rightarrow> 'a output_world_scheme option \<Rightarrow> 'a output_world_scheme option" where
  "output_step E (Out_submit cls data len) w = map_option (snd \<circ> comm_output_submit cls data len) w"
| "output_step E Out_service w = Option.bind w (comm_output_service 17 E)"
| "output_step E (Out_link s) w = map_option (\<lambda>w. w\<lparr>w_spw := s\<rparr>) w"

lemma submit_ok:
  assumes "output_ok (w_output w)"
  shows "output_ok (w_output (snd (comm_output_submit cls data len w)))"
proof (cases "find (\<lambda>i. \<not> os_used (oq_slot (w_output w) ! i)) [0..<COMM_OUTPUT_DEPTH]")
  case None
  then show ?thesis using assms by (auto simp: comm_output_submit_def output_ok_def)
next
  case (Some i)
  then have i: "i < COMM_OUTPUT_DEPTH" "\<not> os_used (oq_slot (w_output w) ! i)"
    by (auto simp: find_Some_iff)
  show ?thesis using Some assms output_fill_ok [OF assms i] by (simp add: comm_output_submit_def)
qed

lemma output_run_ok:
  assumes "output_env_ok E" "output_ok (w_output w)"
  shows "\<exists>v. fold (output_step E) ops (Some w) = Some v \<and> output_ok (w_output v)"
  using assms(2)
proof (induction ops arbitrary: w)
  case Nil then show ?case by simp
next
  case (Cons op ops)
  have "\<exists>u. output_step E op (Some w) = Some u \<and> output_ok (w_output u)"
  proof (cases op)
    case (Out_submit cls data len) then show ?thesis using submit_ok [OF Cons.prems] by simp
  next
    case Out_service
    have "comm_spw_link_running w \<Longrightarrow> output_ok (w_output (output_in_order E (output_order (oq_slot (w_output w))) w))"
      using output_service_reference [OF assms(1) Cons.prems, of 17] order_length [of "oq_slot (w_output w)"] by simp
    then show ?thesis
      using output_service_eq [OF assms(1) Cons.prems order.refl] Out_service Cons.prems by auto
  next
    case (Out_link s) then show ?thesis using Cons.prems by simp
  qed
  then show ?case using Cons.IH by auto
qed

lemma output_init_ok:
  "length (oq_slot (w_output w)) = COMM_OUTPUT_DEPTH \<Longrightarrow> output_ok (w_output (comm_output_init w))"
  by (auto simp: output_ok_def comm_output_init_def COMM_OUTPUT_DEPTH_def output_used_def filter_map comp_def)

text \<open>Conservation: whatever is submitted and whenever the queue is served after the
  initialisation, with the link going up and down in between, every service returns; what was
  accepted is what was sent, dropped as unpacketisable or is still pending; the pending count is the
  number of occupied slots, at most sixteen, and never above the recorded high water.\<close>

theorem output_accounting:
  assumes "output_env_ok E" "length (oq_slot (w_output w)) = 16"
  shows "\<exists>v. fold (output_step E) ops (Some (comm_output_init w)) = Some v \<and>
    comm_output_submitted v = comm_output_sent v + comm_output_failed v + comm_output_pending v \<and>
    comm_output_pending v = of_nat (length (filter os_used (oq_slot (w_output v)))) \<and>
    comm_output_pending v \<le> comm_output_high_water v \<and> comm_output_high_water v \<le> 16"
proof -
  have "length (oq_slot (w_output w)) = COMM_OUTPUT_DEPTH" using assms(2) by (simp add: COMM_OUTPUT_DEPTH_def)
  from output_run_ok [OF assms(1) output_init_ok [OF this], of ops] show ?thesis
    by (auto simp: output_ok_def output_used_def COMM_OUTPUT_DEPTH_def comm_output_submitted_def comm_output_sent_def
        comm_output_failed_def comm_output_pending_def comm_output_high_water_def)
qed

theorem output_accounting_witness:
  "\<forall>w :: output_world. \<exists>v. fold (output_step output_env0)
      [Out_submit CCSDS_CLASS_EVENT (Some 1) 2, Out_service] (Some (comm_output_init (w\<lparr>w_output := output_state0\<rparr>))) = Some v \<and>
    comm_output_submitted v = comm_output_sent v + comm_output_failed v + comm_output_pending v"
proof
  fix w :: output_world
  have "length (oq_slot (w_output (w\<lparr>w_output := output_state0\<rparr>))) = 16" by (simp add: output_state0_def)
  from output_accounting [OF output_env0_ok this] show "\<exists>v. fold (output_step output_env0)
      [Out_submit CCSDS_CLASS_EVENT (Some 1) 2, Out_service] (Some (comm_output_init (w\<lparr>w_output := output_state0\<rparr>))) = Some v \<and>
    comm_output_submitted v = comm_output_sent v + comm_output_failed v + comm_output_pending v"
    by blast
qed

subsection \<open>Where the queue departs from its description\<close>

text \<open>A slot that becomes free is reused before the ones behind it, so among equal priorities the
  latest submission can be the next one sent: of three raw packets, the first sent in between, the
  third goes before the second.\<close>

definition raw_slot :: "handle \<Rightarrow> output_slot" where
  "raw_slot d = \<lparr>os_data = d, os_len = 1, os_cls = CCSDS_CLASS_SCIENCE_RAW, os_used = True\<rparr>"

lemma raw_submit:
  assumes "oq_slot (w_output w) = map raw_slot ds @ xs @ slots" "\<forall>sl \<in> set xs. \<not> os_used sl" "xs \<noteq> []"
    and "length ds + length (xs @ slots) = 16"
  shows "oq_slot (w_output (snd (comm_output_submit CCSDS_CLASS_SCIENCE_RAW (Some d) 1 w))) =
    map raw_slot ds @ raw_slot d # tl xs @ slots"
proof -
  obtain x ys where xs: "xs = x # ys" "\<not> os_used x" using assms(2,3) by (cases xs) auto
  have "find (\<lambda>i. \<not> os_used (oq_slot (w_output w) ! i)) [0..<COMM_OUTPUT_DEPTH] = Some (length ds)"
    unfolding find_Some_iff using assms(1,4) xs
    by (intro exI [of _ "length ds"]) (auto simp: COMM_OUTPUT_DEPTH_def nth_append raw_slot_def)
  then show ?thesis
    using assms(1) xs
    by (simp add: comm_output_submit_def OUTPUT_PACKET_BYTES_def ccsds_consts output_fill_def raw_slot_def Let_def
        list_update_append)
qed

lemma output_reuse_order:
  assumes "oq_slot (w_output w) = replicate 16 output_slot0"
  shows "let w = snd (comm_output_submit CCSDS_CLASS_SCIENCE_RAW (Some 1) 1 w);
      w = snd (comm_output_submit CCSDS_CLASS_SCIENCE_RAW (Some 2) 1 w);
      w = output_upd (output_free (pick (oq_slot (w_output w)))) w;
      w = snd (comm_output_submit CCSDS_CLASS_SCIENCE_RAW (Some 3) 1 w)
    in map (\<lambda>i. os_data (oq_slot (w_output w) ! i)) (output_order (oq_slot (w_output w))) = [3, 2]"
proof -
  define u where "u = snd (comm_output_submit CCSDS_CLASS_SCIENCE_RAW (Some 1) 1 w)"
  define v where "v = snd (comm_output_submit CCSDS_CLASS_SCIENCE_RAW (Some 2) 1 u)"
  define x where "x = output_upd (output_free (pick (oq_slot (w_output v)))) v"
  define y where "y = snd (comm_output_submit CCSDS_CLASS_SCIENCE_RAW (Some 3) 1 x)"
  let ?rest = "replicate 14 output_slot0"
  have free: "\<not> os_used output_slot0" by (simp add: output_slot0_def)
  have u: "oq_slot (w_output u) = [raw_slot 1] @ (output_slot0 # ?rest)"
    unfolding u_def using raw_submit [of w "[]" "replicate 16 output_slot0" "[]" 1] assms free
    by (simp add: numeral_eq_Suc)
  have v: "oq_slot (w_output v) = [raw_slot 1, raw_slot 2] @ ?rest"
    unfolding v_def using raw_submit [of u "[1]" "output_slot0 # ?rest" "[]" 2] u free by simp
  have "pick (oq_slot (w_output v)) = 0"
  proof -
    have l: "length (oq_slot (w_output v)) = COMM_OUTPUT_DEPTH" by (simp add: v COMM_OUTPUT_DEPTH_def)
    have sel: "filter (\<lambda>i. os_used (oq_slot (w_output v) ! i)) [0..<COMM_OUTPUT_DEPTH] = [0, 1]"
      unfolding v COMM_OUTPUT_DEPTH_def by (simp add: upt_rec nth_Cons' raw_slot_def free)
    have "output_order (oq_slot (w_output v)) = [0, 1]"
      unfolding output_order_def sel by (simp add: v raw_slot_def)
    then show ?thesis using l by (subst pick_order) (auto simp: v raw_slot_def free)
  qed
  then have x: "oq_slot (w_output x) = [] @ [(raw_slot 1)\<lparr>os_used := False\<rparr>] @ raw_slot 2 # ?rest"
    by (simp add: x_def output_free_def v)
  have y: "oq_slot (w_output y) = [raw_slot 3, raw_slot 2] @ ?rest"
    unfolding y_def using raw_submit [of x "[]" "[(raw_slot 1)\<lparr>os_used := False\<rparr>]" "raw_slot 2 # ?rest" 3] x by simp
  have "filter (\<lambda>i. os_used (oq_slot (w_output y) ! i)) [0..<COMM_OUTPUT_DEPTH] = [0, 1]"
    unfolding y COMM_OUTPUT_DEPTH_def by (simp add: upt_rec nth_Cons' raw_slot_def free)
  then have "output_order (oq_slot (w_output y)) = [0, 1]"
    unfolding output_order_def by (simp add: y raw_slot_def)
  then show ?thesis
    unfolding Let_def u_def [symmetric] v_def [symmetric] x_def [symmetric] y_def [symmetric]
    by (simp add: y raw_slot_def)
qed

text \<open>Building a packet takes a sequence number even when the link then refuses it, and the packet
  is built again on the next pass: the receiver sees a gap although nothing was lost.\<close>

lemma output_retry_skips_count:
  assumes "\<forall>h c bs w. w_ccsds (snd (se_send (oe_spw E) h c bs w)) = w_ccsds w"
    and "output_turn E i w = (False, v)"
  shows "cc_tx_count (w_ccsds v) (os_cls (oq_slot (w_output w) ! i)) =
    (cc_tx_count (w_ccsds w) (os_cls (oq_slot (w_output w) ! i)) + 1) AND CCSDS_SEQ_COUNT_MAX"
proof -
  let ?slot = "oq_slot (w_output w) ! i"
  obtain st packet written u where b: "comm_ccsds_build (os_cls ?slot) (Some (oe_bytes E (os_data ?slot) w)) (os_len ?slot)
      (Some (oq_packet (w_output w))) OUTPUT_PACKET_BYTES w = (st, packet, written, u)" by (rule prod_cases4)
  have st: "st = QIRAN_OK" using assms(2) b by (auto simp: output_turn_def Let_def split: if_splits)
  have u: "w_ccsds u = ccsds_sent_one (os_cls ?slot) (w_ccsds w)"
    using b st by (auto simp: comm_ccsds_build_def ccsds_sent_one_def Let_def split: prod.splits if_splits)
  have r: "w_ccsds (svc_fdir_report fl d t) = w_ccsds t" "w_ccsds (spw_upd g t) = w_ccsds t"
    "w_ccsds (output_upd h t) = w_ccsds t" for fl d g h and t :: "'a output_world_scheme"
    by (simp_all add: svc_fdir_report_eq spw_upd_def output_upd_def)
  have k: "w_ccsds (snd (comm_spw_link_send (oe_spw E) d n t)) = w_ccsds t" for d n and t :: "'a output_world_scheme"
    using assms(1) by (auto simp: comm_spw_link_send_def r Let_def split: prod.splits) (metis snd_conv)+
  have "w_ccsds v = w_ccsds u"
    using assms(2) b st k [of "Some (the packet)" "the written" "output_upd (\<lambda>s. s\<lparr>oq_packet := the packet\<rparr>) u"]
    by (auto simp: output_turn_def r Let_def split: prod.splits if_splits)
  then show ?thesis using u by (simp add: ccsds_sent_one_def)
qed

text \<open>The length check wraps: a length just below the word's limit is queued.\<close>

lemma output_submit_length_wraps:
  assumes "find (\<lambda>i. \<not> os_used (oq_slot (w_output w) ! i)) [0..<COMM_OUTPUT_DEPTH] \<noteq> None"
  shows "fst (comm_output_submit CCSDS_CLASS_FILE (Some 1) 0xFFFFFFFD w) = QIRAN_OK"
  using assms by (auto simp: comm_output_submit_def OUTPUT_PACKET_BYTES_def ccsds_consts)

end
