(* ===== verification/Comm_Rs485_Hk.thy ===== *)
theory Comm_Rs485_Hk
  imports Comm_Output
begin

section \<open>The housekeeping link: \<^verbatim>\<open>src/comm/comm_rs485_hk.c\<close>\<close>

text \<open>
  The periodic housekeeping frame and the status frames that carry faults to the observer. The
  board sampler and the transmitter are registered from outside and interpreted by the environment
  record. The module is also the uplink of the fault service: its two functions, with the
  transmitter given, make an environment of that service.
\<close>

definition COMM_HK_PACKET_ID :: u8 where "COMM_HK_PACKET_ID = 0xA5"
definition COMM_HK_STATUS_ID :: u8 where "COMM_HK_STATUS_ID = 0xA6"
definition COMM_HK_PACKET_VERSION :: u8 where "COMM_HK_PACKET_VERSION = 1"
definition COMM_HK_FRAME_BYTES :: u32 where "COMM_HK_FRAME_BYTES = 56"
definition COMM_HK_STATUS_BYTES :: u32 where "COMM_HK_STATUS_BYTES = 20"
definition COMM_HK_RAILS :: nat where "COMM_HK_RAILS = 5"
definition COMM_HK_BOARD_SENSORS :: nat where "COMM_HK_BOARD_SENSORS = 2"
definition COMM_HK_INTERLOCKS :: nat where "COMM_HK_INTERLOCKS = 5"
definition COMM_HK_PL_ERROR_BYTES :: nat where "COMM_HK_PL_ERROR_BYTES = 8"

lemmas hk_consts = COMM_HK_PACKET_ID_def COMM_HK_STATUS_ID_def COMM_HK_PACKET_VERSION_def
  COMM_HK_FRAME_BYTES_def COMM_HK_STATUS_BYTES_def COMM_HK_RAILS_def COMM_HK_BOARD_SENSORS_def
  COMM_HK_INTERLOCKS_def COMM_HK_PL_ERROR_BYTES_def

record comm_hk_sample =
  hs_rail_mv :: "u16 list"
  hs_ps_temp_c100 :: i16
  hs_board_temp_c100 :: "i16 list"
  hs_ddr_temp_c100 :: i16
  hs_ps_clock_hz :: u32
  hs_pl_clock_hz :: u32
  hs_por_status :: u8
  hs_pl_config_done :: u8
  hs_overcurrent_flags :: u8
  hs_brownout_flags :: u8
  hs_pl_error :: "u8 list"
  hs_boot_mode :: u8

datatype comm_interlock_status = COMM_INTERLOCK_UNEVALUATED | COMM_INTERLOCK_PASS | COMM_INTERLOCK_FAIL

fun interlock_code :: "comm_interlock_status \<Rightarrow> u8" where
  "interlock_code COMM_INTERLOCK_UNEVALUATED = 0"
| "interlock_code COMM_INTERLOCK_PASS = 1"
| "interlock_code COMM_INTERLOCK_FAIL = 2"

fun payload_code :: "qiran_payload_status \<Rightarrow> u8" where
  "payload_code QIRAN_PAYLOAD_NON_OPERATIONAL = 0"
| "payload_code QIRAN_PAYLOAD_OPERATIONAL = 1"

record comm_status_report =
  sr_payload :: qiran_payload_status
  sr_health :: qiran_health
  sr_interlock :: "comm_interlock_status list"
  sr_fault :: qiran_fault_id
  sr_severity :: qiran_severity

record hk_state =
  hk_sample :: "handle option"
  hk_sample_ctx :: "handle option"
  hk_tx :: "handle option"
  hk_tx_ctx :: "handle option"
  hk_interlock :: "comm_interlock_status list"
  hk_frames :: u32
  hk_status_frames :: u32
  hk_tx_failures :: u32
  hk_sample_failures :: u32
  hk_last_attempt_ms :: u64
  hk_attempted :: bool
  hk_frame :: "u8 list"
  hk_staged :: u32
  hk_status :: "u8 list"

record hk_world = output_world +
  w_hk :: hk_state

record 'w hk_env =
  hke_sample :: "handle \<Rightarrow> handle option \<Rightarrow> comm_hk_sample \<Rightarrow> 'w \<Rightarrow> qiran_status \<times> comm_hk_sample \<times> 'w"
  hke_tx :: "handle \<Rightarrow> handle option \<Rightarrow> u8 list \<Rightarrow> 'w \<Rightarrow> qiran_status \<times> 'w"

definition hk_upd :: "(hk_state \<Rightarrow> hk_state) \<Rightarrow> 'a hk_world_scheme \<Rightarrow> 'a hk_world_scheme" where
  "hk_upd f w = w\<lparr>w_hk := f (w_hk w)\<rparr>"

definition comm_rs485_hk_init :: "'a hk_world_scheme \<Rightarrow> 'a hk_world_scheme" where
  "comm_rs485_hk_init = hk_upd (\<lambda>s. s\<lparr>hk_sample := None, hk_sample_ctx := None, hk_tx := None, hk_tx_ctx := None,
     hk_frames := 0, hk_status_frames := 0, hk_tx_failures := 0, hk_sample_failures := 0,
     hk_last_attempt_ms := 0, hk_attempted := False, hk_staged := 0,
     hk_interlock := map (\<lambda>_. COMM_INTERLOCK_UNEVALUATED) [0..<COMM_HK_INTERLOCKS]\<rparr>)"

definition comm_rs485_hk_set_sampler ::
  "handle option \<Rightarrow> handle option \<Rightarrow> 'a hk_world_scheme \<Rightarrow> qiran_status \<times> 'a hk_world_scheme" where
  "comm_rs485_hk_set_sampler sample ctx w =
    (QIRAN_OK, hk_upd (\<lambda>s. s\<lparr>hk_sample := sample, hk_sample_ctx := ctx\<rparr>) w)"

definition comm_rs485_hk_set_transmit ::
  "handle option \<Rightarrow> handle option \<Rightarrow> 'a hk_world_scheme \<Rightarrow> qiran_status \<times> 'a hk_world_scheme" where
  "comm_rs485_hk_set_transmit transmit ctx w =
    (QIRAN_OK, hk_upd (\<lambda>s. s\<lparr>hk_tx := transmit, hk_tx_ctx := ctx\<rparr>) w)"

definition comm_rs485_hk_set_interlock ::
  "u32 \<Rightarrow> comm_interlock_status \<Rightarrow> 'a hk_world_scheme \<Rightarrow> 'a hk_world_scheme" where
  "comm_rs485_hk_set_interlock index status w =
    (if unat index < COMM_HK_INTERLOCKS
     then hk_upd (\<lambda>s. s\<lparr>hk_interlock := (hk_interlock s)[unat index := status]\<rparr>) w else w)"

definition zero_sample :: comm_hk_sample where
  "zero_sample = \<lparr>hs_rail_mv = replicate COMM_HK_RAILS 0, hs_ps_temp_c100 = 0,
     hs_board_temp_c100 = replicate COMM_HK_BOARD_SENSORS 0, hs_ddr_temp_c100 = 0, hs_ps_clock_hz = 0,
     hs_pl_clock_hz = 0, hs_por_status = 0, hs_pl_config_done = 0, hs_overcurrent_flags = 0,
     hs_brownout_flags = 0, hs_pl_error = replicate COMM_HK_PL_ERROR_BYTES 0, hs_boot_mode = 0\<rparr>"

text \<open>The first part of the build: the sample, or zeros, and the report of a failed sampling.\<close>

definition hk_take_sample ::
  "'a hk_world_scheme hk_env \<Rightarrow> 'a hk_world_scheme \<Rightarrow> comm_hk_sample \<times> 'a hk_world_scheme" where
  "hk_take_sample E w =
    (let (sampled, sample, w) =
           (case hk_sample (w_hk w) of
              None \<Rightarrow> (False, zero_sample, w)
            | Some fn \<Rightarrow>
                (let (st, sample, w) = hke_sample E fn (hk_sample_ctx (w_hk w)) zero_sample w
                 in if st = QIRAN_OK then (True, sample, w) else (False, zero_sample, w)))
     in if sampled then (sample, w)
        else (let w = hk_upd (\<lambda>s. s\<lparr>hk_sample_failures := hk_sample_failures s + 1\<rparr>) w
              in (sample, svc_fdir_report QIRAN_FAULT_HK_SAMPLE (if hk_sample (w_hk w) = None then 0 else 1) w)))"

definition comm_rs485_hk_build ::
  "'a hk_world_scheme hk_env \<Rightarrow> u8 list option \<Rightarrow> u32 \<Rightarrow> 'a hk_world_scheme \<Rightarrow>
   qiran_status \<times> u8 list option \<times> u32 option \<times> 'a hk_world_scheme" where
  "comm_rs485_hk_build E buf len w =
    (case buf of
       None \<Rightarrow> (QIRAN_ERR_PARAM, buf, None, w)
     | Some bs \<Rightarrow>
         if len < COMM_HK_FRAME_BYTES then (QIRAN_ERR_PARAM, buf, None, w)
         else (let (sample, w) = hk_take_sample E w;
                   p = emit comm_put_u8 COMM_HK_PACKET_ID (bs, 0);
                   p = emit comm_put_u8 COMM_HK_PACKET_VERSION p;
                   (now, w) = svc_time_now_ms w;
                   p = emit comm_put_u32 (ucast now) p;
                   p = emit_all comm_put_u16 (hs_rail_mv sample) p;
                   p = emit comm_put_i16 (hs_ps_temp_c100 sample) p;
                   p = emit_all comm_put_i16 (hs_board_temp_c100 sample) p;
                   p = emit comm_put_i16 (hs_ddr_temp_c100 sample) p;
                   p = emit comm_put_u32 (hs_ps_clock_hz sample) p;
                   p = emit comm_put_u32 (hs_pl_clock_hz sample) p;
                   p = emit comm_put_u8 (hs_por_status sample) p;
                   p = emit comm_put_u8 (hs_pl_config_done sample) p;
                   p = emit comm_put_u8 (if svc_watchdog_armed w then 1 else 0) p;
                   p = emit comm_put_u8 (hs_overcurrent_flags sample) p;
                   p = emit comm_put_u8 (hs_brownout_flags sample) p;
                   p = emit_all comm_put_u8 (hs_pl_error sample) p;
                   p = emit comm_put_u8 (hs_boot_mode sample) p;
                   (now, w) = svc_time_now_ms w;
                   p = emit comm_put_u32 (ucast (now div 1000)) p;
                   faults = svc_log_fault_total w;
                   p = emit comm_put_u16 (if 0xFFFF < faults then 0xFFFF else ucast faults) p;
                   p = emit comm_put_u32 (crc32 (take (unat (snd p)) (fst p))) p
               in (if snd p = COMM_HK_FRAME_BYTES then QIRAN_OK else QIRAN_ERR_INTEGRITY,
                   Some (fst p), Some (snd p), w)))"

definition comm_rs485_status_build ::
  "comm_status_report option \<Rightarrow> u8 list option \<Rightarrow> u32 \<Rightarrow> 'a hk_world_scheme \<Rightarrow>
   qiran_status \<times> u8 list option \<times> u32 option \<times> 'a hk_world_scheme" where
  "comm_rs485_status_build report buf len w =
    (case (report, buf) of
       (Some r, Some bs) \<Rightarrow>
         if len < COMM_HK_STATUS_BYTES then (QIRAN_ERR_PARAM, buf, None, w)
         else (let p = emit comm_put_u8 COMM_HK_STATUS_ID (bs, 0);
                   p = emit comm_put_u8 COMM_HK_PACKET_VERSION p;
                   (now, w) = svc_time_now_ms w;
                   p = emit comm_put_u32 (ucast now) p;
                   p = emit comm_put_u8 (payload_code (sr_payload r)) p;
                   p = emit comm_put_u8 (ucast (health_code (sr_health r))) p;
                   p = emit_all comm_put_u8 (map interlock_code (sr_interlock r)) p;
                   p = emit comm_put_u16 (of_nat (fault_idx (sr_fault r))) p;
                   p = emit comm_put_u8 (of_nat (severity_idx (sr_severity r))) p;
                   p = emit comm_put_u32 (crc32 (take (unat (snd p)) (fst p))) p
               in (if snd p = COMM_HK_STATUS_BYTES then QIRAN_OK else QIRAN_ERR_INTEGRITY,
                   Some (fst p), Some (snd p), w))
     | _ \<Rightarrow> (QIRAN_ERR_PARAM, buf, None, w))"

definition hk_send ::
  "'a hk_world_scheme hk_env \<Rightarrow> u8 list \<Rightarrow> 'a hk_world_scheme \<Rightarrow> qiran_status \<times> 'a hk_world_scheme" where
  "hk_send E data w =
    (case hk_tx (w_hk w) of
       None \<Rightarrow> (QIRAN_ERR_UNSUPPORTED, svc_fdir_report QIRAN_FAULT_HK_TRANSMIT 0
                  (hk_upd (\<lambda>s. s\<lparr>hk_tx_failures := hk_tx_failures s + 1\<rparr>) w))
     | Some tx \<Rightarrow>
         (let (st, w) = hke_tx E tx (hk_tx_ctx (w_hk w)) data w
          in if st \<noteq> QIRAN_OK
             then (st, svc_fdir_report QIRAN_FAULT_HK_TRANSMIT (status_code st)
                    (hk_upd (\<lambda>s. s\<lparr>hk_tx_failures := hk_tx_failures s + 1\<rparr>) w))
             else (st, w)))"

definition comm_rs485_hk_stage :: "'a hk_world_scheme hk_env \<Rightarrow> 'a hk_world_scheme \<Rightarrow> 'a hk_world_scheme" where
  "comm_rs485_hk_stage E w =
    (let (now, w) = svc_time_now_ms w;
         period = svc_config_get CFG_HK_PERIOD_MS w
     in if hk_attempted (w_hk w) \<and> now - hk_last_attempt_ms (w_hk w) < ucast period then w
        else (let w = hk_upd (\<lambda>s. s\<lparr>hk_last_attempt_ms := now, hk_attempted := True\<rparr>) w;
                  (st, frame, written, w) = comm_rs485_hk_build E (Some (hk_frame (w_hk w))) COMM_HK_FRAME_BYTES w;
                  w = hk_upd (\<lambda>s. s\<lparr>hk_frame := the frame\<rparr>) w
              in if st = QIRAN_OK then hk_upd (\<lambda>s. s\<lparr>hk_staged := the written\<rparr>) w else w))"

definition comm_rs485_hk_transmit :: "'a hk_world_scheme hk_env \<Rightarrow> 'a hk_world_scheme \<Rightarrow> 'a hk_world_scheme" where
  "comm_rs485_hk_transmit E w =
    (if hk_staged (w_hk w) = 0 then w
     else (let (st, w) = hk_send E (take (unat (hk_staged (w_hk w))) (hk_frame (w_hk w))) w;
               w = (if st = QIRAN_OK then hk_upd (\<lambda>s. s\<lparr>hk_frames := hk_frames s + 1\<rparr>) w else w)
           in hk_upd (\<lambda>s. s\<lparr>hk_staged := 0\<rparr>) w))"

definition comm_rs485_status_send ::
  "'a hk_world_scheme hk_env \<Rightarrow> comm_status_report option \<Rightarrow> 'a hk_world_scheme \<Rightarrow> qiran_status \<times> 'a hk_world_scheme" where
  "comm_rs485_status_send E report w =
    (let (st, buf, written, w) = comm_rs485_status_build report (Some (hk_status (w_hk w))) COMM_HK_STATUS_BYTES w;
         w = hk_upd (\<lambda>s. s\<lparr>hk_status := the buf\<rparr>) w
     in if st \<noteq> QIRAN_OK then (st, w)
        else (let (st, w) = hk_send E (take (unat (the written)) (hk_status (w_hk w))) w
              in (st, if st = QIRAN_OK then hk_upd (\<lambda>s. s\<lparr>hk_status_frames := hk_status_frames s + 1\<rparr>) w else w)))"

subsection \<open>Delivery of faults over this link\<close>

text \<open>The current state of the payload, completed by the fault and its severity.\<close>

definition fill_current :: "qiran_fault_id \<Rightarrow> qiran_severity \<Rightarrow> 'a hk_world_scheme \<Rightarrow> comm_status_report" where
  "fill_current fault severity w =
    \<lparr>sr_payload = mission_payload_status w, sr_health = svc_health_state w,
     sr_interlock = hk_interlock (w_hk w), sr_fault = fault, sr_severity = severity\<rparr>"

definition uplink_report ::
  "'a hk_world_scheme hk_env \<Rightarrow> qiran_fault_id \<Rightarrow> qiran_severity \<Rightarrow> u32 \<Rightarrow> 'a hk_world_scheme \<Rightarrow>
   qiran_status \<times> 'a hk_world_scheme" where
  "uplink_report E f severity detail w = comm_rs485_status_send E (Some (fill_current f severity w)) w"

definition uplink_power_reset ::
  "'a hk_world_scheme hk_env \<Rightarrow> qiran_fault_id \<Rightarrow> 'a hk_world_scheme \<Rightarrow> qiran_status \<times> 'a hk_world_scheme" where
  "uplink_power_reset E f w = comm_rs485_status_send E (Some (fill_current f QIRAN_SEV_SEVERE w)) w"

text \<open>The uplink handed to the fault service: two handles, and what they stand for there.\<close>

definition k_uplink :: svc_fdir_uplink where
  "k_uplink = \<lparr>fu_report_flag = Some 0, fu_request_power_reset = Some 1\<rparr>"

definition comm_rs485_hk_uplink :: "svc_fdir_uplink option" where
  "comm_rs485_hk_uplink = Some k_uplink"

definition hk_fdir_env :: "'a hk_world_scheme hk_env \<Rightarrow> 'a hk_world_scheme fdir_env" where
  "hk_fdir_env E = \<lparr>fe_report_flag = (\<lambda>_. uplink_report E), fe_request_power_reset = (\<lambda>_. uplink_power_reset E)\<rparr>"

definition comm_rs485_hk_frames_sent :: "'a hk_world_scheme \<Rightarrow> u32" where
  "comm_rs485_hk_frames_sent w = hk_frames (w_hk w)"

definition comm_rs485_hk_status_sent :: "'a hk_world_scheme \<Rightarrow> u32" where
  "comm_rs485_hk_status_sent w = hk_status_frames (w_hk w)"

definition comm_rs485_hk_transmit_failures :: "'a hk_world_scheme \<Rightarrow> u32" where
  "comm_rs485_hk_transmit_failures w = hk_tx_failures (w_hk w)"

definition comm_rs485_hk_sample_failures :: "'a hk_world_scheme \<Rightarrow> u32" where
  "comm_rs485_hk_sample_failures w = hk_sample_failures (w_hk w)"

definition comm_rs485_hk_ready :: "'a hk_world_scheme \<Rightarrow> bool" where
  "comm_rs485_hk_ready w \<longleftrightarrow> hk_tx (w_hk w) \<noteq> None"


subsection \<open>The frames\<close>

definition hk_shape :: "comm_hk_sample \<Rightarrow> bool" where
  "hk_shape s \<longleftrightarrow> length (hs_rail_mv s) = COMM_HK_RAILS \<and> length (hs_board_temp_c100 s) = COMM_HK_BOARD_SENSORS \<and>
     length (hs_pl_error s) = COMM_HK_PL_ERROR_BYTES"

definition hk_body :: "comm_hk_sample \<Rightarrow> u64 \<Rightarrow> bool \<Rightarrow> u32 \<Rightarrow> u8 list" where
  "hk_body s now armed faults =
    [COMM_HK_PACKET_ID, COMM_HK_PACKET_VERSION] @ be32 (ucast now) @
    concat (map be16 (hs_rail_mv s)) @ be16 (hs_ps_temp_c100 s) @ concat (map be16 (hs_board_temp_c100 s)) @
    be16 (hs_ddr_temp_c100 s) @ be32 (hs_ps_clock_hz s) @ be32 (hs_pl_clock_hz s) @
    [hs_por_status s, hs_pl_config_done s, if armed then 1 else 0, hs_overcurrent_flags s, hs_brownout_flags s] @
    hs_pl_error s @ [hs_boot_mode s] @ be32 (ucast (now div 1000)) @
    be16 (if 0xFFFF < faults then 0xFFFF else ucast faults)"

definition with_crc :: "u8 list \<Rightarrow> u8 list" where
  "with_crc body = body @ be32 (crc32 body)"

lemma length_concat_map: "(\<And>v. length (f v) = k) \<Longrightarrow> length (concat (map f vs)) = k * length vs"
  by (induction vs) simp_all

lemma concat_singles_map: "concat (map ((\<lambda>v. [v]) \<circ> f) vs) = map f vs"
  by (induction vs) simp_all

lemma concat_singles: "concat (map (\<lambda>v. [v]) vs) = vs"
  by (induction vs) simp_all

lemma length_hk_body:
  assumes "hk_shape s"
  shows "length (hk_body s now armed faults) = 52"
  using assms by (simp add: hk_body_def hk_shape_def hk_consts length_concat_map [of be16 2])

text \<open>Reading the clock twice at one tick gives one time.\<close>

lemma time_now_again: "svc_time_now_ms (snd (svc_time_now_ms w)) = svc_time_now_ms w"
  by (simp add: svc_time_now_ms_def exec_raw_tick_count_def Let_def)

lemma time_now_frame:
  "w_hk (snd (svc_time_now_ms w)) = w_hk w" "w_fdir (snd (svc_time_now_ms w)) = w_fdir w"
  "w_log (snd (svc_time_now_ms w)) = w_log w" "w_config (snd (svc_time_now_ms w)) = w_config w"
  "w_exec (snd (svc_time_now_ms w)) = w_exec w" "w_health (snd (svc_time_now_ms w)) = w_health w"
  "w_mission (snd (svc_time_now_ms w)) = w_mission w" "w_watchdog (snd (svc_time_now_ms w)) = w_watchdog w"
  for w :: "'a hk_world_scheme"
  by (simp_all add: svc_time_now_ms_def Let_def)

lemmas emit_steps = u8_field.emit_cursor u16_field.emit_cursor i16_field.emit_cursor u32_field.emit_cursor
  u8_field.emit_all_cursor u16_field.emit_all_cursor i16_field.emit_all_cursor

lemma hk_build_frame:
  assumes "56 \<le> length bs" "length bs < 4294967296" "56 \<le> len" "hk_take_sample E w = (sample, v)" "hk_shape sample"
  shows "comm_rs485_hk_build E (Some bs) len w = (QIRAN_OK,
    Some (with_crc (hk_body sample (fst (svc_time_now_ms v)) (svc_watchdog_armed v) (svc_log_fault_total v)) @ drop 56 bs),
    Some 56, snd (svc_time_now_ms v))"
proof -
  obtain now u where t: "svc_time_now_ms v = (now, u)" by (rule prod.exhaust)
  have t2: "svc_time_now_ms u = (now, u)" using time_now_again [of v] t by simp
  have same: "svc_watchdog_armed u = svc_watchdog_armed v" "svc_log_fault_total u = svc_log_fault_total v"
    using time_now_frame [of v] t by (simp_all add: svc_watchdog_armed_def svc_log_fault_total_def)
  let ?body = "hk_body sample now (svc_watchdog_armed v) (svc_log_fault_total v)"
  have l: "length ?body = 52" by (rule length_hk_body [OF assms(5)])
  have n: "\<not> len < COMM_HK_FRAME_BYTES" using assms(3) by (simp add: COMM_HK_FRAME_BYTES_def)
  note sh = assms(5) [unfolded hk_shape_def hk_consts]
  have chain: "emit comm_put_u16 (if 0xFFFF < svc_log_fault_total v then 0xFFFF else ucast (svc_log_fault_total v))
     (emit comm_put_u32 (ucast (now div 1000)) (emit comm_put_u8 (hs_boot_mode sample)
     (emit_all comm_put_u8 (hs_pl_error sample) (emit comm_put_u8 (hs_brownout_flags sample)
     (emit comm_put_u8 (hs_overcurrent_flags sample) (emit comm_put_u8 (if svc_watchdog_armed v then 1 else 0)
     (emit comm_put_u8 (hs_pl_config_done sample) (emit comm_put_u8 (hs_por_status sample)
     (emit comm_put_u32 (hs_pl_clock_hz sample) (emit comm_put_u32 (hs_ps_clock_hz sample)
     (emit comm_put_i16 (hs_ddr_temp_c100 sample) (emit_all comm_put_i16 (hs_board_temp_c100 sample)
     (emit comm_put_i16 (hs_ps_temp_c100 sample) (emit_all comm_put_u16 (hs_rail_mv sample)
     (emit comm_put_u32 (ucast now) (emit comm_put_u8 COMM_HK_PACKET_VERSION
     (emit comm_put_u8 COMM_HK_PACKET_ID (bs, 0)))))))))))))))))) = cursor bs ?body"
    using assms(1,2) sh
    by (simp add: cursor_start emit_steps length_concat_map [of be16 2] concat_singles hk_body_def del: if_split)
  have last: "emit comm_put_u32 (crc32 ?body) (cursor bs ?body) = cursor bs (with_crc ?body)"
    using assms(1,2) l by (simp add: u32_field.emit_cursor with_crc_def)
  have w: "take (unat (snd (cursor bs ?body))) (fst (cursor bs ?body)) = ?body"
    using l by (intro cursor_written) simp
  have c: "cursor bs (with_crc ?body) = (with_crc ?body @ drop 56 bs, 56)"
    using l by (simp add: cursor_def with_crc_def)
  show ?thesis
    unfolding comm_rs485_hk_build_def option.case
    by (simp only: n if_False assms(4) Let_def prod.case t t2 same chain w last c fst_conv snd_conv)
      (simp add: COMM_HK_FRAME_BYTES_def)
qed

definition status_body :: "comm_status_report \<Rightarrow> u64 \<Rightarrow> u8 list" where
  "status_body r now =
    [COMM_HK_STATUS_ID, COMM_HK_PACKET_VERSION] @ be32 (ucast now) @
    [payload_code (sr_payload r), ucast (health_code (sr_health r))] @ map interlock_code (sr_interlock r) @
    be16 (of_nat (fault_idx (sr_fault r))) @ [of_nat (severity_idx (sr_severity r))]"

lemma status_build_frame:
  assumes "20 \<le> length bs" "length bs < 4294967296" "20 \<le> len" "length (sr_interlock r) = COMM_HK_INTERLOCKS"
  shows "comm_rs485_status_build (Some r) (Some bs) len w = (QIRAN_OK,
    Some (with_crc (status_body r (fst (svc_time_now_ms w))) @ drop 20 bs), Some 20, snd (svc_time_now_ms w))"
proof -
  obtain now u where t: "svc_time_now_ms w = (now, u)" by (rule prod.exhaust)
  let ?body = "status_body r now"
  note il = assms(4) [unfolded hk_consts]
  have l: "length ?body = 16" by (simp add: status_body_def il)
  have n: "\<not> len < COMM_HK_STATUS_BYTES" using assms(3) by (simp add: COMM_HK_STATUS_BYTES_def)
  have chain: "emit comm_put_u8 (of_nat (severity_idx (sr_severity r)))
     (emit comm_put_u16 (of_nat (fault_idx (sr_fault r))) (emit_all comm_put_u8 (map interlock_code (sr_interlock r))
     (emit comm_put_u8 (ucast (health_code (sr_health r))) (emit comm_put_u8 (payload_code (sr_payload r))
     (emit comm_put_u32 (ucast now) (emit comm_put_u8 COMM_HK_PACKET_VERSION
     (emit comm_put_u8 COMM_HK_STATUS_ID (bs, 0)))))))) = cursor bs ?body"
    using assms(1,2) il by (simp add: cursor_start emit_steps concat_singles_map status_body_def)
  have last: "emit comm_put_u32 (crc32 ?body) (cursor bs ?body) = cursor bs (with_crc ?body)"
    using assms(1,2) l by (simp add: u32_field.emit_cursor with_crc_def)
  have w: "take (unat (snd (cursor bs ?body))) (fst (cursor bs ?body)) = ?body"
    using l by (intro cursor_written) simp
  have c: "cursor bs (with_crc ?body) = (with_crc ?body @ drop 20 bs, 20)"
    using l by (simp add: cursor_def with_crc_def)
  show ?thesis
    unfolding comm_rs485_status_build_def prod.case option.case
    by (simp only: n if_False Let_def t prod.case chain w last c fst_conv snd_conv)
      (simp add: COMM_HK_STATUS_BYTES_def)
qed

subsection \<open>Sending\<close>

text \<open>What the module relies on: the sampler fills a sample of the right shape, and neither it nor the
  transmitter touches this module, the clock or the configuration.\<close>

definition hk_leaves :: "'a hk_world_scheme \<Rightarrow> 'a hk_world_scheme \<Rightarrow> bool" where
  "hk_leaves w v \<longleftrightarrow> w_hk v = w_hk w \<and> w_time v = w_time w \<and> w_exec v = w_exec w \<and> w_config v = w_config w"

definition hk_env_ok :: "'a hk_world_scheme hk_env \<Rightarrow> bool" where
  "hk_env_ok E \<longleftrightarrow>
    (\<forall>h c s w. hk_shape (fst (snd (hke_sample E h c s w))) \<and> hk_leaves w (snd (snd (hke_sample E h c s w)))) \<and>
    (\<forall>h c bs w. hk_leaves w (snd (hke_tx E h c bs w)))"

definition hk_ok :: "hk_state \<Rightarrow> bool" where
  "hk_ok s \<longleftrightarrow> length (hk_frame s) = 56 \<and> length (hk_status s) = 20 \<and> length (hk_interlock s) = COMM_HK_INTERLOCKS"

lemma hk_env_cases:
  assumes "hk_env_ok E"
  shows "hke_sample E h c s w = (st, s1, v) \<Longrightarrow> hk_shape s1 \<and> hk_leaves w v"
    and "hke_tx E h c bs w = (st, v) \<Longrightarrow> hk_leaves w v"
proof -
  have k: "hk_shape (fst (snd (hke_sample E h c s w)))" "hk_leaves w (snd (snd (hke_sample E h c s w)))"
    "hk_leaves w (snd (hke_tx E h c bs w))"
    using assms by (simp_all add: hk_env_ok_def)
  show "hke_sample E h c s w = (st, s1, v) \<Longrightarrow> hk_shape s1 \<and> hk_leaves w v" "hke_tx E h c bs w = (st, v) \<Longrightarrow> hk_leaves w v"
    using k by simp_all
qed

lemma hk_upd_fields [simp]:
  "w_hk (hk_upd f w) = f (w_hk w)" "w_hk (svc_fdir_report fl d w) = w_hk w"
  "w_time (hk_upd f w) = w_time w" "w_time (svc_fdir_report fl d v) = w_time v"
  "w_exec (hk_upd f w) = w_exec w" "w_exec (svc_fdir_report fl d v) = w_exec v"
  "w_config (hk_upd f w) = w_config w" "w_fdir (hk_upd f w) = w_fdir w" "w_log (hk_upd f w) = w_log w"
  for w :: "'a hk_world_scheme"
  by (simp_all add: hk_upd_def svc_fdir_report_eq)

lemma zero_sample_shape: "hk_shape zero_sample"
  by (simp add: hk_shape_def zero_sample_def)

lemma take_sample_facts:
  assumes "hk_env_ok E" "hk_take_sample E w = (sample, v)"
  shows "hk_shape sample" "\<exists>n. w_hk v = (w_hk w)\<lparr>hk_sample_failures := n\<rparr>"
    "w_time v = w_time w" "w_exec v = w_exec w" "w_config v = w_config w"
proof -
  have n: "\<exists>n. w_hk w = (w_hk w)\<lparr>hk_sample_failures := n\<rparr>" for w :: "'a hk_world_scheme"
    by (intro exI [of _ "hk_sample_failures (w_hk w)"]) simp
  have "hk_shape sample \<and> (\<exists>n. w_hk v = (w_hk w)\<lparr>hk_sample_failures := n\<rparr>) \<and>
    w_time v = w_time w \<and> w_exec v = w_exec w \<and> w_config v = w_config w"
  proof (cases "hk_sample (w_hk w)")
    case None
    then show ?thesis using assms(2) zero_sample_shape by (auto simp: hk_take_sample_def Let_def)
  next
    case (Some fn)
    obtain st s1 u where s: "hke_sample E fn (hk_sample_ctx (w_hk w)) zero_sample w = (st, s1, u)" by (rule prod_cases3)
    have k: "hk_shape s1" "w_hk u = w_hk w" "w_time u = w_time w" "w_exec u = w_exec w" "w_config u = w_config w"
      using hk_env_cases(1) [OF assms(1) s] by (simp_all add: hk_leaves_def)
    show ?thesis
      using assms(2) Some s k zero_sample_shape n [of w] by (auto simp: hk_take_sample_def Let_def split: if_splits)
  qed
  then show "hk_shape sample" "\<exists>n. w_hk v = (w_hk w)\<lparr>hk_sample_failures := n\<rparr>"
    "w_time v = w_time w" "w_exec v = w_exec w" "w_config v = w_config w" by auto
qed

lemma hk_send_facts:
  assumes "hk_env_ok E" "hk_send E data w = (st, v)"
  shows "w_hk v = (if st = QIRAN_OK then w_hk w else (w_hk w)\<lparr>hk_tx_failures := hk_tx_failures (w_hk w) + 1\<rparr>)"
    "w_time v = w_time w" "w_exec v = w_exec w" "w_config v = w_config w"
proof -
  have "w_hk v = (if st = QIRAN_OK then w_hk w else (w_hk w)\<lparr>hk_tx_failures := hk_tx_failures (w_hk w) + 1\<rparr>) \<and>
    w_time v = w_time w \<and> w_exec v = w_exec w \<and> w_config v = w_config w"
    using assms(2)
    by (auto simp: hk_send_def Let_def hk_leaves_def dest!: hk_env_cases(2) [OF assms(1)] split: option.splits prod.splits if_splits)
  then show "w_hk v = (if st = QIRAN_OK then w_hk w else (w_hk w)\<lparr>hk_tx_failures := hk_tx_failures (w_hk w) + 1\<rparr>)"
    "w_time v = w_time w" "w_exec v = w_exec w" "w_config v = w_config w" by auto
qed

text \<open>A stage that is due builds a frame; the others change nothing but the clock's reading.\<close>

definition hk_due :: "'a hk_world_scheme \<Rightarrow> bool" where
  "hk_due w \<longleftrightarrow> \<not> hk_attempted (w_hk w) \<or>
     \<not> fst (svc_time_now_ms w) - hk_last_attempt_ms (w_hk w) < ucast (svc_config_get CFG_HK_PERIOD_MS w)"

lemma config_get_same: "w_config v = w_config w \<Longrightarrow> svc_config_get p v = svc_config_get p w"
  by (simp add: svc_config_get_def)

lemma time_same:
  "w_time v = w_time w \<Longrightarrow> w_exec v = w_exec w \<Longrightarrow> fst (svc_time_now_ms v) = fst (svc_time_now_ms w) \<and>
   w_time (snd (svc_time_now_ms v)) = w_time (snd (svc_time_now_ms w))"
  by (simp add: svc_time_now_ms_def exec_raw_tick_count_def Let_def)

lemma stage_facts:
  assumes "hk_env_ok E" "hk_ok (w_hk w)"
  defines "v \<equiv> comm_rs485_hk_stage E w"
  shows "w_time v = w_time (snd (svc_time_now_ms w))" "w_exec v = w_exec w" "w_config v = w_config w"
    "\<not> hk_due w \<Longrightarrow> w_hk v = w_hk w"
    "hk_due w \<Longrightarrow> \<exists>n frame. length frame = 56 \<and> w_hk v = (w_hk w)\<lparr>hk_last_attempt_ms := fst (svc_time_now_ms w),
       hk_attempted := True, hk_sample_failures := n, hk_frame := frame, hk_staged := 56\<rparr>"
proof -
  obtain now u where t: "svc_time_now_ms w = (now, u)" by (rule prod.exhaust)
  have u: "w_hk u = w_hk w" "w_exec u = w_exec w" "w_config u = w_config w" "svc_time_now_ms u = (now, u)"
    using time_now_frame [of w] time_now_again [of w] t by simp_all
  let ?x = "hk_upd (\<lambda>s. s\<lparr>hk_last_attempt_ms := now, hk_attempted := True\<rparr>) u"
  obtain sample y where y: "hk_take_sample E ?x = (sample, y)" by (rule prod.exhaust)
  note yf = take_sample_facts [OF assms(1) y]
  obtain n where n: "w_hk y = (w_hk w)\<lparr>hk_last_attempt_ms := now, hk_attempted := True, hk_sample_failures := n\<rparr>"
    using yf(2) u by auto
  let ?z = "snd (svc_time_now_ms y)"
  have z: "w_time ?z = w_time u" "w_exec ?z = w_exec u" "w_config ?z = w_config u" "w_hk ?z = w_hk y"
    using yf(3-5) time_same [of y u] u(4) time_now_frame [of y] by simp_all
  define f where "f = with_crc (hk_body sample (fst (svc_time_now_ms y)) (svc_watchdog_armed y) (svc_log_fault_total y))"
  have lf: "length f = 56" by (simp add: f_def with_crc_def length_hk_body yf(1))
  have b: "comm_rs485_hk_build E (Some (hk_frame (w_hk ?x))) COMM_HK_FRAME_BYTES ?x = (QIRAN_OK, Some f, Some 56, ?z)"
    using hk_build_frame [OF _ _ _ y yf(1), of "hk_frame (w_hk w)" COMM_HK_FRAME_BYTES] assms(2) u lf
    by (simp add: hk_ok_def COMM_HK_FRAME_BYTES_def f_def)
  have due: "v = hk_upd (\<lambda>s. s\<lparr>hk_staged := 56\<rparr>) (hk_upd (\<lambda>s. s\<lparr>hk_frame := f\<rparr>) ?z)" if "hk_due w"
    unfolding v_def comm_rs485_hk_stage_def using that t u b config_get_same [OF u(3)]
    by (auto simp: hk_due_def Let_def)
  have idle: "v = u" if "\<not> hk_due w"
    unfolding v_def comm_rs485_hk_stage_def using that t u config_get_same [OF u(3)] by (auto simp: hk_due_def Let_def)
  show "w_time v = w_time (snd (svc_time_now_ms w))" "w_exec v = w_exec w" "w_config v = w_config w"
    using due idle z u t by (cases "hk_due w"; simp)+
  show "\<not> hk_due w \<Longrightarrow> w_hk v = w_hk w" using idle u by simp
  show "hk_due w \<Longrightarrow> \<exists>n frame. length frame = 56 \<and> w_hk v = (w_hk w)\<lparr>hk_last_attempt_ms := fst (svc_time_now_ms w),
       hk_attempted := True, hk_sample_failures := n, hk_frame := frame, hk_staged := 56\<rparr>"
    using due z n t lf by (intro exI [of _ n] exI [of _ f]) simp
qed

subsection \<open>The frame on the wire\<close>

lemma get_be_bytes:
  "push_bit 8 (ucast (ucast (drop_bit 8 v) :: u8)) OR ucast (ucast (v AND 0xFF) :: u8) = (v :: u16)"
  "push_bit 24 (ucast (ucast (drop_bit 24 x) :: u8)) OR push_bit 16 (ucast (ucast (drop_bit 16 x AND 0xFF) :: u8)) OR
    push_bit 8 (ucast (ucast (drop_bit 8 x AND 0xFF) :: u8)) OR ucast (ucast (x AND 0xFF) :: u8) = (x :: u32)"
  using get_u16_be [of "[]" v "[]"] get_u32_be [of "[]" x "[]"]
  by (simp_all add: comm_get_u16_def comm_get_u32_def be16_def be32_def)

lemma list5: "length xs = 5 \<Longrightarrow> xs = [xs ! 0, xs ! 1, xs ! 2, xs ! 3, xs ! 4]"
  by (rule nth_equalityI) (auto simp: less_Suc_eq numeral_eq_Suc)

lemma list2: "length xs = 2 \<Longrightarrow> xs = [xs ! 0, xs ! 1]"
  by (rule nth_equalityI) (auto simp: less_Suc_eq numeral_eq_Suc)

lemma list8: "length xs = 8 \<Longrightarrow> xs = [xs ! 0, xs ! 1, xs ! 2, xs ! 3, xs ! 4, xs ! 5, xs ! 6, xs ! 7]"
  by (rule nth_equalityI) (auto simp: less_Suc_eq numeral_eq_Suc)

text \<open>Where each reading is found in the frame, by the byte offsets of the frame definition.\<close>

definition hk_reads :: "comm_hk_sample \<Rightarrow> u8 list \<Rightarrow> bool" where
  "hk_reads s frame \<longleftrightarrow>
    map (comm_get_u16 frame) [6, 8, 10, 12, 14] = hs_rail_mv s \<and> comm_get_u16 frame 16 = hs_ps_temp_c100 s \<and>
    map (comm_get_u16 frame) [18, 20] = hs_board_temp_c100 s \<and> comm_get_u16 frame 22 = hs_ddr_temp_c100 s \<and>
    comm_get_u32 frame 24 = hs_ps_clock_hz s \<and> comm_get_u32 frame 28 = hs_pl_clock_hz s \<and>
    frame ! 32 = hs_por_status s \<and> frame ! 33 = hs_pl_config_done s \<and>
    frame ! 35 = hs_overcurrent_flags s \<and> frame ! 36 = hs_brownout_flags s \<and>
    take 8 (drop 37 frame) = hs_pl_error s \<and> frame ! 45 = hs_boot_mode s"

lemma hk_frame_reads:
  fixes now :: u64 and armed :: bool and faults :: u32
  assumes "hk_shape s"
  defines "frame \<equiv> with_crc (hk_body s now armed faults)"
  shows "hk_reads s frame"
    and "comm_get_u32 frame 2 = ucast now" "frame ! 34 = (if armed then 1 else 0)"
    and "comm_get_u32 frame 46 = ucast (now div 1000)"
    and "comm_get_u16 frame 50 = (if 0xFFFF < faults then 0xFFFF else ucast faults)"
    and "comm_get_u32 frame 52 = crc32 (take 52 frame)" "length frame = 56"
proof -
  note sh = assms(1) [unfolded hk_shape_def hk_consts]
  obtain a b c d e where r: "hs_rail_mv s = [a, b, c, d, e]" using list5 [of "hs_rail_mv s"] sh by blast
  obtain f g where t: "hs_board_temp_c100 s = [f, g]" using list2 [of "hs_board_temp_c100 s"] sh by blast
  obtain h i j k l m n q where p: "hs_pl_error s = [h, i, j, k, l, m, n, q]" using list8 [of "hs_pl_error s"] sh by blast
  have lb: "length (hk_body s now armed faults) = 52" by (rule length_hk_body [OF assms(1)])
  then show "length frame = 56" by (simp add: frame_def with_crc_def)
  have "take 52 frame = hk_body s now armed faults" using lb by (simp add: frame_def with_crc_def)
  moreover have "comm_get_u32 frame 52 = crc32 (hk_body s now armed faults)"
    using get_u32_be [of "hk_body s now armed faults" "crc32 (hk_body s now armed faults)" "[]"] lb
    by (simp add: frame_def with_crc_def)
  ultimately show "comm_get_u32 frame 52 = crc32 (take 52 frame)" by simp
  have fr: "frame = [COMM_HK_PACKET_ID, COMM_HK_PACKET_VERSION] @ be32 (ucast now) @ be16 a @ be16 b @ be16 c @
    be16 d @ be16 e @ be16 (hs_ps_temp_c100 s) @ be16 f @ be16 g @ be16 (hs_ddr_temp_c100 s) @
    be32 (hs_ps_clock_hz s) @ be32 (hs_pl_clock_hz s) @ [hs_por_status s, hs_pl_config_done s,
    if armed then 1 else 0, hs_overcurrent_flags s, hs_brownout_flags s, h, i, j, k, l, m, n, q, hs_boot_mode s] @
    be32 (ucast (now div 1000)) @ be16 (if 0xFFFF < faults then 0xFFFF else ucast faults) @
    be32 (crc32 (hk_body s now armed faults))"
    by (simp add: frame_def with_crc_def hk_body_def r t p del: if_split)
  note ev = fr comm_get_u16_def comm_get_u32_def be16_def be32_def get_be_bytes
  show "comm_get_u32 frame 2 = ucast now" "frame ! 34 = (if armed then 1 else 0)"
    "comm_get_u32 frame 46 = ucast (now div 1000)"
    "comm_get_u16 frame 50 = (if 0xFFFF < faults then 0xFFFF else ucast faults)"
    by (simp_all add: ev del: if_split)
  show "hk_reads s frame"
    unfolding hk_reads_def r t p by (intro conjI) (simp_all add: ev del: if_split)
qed

text \<open>The housekeeping frame always goes out and can be read back: into any buffer with room for
  it a frame of 56 bytes is built, whether or not the board can be sampled; every reading is found at
  its offset, the time and the uptime are of the same instant, the fault count is capped at sixteen
  bits and the last four bytes are the checksum of the others. Without a sampler, or when it fails,
  the readings are zero and the failure is counted.\<close>

theorem hk_frame_contents:
  assumes "hk_env_ok E" "56 \<le> length bs" "length bs < 4294967296" "56 \<le> len"
  shows "\<exists>frame v sample now. comm_rs485_hk_build E (Some bs) len w = (QIRAN_OK, Some (frame @ drop 56 bs), Some 56, v) \<and>
    length frame = 56 \<and> now = fst (svc_time_now_ms v) \<and> hk_reads sample frame \<and>
    comm_get_u32 frame 2 = ucast now \<and> frame ! 34 = (if svc_watchdog_armed v then 1 else 0) \<and>
    comm_get_u32 frame 46 = ucast (now div 1000) \<and>
    unat (comm_get_u16 frame 50) = min 65535 (unat (svc_log_fault_total v)) \<and>
    comm_get_u32 frame 52 = crc32 (take 52 frame) \<and>
    (case hk_sample (w_hk w) of
       Some fn \<Rightarrow> let (st, s, _) = hke_sample E fn (hk_sample_ctx (w_hk w)) zero_sample w
         in if st = QIRAN_OK then sample = s \<and> comm_rs485_hk_sample_failures v = comm_rs485_hk_sample_failures w
            else sample = zero_sample \<and> comm_rs485_hk_sample_failures v = comm_rs485_hk_sample_failures w + 1
     | None \<Rightarrow> sample = zero_sample \<and> comm_rs485_hk_sample_failures v = comm_rs485_hk_sample_failures w + 1)"
proof -
  obtain sample u where u: "hk_take_sample E w = (sample, u)" by (rule prod.exhaust)
  note sh = take_sample_facts(1) [OF assms(1) u]
  let ?v = "snd (svc_time_now_ms u)"
  let ?frame = "with_crc (hk_body sample (fst (svc_time_now_ms u)) (svc_watchdog_armed u) (svc_log_fault_total u))"
  note reads = hk_frame_reads [OF sh, of "fst (svc_time_now_ms u)" "svc_watchdog_armed u" "svc_log_fault_total u"]
  have b: "comm_rs485_hk_build E (Some bs) len w = (QIRAN_OK, Some (?frame @ drop 56 bs), Some 56, ?v)"
    by (rule hk_build_frame [OF assms(2-4) u sh])
  have same: "svc_watchdog_armed ?v = svc_watchdog_armed u" "svc_log_fault_total ?v = svc_log_fault_total u"
    "svc_time_now_ms ?v = svc_time_now_ms u" "w_hk ?v = w_hk u"
    using time_now_frame [of u] time_now_again [of u] by (simp_all add: svc_watchdog_armed_def svc_log_fault_total_def)
  have cap: "unat (if 0xFFFF < n then 0xFFFF else ucast n :: u16) = min 65535 (unat n)" for n :: u32
    by (auto simp: word_less_nat_alt unsigned_ucast_eq take_bit_eq_mod)
  have smp: "case hk_sample (w_hk w) of
       Some fn \<Rightarrow> let (st, s, _) = hke_sample E fn (hk_sample_ctx (w_hk w)) zero_sample w
         in if st = QIRAN_OK then sample = s \<and> comm_rs485_hk_sample_failures ?v = comm_rs485_hk_sample_failures w
            else sample = zero_sample \<and> comm_rs485_hk_sample_failures ?v = comm_rs485_hk_sample_failures w + 1
     | None \<Rightarrow> sample = zero_sample \<and> comm_rs485_hk_sample_failures ?v = comm_rs485_hk_sample_failures w + 1"
  proof (cases "hk_sample (w_hk w)")
    case None
    then show ?thesis using u same(4) by (auto simp: hk_take_sample_def comm_rs485_hk_sample_failures_def Let_def)
  next
    case (Some fn)
    obtain st s t where s: "hke_sample E fn (hk_sample_ctx (w_hk w)) zero_sample w = (st, s, t)" by (rule prod_cases3)
    have "w_hk t = w_hk w" using hk_env_cases(1) [OF assms(1) s] by (simp add: hk_leaves_def)
    then show ?thesis
      using Some s u same(4) by (auto simp: hk_take_sample_def comm_rs485_hk_sample_failures_def Let_def split: if_splits)
  qed
  show ?thesis
    using b reads(1-4,6,7) smp cap [of "svc_log_fault_total u"]
    by (intro exI [of _ ?frame] exI [of _ ?v] exI [of _ sample] exI [of _ "fst (svc_time_now_ms u)"])
      (simp add: same reads(5))
qed

definition hk_env0 :: "hk_world hk_env" where
  "hk_env0 = \<lparr>hke_sample = (\<lambda>_ _ s w. (QIRAN_OK, zero_sample\<lparr>hs_rail_mv := [1000, 1500, 1800, 3300, 5000]\<rparr>, w)),
     hke_tx = (\<lambda>_ _ _ w. (QIRAN_OK, w))\<rparr>"

lemma hk_env0_ok: "hk_env_ok hk_env0"
  by (simp add: hk_env_ok_def hk_env0_def hk_shape_def hk_leaves_def zero_sample_def hk_consts)

definition hk_state0 :: hk_state where
  "hk_state0 = \<lparr>hk_sample = Some 1, hk_sample_ctx = None, hk_tx = Some 2, hk_tx_ctx = None,
     hk_interlock = replicate 5 COMM_INTERLOCK_UNEVALUATED, hk_frames = 0, hk_status_frames = 0, hk_tx_failures = 0,
     hk_sample_failures = 0, hk_last_attempt_ms = 0, hk_attempted = False, hk_frame = replicate 56 0, hk_staged = 0,
     hk_status = replicate 20 0\<rparr>"

lemma hk_state0_ok: "hk_ok hk_state0"
  by (simp add: hk_ok_def hk_state0_def COMM_HK_INTERLOCKS_def)

theorem hk_frame_contents_witness:
  "\<forall>w :: hk_world. \<exists>frame v. comm_rs485_hk_build hk_env0 (Some (replicate 60 7)) 60 (w\<lparr>w_hk := hk_state0\<rparr>) =
     (QIRAN_OK, Some (frame @ replicate 4 7), Some 56, v) \<and> map (comm_get_u16 frame) [6, 8, 10, 12, 14] = [1000, 1500, 1800, 3300, 5000]"
proof
  fix w :: hk_world
  have d: "drop 56 (replicate 60 7) = replicate 4 (7 :: u8)" by simp
  show "\<exists>frame v. comm_rs485_hk_build hk_env0 (Some (replicate 60 7)) 60 (w\<lparr>w_hk := hk_state0\<rparr>) =
     (QIRAN_OK, Some (frame @ replicate 4 7), Some 56, v) \<and> map (comm_get_u16 frame) [6, 8, 10, 12, 14] = [1000, 1500, 1800, 3300, 5000]"
    using hk_frame_contents [OF hk_env0_ok, of "replicate 60 7" 60 "w\<lparr>w_hk := hk_state0\<rparr>"]
    unfolding d hk_reads_def by (auto simp: hk_state0_def hk_env0_def zero_sample_def)
qed

subsection \<open>The interval\<close>

text \<open>One cycle as this module sees it: a tick, the sending of what the last cycle staged, the staging.\<close>

definition hk_tick :: "'a hk_world_scheme \<Rightarrow> 'a hk_world_scheme" where
  "hk_tick w = w\<lparr>w_exec := (w_exec w)\<lparr>ex_isr_ticks := ex_isr_ticks (w_exec w) + 1\<rparr>\<rparr>"

definition hk_cycle :: "'a hk_world_scheme hk_env \<Rightarrow> 'a hk_world_scheme \<Rightarrow> 'a hk_world_scheme" where
  "hk_cycle E w = comm_rs485_hk_stage E (comm_rs485_hk_transmit E (hk_tick w))"

text \<open>A period in cycles of 20 ms, rounded up.\<close>

definition hk_cycles :: "u32 \<Rightarrow> nat" where
  "hk_cycles period = max 1 ((unat period + 19) div 20)"

lemma hk_cycles_due: "unat p \<le> 20 * (1 + j) \<longleftrightarrow> hk_cycles p \<le> 1 + j"
  by (auto simp: hk_cycles_def)

lemma transmit_facts:
  assumes "hk_env_ok E" "hk_ok (w_hk w)"
  defines "v \<equiv> comm_rs485_hk_transmit E w"
  shows "w_time v = w_time w" "w_exec v = w_exec w" "w_config v = w_config w" "hk_ok (w_hk v)" "hk_staged (w_hk v) = 0"
    "hk_attempted (w_hk v) = hk_attempted (w_hk w)" "hk_last_attempt_ms (w_hk v) = hk_last_attempt_ms (w_hk w)"
    "hk_frames (w_hk v) + hk_tx_failures (w_hk v) =
      hk_frames (w_hk w) + hk_tx_failures (w_hk w) + (if hk_staged (w_hk w) = 0 then 0 else 1)"
proof -
  obtain st u where s: "hk_send E (take (unat (hk_staged (w_hk w))) (hk_frame (w_hk w))) w = (st, u)" by (rule prod.exhaust)
  note f = hk_send_facts [OF assms(1) s]
  show "w_time v = w_time w" "w_exec v = w_exec w" "w_config v = w_config w" "hk_ok (w_hk v)" "hk_staged (w_hk v) = 0"
    "hk_attempted (w_hk v) = hk_attempted (w_hk w)" "hk_last_attempt_ms (w_hk v) = hk_last_attempt_ms (w_hk w)"
    "hk_frames (w_hk v) + hk_tx_failures (w_hk v) =
      hk_frames (w_hk w) + hk_tx_failures (w_hk w) + (if hk_staged (w_hk w) = 0 then 0 else 1)"
    using s f assms(2) by (auto simp: v_def comm_rs485_hk_transmit_def hk_ok_def Let_def)
qed

definition hk_sent :: "hk_state \<Rightarrow> u32" where
  "hk_sent s = hk_frames s + hk_tx_failures s"

definition hk_clock :: "nat \<Rightarrow> nat \<Rightarrow> 'a hk_world_scheme \<Rightarrow> bool" where
  "hk_clock T0 T w \<longleftrightarrow> T0 \<le> T \<and> exec_raw_tick_count w = of_nat T \<and> tm_last_raw (w_time w) = of_nat T \<and>
     tm_ticks (w_time w) = of_nat (T - T0)"

definition hk_phase :: "nat \<Rightarrow> nat \<Rightarrow> nat \<Rightarrow> nat \<Rightarrow> 'a hk_world_scheme \<Rightarrow> bool" where
  "hk_phase c T0 T n w \<longleftrightarrow> T0 \<le> T \<and> hk_ok (w_hk w) \<and> hk_clock T0 (T + n) w \<and>
    (case n of 0 \<Rightarrow> \<not> hk_attempted (w_hk w) \<and> hk_staged (w_hk w) = 0 \<and> hk_sent (w_hk w) = 0
     | Suc m \<Rightarrow> hk_attempted (w_hk w) \<and>
         hk_last_attempt_ms (w_hk w) = of_nat (20 * (T - T0 + 1 + m div c * c)) \<and>
         (hk_staged (w_hk w) = 0 \<longleftrightarrow> m mod c \<noteq> 0) \<and> hk_sent (w_hk w) = of_nat ((m + c - 1) div c))"

lemma div_round_up:
  assumes "0 < (c::nat)"
  shows "(m + c - 1) div c + (if m mod c = 0 then 1 else 0) = (Suc m + c - 1) div c"
proof -
  have m: "m = m div c * c + m mod c" by simp
  have lt: "m mod c < c" using assms by simp
  have e: "(m + c - 1) div c = m div c + (m mod c + c - 1) div c"
  proof -
    have "m + c - 1 = m div c * c + (m mod c + c - 1)" using m assms by linarith
    then show ?thesis using assms div_mult_self3 [of c "m div c" "m mod c + c - 1"] by simp
  qed
  have "(m mod c + c - 1) div c = (if m mod c = 0 then 0 else 1)"
  proof (cases "m mod c = 0")
    case True then show ?thesis using assms by simp
  next
    case False
    have "(m mod c + c - 1) div c = Suc 0"
      by (rule div_nat_eqI) (use lt False assms in linarith)+
    then show ?thesis using False by simp
  qed
  moreover have "(Suc m + c - 1) div c = m div c + 1" using assms by (simp add: div_add_self2)
  ultimately show ?thesis using e by simp
qed

lemma clock_tick:
  assumes "hk_clock T0 T w" "w_time u = w_time w" "exec_raw_tick_count u = exec_raw_tick_count w + 1"
  shows "time_at T0 (Suc T) u"
  unfolding time_at_def using assms by (intro exI [of _ T]) (simp add: hk_clock_def)

lemma hk_phase_step:
  assumes "hk_env_ok E" "hk_phase c T0 T n w" "c = hk_cycles (svc_config_get CFG_HK_PERIOD_MS w)"
    and "20 * (T + Suc n) < 2 ^ 64"
  shows "hk_phase c T0 T (Suc n) (hk_cycle E w)" "svc_config_get p (hk_cycle E w) = svc_config_get p w"
proof -
  let ?t = "hk_tick w"
  define u where "u = comm_rs485_hk_transmit E ?t"
  define v where "v = comm_rs485_hk_stage E u"
  have cy: "hk_cycle E w = v" by (simp add: hk_cycle_def u_def v_def)
  have tick: "w_hk ?t = w_hk w" "w_time ?t = w_time w" "w_config ?t = w_config w"
    "exec_raw_tick_count ?t = exec_raw_tick_count w + 1"
    by (simp_all add: hk_tick_def exec_raw_tick_count_def)
  have ok: "hk_ok (w_hk ?t)" using assms(2) tick by (simp add: hk_phase_def)
  note uf = transmit_facts [OF assms(1) ok, folded u_def]
  note vf = stage_facts [OF assms(1) uf(4), folded v_def]
  show "svc_config_get p (hk_cycle E w) = svc_config_get p w"
    unfolding cy svc_config_get_def using vf(3) uf(3) tick(3) by simp
  have per: "svc_config_get CFG_HK_PERIOD_MS u = svc_config_get CFG_HK_PERIOD_MS w"
    unfolding svc_config_get_def using uf(3) tick(3) by simp
  have ck: "hk_clock T0 (T + n) w" using assms(2) by (simp add: hk_phase_def)
  have tu: "time_at T0 (Suc (T + n)) u"
    using clock_tick [OF ck, of u] uf(1,2) tick by (simp add: exec_raw_tick_count_def)
  have le: "T0 \<le> T + n" using ck by (simp add: hk_clock_def)
  have vc: "hk_clock T0 (T + Suc n) v"
    using vf(1,2) time_now [OF tu] tu le by (auto simp: hk_clock_def time_at_def exec_raw_tick_count_def)
  have now: "fst (svc_time_now_ms u) = of_nat (20 * (Suc (T + n) - T0))" using time_now [OF tu] by simp
  have c: "0 < c" by (simp add: assms(3) hk_cycles_def)
  have T: "T0 \<le> T" using assms(2) by (simp add: hk_phase_def)
  show "hk_phase c T0 T (Suc n) (hk_cycle E w)"
  proof (cases n)
    case 0
    then have "hk_due u" using assms(2) uf(6) tick(1) by (simp add: hk_phase_def hk_due_def)
    then show ?thesis
      using vf(5) uf(4,5,8) vc now 0 c T tick(1) assms(2) unfolding cy
      by (auto simp: hk_phase_def hk_ok_def hk_sent_def Suc_diff_le)
  next
    case (Suc m)
    let ?j = "m mod c"
    have at: "hk_attempted (w_hk u)" "hk_last_attempt_ms (w_hk u) = of_nat (20 * (T - T0 + 1 + m div c * c))"
      using assms(2) uf(6,7) tick(1) Suc by (simp_all add: hk_phase_def)
    have e: "20 * (Suc (T + n) - T0) = 20 * (T - T0 + 1 + m div c * c) + 20 * (1 + ?j)"
    proof -
      have "20 * (Suc (T + Suc m) - T0) = 20 * (T - T0 + 1 + q) + 20 * (1 + j)" if "q + j = m" for q j
        using T that by (auto simp: Suc_diff_le)
      from this [of "m div c * c" ?j] show ?thesis unfolding Suc by simp
    qed
    have d: "fst (svc_time_now_ms u) - hk_last_attempt_ms (w_hk u) = of_nat (20 * (1 + ?j))"
      unfolding now at(2) e of_nat_add by simp
    have "?j \<le> m" by (rule mod_less_eq_dividend)
    then have "1 + ?j \<le> T + Suc n" using Suc by (simp del: mod_less_eq_dividend)
    then have "20 * (1 + ?j) < 2 ^ 64" by (intro le_less_trans [OF _ assms(4)]) (rule mult_le_mono2)
    then have un: "unat (of_nat (20 * (1 + ?j)) :: u64) = 20 * (1 + ?j)" by (simp add: unat_of_nat del: of_nat_mult of_nat_add)
    have uc: "unat (ucast x :: u64) = unat x" for x :: u32
      using unat_u32_less [of x] by (simp add: unsigned_ucast_eq take_bit_nat_eq_self)
    have "hk_due u \<longleftrightarrow> \<not> 20 * (1 + ?j) < unat (svc_config_get CFG_HK_PERIOD_MS w)"
      unfolding hk_due_def d per word_less_nat_alt un uc using at(1) by simp
    also have "\<dots> \<longleftrightarrow> c \<le> 1 + ?j" using hk_cycles_due [of "svc_config_get CFG_HK_PERIOD_MS w" ?j] assms(3) by auto
    also have "\<dots> \<longleftrightarrow> Suc m mod c = 0" using c mod_less_divisor [OF c, of m] by (auto simp: mod_Suc)
    finally have due: "hk_due u \<longleftrightarrow> Suc m mod c = 0" .
    have snt: "hk_sent (w_hk u) = of_nat ((Suc m + c - 1) div c)"
    proof -
      have "hk_sent (w_hk u) = of_nat ((m + c - 1) div c) + (if ?j = 0 then 1 else 0)"
        using uf(8) assms(2) tick(1) Suc by (auto simp: hk_phase_def hk_sent_def)
      then show ?thesis unfolding div_round_up [OF c, of m, symmetric] by simp
    qed
    show ?thesis
    proof (cases "hk_due u")
      case True
      have "Suc m div c * c = Suc m" using due True by (metis div_mult_mod_eq add.right_neutral)
      then show ?thesis
        using True due vf(5) [OF True] uf(4) vc snt now c T Suc unfolding cy
        by (auto simp: hk_phase_def hk_ok_def hk_sent_def Suc_diff_le simp del: of_nat_mult of_nat_add)
    next
      case False
      have "Suc m div c = m div c" using due False by (simp add: div_Suc)
      then show ?thesis
        using False due vf(4) [OF False] uf(4,5) vc snt at T Suc unfolding cy
        by (auto simp: hk_phase_def)
    qed
  qed
qed

lemma hk_phase_run:
  assumes "hk_env_ok E" "hk_phase c T0 T 0 w" "c = hk_cycles (svc_config_get CFG_HK_PERIOD_MS w)" "20 * (T + n) < 2 ^ 64"
  shows "hk_phase c T0 T n ((hk_cycle E ^^ n) w) \<and>
    svc_config_get CFG_HK_PERIOD_MS ((hk_cycle E ^^ n) w) = svc_config_get CFG_HK_PERIOD_MS w"
  using assms(4)
proof (induction n)
  case 0 then show ?case using assms(2) by simp
next
  case (Suc n)
  have "20 * (T + n) \<le> 20 * (T + Suc n)" by simp
  then have ih: "hk_phase c T0 T n ((hk_cycle E ^^ n) w)"
    "svc_config_get CFG_HK_PERIOD_MS ((hk_cycle E ^^ n) w) = svc_config_get CFG_HK_PERIOD_MS w"
    using Suc.IH le_less_trans [OF _ Suc.prems] by blast+
  have c: "c = hk_cycles (svc_config_get CFG_HK_PERIOD_MS ((hk_cycle E ^^ n) w))" using assms(3) ih(2) by simp
  from hk_phase_step [OF assms(1) ih(1) c Suc.prems] ih(2) show ?case by simp
qed

text \<open>C35: The interval: on a link on which nothing was attempted, staged or counted yet, with the clock in
  step with the ticks of the executive and below the end of its range, a frame is built from the first
  cycle on every \<open>c\<close>th cycle, with \<open>c\<close> the configured period in cycles of 20 ms rounded up, and given to
  the link exactly once, in the cycle after; so after \<open>n\<close> cycles of one tick each the frames sent and
  those refused number \<open>(n - 1) / c\<close> rounded up, counted in 32 bits, however often the link refuses.\<close>

theorem hk_period_kept:
  assumes "hk_env_ok E" "hk_ok (w_hk w)" "hk_clock T0 T w" "\<not> hk_attempted (w_hk w)" "hk_staged (w_hk w) = 0"
    and "comm_rs485_hk_frames_sent w = 0" "comm_rs485_hk_transmit_failures w = 0"
    and "c = max 1 ((unat (svc_config_get CFG_HK_PERIOD_MS w) + 19) div 20)" "20 * (T + n) < 2 ^ 64"
  shows "comm_rs485_hk_frames_sent ((hk_cycle E ^^ n) w) + comm_rs485_hk_transmit_failures ((hk_cycle E ^^ n) w) =
    of_nat ((n - 1 + (c - 1)) div c)"
proof -
  have c: "c = hk_cycles (svc_config_get CFG_HK_PERIOD_MS w)" "0 < c" using assms(8) by (simp_all add: hk_cycles_def)
  have "hk_phase c T0 T 0 w"
    using assms(2-7) by (simp add: hk_phase_def hk_clock_def hk_sent_def comm_rs485_hk_frames_sent_def comm_rs485_hk_transmit_failures_def)
  from hk_phase_run [OF assms(1) this c(1) assms(9)] have "hk_phase c T0 T n ((hk_cycle E ^^ n) w)" by simp
  then have "hk_sent (w_hk ((hk_cycle E ^^ n) w)) = of_nat ((n - 1 + (c - 1)) div c)"
    using c(2) by (cases n) (auto simp: hk_phase_def)
  then show ?thesis by (simp add: hk_sent_def comm_rs485_hk_frames_sent_def comm_rs485_hk_transmit_failures_def)
qed

text \<open>A period of one second is fifty cycles: of a hundred and two cycles, the first, the fifty-first and
  the hundred-and-first build a frame.\<close>

theorem hk_period_kept_witness:
  "\<forall>w :: hk_world. let w = w\<lparr>w_hk := hk_state0, w_exec := (w_exec w)\<lparr>ex_isr_ticks := 7\<rparr>,
        w_time := (w_time w)\<lparr>tm_last_raw := 7, tm_ticks := 0\<rparr>,
        w_config := (w_config w)\<lparr>cf_value := (cf_value (w_config w))(CFG_HK_PERIOD_MS := 1000)\<rparr>\<rparr>;
      v = (hk_cycle hk_env0 ^^ 102) w
    in comm_rs485_hk_frames_sent v + comm_rs485_hk_transmit_failures v = 3"
proof
  fix w :: hk_world
  define u where "u = w\<lparr>w_hk := hk_state0, w_exec := (w_exec w)\<lparr>ex_isr_ticks := 7\<rparr>,
        w_time := (w_time w)\<lparr>tm_last_raw := 7, tm_ticks := 0\<rparr>,
        w_config := (w_config w)\<lparr>cf_value := (cf_value (w_config w))(CFG_HK_PERIOD_MS := 1000)\<rparr>\<rparr>"
  have per: "svc_config_get CFG_HK_PERIOD_MS u = 1000" by (simp add: u_def svc_config_get_def)
  have ok: "hk_ok (w_hk u)" by (simp add: u_def hk_state0_ok)
  have f: "hk_clock 7 7 u" "\<not> hk_attempted (w_hk u)" "hk_staged (w_hk u) = 0"
    "comm_rs485_hk_frames_sent u = 0" "comm_rs485_hk_transmit_failures u = 0"
    "50 = max 1 ((unat (svc_config_get CFG_HK_PERIOD_MS u) + 19) div 20)"
    unfolding per
    by (simp_all add: u_def hk_clock_def exec_raw_tick_count_def hk_state0_def
        comm_rs485_hk_frames_sent_def comm_rs485_hk_transmit_failures_def)
  have "(20 :: nat) * (7 + 102) < 2 ^ 64" by simp
  from hk_period_kept [OF hk_env0_ok ok f this]
  have "comm_rs485_hk_frames_sent ((hk_cycle hk_env0 ^^ 102) u) + comm_rs485_hk_transmit_failures ((hk_cycle hk_env0 ^^ 102) u) = 3"
    by (simp del: funpow.simps)
  then show "let w = w\<lparr>w_hk := hk_state0, w_exec := (w_exec w)\<lparr>ex_isr_ticks := 7\<rparr>,
        w_time := (w_time w)\<lparr>tm_last_raw := 7, tm_ticks := 0\<rparr>,
        w_config := (w_config w)\<lparr>cf_value := (cf_value (w_config w))(CFG_HK_PERIOD_MS := 1000)\<rparr>\<rparr>;
      v = (hk_cycle hk_env0 ^^ 102) w
    in comm_rs485_hk_frames_sent v + comm_rs485_hk_transmit_failures v = 3"
    unfolding Let_def u_def .
qed

subsection \<open>The uplink of the fault service\<close>

lemma status_send_eq:
  assumes "hk_ok (w_hk w)" "length (sr_interlock r) = COMM_HK_INTERLOCKS"
  shows "comm_rs485_status_send E (Some r) w =
    (let frame = with_crc (status_body r (fst (svc_time_now_ms w)));
         (st, v) = hk_send E frame (hk_upd (\<lambda>s. s\<lparr>hk_status := frame\<rparr>) (snd (svc_time_now_ms w)))
     in (st, if st = QIRAN_OK then hk_upd (\<lambda>s. s\<lparr>hk_status_frames := hk_status_frames s + 1\<rparr>) v else v))"
proof -
  let ?frame = "with_crc (status_body r (fst (svc_time_now_ms w)))"
  have l: "length ?frame = 20" using assms(2) by (simp add: with_crc_def status_body_def COMM_HK_INTERLOCKS_def)
  have b: "comm_rs485_status_build (Some r) (Some (hk_status (w_hk w))) COMM_HK_STATUS_BYTES w =
      (QIRAN_OK, Some ?frame, Some 20, snd (svc_time_now_ms w))"
    using status_build_frame [of "hk_status (w_hk w)" COMM_HK_STATUS_BYTES r w] assms
    by (simp add: hk_ok_def COMM_HK_STATUS_BYTES_def)
  show ?thesis unfolding comm_rs485_status_send_def b by (simp add: Let_def l)
qed

text \<open>What the transmitter must leave alone for the uplink to keep the fault service's contract.\<close>

definition hk_tx_quiet :: "'a hk_world_scheme hk_env \<Rightarrow> bool" where
  "hk_tx_quiet E \<longleftrightarrow> (\<forall>h c bs w. w_fdir (snd (hke_tx E h c bs w)) = w_fdir w \<and> w_log (snd (hke_tx E h c bs w)) = w_log w)"

lemma link_keeps_parts:
  assumes "link_keeps u v"
  shows "w_log v = w_log u" "fd_serviced (w_fdir v) = fd_serviced (w_fdir u)" "fd_record (w_fdir v) = fd_record (w_fdir u)"
    "fd_reentries (w_fdir v) = fd_reentries (w_fdir u)"
    "f = QIRAN_FAULT_HK_TRANSMIT \<or> fd_reported (w_fdir v) f = fd_reported (w_fdir u) f \<and>
      fd_detail (w_fdir v) f = fd_detail (w_fdir u) f \<and> fd_tick (w_fdir v) f = fd_tick (w_fdir u) f"
  using assms unfolding link_keeps_def by blast+

lemma link_keeps_trans:
  assumes "link_keeps u v" "link_keeps v x"
  shows "link_keeps u x"
  unfolding link_keeps_def
proof (intro conjI allI)
  show "w_log x = w_log u" "fd_serviced (w_fdir x) = fd_serviced (w_fdir u)" "fd_record (w_fdir x) = fd_record (w_fdir u)"
    "fd_reentries (w_fdir x) = fd_reentries (w_fdir u)"
    by (simp_all only: link_keeps_parts(1-4) [OF assms(1)] link_keeps_parts(1-4) [OF assms(2)])
  show "f = QIRAN_FAULT_HK_TRANSMIT \<or> fd_reported (w_fdir x) f = fd_reported (w_fdir u) f \<and>
      fd_detail (w_fdir x) f = fd_detail (w_fdir u) f \<and> fd_tick (w_fdir x) f = fd_tick (w_fdir u) f" for f
    using link_keeps_parts(5) [OF assms(1), of f] link_keeps_parts(5) [OF assms(2), of f] by auto
qed

lemma link_keeps_same: "w_fdir v = w_fdir w \<Longrightarrow> w_log v = w_log w \<Longrightarrow> link_keeps w v"
  by (simp add: link_keeps_def)

lemma link_keeps_report: "link_keeps w (svc_fdir_report QIRAN_FAULT_HK_TRANSMIT d w)"
  by (simp add: link_keeps_def svc_fdir_report_eq fdir_counted_def)

lemma hk_send_quiet:
  assumes "hk_tx_quiet E"
  shows "link_keeps w (snd (hk_send E data w))"
proof (cases "hk_tx (w_hk w)")
  case None
  then show ?thesis
    by (simp add: hk_send_def link_keeps_trans [OF link_keeps_same link_keeps_report])
next
  case (Some tx)
  obtain st v where t: "hke_tx E tx (hk_tx_ctx (w_hk w)) data w = (st, v)" by (rule prod.exhaust)
  have "w_fdir (snd (hke_tx E tx (hk_tx_ctx (w_hk w)) data w)) = w_fdir w"
    "w_log (snd (hke_tx E tx (hk_tx_ctx (w_hk w)) data w)) = w_log w" using assms by (simp_all add: hk_tx_quiet_def)
  then have v: "w_fdir v = w_fdir w" "w_log v = w_log w" unfolding t by simp_all
  have "link_keeps w (svc_fdir_report QIRAN_FAULT_HK_TRANSMIT d (hk_upd f v))" for d f
    by (rule link_keeps_trans [OF link_keeps_same link_keeps_report]) (simp_all add: v)
  then show ?thesis using Some t link_keeps_same [of v w] v by (simp add: hk_send_def Let_def)
qed

lemma status_build_world:
  "w_fdir (snd (snd (snd (comm_rs485_status_build r buf len w)))) = w_fdir w"
  "w_log (snd (snd (snd (comm_rs485_status_build r buf len w)))) = w_log w"
  by (simp_all add: comm_rs485_status_build_def case_prod_beta Let_def time_now_frame split: option.split)

lemma status_send_quiet:
  assumes "hk_tx_quiet E"
  shows "link_keeps w (snd (comm_rs485_status_send E r w))"
proof -
  obtain st buf written u where b: "comm_rs485_status_build r (Some (hk_status (w_hk w))) COMM_HK_STATUS_BYTES w =
      (st, buf, written, u)" by (rule prod_cases4)
  have u: "w_fdir u = w_fdir w" "w_log u = w_log w"
    using status_build_world [of r "Some (hk_status (w_hk w))" COMM_HK_STATUS_BYTES w] unfolding b by simp_all
  let ?v = "hk_upd (\<lambda>s. s\<lparr>hk_status := the buf\<rparr>) u"
  have v: "link_keeps w ?v" by (rule link_keeps_same) (simp_all add: u)
  obtain st2 x where s: "hk_send E (take (unat (the written)) (hk_status (w_hk ?v))) ?v = (st2, x)" by (rule prod.exhaust)
  have "link_keeps ?v x" using hk_send_quiet [OF assms, of ?v "take (unat (the written)) (hk_status (w_hk ?v))"] unfolding s by simp
  then have x: "link_keeps w x" by (rule link_keeps_trans [OF v])
  have "link_keeps w (hk_upd f x)" for f by (rule link_keeps_trans [OF x link_keeps_same]) simp_all
  then show ?thesis using b s v x by (simp add: comm_rs485_status_send_def Let_def)
qed

text \<open>The contract the fault service states for its uplink holds of this one.\<close>

lemma hk_uplink_ok: "hk_tx_quiet E \<Longrightarrow> uplink_ok (hk_fdir_env E)"
  by (simp add: uplink_ok_def hk_fdir_env_def uplink_report_def uplink_power_reset_def status_send_quiet)

text \<open>A transmission reports at most one failure of the link, so the uplink's second contract holds too.\<close>

lemma hk_send_once:
  assumes "hk_tx_quiet E"
  shows "unat (fd_reported (w_fdir (snd (hk_send E data w))) QIRAN_FAULT_HK_TRANSMIT - fd_reported (w_fdir w) QIRAN_FAULT_HK_TRANSMIT) \<le> 1"
proof (cases "hk_tx (w_hk w)")
  case None
  then show ?thesis by (simp add: hk_send_def svc_fdir_report_eq fdir_counted_def)
next
  case (Some tx)
  obtain st v where t: "hke_tx E tx (hk_tx_ctx (w_hk w)) data w = (st, v)" by (rule prod.exhaust)
  have "w_fdir (snd (hke_tx E tx (hk_tx_ctx (w_hk w)) data w)) = w_fdir w" using assms by (simp add: hk_tx_quiet_def)
  then have v: "w_fdir v = w_fdir w" unfolding t by simp
  show ?thesis using Some t v by (simp add: hk_send_def Let_def svc_fdir_report_eq fdir_counted_def)
qed

lemma status_send_once:
  assumes "hk_tx_quiet E"
  shows "unat (fd_reported (w_fdir (snd (comm_rs485_status_send E r w))) QIRAN_FAULT_HK_TRANSMIT - fd_reported (w_fdir w) QIRAN_FAULT_HK_TRANSMIT) \<le> 1"
proof -
  obtain st buf written u where b: "comm_rs485_status_build r (Some (hk_status (w_hk w))) COMM_HK_STATUS_BYTES w =
      (st, buf, written, u)" by (rule prod_cases4)
  have u: "w_fdir u = w_fdir w"
    using status_build_world(1) [of r "Some (hk_status (w_hk w))" COMM_HK_STATUS_BYTES w] unfolding b by simp
  let ?v = "hk_upd (\<lambda>s. s\<lparr>hk_status := the buf\<rparr>) u"
  obtain st2 x where s: "hk_send E (take (unat (the written)) (hk_status (w_hk ?v))) ?v = (st2, x)" by (rule prod.exhaust)
  have "unat (fd_reported (w_fdir x) QIRAN_FAULT_HK_TRANSMIT - fd_reported (w_fdir w) QIRAN_FAULT_HK_TRANSMIT) \<le> 1"
    using hk_send_once [OF assms, of "take (unat (the written)) (hk_status (w_hk ?v))" ?v] unfolding s by (simp add: u)
  then show ?thesis using b s u by (simp add: comm_rs485_status_send_def Let_def)
qed

lemma hk_uplink_once: "hk_tx_quiet E \<Longrightarrow> link_reports_once (hk_fdir_env E)"
  by (simp add: link_reports_once_def hk_fdir_env_def uplink_report_def uplink_power_reset_def
      status_send_once [unfolded One_nat_def])

text \<open>What one transmission of a status frame leaves behind.\<close>

lemma hk_send_status:
  assumes "hk_env_ok E" "hk_tx_quiet E" "hk_tx (w_hk w) = Some tx" "hk_ok (w_hk w)" "length (sr_interlock r) = COMM_HK_INTERLOCKS"
  defines "frame \<equiv> with_crc (status_body r (fst (svc_time_now_ms w)))"
  shows "\<exists>u st x y. hke_tx E tx (hk_tx_ctx (w_hk w)) frame u = (st, x) \<and> comm_rs485_status_send E (Some r) w = (st, y) \<and>
    w_hk y = (if st = QIRAN_OK then (w_hk w)\<lparr>hk_status := frame, hk_status_frames := hk_status_frames (w_hk w) + 1\<rparr>
      else (w_hk w)\<lparr>hk_status := frame, hk_tx_failures := hk_tx_failures (w_hk w) + 1\<rparr>) \<and>
    w_fdir y = (if st = QIRAN_OK then w_fdir w
      else fdir_counted QIRAN_FAULT_HK_TRANSMIT (status_code st) (exec_raw_tick_count x) (w_fdir w))"
proof -
  let ?u = "hk_upd (\<lambda>s. s\<lparr>hk_status := frame\<rparr>) (snd (svc_time_now_ms w))"
  obtain st x where t: "hke_tx E tx (hk_tx_ctx (w_hk w)) frame ?u = (st, x)" by (rule prod.exhaust)
  have x: "w_hk x = (w_hk w)\<lparr>hk_status := frame\<rparr>" "w_fdir x = w_fdir w"
  proof -
    show "w_hk x = (w_hk w)\<lparr>hk_status := frame\<rparr>"
      using hk_env_cases(2) [OF assms(1) t] by (simp add: hk_leaves_def time_now_frame)
    have "w_fdir (snd (hke_tx E tx (hk_tx_ctx (w_hk w)) frame ?u)) = w_fdir ?u" using assms(2) by (simp add: hk_tx_quiet_def)
    then show "w_fdir x = w_fdir w" unfolding t by (simp add: time_now_frame)
  qed
  have s: "hk_send E frame ?u = (if st \<noteq> QIRAN_OK
      then (st, svc_fdir_report QIRAN_FAULT_HK_TRANSMIT (status_code st) (hk_upd (\<lambda>s. s\<lparr>hk_tx_failures := hk_tx_failures s + 1\<rparr>) x))
      else (st, x))"
    using assms(3) t by (simp add: hk_send_def time_now_frame Let_def)
  note send = status_send_eq [OF assms(4,5), of E, folded frame_def, unfolded Let_def s]
  show ?thesis
  proof (cases "st = QIRAN_OK")
    case True
    have y: "comm_rs485_status_send E (Some r) w = (st, hk_upd (\<lambda>s. s\<lparr>hk_status_frames := hk_status_frames s + 1\<rparr>) x)"
      unfolding send using True by simp
    show ?thesis
      by (rule exI [of _ ?u], rule exI [of _ st], rule exI [of _ x],
          rule exI [of _ "hk_upd (\<lambda>s. s\<lparr>hk_status_frames := hk_status_frames s + 1\<rparr>) x"], intro conjI)
        (simp_all only: t y True hk_upd_fields x if_True, simp_all)
  next
    case False
    let ?y = "svc_fdir_report QIRAN_FAULT_HK_TRANSMIT (status_code st) (hk_upd (\<lambda>s. s\<lparr>hk_tx_failures := hk_tx_failures s + 1\<rparr>) x)"
    have y: "comm_rs485_status_send E (Some r) w = (st, ?y)" unfolding send using False by simp
    have f: "w_fdir ?y = fdir_counted QIRAN_FAULT_HK_TRANSMIT (status_code st) (exec_raw_tick_count x) (w_fdir w)"
      by (simp add: svc_fdir_report_eq x exec_raw_tick_count_def)
    show ?thesis
      by (rule exI [of _ ?u], rule exI [of _ st], rule exI [of _ x], rule exI [of _ ?y], intro conjI)
        (simp_all only: t y f False hk_upd_fields x if_False, simp_all)
  qed
qed

text \<open>C28: Delivery: an escalated fault reaches the transmitter as one status frame that names the class
  and its severity (severe for a power reset request) and ends in its checksum. If the link takes it,
  it is counted as sent and as nothing else; if not, it is counted as undelivered and as one
  transmit failure, which is itself reported.\<close>

theorem hk_escalation_delivered:
  assumes "hk_env_ok E" "hk_tx_quiet E" "hk_ok (w_hk w)" "hk_tx (w_hk w) = Some tx" "fd_uplink_set (w_fdir w)"
    and "fp_escalation (k_policy f) \<noteq> QIRAN_ESCALATE_LOG_ONLY"
  shows "\<exists>u frame st x. hke_tx E tx (hk_tx_ctx (w_hk w)) frame u = (st, x) \<and> length frame = 20 \<and>
    comm_get_u16 frame 13 = of_nat (fault_idx f) \<and>
    frame ! 15 = of_nat (severity_idx (if fp_escalation (k_policy f) = QIRAN_ESCALATE_POWER_RESET
      then QIRAN_SEV_SEVERE else fp_severity (k_policy f))) \<and>
    comm_get_u32 frame 16 = crc32 (take 16 frame) \<and>
    (let v = fdir_escalate (hk_fdir_env E) f d w; lost = (if st = QIRAN_OK then 0 else 1) in
      comm_rs485_hk_status_sent v = comm_rs485_hk_status_sent w + (1 - lost) \<and>
      comm_rs485_hk_transmit_failures v = comm_rs485_hk_transmit_failures w + lost \<and>
      svc_fdir_undelivered v = svc_fdir_undelivered w + lost \<and>
      fdir_unserviced QIRAN_FAULT_HK_TRANSMIT v = fdir_unserviced QIRAN_FAULT_HK_TRANSMIT w + lost)"
proof -
  let ?sev = "if fp_escalation (k_policy f) = QIRAN_ESCALATE_POWER_RESET then QIRAN_SEV_SEVERE else fp_severity (k_policy f)"
  define w1 where "w1 = w\<lparr>w_fdir := (w_fdir w)\<lparr>fd_record := (fd_record (w_fdir w))(f := (fd_record (w_fdir w) f)
      \<lparr>fr_escalations := fr_escalations (fd_record (w_fdir w) f) + 1\<rparr>)\<rparr>\<rparr>"
  have w1: "w_hk w1 = w_hk w" "fd_uplink_set (w_fdir w1)" "fd_undelivered (w_fdir w1) = fd_undelivered (w_fdir w)"
    "fdir_unserviced g w1 = fdir_unserviced g w" for g
    using assms(5) by (simp_all add: w1_def fdir_unserviced_def)
  let ?r = "fill_current f ?sev w1"
  have il: "length (sr_interlock ?r) = COMM_HK_INTERLOCKS"
    using assms(3) w1(1) by (simp add: fill_current_def hk_ok_def)
  define frame where "frame = with_crc (status_body ?r (fst (svc_time_now_ms w1)))"
  obtain u st x y where t: "hke_tx E tx (hk_tx_ctx (w_hk w1)) frame u = (st, x)"
    and s: "comm_rs485_status_send E (Some ?r) w1 = (st, y)"
    and y: "w_hk y = (if st = QIRAN_OK then (w_hk w1)\<lparr>hk_status := frame, hk_status_frames := hk_status_frames (w_hk w1) + 1\<rparr>
        else (w_hk w1)\<lparr>hk_status := frame, hk_tx_failures := hk_tx_failures (w_hk w1) + 1\<rparr>)"
      "w_fdir y = (if st = QIRAN_OK then w_fdir w1
        else fdir_counted QIRAN_FAULT_HK_TRANSMIT (status_code st) (exec_raw_tick_count x) (w_fdir w1))"
    using hk_send_status [OF assms(1,2) _ _ il, of w1 tx] assms(3,4) w1(1) unfolding frame_def by auto
  let ?v = "fdir_escalate (hk_fdir_env E) f d w"
  have v: "?v = (if st \<noteq> QIRAN_OK then y\<lparr>w_fdir := (w_fdir y)\<lparr>fd_undelivered := fd_undelivered (w_fdir y) + 1\<rparr>\<rparr> else y)"
    using assms(5,6) s w1(2) unfolding fdir_escalate_def Let_def w1_def [symmetric]
    by (cases "fp_escalation (k_policy f)")
      (simp_all add: hk_fdir_env_def uplink_report_def uplink_power_reset_def)
  have lb: "length (status_body ?r (fst (svc_time_now_ms w1))) = 16"
    using il by (simp add: status_body_def COMM_HK_INTERLOCKS_def)
  obtain a b c e g where ils: "sr_interlock ?r = [a, b, c, e, g]"
    using list5 [of "sr_interlock ?r"] il by (auto simp: COMM_HK_INTERLOCKS_def)
  have fields: "comm_get_u16 frame 13 = of_nat (fault_idx f)" "frame ! 15 = of_nat (severity_idx ?sev)"
    unfolding frame_def with_crc_def status_body_def ils
    by (simp_all add: fill_current_def be32_def be16_def comm_get_u16_def get_be_bytes del: if_split)
  have crc: "comm_get_u32 frame 16 = crc32 (take 16 frame)"
    using get_u32_be [of "status_body ?r (fst (svc_time_now_ms w1))" _ "[]"] lb
    by (simp add: frame_def with_crc_def)
  have n: "length frame = 20" using lb by (simp add: frame_def with_crc_def)
  show ?thesis
    using t w1 fields crc n v y
    by (intro exI [of _ u] exI [of _ frame] exI [of _ st] exI [of _ x])
      (auto simp: comm_rs485_hk_status_sent_def comm_rs485_hk_transmit_failures_def svc_fdir_undelivered_def
        fdir_unserviced_def fdir_counted_def Let_def algebra_simps)
qed

theorem hk_escalation_delivered_witness:
  "\<forall>w :: hk_world. let v = fdir_escalate (hk_fdir_env hk_env0) QIRAN_FAULT_POST 3 (w\<lparr>w_hk := hk_state0, w_fdir := fdir_state0\<rparr>)
    in comm_rs485_hk_status_sent v = 1 \<and> svc_fdir_undelivered v = 0"
proof
  fix w :: hk_world
  let ?w = "w\<lparr>w_hk := hk_state0, w_fdir := fdir_state0\<rparr>"
  have q: "hk_tx_quiet hk_env0" by (simp add: hk_tx_quiet_def hk_env0_def)
  have f: "hk_ok (w_hk ?w)" using hk_state0_ok by simp
  have g: "hk_tx (w_hk ?w) = Some 2" "fd_uplink_set (w_fdir ?w)"
    "fp_escalation (k_policy QIRAN_FAULT_POST) \<noteq> QIRAN_ESCALATE_LOG_ONLY"
    "comm_rs485_hk_status_sent ?w = 0" "svc_fdir_undelivered ?w = 0"
    by (simp_all add: hk_state0_def fdir_state0_def fdir_policy_def comm_rs485_hk_status_sent_def svc_fdir_undelivered_def)
  have "st = QIRAN_OK" if "hke_tx hk_env0 h c bs u = (st, x)" for h c bs u st x using that by (simp add: hk_env0_def)
  then show "let v = fdir_escalate (hk_fdir_env hk_env0) QIRAN_FAULT_POST 3 ?w
    in comm_rs485_hk_status_sent v = 1 \<and> svc_fdir_undelivered v = 0"
    using hk_escalation_delivered [OF hk_env0_ok q f g(1-3), of 3] g(4,5) unfolding Let_def by fastforce
qed

text \<open>A request for a power cycle puts the same frame on the link as a severe report of that class.\<close>

lemma hk_reset_request_same: "uplink_power_reset E f w = uplink_report E f QIRAN_SEV_SEVERE d w"
  by (simp add: uplink_power_reset_def uplink_report_def)

end
