(* ===== verification/Comm_Process.thy ===== *)
theory Comm_Process
  imports Comm_Rs485_Hk
begin

section \<open>Bringing up communication: \<^verbatim>\<open>src/comm/comm_process.c\<close>\<close>

text \<open>
  The order of the initialisations and the one connection between the packet router and the command
  sequence. The consumer registered for the command class is the module's own function; the other
  consumers stay parameters.
\<close>

definition consume_command ::
  "'a cmd_world_scheme cmd_env \<Rightarrow> ccsds_header \<Rightarrow> u8 list \<Rightarrow> 'a cmd_world_scheme \<Rightarrow> qiran_status \<times> 'a cmd_world_scheme" where
  "consume_command E header app_data w = comm_cmd_submit E (Some app_data) (of_nat (length app_data)) w"

text \<open>The handle that stands for the function, and what the consumers' handles mean with it.\<close>

definition COMMAND_CONSUMER :: handle where "COMMAND_CONSUMER = 0"

definition process_consume ::
  "'a cmd_world_scheme cmd_env \<Rightarrow> 'a cmd_world_scheme ccsds_consume \<Rightarrow> 'a cmd_world_scheme ccsds_consume" where
  "process_consume E other h ctx header app w =
    (if h = COMMAND_CONSUMER then consume_command E header app w else other h ctx header app w)"

definition comm_process_init :: "'a hk_world_scheme \<Rightarrow> 'a hk_world_scheme" where
  "comm_process_init w =
    (let w = comm_rs485_hk_init w;
         w = comm_cmd_init w;
         w = comm_ccsds_init w;
         w = comm_spw_link_init w;
         w = comm_output_init w
     in snd (comm_ccsds_register CCSDS_CLASS_COMMAND (Some COMMAND_CONSUMER) None w))"

lemma process_init_ccsds:
  "w_ccsds (comm_process_init w) = (w_ccsds (comm_ccsds_init w))\<lparr>
     cc_consumer := (\<lambda>_. None)(CCSDS_CLASS_COMMAND := Some COMMAND_CONSUMER), cc_ctx := (\<lambda>_. None)\<rparr>"
proof -
  have k: "w_ccsds (comm_output_init v) = w_ccsds v" "w_ccsds (comm_spw_link_init v) = w_ccsds v"
    for v :: "'a hk_world_scheme"
    by (simp_all add: comm_output_init_def output_upd_def comm_spw_link_init_def spw_upd_def)
  have i: "w_ccsds (comm_ccsds_init v) = w_ccsds (comm_ccsds_init w)" for v :: "'a hk_world_scheme"
    by (simp add: comm_ccsds_init_def)
  have f: "cc_consumer (w_ccsds (comm_ccsds_init v)) = (\<lambda>_. None)" "cc_ctx (w_ccsds (comm_ccsds_init v)) = (\<lambda>_. None)"
    for v :: "'a hk_world_scheme"
    by (simp_all add: comm_ccsds_init_def)
  show ?thesis
    by (simp add: comm_process_init_def Let_def comm_ccsds_register_def k f i [of "comm_cmd_init (comm_rs485_hk_init w)"])
qed

lemma process_init_cmd: "w_cmd (comm_process_init w) = w_cmd (comm_cmd_init w)"
  by (simp add: comm_process_init_def Let_def comm_ccsds_register_def comm_output_init_def output_upd_def
      comm_spw_link_init_def spw_upd_def comm_ccsds_init_def ccsds_upd_def comm_cmd_init_def cmd_upd_def
      comm_rs485_hk_init_def hk_upd_def)

text \<open>Every frame processed is counted once as received.\<close>

lemma dispatch_received:
  assumes "cmd_env_ok E"
  shows "cm_received (w_cmd (cmd_dispatch E c p q r w)) = cm_received (w_cmd w)"
proof (cases "cm_handler (w_cmd w) c")
  case None
  then show ?thesis by (simp add: cmd_dispatch_def cmd_outcomes [OF assms])
next
  case (Some h)
  obtain st u where u: "cmd_call E h (cm_ctx (w_cmd w) c) p w = (st, u)" by (rule prod.exhaust)
  then have k: "w_cmd u = w_cmd w" using cmd_call_keeps(1) [OF assms, of h "cm_ctx (w_cmd w) c" p w] by simp
  consider "st = QIRAN_OK" | "st = QIRAN_ERR_BUSY" | "st \<noteq> QIRAN_OK" "st \<noteq> QIRAN_ERR_BUSY" by blast
  then show ?thesis
  proof cases
    case 2
    then show ?thesis
      using Some k by (simp add: cmd_dispatch_def u send_result_keeps [OF assms] timeout_arm_def split_beta Let_def)
  qed (use Some k in \<open>simp_all add: cmd_dispatch_def u cmd_outcomes [OF assms]\<close>)
qed

lemma process_received:
  assumes "cmd_env_ok E"
  shows "cm_received (w_cmd (cmd_process E frame w)) = cm_received (w_cmd w) + 1"
  unfolding process_verdict Let_def
  by (simp add: cmd_outcomes [OF assms] dispatch_received [OF assms] split: option.split)

lemma submit_received:
  assumes "cmd_env_ok E" "length bs < 2 ^ 32"
  shows "fst (comm_cmd_submit E (Some bs) (of_nat (length bs)) w) = QIRAN_OK \<longleftrightarrow> frame_valid bs"
    and "comm_cmd_received (snd (comm_cmd_submit E (Some bs) (of_nat (length bs)) w)) =
      comm_cmd_received w + (if frame_valid bs then 1 else 0)"
proof -
  have n: "(of_nat (length bs) :: u32) = 13 \<longleftrightarrow> length bs = 13"
  proof
    assume e: "(of_nat (length bs) :: u32) = 13"
    show "length bs = 13" using unat_of_nat_eq_u32 [of "length bs"] assms(2) unfolding e by simp
  qed simp
  show "fst (comm_cmd_submit E (Some bs) (of_nat (length bs)) w) = QIRAN_OK \<longleftrightarrow> frame_valid bs"
    "comm_cmd_received (snd (comm_cmd_submit E (Some bs) (of_nat (length bs)) w)) =
      comm_cmd_received w + (if frame_valid bs then 1 else 0)"
    by (auto simp: comm_cmd_submit_def COMM_CMD_FRAME_BYTES_def n frame_valid_def comm_cmd_received_def
        process_received [OF assms(1)])
qed

text \<open>C31: One sequence for both links: bringing up the communication modules routes the command class to
  the command sequence, and wherever it is routed there, whatever packets were received, lost or refused
  before, an intact space packet of that class, whatever its type, flags and count, hands its
  application data to the command sequence exactly as a frame submitted directly, after its sequence
  count has been checked and noted; a gap in the count is reported and drops nothing. The data is taken
  as a command exactly when it is a valid frame.\<close>

theorem process_command_routed:
  fixes w w0 :: "'a hk_world_scheme" and other :: "'a hk_world_scheme ccsds_consume"
  assumes "header_ok h" "ch_data_length h = of_nat (length app + 3)" "length app \<le> 65532"
    and "comm_ccsds_class_of (ch_apid h) w = CCSDS_CLASS_COMMAND"
    and "cc_consumer (w_ccsds w) CCSDS_CLASS_COMMAND = Some COMMAND_CONSUMER" "cmd_env_ok E"
  defines "r \<equiv> comm_ccsds_receive (process_consume E other) (Some (ccsds_packet h app)) (of_nat (length app + 10)) w"
  defines "n \<equiv> ch_seq_count h"
  shows "r = comm_cmd_submit E (Some app) (of_nat (length app))
      (ccsds_upd (ccsds_received CCSDS_CLASS_COMMAND n) (ccsds_gap_check CCSDS_CLASS_COMMAND n w)) \<and>
    comm_cmd_received (snd r) = comm_cmd_received w + (if frame_valid app then 1 else 0) \<and>
    (fst r = QIRAN_OK \<longleftrightarrow> frame_valid app) \<and>
    (let v = comm_process_init w0 in comm_ccsds_class_of 1 v = CCSDS_CLASS_COMMAND \<and>
       cc_consumer (w_ccsds v) CCSDS_CLASS_COMMAND = Some COMMAND_CONSUMER \<and> comm_cmd_received v = 0)"
proof -
  let ?v = "ccsds_upd (ccsds_received CCSDS_CLASS_COMMAND n) (ccsds_gap_check CCSDS_CLASS_COMMAND n w)"
  have r: "r = comm_cmd_submit E (Some app) (of_nat (length app)) ?v"
    unfolding r_def n_def ccsds_packet_def
    using receive_eq [OF assms(1) refl assms(3,2) assms(4) [symmetric], of "process_consume E other" "crc32 app" "[]"]
    by (simp add: assms(5) process_consume_def consume_command_def Let_def del: of_nat_add)
  have "w_cmd ?v = w_cmd w" by (simp add: ccsds_upd_def ccsds_gap_check_def Let_def)
  then have z: "comm_cmd_received ?v = comm_cmd_received w" by (simp add: comm_cmd_received_def)
  have "comm_ccsds_class_of 1 (comm_process_init w0) = CCSDS_CLASS_COMMAND"
    by (simp add: comm_ccsds_class_of_def process_init_ccsds comm_ccsds_init_def ccsds_classes_def)
  moreover have "cc_consumer (w_ccsds (comm_process_init w0)) CCSDS_CLASS_COMMAND = Some COMMAND_CONSUMER"
    by (simp add: process_init_ccsds)
  moreover have "comm_cmd_received (comm_process_init w0) = 0"
    by (simp add: comm_cmd_received_def process_init_cmd comm_cmd_init_def)
  ultimately show ?thesis
    using submit_received [OF assms(6), of app ?v] assms(3) z unfolding r by simp
qed

definition process_env0 :: "hk_world cmd_env" where
  "process_env0 = \<lparr>ke_handler = (\<lambda>_ _ _ w. (QIRAN_OK, w)), ke_tx = (\<lambda>_ _ _ w. (QIRAN_OK, w))\<rparr>"

text \<open>A mode command in a telecommand packet is received, also as the second packet after a gap in the
  sequence; the first twelve bytes of one alone are not.\<close>

theorem process_command_routed_witness:
  "\<forall>w0 :: hk_world. let w = comm_process_init w0; other = (\<lambda>_ _ _ _ w. (QIRAN_OK, w)); frame = cmd_frame CMD_MODE 0 7;
      h = (\<lambda>n k. \<lparr>ch_version = 0, ch_type = CCSDS_TC, ch_secondary_header = False, ch_apid = 1,
            ch_seq_flags = CCSDS_SEQ_UNSEGMENTED, ch_seq_count = k, ch_data_length = of_nat (n + 3)\<rparr>);
      v = ccsds_upd (\<lambda>s. s\<lparr>cc_rx_seen := (cc_rx_seen s)(CCSDS_CLASS_COMMAND := True),
            cc_rx_expect := (cc_rx_expect s)(CCSDS_CLASS_COMMAND := 5)\<rparr>) w;
      u = snd (comm_ccsds_receive (process_consume process_env0 other) (Some (ccsds_packet (h 13 9) frame)) 23 v)
    in comm_cmd_received u = 1 \<and>
       comm_cmd_received (snd (comm_ccsds_receive (process_consume process_env0 other)
         (Some (ccsds_packet (h 12 5) (take 12 frame))) 22 w)) = 0"
proof
  fix w0 :: hk_world
  let ?other = "\<lambda>_ _ _ _ w. (QIRAN_OK, w) :: qiran_status \<times> hk_world" and ?f = "cmd_frame CMD_MODE 0 7"
  let ?h = "\<lambda>(n :: nat) k. \<lparr>ch_version = 0, ch_type = CCSDS_TC, ch_secondary_header = False, ch_apid = 1,
            ch_seq_flags = CCSDS_SEQ_UNSEGMENTED, ch_seq_count = k, ch_data_length = of_nat (n + 3)\<rparr>"
  let ?w = "comm_process_init w0"
  let ?v = "ccsds_upd (\<lambda>s. s\<lparr>cc_rx_seen := (cc_rx_seen s)(CCSDS_CLASS_COMMAND := True),
      cc_rx_expect := (cc_rx_expect s)(CCSDS_CLASS_COMMAND := 5)\<rparr>) ?w"
  have E: "cmd_env_ok process_env0" by (simp add: cmd_env_ok_def process_env0_def)
  have h: "header_ok (?h n 9)" "header_ok (?h n 5)" for n by (simp_all add: header_ok_def ccsds_consts)
  have cls: "comm_ccsds_class_of 1 ?w = CCSDS_CLASS_COMMAND" "comm_ccsds_class_of 1 ?v = CCSDS_CLASS_COMMAND"
    by (simp_all add: comm_ccsds_class_of_def process_init_ccsds comm_ccsds_init_def ccsds_classes_def ccsds_upd_def)
  have con: "cc_consumer (w_ccsds ?w) CCSDS_CLASS_COMMAND = Some COMMAND_CONSUMER"
    "cc_consumer (w_ccsds ?v) CCSDS_CLASS_COMMAND = Some COMMAND_CONSUMER"
    by (simp_all add: process_init_ccsds ccsds_upd_def)
  have z: "comm_cmd_received ?w = 0" "comm_cmd_received ?v = 0"
    by (simp_all add: comm_cmd_received_def process_init_cmd comm_cmd_init_def ccsds_upd_def)
  have v: "frame_valid ?f" using frame_fields [of CMD_MODE 0 7] by (simp add: frame_valid_def)
  have nv: "\<not> frame_valid (take 12 ?f)" by (simp add: frame_valid_def)
  have a: "comm_cmd_received (snd (comm_ccsds_receive (process_consume process_env0 ?other)
      (Some (ccsds_packet (?h 13 9) ?f)) 23 ?v)) = 1"
    using process_command_routed [OF h(1) _ _ _ con(2) E, of 13 ?f ?other, THEN conjunct2, THEN conjunct1] v z cls by simp
  have b: "comm_cmd_received (snd (comm_ccsds_receive (process_consume process_env0 ?other)
      (Some (ccsds_packet (?h 12 5) (take 12 ?f))) 22 ?w)) = 0"
    using process_command_routed [OF h(2) _ _ _ con(1) E, of 12 "take 12 ?f" ?other, THEN conjunct2, THEN conjunct1] nv z cls by simp
  show "let w = comm_process_init w0; other = ?other; frame = ?f; h = ?h;
      v = ccsds_upd (\<lambda>s. s\<lparr>cc_rx_seen := (cc_rx_seen s)(CCSDS_CLASS_COMMAND := True),
            cc_rx_expect := (cc_rx_expect s)(CCSDS_CLASS_COMMAND := 5)\<rparr>) w;
      u = snd (comm_ccsds_receive (process_consume process_env0 other) (Some (ccsds_packet (h 13 9) frame)) 23 v)
    in comm_cmd_received u = 1 \<and>
       comm_cmd_received (snd (comm_ccsds_receive (process_consume process_env0 other)
         (Some (ccsds_packet (h 12 5) (take 12 frame))) 22 w)) = 0"
    unfolding Let_def using a b by (rule conjI)
qed

end
