(* ===== verification/Storage_Ddr.thy ===== *)
theory Storage_Ddr
  imports Comm_Process
begin

section \<open>Memory regions and their owners: \<^verbatim>\<open>src/data/storage_ddr.c\<close>\<close>

text \<open>
  External memory is an explicit store: a byte at every address. A region is a base address with a
  capacity, the number of bytes in use and an owner. Two regions, or a region and the source of an
  append, may overlap; the lemmas that need them apart say so. Owner and region names are not
  modelled.
\<close>

datatype ddr_owner =
    DDR_OWNER_NONE | DDR_OWNER_PL_DMA | DDR_OWNER_PS_PROCESSING | DDR_OWNER_STORAGE
  | DDR_OWNER_COMMS | DDR_OWNER_COUNT

fun owner_code :: "ddr_owner \<Rightarrow> u32" where
  "owner_code DDR_OWNER_NONE = 0"
| "owner_code DDR_OWNER_PL_DMA = 1"
| "owner_code DDR_OWNER_PS_PROCESSING = 2"
| "owner_code DDR_OWNER_STORAGE = 3"
| "owner_code DDR_OWNER_COMMS = 4"
| "owner_code DDR_OWNER_COUNT = 5"

datatype ddr_region =
    DDR_REGION_RAW_CH0_A | DDR_REGION_RAW_CH0_B | DDR_REGION_RAW_CH1_A | DDR_REGION_RAW_CH1_B
  | DDR_REGION_PROCESSED | DDR_REGION_TX_PACKET | DDR_REGION_SCRATCH | DDR_REGION_COUNT

definition ddr_regions :: "ddr_region list" where
  "ddr_regions = [DDR_REGION_RAW_CH0_A, DDR_REGION_RAW_CH0_B, DDR_REGION_RAW_CH1_A, DDR_REGION_RAW_CH1_B,
     DDR_REGION_PROCESSED, DDR_REGION_TX_PACKET, DDR_REGION_SCRATCH]"

definition region_idx :: "ddr_region \<Rightarrow> nat" where
  "region_idx r = length (takeWhile (\<lambda>q. q \<noteq> r) ddr_regions)"

definition DDR_CHANNELS :: u32 where "DDR_CHANNELS = 2"
definition DDR_RAW_SLOTS :: u32 where "DDR_RAW_SLOTS = 2"

record region =
  dr_base :: "nat option"
  dr_capacity :: u32
  dr_used :: u32
  dr_owner :: ddr_owner

record ddr_state =
  dd_region :: "ddr_region \<Rightarrow> region"
  dd_violations :: u32
  dd_handoffs :: u32
  dd_overruns :: u32

record ddr_world = hk_world +
  w_mem :: "nat \<Rightarrow> u8"
  w_ddr :: ddr_state

definition ddr_upd :: "(ddr_state \<Rightarrow> ddr_state) \<Rightarrow> 'a ddr_world_scheme \<Rightarrow> 'a ddr_world_scheme" where
  "ddr_upd f w = w\<lparr>w_ddr := f (w_ddr w)\<rparr>"

definition region_upd :: "ddr_region \<Rightarrow> (region \<Rightarrow> region) \<Rightarrow> ddr_state \<Rightarrow> ddr_state" where
  "region_upd r f s = s\<lparr>dd_region := (dd_region s)(r := f (dd_region s r))\<rparr>"

definition storage_ddr_init :: "'a ddr_world_scheme \<Rightarrow> 'a ddr_world_scheme" where
  "storage_ddr_init = ddr_upd (\<lambda>_. \<lparr>dd_region = (\<lambda>_. \<lparr>dr_base = None, dr_capacity = 0, dr_used = 0,
     dr_owner = DDR_OWNER_NONE\<rparr>), dd_violations = 0, dd_handoffs = 0, dd_overruns = 0\<rparr>)"

definition storage_ddr_set_region ::
  "ddr_region \<Rightarrow> nat option \<Rightarrow> u32 \<Rightarrow> 'a ddr_world_scheme \<Rightarrow> qiran_status \<times> 'a ddr_world_scheme" where
  "storage_ddr_set_region r base bytes w =
    (if r = DDR_REGION_COUNT \<or> base = None \<or> bytes = 0 then (QIRAN_ERR_PARAM, w)
     else if dr_owner (dd_region (w_ddr w) r) \<noteq> DDR_OWNER_NONE then (QIRAN_ERR_STATE, w)
     else (QIRAN_OK, ddr_upd (region_upd r (\<lambda>x. x\<lparr>dr_base := base, dr_capacity := bytes, dr_used := 0\<rparr>)) w))"

definition storage_ddr_configured :: "ddr_region \<Rightarrow> 'a ddr_world_scheme \<Rightarrow> bool" where
  "storage_ddr_configured r w \<longleftrightarrow> r \<noteq> DDR_REGION_COUNT \<and> dr_base (dd_region (w_ddr w) r) \<noteq> None"

definition storage_ddr_owner :: "ddr_region \<Rightarrow> 'a ddr_world_scheme \<Rightarrow> ddr_owner" where
  "storage_ddr_owner r w = (if r \<noteq> DDR_REGION_COUNT then dr_owner (dd_region (w_ddr w) r) else DDR_OWNER_NONE)"

definition violation :: "ddr_region \<Rightarrow> ddr_owner \<Rightarrow> 'a ddr_world_scheme \<Rightarrow> 'a ddr_world_scheme" where
  "violation r expected w =
    (let w = ddr_upd (\<lambda>s. s\<lparr>dd_violations := dd_violations s + 1\<rparr>) w
     in svc_fdir_report QIRAN_FAULT_BUFFER_OWNERSHIP
          (push_bit 16 (of_nat (region_idx r)) OR push_bit 8 (owner_code expected) OR
           owner_code (dr_owner (dd_region (w_ddr w) r))) w)"

definition storage_ddr_handoff ::
  "ddr_region \<Rightarrow> ddr_owner \<Rightarrow> ddr_owner \<Rightarrow> 'a ddr_world_scheme \<Rightarrow> qiran_status \<times> 'a ddr_world_scheme" where
  "storage_ddr_handoff r from_o to_o w =
    (if r = DDR_REGION_COUNT \<or> from_o = DDR_OWNER_COUNT \<or> to_o = DDR_OWNER_COUNT then (QIRAN_ERR_PARAM, w)
     else if dr_base (dd_region (w_ddr w) r) = None then (QIRAN_ERR_UNSUPPORTED, w)
     else if dr_owner (dd_region (w_ddr w) r) \<noteq> from_o then (QIRAN_ERR_STATE, violation r from_o w)
     else (QIRAN_OK, ddr_upd (\<lambda>s. (region_upd r (\<lambda>x. x\<lparr>dr_owner := to_o\<rparr>) s)\<lparr>dd_handoffs := dd_handoffs s + 1\<rparr>) w))"

definition storage_ddr_clear ::
  "ddr_region \<Rightarrow> ddr_owner \<Rightarrow> 'a ddr_world_scheme \<Rightarrow> qiran_status \<times> 'a ddr_world_scheme" where
  "storage_ddr_clear r from_o w =
    (if r = DDR_REGION_COUNT \<or> from_o = DDR_OWNER_COUNT then (QIRAN_ERR_PARAM, w)
     else if dr_owner (dd_region (w_ddr w) r) \<noteq> from_o then (QIRAN_ERR_STATE, violation r from_o w)
     else (QIRAN_OK, ddr_upd (region_upd r (\<lambda>x. x\<lparr>dr_used := 0, dr_owner := DDR_OWNER_NONE\<rparr>)) w))"

definition overrun :: "ddr_region \<Rightarrow> 'a ddr_world_scheme \<Rightarrow> 'a ddr_world_scheme" where
  "overrun r w = svc_fdir_report QIRAN_FAULT_DDR_OVERRUN (of_nat (region_idx r))
     (ddr_upd (\<lambda>s. s\<lparr>dd_overruns := dd_overruns s + 1\<rparr>) w)"

text \<open>The copy loop; the destination index is a word.\<close>

definition append_bytes :: "nat \<Rightarrow> u32 \<Rightarrow> nat \<Rightarrow> nat \<Rightarrow> (nat \<Rightarrow> u8) \<Rightarrow> nat \<Rightarrow> u8" where
  "append_bytes base used src n = fold (\<lambda>i m. m(base + unat (used + of_nat i) := m (src + i))) [0..<n]"

definition storage_ddr_append ::
  "ddr_region \<Rightarrow> ddr_owner \<Rightarrow> nat option \<Rightarrow> u32 \<Rightarrow> 'a ddr_world_scheme \<Rightarrow> qiran_status \<times> 'a ddr_world_scheme" where
  "storage_ddr_append r own data len w =
    (if r = DDR_REGION_COUNT \<or> data = None \<or> len = 0 then (QIRAN_ERR_PARAM, w)
     else (let x = dd_region (w_ddr w) r
           in case dr_base x of
                None \<Rightarrow> (QIRAN_ERR_UNSUPPORTED, w)
              | Some base \<Rightarrow>
                  if dr_owner x \<noteq> own then (QIRAN_ERR_STATE, violation r own w)
                  else if dr_capacity x - dr_used x < len then (QIRAN_ERR_RANGE, overrun r w)
                  else (QIRAN_OK, ddr_upd (region_upd r (\<lambda>x. x\<lparr>dr_used := dr_used x + len\<rparr>))
                         (w\<lparr>w_mem := append_bytes base (dr_used x) (the data) (unat len) (w_mem w)\<rparr>))))"

definition storage_ddr_set_used ::
  "ddr_region \<Rightarrow> ddr_owner \<Rightarrow> u32 \<Rightarrow> 'a ddr_world_scheme \<Rightarrow> qiran_status \<times> 'a ddr_world_scheme" where
  "storage_ddr_set_used r own used w =
    (if r = DDR_REGION_COUNT then (QIRAN_ERR_PARAM, w)
     else (let x = dd_region (w_ddr w) r
           in if dr_base x = None then (QIRAN_ERR_UNSUPPORTED, w)
              else if dr_owner x \<noteq> own then (QIRAN_ERR_STATE, violation r own w)
              else if dr_capacity x < used then (QIRAN_ERR_RANGE, overrun r w)
              else (QIRAN_OK, ddr_upd (region_upd r (\<lambda>x. x\<lparr>dr_used := used\<rparr>)) w)))"

text \<open>The two result pointers are assumed given; they are written on success only.\<close>

definition storage_ddr_read ::
  "ddr_region \<Rightarrow> ddr_owner \<Rightarrow> 'a ddr_world_scheme \<Rightarrow> qiran_status \<times> (nat \<times> u32) option \<times> 'a ddr_world_scheme" where
  "storage_ddr_read r own w =
    (if r = DDR_REGION_COUNT then (QIRAN_ERR_PARAM, None, w)
     else (let x = dd_region (w_ddr w) r
           in case dr_base x of
                None \<Rightarrow> (QIRAN_ERR_UNSUPPORTED, None, w)
              | Some base \<Rightarrow>
                  if dr_owner x \<noteq> own then (QIRAN_ERR_STATE, None, violation r own w)
                  else (QIRAN_OK, Some (base, dr_used x), w)))"

definition storage_ddr_used :: "ddr_region \<Rightarrow> 'a ddr_world_scheme \<Rightarrow> u32" where
  "storage_ddr_used r w = (if r \<noteq> DDR_REGION_COUNT then dr_used (dd_region (w_ddr w) r) else 0)"

definition storage_ddr_capacity :: "ddr_region \<Rightarrow> 'a ddr_world_scheme \<Rightarrow> u32" where
  "storage_ddr_capacity r w = (if r \<noteq> DDR_REGION_COUNT then dr_capacity (dd_region (w_ddr w) r) else 0)"

definition storage_ddr_free :: "ddr_region \<Rightarrow> 'a ddr_world_scheme \<Rightarrow> u32" where
  "storage_ddr_free r w = (if r = DDR_REGION_COUNT then 0
     else dr_capacity (dd_region (w_ddr w) r) - dr_used (dd_region (w_ddr w) r))"

definition storage_ddr_free_raw_slot :: "u32 \<Rightarrow> 'a ddr_world_scheme \<Rightarrow> ddr_region" where
  "storage_ddr_free_raw_slot channel w =
    (if DDR_CHANNELS \<le> channel then DDR_REGION_COUNT
     else (let first = unat (channel * DDR_RAW_SLOTS);
               free = (\<lambda>r. dr_base (dd_region (w_ddr w) r) \<noteq> None \<and> dr_owner (dd_region (w_ddr w) r) = DDR_OWNER_NONE)
           in case find free (map (\<lambda>i. ddr_regions ! (first + i)) [0..<unat DDR_RAW_SLOTS]) of
                Some r \<Rightarrow> r | None \<Rightarrow> DDR_REGION_COUNT))"

definition storage_ddr_violations :: "'a ddr_world_scheme \<Rightarrow> u32" where
  "storage_ddr_violations w = dd_violations (w_ddr w)"

definition storage_ddr_handoffs :: "'a ddr_world_scheme \<Rightarrow> u32" where
  "storage_ddr_handoffs w = dd_handoffs (w_ddr w)"

definition storage_ddr_overruns :: "'a ddr_world_scheme \<Rightarrow> u32" where
  "storage_ddr_overruns w = dd_overruns (w_ddr w)"


section \<open>What the regions promise\<close>

text \<open>
  The specification: every configured region is a buffer of its own, with an owner, a number of bytes
  in use and its bytes; an operation presented by anyone but the owner is refused without effect.
\<close>

record buffer =
  bf_owner :: ddr_owner
  bf_used :: nat
  bf_bytes :: "u8 list"

type_synonym buffers = "ddr_region \<Rightarrow> buffer option"

datatype 'd ddr_op =
    Dd_handoff ddr_region ddr_owner ddr_owner
  | Dd_clear ddr_region ddr_owner
  | Dd_append ddr_region ddr_owner 'd
  | Dd_set_used ddr_region ddr_owner u32
  | Dd_read ddr_region ddr_owner

type_synonym ddr_result = "qiran_status \<times> u8 list option"

definition buf_put :: "u8 list \<Rightarrow> buffer \<Rightarrow> buffer" where
  "buf_put data b = b\<lparr>bf_used := bf_used b + length data,
     bf_bytes := take (bf_used b) (bf_bytes b) @ data @ drop (bf_used b + length data) (bf_bytes b)\<rparr>"

fun buf_step :: "u8 list ddr_op \<Rightarrow> buffers \<Rightarrow> ddr_result \<times> buffers" where
  "buf_step (Dd_handoff r from_o to_o) B =
    (if r = DDR_REGION_COUNT \<or> from_o = DDR_OWNER_COUNT \<or> to_o = DDR_OWNER_COUNT then ((QIRAN_ERR_PARAM, None), B)
     else case B r of None \<Rightarrow> ((QIRAN_ERR_UNSUPPORTED, None), B) | Some b \<Rightarrow>
       if bf_owner b \<noteq> from_o then ((QIRAN_ERR_STATE, None), B)
       else ((QIRAN_OK, None), B(r \<mapsto> b\<lparr>bf_owner := to_o\<rparr>)))"
| "buf_step (Dd_clear r from_o) B =
    (if r = DDR_REGION_COUNT \<or> from_o = DDR_OWNER_COUNT then ((QIRAN_ERR_PARAM, None), B)
     else case B r of
       None \<Rightarrow> ((if from_o = DDR_OWNER_NONE then QIRAN_OK else QIRAN_ERR_STATE, None), B)
     | Some b \<Rightarrow>
       if bf_owner b \<noteq> from_o then ((QIRAN_ERR_STATE, None), B)
       else ((QIRAN_OK, None), B(r \<mapsto> b\<lparr>bf_owner := DDR_OWNER_NONE, bf_used := 0\<rparr>)))"
| "buf_step (Dd_append r own data) B =
    (if r = DDR_REGION_COUNT \<or> data = [] then ((QIRAN_ERR_PARAM, None), B)
     else case B r of None \<Rightarrow> ((QIRAN_ERR_UNSUPPORTED, None), B) | Some b \<Rightarrow>
       if bf_owner b \<noteq> own then ((QIRAN_ERR_STATE, None), B)
       else if length (bf_bytes b) < bf_used b + length data then ((QIRAN_ERR_RANGE, None), B)
       else ((QIRAN_OK, None), B(r \<mapsto> buf_put data b)))"
| "buf_step (Dd_set_used r own n) B =
    (if r = DDR_REGION_COUNT then ((QIRAN_ERR_PARAM, None), B)
     else case B r of None \<Rightarrow> ((QIRAN_ERR_UNSUPPORTED, None), B) | Some b \<Rightarrow>
       if bf_owner b \<noteq> own then ((QIRAN_ERR_STATE, None), B)
       else if length (bf_bytes b) < unat n then ((QIRAN_ERR_RANGE, None), B)
       else ((QIRAN_OK, None), B(r \<mapsto> b\<lparr>bf_used := unat n\<rparr>)))"
| "buf_step (Dd_read r own) B =
    (if r = DDR_REGION_COUNT then ((QIRAN_ERR_PARAM, None), B)
     else case B r of None \<Rightarrow> ((QIRAN_ERR_UNSUPPORTED, None), B) | Some b \<Rightarrow>
       if bf_owner b \<noteq> own then ((QIRAN_ERR_STATE, None), B)
       else ((QIRAN_OK, Some (take (bf_used b) (bf_bytes b))), B))"

fun buf_run :: "u8 list ddr_op list \<Rightarrow> buffers \<Rightarrow> ddr_result list \<times> buffers" where
  "buf_run [] B = ([], B)"
| "buf_run (p # ps) B = (let (x, B) = buf_step p B; (xs, B) = buf_run ps B in (x # xs, B))"

text \<open>The operations of the module; the source of an append is an address and a length.\<close>

definition mem_bytes :: "(nat \<Rightarrow> u8) \<Rightarrow> nat \<Rightarrow> nat \<Rightarrow> u8 list" where
  "mem_bytes m a n = map (\<lambda>i. m (a + i)) [0..<n]"

definition source_bytes :: "(nat \<Rightarrow> u8) \<Rightarrow> nat option \<times> u32 \<Rightarrow> u8 list" where
  "source_bytes m = (\<lambda>(p, n). case p of None \<Rightarrow> [] | Some a \<Rightarrow> mem_bytes m a (unat n))"

fun ddr_step :: "(nat option \<times> u32) ddr_op \<Rightarrow> 'a ddr_world_scheme \<Rightarrow> ddr_result \<times> 'a ddr_world_scheme" where
  "ddr_step (Dd_handoff r f t) w = (let (st, w) = storage_ddr_handoff r f t w in ((st, None), w))"
| "ddr_step (Dd_clear r f) w = (let (st, w) = storage_ddr_clear r f w in ((st, None), w))"
| "ddr_step (Dd_append r own src) w = (let (st, w) = storage_ddr_append r own (fst src) (snd src) w in ((st, None), w))"
| "ddr_step (Dd_set_used r own n) w = (let (st, w) = storage_ddr_set_used r own n w in ((st, None), w))"
| "ddr_step (Dd_read r own) w = (let (st, x, w) = storage_ddr_read r own w
     in ((st, map_option (\<lambda>(a, n). mem_bytes (w_mem w) a (unat n)) x), w))"

fun ddr_run :: "(nat option \<times> u32) ddr_op list \<Rightarrow> 'a ddr_world_scheme \<Rightarrow> ddr_result list \<times> 'a ddr_world_scheme" where
  "ddr_run [] w = ([], w)"
| "ddr_run (p # ps) w = (let (x, w) = ddr_step p w; (xs, w) = ddr_run ps w in (x # xs, w))"

text \<open>Each region keeps to its memory.\<close>

definition region_ok :: "region \<Rightarrow> bool" where
  "region_ok x \<longleftrightarrow> dr_used x \<le> dr_capacity x \<and> dr_owner x \<noteq> DDR_OWNER_COUNT \<and>
     (dr_base x = None \<longrightarrow> dr_capacity x = 0 \<and> dr_owner x = DDR_OWNER_NONE)"

definition ddr_ok :: "ddr_state \<Rightarrow> bool" where
  "ddr_ok s \<longleftrightarrow> (\<forall>r. region_ok (dd_region s r)) \<and> dr_base (dd_region s DDR_REGION_COUNT) = None"

definition ddr_window :: "region \<Rightarrow> nat set" where
  "ddr_window x = (case dr_base x of None \<Rightarrow> {} | Some b \<Rightarrow> {b..<b + unat (dr_capacity x)})"

definition ddr_apart :: "ddr_state \<Rightarrow> bool" where
  "ddr_apart s \<longleftrightarrow> (\<forall>r q. r \<noteq> q \<longrightarrow> ddr_window (dd_region s r) \<inter> ddr_window (dd_region s q) = {})"

text \<open>What is appended lies outside every region, as a stack buffer or a module's own array does.\<close>

definition ddr_sources_ok :: "ddr_state \<Rightarrow> (nat option \<times> u32) ddr_op list \<Rightarrow> bool" where
  "ddr_sources_ok s ps \<longleftrightarrow> (\<forall>r own a n. Dd_append r own (Some a, n) \<in> set ps \<longrightarrow>
     (\<forall>q. {a..<a + unat n} \<inter> ddr_window (dd_region s q) = {}))"

definition ddr_view :: "'a ddr_world_scheme \<Rightarrow> buffers" where
  "ddr_view w r = (let x = dd_region (w_ddr w) r in case dr_base x of None \<Rightarrow> None | Some b \<Rightarrow>
     Some \<lparr>bf_owner = dr_owner x, bf_used = unat (dr_used x), bf_bytes = mem_bytes (w_mem w) b (unat (dr_capacity x))\<rparr>)"

definition ddr_same_layout :: "ddr_state \<Rightarrow> ddr_state \<Rightarrow> bool" where
  "ddr_same_layout s t \<longleftrightarrow> (\<forall>r. dr_base (dd_region t r) = dr_base (dd_region s r) \<and>
     dr_capacity (dd_region t r) = dr_capacity (dd_region s r))"


lemma mem_bytes_simps [simp]:
  "length (mem_bytes m a n) = n" "mem_bytes m a n = [] \<longleftrightarrow> n = 0" "i < n \<Longrightarrow> mem_bytes m a n ! i = m (a + i)"
  by (simp_all add: mem_bytes_def)

lemma mem_bytes_cong: "(\<And>i. i < n \<Longrightarrow> m (a + i) = m' (a + i)) \<Longrightarrow> mem_bytes m a n = mem_bytes m' a n"
  by (simp add: mem_bytes_def)

lemma append_bytes_at:
  assumes "unat used + n < 2 ^ 32" "{src..<src + n} \<inter> {base + unat used..<base + unat used + n} = {}"
  shows "append_bytes base used src n m = (\<lambda>a. if base + unat used \<le> a \<and> a < base + unat used + n
    then m (src + (a - (base + unat used))) else m a)"
  using assms
proof (induction n)
  case 0
  then show ?case by (auto simp: append_bytes_def fun_eq_iff)
next
  case (Suc n)
  let ?d = "base + unat used"
  have n: "unat (used + of_nat n) = unat used + n"
    using Suc.prems(1) by (simp add: unat_word_ariths unat_of_nat_eq_u32)
  have "{src..<src + n} \<inter> {?d..<?d + n} = {}" using Suc.prems(2) by auto
  then have ih: "append_bytes base used src n m = (\<lambda>a. if ?d \<le> a \<and> a < ?d + n then m (src + (a - ?d)) else m a)"
    using Suc by simp
  have out: "\<not> (?d \<le> src + n \<and> src + n < ?d + n)" using Suc.prems(2) by auto
  have "append_bytes base used src (Suc n) m =
      (append_bytes base used src n m)(?d + n := append_bytes base used src n m (src + n))"
    by (simp add: append_bytes_def n add.assoc)
  then show ?case unfolding ih using out by (auto simp: fun_eq_iff)
qed

lemma ddr_reports [simp]:
  "w_ddr (svc_fdir_report f d w) = w_ddr w" "w_mem (svc_fdir_report f d w) = w_mem w"
  "w_ddr (ddr_upd g w) = g (w_ddr w)" "w_mem (ddr_upd g w) = w_mem w"
  "w_ddr (violation r own w) = (w_ddr w)\<lparr>dd_violations := dd_violations (w_ddr w) + 1\<rparr>"
  "w_mem (violation r own w) = w_mem w"
  "w_ddr (overrun r w) = (w_ddr w)\<lparr>dd_overruns := dd_overruns (w_ddr w) + 1\<rparr>" "w_mem (overrun r w) = w_mem w"
  by (simp_all add: svc_fdir_report_eq ddr_upd_def violation_def overrun_def Let_def)

lemma region_upd_sel [simp]:
  "dd_region (region_upd r f s) = (dd_region s)(r := f (dd_region s r))"
  "dd_violations (region_upd r f s) = dd_violations s" "dd_handoffs (region_upd r f s) = dd_handoffs s"
  "dd_overruns (region_upd r f s) = dd_overruns s"
  by (simp_all add: region_upd_def)

lemma ddr_view_cong:
  assumes "dd_region (w_ddr v) = dd_region (w_ddr w)" "w_mem v = w_mem w"
  shows "ddr_view v = ddr_view w"
  by (rule ext) (simp add: ddr_view_def Let_def assms split: option.split)

lemma ddr_view_upd:
  assumes "dd_region (w_ddr v) = (dd_region (w_ddr w))(r := y)" "w_mem v = w_mem w"
    and "dr_base y = Some b" "dr_base (dd_region (w_ddr w) r) = Some b" "dr_capacity y = dr_capacity (dd_region (w_ddr w) r)"
  shows "ddr_view v = (ddr_view w)(r \<mapsto> \<lparr>bf_owner = dr_owner y, bf_used = unat (dr_used y),
    bf_bytes = mem_bytes (w_mem w) b (unat (dr_capacity y))\<rparr>)"
  by (rule ext) (simp add: ddr_view_def Let_def assms split: option.split)

lemma ddr_view_at:
  assumes "dr_base (dd_region (w_ddr w) r) = Some b"
  shows "ddr_view w r = Some \<lparr>bf_owner = dr_owner (dd_region (w_ddr w) r), bf_used = unat (dr_used (dd_region (w_ddr w) r)),
    bf_bytes = mem_bytes (w_mem w) b (unat (dr_capacity (dd_region (w_ddr w) r)))\<rparr>"
  using assms by (simp add: ddr_view_def Let_def)

lemma ddr_view_none: "dr_base (dd_region (w_ddr w) r) = None \<Longrightarrow> ddr_view w r = None"
  by (simp add: ddr_view_def Let_def)

text \<open>What one operation keeps, and what it counts.\<close>

definition ddr_counts :: "qiran_status list \<Rightarrow> ddr_state \<Rightarrow> ddr_state \<Rightarrow> bool" where
  "ddr_counts rs s t \<longleftrightarrow> dd_violations t = dd_violations s + of_nat (count_list rs QIRAN_ERR_STATE) \<and>
     dd_overruns t = dd_overruns s + of_nat (count_list rs QIRAN_ERR_RANGE)"

definition ddr_refines :: "ddr_result \<Rightarrow> (nat option \<times> u32) ddr_op \<Rightarrow> 'a ddr_world_scheme \<Rightarrow> 'a ddr_world_scheme \<Rightarrow> bool" where
  "ddr_refines x p w v \<longleftrightarrow> buf_step (map_ddr_op (source_bytes (w_mem w)) p) (ddr_view w) = (x, ddr_view v) \<and>
     ddr_ok (w_ddr v) \<and> ddr_same_layout (w_ddr w) (w_ddr v) \<and> ddr_counts [fst x] (w_ddr w) (w_ddr v) \<and>
     (\<forall>a. (\<forall>q. a \<notin> ddr_window (dd_region (w_ddr w) q)) \<longrightarrow> w_mem v a = w_mem w a)"


lemma ddr_refines_same:
  assumes "ddr_ok (w_ddr w)" "dd_region (w_ddr v) = dd_region (w_ddr w)" "w_mem v = w_mem w"
    and "buf_step (map_ddr_op (source_bytes (w_mem w)) p) (ddr_view w) = (x, ddr_view w)"
    and "ddr_counts [fst x] (w_ddr w) (w_ddr v)"
  shows "ddr_refines x p w v"
  using assms ddr_view_cong [OF assms(2,3)] by (simp add: ddr_refines_def ddr_ok_def ddr_same_layout_def)

lemma ddr_refines_upd:
  assumes "ddr_ok (w_ddr w)" "dd_region (w_ddr v) = (dd_region (w_ddr w))(r := y)" "w_mem v = w_mem w" "region_ok y"
    and "dr_base y = Some b" "dr_base (dd_region (w_ddr w) r) = Some b" "dr_capacity y = dr_capacity (dd_region (w_ddr w) r)"
    and "buf_step (map_ddr_op (source_bytes (w_mem w)) p) (ddr_view w) = (x, (ddr_view w)(r \<mapsto>
      \<lparr>bf_owner = dr_owner y, bf_used = unat (dr_used y), bf_bytes = mem_bytes (w_mem w) b (unat (dr_capacity y))\<rparr>))"
    and "ddr_counts [fst x] (w_ddr w) (w_ddr v)"
  shows "ddr_refines x p w v"
proof -
  have "r \<noteq> DDR_REGION_COUNT" using assms(1,6) by (auto simp: ddr_ok_def)
  then show ?thesis
    using assms ddr_view_upd [OF assms(2,3,5,6,7)] by (simp add: ddr_refines_def ddr_ok_def ddr_same_layout_def)
qed

lemma ddr_handoff_refines:
  assumes "ddr_ok (w_ddr w)"
  shows "ddr_refines (fst (ddr_step (Dd_handoff r f t) w)) (Dd_handoff r f t) w (snd (ddr_step (Dd_handoff r f t) w))"
proof (cases "dr_base (dd_region (w_ddr w) r)")
  case None
  then show ?thesis
    by (intro ddr_refines_same [OF assms])
      (simp_all add: storage_ddr_handoff_def ddr_view_none ddr_counts_def)
next
  case (Some b)
  let ?x = "dd_region (w_ddr w) r"
  show ?thesis
  proof (cases "r = DDR_REGION_COUNT \<or> f = DDR_OWNER_COUNT \<or> t = DDR_OWNER_COUNT \<or> dr_owner ?x \<noteq> f")
    case True
    then show ?thesis using Some
      by (intro ddr_refines_same [OF assms])
        (auto simp: storage_ddr_handoff_def ddr_view_at [OF Some] ddr_counts_def)
  next
    case False
    moreover have "region_ok ?x" using assms by (simp add: ddr_ok_def)
    ultimately show ?thesis using Some
      by (intro ddr_refines_upd [OF assms, of _ r "?x\<lparr>dr_owner := t\<rparr>" b])
        (auto simp: storage_ddr_handoff_def ddr_view_at [OF Some] ddr_counts_def region_ok_def)
  qed
qed

lemma ddr_clear_refines:
  assumes "ddr_ok (w_ddr w)"
  shows "ddr_refines (fst (ddr_step (Dd_clear r f) w)) (Dd_clear r f) w (snd (ddr_step (Dd_clear r f) w))"
proof (cases "dr_base (dd_region (w_ddr w) r)")
  case None
  let ?x = "dd_region (w_ddr w) r"
  have x: "region_ok ?x" using assms by (simp add: ddr_ok_def)
  then have z: "?x\<lparr>dr_used := 0, dr_owner := DDR_OWNER_NONE\<rparr> = ?x" using None by (intro region.equality) (auto simp: region_ok_def)
  show ?thesis using None x
    by (intro ddr_refines_same [OF assms])
      (auto simp: storage_ddr_clear_def ddr_view_none ddr_counts_def region_ok_def z)
next
  case (Some b)
  let ?x = "dd_region (w_ddr w) r"
  show ?thesis
  proof (cases "r = DDR_REGION_COUNT \<or> f = DDR_OWNER_COUNT \<or> dr_owner ?x \<noteq> f")
    case True
    then show ?thesis using Some
      by (intro ddr_refines_same [OF assms])
        (auto simp: storage_ddr_clear_def ddr_view_at [OF Some] ddr_counts_def)
  next
    case False
    moreover have "region_ok ?x" using assms by (simp add: ddr_ok_def)
    ultimately show ?thesis using Some
      by (intro ddr_refines_upd [OF assms, of _ r "?x\<lparr>dr_used := 0, dr_owner := DDR_OWNER_NONE\<rparr>" b])
        (auto simp: storage_ddr_clear_def ddr_view_at [OF Some] ddr_counts_def region_ok_def)
  qed
qed

lemma ddr_set_used_refines:
  assumes "ddr_ok (w_ddr w)"
  shows "ddr_refines (fst (ddr_step (Dd_set_used r f n) w)) (Dd_set_used r f n) w (snd (ddr_step (Dd_set_used r f n) w))"
proof (cases "dr_base (dd_region (w_ddr w) r)")
  case None
  then show ?thesis
    by (intro ddr_refines_same [OF assms])
      (simp_all add: storage_ddr_set_used_def ddr_view_none ddr_counts_def)
next
  case (Some b)
  let ?x = "dd_region (w_ddr w) r"
  show ?thesis
  proof (cases "r = DDR_REGION_COUNT \<or> dr_owner ?x \<noteq> f \<or> dr_capacity ?x < n")
    case True
    then show ?thesis using Some
      by (intro ddr_refines_same [OF assms])
        (auto simp: storage_ddr_set_used_def ddr_view_at [OF Some] ddr_counts_def Let_def word_less_nat_alt)
  next
    case False
    moreover have "region_ok ?x" using assms by (simp add: ddr_ok_def)
    ultimately show ?thesis using Some
      by (intro ddr_refines_upd [OF assms, of _ r "?x\<lparr>dr_used := n\<rparr>" b])
        (auto simp: storage_ddr_set_used_def ddr_view_at [OF Some] ddr_counts_def region_ok_def Let_def word_less_nat_alt word_le_nat_alt)
  qed
qed

lemma ddr_read_refines:
  assumes "ddr_ok (w_ddr w)"
  shows "ddr_refines (fst (ddr_step (Dd_read r f) w)) (Dd_read r f) w (snd (ddr_step (Dd_read r f) w))"
proof (cases "dr_base (dd_region (w_ddr w) r)")
  case None
  then show ?thesis
    by (intro ddr_refines_same [OF assms])
      (simp_all add: storage_ddr_read_def ddr_view_none ddr_counts_def Let_def)
next
  case (Some b)
  have "region_ok (dd_region (w_ddr w) r)" using assms by (simp add: ddr_ok_def)
  then have t: "take (unat (dr_used (dd_region (w_ddr w) r))) (mem_bytes m b (unat (dr_capacity (dd_region (w_ddr w) r)))) =
      mem_bytes m b (unat (dr_used (dd_region (w_ddr w) r)))" for m
    by (simp add: mem_bytes_def take_map region_ok_def word_le_nat_alt min_def)
  show ?thesis using Some
    by (intro ddr_refines_same [OF assms])
      (auto simp: storage_ddr_read_def ddr_view_at [OF Some] ddr_counts_def Let_def t)
qed


text \<open>An append writes the bytes of its source behind those in use, and nowhere else.\<close>

lemma ddr_append_refines:
  assumes "ddr_ok (w_ddr w)" "ddr_apart (w_ddr w)" "ddr_sources_ok (w_ddr w) [Dd_append r f (p, n)]"
  shows "ddr_refines (fst (ddr_step (Dd_append r f (p, n)) w)) (Dd_append r f (p, n)) w
    (snd (ddr_step (Dd_append r f (p, n)) w))"
proof (cases "dr_base (dd_region (w_ddr w) r)")
  case None
  then show ?thesis
    by (intro ddr_refines_same [OF assms(1)])
      (auto simp: storage_ddr_append_def ddr_view_none ddr_counts_def source_bytes_def Let_def unat_eq_0 split: option.split)
next
  case (Some b)
  let ?x = "dd_region (w_ddr w) r"
  have x: "region_ok ?x" and rc: "r \<noteq> DDR_REGION_COUNT" using assms(1) Some by (auto simp: ddr_ok_def)
  then have le: "dr_used ?x \<le> dr_capacity ?x" by (simp add: region_ok_def)
  have fits: "dr_capacity ?x - dr_used ?x < n \<longleftrightarrow> unat (dr_capacity ?x) < unat (dr_used ?x) + unat n"
    using le by (auto simp: word_less_nat_alt unat_sub word_le_nat_alt)
  show ?thesis
  proof (cases "p = None \<or> n = 0 \<or> dr_owner ?x \<noteq> f \<or> dr_capacity ?x - dr_used ?x < n")
    case True
    then show ?thesis using Some rc
      by (intro ddr_refines_same [OF assms(1)])
        (auto simp: storage_ddr_append_def ddr_view_at [OF Some] ddr_counts_def source_bytes_def Let_def fits unat_eq_0
          split: option.split)
  next
    case False
    then obtain a where a: "p = Some a" and n0: "n \<noteq> 0" and f: "dr_owner ?x = f"
      and fit: "unat (dr_used ?x) + unat n \<le> unat (dr_capacity ?x)" using fits by auto
    let ?d = "b + unat (dr_used ?x)" and ?y = "?x\<lparr>dr_used := dr_used ?x + n\<rparr>"
    let ?m = "\<lambda>c. if ?d \<le> c \<and> c < ?d + unat n then w_mem w (a + (c - ?d)) else w_mem w c"
    have win: "ddr_window ?x = {b..<b + unat (dr_capacity ?x)}" by (simp add: ddr_window_def Some)
    have src: "{a..<a + unat n} \<inter> ddr_window ?x = {}" using assms(3) a by (auto simp: ddr_sources_ok_def)
    then have "{a..<a + unat n} \<inter> {?d..<?d + unat n} = {}" using fit win by auto
    moreover have un: "unat (dr_used ?x) + unat n < 2 ^ 32" using fit unsigned_less [of "dr_capacity ?x", where 'a = nat] by simp
    ultimately have m: "append_bytes b (dr_used ?x) a (unat n) (w_mem w) = ?m" by (intro append_bytes_at)
    define v where "v = snd (ddr_step (Dd_append r f (p, n)) w)"
    have step: "fst (ddr_step (Dd_append r f (p, n)) w) = (QIRAN_OK, None)"
      and v: "dd_region (w_ddr v) = (dd_region (w_ddr w))(r := ?y)" "w_mem v = ?m"
        "dd_violations (w_ddr v) = dd_violations (w_ddr w)" "dd_overruns (w_ddr v) = dd_overruns (w_ddr w)"
      using fit fits n0 rc by (simp_all add: v_def storage_ddr_append_def a Some f m Let_def)
    have u: "unat (dr_used ?x + n) = unat (dr_used ?x) + unat n" using un by (simp add: unat_word_ariths)
    have out: "?m c = w_mem w c" if "c \<notin> ddr_window ?x" for c using that fit win by auto
    have keep: "mem_bytes ?m c k = mem_bytes (w_mem w) c k" if "{c..<c + k} \<inter> ddr_window ?x = {}" for c k
      by (rule mem_bytes_cong, rule out) (use that in \<open>auto simp: disjoint_iff\<close>)
    have here: "mem_bytes ?m b (unat (dr_capacity ?x)) = take (unat (dr_used ?x)) (mem_bytes (w_mem w) b (unat (dr_capacity ?x))) @
        mem_bytes (w_mem w) a (unat n) @ drop (unat (dr_used ?x) + unat n) (mem_bytes (w_mem w) b (unat (dr_capacity ?x)))"
      using fit by (intro nth_equalityI) (auto simp: nth_append)
    have view: "ddr_view v = (ddr_view w)(r \<mapsto> buf_put (mem_bytes (w_mem w) a (unat n)) (the (ddr_view w r)))"
    proof (rule ext)
      fix q
      show "ddr_view v q = ((ddr_view w)(r \<mapsto> buf_put (mem_bytes (w_mem w) a (unat n)) (the (ddr_view w r)))) q"
      proof (cases "q = r")
        case True
        then show ?thesis by (simp add: ddr_view_def v Let_def Some buf_put_def here u)
      next
        case False
        have "ddr_window (dd_region (w_ddr w) q) \<inter> ddr_window ?x = {}" using assms(2) False by (auto simp: ddr_apart_def)
        then have "dr_base (dd_region (w_ddr w) q) = Some c \<Longrightarrow>
            mem_bytes ?m c (unat (dr_capacity (dd_region (w_ddr w) q))) = mem_bytes (w_mem w) c (unat (dr_capacity (dd_region (w_ddr w) q)))"
          for c by (intro keep) (simp add: ddr_window_def)
        with False show ?thesis by (simp add: ddr_view_def v Let_def split: option.split)
      qed
    qed
    have spec: "buf_step (map_ddr_op (source_bytes (w_mem w)) (Dd_append r f (p, n))) (ddr_view w) =
        ((QIRAN_OK, None), ddr_view v)"
      unfolding view using fit n0 rc by (simp add: source_bytes_def a ddr_view_at [OF Some] f unat_eq_0)
    have "region_ok ?y" using x fit u by (simp add: region_ok_def word_le_nat_alt)
    then have "ddr_ok (w_ddr v)" using assms(1) rc by (simp add: ddr_ok_def v)
    moreover have "ddr_same_layout (w_ddr w) (w_ddr v)" by (simp add: ddr_same_layout_def v)
    moreover have "w_mem v c = w_mem w c" if "\<forall>q. c \<notin> ddr_window (dd_region (w_ddr w) q)" for c
      using out that unfolding v by blast
    ultimately show ?thesis
      unfolding v_def [symmetric] step using spec by (simp add: ddr_refines_def ddr_counts_def v)
  qed
qed

lemma ddr_step_refines:
  assumes "ddr_ok (w_ddr w)" "ddr_apart (w_ddr w)" "ddr_sources_ok (w_ddr w) [p]"
  shows "ddr_refines (fst (ddr_step p w)) p w (snd (ddr_step p w))"
proof (cases p)
  case (Dd_append r f src)
  then show ?thesis using ddr_append_refines [of w r f "fst src" "snd src"] assms by simp
qed (use assms ddr_handoff_refines ddr_clear_refines ddr_set_used_refines ddr_read_refines in blast)+


text \<open>C10: Memory hand-over is exclusive. Over any run of hand-overs, clears, appends, writes from outside
  and reads by anyone, on regions that do not overlap, every region behaves as a buffer of its own
  with one owner: what the owner appended is what the owner reads, in order, through hand-overs; whoever
  is not the owner is refused without effect; an append that does not fit is refused whole; the
  refusals are counted; and memory outside the regions is never written.\<close>

theorem ddr_run_refines:
  assumes "ddr_ok (w_ddr w)" "ddr_apart (w_ddr w)" "ddr_sources_ok (w_ddr w) ps"
  defines "v \<equiv> snd (ddr_run ps w)" and "xs \<equiv> fst (ddr_run ps w)"
  shows "buf_run (map (map_ddr_op (source_bytes (w_mem w))) ps) (ddr_view w) = (xs, ddr_view v) \<and>
    ddr_ok (w_ddr v) \<and> ddr_same_layout (w_ddr w) (w_ddr v) \<and> ddr_counts (map fst xs) (w_ddr w) (w_ddr v) \<and>
    (\<forall>a. (\<forall>q. a \<notin> ddr_window (dd_region (w_ddr w) q)) \<longrightarrow> w_mem v a = w_mem w a)"
  using assms(1-3) unfolding v_def xs_def
proof (induction ps arbitrary: w)
  case Nil
  then show ?case by (simp add: ddr_same_layout_def ddr_counts_def)
next
  case (Cons p ps)
  obtain x u where u: "ddr_step p w = (x, u)" by (rule prod.exhaust)
  obtain xs v where v: "ddr_run ps u = (xs, v)" by (rule prod.exhaust)
  have "ddr_sources_ok (w_ddr w) [p]" using Cons.prems(3) by (simp add: ddr_sources_ok_def)
  from ddr_step_refines [OF Cons.prems(1,2) this] have step: "ddr_refines x p w u" by (simp add: u)
  then have lay: "ddr_same_layout (w_ddr w) (w_ddr u)" and ok: "ddr_ok (w_ddr u)"
    and out: "\<And>a. (\<forall>q. a \<notin> ddr_window (dd_region (w_ddr w) q)) \<Longrightarrow> w_mem u a = w_mem w a"
    by (simp_all add: ddr_refines_def)
  have win: "ddr_window (dd_region (w_ddr u) q) = ddr_window (dd_region (w_ddr w) q)" for q
    using lay by (simp add: ddr_window_def ddr_same_layout_def split: option.split)
  have "ddr_apart (w_ddr u)" "ddr_sources_ok (w_ddr u) ps"
    using Cons.prems(2,3) unfolding ddr_apart_def ddr_sources_ok_def win by auto
  from Cons.IH [OF ok this] have ih: "buf_run (map (map_ddr_op (source_bytes (w_mem u))) ps) (ddr_view u) = (xs, ddr_view v)"
    "ddr_ok (w_ddr v)" "ddr_same_layout (w_ddr u) (w_ddr v)" "ddr_counts (map fst xs) (w_ddr u) (w_ddr v)"
    "\<And>a. (\<forall>q. a \<notin> ddr_window (dd_region (w_ddr w) q)) \<Longrightarrow> w_mem v a = w_mem u a"
    by (simp_all add: v win)
  have "map_ddr_op (source_bytes (w_mem u)) y = map_ddr_op (source_bytes (w_mem w)) y" if "y \<in> set ps" for y
  proof (cases y)
    case (Dd_append r own src)
    obtain q n where src: "src = (q, n)" by (rule prod.exhaust)
    have "mem_bytes (w_mem u) a (unat n) = mem_bytes (w_mem w) a (unat n)" if "q = Some a" for a
      by (rule mem_bytes_cong, rule out)
        (use Cons.prems(3) that \<open>y \<in> set ps\<close> Dd_append src in \<open>fastforce simp: ddr_sources_ok_def disjoint_iff\<close>)
    then show ?thesis by (simp add: Dd_append src source_bytes_def split: option.split)
  qed simp_all
  then have same: "map (map_ddr_op (source_bytes (w_mem u))) ps = map (map_ddr_op (source_bytes (w_mem w))) ps" by simp
  show ?case
    using step ih lay out
    by (auto simp: u v ddr_refines_def same [symmetric] ddr_same_layout_def ddr_counts_def)
qed


text \<open>The layout is established by giving each region memory apart from the others'.\<close>

lemma ddr_init_ok: "ddr_ok (w_ddr (storage_ddr_init w))" "ddr_apart (w_ddr (storage_ddr_init w))"
  by (simp_all add: storage_ddr_init_def ddr_ok_def region_ok_def ddr_apart_def ddr_window_def)

lemma ddr_set_region_ok:
  assumes "ddr_ok (w_ddr w)" "r \<noteq> DDR_REGION_COUNT"
  shows "ddr_ok (w_ddr (snd (storage_ddr_set_region r base n w)))"
  using assms by (auto simp: storage_ddr_set_region_def ddr_ok_def region_ok_def)

lemma ddr_set_region_apart:
  assumes "ddr_apart (w_ddr w)" "\<And>q. q \<noteq> r \<Longrightarrow> {b..<b + unat n} \<inter> ddr_window (dd_region (w_ddr w) q) = {}"
  shows "ddr_apart (w_ddr (snd (storage_ddr_set_region r (Some b) n w)))"
proof (cases "r = DDR_REGION_COUNT \<or> n = 0 \<or> dr_owner (dd_region (w_ddr w) r) \<noteq> DDR_OWNER_NONE")
  case True
  then show ?thesis using assms(1) by (auto simp: storage_ddr_set_region_def)
next
  case False
  define v where "v = snd (storage_ddr_set_region r (Some b) n w)"
  have v: "ddr_window (dd_region (w_ddr v) r) = {b..<b + unat n}"
    "q \<noteq> r \<Longrightarrow> dd_region (w_ddr v) q = dd_region (w_ddr w) q" for q
    using False by (simp_all add: v_def storage_ddr_set_region_def ddr_window_def)
  have "ddr_window (dd_region (w_ddr v) p) \<inter> ddr_window (dd_region (w_ddr v) q) = {}" if "p \<noteq> q" for p q
  proof (cases "p = r")
    case True
    then show ?thesis using v assms(2) [of q] that by simp
  next
    case False
    then show ?thesis using v assms(1) assms(2) [of p] that by (cases "q = r") (simp_all add: ddr_apart_def Int_commute)
  qed
  then show ?thesis by (simp add: ddr_apart_def v_def)
qed

type_synonym ddr_data_world = "unit ddr_world_scheme"

definition ddr_setup :: "ddr_data_world \<Rightarrow> ddr_data_world" where
  "ddr_setup w = snd (storage_ddr_set_region DDR_REGION_TX_PACKET (Some 200) 4
     (snd (storage_ddr_set_region DDR_REGION_PROCESSED (Some 100) 5
       (storage_ddr_init (w\<lparr>w_mem := \<lambda>a. of_nat (11 * (a - 6))\<rparr>)))))"

text \<open>Two regions; a record is appended, handed over, and read by its new owner only.\<close>

theorem ddr_run_refines_witness:
  "\<forall>w :: ddr_data_world. fst (ddr_run [Dd_handoff DDR_REGION_PROCESSED DDR_OWNER_NONE DDR_OWNER_PS_PROCESSING,
      Dd_append DDR_REGION_PROCESSED DDR_OWNER_PS_PROCESSING (Some 7, 2),
      Dd_append DDR_REGION_PROCESSED DDR_OWNER_PS_PROCESSING (Some 8, 2),
      Dd_append DDR_REGION_PROCESSED DDR_OWNER_PS_PROCESSING (Some 8, 2),
      Dd_handoff DDR_REGION_PROCESSED DDR_OWNER_PS_PROCESSING DDR_OWNER_STORAGE,
      Dd_read DDR_REGION_PROCESSED DDR_OWNER_PS_PROCESSING,
      Dd_read DDR_REGION_PROCESSED DDR_OWNER_STORAGE] (ddr_setup w)) =
    [(QIRAN_OK, None), (QIRAN_OK, None), (QIRAN_OK, None), (QIRAN_ERR_RANGE, None), (QIRAN_OK, None),
     (QIRAN_ERR_STATE, None), (QIRAN_OK, Some [11, 22, 22, 33])]"
proof
  fix w :: ddr_data_world
  let ?ps = "[Dd_handoff DDR_REGION_PROCESSED DDR_OWNER_NONE DDR_OWNER_PS_PROCESSING,
      Dd_append DDR_REGION_PROCESSED DDR_OWNER_PS_PROCESSING (Some 7, 2),
      Dd_append DDR_REGION_PROCESSED DDR_OWNER_PS_PROCESSING (Some 8, 2),
      Dd_append DDR_REGION_PROCESSED DDR_OWNER_PS_PROCESSING (Some 8, 2),
      Dd_handoff DDR_REGION_PROCESSED DDR_OWNER_PS_PROCESSING DDR_OWNER_STORAGE,
      Dd_read DDR_REGION_PROCESSED DDR_OWNER_PS_PROCESSING,
      Dd_read DDR_REGION_PROCESSED DDR_OWNER_STORAGE]"
  have reg: "dd_region (w_ddr (ddr_setup w)) = (\<lambda>_. \<lparr>dr_base = None, dr_capacity = 0, dr_used = 0, dr_owner = DDR_OWNER_NONE\<rparr>)
     (DDR_REGION_PROCESSED := \<lparr>dr_base = Some 100, dr_capacity = 5, dr_used = 0, dr_owner = DDR_OWNER_NONE\<rparr>,
      DDR_REGION_TX_PACKET := \<lparr>dr_base = Some 200, dr_capacity = 4, dr_used = 0, dr_owner = DDR_OWNER_NONE\<rparr>)"
    and mem: "w_mem (ddr_setup w) = (\<lambda>a. of_nat (11 * (a - 6)))"
    by (simp_all add: ddr_setup_def storage_ddr_set_region_def storage_ddr_init_def)
  have win: "ddr_window (dd_region (w_ddr (ddr_setup w)) q) \<subseteq> {100..<300}"
    "r \<noteq> q \<Longrightarrow> ddr_window (dd_region (w_ddr (ddr_setup w)) r) \<inter> ddr_window (dd_region (w_ddr (ddr_setup w)) q) = {}" for q r
    by (auto simp: reg ddr_window_def)
  have "ddr_ok (w_ddr (ddr_setup w))"
    unfolding ddr_setup_def by (intro ddr_set_region_ok ddr_init_ok) simp_all
  moreover have "ddr_apart (w_ddr (ddr_setup w))" using win(2) by (simp add: ddr_apart_def)
  moreover have "ddr_sources_ok (w_ddr (ddr_setup w)) ?ps"
    unfolding ddr_sources_ok_def using win(1) by (auto simp: disjoint_iff) fastforce+
  ultimately have "buf_run (map (map_ddr_op (source_bytes (w_mem (ddr_setup w)))) ?ps) (ddr_view (ddr_setup w)) =
      (fst (ddr_run ?ps (ddr_setup w)), ddr_view (snd (ddr_run ?ps (ddr_setup w))))"
    using ddr_run_refines [of "ddr_setup w" ?ps, THEN conjunct1] by blast
  then have "fst (ddr_run ?ps (ddr_setup w)) =
      fst (buf_run (map (map_ddr_op (source_bytes (\<lambda>a. of_nat (11 * (a - 6))))) ?ps) (ddr_view (ddr_setup w)))" by (simp add: mem)
  also have "\<dots> = [(QIRAN_OK, None), (QIRAN_OK, None), (QIRAN_OK, None), (QIRAN_ERR_RANGE, None), (QIRAN_OK, None),
     (QIRAN_ERR_STATE, None), (QIRAN_OK, Some [11, 22, 22, 33])]"
    by (simp add: ddr_view_def reg mem Let_def source_bytes_def mem_bytes_def buf_put_def upt_rec)
  finally show "fst (ddr_run ?ps (ddr_setup w)) = [(QIRAN_OK, None), (QIRAN_OK, None), (QIRAN_OK, None),
     (QIRAN_ERR_RANGE, None), (QIRAN_OK, None), (QIRAN_ERR_STATE, None), (QIRAN_OK, Some [11, 22, 22, 33])]" .
qed

end
