(* ===== verification/Storage_Nand.thy ===== *)
theory Storage_Nand
  imports Storage_Ddr
begin

section \<open>The product store and its transfer: \<^verbatim>\<open>src/data/storage_nand.c\<close>\<close>

text \<open>
  Records are appended to a non-volatile medium, each behind a header with its own checksum, and
  later handed one per cycle to the outbound queue through one staging array. The medium's operations
  are registered from outside: the environment says what they do. The result of a read is the bytes it
  left at its destination. Names are not modelled.
\<close>

datatype nand_record_type = NAND_RECORD_RAW | NAND_RECORD_PROCESSED | NAND_RECORD_HEALTH | NAND_RECORD_COUNT

fun nand_code :: "nand_record_type \<Rightarrow> u32" where
  "nand_code NAND_RECORD_RAW = 0"
| "nand_code NAND_RECORD_PROCESSED = 1"
| "nand_code NAND_RECORD_HEALTH = 2"
| "nand_code NAND_RECORD_COUNT = 3"

definition nand_of_code :: "u32 \<Rightarrow> nand_record_type" where
  "nand_of_code c = (if c = 0 then NAND_RECORD_RAW else if c = 1 then NAND_RECORD_PROCESSED
     else if c = 2 then NAND_RECORD_HEALTH else NAND_RECORD_COUNT)"

definition NAND_RECORD_MAGIC :: u32 where "NAND_RECORD_MAGIC = 0x514E4452"
definition NAND_HEADER_BYTES :: u32 where "NAND_HEADER_BYTES = 20"
definition NAND_TRANSFER_STAGE :: u32 where "NAND_TRANSFER_STAGE = 512"

record storage_nand_ops =
  no_erase :: "handle option"
  no_write :: "handle option"
  no_read :: "handle option"
  no_capacity_bytes :: u32
  no_ctx :: "handle option"

record nand_state =
  nd_ops :: storage_nand_ops
  nd_ready :: bool
  nd_used :: u32
  nd_records :: u32
  nd_sequence :: u32
  nd_transfer_active :: bool
  nd_transfer_offset :: u32
  nd_transferred :: u32
  nd_write_failures :: u32
  nd_read_failures :: u32
  nd_stage :: "u8 list"

record nand_world = ddr_world +
  w_nand :: nand_state

record 'w nand_env =
  ne_erase :: "handle \<Rightarrow> handle option \<Rightarrow> u32 \<Rightarrow> u32 \<Rightarrow> 'w \<Rightarrow> qiran_status \<times> 'w"
  ne_write :: "handle \<Rightarrow> handle option \<Rightarrow> u32 \<Rightarrow> u8 list \<Rightarrow> 'w \<Rightarrow> qiran_status \<times> 'w"
  ne_read :: "handle \<Rightarrow> handle option \<Rightarrow> u32 \<Rightarrow> u32 \<Rightarrow> 'w \<Rightarrow> qiran_status \<times> u8 list \<times> 'w"

definition nand_upd :: "(nand_state \<Rightarrow> nand_state) \<Rightarrow> 'a nand_world_scheme \<Rightarrow> 'a nand_world_scheme" where
  "nand_upd f w = w\<lparr>w_nand := f (w_nand w)\<rparr>"

text \<open>The address of the staging array, as the queue of descriptors keeps it.\<close>

definition NAND_STAGE :: handle where "NAND_STAGE = 0"

definition storage_nand_init :: "'a nand_world_scheme \<Rightarrow> 'a nand_world_scheme" where
  "storage_nand_init = nand_upd (\<lambda>s. s\<lparr>
     nd_ops := \<lparr>no_erase = None, no_write = None, no_read = None, no_capacity_bytes = 0, no_ctx = None\<rparr>,
     nd_ready := False, nd_used := 0, nd_records := 0, nd_sequence := 0, nd_transfer_active := False,
     nd_transfer_offset := 0, nd_transferred := 0, nd_write_failures := 0, nd_read_failures := 0\<rparr>)"

definition storage_nand_set_ops ::
  "storage_nand_ops option \<Rightarrow> 'a nand_world_scheme \<Rightarrow> qiran_status \<times> 'a nand_world_scheme" where
  "storage_nand_set_ops ops w = (case ops of
     None \<Rightarrow> (QIRAN_OK, storage_nand_init w)
   | Some ops \<Rightarrow>
       if no_erase ops = None \<or> no_write ops = None \<or> no_read ops = None \<or> no_capacity_bytes ops = 0
       then (QIRAN_ERR_PARAM, w)
       else (QIRAN_OK, nand_upd (\<lambda>s. s\<lparr>nd_ops := ops, nd_ready := True, nd_used := 0, nd_records := 0\<rparr>) w))"

definition storage_nand_ready :: "'a nand_world_scheme \<Rightarrow> bool" where
  "storage_nand_ready w = nd_ready (w_nand w)"

fun class_of :: "nand_record_type \<Rightarrow> ccsds_class" where
  "class_of NAND_RECORD_PROCESSED = CCSDS_CLASS_SCIENCE_PROCESSED"
| "class_of NAND_RECORD_HEALTH = CCSDS_CLASS_HEALTH"
| "class_of _ = CCSDS_CLASS_SCIENCE_RAW"

definition nand_read :: "'a nand_world_scheme nand_env \<Rightarrow> u32 \<Rightarrow> u32 \<Rightarrow> 'a nand_world_scheme \<Rightarrow>
    qiran_status \<times> u8 list \<times> 'a nand_world_scheme" where
  "nand_read E off n w = ne_read E (the (no_read (nd_ops (w_nand w)))) (no_ctx (nd_ops (w_nand w))) off n w"

definition nand_write :: "'a nand_world_scheme nand_env \<Rightarrow> u32 \<Rightarrow> u8 list \<Rightarrow> 'a nand_world_scheme \<Rightarrow>
    qiran_status \<times> 'a nand_world_scheme" where
  "nand_write E off bs w = ne_write E (the (no_write (nd_ops (w_nand w)))) (no_ctx (nd_ops (w_nand w))) off bs w"

text \<open>The header is built in a local array, whose bytes before the first field is written do not matter.\<close>

definition nand_header :: "nand_record_type \<Rightarrow> u32 \<Rightarrow> u32 \<Rightarrow> u32 \<Rightarrow> u8 list" where
  "nand_header type seq len crc =
    (let (h, at) = comm_put_u32 (replicate 20 0) 0 NAND_RECORD_MAGIC;
         (h, at) = comm_put_u32 h at (nand_code type);
         (h, at) = comm_put_u32 h at seq;
         (h, at) = comm_put_u32 h at len;
         (h, _) = comm_put_u32 h at crc
     in h)"

definition nand_write_failed :: "'a nand_world_scheme \<Rightarrow> qiran_status \<times> 'a nand_world_scheme" where
  "nand_write_failed w =
    (QIRAN_ERR_HARDWARE, svc_fdir_report QIRAN_FAULT_NAND_WRITE (nd_used (w_nand w))
       (nand_upd (\<lambda>s. s\<lparr>nd_write_failures := nd_write_failures s + 1\<rparr>) w))"

definition storage_nand_store :: "'a nand_world_scheme nand_env \<Rightarrow> nand_record_type \<Rightarrow> u8 list option \<Rightarrow> u32 \<Rightarrow>
    'a nand_world_scheme \<Rightarrow> qiran_status \<times> 'a nand_world_scheme" where
  "storage_nand_store E type data len w =
    (if type = NAND_RECORD_COUNT \<or> data = None \<or> len = 0 then (QIRAN_ERR_PARAM, w)
     else if \<not> nd_ready (w_nand w) then (QIRAN_ERR_UNSUPPORTED, w)
     else if nd_transfer_active (w_nand w) then (QIRAN_ERR_BUSY, w)
     else if no_capacity_bytes (nd_ops (w_nand w)) - nd_used (w_nand w) < NAND_HEADER_BYTES + len
     then (QIRAN_ERR_RANGE, svc_fdir_report QIRAN_FAULT_NAND_WRITE (nd_used (w_nand w)) w)
     else (let bs = take (unat len) (the data);
               header = nand_header type (nd_sequence (w_nand w)) len (svc_crc32 (Some bs));
               (st, w) = nand_write E (nd_used (w_nand w)) header w
           in if st \<noteq> QIRAN_OK then nand_write_failed w
              else (let (st, w) = nand_write E (nd_used (w_nand w) + NAND_HEADER_BYTES) bs w
                    in if st \<noteq> QIRAN_OK then nand_write_failed w
                       else (QIRAN_OK, nand_upd (\<lambda>s. s\<lparr>nd_used := nd_used s + (NAND_HEADER_BYTES + len),
                              nd_records := nd_records s + 1, nd_sequence := nd_sequence s + 1\<rparr>) w))))"

definition storage_nand_transfer_begin :: "'a nand_world_scheme \<Rightarrow> qiran_status \<times> 'a nand_world_scheme" where
  "storage_nand_transfer_begin w =
    (if \<not> nd_ready (w_nand w) then (QIRAN_ERR_UNSUPPORTED, w)
     else if nd_transfer_active (w_nand w) then (QIRAN_ERR_BUSY, w)
     else (QIRAN_OK, nand_upd (\<lambda>s. s\<lparr>nd_transfer_offset := 0, nd_transferred := 0, nd_transfer_active := True\<rparr>) w))"

definition storage_nand_transfer_active :: "'a nand_world_scheme \<Rightarrow> bool" where
  "storage_nand_transfer_active w = nd_transfer_active (w_nand w)"

definition storage_nand_transfer_complete :: "'a nand_world_scheme \<Rightarrow> bool" where
  "storage_nand_transfer_complete w \<longleftrightarrow> \<not> nd_transfer_active (w_nand w) \<and>
     nd_transferred (w_nand w) = nd_records (w_nand w) \<and> nd_records (w_nand w) \<noteq> 0"

text \<open>A read that fails, a header that describes no record: the transfer stops.\<close>

definition nand_transfer_stop :: "'a nand_world_scheme \<Rightarrow> 'a nand_world_scheme" where
  "nand_transfer_stop w = nand_upd (\<lambda>s. s\<lparr>nd_transfer_active := False\<rparr>)
     (svc_fdir_report QIRAN_FAULT_NAND_WRITE (nd_transfer_offset (w_nand w))
       (nand_upd (\<lambda>s. s\<lparr>nd_read_failures := nd_read_failures s + 1\<rparr>) w))"

text \<open>A record that cannot be sent, or is not what was stored: reported and passed over.\<close>

definition nand_transfer_skip :: "qiran_fault_id \<Rightarrow> u32 \<Rightarrow> u32 \<Rightarrow> 'a nand_world_scheme \<Rightarrow> 'a nand_world_scheme" where
  "nand_transfer_skip fault detail len w =
     nand_upd (\<lambda>s. s\<lparr>nd_transfer_offset := nd_transfer_offset s + (NAND_HEADER_BYTES + len)\<rparr>)
       (svc_fdir_report fault detail (nand_upd (\<lambda>s. s\<lparr>nd_read_failures := nd_read_failures s + 1\<rparr>) w))"

definition stage_put :: "u8 list \<Rightarrow> nand_state \<Rightarrow> nand_state" where
  "stage_put bs s = s\<lparr>nd_stage := bs @ drop (length bs) (nd_stage s)\<rparr>"

definition nand_transfer_record :: "'a nand_world_scheme nand_env \<Rightarrow> u32 \<Rightarrow> u32 \<Rightarrow> u32 \<Rightarrow>
    'a nand_world_scheme \<Rightarrow> 'a nand_world_scheme" where
  "nand_transfer_record E type len crc w =
    (if NAND_TRANSFER_STAGE < len then nand_transfer_skip QIRAN_FAULT_NAND_WRITE len len w
     else (let (st, bs, w) = nand_read E (nd_transfer_offset (w_nand w) + NAND_HEADER_BYTES) len w;
               w = nand_upd (stage_put bs) w
           in if st \<noteq> QIRAN_OK then nand_transfer_stop w
              else if svc_crc32 (Some (take (unat len) (nd_stage (w_nand w)))) \<noteq> crc
              then nand_transfer_skip QIRAN_FAULT_PACKET_INTEGRITY (nd_transfer_offset (w_nand w)) len w
              else (let (st, w) = comm_output_submit (class_of (nand_of_code type)) (Some NAND_STAGE) len w
                    in if st \<noteq> QIRAN_OK then w
                       else nand_upd (\<lambda>s. s\<lparr>nd_transfer_offset := nd_transfer_offset s + (NAND_HEADER_BYTES + len),
                              nd_transferred := nd_transferred s + 1\<rparr>) w)))"

definition storage_nand_transfer_service ::
  "'a nand_world_scheme nand_env \<Rightarrow> 'a nand_world_scheme \<Rightarrow> 'a nand_world_scheme" where
  "storage_nand_transfer_service E w =
    (if \<not> nd_transfer_active (w_nand w) then w
     else if nd_used (w_nand w) \<le> nd_transfer_offset (w_nand w)
     then svc_log_event 0 (nd_transferred (w_nand w)) (nand_upd (\<lambda>s. s\<lparr>nd_transfer_active := False\<rparr>) w)
     else (let (st, header, w) = nand_read E (nd_transfer_offset (w_nand w)) NAND_HEADER_BYTES w
           in if st \<noteq> QIRAN_OK then nand_transfer_stop w
              else (let magic = comm_get_u32 header 0;
                        type = comm_get_u32 header 4;
                        len = comm_get_u32 header 12;
                        crc = comm_get_u32 header 16
                    in if magic \<noteq> NAND_RECORD_MAGIC \<or> nand_code NAND_RECORD_COUNT \<le> type \<or> len = 0 \<or>
                          nd_used (w_nand w) < nd_transfer_offset (w_nand w) + NAND_HEADER_BYTES + len
                       then nand_transfer_stop w
                       else nand_transfer_record E type len crc w)))"

definition storage_nand_clear ::
  "'a nand_world_scheme nand_env \<Rightarrow> 'a nand_world_scheme \<Rightarrow> qiran_status \<times> 'a nand_world_scheme" where
  "storage_nand_clear E w =
    (if \<not> nd_ready (w_nand w) then (QIRAN_ERR_UNSUPPORTED, w)
     else if nd_transfer_active (w_nand w) then (QIRAN_ERR_BUSY, w)
     else if nd_records (w_nand w) \<noteq> 0 \<and> nd_transferred (w_nand w) \<noteq> nd_records (w_nand w) then (QIRAN_ERR_STATE, w)
     else (let (st, w) = ne_erase E (the (no_erase (nd_ops (w_nand w)))) (no_ctx (nd_ops (w_nand w))) 0 (nd_used (w_nand w)) w
           in if st \<noteq> QIRAN_OK
              then (QIRAN_ERR_HARDWARE, svc_fdir_report QIRAN_FAULT_NAND_WRITE 0
                     (nand_upd (\<lambda>s. s\<lparr>nd_write_failures := nd_write_failures s + 1\<rparr>) w))
              else (QIRAN_OK, nand_upd (\<lambda>s. s\<lparr>nd_used := 0, nd_records := 0, nd_transferred := 0,
                     nd_transfer_offset := 0\<rparr>) w)))"

definition storage_nand_used :: "'a nand_world_scheme \<Rightarrow> u32" where
  "storage_nand_used w = nd_used (w_nand w)"

definition storage_nand_capacity :: "'a nand_world_scheme \<Rightarrow> u32" where
  "storage_nand_capacity w = no_capacity_bytes (nd_ops (w_nand w))"

definition storage_nand_records :: "'a nand_world_scheme \<Rightarrow> u32" where
  "storage_nand_records w = nd_records (w_nand w)"

definition storage_nand_transferred :: "'a nand_world_scheme \<Rightarrow> u32" where
  "storage_nand_transferred w = nd_transferred (w_nand w)"

definition storage_nand_write_failures :: "'a nand_world_scheme \<Rightarrow> u32" where
  "storage_nand_write_failures w = nd_write_failures (w_nand w)"

definition storage_nand_read_failures :: "'a nand_world_scheme \<Rightarrow> u32" where
  "storage_nand_read_failures w = nd_read_failures (w_nand w)"

lemma nand_fields [simp]:
  "w_nand (nand_upd f w) = f (w_nand w)" "w_nand (svc_fdir_report fl d w) = w_nand w"
  "w_nand (svc_log_event c d w) = w_nand w" "w_nand (output_upd g w) = w_nand w"
  "nand_world.more (nand_upd f w) = nand_world.more w" "nand_world.more (svc_fdir_report fl d w) = nand_world.more w"
  "nand_world.more (svc_log_event c d w) = nand_world.more w" "nand_world.more (output_upd g w) = nand_world.more w"
  "w_output (nand_upd f w) = w_output w" "w_output (svc_log_event c d v) = w_output v"
  by (simp_all add: nand_upd_def svc_fdir_report_eq svc_log_eqs output_upd_def)


section \<open>What the medium holds\<close>

type_synonym nand_record = "nand_record_type \<times> u8 list"

definition nand_frame :: "u32 \<Rightarrow> nand_record \<Rightarrow> u8 list" where
  "nand_frame q = (\<lambda>(t, d). be32 NAND_RECORD_MAGIC @ be32 (nand_code t) @ be32 q @ be32 (of_nat (length d)) @
     be32 (crc32 d) @ d)"

fun nand_image :: "u32 \<Rightarrow> nand_record list \<Rightarrow> u8 list" where
  "nand_image q [] = []"
| "nand_image q (r # rs) = nand_frame q r @ nand_image (q + 1) rs"

definition nand_size :: "nand_record list \<Rightarrow> nat" where
  "nand_size rs = sum_list (map (\<lambda>r. 20 + length (snd r)) rs)"

definition nand_record_ok :: "nand_record \<Rightarrow> bool" where
  "nand_record_ok r \<longleftrightarrow> fst r \<noteq> NAND_RECORD_COUNT \<and> snd r \<noteq> [] \<and> length (snd r) + 20 < 2 ^ 32"

text \<open>The records one packet can carry.\<close>

definition nand_fits :: "nand_record \<Rightarrow> bool" where
  "nand_fits r \<longleftrightarrow> length (snd r) \<le> 512"

definition nand_out :: "nand_record \<Rightarrow> ccsds_class \<times> handle \<times> u8 list" where
  "nand_out r = (class_of (fst r), NAND_STAGE, snd r)"

lemma nand_size_simps [simp]:
  "nand_size [] = 0" "nand_size (r # rs) = 20 + length (snd r) + nand_size rs"
  "nand_size (rs @ qs) = nand_size rs + nand_size qs"
  by (simp_all add: nand_size_def)

lemma nand_frame_length [simp]: "length (nand_frame q r) = 20 + length (snd r)"
  by (cases r) (simp add: nand_frame_def)

lemma nand_image_length [simp]: "length (nand_image q rs) = nand_size rs"
  by (induction rs arbitrary: q) simp_all

lemma nand_image_append: "nand_image q (rs @ qs) = nand_image q rs @ nand_image (q + of_nat (length rs)) qs"
  by (induction rs arbitrary: q) (simp_all add: algebra_simps)

lemma nand_size_take:
  assumes "k < length rs"
  shows "nand_size (take k rs) + 20 + length (snd (rs ! k)) = nand_size (take (Suc k) rs)"
    and "nand_size (take k rs) \<le> nand_size rs"
proof -
  show "nand_size (take k rs) + 20 + length (snd (rs ! k)) = nand_size (take (Suc k) rs)"
    using assms by (simp add: take_Suc_conv_app_nth)
  have "nand_size rs = nand_size (take k rs @ drop k rs)" by simp
  then show "nand_size (take k rs) \<le> nand_size rs" unfolding nand_size_simps by simp
qed

lemma nand_size_le: "nand_size (take k rs) \<le> nand_size rs"
  by (cases "k < length rs") (simp_all add: nand_size_take)

lemma nand_length_size: "length rs \<le> nand_size rs"
  by (induction rs) simp_all

lemma mem_bytes_append: "mem_bytes m a (n + k) = mem_bytes m a n @ mem_bytes m (a + n) k"
  by (induction k) (simp_all add: mem_bytes_def add.assoc)

lemma mem_bytes_split:
  assumes "mem_bytes m 0 n = xs @ ys @ zs"
  shows "mem_bytes m (length xs) (length ys) = ys"
proof -
  have "n = length (xs @ ys @ zs)" by (metis assms mem_bytes_simps(1))
  then have n: "n = length xs + (length ys + length zs)" by simp
  then show ?thesis using assms by (simp add: mem_bytes_append)
qed

lemma nand_header_eq:
  "nand_header t q n c = be32 NAND_RECORD_MAGIC @ be32 (nand_code t) @ be32 q @ be32 n @ be32 c"
proof -
  let ?e = "emit comm_put_u32" and ?b = "replicate 20 (0 :: u8)"
  have "nand_header t q n c = fst (?e c (?e n (?e q (?e (nand_code t) (?e NAND_RECORD_MAGIC (?b, 0))))))"
    by (simp add: nand_header_def emit_def split_beta Let_def)
  also have "\<dots> = be32 NAND_RECORD_MAGIC @ be32 (nand_code t) @ be32 q @ be32 n @ be32 c"
    unfolding cursor_start by (simp add: u32_field.emit_cursor) (simp add: cursor_def)
  finally show ?thesis .
qed

lemma nand_header_frame:
  "nand_frame q (t, d) = nand_header t q (of_nat (length d)) (crc32 d) @ d"
  by (simp add: nand_frame_def nand_header_eq)

lemma nand_header_length [simp]: "length (nand_header t q n c) = 20"
  by (simp add: nand_header_eq)

lemma nand_header_fields:
  "comm_get_u32 (nand_header t q n c) 0 = NAND_RECORD_MAGIC" "comm_get_u32 (nand_header t q n c) 4 = nand_code t"
  "comm_get_u32 (nand_header t q n c) 12 = n" "comm_get_u32 (nand_header t q n c) 16 = c"
  unfolding nand_header_eq
  using get_u32_be [of "[]" NAND_RECORD_MAGIC] get_u32_be [of "be32 NAND_RECORD_MAGIC" "nand_code t"]
    get_u32_be [of "be32 NAND_RECORD_MAGIC @ be32 (nand_code t) @ be32 q" n]
    get_u32_be [of "be32 NAND_RECORD_MAGIC @ be32 (nand_code t) @ be32 q @ be32 n" c "[]"]
  by simp_all

lemma nand_code_cast: "t \<noteq> NAND_RECORD_COUNT \<Longrightarrow> nand_of_code (nand_code t) = t \<and> nand_code t < 3"
  by (cases t) (simp_all add: nand_of_code_def)

text \<open>Where a record lies on the medium.\<close>

lemma nand_image_at:
  assumes "mem_bytes m 0 (nand_size rs) = nand_image q rs" "k < length rs" "rs ! k = (t, d)"
  shows "mem_bytes m (nand_size (take k rs)) 20 = nand_header t (q + of_nat k) (of_nat (length d)) (crc32 d)"
    and "mem_bytes m (nand_size (take k rs) + 20) (length d) = d"
proof -
  let ?h = "nand_header t (q + of_nat k) (of_nat (length d)) (crc32 d)" and ?l = "nand_image q (take k rs)"
  let ?r = "nand_image (q + of_nat k + 1) (drop (Suc k) rs)"
  have "rs = take k rs @ rs ! k # drop (Suc k) rs" using assms(2) by (rule id_take_nth_drop)
  then have "nand_image q rs = nand_image q (take k rs @ rs ! k # drop (Suc k) rs)" by simp
  also have "\<dots> = ?l @ ?h @ d @ ?r"
    using assms(2) by (simp add: nand_image_append assms(3) nand_header_frame)
  finally have i: "mem_bytes m 0 (nand_size rs) = ?l @ ?h @ d @ ?r" using assms(1) by simp
  show "mem_bytes m (nand_size (take k rs)) 20 = ?h"
    using mem_bytes_split [OF i] by simp
  have "mem_bytes m 0 (nand_size rs) = (?l @ ?h) @ d @ ?r" using i by simp
  from mem_bytes_split [OF this] show "mem_bytes m (nand_size (take k rs) + 20) (length d) = d" by simp
qed


section \<open>Operation sequences\<close>

text \<open>
  The medium, a byte at every offset, is part of what extends the program's state. A write that
  succeeds leaves the bytes at their place, one that fails may leave anything there, and neither
  disturbs what lies below; a read that succeeds yields what the medium holds; an erase may leave
  anything. No operation touches the program's own state.
\<close>

definition nand_same :: "'a nand_world_scheme \<Rightarrow> 'a nand_world_scheme \<Rightarrow> bool" where
  "nand_same w v \<longleftrightarrow> w_nand v = w_nand w \<and> w_output v = w_output w"

definition medium_wrote :: "('a \<Rightarrow> nat \<Rightarrow> u8) \<Rightarrow> u32 \<Rightarrow> u8 list \<Rightarrow> 'a nand_world_scheme \<Rightarrow>
    qiran_status \<times> 'a nand_world_scheme \<Rightarrow> bool" where
  "medium_wrote med off bs w = (\<lambda>(st, v). nand_same w v \<and>
     (\<forall>a < unat off. med (nand_world.more v) a = med (nand_world.more w) a) \<and>
     (st = QIRAN_OK \<longrightarrow> (\<forall>i < length bs. med (nand_world.more v) (unat off + i) = bs ! i)))"

definition medium_did_read :: "('a \<Rightarrow> nat \<Rightarrow> u8) \<Rightarrow> u32 \<Rightarrow> u32 \<Rightarrow> 'a nand_world_scheme \<Rightarrow>
    qiran_status \<times> u8 list \<times> 'a nand_world_scheme \<Rightarrow> bool" where
  "medium_did_read med off n w = (\<lambda>(st, bs, v). nand_same w v \<and> med (nand_world.more v) = med (nand_world.more w) \<and>
     (st = QIRAN_OK \<longrightarrow> bs = mem_bytes (med (nand_world.more w)) (unat off) (unat n)))"

definition nand_medium_ok :: "'a nand_world_scheme nand_env \<Rightarrow> ('a \<Rightarrow> nat \<Rightarrow> u8) \<Rightarrow> bool" where
  "nand_medium_ok E med \<longleftrightarrow>
    (\<forall>h c off n w. nand_same w (snd (ne_erase E h c off n w))) \<and>
    (\<forall>h c off bs w. medium_wrote med off bs w (ne_write E h c off bs w)) \<and>
    (\<forall>h c off n w. medium_did_read med off n w (ne_read E h c off n w))"

lemma medium_erase:
  assumes "nand_medium_ok E med" "ne_erase E h c off n w = (st, v)"
  shows "nand_same w v"
proof -
  have "nand_same w (snd (ne_erase E h c off n w))" using assms(1) by (simp add: nand_medium_ok_def)
  then show ?thesis by (simp add: assms(2))
qed

lemma medium_write:
  assumes "nand_medium_ok E med" "nand_write E off bs w = (st, v)"
  shows "nand_same w v" "a < unat off \<Longrightarrow> med (nand_world.more v) a = med (nand_world.more w) a"
    and "st = QIRAN_OK \<Longrightarrow> i < length bs \<Longrightarrow> med (nand_world.more v) (unat off + i) = bs ! i"
proof -
  have "medium_wrote med off bs w (nand_write E off bs w)" using assms(1) by (simp add: nand_medium_ok_def nand_write_def)
  then have "medium_wrote med off bs w (st, v)" by (simp only: assms(2))
  then show "nand_same w v" "a < unat off \<Longrightarrow> med (nand_world.more v) a = med (nand_world.more w) a"
    "st = QIRAN_OK \<Longrightarrow> i < length bs \<Longrightarrow> med (nand_world.more v) (unat off + i) = bs ! i"
    by (simp_all add: medium_wrote_def)
qed

lemma medium_read:
  assumes "nand_medium_ok E med" "nand_read E off n w = (st, bs, v)"
  shows "nand_same w v" "med (nand_world.more v) = med (nand_world.more w)"
    and "st = QIRAN_OK \<Longrightarrow> bs = mem_bytes (med (nand_world.more w)) (unat off) (unat n)"
proof -
  have "medium_did_read med off n w (nand_read E off n w)" using assms(1) by (simp add: nand_medium_ok_def nand_read_def)
  then have "medium_did_read med off n w (st, bs, v)" by (simp only: assms(2))
  then show "nand_same w v" "med (nand_world.more v) = med (nand_world.more w)"
    "st = QIRAN_OK \<Longrightarrow> bs = mem_bytes (med (nand_world.more w)) (unat off) (unat n)"
    by (simp_all add: medium_did_read_def)
qed

datatype 'w nand_op =
    Nd_store nand_record_type "u8 list"
  | Nd_begin
  | Nd_service
  | Nd_clear
  | Nd_other "'w \<Rightarrow> 'w"

text \<open>What happens, as an observer of the results, of the outbound queue and of the medium sees it: an erase
  that failed either left what was held as it was, or not.\<close>

datatype nand_event =
    Nd_stored nand_record
  | Nd_begun
  | Nd_handed "ccsds_class \<times> handle \<times> u8 list"
  | Nd_erased
  | Nd_erase_failed bool

text \<open>The descriptors queued between two states, with the bytes they point to.\<close>

definition nand_queued :: "'a nand_world_scheme \<Rightarrow> 'a nand_world_scheme \<Rightarrow> nand_event list" where
  "nand_queued w v = map (\<lambda>i. let sl = oq_slot (w_output v) ! i
       in Nd_handed (os_cls sl, os_data sl, take (unat (os_len sl)) (nd_stage (w_nand v))))
     (filter (\<lambda>i. \<not> os_used (oq_slot (w_output w) ! i) \<and> os_used (oq_slot (w_output v) ! i)) [0..<COMM_OUTPUT_DEPTH])"

fun nand_step :: "'a nand_world_scheme nand_env \<Rightarrow> ('a \<Rightarrow> nat \<Rightarrow> u8) \<Rightarrow> 'a nand_world_scheme nand_op \<Rightarrow>
    'a nand_world_scheme \<Rightarrow> nand_event list \<times> 'a nand_world_scheme" where
  "nand_step E med (Nd_store t d) w = (let (st, w) = storage_nand_store E t (Some d) (of_nat (length d)) w
     in (if st = QIRAN_OK then [Nd_stored (t, d)] else [], w))"
| "nand_step E med Nd_begin w = (let (st, w) = storage_nand_transfer_begin w in (if st = QIRAN_OK then [Nd_begun] else [], w))"
| "nand_step E med Nd_service w = (let v = storage_nand_transfer_service E w in (nand_queued w v, v))"
| "nand_step E med Nd_clear w = (let (st, v) = storage_nand_clear E w; n = unat (storage_nand_used w)
     in (if st = QIRAN_OK then [Nd_erased]
         else if st = QIRAN_ERR_HARDWARE
         then [Nd_erase_failed (mem_bytes (med (nand_world.more v)) 0 n = mem_bytes (med (nand_world.more w)) 0 n)]
         else [], v))"
| "nand_step E med (Nd_other f) w = ([], f w)"

fun nand_run :: "'a nand_world_scheme nand_env \<Rightarrow> ('a \<Rightarrow> nat \<Rightarrow> u8) \<Rightarrow> 'a nand_world_scheme nand_op list \<Rightarrow>
    'a nand_world_scheme \<Rightarrow> nand_event list \<times> 'a nand_world_scheme" where
  "nand_run E med [] w = ([], w)"
| "nand_run E med (p # ps) w = (let (xs, w) = nand_step E med p w; (ys, w) = nand_run E med ps w in (xs @ ys, w))"

text \<open>The ledger of a history: the records held, what was handed over since the transfer began, and
  whether an erase that failed has destroyed what was held.\<close>

type_synonym nand_ledger = "nand_record list \<times> (ccsds_class \<times> handle \<times> u8 list) list \<times> bool"

fun nand_note :: "nand_event \<Rightarrow> nand_ledger \<Rightarrow> nand_ledger" where
  "nand_note (Nd_stored r) (rs, hs, dmg) = (rs @ [r], hs, dmg)"
| "nand_note Nd_begun (rs, hs, dmg) = (rs, [], dmg)"
| "nand_note (Nd_handed h) (rs, hs, dmg) = (rs, hs @ [h], dmg)"
| "nand_note Nd_erased (rs, hs, dmg) = ([], [], False)"
| "nand_note (Nd_erase_failed intact) (rs, hs, dmg) = (rs, hs, dmg \<or> \<not> intact)"

text \<open>What the callers and the rest of the program keep to.\<close>

definition nand_op_ok :: "('a \<Rightarrow> nat \<Rightarrow> u8) \<Rightarrow> 'a nand_world_scheme nand_op \<Rightarrow> bool" where
  "nand_op_ok med p \<longleftrightarrow> (case p of
     Nd_store t d \<Rightarrow> length d + 20 < 2 ^ 32
   | Nd_other f \<Rightarrow> \<forall>w. w_nand (f w) = w_nand w \<and> med (nand_world.more (f w)) = med (nand_world.more w) \<and>
       length (oq_slot (w_output (f w))) = length (oq_slot (w_output w))
   | _ \<Rightarrow> True)"

section \<open>The invariant\<close>

text \<open>\<open>rs\<close> is what the medium holds, \<open>k\<close> the number of records the transfer has passed.\<close>

definition nand_inv :: "('a \<Rightarrow> nat \<Rightarrow> u8) \<Rightarrow> nand_record list \<Rightarrow> nat \<Rightarrow> 'a nand_world_scheme \<Rightarrow> bool" where
  "nand_inv med rs k w \<longleftrightarrow> (let s = w_nand w in
     (\<forall>r \<in> set rs. nand_record_ok r) \<and> unat (nd_used s) = nand_size rs \<and> nd_used s \<le> no_capacity_bytes (nd_ops s) \<and>
     nd_records s = of_nat (length rs) \<and>
     mem_bytes (med (nand_world.more w)) 0 (nand_size rs) = nand_image (nd_sequence s - of_nat (length rs)) rs \<and>
     k \<le> length rs \<and> nd_transferred s = of_nat (length (filter nand_fits (take k rs))) \<and>
     (nd_transfer_active s \<longrightarrow> unat (nd_transfer_offset s) = nand_size (take k rs)) \<and>
     length (oq_slot (w_output w)) = COMM_OUTPUT_DEPTH)"

definition nand_handed :: "nand_record list \<Rightarrow> nat \<Rightarrow> (ccsds_class \<times> handle \<times> u8 list) list" where
  "nand_handed rs k = map nand_out (filter nand_fits (take k rs))"

text \<open>What holds of the store's books whatever the medium holds.\<close>

definition nand_book :: "nand_record list \<Rightarrow> 'h list \<Rightarrow> 'a nand_world_scheme \<Rightarrow> bool" where
  "nand_book rs hs w \<longleftrightarrow> (let s = w_nand w in
     (\<forall>r \<in> set rs. nand_record_ok r) \<and> unat (nd_used s) = nand_size rs \<and> nd_used s \<le> no_capacity_bytes (nd_ops s) \<and>
     nd_records s = of_nat (length rs) \<and> nd_transferred s = of_nat (length hs) \<and> (rs = [] \<longrightarrow> hs = []) \<and>
     length (oq_slot (w_output w)) = COMM_OUTPUT_DEPTH)"

definition nand_state_ok :: "('a \<Rightarrow> nat \<Rightarrow> u8) \<Rightarrow> nand_ledger \<Rightarrow> 'a nand_world_scheme \<Rightarrow> bool" where
  "nand_state_ok med = (\<lambda>(rs, hs, dmg) w. nand_book rs hs w \<and>
     (\<not> dmg \<longrightarrow> (\<exists>k. nand_inv med rs k w \<and> hs = nand_handed rs k)))"

lemma nand_inv_book: "nand_inv med rs k w \<Longrightarrow> nand_book rs (nand_handed rs k) w"
  by (auto simp: nand_inv_def nand_book_def nand_handed_def Let_def)

lemma nand_state_okI: "nand_inv med rs k w \<Longrightarrow> hs = nand_handed rs k \<Longrightarrow> nand_state_ok med (rs, hs, dmg) w"
  by (auto simp: nand_state_ok_def nand_inv_book)

lemma nand_state_intact:
  assumes "nand_state_ok med (rs, hs, False) w"
  obtains k where "nand_inv med rs k w" "hs = nand_handed rs k"
  using assms by (auto simp: nand_state_ok_def)

lemma nand_book_cong:
  assumes "nand_book rs hs w" "nd_used (w_nand v) = nd_used (w_nand w)" "nd_ops (w_nand v) = nd_ops (w_nand w)"
    and "nd_records (w_nand v) = nd_records (w_nand w)" "nd_transferred (w_nand v) = nd_transferred (w_nand w)"
    and "length (oq_slot (w_output v)) = length (oq_slot (w_output w))"
  shows "nand_book rs hs v"
  using assms by (simp add: nand_book_def Let_def)

lemma nand_inv_cong:
  assumes "nand_inv med rs k w" "mem_bytes (med (nand_world.more v)) 0 (nand_size rs) = mem_bytes (med (nand_world.more w)) 0 (nand_size rs)"
    and "nd_used (w_nand v) = nd_used (w_nand w)" "nd_ops (w_nand v) = nd_ops (w_nand w)"
    and "nd_records (w_nand v) = nd_records (w_nand w)" "nd_sequence (w_nand v) = nd_sequence (w_nand w)"
    and "nd_transferred (w_nand v) = nd_transferred (w_nand w)"
    and "nd_transfer_active (w_nand v) \<Longrightarrow>
      nd_transfer_active (w_nand w) \<and> nd_transfer_offset (w_nand v) = nd_transfer_offset (w_nand w)"
    and "length (oq_slot (w_output v)) = length (oq_slot (w_output w))"
  shows "nand_inv med rs k v"
  using assms unfolding nand_inv_def Let_def by (elim conjE) simp

lemma nand_inv_counts:
  assumes "nand_inv med rs k w"
  shows "length rs < 2 ^ 32" "nand_size rs < 2 ^ 32"
    and "nd_transferred (w_nand w) = nd_records (w_nand w) \<Longrightarrow> filter nand_fits (take k rs) = rs"
proof -
  have s: "unat (nd_used (w_nand w)) = nand_size rs" "k \<le> length rs" using assms by (simp_all add: nand_inv_def Let_def)
  show n: "nand_size rs < 2 ^ 32" unfolding s(1) [symmetric] using unsigned_less [of "nd_used (w_nand w)", where 'a = nat] by simp
  then show l: "length rs < 2 ^ 32" using nand_length_size [of rs] by simp
  have f: "length (filter nand_fits (take k rs)) \<le> length (take k rs)" by (rule length_filter_le)
  assume e: "nd_transferred (w_nand w) = nd_records (w_nand w)"
  have "nd_records (w_nand w) = of_nat (length rs)"
    "nd_transferred (w_nand w) = of_nat (length (filter nand_fits (take k rs)))"
    using assms unfolding nand_inv_def Let_def by blast+
  then have "(of_nat (length rs) :: u32) = of_nat (length (filter nand_fits (take k rs)))" by (simp only: e)
  then have e: "unat (of_nat (length rs) :: u32) = unat (of_nat (length (filter nand_fits (take k rs))) :: u32)"
    by (rule arg_cong)
  have a: "unat (of_nat (length rs) :: u32) = length rs" using l by (intro unat_of_nat_eq_u32) simp
  have b: "unat (of_nat (length (filter nand_fits (take k rs))) :: u32) = length (filter nand_fits (take k rs))"
    using f s(2) l by (intro unat_of_nat_eq_u32) simp
  have n: "length rs = length (filter nand_fits (take k rs))" by (rule trans [OF a [symmetric] trans [OF e b]])
  have "length (filter nand_fits (take k rs)) \<le> k" using f by simp
  then have "length rs \<le> k" using n by linarith
  then have t: "take k rs = rs" by simp
  have "\<forall>r \<in> set rs. nand_fits r"
  proof (rule ccontr)
    assume "\<not> ?thesis"
    then obtain r where "r \<in> set rs" "\<not> nand_fits r" by blast
    from length_filter_less [of r rs nand_fits, OF this] n show False unfolding t by linarith
  qed
  then show "filter nand_fits (take k rs) = rs" unfolding t by simp
qed

lemma mem_bytes_eqI: "length bs = n \<Longrightarrow> (\<And>i. i < n \<Longrightarrow> m (a + i) = bs ! i) \<Longrightarrow> mem_bytes m a n = bs"
  by (rule nth_equalityI) simp_all

lemma nand_store_inv:
  assumes M: "nand_medium_ok E med" and I: "nand_inv med rs k w" and n: "length d + 20 < 2 ^ 32"
    and r: "storage_nand_store E t (Some d) (of_nat (length d)) w = (st, v)"
  shows "if st = QIRAN_OK then nand_inv med (rs @ [(t, d)]) k v else nand_inv med rs k v"
proof -
  let ?s = "w_nand w" and ?n = "of_nat (length d) :: u32" and ?sz = "nand_size rs"
  let ?h = "nand_header t (nd_sequence ?s) ?n (svc_crc32 (Some d))"
  have un: "unat ?n = length d" using n by (simp add: unat_of_nat_eq_u32)
  then have u20: "unat (NAND_HEADER_BYTES + ?n) = 20 + length d"
    using n by (simp add: NAND_HEADER_BYTES_def unat_word_ariths)
  have us: "unat (nd_used ?s) = ?sz" "nd_used ?s \<le> no_capacity_bytes (nd_ops ?s)"
    using I by (simp_all add: nand_inv_def Let_def)
  let ?refused = "t = NAND_RECORD_COUNT \<or> ?n = 0 \<or> \<not> nd_ready ?s \<or> nd_transfer_active ?s \<or>
    no_capacity_bytes (nd_ops ?s) - nd_used ?s < NAND_HEADER_BYTES + ?n"
  show ?thesis
  proof (cases ?refused)
    case True
    then have "st \<noteq> QIRAN_OK \<and> (v = w \<or> v = svc_fdir_report QIRAN_FAULT_NAND_WRITE (nd_used ?s) w)"
      using r by (auto simp: storage_nand_store_def split: if_splits)
    moreover have "nand_inv med rs k (svc_fdir_report QIRAN_FAULT_NAND_WRITE (nd_used ?s) w)"
      by (rule nand_inv_cong [OF I]) simp_all
    ultimately show ?thesis using I by auto
  next
    case ok: False
    have "unat (no_capacity_bytes (nd_ops ?s) - nd_used ?s) = unat (no_capacity_bytes (nd_ops ?s)) - ?sz"
      using us by (simp add: unat_sub)
    then have fit: "?sz + (20 + length d) \<le> unat (no_capacity_bytes (nd_ops ?s))"
      using ok us u20 by (auto simp: word_less_nat_alt word_le_nat_alt)
    then have lt: "?sz + (20 + length d) < 2 ^ 32"
      using unsigned_less [of "no_capacity_bytes (nd_ops ?s)", where 'a = nat] by simp
    then have o20: "unat (nd_used ?s + NAND_HEADER_BYTES) = ?sz + 20"
      using us by (simp add: NAND_HEADER_BYTES_def unat_word_ariths)
    obtain st1 v1 where w1: "nand_write E (nd_used ?s) ?h w = (st1, v1)" by (rule prod.exhaust)
    obtain st2 v2 where w2: "nand_write E (nd_used ?s + NAND_HEADER_BYTES) d v1 = (st2, v2)" by (rule prod.exhaust)
    note m1 = medium_write [OF M w1] and m2 = medium_write [OF M w2]
    have same: "w_nand v1 = w_nand w" "w_output v1 = w_output w" "w_nand v2 = w_nand w" "w_output v2 = w_output w"
      using m1(1) m2(1) by (simp_all add: nand_same_def)
    have low: "mem_bytes (med (nand_world.more v1)) 0 ?sz = mem_bytes (med (nand_world.more w)) 0 ?sz"
      "mem_bytes (med (nand_world.more v2)) 0 ?sz = mem_bytes (med (nand_world.more w)) 0 ?sz"
      using m1(2) m2(2) us o20 by (auto intro!: mem_bytes_cong)
    have fails: "nand_inv med rs k (snd (nand_write_failed v1))" "nand_inv med rs k (snd (nand_write_failed v2))"
      using low same by (auto simp: nand_write_failed_def intro!: nand_inv_cong [OF I])
    show ?thesis
    proof (cases "st1 = QIRAN_OK \<and> st2 = QIRAN_OK")
      case False
      then have "st \<noteq> QIRAN_OK \<and> (v = snd (nand_write_failed v1) \<or> v = snd (nand_write_failed v2))"
        using r ok un w1 w2 same by (auto simp: storage_nand_store_def nand_write_failed_def Let_def split: if_splits)
      then show ?thesis using fails by auto
    next
      case True
      let ?v = "nand_upd (\<lambda>s. s\<lparr>nd_used := nd_used s + (NAND_HEADER_BYTES + ?n), nd_records := nd_records s + 1,
        nd_sequence := nd_sequence s + 1\<rparr>) v2"
      have v: "st = QIRAN_OK" "v = ?v"
        using r ok un w1 w2 same True by (simp_all add: storage_nand_store_def Let_def)
      have new: "unat (nd_used ?s + (NAND_HEADER_BYTES + ?n)) = ?sz + (20 + length d)"
        using us u20 lt by (simp add: unat_word_ariths)
      have hd: "mem_bytes (med (nand_world.more v2)) ?sz 20 = ?h"
        using m1(3) [of i for i] m2(2) o20 us True by (intro mem_bytes_eqI) auto
      have dt: "mem_bytes (med (nand_world.more v2)) (?sz + 20) (length d) = d"
        using m2(3) o20 True by (intro mem_bytes_eqI) auto
      have "mem_bytes (med (nand_world.more v2)) 0 (?sz + (20 + length d)) =
          nand_image (nd_sequence ?s - of_nat (length rs)) rs @ ?h @ d"
        using I low(2) hd dt by (simp add: mem_bytes_append nand_inv_def Let_def)
      also have "\<dots> = nand_image (nd_sequence ?s - of_nat (length rs)) (rs @ [(t, d)])"
        by (simp add: nand_image_append nand_header_frame)
      finally have img: "mem_bytes (med (nand_world.more ?v)) 0 (nand_size (rs @ [(t, d)])) =
          nand_image (nd_sequence (w_nand ?v) - of_nat (length (rs @ [(t, d)]))) (rs @ [(t, d)])"
        by (simp add: same)
      have d: "nand_record_ok (t, d)" using ok n un by (auto simp: nand_record_ok_def)
      have k: "take k (rs @ [(t, d)]) = take k rs" using I by (simp add: nand_inv_def Let_def)
      have "nd_used ?s + (NAND_HEADER_BYTES + ?n) \<le> no_capacity_bytes (nd_ops ?s)"
        using new fit by (simp add: word_le_nat_alt)
      then have "nand_inv med (rs @ [(t, d)]) k ?v"
        using I new img d unfolding nand_inv_def Let_def k
        by (simp add: same add.commute)
      then show ?thesis by (simp add: v)
    qed
  qed
qed


lemma nand_store_book:
  assumes M: "nand_medium_ok E med" and B: "nand_book rs hs w" and n: "length d + 20 < 2 ^ 32"
    and r: "storage_nand_store E t (Some d) (of_nat (length d)) w = (st, v)"
  shows "if st = QIRAN_OK then nand_book (rs @ [(t, d)]) hs v else nand_book rs hs v"
proof -
  let ?s = "w_nand w" and ?n = "of_nat (length d) :: u32"
  let ?h = "nand_header t (nd_sequence ?s) ?n (svc_crc32 (Some d))"
  have un: "unat ?n = length d" using n by (simp add: unat_of_nat_eq_u32)
  then have u20: "unat (NAND_HEADER_BYTES + ?n) = 20 + length d"
    using n by (simp add: NAND_HEADER_BYTES_def unat_word_ariths)
  have us: "unat (nd_used ?s) = nand_size rs" "nd_used ?s \<le> no_capacity_bytes (nd_ops ?s)"
    using B by (simp_all add: nand_book_def Let_def)
  obtain st1 v1 where w1: "nand_write E (nd_used ?s) ?h w = (st1, v1)" by (rule prod.exhaust)
  obtain st2 v2 where w2: "nand_write E (nd_used ?s + NAND_HEADER_BYTES) d v1 = (st2, v2)" by (rule prod.exhaust)
  have same: "w_nand v1 = w_nand w" "w_output v1 = w_output w" "w_nand v2 = w_nand w" "w_output v2 = w_output w"
    using medium_write(1) [OF M w1] medium_write(1) [OF M w2] by (simp_all add: nand_same_def)
  show ?thesis
  proof (cases "st = QIRAN_OK")
    case False
    have "v = w \<or> v = svc_fdir_report QIRAN_FAULT_NAND_WRITE (nd_used ?s) w \<or>
        v = snd (nand_write_failed v1) \<or> v = snd (nand_write_failed v2)"
      using r False un w1 w2 same by (auto simp: storage_nand_store_def Let_def split: if_splits)
    then show ?thesis using False same by (auto simp: nand_write_failed_def intro!: nand_book_cong [OF B])
  next
    case True
    have ok: "t \<noteq> NAND_RECORD_COUNT" "?n \<noteq> 0" "\<not> no_capacity_bytes (nd_ops ?s) - nd_used ?s < NAND_HEADER_BYTES + ?n"
      using r True by (auto simp: storage_nand_store_def split: if_splits)
    have v: "v = nand_upd (\<lambda>s. s\<lparr>nd_used := nd_used s + (NAND_HEADER_BYTES + ?n), nd_records := nd_records s + 1,
        nd_sequence := nd_sequence s + 1\<rparr>) v2"
      using r True un w1 w2 same by (auto simp: storage_nand_store_def nand_write_failed_def Let_def split: if_splits)
    have "unat (no_capacity_bytes (nd_ops ?s) - nd_used ?s) = unat (no_capacity_bytes (nd_ops ?s)) - nand_size rs"
      using us by (simp add: unat_sub)
    then have fit: "nand_size rs + (20 + length d) \<le> unat (no_capacity_bytes (nd_ops ?s))"
      using ok(3) us u20 by (auto simp: word_less_nat_alt word_le_nat_alt)
    then have "nand_size rs + (20 + length d) < 2 ^ 32"
      using unsigned_less [of "no_capacity_bytes (nd_ops ?s)", where 'a = nat] by simp
    then have new: "unat (nd_used ?s + (NAND_HEADER_BYTES + ?n)) = nand_size rs + (20 + length d)"
      using us u20 by (simp add: unat_word_ariths)
    have "nand_record_ok (t, d)" using ok n un by (auto simp: nand_record_ok_def)
    then show ?thesis
      using B new fit True by (simp add: v same nand_book_def Let_def word_le_nat_alt add.commute)
  qed
qed

lemma nand_begin_book:
  assumes "nand_book rs hs w" "storage_nand_transfer_begin w = (st, v)"
  shows "nand_book rs (if st = QIRAN_OK then [] else hs) v"
  using assms by (auto simp: storage_nand_transfer_begin_def nand_book_def Let_def split: if_splits)

lemma nand_clear_book:
  assumes "nand_medium_ok E med" "nand_book rs hs w" "storage_nand_clear E w = (st, v)"
  shows "if st = QIRAN_OK then nand_book ([] :: nand_record list) ([] :: 'h list) v else nand_book rs hs v"
    and "st = QIRAN_OK \<or> st = QIRAN_ERR_HARDWARE \<Longrightarrow> (of_nat (length hs) :: u32) = of_nat (length rs)"
proof -
  let ?s = "w_nand w"
  obtain st1 v1 where e: "ne_erase E (the (no_erase (nd_ops ?s))) (no_ctx (nd_ops ?s)) 0 (nd_used ?s) w = (st1, v1)"
    by (rule prod.exhaust)
  have same: "w_nand v1 = w_nand w" "w_output v1 = w_output w" using medium_erase [OF assms(1) e] by (simp_all add: nand_same_def)
  let ?fail = "svc_fdir_report QIRAN_FAULT_NAND_WRITE 0 (nand_upd (\<lambda>s. s\<lparr>nd_write_failures := nd_write_failures s + 1\<rparr>) v1)"
  have r: "st \<noteq> QIRAN_OK \<and> st \<noteq> QIRAN_ERR_HARDWARE \<and> v = w \<or>
      (nd_records ?s = 0 \<or> nd_transferred ?s = nd_records ?s) \<and> (st = QIRAN_ERR_HARDWARE \<and> v = ?fail \<or>
        st = QIRAN_OK \<and> v = nand_upd (\<lambda>s. s\<lparr>nd_used := 0, nd_records := 0, nd_transferred := 0, nd_transfer_offset := 0\<rparr>) v1)"
    using assms(3) e by (auto simp: storage_nand_clear_def Let_def split: if_splits)
  have "nand_book rs hs ?fail" by (rule nand_book_cong [OF assms(2)]) (simp_all add: same)
  then show "if st = QIRAN_OK then nand_book ([] :: nand_record list) ([] :: 'h list) v else nand_book rs hs v"
    using r assms(2) same by (auto simp: nand_book_def Let_def)
  have l: "length rs < 2 ^ 32"
    using nand_length_size [of rs] assms(2) unsigned_less [of "nd_used ?s", where 'a = nat] by (simp add: nand_book_def Let_def)
  have "rs = []" if "nd_records ?s = 0"
    using that l assms(2) unat_of_nat_eq_u32 [of "length rs"] by (auto simp: nand_book_def Let_def)
  then show "(of_nat (length hs) :: u32) = of_nat (length rs)" if "st = QIRAN_OK \<or> st = QIRAN_ERR_HARDWARE"
    using r that assms(2) by (auto simp: nand_book_def Let_def)
qed

lemma nand_clear_idle:
  assumes "nand_medium_ok E med" "storage_nand_clear E w = (QIRAN_OK, v)"
  shows "\<not> nd_transfer_active (w_nand v)"
proof -
  obtain st u where e: "ne_erase E (the (no_erase (nd_ops (w_nand w)))) (no_ctx (nd_ops (w_nand w))) 0 (nd_used (w_nand w)) w = (st, u)"
    by (rule prod.exhaust)
  have "w_nand u = w_nand w" using medium_erase [OF assms(1) e] by (simp add: nand_same_def)
  then show ?thesis using assms(2) e by (auto simp: storage_nand_clear_def Let_def split: if_splits)
qed

lemma nand_begin_inv:
  assumes "nand_inv med rs k w" "storage_nand_transfer_begin w = (st, v)"
  shows "nand_inv med rs (if st = QIRAN_OK then 0 else k) v"
  using assms by (auto simp: storage_nand_transfer_begin_def nand_inv_def Let_def split: if_splits)

lemma nand_clear_inv:
  assumes "nand_medium_ok E med" "nand_inv med rs k w" "storage_nand_clear E w = (st, v)"
  shows "st = QIRAN_OK \<Longrightarrow> nand_inv med [] 0 v" "st = QIRAN_OK \<or> st = QIRAN_ERR_HARDWARE \<Longrightarrow> filter nand_fits (take k rs) = rs"
    and "st \<noteq> QIRAN_OK \<Longrightarrow> st \<noteq> QIRAN_ERR_HARDWARE \<or> mem_bytes (med (nand_world.more v)) 0 (nand_size rs) =
      mem_bytes (med (nand_world.more w)) 0 (nand_size rs) \<Longrightarrow> nand_inv med rs k v"
proof -
  let ?s = "w_nand w"
  let ?e = "ne_erase E (the (no_erase (nd_ops ?s))) (no_ctx (nd_ops ?s)) 0 (nd_used ?s) w"
  obtain st1 v1 where e: "?e = (st1, v1)" by (rule prod.exhaust)
  have same: "w_nand v1 = w_nand w" "w_output v1 = w_output w" using medium_erase [OF assms(1) e] by (simp_all add: nand_same_def)
  let ?fail = "svc_fdir_report QIRAN_FAULT_NAND_WRITE 0 (nand_upd (\<lambda>s. s\<lparr>nd_write_failures := nd_write_failures s + 1\<rparr>) v1)"
  have r: "st \<noteq> QIRAN_OK \<and> st \<noteq> QIRAN_ERR_HARDWARE \<and> v = w \<or>
      (nd_records ?s = 0 \<or> nd_transferred ?s = nd_records ?s) \<and> \<not> nd_transfer_active ?s \<and> (st = QIRAN_ERR_HARDWARE \<and> v = ?fail \<or>
        st = QIRAN_OK \<and> v = nand_upd (\<lambda>s. s\<lparr>nd_used := 0, nd_records := 0, nd_transferred := 0, nd_transfer_offset := 0\<rparr>) v1)"
    using assms(3) e by (auto simp: storage_nand_clear_def Let_def split: if_splits)
  show "nand_inv med rs k v" if "st \<noteq> QIRAN_OK" "st \<noteq> QIRAN_ERR_HARDWARE \<or>
      mem_bytes (med (nand_world.more v)) 0 (nand_size rs) = mem_bytes (med (nand_world.more w)) 0 (nand_size rs)"
  proof (cases "v = w")
    case False
    then have "v = ?fail" "mem_bytes (med (nand_world.more v)) 0 (nand_size rs) = mem_bytes (med (nand_world.more w)) 0 (nand_size rs)"
      using r that by auto
    then show ?thesis by (intro nand_inv_cong [OF assms(2)]) (simp_all add: same)
  qed (use assms(2) in simp)
  show "st = QIRAN_OK \<Longrightarrow> nand_inv med [] 0 v"
    using r assms(2) same by (auto simp: nand_inv_def Let_def mem_bytes_def)
  have "filter nand_fits (take k rs) = rs" if "nd_records ?s = 0 \<or> nd_transferred ?s = nd_records ?s"
  proof (cases "nd_records ?s = 0")
    case True
    have "unat (of_nat (length rs) :: u32) = 0" using True assms(2) by (simp add: nand_inv_def Let_def)
    moreover have "unat (of_nat (length rs) :: u32) = length rs"
      using nand_inv_counts(1) [OF assms(2)] by (intro unat_of_nat_eq_u32) simp
    ultimately show ?thesis by simp
  next
    case False
    then show ?thesis using that nand_inv_counts(3) [OF assms(2)] by blast
  qed
  then show "st = QIRAN_OK \<or> st = QIRAN_ERR_HARDWARE \<Longrightarrow> filter nand_fits (take k rs) = rs" using r by auto
qed

text \<open>The descriptor a submission queues.\<close>

lemma submit_queues:
  assumes "comm_output_submit cls (Some h) n w = (st, v)" "length (oq_slot (w_output w)) = COMM_OUTPUT_DEPTH"
  shows "w_nand v = w_nand w" "nand_world.more v = nand_world.more w" "length (oq_slot (w_output v)) = COMM_OUTPUT_DEPTH"
    and "nand_queued w v = (if st = QIRAN_OK then [Nd_handed (cls, h, take (unat n) (nd_stage (w_nand w)))] else [])"
proof -
  show k: "w_nand v = w_nand w" "nand_world.more v = nand_world.more w" "length (oq_slot (w_output v)) = COMM_OUTPUT_DEPTH"
    using assms by (auto simp: comm_output_submit_def output_fill_def Let_def split: if_splits option.splits)
  show "nand_queued w v = (if st = QIRAN_OK then [Nd_handed (cls, h, take (unat n) (nd_stage (w_nand w)))] else [])"
  proof (cases "st = QIRAN_OK")
    case False
    then have "oq_slot (w_output v) = oq_slot (w_output w)"
      using assms(1) by (auto simp: comm_output_submit_def split: if_splits option.splits)
    then show ?thesis using False by (simp add: nand_queued_def)
  next
    case True
    then obtain i where f: "find (\<lambda>i. \<not> os_used (oq_slot (w_output w) ! i)) [0..<COMM_OUTPUT_DEPTH] = Some i"
      and v: "oq_slot (w_output v) = (oq_slot (w_output w))[i := \<lparr>os_data = h, os_len = n, os_cls = cls, os_used = True\<rparr>]"
      using assms(1) by (auto simp: comm_output_submit_def output_fill_def Let_def split: if_splits option.splits)
    have i: "i < COMM_OUTPUT_DEPTH" "\<not> os_used (oq_slot (w_output w) ! i)" using f by (auto simp: find_Some_iff)
    have "filter (\<lambda>j. \<not> os_used (oq_slot (w_output w) ! j) \<and> os_used (oq_slot (w_output v) ! j)) [0..<COMM_OUTPUT_DEPTH] =
        filter (\<lambda>j. j = i) [0..<COMM_OUTPUT_DEPTH]"
      using i assms(2) by (intro filter_cong) (auto simp: v nth_list_update)
    also have "\<dots> = [i]"
    proof -
      have "[0..<COMM_OUTPUT_DEPTH] = [0..<i] @ i # [Suc i..<COMM_OUTPUT_DEPTH]"
        using i(1) by (metis le_add1 less_imp_add_positive upt_add_eq_append upt_conv_Cons add_0 less_imp_le)
      then show ?thesis by (simp add: filter_empty_conv)
    qed
    finally show ?thesis using True i assms(2) k(1) by (simp add: nand_queued_def v Let_def)
  qed
qed


subsection \<open>One step of the transfer\<close>

lemma nand_queued_same: "oq_slot (w_output v) = oq_slot (w_output w) \<Longrightarrow> nand_queued w v = []"
  by (simp add: nand_queued_def)

lemma nand_queued_cong:
  "oq_slot (w_output w') = oq_slot (w_output w) \<Longrightarrow> oq_slot (w_output v') = oq_slot (w_output v) \<Longrightarrow>
   nd_stage (w_nand v') = nd_stage (w_nand v) \<Longrightarrow> nand_queued w' v' = nand_queued w v"
  by (simp add: nand_queued_def)

lemma nand_advance_inv:
  assumes "nand_inv med rs k w" "nd_transfer_active (w_nand w)" "k < length rs" "rs ! k = (t, d)"
    and "w_nand v = (w_nand w)\<lparr>nd_transfer_offset := nd_transfer_offset (w_nand w) + (NAND_HEADER_BYTES + of_nat (length d)),
      nd_transferred := nd_transferred (w_nand w) + (if nand_fits (t, d) then 1 else 0),
      nd_read_failures := x, nd_stage := y\<rparr>"
    and "nand_world.more v = nand_world.more w" "length (oq_slot (w_output v)) = COMM_OUTPUT_DEPTH"
  shows "nand_inv med rs (Suc k) v"
proof -
  have o: "unat (nd_transfer_offset (w_nand w)) = nand_size (take k rs)" using assms(1,2) by (simp add: nand_inv_def Let_def)
  have e: "nand_size (take k rs) + 20 + length d = nand_size (take (Suc k) rs)"
    using nand_size_take(1) [OF assms(3)] assms(4) by simp
  have "nand_size (take (Suc k) rs) < 2 ^ 32"
    using nand_size_le [of "Suc k" rs] nand_inv_counts(2) [OF assms(1)] by simp
  then have "unat (nd_transfer_offset (w_nand w) + (NAND_HEADER_BYTES + of_nat (length d))) = nand_size (take (Suc k) rs)"
    using o e by (simp add: NAND_HEADER_BYTES_def unat_word_ariths unat_of_nat)
  then show ?thesis
    using assms(1,3) unfolding nand_inv_def Let_def assms(5-7)
    by (simp add: take_Suc_conv_app_nth assms(4))
qed

lemma nand_service_step:
  assumes M: "nand_medium_ok E med" and I: "nand_inv med rs k w" and act: "nd_transfer_active (w_nand w)"
    and k: "k < length rs" and rk: "rs ! k = (t, d)"
  defines "v \<equiv> storage_nand_transfer_service E w"
  shows "nand_inv med rs k v \<and> \<not> nd_transfer_active (w_nand v) \<and> nand_queued w v = [] \<and>
      (\<exists>off n u. fst (nand_read E off n u) \<noteq> QIRAN_OK) \<or>
    nand_inv med rs (Suc k) v \<and> nd_transfer_active (w_nand v) \<and>
      nand_queued w v = (if nand_fits (t, d) then [Nd_handed (nand_out (t, d))] else []) \<or>
    nand_inv med rs k v \<and> nd_transfer_active (w_nand v) \<and> nand_queued w v = [] \<and>
      find (\<lambda>i. \<not> os_used (oq_slot (w_output w) ! i)) [0..<COMM_OUTPUT_DEPTH] = None"
    (is "?stop v \<or> ?next v \<or> ?busy v")
proof -
  let ?s = "w_nand w" and ?n = "of_nat (length d) :: u32"
  have o: "unat (nd_transfer_offset ?s) = nand_size (take k rs)" and us: "unat (nd_used ?s) = nand_size rs"
    and r: "nand_record_ok (t, d)" and len: "length (oq_slot (w_output w)) = COMM_OUTPUT_DEPTH"
    and mem: "mem_bytes (med (nand_world.more w)) 0 (nand_size rs) = nand_image (nd_sequence ?s - of_nat (length rs)) rs"
    using I act nth_mem [OF k] rk by (simp_all add: nand_inv_def Let_def)
  have un: "unat ?n = length d" "?n \<noteq> 0" and t: "t \<noteq> NAND_RECORD_COUNT"
    using r unat_of_nat_eq_u32 [of "length d"] by (auto simp: nand_record_ok_def)
  have e: "nand_size (take k rs) + 20 + length d \<le> nand_size rs"
    using nand_size_take(1) [OF k] nand_size_le [of "Suc k" rs] rk by simp
  have lt: "nand_size rs < 2 ^ 32" by (rule nand_inv_counts(2) [OF I])
  have o20: "unat (nd_transfer_offset ?s + NAND_HEADER_BYTES) = nand_size (take k rs) + 20"
    and on: "unat (nd_transfer_offset ?s + NAND_HEADER_BYTES + ?n) = nand_size (take k rs) + 20 + length d"
    using o un e lt by (simp_all add: NAND_HEADER_BYTES_def unat_word_ariths)
  have fits: "NAND_TRANSFER_STAGE < ?n \<longleftrightarrow> \<not> nand_fits (t, d)"
    by (simp add: nand_fits_def NAND_TRANSFER_STAGE_def word_less_nat_alt un not_le)
  obtain st1 h u where r1: "nand_read E (nd_transfer_offset ?s) NAND_HEADER_BYTES w = (st1, h, u)" by (rule prod_cases3)
  note m1 = medium_read [OF M r1]
  have u: "w_nand u = ?s" "w_output u = w_output w" using m1(1) by (simp_all add: nand_same_def)
  have more: "\<not> nd_used ?s \<le> nd_transfer_offset ?s" using o us e by (simp add: word_le_nat_alt)
  have Iu: "nand_inv med rs k u" by (rule nand_inv_cong [OF I]) (simp_all add: u m1(2))
  have stop: "nand_inv med rs k (nand_transfer_stop x) \<and> \<not> nd_transfer_active (w_nand (nand_transfer_stop x)) \<and>
      nand_queued w (nand_transfer_stop x) = []" if "nand_inv med rs k x" "w_output x = w_output w" for x
  proof -
    have "w_output (nand_transfer_stop x) = w_output x" by (simp add: nand_transfer_stop_def)
    moreover have "nand_inv med rs k (nand_transfer_stop x)"
      by (rule nand_inv_cong [OF that(1)]) (simp_all add: nand_transfer_stop_def)
    ultimately show ?thesis using that(2) by (simp add: nand_queued_same) (simp add: nand_transfer_stop_def)
  qed
  show ?thesis
  proof (cases "st1 = QIRAN_OK")
    case False
    then have "v = nand_transfer_stop u"
      by (simp add: v_def storage_nand_transfer_service_def act more r1)
    moreover have "\<exists>off n u. fst (nand_read E off n u) \<noteq> QIRAN_OK" using False r1 by (metis fst_conv)
    ultimately show ?thesis using stop [OF Iu u(2)] by blast
  next
    case True
    have "h = mem_bytes (med (nand_world.more w)) (nand_size (take k rs)) 20"
      using m1(3) [OF True] o by (simp add: NAND_HEADER_BYTES_def)
    then have h: "h = nand_header t (nd_sequence ?s - of_nat (length rs) + of_nat k) ?n (crc32 d)"
      using nand_image_at(1) [OF mem k rk] by simp
    have c: "\<not> 3 \<le> nand_code t" using nand_code_cast [OF t] by (simp add: not_le)
    have "\<not> nd_used ?s < nd_transfer_offset ?s + NAND_HEADER_BYTES + ?n"
      using on us e by (simp add: word_less_nat_alt)
    then have v: "v = nand_transfer_record E (nand_code t) ?n (crc32 d) u"
      using True c un(2)
      by (simp add: v_def storage_nand_transfer_service_def act more r1 h nand_header_fields u Let_def not_le)
    show ?thesis
    proof (cases "nand_fits (t, d)")
      case False
      then have v: "v = nand_transfer_skip QIRAN_FAULT_NAND_WRITE ?n ?n u"
        unfolding v nand_transfer_record_def using fits by simp
      have "nand_inv med rs (Suc k) v"
        by (rule nand_advance_inv [OF Iu _ k rk, where x = "nd_read_failures ?s + 1" and y = "nd_stage ?s"]) (use False act in \<open>simp_all add: v nand_transfer_skip_def u len\<close>)
      moreover have "nand_queued w v = []" by (rule nand_queued_same) (simp add: v nand_transfer_skip_def u)
      moreover have "nd_transfer_active (w_nand v)" by (simp add: v nand_transfer_skip_def u act)
      ultimately show ?thesis using False by simp
    next
      case True
      then have ns: "\<not> NAND_TRANSFER_STAGE < ?n" using fits by simp
      obtain st2 bs x where r2: "nand_read E (nd_transfer_offset ?s + NAND_HEADER_BYTES) ?n u = (st2, bs, x)" by (rule prod_cases3)
      note m2 = medium_read [OF M r2]
      let ?x = "nand_upd (stage_put bs) x"
      have x: "w_nand ?x = stage_put bs ?s" "w_output ?x = w_output w" "med (nand_world.more ?x) = med (nand_world.more w)"
        using m2(1) u by (simp_all add: nand_same_def m2(2) m1(2))
      have wx: "w_nand x = ?s" "w_output x = w_output w" using m2(1) u by (simp_all add: nand_same_def)
      have Ix: "nand_inv med rs k ?x"
        by (rule nand_inv_cong [OF I], unfold x) (simp_all add: stage_put_def)
      show ?thesis
      proof (cases "st2 = QIRAN_OK")
        case False
        then have "v = nand_transfer_stop ?x" unfolding v nand_transfer_record_def using ns r2 by (simp add: u Let_def)
        moreover have "\<exists>off n u. fst (nand_read E off n u) \<noteq> QIRAN_OK" using False r2 by (metis fst_conv)
        ultimately show ?thesis using stop [OF Ix x(2)] by blast
      next
        case ok: True
        have bs: "bs = d"
          using m2(3) [OF ok] o20 un(1) nand_image_at(2) [OF mem k rk] by (simp add: m1(2))
        obtain st3 y where sub: "comm_output_submit (class_of t) (Some NAND_STAGE) ?n ?x = (st3, y)" by (rule prod.exhaust)
        note q = submit_queues [OF sub, unfolded x(2), OF len]
        have qy: "nand_queued w z = nand_queued ?x y" if "w_output z = w_output y" "nd_stage (w_nand z) = nd_stage (w_nand y)" for z
          by (rule nand_queued_cong) (simp_all add: that wx)
        have d: "take (length d) (nd_stage (w_nand ?x)) = d" by (simp only: x(1)) (simp add: stage_put_def bs)
        have v: "v = (if st3 \<noteq> QIRAN_OK then y else nand_upd (\<lambda>s. s\<lparr>nd_transfer_offset := nd_transfer_offset s +
            (NAND_HEADER_BYTES + ?n), nd_transferred := nd_transferred s + 1\<rparr>) y)"
          unfolding v nand_transfer_record_def using ns r2 ok d un(1) nand_code_cast [OF t] sub by (simp add: u Let_def)
        show ?thesis
        proof (cases "st3 = QIRAN_OK")
          case False
          have none: "find (\<lambda>i. \<not> os_used (oq_slot (w_output w) ! i)) [0..<COMM_OUTPUT_DEPTH] = None"
          proof -
            have "?n + CCSDS_PRIMARY_HEADER_BYTES + CCSDS_INTEGRITY_BYTES \<le> OUTPUT_PACKET_BYTES"
              using True un(1) by (simp add: word_le_nat_alt unat_word_ariths nand_fits_def OUTPUT_PACKET_BYTES_def ccsds_consts)
            moreover have "class_of t \<noteq> CCSDS_CLASS_COUNT" by (cases t) simp_all
            ultimately show ?thesis using sub False un(2) unfolding comm_output_submit_def x(2)
              by (auto simp: not_less [symmetric] split: option.splits)
          qed
          have "v = y" "nand_queued w v = []" using q(4) False qy [of y] by (simp_all add: v)
          moreover have "nand_inv med rs k y" by (rule nand_inv_cong [OF Ix]) (simp_all only: q x(2) len)
          moreover have "nd_transfer_active (w_nand y)" unfolding q(1) x(1) by (simp add: stage_put_def act)
          ultimately show ?thesis using none by blast
        next
          case t3: True
          have "nand_inv med rs (Suc k) v"
            by (rule nand_advance_inv [OF Ix _ k rk, unfolded x(1), where x = "nd_read_failures ?s" and y = "nd_stage (w_nand ?x)"])
              (use t3 True act q in \<open>simp_all add: v stage_put_def wx\<close>)
          moreover have "nand_queued w v = [Nd_handed (nand_out (t, d))]"
            using q(4) t3 d un(1) by (subst qy) (simp_all add: v nand_out_def)
          moreover have "nd_transfer_active (w_nand v)"
            using q(1) x(1) act t3 by (simp add: v stage_put_def)
          ultimately show ?thesis using True by simp
        qed
      qed
    qed
  qed
qed


section \<open>What the store promises\<close>

lemma nand_handed_Suc:
  "k < length rs \<Longrightarrow> nand_handed rs (Suc k) = nand_handed rs k @ (if nand_fits (rs ! k) then [nand_out (rs ! k)] else [])"
  by (simp add: nand_handed_def take_Suc_conv_app_nth)

lemma nand_service_inv:
  assumes "nand_medium_ok E med" "nand_inv med rs k w" "hs = nand_handed rs k"
  shows "\<exists>gs k'. nand_queued w (storage_nand_transfer_service E w) = map Nd_handed gs \<and>
    nand_inv med rs k' (storage_nand_transfer_service E w) \<and> hs @ gs = nand_handed rs k'"
proof -
  let ?v = "storage_nand_transfer_service E w"
  note I = assms(2,3)
  have none: "\<exists>gs k'. [] = map Nd_handed gs \<and> nand_inv med rs k' ?v \<and> hs @ gs = nand_handed rs k'" if "nand_inv med rs k ?v"
    using that I(2) by (intro exI [of _ "[]"] exI [of _ k]) simp
  consider "\<not> nd_transfer_active (w_nand w)" | "nd_transfer_active (w_nand w)" "k = length rs"
    | "nd_transfer_active (w_nand w)" "k < length rs" using I(1) by (force simp: nand_inv_def Let_def)
  then show ?thesis
  proof cases
    case 1
    then have "?v = w" by (simp add: storage_nand_transfer_service_def)
    then show ?thesis using none I(1) by (simp add: nand_queued_same)
  next
    case 2
    then have "nd_used (w_nand w) = nd_transfer_offset (w_nand w)"
      using I(1) by (simp add: nand_inv_def Let_def word_unat_eq_iff)
    then have v: "?v = svc_log_event 0 (nd_transferred (w_nand w)) (nand_upd (\<lambda>s. s\<lparr>nd_transfer_active := False\<rparr>) w)"
      by (simp add: storage_nand_transfer_service_def 2)
    have "nand_inv med rs k ?v" by (rule nand_inv_cong [OF I(1)]) (simp_all add: v)
    moreover have "nand_queued w ?v = []" by (rule nand_queued_same) (simp add: v)
    ultimately show ?thesis using none by simp
  next
    case 3
    obtain t d where rk: "rs ! k = (t, d)" by (rule prod.exhaust)
    from nand_service_step [OF assms(1) I(1) 3 rk] consider
        "nand_inv med rs k ?v" "nand_queued w ?v = []"
      | "nand_inv med rs (Suc k) ?v" "nand_queued w ?v = (if nand_fits (t, d) then [Nd_handed (nand_out (t, d))] else [])" by blast
    then show ?thesis
    proof cases
      case 1
      then show ?thesis using none by simp
    next
      case 2
      let ?gs = "if nand_fits (t, d) then [nand_out (t, d)] else []"
      have "hs @ ?gs = nand_handed rs (Suc k)" using I(2) nand_handed_Suc [OF 3(2)] by (simp add: rk)
      then show ?thesis using 2 by (intro exI [of _ ?gs] exI [of _ "Suc k"]) simp
    qed
  qed
qed

text \<open>Whatever the medium yields, the books agree with what is queued.\<close>

lemma nand_service_book:
  assumes M: "nand_medium_ok E med" and B: "nand_book rs hs w"
  shows "\<exists>gs. nand_queued w (storage_nand_transfer_service E w) = map Nd_handed gs \<and>
    nand_book rs (hs @ gs) (storage_nand_transfer_service E w)"
proof -
  let ?v = "storage_nand_transfer_service E w"
  define keeps where "keeps u \<longleftrightarrow> w_output u = w_output w \<and> nd_used (w_nand u) = nd_used (w_nand w) \<and>
    nd_ops (w_nand u) = nd_ops (w_nand w) \<and> nd_records (w_nand u) = nd_records (w_nand w) \<and>
    nd_transferred (w_nand u) = nd_transferred (w_nand w)" for u :: "'a nand_world_scheme"
  have quiet: "\<exists>gs. nand_queued w v = map Nd_handed gs \<and> nand_book rs (hs @ gs) v" if "keeps v" for v
    using that nand_book_cong [OF B, of v] by (intro exI [of _ "[]"]) (simp add: keeps_def nand_queued_same)
  have read: "keeps u" if "nand_read E off n x = (st, bs, u)" "keeps x" for off n x st bs u
    using medium_read(1) [OF M that(1)] that(2) by (simp add: keeps_def nand_same_def)
  have stops: "keeps (nand_transfer_stop x)" "keeps (nand_transfer_skip fl dt n x)" if "keeps x" for x fl dt n
    using that by (simp_all add: keeps_def nand_transfer_stop_def nand_transfer_skip_def)
  show ?thesis
  proof (cases "nd_transfer_active (w_nand w) \<and> nd_transfer_offset (w_nand w) < nd_used (w_nand w)")
    case False
    have "keeps ?v" using False by (auto simp: storage_nand_transfer_service_def keeps_def)
    then show ?thesis by (rule quiet)
  next
    case True
    then have used: "rs \<noteq> []" using B by (auto simp: nand_book_def Let_def word_less_nat_alt)
    obtain st h u where r1: "nand_read E (nd_transfer_offset (w_nand w)) NAND_HEADER_BYTES w = (st, h, u)" by (rule prod_cases3)
    have u: "keeps u" by (rule read [OF r1]) (simp add: keeps_def)
    let ?t = "comm_get_u32 h 4" and ?n = "comm_get_u32 h 12" and ?c = "comm_get_u32 h 16"
    have v: "?v = nand_transfer_stop u \<or> ?v = nand_transfer_record E ?t ?n ?c u"
    proof -
      have "nd_transfer_active (w_nand w)" "\<not> nd_used (w_nand w) \<le> nd_transfer_offset (w_nand w)"
        using True by (simp_all add: not_le)
      then show ?thesis by (simp add: storage_nand_transfer_service_def r1 Let_def)
    qed
    obtain st2 bs x where r2: "nand_read E (nd_transfer_offset (w_nand u) + NAND_HEADER_BYTES) ?n u = (st2, bs, x)"
      by (rule prod_cases3)
    let ?x = "nand_upd (stage_put bs) x"
    have x: "keeps ?x" using read [OF r2 u] by (simp add: keeps_def stage_put_def)
    obtain st3 y where sub: "comm_output_submit (class_of (nand_of_code ?t)) (Some NAND_STAGE) ?n ?x = (st3, y)" by (rule prod.exhaust)
    have len: "length (oq_slot (w_output ?x)) = COMM_OUTPUT_DEPTH" using x B by (simp add: keeps_def nand_book_def Let_def)
    note q = submit_queues [OF sub len]
    let ?done = "nand_upd (\<lambda>s. s\<lparr>nd_transfer_offset := nd_transfer_offset s + (NAND_HEADER_BYTES + ?n),
      nd_transferred := nd_transferred s + 1\<rparr>) y"
    have rec: "nand_transfer_record E ?t ?n ?c u = (if st3 = QIRAN_OK then ?done else y) \<or> keeps (nand_transfer_record E ?t ?n ?c u)"
      unfolding nand_transfer_record_def by (simp add: r2 sub Let_def stops u x)
    have qw: "nand_queued w z = nand_queued ?x y" if "w_output z = w_output y" "nd_stage (w_nand z) = nd_stage (w_nand y)" for z
      using x by (intro nand_queued_cong) (simp_all add: that keeps_def)
    have y: "nand_book rs hs y"
      using x q(1,3) len by (intro nand_book_cong [OF B]) (simp_all add: keeps_def)
    have "\<exists>gs. nand_queued w y = map Nd_handed gs \<and> nand_book rs (hs @ gs) y" if "st3 \<noteq> QIRAN_OK"
      using qw [of y] q(4) that y by (intro exI [of _ "[]"]) simp
    moreover have "\<exists>gs. nand_queued w ?done = map Nd_handed gs \<and> nand_book rs (hs @ gs) ?done" if "st3 = QIRAN_OK"
    proof -
      have "nand_queued w ?done = map Nd_handed [(class_of (nand_of_code ?t), NAND_STAGE, take (unat ?n) (nd_stage (w_nand ?x)))]"
        using qw [of ?done] q(4) that by simp
      moreover have "nand_book rs (hs @ [z]) ?done" for z using y used by (simp add: nand_book_def Let_def)
      ultimately show ?thesis by blast
    qed
    ultimately have act: "\<exists>gs. nand_queued w z = map Nd_handed gs \<and> nand_book rs (hs @ gs) z"
      if "z = (if st3 = QIRAN_OK then ?done else y)" for z
      using that by (cases "st3 = QIRAN_OK") simp_all
    from v show ?thesis
    proof
      assume "?v = nand_transfer_stop u"
      then show ?thesis using quiet [OF stops(1) [OF u]] by simp
    next
      assume e: "?v = nand_transfer_record E ?t ?n ?c u"
      from rec show ?thesis unfolding e [symmetric] by (rule disjE) (rule act, assumption, rule quiet)
    qed
  qed
qed

lemma fold_note_handed: "fold nand_note (map Nd_handed gs) (rs, hs, dmg) = (rs, hs @ gs, dmg)"
  by (induction gs arbitrary: hs) simp_all

lemma nand_service_state:
  assumes "nand_medium_ok E med" "nand_state_ok med (rs, hs, dmg) w"
  shows "\<exists>gs. nand_queued w (storage_nand_transfer_service E w) = map Nd_handed gs \<and>
    nand_state_ok med (rs, hs @ gs, dmg) (storage_nand_transfer_service E w)"
proof (cases dmg)
  case True
  then show ?thesis using nand_service_book [OF assms(1)] assms(2) by (auto simp: nand_state_ok_def)
next
  case False
  with assms(2) obtain k where "nand_inv med rs k w" "hs = nand_handed rs k" by (auto elim: nand_state_intact)
  from nand_service_inv [OF assms(1) this] show ?thesis by (blast intro: nand_state_okI)
qed

text \<open>A history is in order if an erase, successful or not, is only attempted when as many records have
  been handed over as are held, and these are every record held, in order, unless an erase that failed
  has destroyed what was held.\<close>

definition nand_due :: "nand_ledger \<Rightarrow> bool" where
  "nand_due = (\<lambda>(rs, hs, dmg). (of_nat (length hs) :: u32) = of_nat (length rs) \<and> (\<not> dmg \<longrightarrow> hs = map nand_out rs))"

definition nand_in_order :: "nand_ledger \<Rightarrow> nand_event list \<Rightarrow> bool" where
  "nand_in_order l es \<longleftrightarrow> (\<forall>xs e ys. es = xs @ e # ys \<longrightarrow> e \<in> {Nd_erased, Nd_erase_failed True, Nd_erase_failed False} \<longrightarrow>
     nand_due (fold nand_note xs l))"

abbreviation erasing :: "nand_event set" where
  "erasing \<equiv> {Nd_erased, Nd_erase_failed True, Nd_erase_failed False}"

lemma in_order_quiet: "set es \<inter> erasing = {} \<Longrightarrow> nand_in_order l es"
  by (auto simp: nand_in_order_def)

lemma in_order_single: "nand_in_order l [e] \<longleftrightarrow> (e \<in> erasing \<longrightarrow> nand_due l)"
  by (auto simp: nand_in_order_def Cons_eq_append_conv)

lemma in_order_append:
  assumes "nand_in_order l es" "nand_in_order (fold nand_note es l) fs"
  shows "nand_in_order l (es @ fs)"
  unfolding nand_in_order_def
proof (intro allI impI)
  fix xs e ys
  assume a: "es @ fs = xs @ e # ys" "e \<in> erasing"
  from a(1) consider zs where "es = xs @ zs" "zs @ fs = e # ys" | zs where "xs = es @ zs" "fs = zs @ e # ys"
    by (auto simp: append_eq_append_conv2)
  then show "nand_due (fold nand_note xs l)"
  proof cases
    case (1 zs)
    show ?thesis
    proof (cases zs)
      case Nil
      then have "fs = [] @ e # ys" "xs = es" using 1 by simp_all
      then show ?thesis using assms(2) a(2) unfolding nand_in_order_def by fastforce
    next
      case (Cons z zs')
      then have "es = xs @ e # zs'" using 1 by simp
      then show ?thesis using assms(1) a(2) unfolding nand_in_order_def by blast
    qed
  next
    case (2 zs)
    have "nand_due (fold nand_note zs (fold nand_note es l))" using assms(2) a(2) 2(2) unfolding nand_in_order_def by blast
    then show ?thesis using 2(1) by simp
  qed
qed

lemma nand_step_ok:
  assumes M: "nand_medium_ok E med" and S: "nand_state_ok med (rs, hs, dmg) w" and p: "nand_op_ok med p"
    and r: "nand_step E med p w = (es, v)"
  shows "nand_in_order (rs, hs, dmg) es \<and> nand_state_ok med (fold nand_note es (rs, hs, dmg)) v"
proof -
  have B: "nand_book rs hs w" using S by (simp add: nand_state_ok_def)
  have I: "\<exists>k. nand_inv med rs k w \<and> hs = nand_handed rs k" if "\<not> dmg" using S that by (simp add: nand_state_ok_def)
  show ?thesis
  proof (cases p)
    case (Nd_store t d)
    obtain st u where u: "storage_nand_store E t (Some d) (of_nat (length d)) w = (st, u)" by (rule prod.exhaust)
    have n: "length d + 20 < 2 ^ 32" using p Nd_store by (simp add: nand_op_ok_def)
    have "nand_handed (rs @ [(t, d)]) k = nand_handed rs k" if "nand_inv med rs k w" for k
      using that by (simp add: nand_handed_def nand_inv_def Let_def)
    then show ?thesis
      using r Nd_store u nand_store_book [OF M B n u] I nand_store_inv [OF M _ n u]
      by (fastforce simp: nand_state_ok_def in_order_quiet split: if_splits)
  next
    case Nd_begin
    obtain st u where u: "storage_nand_transfer_begin w = (st, u)" by (rule prod.exhaust)
    have "nand_handed rs 0 = []" by (simp add: nand_handed_def)
    then show ?thesis
      using r Nd_begin u nand_begin_book [OF B u] I nand_begin_inv [OF _ u]
      by (fastforce simp: nand_state_ok_def in_order_quiet split: if_splits)
  next
    case Nd_service
    obtain gs where g: "nand_queued w (storage_nand_transfer_service E w) = map Nd_handed gs"
      "nand_state_ok med (rs, hs @ gs, dmg) (storage_nand_transfer_service E w)"
      using nand_service_state [OF M S] by blast
    have "es = map Nd_handed gs" "v = storage_nand_transfer_service E w" using r Nd_service g(1) by (simp_all add: Let_def)
    then show ?thesis using g(2) by (auto simp: fold_note_handed intro!: in_order_quiet)
  next
    case Nd_clear
    obtain st u where u: "storage_nand_clear E w = (st, u)" by (rule prod.exhaust)
    have n: "unat (storage_nand_used w) = nand_size rs" using B by (simp add: nand_book_def Let_def storage_nand_used_def)
    define b where "b \<longleftrightarrow> mem_bytes (med (nand_world.more u)) 0 (nand_size rs) = mem_bytes (med (nand_world.more w)) 0 (nand_size rs)"
    have es: "v = u" "es = (if st = QIRAN_OK then [Nd_erased] else if st = QIRAN_ERR_HARDWARE then [Nd_erase_failed b] else [])"
      using r unfolding Nd_clear nand_step.simps u prod.case Let_def n b_def by auto
    have c: "if st = QIRAN_OK then nand_book [] ([] :: (ccsds_class \<times> handle \<times> u8 list) list) u else nand_book rs hs u"
      "st = QIRAN_OK \<or> st = QIRAN_ERR_HARDWARE \<Longrightarrow> (of_nat (length hs) :: u32) = of_nat (length rs)"
      using nand_clear_book [OF M B u] by blast+
    have due: "nand_due (rs, hs, dmg)" if "st = QIRAN_OK \<or> st = QIRAN_ERR_HARDWARE"
    proof -
      have "hs = map nand_out rs" if "\<not> dmg"
        using I [OF that] nand_clear_inv(2) [OF M _ u] \<open>st = QIRAN_OK \<or> st = QIRAN_ERR_HARDWARE\<close>
        by (auto simp: nand_handed_def)
      then show ?thesis using c(2) [OF that] by (simp add: nand_due_def)
    qed
    have kept: "\<exists>k. nand_inv med rs k u \<and> hs = nand_handed rs k" if "\<not> dmg" "st \<noteq> QIRAN_OK" "st = QIRAN_ERR_HARDWARE \<longrightarrow> b"
      using I [OF that(1)] nand_clear_inv(3) [OF M _ u] that(2,3) unfolding b_def by blast
    have empty: "nand_state_ok med ([], [], False) u" if "st = QIRAN_OK"
    proof (rule nand_state_okI)
      have "\<not> nd_transfer_active (w_nand u)" using nand_clear_idle [OF M] u that by simp
      then show "nand_inv med [] 0 u" using c(1) that by (simp add: nand_book_def nand_inv_def mem_bytes_def Let_def)
    qed (simp add: nand_handed_def)
    consider "st = QIRAN_OK" | "st = QIRAN_ERR_HARDWARE" | "st \<noteq> QIRAN_OK" "st \<noteq> QIRAN_ERR_HARDWARE" by blast
    then show ?thesis
    proof cases
      case 1
      then show ?thesis using due empty es by (simp add: in_order_single)
    next
      case 2
      have "nand_state_ok med (rs, hs, dmg \<or> \<not> b) u" using c(1) kept 2 by (auto simp: nand_state_ok_def)
      then show ?thesis using due es 2 by (simp add: in_order_single)
    next
      case 3
      have "nand_state_ok med (rs, hs, dmg) u" using c(1) kept 3 by (auto simp: nand_state_ok_def)
      then show ?thesis using es 3 by (simp add: in_order_quiet)
    qed
  next
    case (Nd_other f)
    have f: "w_nand (f w) = w_nand w" "med (nand_world.more (f w)) = med (nand_world.more w)"
      "length (oq_slot (w_output (f w))) = length (oq_slot (w_output w))"
      using p Nd_other by (simp_all add: nand_op_ok_def)
    have "nand_inv med rs k (f w)" if "nand_inv med rs k w" for k by (rule nand_inv_cong [OF that]) (simp_all add: f)
    moreover have "nand_book rs hs (f w)" by (rule nand_book_cong [OF B]) (simp_all add: f)
    ultimately show ?thesis using r Nd_other I by (auto simp: nand_state_ok_def in_order_quiet)
  qed
qed

lemma nand_run_ok:
  assumes "nand_medium_ok E med" "nand_state_ok med l w" "\<forall>p \<in> set ps. nand_op_ok med p" "nand_run E med ps w = (es, v)"
  shows "nand_in_order l es \<and> nand_state_ok med (fold nand_note es l) v"
  using assms(2-)
proof (induction ps arbitrary: l w es)
  case Nil
  then show ?case by (simp add: in_order_quiet)
next
  case (Cons p ps)
  obtain xs u where u: "nand_step E med p w = (xs, u)" by (rule prod.exhaust)
  obtain ys where y: "nand_run E med ps u = (ys, v)" "es = xs @ ys"
    using Cons.prems(3) u by (auto split: prod.splits)
  obtain rs hs dmg where l: "l = (rs, hs, dmg)" by (rule prod_cases3)
  have s: "nand_in_order l xs" "nand_state_ok med (fold nand_note xs l) u"
    using nand_step_ok [OF assms(1) Cons.prems(1) [unfolded l] _ u] Cons.prems(2) by (simp_all add: l)
  have "nand_in_order (fold nand_note xs l) ys \<and> nand_state_ok med (fold nand_note ys (fold nand_note xs l)) v"
    using Cons.prems(2) by (intro Cons.IH [OF s(2) _ y(1)]) simp
  then show ?case unfolding y(2) using in_order_append [OF s(1)] by simp
qed

definition nand_fresh :: "storage_nand_ops \<Rightarrow> 'a nand_world_scheme \<Rightarrow> 'a nand_world_scheme" where
  "nand_fresh ops w = snd (storage_nand_set_ops (Some ops) (storage_nand_init w))"

lemma nand_fresh_ok:
  assumes "length (oq_slot (w_output w)) = COMM_OUTPUT_DEPTH"
  shows "nand_state_ok med ([], [], False) (nand_fresh ops w)"
  using assms by (auto simp: nand_state_ok_def nand_inv_def nand_book_def nand_handed_def nand_fresh_def storage_nand_set_ops_def
      storage_nand_init_def mem_bytes_def Let_def)

text \<open>C8: Nothing is lost and nothing is sent twice: through any history of stores, transfers, services,
  clears and other activity on a fresh store, with writes, reads and erases failing at any point. The
  ledger notes from the events what is held, what the present transfer has handed over, and whether an
  erase that failed has destroyed something that was held. At any time the counters are those of the
  ledger, so a refused or failed operation never forgets a record. An erase is attempted only when as
  many records have been handed over as are held (counted in 32 bits); and as long as no failed erase
  has destroyed anything, only when these are exactly the records held, each once and in the order
  stored; then also what a transfer has handed over is what the first so many records that fit a packet
  are, in order, and the transfer reports completion only when that is all of them. An erase that
  succeeds starts over.\<close>

theorem nand_nothing_lost:
  assumes "nand_medium_ok E med" "length (oq_slot (w_output w)) = 16" "\<forall>p \<in> set ps. nand_op_ok med p"
    and "nand_run E med ps (nand_fresh ops w) = (es, v)"
  shows "(\<forall>xs e ys. es = xs @ e # ys \<longrightarrow> e \<in> {Nd_erased, Nd_erase_failed True, Nd_erase_failed False} \<longrightarrow>
      (let (held, handed, destroyed) = fold nand_note xs ([], [], False)
       in (of_nat (length handed) :: u32) = of_nat (length held) \<and> (\<not> destroyed \<longrightarrow> handed = map nand_out held))) \<and>
    (let (held, handed, destroyed) = fold nand_note es ([], [], False)
     in storage_nand_records v = of_nat (length held) \<and> unat (storage_nand_used v) = nand_size held \<and>
       storage_nand_transferred v = of_nat (length handed) \<and>
       (\<not> destroyed \<longrightarrow> (\<exists>k. handed = map nand_out (filter nand_fits (take k held))) \<and>
         (storage_nand_transfer_complete v \<longrightarrow> handed = map nand_out held)))"
proof -
  have "length (oq_slot (w_output w)) = COMM_OUTPUT_DEPTH" by (simp add: assms(2) COMM_OUTPUT_DEPTH_def)
  note run = nand_run_ok [OF assms(1) nand_fresh_ok [OF this] assms(3,4)]
  obtain rs hs dmg where l: "fold nand_note es ([], [], False) = (rs, hs, dmg)" by (rule prod_cases3)
  have S: "nand_state_ok med (rs, hs, dmg) v" using run by (simp add: l)
  have B: "storage_nand_records v = of_nat (length rs)" "unat (storage_nand_used v) = nand_size rs"
    "storage_nand_transferred v = of_nat (length hs)"
    using S by (simp_all add: nand_state_ok_def nand_book_def Let_def storage_nand_records_def storage_nand_used_def
        storage_nand_transferred_def)
  have last: "(\<exists>k. hs = map nand_out (filter nand_fits (take k rs))) \<and> (storage_nand_transfer_complete v \<longrightarrow> hs = map nand_out rs)"
    if ok: "\<not> dmg"
  proof -
    obtain k where k: "nand_inv med rs k v" "hs = nand_handed rs k" using S ok by (auto simp: nand_state_ok_def)
    then show ?thesis
      using nand_inv_counts(3) [OF k(1)] by (auto simp: nand_handed_def storage_nand_transfer_complete_def)
  qed
  have "nand_due (fold nand_note xs ([], [], False))" if "es = xs @ e # ys" "e \<in> erasing" for xs e ys
    using run that unfolding nand_in_order_def by blast
  then show ?thesis using B last unfolding nand_due_def l by (simp add: split_beta Let_def)
qed


text \<open>A medium that never fails: its bytes are all that extends the program's state.\<close>

definition flash_env :: "(nat \<Rightarrow> u8) nand_world_scheme nand_env" where
  "flash_env = \<lparr>ne_erase = (\<lambda>_ _ _ _ w. (QIRAN_OK, w)),
     ne_write = (\<lambda>_ _ off bs w. (QIRAN_OK, w\<lparr>nand_world.more := \<lambda>a. if unat off \<le> a \<and> a < unat off + length bs
       then bs ! (a - unat off) else nand_world.more w a\<rparr>)),
     ne_read = (\<lambda>_ _ off n w. (QIRAN_OK, mem_bytes (nand_world.more w) (unat off) (unat n), w))\<rparr>"

definition flash_ops :: storage_nand_ops where
  "flash_ops = \<lparr>no_erase = Some 0, no_write = Some 0, no_read = Some 0, no_capacity_bytes = 100, no_ctx = None\<rparr>"

lemma flash_env_ok: "nand_medium_ok flash_env (\<lambda>m. m)"
  by (simp add: nand_medium_ok_def flash_env_def nand_same_def medium_wrote_def medium_did_read_def)


text \<open>One whose erase fails, and destroys everything.\<close>

definition worn_env :: "(nat \<Rightarrow> u8) nand_world_scheme nand_env" where
  "worn_env = flash_env\<lparr>ne_erase := (\<lambda>_ _ _ _ w. (QIRAN_ERR_HARDWARE, w\<lparr>nand_world.more := \<lambda>_. 0xFF\<rparr>))\<rparr>"

lemma worn_env_ok: "nand_medium_ok worn_env (\<lambda>m. m)"
  by (simp add: nand_medium_ok_def worn_env_def flash_env_def nand_same_def medium_wrote_def medium_did_read_def)

text \<open>An erase of the empty store fails and harms nothing; a record is stored; while its transfer runs,
  neither an erase nor another store is accepted.\<close>

theorem nand_nothing_lost_witness:
  "\<forall>w :: (nat \<Rightarrow> u8) nand_world_scheme. \<exists>es v. nand_run worn_env (\<lambda>m. m)
      [Nd_clear, Nd_store NAND_RECORD_RAW [1, 2, 3], Nd_begin, Nd_clear, Nd_store NAND_RECORD_HEALTH [4]]
      (nand_fresh flash_ops (w\<lparr>w_output := output_state0\<rparr>)) = (es, v) \<and>
    es = [Nd_erase_failed True, Nd_stored (NAND_RECORD_RAW, [1, 2, 3]), Nd_begun] \<and>
    storage_nand_records v = 1 \<and> unat (storage_nand_used v) = 23 \<and> storage_nand_transferred v = 0"
proof
  fix w :: "(nat \<Rightarrow> u8) nand_world_scheme"
  let ?ps = "[Nd_clear, Nd_store NAND_RECORD_RAW [1, 2, 3], Nd_begin, Nd_clear, Nd_store NAND_RECORD_HEALTH [4]] ::
    (nat \<Rightarrow> u8) nand_world_scheme nand_op list"
  let ?w = "w\<lparr>w_output := output_state0\<rparr>"
  obtain es v where r: "nand_run worn_env (\<lambda>m. m) ?ps (nand_fresh flash_ops ?w) = (es, v)" by (rule prod.exhaust)
  have es: "es = [Nd_erase_failed True, Nd_stored (NAND_RECORD_RAW, [1, 2, 3]), Nd_begun]"
    using r by (simp add: storage_nand_store_def storage_nand_transfer_begin_def storage_nand_clear_def nand_write_def
        nand_fresh_def storage_nand_set_ops_def storage_nand_init_def flash_ops_def worn_env_def flash_env_def
        NAND_HEADER_BYTES_def nand_upd_def svc_fdir_report_eq storage_nand_used_def mem_bytes_def Let_def)
  have ps: "\<forall>p \<in> set ?ps. nand_op_ok (\<lambda>m. m) p" by (simp add: nand_op_ok_def)
  have "length (oq_slot (w_output ?w)) = 16" by (simp add: output_state0_def)
  from nand_nothing_lost [OF worn_env_ok this ps r]
  have "storage_nand_records v = 1 \<and> unat (storage_nand_used v) = 23 \<and> storage_nand_transferred v = 0" by (simp add: es)
  then show "\<exists>es v. nand_run worn_env (\<lambda>m. m) ?ps (nand_fresh flash_ops ?w) = (es, v) \<and>
    es = [Nd_erase_failed True, Nd_stored (NAND_RECORD_RAW, [1, 2, 3]), Nd_begun] \<and>
    storage_nand_records v = 1 \<and> unat (storage_nand_used v) = 23 \<and> storage_nand_transferred v = 0" using r es by blast
qed

text \<open>One cycle: other activity, then a service.\<close>

definition nand_cycles :: "'a nand_world_scheme nand_env \<Rightarrow> ('a nand_world_scheme \<Rightarrow> 'a nand_world_scheme) list \<Rightarrow>
    'a nand_world_scheme \<Rightarrow> 'a nand_world_scheme" where
  "nand_cycles E fs w = fold (\<lambda>f w. storage_nand_transfer_service E (f w)) fs w"

definition nand_makes_room :: "('a nand_world_scheme \<Rightarrow> 'a nand_world_scheme) \<Rightarrow> bool" where
  "nand_makes_room f \<longleftrightarrow> (\<forall>u. length (oq_slot (w_output u)) = 16 \<longrightarrow> (\<exists>i < 16. \<not> os_used (oq_slot (w_output (f u)) ! i)))"

lemma nand_cycles_inv:
  assumes "nand_medium_ok E med" "\<forall>off n u. fst (nand_read E off n u) = QIRAN_OK"
    and "\<forall>f \<in> set fs. nand_op_ok med (Nd_other f) \<and> nand_makes_room f"
    and "nand_inv med rs k w" "nd_transfer_active (w_nand w)" "k \<le> length rs"
  shows "nand_inv med rs (min (k + length fs) (length rs)) (nand_cycles E fs w) \<and>
    nd_transfer_active (w_nand (nand_cycles E fs w)) = (k + length fs \<le> length rs)"
  using assms(3-6)
proof (induction fs arbitrary: k w)
  case Nil
  then show ?case by (simp add: nand_cycles_def min_def)
next
  case (Cons f fs)
  have f: "w_nand (f w) = w_nand w" "med (nand_world.more (f w)) = med (nand_world.more w)"
    "length (oq_slot (w_output (f w))) = length (oq_slot (w_output w))"
    using Cons.prems(1) by (simp_all add: nand_op_ok_def)
  have I: "nand_inv med rs k (f w)" by (rule nand_inv_cong [OF Cons.prems(2)]) (simp_all add: f)
  have free: "find (\<lambda>i. \<not> os_used (oq_slot (w_output (f w)) ! i)) [0..<COMM_OUTPUT_DEPTH] \<noteq> None"
    using Cons.prems(1,2) by (auto simp: nand_makes_room_def find_None_iff COMM_OUTPUT_DEPTH_def nand_inv_def Let_def)
  let ?v = "storage_nand_transfer_service E (f w)"
  have step: "nand_cycles E (f # fs) w = nand_cycles E fs ?v" by (simp add: nand_cycles_def)
  show ?case
  proof (cases "k = length rs")
    case True
    have act: "nd_transfer_active (w_nand (f w))" using Cons.prems(3) f(1) by simp
    have "nd_used (w_nand (f w)) = nd_transfer_offset (w_nand (f w))"
      using I True act by (simp add: nand_inv_def Let_def word_unat_eq_iff)
    then have v: "?v = svc_log_event 0 (nd_transferred (w_nand (f w))) (nand_upd (\<lambda>s. s\<lparr>nd_transfer_active := False\<rparr>) (f w))"
      by (simp add: storage_nand_transfer_service_def act)
    have idle: "nand_inv med rs (length rs) (nand_cycles E gs u) \<and> \<not> nd_transfer_active (w_nand (nand_cycles E gs u))"
      if "\<forall>f \<in> set gs. nand_op_ok med (Nd_other f)" "nand_inv med rs (length rs) u" "\<not> nd_transfer_active (w_nand u)" for gs u
      using that
    proof (induction gs arbitrary: u)
      case Nil
      then show ?case by (simp add: nand_cycles_def)
    next
      case (Cons g gs)
      have g: "w_nand (g u) = w_nand u" "med (nand_world.more (g u)) = med (nand_world.more u)"
        "length (oq_slot (w_output (g u))) = length (oq_slot (w_output u))"
        using Cons.prems(1) by (simp_all add: nand_op_ok_def)
      have "nand_inv med rs (length rs) (g u)" by (rule nand_inv_cong [OF Cons.prems(2)]) (simp_all add: g)
      then have "nand_inv med rs (length rs) (nand_cycles E gs (g u)) \<and> \<not> nd_transfer_active (w_nand (nand_cycles E gs (g u)))"
        using Cons.prems g(1) by (intro Cons.IH) simp_all
      moreover have "nand_cycles E (g # gs) u = nand_cycles E gs (g u)"
        using Cons.prems(3) g(1) by (simp add: nand_cycles_def storage_nand_transfer_service_def)
      ultimately show ?case by simp
    qed
    have "nand_inv med rs (length rs) ?v"
      using I by (intro nand_inv_cong [OF I [unfolded True]]) (simp_all add: v)
    moreover have "\<not> nd_transfer_active (w_nand ?v)" by (simp add: v)
    ultimately have "nand_inv med rs (length rs) (nand_cycles E fs ?v) \<and> \<not> nd_transfer_active (w_nand (nand_cycles E fs ?v))"
      using Cons.prems(1) by (intro idle) simp_all
    then show ?thesis unfolding step using True by (simp add: min_def)
  next
    case False
    then have k: "k < length rs" using Cons.prems(4) by simp
    obtain t d where rk: "rs ! k = (t, d)" by (rule prod.exhaust)
    have act: "nd_transfer_active (w_nand (f w))" using Cons.prems(3) f(1) by simp
    have "nand_inv med rs (Suc k) ?v \<and> nd_transfer_active (w_nand ?v)"
      using nand_service_step [OF assms(1) I act k rk] assms(2) free by blast
    then have "nand_inv med rs (min (Suc k + length fs) (length rs)) (nand_cycles E fs ?v) \<and>
        nd_transfer_active (w_nand (nand_cycles E fs ?v)) = (Suc k + length fs \<le> length rs)"
      using Cons.prems(1) k by (intro Cons.IH) simp_all
    then show ?thesis unfolding step by simp
  qed
qed

text \<open>C30: A transfer that is begun ends: while reads succeed and the outbound queue has room once a
  cycle, the transfer of a store of n records is active for n cycles and over after one more. It is
  then reported complete exactly if every record fits a packet; a record that does not is passed over,
  and the transfer ends without being complete.\<close>

theorem nand_transfer_completes:
  assumes "nand_medium_ok E med" "\<forall>off n u. fst (nand_read E off n u) = QIRAN_OK"
    and "\<forall>f \<in> set fs. nand_op_ok med (Nd_other f) \<and> nand_makes_room f"
    and "nand_state_ok med (rs, hs, False) w" "rs \<noteq> []"
    and "storage_nand_ready w" "\<not> storage_nand_transfer_active w"
  shows "let v = nand_cycles E fs (snd (storage_nand_transfer_begin w))
    in (storage_nand_transfer_active v \<longleftrightarrow> length fs \<le> length rs) \<and>
      (storage_nand_transfer_complete v \<longleftrightarrow> length rs < length fs \<and> (\<forall>r \<in> set rs. nand_fits r))"
proof -
  obtain k where I: "nand_inv med rs k w" using assms(4) by (rule nand_state_intact)
  obtain st u where u: "storage_nand_transfer_begin w = (st, u)" by (rule prod.exhaust)
  have st: "st = QIRAN_OK" "nd_transfer_active (w_nand u)"
    using u assms(6,7) by (auto simp: storage_nand_transfer_begin_def storage_nand_ready_def storage_nand_transfer_active_def)
  have "nand_inv med rs 0 u" using nand_begin_inv [OF I u] st(1) by simp
  from nand_cycles_inv [OF assms(1-3) this st(2)]
  have c: "nand_inv med rs (min (length fs) (length rs)) (nand_cycles E fs u)"
    "nd_transfer_active (w_nand (nand_cycles E fs u)) = (length fs \<le> length rs)" by simp_all
  have n: "of_nat (length rs) \<noteq> (0 :: u32)"
    using nand_inv_counts(1) [OF I] assms(5) unat_of_nat_eq_u32 [of "length rs"] by auto
  have complete: "storage_nand_transfer_complete (nand_cycles E fs u) \<longleftrightarrow> length rs < length fs \<and> (\<forall>r \<in> set rs. nand_fits r)"
  proof
    assume a: "storage_nand_transfer_complete (nand_cycles E fs u)"
    then have l: "length rs < length fs" using c(2) by (simp add: storage_nand_transfer_complete_def)
    have "filter nand_fits rs = rs"
      using nand_inv_counts(3) [OF c(1)] a l by (simp add: storage_nand_transfer_complete_def min_def)
    then show "length rs < length fs \<and> (\<forall>r \<in> set rs. nand_fits r)" using l by (simp only: filter_id_conv simp_thms)
  next
    assume a: "length rs < length fs \<and> (\<forall>r \<in> set rs. nand_fits r)"
    then have "filter nand_fits rs = rs" by simp
    then show "storage_nand_transfer_complete (nand_cycles E fs u)"
      using c n a by (simp add: storage_nand_transfer_complete_def nand_inv_def Let_def min_def)
  qed
  show ?thesis unfolding u snd_conv Let_def using c(2) complete by (simp add: storage_nand_transfer_active_def)
qed


text \<open>One record on the medium that never fails, the queue emptied every cycle: two cycles if it fits a
  packet, and the end without completion if it has a byte more.\<close>

theorem nand_transfer_completes_witness:
  "\<forall>w :: (nat \<Rightarrow> u8) nand_world_scheme.
    let v = (\<lambda>m. snd (storage_nand_store flash_env NAND_RECORD_RAW (Some (replicate m 7)) (of_nat m)
              (nand_fresh (flash_ops\<lparr>no_capacity_bytes := 1000\<rparr>) (w\<lparr>w_output := output_state0\<rparr>))));
        go = (\<lambda>m n. nand_cycles flash_env (replicate n comm_output_init) (snd (storage_nand_transfer_begin (v m))))
    in \<not> storage_nand_transfer_complete (go 512 1) \<and> storage_nand_transfer_complete (go 512 2) \<and>
      \<not> storage_nand_transfer_complete (go 513 2) \<and> \<not> storage_nand_transfer_active (go 513 2)"
proof
  fix w :: "(nat \<Rightarrow> u8) nand_world_scheme"
  let ?w = "w\<lparr>w_output := output_state0\<rparr>" and ?ops = "flash_ops\<lparr>no_capacity_bytes := 1000\<rparr>"
  let ?v = "\<lambda>m. snd (storage_nand_store flash_env NAND_RECORD_RAW (Some (replicate m 7)) (of_nat m) (nand_fresh ?ops ?w))"
  let ?go = "\<lambda>m n. nand_cycles flash_env (replicate n comm_output_init) (snd (storage_nand_transfer_begin (?v m)))"
  have "length (oq_slot (w_output ?w)) = COMM_OUTPUT_DEPTH" by (simp add: output_state0_def COMM_OUTPUT_DEPTH_def)
  note fresh = nand_fresh_ok [OF this, where med = "\<lambda>m. m" and ops = ?ops]
  have fs: "\<forall>f \<in> set (replicate n comm_output_init). nand_op_ok (\<lambda>m. m) (Nd_other f) \<and> nand_makes_room f" for n
    by (auto simp: nand_op_ok_def nand_makes_room_def comm_output_init_def intro!: exI [of _ 0])
  have rd: "\<forall>off n u. fst (nand_read flash_env off n u) = QIRAN_OK" by (simp add: nand_read_def flash_env_def)
  have go: "(storage_nand_transfer_active (?go m n) \<longleftrightarrow> n \<le> 1) \<and> (storage_nand_transfer_complete (?go m n) \<longleftrightarrow> 1 < n \<and> m \<le> 512)"
    if "m \<in> {512, 513}" for m n
  proof -
    have st: "storage_nand_store flash_env NAND_RECORD_RAW (Some (replicate m 7)) (of_nat m) (nand_fresh ?ops ?w) = (QIRAN_OK, ?v m)"
      and v: "storage_nand_ready (?v m)" "\<not> storage_nand_transfer_active (?v m)"
      using that by (auto simp: storage_nand_store_def nand_write_def nand_fresh_def storage_nand_set_ops_def storage_nand_init_def
          flash_ops_def flash_env_def NAND_HEADER_BYTES_def nand_upd_def storage_nand_ready_def storage_nand_transfer_active_def Let_def)
    have "nand_step flash_env (\<lambda>m. m) (Nd_store NAND_RECORD_RAW (replicate m 7)) (nand_fresh ?ops ?w) =
        ([Nd_stored (NAND_RECORD_RAW, replicate m 7)], ?v m)"
      using st by (auto simp: split_beta Let_def) (metis fst_conv)+
    from nand_step_ok [OF flash_env_ok fresh _ this]
    have S: "nand_state_ok (\<lambda>m. m) ([(NAND_RECORD_RAW, replicate m 7)], [], False) (?v m)" using that by (auto simp: nand_op_ok_def)
    show ?thesis
      using nand_transfer_completes [OF flash_env_ok rd fs S _ v, of n] by (simp add: nand_fits_def Let_def)
  qed
  show "let v = ?v; go = (\<lambda>m n. nand_cycles flash_env (replicate n comm_output_init) (snd (storage_nand_transfer_begin (v m))))
    in \<not> storage_nand_transfer_complete (go 512 1) \<and> storage_nand_transfer_complete (go 512 2) \<and>
      \<not> storage_nand_transfer_complete (go 513 2) \<and> \<not> storage_nand_transfer_active (go 513 2)"
    unfolding Let_def using go [of 512 1] go [of 512 2] go [of 513 2] by simp
qed

section \<open>Where the store departs from its description\<close>

text \<open>One record larger than a packet, and nothing can be erased any more: the transfer passes it over
  and is never complete.\<close>

lemma nand_oversize_blocks:
  assumes "nand_medium_ok E med" "nand_state_ok med (rs, hs, False) w" "r \<in> set rs" "\<not> nand_fits r"
  shows "fst (storage_nand_clear E w) \<noteq> QIRAN_OK" "\<not> storage_nand_transfer_complete w"
proof -
  obtain k where I: "nand_inv med rs k w" using assms(2) by (rule nand_state_intact)
  have no: "filter nand_fits (take k rs) \<noteq> rs"
  proof
    assume "filter nand_fits (take k rs) = rs"
    then have "r \<in> set (filter nand_fits (take k rs))" using assms(3) by simp
    then show False using assms(4) by simp
  qed
  obtain st v where "storage_nand_clear E w = (st, v)" by (rule prod.exhaust)
  then show "fst (storage_nand_clear E w) \<noteq> QIRAN_OK"
    using nand_clear_inv(2) [OF assms(1) I] no by fastforce
  show "\<not> storage_nand_transfer_complete w"
    using nand_inv_counts(3) [OF I] no by (auto simp: storage_nand_transfer_complete_def)
qed

text \<open>The capacity check adds the header to the length in 32 bits: a length just below the word's limit
  passes, and the store is then marked as ending before where it began.\<close>

lemma nand_store_length_wraps:
  assumes "nd_ready (w_nand w)" "\<not> nd_transfer_active (w_nand w)" "nd_used (w_nand w) + 19 \<le> no_capacity_bytes (nd_ops (w_nand w))"
    and "nd_used (w_nand w) \<le> no_capacity_bytes (nd_ops (w_nand w))"
    and "unat (nd_used (w_nand w)) + 19 < 2 ^ 32"
    and "\<forall>h c off bs u. fst (ne_write E h c off bs u) = QIRAN_OK \<and> w_nand (snd (ne_write E h c off bs u)) = w_nand u"
  shows "fst (storage_nand_store E NAND_RECORD_RAW (Some bs) 0xFFFFFFFF w) = QIRAN_OK"
    and "nd_used (w_nand (snd (storage_nand_store E NAND_RECORD_RAW (Some bs) 0xFFFFFFFF w))) = nd_used (w_nand w) + 19"
proof -
  have "19 \<le> no_capacity_bytes (nd_ops (w_nand w)) - nd_used (w_nand w)"
    using assms(3-5) by (simp add: word_le_nat_alt unat_sub unat_word_ariths)
  moreover have e: "NAND_HEADER_BYTES + 0xFFFFFFFF = 19" by (simp add: NAND_HEADER_BYTES_def)
  ultimately have n: "\<not> no_capacity_bytes (nd_ops (w_nand w)) - nd_used (w_nand w) < NAND_HEADER_BYTES + 0xFFFFFFFF"
    by (simp only: not_less)
  show "fst (storage_nand_store E NAND_RECORD_RAW (Some bs) 0xFFFFFFFF w) = QIRAN_OK"
    "nd_used (w_nand (snd (storage_nand_store E NAND_RECORD_RAW (Some bs) 0xFFFFFFFF w))) = nd_used (w_nand w) + 19"
    using assms(1,2,6) n by (simp_all add: storage_nand_store_def nand_write_def split_beta Let_def) (simp add: NAND_HEADER_BYTES_def)
qed


text \<open>The bounds check of a header read back adds in 32 bits too: a header that gives \<open>2 ^ 32 - 20\<close> as its
  length passes, is passed over as too large for a packet, and the offset is then where it was. The
  transfer stays active on the same header, cycle after cycle, and neither a store nor an erase is accepted.\<close>

lemma nand_header_length_wraps:
  assumes "nd_transfer_active (w_nand w)" "nd_transfer_offset (w_nand w) < nd_used (w_nand w)" "t \<noteq> NAND_RECORD_COUNT"
    and "nand_read E (nd_transfer_offset (w_nand w)) NAND_HEADER_BYTES w = (QIRAN_OK, nand_header t q 0xFFFFFFEC c, u)"
    and "w_nand u = w_nand w"
  defines "v \<equiv> storage_nand_transfer_service E w"
  shows "nd_transfer_active (w_nand v)" "nd_transfer_offset (w_nand v) = nd_transfer_offset (w_nand w)"
    "nd_transferred (w_nand v) = nd_transferred (w_nand w)"
proof -
  have z: "nd_transfer_offset (w_nand w) + NAND_HEADER_BYTES + 0xFFFFFFEC = nd_transfer_offset (w_nand w)"
    by (simp add: NAND_HEADER_BYTES_def)
  have n: "\<not> nd_used (w_nand w) < nd_transfer_offset (w_nand w)" "\<not> nd_used (w_nand w) \<le> nd_transfer_offset (w_nand w)"
    using assms(2) by simp_all
  have c: "\<not> 3 \<le> nand_code t" using nand_code_cast [OF assms(3)] by (simp add: not_le)
  have "v = nand_transfer_skip QIRAN_FAULT_NAND_WRITE 0xFFFFFFEC 0xFFFFFFEC u"
    using n(1) unfolding v_def storage_nand_transfer_service_def assms(4) prod.case Let_def nand_header_fields assms(5) z
    by (simp add: assms(1) n c nand_transfer_record_def NAND_TRANSFER_STAGE_def)
  then show "nd_transfer_active (w_nand v)" "nd_transfer_offset (w_nand v) = nd_transfer_offset (w_nand w)"
    "nd_transferred (w_nand v) = nd_transferred (w_nand w)"
    using assms(1) by (simp_all add: nand_transfer_skip_def assms(5) NAND_HEADER_BYTES_def)
qed

text \<open>There is one staging array. A record handed over while the one before it still waits in the
  queue takes its place: both descriptors then point to the later record's bytes.\<close>

lemma queued_slot:
  assumes "nand_queued w v = [Nd_handed (c, h, b)]"
  obtains i where "i < 16" "\<forall>j < 16. \<not> os_used (oq_slot (w_output w) ! j) \<and> os_used (oq_slot (w_output v) ! j) \<longrightarrow> j = i"
    "\<not> os_used (oq_slot (w_output w) ! i)" "os_used (oq_slot (w_output v) ! i)"
    "os_data (oq_slot (w_output v) ! i) = h" "take (unat (os_len (oq_slot (w_output v) ! i))) (nd_stage (w_nand v)) = b"
proof -
  obtain i where i: "filter (\<lambda>i. \<not> os_used (oq_slot (w_output w) ! i) \<and> os_used (oq_slot (w_output v) ! i))
      [0..<COMM_OUTPUT_DEPTH] = [i]"
    using assms by (auto simp: nand_queued_def map_eq_Cons_conv)
  then have m: "j \<in> set (filter (\<lambda>i. \<not> os_used (oq_slot (w_output w) ! i) \<and> os_used (oq_slot (w_output v) ! i))
      [0..<COMM_OUTPUT_DEPTH]) \<longleftrightarrow> j = i" for j by simp
  have c: "j < 16 \<and> \<not> os_used (oq_slot (w_output w) ! j) \<and> os_used (oq_slot (w_output v) ! j) \<longleftrightarrow> j = i" for j
    using m [of j] by (auto simp: COMM_OUTPUT_DEPTH_def)
  then have a: "i < 16" "\<not> os_used (oq_slot (w_output w) ! i)" "os_used (oq_slot (w_output v) ! i)" by blast+
  have u: "\<forall>j < 16. \<not> os_used (oq_slot (w_output w) ! j) \<and> os_used (oq_slot (w_output v) ! j) \<longrightarrow> j = i"
    using c by blast
  have "os_data (oq_slot (w_output v) ! i) = h" "take (unat (os_len (oq_slot (w_output v) ! i))) (nd_stage (w_nand v)) = b"
    using assms i by (simp_all add: nand_queued_def Let_def)
  then show ?thesis by (rule that [OF a(1) u a(2,3)])
qed

lemma submit_keeps_used:
  assumes "comm_output_submit cls d n w = (st, v)" "os_used (oq_slot (w_output w) ! i)" "i < 16"
  shows "oq_slot (w_output v) ! i = oq_slot (w_output w) ! i"
proof (cases "find (\<lambda>i. \<not> os_used (oq_slot (w_output w) ! i)) [0..<COMM_OUTPUT_DEPTH]")
  case None
  then show ?thesis using assms(1) by (auto simp: comm_output_submit_def split: if_splits)
next
  case (Some j)
  then have "j \<noteq> i" using assms(2) by (auto simp: find_Some_iff)
  then show ?thesis using assms(1) Some by (auto simp: comm_output_submit_def output_fill_def Let_def split: if_splits)
qed

lemma service_keeps_used:
  assumes "nand_medium_ok E med" "os_used (oq_slot (w_output w) ! i)" "i < 16"
  shows "oq_slot (w_output (storage_nand_transfer_service E w)) ! i = oq_slot (w_output w) ! i"
proof -
  have rd: "w_output u = w_output x" if "nand_read E off n x = (st, bs, u)" for off n x st bs u
    using medium_read(1) [OF assms(1) that] by (simp add: nand_same_def)
  have stop: "w_output (nand_transfer_stop x) = w_output x" "w_output (nand_transfer_skip fl dt n x) = w_output x"
    for x :: "'a nand_world_scheme" and fl dt n
    by (simp_all add: nand_transfer_stop_def nand_transfer_skip_def)
  have rec: "oq_slot (w_output (nand_transfer_record E t n c x)) ! i = oq_slot (w_output x) ! i"
    if "os_used (oq_slot (w_output x) ! i)" for t n c x
  proof -
    obtain st bs u where r: "nand_read E (nd_transfer_offset (w_nand x) + NAND_HEADER_BYTES) n x = (st, bs, u)" by (rule prod_cases3)
    let ?u = "nand_upd (stage_put bs) u"
    obtain st2 y where y: "comm_output_submit (class_of (nand_of_code t)) (Some NAND_STAGE) n ?u = (st2, y)" by (rule prod.exhaust)
    have "oq_slot (w_output y) ! i = oq_slot (w_output x) ! i"
      using submit_keeps_used [OF y _ assms(3)] rd [OF r] that by simp
    then show ?thesis using rd [OF r] by (simp add: nand_transfer_record_def r y stop Let_def)
  qed
  obtain st h u where r: "nand_read E (nd_transfer_offset (w_nand w)) NAND_HEADER_BYTES w = (st, h, u)" by (rule prod_cases3)
  have u: "os_used (oq_slot (w_output u) ! i)" using rd [OF r] assms(2) by simp
  show ?thesis
    using rd [OF r] rec [OF u] by (simp add: storage_nand_transfer_service_def r stop Let_def)
qed

lemma nand_stage_shared:
  assumes M: "nand_medium_ok E med" and R: "\<forall>off n u. fst (nand_read E off n u) = QIRAN_OK"
    and I: "nand_inv med rs k w" and act: "storage_nand_transfer_active w" and k: "Suc k < length rs"
    and fit: "nand_fits (rs ! k)" "nand_fits (rs ! Suc k)"
    and free: "\<forall>i < 16. \<not> os_used (oq_slot (w_output w) ! i)"
  defines "v \<equiv> storage_nand_transfer_service E (storage_nand_transfer_service E w)"
  shows "\<exists>i < 16. \<exists>j < 16. i \<noteq> j \<and>
    (\<forall>l \<in> {i, j}. os_used (oq_slot (w_output v) ! l) \<and> os_data (oq_slot (w_output v) ! l) = NAND_STAGE) \<and>
    take (length (snd (rs ! Suc k))) (nd_stage (w_nand v)) = snd (rs ! Suc k)"
proof -
  define u where "u = storage_nand_transfer_service E w"
  have none: "find (\<lambda>i. \<not> os_used (slots ! i)) [0..<COMM_OUTPUT_DEPTH] \<noteq> None"
    if "\<not> os_used (slots ! i)" "i < 16" for slots i
    using that by (auto simp: find_None_iff COMM_OUTPUT_DEPTH_def)
  obtain t d where r1: "rs ! k = (t, d)" by (rule prod.exhaust)
  obtain t' d' where r2: "rs ! Suc k = (t', d')" by (rule prod.exhaust)
  have act': "nd_transfer_active (w_nand w)" using act by (simp add: storage_nand_transfer_active_def)
  have s1: "nand_inv med rs (Suc k) u" "nd_transfer_active (w_nand u)"
    "nand_queued w u = [Nd_handed (class_of t, NAND_STAGE, d)]"
    using nand_service_step [OF M I act' Suc_lessD [OF k] r1] R none [of "oq_slot (w_output w)" 0] free fit(1)
    by (auto simp: u_def r1 nand_out_def)
  obtain i where i: "i < 16" "\<forall>j < 16. \<not> os_used (oq_slot (w_output w) ! j) \<and> os_used (oq_slot (w_output u) ! j) \<longrightarrow> j = i"
    "os_used (oq_slot (w_output u) ! i)" "os_data (oq_slot (w_output u) ! i) = NAND_STAGE"
    using s1(3) by (rule queued_slot)
  obtain m :: nat where m: "m < 16" "m \<noteq> i" using that [of 0] that [of 1] by (cases "i = 0") auto
  then have "\<not> os_used (oq_slot (w_output u) ! m)" using i(2) free by blast
  then have s2: "nand_queued u v = [Nd_handed (class_of t', NAND_STAGE, d')]"
    using nand_service_step [OF M s1(1,2) k r2] R none [of "oq_slot (w_output u)" m] m(1) fit(2)
    by (auto simp: v_def u_def r2 nand_out_def)
  obtain j where j: "j < 16" "\<not> os_used (oq_slot (w_output u) ! j)" "os_used (oq_slot (w_output v) ! j)"
    "os_data (oq_slot (w_output v) ! j) = NAND_STAGE"
    "take (unat (os_len (oq_slot (w_output v) ! j))) (nd_stage (w_nand v)) = d'"
    using s2 by (rule queued_slot)
  have same: "oq_slot (w_output v) ! i = oq_slot (w_output u) ! i"
    unfolding v_def u_def [symmetric] by (rule service_keeps_used [OF M i(3,1)])
  have "\<forall>l \<in> {i, j}. os_used (oq_slot (w_output v) ! l) \<and> os_data (oq_slot (w_output v) ! l) = NAND_STAGE"
    using i(3,4) j(3,4) by (simp add: same)
  moreover have "take (length (take n (nd_stage (w_nand v)))) (nd_stage (w_nand v)) = take n (nd_stage (w_nand v))" for n
    by (simp add: min_def)
  from this [of "unat (os_len (oq_slot (w_output v) ! j))"]
  have "take (length (snd (rs ! Suc k))) (nd_stage (w_nand v)) = snd (rs ! Suc k)" unfolding j(5) r2 by simp
  moreover have "i \<noteq> j" using i(3) j(2) by blast
  ultimately show ?thesis using i(1) j(1) by blast
qed

end
