(* ===== verification/Data_Path.thy ===== *)
theory Data_Path
  imports Storage_Nand
begin

section \<open>Acquisition buffers: \<^verbatim>\<open>src/data/data_path.c\<close>\<close>

text \<open>
  The queue of buffers the fabric has finished with. The array and its count are kept as they are.
\<close>

definition READY_SLOTS :: u32 where "READY_SLOTS = 7"

record path_state =
  pa_ready :: "ddr_region list"
  pa_ready_count :: u32
  pa_completions :: u32
  pa_arm_failures :: u32
  pa_dropped :: u32

record path_world = nand_world +
  w_path :: path_state

definition path_upd :: "(path_state \<Rightarrow> path_state) \<Rightarrow> 'a path_world_scheme \<Rightarrow> 'a path_world_scheme" where
  "path_upd f w = w\<lparr>w_path := f (w_path w)\<rparr>"

definition data_path_init :: "'a path_world_scheme \<Rightarrow> 'a path_world_scheme" where
  "data_path_init = path_upd (\<lambda>s. s\<lparr>pa_ready_count := 0, pa_completions := 0, pa_arm_failures := 0, pa_dropped := 0\<rparr>)"

definition data_path_arm :: "u32 \<Rightarrow> 'a path_world_scheme \<Rightarrow> qiran_status \<times> 'a path_world_scheme" where
  "data_path_arm channel w =
    (let region = storage_ddr_free_raw_slot channel w
     in if DDR_CHANNELS \<le> channel then (QIRAN_ERR_PARAM, w)
        else if region = DDR_REGION_COUNT
        then (QIRAN_ERR_BUSY, svc_fdir_report QIRAN_FAULT_DDR_OVERRUN channel
               (path_upd (\<lambda>s. s\<lparr>pa_arm_failures := pa_arm_failures s + 1\<rparr>) w))
        else storage_ddr_handoff region DDR_OWNER_NONE DDR_OWNER_PL_DMA w)"

definition data_path_ready_slots :: "'a path_world_scheme \<Rightarrow> u32" where
  "data_path_ready_slots w = pa_ready_count (w_path w)"

text \<open>The entries move down by one; the place behind the last keeps its old content.\<close>

definition ready_shift :: "path_state \<Rightarrow> path_state" where
  "ready_shift s = s\<lparr>pa_ready := fold (\<lambda>i xs. xs[i - 1 := xs ! i]) [1..<unat (pa_ready_count s)] (pa_ready s),
     pa_ready_count := pa_ready_count s - 1\<rparr>"

definition data_path_take_ready :: "'a path_world_scheme \<Rightarrow> ddr_region option \<times> 'a path_world_scheme" where
  "data_path_take_ready w =
    (if pa_ready_count (w_path w) = 0 then (None, w)
     else (Some (pa_ready (w_path w) ! 0), path_upd ready_shift w))"

definition complete :: "u32 \<Rightarrow> 'a path_world_scheme \<Rightarrow> 'a path_world_scheme" where
  "complete datum w =
    (let region = ddr_regions ! unat (datum mod 7);
         (st, w) = storage_ddr_handoff region DDR_OWNER_PL_DMA DDR_OWNER_PS_PROCESSING w
     in if st \<noteq> QIRAN_OK then path_upd (\<lambda>s. s\<lparr>pa_dropped := pa_dropped s + 1\<rparr>) w
        else if READY_SLOTS \<le> pa_ready_count (w_path w)
        then svc_fdir_report QIRAN_FAULT_DDR_OVERRUN (of_nat (region_idx region))
               (path_upd (\<lambda>s. s\<lparr>pa_dropped := pa_dropped s + 1\<rparr>) w)
        else path_upd (\<lambda>s. s\<lparr>pa_ready := (pa_ready s)[unat (pa_ready_count s) := region],
               pa_ready_count := pa_ready_count s + 1, pa_completions := pa_completions s + 1\<rparr>) w)"

definition data_path_transfer_begin :: "'a path_world_scheme \<Rightarrow> qiran_status \<times> 'a path_world_scheme" where
  "data_path_transfer_begin = storage_nand_transfer_begin"

definition data_path_transfer_done :: "'a path_world_scheme \<Rightarrow> bool" where
  "data_path_transfer_done = storage_nand_transfer_complete"

definition path_event :: "plat_irq_event \<Rightarrow> 'a path_world_scheme \<Rightarrow> 'a path_world_scheme" where
  "path_event ev w = complete (ev_datum ev) w"

definition data_path_service_interrupts :: "'a path_world_scheme \<Rightarrow> 'a path_world_scheme" where
  "data_path_service_interrupts w = irq_service PLAT_IRQ_DMA path_event w"

definition data_path_manage :: "'a path_world_scheme nand_env \<Rightarrow> 'a path_world_scheme \<Rightarrow> 'a path_world_scheme" where
  "data_path_manage E w =
    (if mission_stage_get w = STAGE_DATA_HANDLING then storage_nand_transfer_service E w else w)"

definition data_path_completions :: "'a path_world_scheme \<Rightarrow> u32" where
  "data_path_completions w = pa_completions (w_path w)"

definition data_path_arm_failures :: "'a path_world_scheme \<Rightarrow> u32" where
  "data_path_arm_failures w = pa_arm_failures (w_path w)"

definition data_path_dropped :: "'a path_world_scheme \<Rightarrow> u32" where
  "data_path_dropped w = pa_dropped (w_path w)"

lemma path_fields [simp]:
  "w_path (path_upd f w) = f (w_path w)" "w_path (svc_fdir_report fl d w) = w_path w" "w_path (ddr_upd g w) = w_path w"
  "w_ddr (path_upd f w) = w_ddr w" "w_path (violation r own w) = w_path w"
  by (simp_all add: path_upd_def svc_fdir_report_eq ddr_upd_def violation_def Let_def)

section \<open>The interrupt queue is served in order\<close>

text \<open>Events that leave the interrupt queues alone are served one after the other, oldest first,
  until the queue is empty.\<close>

definition irq_taken_all :: "plat_irq_id \<Rightarrow> 'a irq_world_scheme \<Rightarrow> 'a irq_world_scheme" where
  "irq_taken_all irq w = w\<lparr>w_irq := (w_irq w)(irq := (w_irq w irq)\<lparr>iq_tail := iq_head (w_irq w irq)\<rparr>)\<rparr>"

lemma irq_drain_fold:
  assumes "irq \<noteq> PLAT_IRQ_COUNT" "\<And>ev g w. f ev (w\<lparr>w_irq := g\<rparr>) = (f ev w)\<lparr>w_irq := g\<rparr>"
    and "irq_invar (w_irq w irq)" "length (irq_queue (w_irq w irq)) < n"
  shows "irq_drain n irq f w = fold f (irq_queue (w_irq w irq)) (irq_taken_all irq w)"
  using assms(3,4)
proof (induction n arbitrary: w)
  case 0
  then show ?case by simp
next
  case (Suc n)
  let ?s = "w_irq w irq"
  show ?case
  proof (cases "irq_queue ?s")
    case Nil
    then have "irq_pop ?s = None" "iq_head ?s = iq_tail ?s"
      using iq.pop_empty [OF Suc.prems(1)] by (simp_all add: irq_queue_def unat_eq_0 flip: length_0_conv)
    then show ?thesis using assms(1) Nil by (simp add: plat_irq_take_def irq_taken_all_def)
  next
    case (Cons e es)
    from iq.pop_cons [OF Suc.prems(1) Cons] obtain s where s: "irq_pop ?s = Some (e, s)" "irq_queue s = es" "irq_invar s" by blast
    then have st: "s = ?s\<lparr>iq_tail := iq_tail ?s + 1\<rparr>" by (simp add: irq_pop_def Let_def split: if_splits)
    define v where "v = w\<lparr>w_irq := (w_irq w)(irq := s)\<rparr>"
    have "f e v = (f e v)\<lparr>w_irq := w_irq v\<rparr>" using assms(2) [of e "w_irq v" v] by simp
    then have irq: "w_irq (f e v) = w_irq v" by (rule ssubst) simp
    have vq: "w_irq v irq = s" by (simp add: v_def)
    have "irq_taken_all irq (f e v) = (f e v)\<lparr>w_irq := (w_irq v)(irq := s\<lparr>iq_tail := iq_head s\<rparr>)\<rparr>"
      unfolding irq_taken_all_def irq vq ..
    also have "\<dots> = f e (v\<lparr>w_irq := (w_irq v)(irq := s\<lparr>iq_tail := iq_head s\<rparr>)\<rparr>)" by (rule assms(2) [symmetric])
    also have "v\<lparr>w_irq := (w_irq v)(irq := s\<lparr>iq_tail := iq_head s\<rparr>)\<rparr> = irq_taken_all irq w"
      by (simp add: v_def irq_taken_all_def st)
    finally have all: "irq_taken_all irq (f e v) = f e (irq_taken_all irq w)" .
    have q: "w_irq (f e v) irq = s" by (simp only: irq vq)
    have "irq_drain n irq f (f e v) = fold f es (irq_taken_all irq (f e v))"
      using Suc.IH [of "f e v"] Suc.prems(2) Cons s(2,3) by (simp add: q)
    then show ?thesis using assms(1) s Cons all by (simp add: plat_irq_take_def v_def)
  qed
qed

lemma irq_service_fold:
  assumes "irq \<noteq> PLAT_IRQ_COUNT" "\<And>ev g w. f ev (w\<lparr>w_irq := g\<rparr>) = (f ev w)\<lparr>w_irq := g\<rparr>" "irq_invar (w_irq w irq)"
  shows "irq_service irq f w = fold f (irq_queue (w_irq w irq)) (irq_taken_all irq w)"
  unfolding irq_service_def
  by (rule irq_drain_fold [OF assms]) (simp_all add: plat_irq_pending_def irq_queue_def assms(1))

lemma irq_commutes:
  "ddr_upd h (w\<lparr>w_irq := g\<rparr>) = (ddr_upd h w)\<lparr>w_irq := g\<rparr>"
  "svc_fdir_report fl d (v\<lparr>w_irq := g\<rparr>) = (svc_fdir_report fl d v)\<lparr>w_irq := g\<rparr>"
  "path_upd k (u\<lparr>w_irq := g\<rparr>) = (path_upd k u)\<lparr>w_irq := g\<rparr>"
  by (simp_all add: ddr_upd_def path_upd_def svc_fdir_report_eq exec_raw_tick_count_def)

lemma path_event_irq: "path_event ev (w\<lparr>w_irq := g\<rparr>) = (path_event ev w)\<lparr>w_irq := g\<rparr>"
proof -
  have h: "storage_ddr_handoff r f t (w\<lparr>w_irq := g\<rparr>) =
      (let (st, v) = storage_ddr_handoff r f t w in (st, v\<lparr>w_irq := g\<rparr>))" for r f t
    by (simp add: storage_ddr_handoff_def violation_def irq_commutes Let_def)
  show ?thesis
    by (simp add: path_event_def complete_def h irq_commutes split_beta Let_def)
qed


text \<open>Completions are taken over in the order the fabric reported them: serving the interrupt
  queue is taking over each queued buffer in turn, oldest first, and leaves the queue empty.\<close>

theorem path_interrupts_in_order:
  assumes "irq_invar (w_irq w PLAT_IRQ_DMA)"
  shows "data_path_service_interrupts w =
      fold complete (map ev_datum (irq_queue (w_irq w PLAT_IRQ_DMA))) (irq_taken_all PLAT_IRQ_DMA w) \<and>
    irq_queue (w_irq (irq_taken_all PLAT_IRQ_DMA w) PLAT_IRQ_DMA) = []"
proof -
  have "data_path_service_interrupts w =
      fold path_event (irq_queue (w_irq w PLAT_IRQ_DMA)) (irq_taken_all PLAT_IRQ_DMA w)"
    unfolding data_path_service_interrupts_def
    by (rule irq_service_fold [OF _ path_event_irq assms]) simp
  then show ?thesis
    by (simp add: fold_map comp_def path_event_def [abs_def] irq_taken_all_def irq_queue_def flip: length_0_conv)
qed

section \<open>The queue of finished buffers\<close>

definition path_ready :: "path_state \<Rightarrow> ddr_region list" where
  "path_ready s = take (unat (pa_ready_count s)) (pa_ready s)"

definition path_ok :: "'a path_world_scheme \<Rightarrow> bool" where
  "path_ok w \<longleftrightarrow> length (pa_ready (w_path w)) = 7 \<and> unat (pa_ready_count (w_path w)) \<le> 7 \<and>
     distinct (path_ready (w_path w)) \<and>
     (\<forall>r \<in> set (path_ready (w_path w)). r \<noteq> DDR_REGION_COUNT \<and> dr_owner (dd_region (w_ddr w) r) = DDR_OWNER_PS_PROCESSING)"

lemma shift_fold:
  assumes "Suc n \<le> length xs"
  shows "fold (\<lambda>i xs. xs[i - 1 := xs ! i]) [1..<Suc n] xs = take n (tl xs) @ drop n xs"
  using assms
proof (induction n)
  case 0
  then show ?case by simp
next
  case (Suc n)
  obtain x ys where xs: "xs = x # ys" "n < length ys" using Suc.prems by (cases xs) auto
  have d: "drop n (x # ys) = (x # ys) ! n # drop n ys" using xs(2) by (simp add: Cons_nth_drop_Suc [symmetric])
  have "fold (\<lambda>i xs. xs[i - 1 := xs ! i]) [1..<Suc (Suc n)] xs =
      (take n ys @ drop n (x # ys))[n := (take n ys @ drop n (x # ys)) ! Suc n]"
    using Suc xs by simp
  also have "\<dots> = take n ys @ ys ! n # drop n ys"
    using xs(2) unfolding d by (simp add: list_update_append nth_append min_def)
  also have "\<dots> = take (Suc n) (tl xs) @ drop (Suc n) xs" using xs by (simp add: take_Suc_conv_app_nth)
  finally show ?case .
qed

lemma ready_shift_items:
  assumes "length (pa_ready s) = 7" "unat (pa_ready_count s) \<le> 7" "pa_ready_count s \<noteq> 0"
  shows "path_ready s = pa_ready s ! 0 # path_ready (ready_shift s)" "length (pa_ready (ready_shift s)) = 7"
    and "unat (pa_ready_count (ready_shift s)) \<le> 7"
proof -
  obtain n where n: "unat (pa_ready_count s) = Suc n" using assms(3) by (cases "unat (pa_ready_count s)") (auto simp: unat_eq_0)
  then have m: "unat (pa_ready_count s - 1) = n"
    using assms(3) by (simp add: unat_minus_one)
  obtain x xs where xs: "pa_ready s = x # xs" using assms(1) by (cases "pa_ready s") auto
  have r: "pa_ready (ready_shift s) = take n xs @ drop n (x # xs)"
    using shift_fold [of n "pa_ready s"] n assms(1,2) by (simp add: ready_shift_def xs)
  show "path_ready s = pa_ready s ! 0 # path_ready (ready_shift s)"
    using n m r assms(1,2) xs by (simp add: path_ready_def) (simp add: ready_shift_def)
  show "length (pa_ready (ready_shift s)) = 7" "unat (pa_ready_count (ready_shift s)) \<le> 7"
    using n m r assms(1,2) xs by (simp_all) (simp_all add: ready_shift_def)
qed

lemma path_cong:
  assumes "path_ok w" "w_path v = w_path w"
    and "\<And>r. r \<in> set (path_ready (w_path w)) \<Longrightarrow> dr_owner (dd_region (w_ddr v) r) = dr_owner (dd_region (w_ddr w) r)"
  shows "path_ok v"
  using assms by (simp add: path_ok_def)

text \<open>The buffer a completion names, and whether the fabric has it.\<close>

definition path_region :: "u32 \<Rightarrow> ddr_region" where
  "path_region datum = ddr_regions ! unat (datum mod 7)"

definition path_accepts :: "u32 \<Rightarrow> 'a path_world_scheme \<Rightarrow> bool" where
  "path_accepts datum w \<longleftrightarrow> storage_ddr_configured (path_region datum) w \<and>
     storage_ddr_owner (path_region datum) w = DDR_OWNER_PL_DMA"

lemma path_region_valid: "path_region datum \<noteq> DDR_REGION_COUNT" "path_region datum \<in> set ddr_regions"
proof -
  have "unat (datum mod 7) < length ddr_regions"
    using word_mod_less_divisor [of 7 datum] by (simp add: ddr_regions_def word_less_nat_alt)
  then show m: "path_region datum \<in> set ddr_regions" by (simp add: path_region_def)
  then show "path_region datum \<noteq> DDR_REGION_COUNT" by (auto simp: ddr_regions_def)
qed

lemma complete_refused:
  assumes "\<not> path_accepts datum w" "path_ok w"
  shows "path_ok (complete datum w)" "path_ready (w_path (complete datum w)) = path_ready (w_path w)"
    and "data_path_completions (complete datum w) = data_path_completions w"
    and "data_path_dropped (complete datum w) = data_path_dropped w + 1"
proof -
  let ?r = "path_region datum"
  obtain st v where h: "storage_ddr_handoff ?r DDR_OWNER_PL_DMA DDR_OWNER_PS_PROCESSING w = (st, v)" by (rule prod.exhaust)
  have v: "st \<noteq> QIRAN_OK" "w_path v = w_path w" "dd_region (w_ddr v) = dd_region (w_ddr w)"
    using h assms(1) path_region_valid(1) [of datum]
    by (auto simp: storage_ddr_handoff_def path_accepts_def storage_ddr_configured_def storage_ddr_owner_def split: if_splits)
  have c: "complete datum w = path_upd (\<lambda>s. s\<lparr>pa_dropped := pa_dropped s + 1\<rparr>) v"
    using h v(1) by (simp add: complete_def path_region_def [symmetric])
  show "path_ok (complete datum w)" "path_ready (w_path (complete datum w)) = path_ready (w_path w)"
    "data_path_completions (complete datum w) = data_path_completions w"
    "data_path_dropped (complete datum w) = data_path_dropped w + 1"
    using assms(2) by (simp_all add: c path_ok_def path_ready_def v data_path_completions_def data_path_dropped_def)
qed

text \<open>A buffer the fabric has is in the queue not yet, so there is always room for it.\<close>

lemma complete_accepted:
  assumes "path_accepts datum w" "path_ok w"
  shows "path_ok (complete datum w)" "path_ready (w_path (complete datum w)) = path_ready (w_path w) @ [path_region datum]"
    and "data_path_completions (complete datum w) = data_path_completions w + 1"
    and "data_path_dropped (complete datum w) = data_path_dropped w"
proof -
  let ?r = "path_region datum" and ?s = "w_path w"
  obtain st v where h: "storage_ddr_handoff ?r DDR_OWNER_PL_DMA DDR_OWNER_PS_PROCESSING w = (st, v)" by (rule prod.exhaust)
  have v: "st = QIRAN_OK" "w_path v = ?s"
    "dd_region (w_ddr v) = (dd_region (w_ddr w))(?r := (dd_region (w_ddr w) ?r)\<lparr>dr_owner := DDR_OWNER_PS_PROCESSING\<rparr>)"
    and own: "dr_owner (dd_region (w_ddr w) ?r) = DDR_OWNER_PL_DMA"
    using h assms(1) path_region_valid(1) [of datum]
    by (auto simp: storage_ddr_handoff_def path_accepts_def storage_ddr_configured_def storage_ddr_owner_def split: if_splits)
  have new: "?r \<notin> set (path_ready ?s)" using assms(2) own by (auto simp: path_ok_def)
  have len: "length (path_ready ?s) = unat (pa_ready_count ?s)" using assms(2) by (simp add: path_ok_def path_ready_def)
  have all: "r = DDR_REGION_COUNT \<or> r \<in> set ddr_regions" for r by (cases r) (simp_all add: ddr_regions_def)
  have "insert ?r (set (path_ready ?s)) \<subseteq> set ddr_regions"
    using assms(2) path_region_valid(2) all by (auto simp: path_ok_def)
  then have "card (insert ?r (set (path_ready ?s))) \<le> card (set ddr_regions)" by (rule card_mono [OF List.finite_set])
  also have "\<dots> \<le> 7" using card_length [of ddr_regions] by (simp add: ddr_regions_def)
  finally have "card (insert ?r (set (path_ready ?s))) \<le> 7" .
  moreover have "card (insert ?r (set (path_ready ?s))) = Suc (unat (pa_ready_count ?s))"
    using new assms(2) len by (simp add: path_ok_def distinct_card)
  ultimately have room: "unat (pa_ready_count ?s) < 7" by simp
  then have notfull: "\<not> READY_SLOTS \<le> pa_ready_count ?s" by (simp add: READY_SLOTS_def word_le_nat_alt)
  have un: "unat (pa_ready_count ?s + 1) = Suc (unat (pa_ready_count ?s))"
    using room by (simp add: unat_word_ariths)
  have c: "w_path (complete datum w) = ?s\<lparr>pa_ready := (pa_ready ?s)[unat (pa_ready_count ?s) := ?r],
      pa_ready_count := pa_ready_count ?s + 1, pa_completions := pa_completions ?s + 1\<rparr>"
    "w_ddr (complete datum w) = w_ddr v"
    using h v(1,2) notfull by (simp_all add: complete_def path_region_def [symmetric])
  show ready: "path_ready (w_path (complete datum w)) = path_ready ?s @ [?r]"
    using room assms(2) by (simp add: c path_ready_def un path_ok_def take_Suc_conv_app_nth)
  show "path_ok (complete datum w)"
    unfolding path_ok_def ready using assms(2) new path_region_valid(1) room
    by (auto simp: c v(3) un path_ok_def)
  show "data_path_completions (complete datum w) = data_path_completions w + 1"
    "data_path_dropped (complete datum w) = data_path_dropped w"
    by (simp_all add: data_path_completions_def data_path_dropped_def c)
qed


section \<open>Histories\<close>

datatype 'w path_op = Dp_arm u32 | Dp_complete u32 | Dp_take | Dp_other "'w \<Rightarrow> 'w"

text \<open>The completions due (the fabric had the buffer), those not, and the buffers taken.\<close>

record path_trace =
  pt_due :: "ddr_region list"
  pt_undue :: nat
  pt_taken :: "ddr_region list"

fun path_step :: "'a path_world_scheme path_op \<Rightarrow> path_trace \<times> 'a path_world_scheme \<Rightarrow> path_trace \<times> 'a path_world_scheme" where
  "path_step (Dp_arm ch) (t, w) = (t, snd (data_path_arm ch w))"
| "path_step (Dp_complete d) (t, w) =
     (if path_accepts d w then t\<lparr>pt_due := pt_due t @ [path_region d]\<rparr> else t\<lparr>pt_undue := Suc (pt_undue t)\<rparr>, complete d w)"
| "path_step Dp_take (t, w) =
     (let (r, w) = data_path_take_ready w in (t\<lparr>pt_taken := pt_taken t @ (case r of None \<Rightarrow> [] | Some r \<Rightarrow> [r])\<rparr>, w))"
| "path_step (Dp_other f) (t, w) = (t, f w)"

text \<open>The rest of the program leaves the queue alone, and the buffers in it: a buffer is handed on, or
  cleared, only by whoever took it.\<close>

definition path_left_alone :: "'a path_world_scheme \<Rightarrow> 'a path_world_scheme \<Rightarrow> bool" where
  "path_left_alone w v \<longleftrightarrow> w_path v = w_path w \<and> (\<forall>r \<in> set (path_ready (w_path w)).
     dr_owner (dd_region (w_ddr v) r) = dr_owner (dd_region (w_ddr w) r))"

fun path_history_ok :: "'a path_world_scheme path_op list \<Rightarrow> path_trace \<times> 'a path_world_scheme \<Rightarrow> bool" where
  "path_history_ok [] s = True"
| "path_history_ok (Dp_other f # ps) s = (path_left_alone (snd s) (f (snd s)) \<and> path_history_ok ps (path_step (Dp_other f) s))"
| "path_history_ok (p # ps) s = path_history_ok ps (path_step p s)"

definition path_account :: "path_trace \<Rightarrow> 'a path_world_scheme \<Rightarrow> bool" where
  "path_account t w \<longleftrightarrow> path_ok w \<and> pt_due t = pt_taken t @ path_ready (w_path w) \<and>
     data_path_completions w = of_nat (length (pt_due t)) \<and> data_path_dropped w = of_nat (pt_undue t)"

lemma arm_keeps:
  assumes "path_ok w"
  shows "path_ok (snd (data_path_arm ch w))" "path_ready (w_path (snd (data_path_arm ch w))) = path_ready (w_path w)"
    and "data_path_completions (snd (data_path_arm ch w)) = data_path_completions w"
    and "data_path_dropped (snd (data_path_arm ch w)) = data_path_dropped w"
proof -
  let ?r = "storage_ddr_free_raw_slot ch w"
  have keeps: "path_ok v" if "w_path v = (w_path w)\<lparr>pa_arm_failures := n\<rparr>" "dd_region (w_ddr v) = dd_region (w_ddr w)" for v n
    using assms that by (simp add: path_ok_def path_ready_def)
  obtain st v where h: "storage_ddr_handoff ?r DDR_OWNER_NONE DDR_OWNER_PL_DMA w = (st, v)" by (rule prod.exhaust)
  have v: "w_path v = w_path w" "dd_region (w_ddr v) = dd_region (w_ddr w) \<or>
      dr_owner (dd_region (w_ddr w) ?r) = DDR_OWNER_NONE \<and> dd_region (w_ddr v) = (dd_region (w_ddr w))
        (?r := (dd_region (w_ddr w) ?r)\<lparr>dr_owner := DDR_OWNER_PL_DMA\<rparr>)"
    using h by (auto simp: storage_ddr_handoff_def split: if_splits)
  have "path_ok v" by (rule path_cong [OF assms v(1)]) (use v(2) assms in \<open>auto simp: path_ok_def\<close>)
  then show "path_ok (snd (data_path_arm ch w))"
    using assms by (simp add: data_path_arm_def h Let_def keeps [of _ "pa_arm_failures (w_path w) + 1"])
  show "path_ready (w_path (snd (data_path_arm ch w))) = path_ready (w_path w)"
    "data_path_completions (snd (data_path_arm ch w)) = data_path_completions w"
    "data_path_dropped (snd (data_path_arm ch w)) = data_path_dropped w"
    by (simp_all add: data_path_arm_def h Let_def v(1) path_ready_def data_path_completions_def data_path_dropped_def)
qed

lemma take_accounts:
  assumes "path_ok w" "data_path_take_ready w = (r, v)"
  shows "path_ok v" "path_ready (w_path w) = (case r of None \<Rightarrow> [] | Some r \<Rightarrow> [r]) @ path_ready (w_path v)"
    and "data_path_completions v = data_path_completions w" "data_path_dropped v = data_path_dropped w"
proof -
  let ?s = "w_path w"
  have ok: "length (pa_ready ?s) = 7" "unat (pa_ready_count ?s) \<le> 7" using assms(1) by (simp_all add: path_ok_def)
  have "path_ok v \<and> path_ready (w_path w) = (case r of None \<Rightarrow> [] | Some r \<Rightarrow> [r]) @ path_ready (w_path v)"
  proof (cases "pa_ready_count ?s = 0")
    case True
    then show ?thesis using assms by (simp add: data_path_take_ready_def path_ready_def)
  next
    case False
    note s = ready_shift_items [OF ok False]
    have v: "r = Some (pa_ready ?s ! 0)" "v = path_upd ready_shift w" using assms(2) False by (simp_all add: data_path_take_ready_def)
    show ?thesis using assms(1) s by (auto simp: v path_ok_def)
  qed
  then show "path_ok v" "path_ready (w_path w) = (case r of None \<Rightarrow> [] | Some r \<Rightarrow> [r]) @ path_ready (w_path v)" by simp_all
  show "data_path_completions v = data_path_completions w" "data_path_dropped v = data_path_dropped w"
    using assms(2) by (auto simp: data_path_take_ready_def ready_shift_def data_path_completions_def data_path_dropped_def
        split: if_splits)
qed

lemma path_step_account:
  assumes "path_account t w" "path_history_ok (p # ps) (t, w)"
  shows "path_account (fst (path_step p (t, w))) (snd (path_step p (t, w)))" "path_history_ok ps (path_step p (t, w))"
proof -
  have ok: "path_ok w" using assms(1) by (simp add: path_account_def)
  show "path_account (fst (path_step p (t, w))) (snd (path_step p (t, w)))"
  proof (cases p)
    case (Dp_arm ch)
    then show ?thesis using assms(1) arm_keeps [of w ch] by (simp add: path_account_def)
  next
    case (Dp_complete d)
    show ?thesis
      using assms(1) complete_accepted [OF _ ok, of d] complete_refused [OF _ ok, of d]
      by (cases "path_accepts d w") (simp_all add: Dp_complete path_account_def)
  next
    case Dp_take
    obtain r v where r: "data_path_take_ready w = (r, v)" by (rule prod.exhaust)
    show ?thesis using assms(1) take_accounts [OF ok r] by (simp add: Dp_take r path_account_def)
  next
    case (Dp_other f)
    then have f: "w_path (f w) = w_path w"
      "\<And>r. r \<in> set (path_ready (w_path w)) \<Longrightarrow> dr_owner (dd_region (w_ddr (f w)) r) = dr_owner (dd_region (w_ddr w) r)"
      using assms(2) by (simp_all add: path_left_alone_def)
    from path_cong [OF ok f] show ?thesis
      using assms(1) by (simp add: Dp_other path_account_def f(1) data_path_completions_def data_path_dropped_def)
  qed
  show "path_history_ok ps (path_step p (t, w))" using assms(2) by (cases p) simp_all
qed

definition path_trace0 :: path_trace where
  "path_trace0 = \<lparr>pt_due = [], pt_undue = 0, pt_taken = []\<rparr>"

text \<open>C11: No finished buffer is lost or taken twice: over any history of arming, completions, taking and
  other activity that leaves queued buffers to whoever takes them, every completion of a buffer the
  fabric had is queued (the queue never overflows) and taken once, in order; every other completion is
  counted as dropped; a queued buffer belongs to the processor and is in the queue once.\<close>

theorem path_no_completion_lost:
  assumes "length (pa_ready (w_path w)) = 7" "path_history_ok ps (path_trace0, data_path_init w)"
  defines "r \<equiv> fold path_step ps (path_trace0, data_path_init w)"
  shows "pt_due (fst r) = pt_taken (fst r) @ path_ready (w_path (snd r)) \<and>
    data_path_completions (snd r) = of_nat (length (pt_due (fst r))) \<and>
    data_path_dropped (snd r) = of_nat (pt_undue (fst r)) \<and> distinct (path_ready (w_path (snd r))) \<and>
    (\<forall>q \<in> set (path_ready (w_path (snd r))). storage_ddr_owner q (snd r) = DDR_OWNER_PS_PROCESSING)"
proof -
  have run: "path_account (fst (fold path_step ps (t, v))) (snd (fold path_step ps (t, v)))"
    if "path_account t v" "path_history_ok ps (t, v)" for t v
    using that
  proof (induction ps arbitrary: t v)
    case Nil
    then show ?case by simp
  next
    case (Cons p ps)
    obtain t' v' where s: "path_step p (t, v) = (t', v')" by (rule prod.exhaust)
    show ?case using path_step_account [OF Cons.prems] Cons.IH [of t' v'] by (simp add: s)
  qed
  have "path_account path_trace0 (data_path_init w)"
    using assms(1) by (simp add: path_account_def path_ok_def path_ready_def data_path_init_def data_path_completions_def
        data_path_dropped_def path_trace0_def)
  from run [OF this assms(2)] have "path_account (fst r) (snd r)" by (simp add: r_def)
  then show ?thesis by (auto simp: path_account_def path_ok_def storage_ddr_owner_def)
qed

text \<open>One buffer is armed, completed twice and taken: the second report of it is counted as dropped.\<close>

definition path_setup :: "path_world \<Rightarrow> path_world" where
  "path_setup w = snd (storage_ddr_set_region DDR_REGION_RAW_CH0_A (Some 100) 8 (storage_ddr_init
     (w\<lparr>w_path := \<lparr>pa_ready = replicate 7 DDR_REGION_COUNT, pa_ready_count = 0, pa_completions = 0,
       pa_arm_failures = 0, pa_dropped = 0\<rparr>\<rparr>)))"

theorem path_no_completion_lost_witness:
  "\<forall>w. let r = fold path_step [Dp_arm 0, Dp_complete 0, Dp_complete 0, Dp_take] (path_trace0, data_path_init (path_setup w))
    in pt_taken (fst r) = [DDR_REGION_RAW_CH0_A] \<and> path_ready (w_path (snd r)) = [] \<and> data_path_dropped (snd r) = 1"
proof
  fix w
  let ?ps = "[Dp_arm 0, Dp_complete 0, Dp_complete 0, Dp_take] :: path_world path_op list"
  let ?r = "fold path_step ?ps (path_trace0, data_path_init (path_setup w))"
  have set: "length (pa_ready (w_path (path_setup w))) = 7"
    by (simp add: path_setup_def storage_ddr_set_region_def storage_ddr_init_def)
  define v where "v = data_path_init (path_setup w)"
  have v: "w_path v = \<lparr>pa_ready = replicate 7 DDR_REGION_COUNT, pa_ready_count = 0, pa_completions = 0,
       pa_arm_failures = 0, pa_dropped = 0\<rparr>"
    "dd_region (w_ddr v) = (\<lambda>_. \<lparr>dr_base = None, dr_capacity = 0, dr_used = 0, dr_owner = DDR_OWNER_NONE\<rparr>)
      (DDR_REGION_RAW_CH0_A := \<lparr>dr_base = Some 100, dr_capacity = 8, dr_used = 0, dr_owner = DDR_OWNER_NONE\<rparr>)"
    by (simp_all add: v_def path_setup_def storage_ddr_set_region_def storage_ddr_init_def data_path_init_def)
  then have arm: "storage_ddr_free_raw_slot 0 v = DDR_REGION_RAW_CH0_A"
    by (simp add: storage_ddr_free_raw_slot_def DDR_CHANNELS_def DDR_RAW_SLOTS_def ddr_regions_def upt_rec)
  have tr: "pt_due (fst ?r) = [DDR_REGION_RAW_CH0_A]" "pt_undue (fst ?r) = 1" "length (pt_taken (fst ?r)) = 1"
    unfolding v_def [symmetric]
    by (simp_all add: data_path_arm_def arm path_accepts_def path_region_def complete_def storage_ddr_handoff_def v
        data_path_take_ready_def storage_ddr_configured_def storage_ddr_owner_def DDR_CHANNELS_def ddr_regions_def
        path_trace0_def READY_SLOTS_def Let_def)
  from path_no_completion_lost [OF set, of ?ps] tr
  show "let r = ?r in pt_taken (fst r) = [DDR_REGION_RAW_CH0_A] \<and> path_ready (w_path (snd r)) = [] \<and> data_path_dropped (snd r) = 1"
    by (cases "pt_taken (fst ?r)") (simp_all add: Let_def)
qed

text \<open>Two queued events that name buffer 0.\<close>

theorem path_interrupts_in_order_witness:
  "\<forall>w :: path_world. let v = w\<lparr>w_irq := \<lambda>_. irq_slot0\<rparr>
    in data_path_service_interrupts v = complete 0 (complete 0 (irq_taken_all PLAT_IRQ_DMA v))"
proof
  fix w :: path_world
  let ?v = "w\<lparr>w_irq := \<lambda>_. irq_slot0\<rparr>"
  have "irq_invar irq_slot0" "map ev_datum (irq_queue irq_slot0) = [0, 0]"
    by (simp_all add: irq_invar_def ring_ok_def irq_slot0_def irq_queue_def Q_MASK_def QIRAN_IRQ_QUEUE_DEPTH_def
        mask_eq_exp_minus_1 ring_items_def upt_rec nth_Cons')
  then show "let v = ?v in data_path_service_interrupts v = complete 0 (complete 0 (irq_taken_all PLAT_IRQ_DMA v))"
    using path_interrupts_in_order [of ?v] by (simp add: Let_def)
qed

section \<open>Where the queue departs from its description\<close>

text \<open>The index an interrupt captured is reduced modulo the number of regions: one that names no buffer
  completes another's.\<close>

lemma path_index_aliases: "complete 7 w = complete 0 w"
  by (simp add: complete_def)

end
