(* ===== verification/Plat_Timer.thy ===== *)
theory Plat_Timer
  imports Data_Path
begin

section \<open>The minor-cycle tick: \<^verbatim>\<open>src/plat/plat_timer.c\<close>\<close>

text \<open>
  The private timer of the processor, on the target build. The vendor's timer driver is a board
  support package object: of it the state keeps what this code sets (prescaler, reload value,
  automatic reload, interrupt and counting enabled, the interrupt flag), and whether the package
  finds and initialises the device is arbitrary. The timer clock \<^verbatim>\<open>QIRAN_TIMER_CLK_HZ\<close> is given
  by the build, and the interrupt number \<^verbatim>\<open>XPS_SCU_TMR_INT_ID\<close> by the vendor's table, so both are
  fields of the state too.
\<close>

definition TIMER_PRESCALER :: u8 where "TIMER_PRESCALER = 0"

definition PLAT_GIC_PRIO_TIMER :: u8 where "PLAT_GIC_PRIO_TIMER = 0x08"

definition PLAT_GIC_TRIGGER_LEVEL_HIGH :: u8 where "PLAT_GIC_TRIGGER_LEVEL_HIGH = 0x01"

record timer_state =
  tr_clk_hz :: u64
  tr_int_id :: u32
  tr_cfg_found :: bool
  tr_cfg_ok :: bool
  tr_prescaler :: u8
  tr_load :: u32
  tr_auto_reload :: bool
  tr_irq_enabled :: bool
  tr_irq_pending :: bool
  tr_running :: bool
  tr_isr_cycles_last :: u32
  tr_isr_cycles_worst :: u32

record timer_world = path_world +
  w_timer :: timer_state

definition timer_upd :: "(timer_state \<Rightarrow> timer_state) \<Rightarrow> 'a timer_world_scheme \<Rightarrow> 'a timer_world_scheme" where
  "timer_upd f w = w\<lparr>w_timer := f (w_timer w)\<rparr>"

text \<open>The reload value, computed in 64 bits and narrowed.\<close>

definition TIMER_LOAD_VALUE :: "u64 \<Rightarrow> u32" where
  "TIMER_LOAD_VALUE clk = ucast (clk * of_nat QIRAN_MINOR_CYCLE_MS div 1000 - 1)"

definition timer_isr :: "'a timer_world_scheme \<Rightarrow> 'a timer_world_scheme" where
  "timer_isr w =
    (let (start, w) = plat_cpu_cycle_count w;
         w = timer_upd (\<lambda>s. s\<lparr>tr_irq_pending := False\<rparr>) w;
         w = exec_on_minor_tick w;
         (stop, w) = plat_cpu_cycle_count w;
         elapsed = stop - start;
         w = timer_upd (\<lambda>s. s\<lparr>tr_isr_cycles_last := elapsed\<rparr>) w
     in if tr_isr_cycles_worst (w_timer w) < elapsed
        then timer_upd (\<lambda>s. s\<lparr>tr_isr_cycles_worst := elapsed\<rparr>) w else w)"

definition plat_timer_init :: "'a timer_world_scheme \<Rightarrow> qiran_status \<times> 'a timer_world_scheme" where
  "plat_timer_init w =
    (if \<not> tr_cfg_found (w_timer w) then (QIRAN_ERR_HARDWARE, w)
     else if \<not> tr_cfg_ok (w_timer w) then (QIRAN_ERR_HARDWARE, w)
     else (let w = timer_upd (\<lambda>s. s\<lparr>tr_prescaler := TIMER_PRESCALER\<rparr>) w;
               w = timer_upd (\<lambda>s. s\<lparr>tr_load := TIMER_LOAD_VALUE (tr_clk_hz s)\<rparr>) w;
               w = timer_upd (\<lambda>s. s\<lparr>tr_auto_reload := True\<rparr>) w;
               (st, w) = plat_gic_connect (tr_int_id (w_timer w)) (Some Timer_isr) PLAT_GIC_PRIO_TIMER
                           PLAT_GIC_TRIGGER_LEVEL_HIGH w
           in if st \<noteq> QIRAN_OK then (st, w)
              else (let w = plat_gic_enable (tr_int_id (w_timer w)) w
                    in (QIRAN_OK, timer_upd (\<lambda>s. s\<lparr>tr_irq_enabled := True\<rparr>) w))))"

definition plat_timer_start :: "'a timer_world_scheme \<Rightarrow> 'a timer_world_scheme" where
  "plat_timer_start = timer_upd (\<lambda>s. s\<lparr>tr_running := True\<rparr>)"

definition plat_timer_stop :: "'a timer_world_scheme \<Rightarrow> 'a timer_world_scheme" where
  "plat_timer_stop = timer_upd (\<lambda>s. s\<lparr>tr_running := False\<rparr>)"

definition plat_timer_load_value :: "'a timer_world_scheme \<Rightarrow> u32" where
  "plat_timer_load_value w = TIMER_LOAD_VALUE (tr_clk_hz (w_timer w))"

definition plat_timer_clock_hz :: "'a timer_world_scheme \<Rightarrow> u32" where
  "plat_timer_clock_hz w = ucast (tr_clk_hz (w_timer w))"

text \<open>The last and the worst duration of the handler.\<close>

definition plat_timer_isr_cycles :: "'a timer_world_scheme \<Rightarrow> u32 \<times> u32" where
  "plat_timer_isr_cycles w = (tr_isr_cycles_last (w_timer w), tr_isr_cycles_worst (w_timer w))"

lemma timer_upd_fields [simp]:
  "w_timer (timer_upd f w) = f (w_timer w)" "w_gic (timer_upd f w) = w_gic w"
  "w_exec (timer_upd f w) = w_exec w" "w_irq (timer_upd f w) = w_irq w" "w_cpu (timer_upd f w) = w_cpu w"
  by (simp_all add: timer_upd_def)

text \<open>The tick handler is the tick of the executive, and its duration is recorded.\<close>

lemma timer_isr_exec: "w_exec (timer_isr w) = exec_tick (w_exec w)"
  by (simp add: timer_isr_def plat_cpu_cycle_count_def exec_on_minor_tick_def Let_def)

lemma timer_isr_cycles:
  "tr_isr_cycles_last (w_timer (timer_isr w)) \<le> tr_isr_cycles_worst (w_timer (timer_isr w)) \<and>
   tr_isr_cycles_worst (w_timer w) \<le> tr_isr_cycles_worst (w_timer (timer_isr w))"
  by (auto simp: timer_isr_def plat_cpu_cycle_count_def exec_on_minor_tick_def timer_upd_def Let_def)

text \<open>After any number of ticks the executive's count has moved by as many, however the device counts.\<close>

lemma timer_isr_ticks:
  "exec_raw_tick_count ((timer_isr ^^ n) w) = exec_raw_tick_count w + of_nat n"
  by (induction n) (simp_all add: exec_raw_tick_count_def timer_isr_exec exec_tick_def Let_def)

text \<open>The controller keeps the timer's state; a successful initialisation programs it.\<close>

lemma gic_timer [simp]:
  "w_timer (snd (plat_gic_connect i h p t w)) = w_timer w" "w_timer (plat_gic_enable i w) = w_timer w"
  by (simp_all add: plat_gic_connect_def plat_gic_enable_def Let_def)

definition timer_programmed :: "timer_state \<Rightarrow> timer_state" where
  "timer_programmed s = s\<lparr>tr_prescaler := TIMER_PRESCALER, tr_load := TIMER_LOAD_VALUE (tr_clk_hz s),
     tr_auto_reload := True, tr_irq_enabled := True\<rparr>"

lemma plat_timer_init_ok:
  assumes "fst (plat_timer_init w) = QIRAN_OK"
  shows "w_timer (snd (plat_timer_init w)) = timer_programmed (w_timer w)"
proof -
  define w1 where "w1 = timer_upd (\<lambda>s. s\<lparr>tr_auto_reload := True\<rparr>)
    (timer_upd (\<lambda>s. s\<lparr>tr_load := TIMER_LOAD_VALUE (tr_clk_hz s)\<rparr>) (timer_upd (\<lambda>s. s\<lparr>tr_prescaler := TIMER_PRESCALER\<rparr>) w))"
  obtain st v where c: "plat_gic_connect (tr_int_id (w_timer w1)) (Some Timer_isr) PLAT_GIC_PRIO_TIMER
      PLAT_GIC_TRIGGER_LEVEL_HIGH w1 = (st, v)" by (rule prod.exhaust)
  then have v: "w_timer v = w_timer w1"
    using gic_timer(1) [of "tr_int_id (w_timer w1)" "Some Timer_isr" PLAT_GIC_PRIO_TIMER PLAT_GIC_TRIGGER_LEVEL_HIGH w1] by simp
  have "plat_timer_init w = (if \<not> tr_cfg_found (w_timer w) then (QIRAN_ERR_HARDWARE, w)
      else if \<not> tr_cfg_ok (w_timer w) then (QIRAN_ERR_HARDWARE, w)
      else if st \<noteq> QIRAN_OK then (st, v)
      else (QIRAN_OK, timer_upd (\<lambda>s. s\<lparr>tr_irq_enabled := True\<rparr>) (plat_gic_enable (tr_int_id (w_timer v)) v)))"
    unfolding plat_timer_init_def Let_def w1_def [symmetric] c by simp
  then show ?thesis
    using assms v by (auto simp: w1_def timer_programmed_def split: if_splits)
qed

lemma timer_load_unat:
  assumes "50 \<le> clk" "clk * 20 div 1000 \<le> 0xFFFFFFFF"
  shows "Suc (unat (TIMER_LOAD_VALUE (of_nat clk))) = clk * 20 div 1000"
proof -
  have m: "unat (of_nat clk * 20 :: u64) = clk * 20"
    using assms(2) by (simp add: unat_word_ariths unat_of_nat)
  have d: "unat (of_nat clk * 20 div 1000 :: u64) = clk * 20 div 1000"
    by (simp add: unat_div m)
  have pos: "1 \<le> clk * 20 div 1000" using assms(1) by simp
  then have "(1 :: u64) \<le> of_nat clk * 20 div 1000" by (simp add: word_le_nat_alt d)
  then have s: "unat (of_nat clk * 20 div 1000 - 1 :: u64) = clk * 20 div 1000 - 1"
    by (simp add: unat_sub d)
  have "unat (ucast (of_nat clk * 20 div 1000 - 1 :: u64) :: u32) = clk * 20 div 1000 - 1"
    using assms(2) by (simp add: unsigned_ucast_eq take_bit_eq_mod s)
  then show ?thesis
    using pos by (simp add: TIMER_LOAD_VALUE_def QIRAN_MINOR_CYCLE_MS_def)
qed

subsection \<open>Properties\<close>

lemma timer_load_slow:
  assumes "clk < 50"
  shows "TIMER_LOAD_VALUE (of_nat clk) = 0xFFFFFFFF"
proof -
  have m: "unat (of_nat clk * 20 :: u64) = clk * 20" using assms by (simp add: unat_word_ariths unat_of_nat)
  have "unat (of_nat clk * 20 div 1000 :: u64) = 0" using assms by (simp add: unat_div m)
  then have "of_nat clk * 20 div 1000 = (0 :: u64)" by (simp add: unat_eq_0)
  moreover have "(ucast (- 1 :: u64) :: u32) = 0xFFFFFFFF"
    by (simp only: unsigned_minus_1_eq_mask) (simp add: mask_eq_exp_minus_1)
  ultimately show ?thesis by (simp add: TIMER_LOAD_VALUE_def QIRAN_MINOR_CYCLE_MS_def)
qed

text \<open>C34: For every clock that passes the build's assertion, read in the integers, what the timer is
  programmed with. From fifty hertz on the tick is the minor cycle: the timer counts its reload value
  plus one clocks per tick, and over any number of ticks falls short of twenty milliseconds each by
  less than one timer clock each; it is exact for a clock that is a multiple of fifty hertz. The
  assertion has no lower bound: below fifty hertz the subtraction wraps and the reload value is the
  largest there is.\<close>

theorem timer_period_exact:
  fixes w :: "'a timer_world_scheme"
  defines "clk \<equiv> unat (tr_clk_hz (w_timer w))" and "load \<equiv> unat (plat_timer_load_value w)"
  assumes "clk * 20 div 1000 \<le> 0xFFFFFFFF"
  shows "(50 \<le> clk \<longrightarrow> n * Suc load * 1000 \<le> n * 20 * clk \<and> n * 20 * clk \<le> n * (Suc load * 1000 + 999) \<and>
      (50 dvd clk \<longrightarrow> n * Suc load * 1000 = n * 20 * clk)) \<and>
    (clk < 50 \<longrightarrow> load = 0xFFFFFFFF) \<and>
    (fst (plat_timer_init w) = QIRAN_OK \<longrightarrow>
      tr_load (w_timer (snd (plat_timer_init w))) = plat_timer_load_value w \<and>
      tr_auto_reload (w_timer (snd (plat_timer_init w))) \<and> tr_irq_enabled (w_timer (snd (plat_timer_init w))) \<and>
      tr_running (w_timer (snd (plat_timer_init w))) = tr_running (w_timer w))"
proof (intro conjI)
  have hz: "tr_clk_hz (w_timer w) = of_nat clk" by (simp add: clk_def)
  show "50 \<le> clk \<longrightarrow> n * Suc load * 1000 \<le> n * 20 * clk \<and> n * 20 * clk \<le> n * (Suc load * 1000 + 999) \<and>
      (50 dvd clk \<longrightarrow> n * Suc load * 1000 = n * 20 * clk)"
  proof
    assume "50 \<le> clk"
    then have p: "Suc load = clk * 20 div 1000"
      unfolding load_def plat_timer_load_value_def hz by (rule timer_load_unat [OF _ assms(3)])
    have dm: "Suc load * 1000 + clk * 20 mod 1000 = clk * 20" unfolding p by (rule div_mult_mod_eq)
    have "clk * 20 mod 1000 < 1000" by simp
    then have lo: "Suc load * 1000 \<le> 20 * clk" and hi: "20 * clk \<le> Suc load * 1000 + 999" using dm by linarith+
    have ex: "50 dvd clk \<longrightarrow> Suc load * 1000 = 20 * clk" unfolding p by (auto elim!: dvdE)
    then have "50 dvd clk \<longrightarrow> n * Suc load * 1000 = n * 20 * clk" by (simp only: mult.assoc) simp
    moreover have "n * Suc load * 1000 \<le> n * 20 * clk" "n * 20 * clk \<le> n * (Suc load * 1000 + 999)"
      using mult_le_mono2 [OF lo, of n] mult_le_mono2 [OF hi, of n] by (simp_all only: mult.assoc)
    ultimately show "n * Suc load * 1000 \<le> n * 20 * clk \<and> n * 20 * clk \<le> n * (Suc load * 1000 + 999) \<and>
        (50 dvd clk \<longrightarrow> n * Suc load * 1000 = n * 20 * clk)" by blast
  qed
  show "clk < 50 \<longrightarrow> load = 0xFFFFFFFF" by (simp add: load_def plat_timer_load_value_def hz timer_load_slow)
  show "fst (plat_timer_init w) = QIRAN_OK \<longrightarrow>
      tr_load (w_timer (snd (plat_timer_init w))) = plat_timer_load_value w \<and>
      tr_auto_reload (w_timer (snd (plat_timer_init w))) \<and> tr_irq_enabled (w_timer (snd (plat_timer_init w))) \<and>
      tr_running (w_timer (snd (plat_timer_init w))) = tr_running (w_timer w)"
    by (intro impI) (simp only: plat_timer_init_ok timer_programmed_def plat_timer_load_value_def, simp)
qed

text \<open>The reference clock of the board: five hundred ticks fall short of ten seconds by at most five
  hundred clocks.\<close>

theorem timer_period_exact_witness:
  "\<forall>w :: timer_world. let v = timer_upd (\<lambda>s. s\<lparr>tr_clk_hz := 333333343\<rparr>) w
    in 500 * Suc (unat (plat_timer_load_value v)) * 1000 \<le> 500 * 20 * 333333343"
proof
  fix w :: timer_world
  define v where "v = timer_upd (\<lambda>s. s\<lparr>tr_clk_hz := 333333343\<rparr>) w"
  have c: "unat (tr_clk_hz (w_timer v)) = 333333343" by (simp add: v_def)
  have "500 * Suc (unat (plat_timer_load_value v)) * 1000 \<le> 500 * 20 * (333333343 :: nat)"
    using timer_period_exact [of v 500, unfolded c] by simp
  then show "let v = timer_upd (\<lambda>s. s\<lparr>tr_clk_hz := 333333343\<rparr>) w
    in 500 * Suc (unat (plat_timer_load_value v)) * 1000 \<le> 500 * 20 * 333333343"
    unfolding v_def [symmetric] Let_def .
qed

end
