(* ===== verification/Callback_Table.thy ===== *)
theory Callback_Table
  imports Qiran_Prelude
begin

section \<open>Tables of registered functions\<close>

text \<open>
  Several modules keep a table of functions registered by others and, at some point, call the entries
  in the order of the table, noting what each returned in their own state. What the calls do to the
  rest of the state and what the loop notes are independent as long as the registered functions
  have no access to the module's own state. This is that contract, and the loop lemma for it.
\<close>

text \<open>Calling a list of functions one after the other, whatever each returns.\<close>

fun call_all :: "('w \<Rightarrow> 'r \<times> 'w) list \<Rightarrow> 'w \<Rightarrow> 'r list \<times> 'w" where
  "call_all [] w = ([], w)"
| "call_all (f # fs) w = (let (r, w) = f w; (rs, w) = call_all fs w in (r # rs, w))"

lemma call_all_length [simp]: "length (fst (call_all fs w)) = length fs"
  by (induction fs arbitrary: w) (simp_all add: split_beta Let_def)

lemma call_all_append:
  "call_all (fs @ gs) w =
    (fst (call_all fs w) @ fst (call_all gs (snd (call_all fs w))), snd (call_all gs (snd (call_all fs w))))"
  by (induction fs arbitrary: w) (simp_all add: split_beta Let_def)

text \<open>The used part of a table, and the turns of a loop over all of it that reach an entry.\<close>

lemma take_table: "n \<le> length xs \<Longrightarrow> take n xs = map ((!) xs) [0..<n]"
  by (rule nth_equalityI) simp_all

lemma filter_used: "n \<le> m \<Longrightarrow> filter (\<lambda>i. i < n) [0..<m] = [0..<n]"
  by (rule sorted_distinct_set_unique) (auto simp: sorted_wrt_filter)

lemma fold_zip_table: "fold (\<lambda>(e, r). g e r) (zip (map f ks) rs) s = fold (\<lambda>(i, r). g (f i) r) (zip ks rs) s"
  by (induction ks rs arbitrary: s rule: list_induct2') simp_all

text \<open>A state \<open>'w\<close> of which \<open>'s\<close> is the module's own part.\<close>

locale own_state =
  fixes own :: "'w \<Rightarrow> 's" and put :: "'s \<Rightarrow> 'w \<Rightarrow> 'w"
  assumes own_put: "own (put s w) = s"
    and put_put: "put s (put t w) = put s w"
    and put_own: "put (own w) w = w"
begin

definition leaves :: "('w \<Rightarrow> 'r \<times> 'w) \<Rightarrow> bool" where
  "leaves f \<longleftrightarrow> (\<forall>s w. f (put s w) = (fst (f w), put s (snd (f w))))"

lemma leaves_own:
  assumes "leaves f"
  shows "own (snd (f w)) = own w"
proof -
  have "f w = f (put (own w) w)" by (simp only: put_own)
  also have "\<dots> = (fst (f w), put (own w) (snd (f w)))" using assms by (simp only: leaves_def)
  finally have "snd (f w) = put (own w) (snd (f w))" by (metis snd_conv)
  then show ?thesis using own_put by metis
qed

lemma leaves_calls:
  assumes "\<forall>f \<in> set fs. leaves f"
  shows "call_all fs (put s w) = (fst (call_all fs w), put s (snd (call_all fs w)))"
  using assms
proof (induction fs arbitrary: w)
  case (Cons f fs)
  obtain r v where v: "f w = (r, v)" by (rule prod.exhaust)
  then have "f (put s w) = (r, put s v)" using Cons.prems by (simp add: leaves_def)
  then show ?case using Cons.IH [of v] Cons.prems by (simp add: v split_beta Let_def)
qed simp

lemma calls_own: "\<forall>f \<in> set fs. leaves f \<Longrightarrow> own (snd (call_all fs w)) = own w"
  by (rule leaves_own) (simp add: leaves_def leaves_calls)

text \<open>The loop: entries for which \<open>due\<close> does not hold are passed over, the others are called, and
  after each call the accumulator and the own state are updated. What the loop reads of the own
  state (\<open>tbl\<close>) does not change in it.\<close>

lemma table_loop:
  assumes call: "\<And>i. i \<in> set is \<Longrightarrow> due i \<Longrightarrow> leaves (call i)"
    and step: "\<And>i acc w. i \<in> set is \<Longrightarrow> tbl (own w) = t \<Longrightarrow> step i (acc, w) =
      (if due i then (acc_of i (fst (call i w)) acc,
         put (own_of i (fst (call i w)) (own w)) (snd (call i w))) else (acc, w))"
    and tbl: "\<And>i r s. tbl (own_of i r s) = tbl s"
    and start: "tbl (own w) = t"
  defines "ks \<equiv> filter due is"
  defines "c \<equiv> call_all (map call ks) w"
  shows "fold step is (acc, w) =
    (fold (\<lambda>(i, r). acc_of i r) (zip ks (fst c)) acc,
     put (fold (\<lambda>(i, r). own_of i r) (zip ks (fst c)) (own w)) (snd c))"
  using call step start unfolding c_def ks_def
proof (induction "is" arbitrary: acc w)
  case Nil
  then show ?case by (simp add: put_own)
next
  case (Cons i js)
  note IH = Cons.IH [OF Cons.prems(1) Cons.prems(2)]
  show ?case
  proof (cases "due i")
    case False
    then have "step i (acc, w) = (acc, w)" using Cons.prems(2) [of i w acc] Cons.prems(3) by simp
    then show ?thesis using IH [of w acc] Cons.prems(3) False by simp
  next
    case True
    obtain r v where v: "call i w = (r, v)" by (rule prod.exhaust)
    let ?s = "own_of i r (own w)"
    have "step i (acc, w) = (acc_of i r acc, put ?s v)"
      using Cons.prems(2) [of i w acc] Cons.prems(3) True v by simp
    moreover have "tbl (own (put ?s v)) = t" by (simp add: own_put tbl Cons.prems(3))
    moreover have "\<forall>f \<in> set (map call (filter due js)). leaves f" using Cons.prems(1) by auto
    ultimately show ?thesis
      using IH [of "put ?s v" "acc_of i r acc"] True
      by (simp add: v leaves_calls own_put put_put split_beta Let_def)
  qed
qed

end

end
