(* ===== verification/Plat_Safe_Outputs.thy ===== *)
theory Plat_Safe_Outputs
  imports Plat_Timer Callback_Table
begin

section \<open>Safe outputs: \<^verbatim>\<open>src/plat/plat_safe_outputs.c\<close>\<close>

text \<open>
  The table of actions that drive an actuator to its safe default, registered by the owners of the
  drive paths and applied together. The actions are code from outside, so applying them takes their
  interpretation \<open>act\<close>. The table is the array with its count; a null name or action is \<^term>\<open>None\<close>.
\<close>

definition PLAT_SAFE_OUTPUT_MAX :: u32 where "PLAT_SAFE_OUTPUT_MAX = 16"

record safe_entry =
  sa_name :: string
  sa_action :: handle

record safe_state =
  sf_entry :: "safe_entry list"
  sf_count :: u32
  sf_failures :: u32
  sf_applications :: u32
  sf_last_failure :: "string option"

record safe_world = timer_world +
  w_safe :: safe_state

type_synonym 'w safe_actions = "handle \<Rightarrow> 'w \<Rightarrow> qiran_status \<times> 'w"

definition safe_upd :: "(safe_state \<Rightarrow> safe_state) \<Rightarrow> 'a safe_world_scheme \<Rightarrow> 'a safe_world_scheme" where
  "safe_upd f w = w\<lparr>w_safe := f (w_safe w)\<rparr>"

definition plat_safe_outputs_register ::
  "string option \<Rightarrow> handle option \<Rightarrow> 'a safe_world_scheme \<Rightarrow> qiran_status \<times> 'a safe_world_scheme" where
  "plat_safe_outputs_register name action w =
    (if name = None \<or> action = None then (QIRAN_ERR_PARAM, w)
     else if PLAT_SAFE_OUTPUT_MAX \<le> sf_count (w_safe w) then (QIRAN_ERR_RANGE, w)
     else (QIRAN_OK, safe_upd (\<lambda>s. s\<lparr>sf_entry := (sf_entry s)[unat (sf_count s) :=
               \<lparr>sa_name = the name, sa_action = the action\<rparr>], sf_count := sf_count s + 1\<rparr>) w))"

text \<open>One turn of the loop over the table. The count is read on every turn.\<close>

definition safe_apply_one ::
  "'a safe_world_scheme safe_actions \<Rightarrow> nat \<Rightarrow> qiran_status \<times> 'a safe_world_scheme \<Rightarrow>
   qiran_status \<times> 'a safe_world_scheme" where
  "safe_apply_one act i = (\<lambda>(result, w).
    if unat (sf_count (w_safe w)) \<le> i then (result, w)
    else (let (st, w) = act (sa_action (sf_entry (w_safe w) ! i)) w
          in if st \<noteq> QIRAN_OK
             then (QIRAN_ERR_HARDWARE, safe_upd (\<lambda>s. s\<lparr>sf_failures := sf_failures s + 1,
                     sf_last_failure := Some (sa_name (sf_entry s ! i))\<rparr>) w)
             else (result, w)))"

definition plat_safe_outputs_apply ::
  "'a safe_world_scheme safe_actions \<Rightarrow> 'a safe_world_scheme \<Rightarrow> qiran_status \<times> 'a safe_world_scheme" where
  "plat_safe_outputs_apply act w =
    (let w = safe_upd (\<lambda>s. s\<lparr>sf_applications := sf_applications s + 1\<rparr>) w
     in if sf_count (w_safe w) = 0 then (QIRAN_ERR_STATE, w)
        else fold (safe_apply_one act) [0..<unat PLAT_SAFE_OUTPUT_MAX] (QIRAN_OK, w))"

definition plat_safe_outputs_registered :: "'a safe_world_scheme \<Rightarrow> u32" where
  "plat_safe_outputs_registered w = sf_count (w_safe w)"

definition plat_safe_outputs_failures :: "'a safe_world_scheme \<Rightarrow> u32" where
  "plat_safe_outputs_failures w = sf_failures (w_safe w)"

definition plat_safe_outputs_applications :: "'a safe_world_scheme \<Rightarrow> u32" where
  "plat_safe_outputs_applications w = sf_applications (w_safe w)"

definition plat_safe_outputs_last_failure :: "'a safe_world_scheme \<Rightarrow> string" where
  "plat_safe_outputs_last_failure w =
    (case sf_last_failure (w_safe w) of None \<Rightarrow> [] | Some name \<Rightarrow> name)"

definition plat_safe_outputs_reset_registry :: "'a safe_world_scheme \<Rightarrow> 'a safe_world_scheme" where
  "plat_safe_outputs_reset_registry =
    safe_upd (\<lambda>s. s\<lparr>sf_count := 0, sf_failures := 0, sf_applications := 0, sf_last_failure := None\<rparr>)"

subsection \<open>What applying the table does\<close>

interpretation safe: own_state w_safe "\<lambda>s w. w\<lparr>w_safe := s\<rparr>"
  by unfold_locales simp_all

text \<open>The registered actions have no access to the table: they do the same whatever it holds.\<close>

definition safe_actions_ok :: "'a safe_world_scheme safe_actions \<Rightarrow> bool" where
  "safe_actions_ok act \<longleftrightarrow> (\<forall>h. safe.leaves (act h))"

definition safe_entries :: "'a safe_world_scheme \<Rightarrow> safe_entry list" where
  "safe_entries w = take (unat (sf_count (w_safe w))) (sf_entry (w_safe w))"

definition safe_ok :: "'a safe_world_scheme \<Rightarrow> bool" where
  "safe_ok w \<longleftrightarrow> length (sf_entry (w_safe w)) = 16 \<and> sf_count (w_safe w) \<le> PLAT_SAFE_OUTPUT_MAX"

abbreviation safe_calls :: "'a safe_world_scheme safe_actions \<Rightarrow> safe_entry list \<Rightarrow>
  ('a safe_world_scheme \<Rightarrow> qiran_status \<times> 'a safe_world_scheme) list" where
  "safe_calls act es \<equiv> map (\<lambda>e. act (sa_action e)) es"

text \<open>The table after the outcome of one entry.\<close>

definition safe_note :: "safe_entry \<Rightarrow> qiran_status \<Rightarrow> safe_state \<Rightarrow> safe_state" where
  "safe_note e st s = (if st = QIRAN_OK then s
     else s\<lparr>sf_failures := sf_failures s + 1, sf_last_failure := Some (sa_name e)\<rparr>)"

lemma safe_loop:
  assumes "safe_actions_ok act" "safe_ok w"
  defines "es \<equiv> safe_entries w"
  defines "c \<equiv> call_all (safe_calls act es) w"
  shows "fold (safe_apply_one act) [0..<16] (QIRAN_OK, w) =
    (if \<forall>st \<in> set (fst c). st = QIRAN_OK then QIRAN_OK else QIRAN_ERR_HARDWARE,
     (snd c)\<lparr>w_safe := fold (\<lambda>(e, st). safe_note e st) (zip es (fst c)) (w_safe w)\<rparr>)"
proof -
  let ?es = "sf_entry (w_safe w)" and ?n = "unat (sf_count (w_safe w))"
  have n: "length ?es = 16" "?n \<le> 16"
    using assms(2) by (simp_all add: safe_ok_def PLAT_SAFE_OUTPUT_MAX_def word_le_nat_alt)
  have es: "es = map ((!) ?es) [0..<?n]" using n by (simp add: es_def safe_entries_def take_table)
  have call: "map (\<lambda>i. act (sa_action (?es ! i))) [0..<?n] = safe_calls act es" by (simp add: es)
  have acc: "fold (\<lambda>(i, st) r. if st = QIRAN_OK then r else QIRAN_ERR_HARDWARE) (zip ks rs) r =
      (if \<forall>st \<in> set rs. st = QIRAN_OK then r else QIRAN_ERR_HARDWARE)"
    if "length rs = length ks" for ks :: "nat list" and rs r
    using that by (induction ks rs arbitrary: r rule: list_induct2') auto
  have "fold (safe_apply_one act) [0..<16] (QIRAN_OK, w) =
    (fold (\<lambda>(i, st) r. if st = QIRAN_OK then r else QIRAN_ERR_HARDWARE) (zip [0..<?n] (fst c)) QIRAN_OK,
     (snd c)\<lparr>w_safe := fold (\<lambda>(i, st). safe_note (?es ! i) st) (zip [0..<?n] (fst c)) (w_safe w)\<rparr>)"
    unfolding c_def call [symmetric] filter_used [OF n(2), symmetric]
    by (rule safe.table_loop [where tbl = "\<lambda>s. (sf_entry s, sf_count s)" and t = "(?es, sf_count (w_safe w))"])
      (use assms(1) in \<open>auto simp: safe_actions_ok_def safe_apply_one_def safe_note_def safe_upd_def split_beta Let_def
        safe.leaves_own\<close>)
  then show ?thesis by (simp add: acc es fold_zip_table c_def)
qed

text \<open>Applying the table keeps what the actions keep.\<close>

lemma safe_apply_keeps:
  assumes "\<And>h w. obs (snd (act h w)) = obs w" "\<And>f w. obs (safe_upd f w) = obs w"
  shows "obs (snd (plat_safe_outputs_apply act w)) = obs w"
proof -
  have one: "obs (snd (safe_apply_one act i r)) = obs (snd r)" for i r
    by (simp add: safe_apply_one_def split_beta Let_def assms)
  have "obs (snd (fold (safe_apply_one act) is r)) = obs (snd r)" for "is" r
    by (induction "is" arbitrary: r) (simp_all add: one)
  then show ?thesis by (simp add: plat_safe_outputs_apply_def Let_def assms(2))
qed

subsection \<open>Properties\<close>

text \<open>Every registered action is run, in the order of registration and whatever the others
  returned: the outputs are asserted safe only if there is at least one action and all of them
  succeed, an empty table is an error and not a success, and the failures are counted one by one.\<close>

theorem safe_outputs_apply_all:
  fixes w :: "'a safe_world_scheme"
  assumes "safe_actions_ok act" "safe_ok w"
  defines "es \<equiv> safe_entries w"
  defines "w1 \<equiv> safe_upd (\<lambda>s. s\<lparr>sf_applications := sf_applications s + 1\<rparr>) w"
  defines "c \<equiv> call_all (safe_calls act es) w1"
  defines "s \<equiv> fold (\<lambda>(e, st). safe_note e st) (zip es (fst c)) (w_safe w1)"
  shows "plat_safe_outputs_apply act w =
    (if es = [] then QIRAN_ERR_STATE else if \<forall>st \<in> set (fst c). st = QIRAN_OK then QIRAN_OK else QIRAN_ERR_HARDWARE,
     (snd c)\<lparr>w_safe := s\<rparr>) \<and>
    length (fst c) = length es \<and>
    sf_failures s = sf_failures (w_safe w) + of_nat (length (filter (\<lambda>st. st \<noteq> QIRAN_OK) (fst c)))"
proof -
  have w1: "safe_ok w1" "safe_entries w1 = es" "sf_failures (w_safe w1) = sf_failures (w_safe w)"
    using assms(2) by (simp_all add: w1_def es_def safe_upd_def safe_ok_def safe_entries_def)
  have empty: "sf_count (w_safe w1) = 0 \<longleftrightarrow> es = []"
    using w1 by (auto simp: safe_entries_def safe_ok_def unat_eq_0)
  have noted: "sf_failures (fold (\<lambda>(e, st). safe_note e st) (zip xs sts) s) =
      sf_failures s + of_nat (length (filter (\<lambda>st. st \<noteq> QIRAN_OK) sts))" if "length sts = length xs" for xs sts s
    using that by (induction xs sts arbitrary: s rule: list_induct2') (simp_all add: safe_note_def)
  have "plat_safe_outputs_apply act w =
    (if es = [] then QIRAN_ERR_STATE else if \<forall>st \<in> set (fst c). st = QIRAN_OK then QIRAN_OK else QIRAN_ERR_HARDWARE,
     (snd c)\<lparr>w_safe := s\<rparr>)"
    unfolding plat_safe_outputs_apply_def w1_def [symmetric] Let_def empty s_def
    using safe_loop [OF assms(1) w1(1)] by (simp add: PLAT_SAFE_OUTPUT_MAX_def w1(2) c_def)
  then show ?thesis using noted [of "fst c" es "w_safe w1"] w1(3) by (simp add: s_def c_def)
qed

text \<open>Three drive paths, the second broken: the third is still driven to its default.\<close>

definition safe_act0 :: "safe_world safe_actions" where
  "safe_act0 h w = (if h = 7 then QIRAN_ERR_TIMEOUT else QIRAN_OK,
     w\<lparr>w_gic := (w_gic w)\<lparr>gc_enabled := (gc_enabled (w_gic w))(of_nat h := False)\<rparr>\<rparr>)"

theorem safe_outputs_apply_all_witness:
  "\<forall>w :: safe_world. let e = \<lambda>n h. \<lparr>sa_name = n, sa_action = h\<rparr>;
      v = w\<lparr>w_safe := \<lparr>sf_entry = [e ''laser'' 5, e ''tec'' 7, e ''heater'' 9] @ replicate 13 (e [] 0), sf_count = 3,
        sf_failures = 0, sf_applications = 0, sf_last_failure = None\<rparr>\<rparr>;
      (st, u) = plat_safe_outputs_apply safe_act0 v
    in st = QIRAN_ERR_HARDWARE \<and> \<not> gc_enabled (w_gic u) 9 \<and> plat_safe_outputs_last_failure u = ''tec''"
proof
  fix w :: safe_world
  let ?e = "\<lambda>n h. \<lparr>sa_name = n, sa_action = h\<rparr>"
  define v where "v = w\<lparr>w_safe := \<lparr>sf_entry = [?e ''laser'' 5, ?e ''tec'' 7, ?e ''heater'' 9] @ replicate 13 (?e [] 0),
    sf_count = 3, sf_failures = 0, sf_applications = 0, sf_last_failure = None\<rparr>\<rparr>"
  have ok: "safe_actions_ok safe_act0" by (simp add: safe_actions_ok_def safe.leaves_def safe_act0_def)
  have v: "safe_ok v" "safe_entries v = [?e ''laser'' 5, ?e ''tec'' 7, ?e ''heater'' 9]"
    by (simp_all add: v_def safe_ok_def safe_entries_def PLAT_SAFE_OUTPUT_MAX_def)
  show "let e = ?e; v = w\<lparr>w_safe := \<lparr>sf_entry = [e ''laser'' 5, e ''tec'' 7, e ''heater'' 9] @ replicate 13 (e [] 0),
        sf_count = 3, sf_failures = 0, sf_applications = 0, sf_last_failure = None\<rparr>\<rparr>;
      (st, u) = plat_safe_outputs_apply safe_act0 v
    in st = QIRAN_ERR_HARDWARE \<and> \<not> gc_enabled (w_gic u) 9 \<and> plat_safe_outputs_last_failure u = ''tec''"
    unfolding Let_def v_def [symmetric] safe_outputs_apply_all [OF ok v(1), THEN conjunct1]
    by (simp add: v(2) safe_act0_def safe_note_def plat_safe_outputs_last_failure_def Let_def)
qed

end
