(* ===== verification/Plat_Devinit.thy ===== *)
theory Plat_Devinit
  imports Plat_Safe_Outputs
begin

section \<open>Device initialisation: \<^verbatim>\<open>src/plat/plat_devinit.c\<close>\<close>

text \<open>
  The table of device initialisers in four ordered stages, and the results of running them. The
  initialisers are registered from outside and interpreted by the argument \<open>init\<close>. Tables are the
  arrays with their count; a null name or function is \<^term>\<open>None\<close>, and
  \<^verbatim>\<open>PLAT_DEVINIT_STAGE_COUNT\<close> stands for every stage out of range.
\<close>

definition PLAT_DEVINIT_MAX :: u32 where "PLAT_DEVINIT_MAX = 32"

datatype plat_devinit_stage =
    PLAT_DEVINIT_BUS | PLAT_DEVINIT_DEVICE | PLAT_DEVINIT_BOARD | PLAT_DEVINIT_LINK
  | PLAT_DEVINIT_STAGE_COUNT

definition devinit_stages :: "plat_devinit_stage list" where
  "devinit_stages = [PLAT_DEVINIT_BUS, PLAT_DEVINIT_DEVICE, PLAT_DEVINIT_BOARD, PLAT_DEVINIT_LINK]"

record devinit_entry =
  de_name :: string
  de_stage :: plat_devinit_stage
  de_fn :: handle
  de_required :: bool

record plat_devinit_result =
  dv_name :: "string option"
  dv_stage :: plat_devinit_stage
  dv_result :: qiran_status
  dv_required :: bool
  dv_ran :: bool

record devinit_state =
  di_entry :: "devinit_entry list"
  di_result :: "plat_devinit_result list"
  di_count :: u32
  di_failures :: u32
  di_first_failure :: "string option"

record devinit_world = safe_world +
  w_devinit :: devinit_state

type_synonym 'w devinit_fns = "handle \<Rightarrow> 'w \<Rightarrow> qiran_status \<times> 'w"

definition devinit_upd :: "(devinit_state \<Rightarrow> devinit_state) \<Rightarrow> 'a devinit_world_scheme \<Rightarrow> 'a devinit_world_scheme" where
  "devinit_upd f w = w\<lparr>w_devinit := f (w_devinit w)\<rparr>"

definition plat_devinit_init :: "'a devinit_world_scheme \<Rightarrow> 'a devinit_world_scheme" where
  "plat_devinit_init = devinit_upd (\<lambda>s. s\<lparr>di_count := 0, di_failures := 0, di_first_failure := None\<rparr>)"

definition plat_devinit_register ::
  "string option \<Rightarrow> plat_devinit_stage \<Rightarrow> handle option \<Rightarrow> bool \<Rightarrow> 'a devinit_world_scheme \<Rightarrow>
   qiran_status \<times> 'a devinit_world_scheme" where
  "plat_devinit_register name stage fn required w =
    (if name = None \<or> fn = None \<or> stage = PLAT_DEVINIT_STAGE_COUNT then (QIRAN_ERR_PARAM, w)
     else if PLAT_DEVINIT_MAX \<le> di_count (w_devinit w) then (QIRAN_ERR_RANGE, w)
     else (QIRAN_OK, devinit_upd (\<lambda>s. s\<lparr>di_entry := (di_entry s)[unat (di_count s) :=
               \<lparr>de_name = the name, de_stage = stage, de_fn = the fn, de_required = required\<rparr>],
             di_count := di_count s + 1\<rparr>) w))"

text \<open>What is noted of one initialiser that ran.\<close>

definition devinit_note :: "plat_devinit_stage \<Rightarrow> nat \<Rightarrow> qiran_status \<Rightarrow> devinit_state \<Rightarrow> devinit_state" where
  "devinit_note stage i st s =
    (let e = di_entry s ! i;
         s = s\<lparr>di_result := (di_result s)[i := \<lparr>dv_name = Some (de_name e), dv_stage = stage,
               dv_result = st, dv_required = de_required e, dv_ran = True\<rparr>]\<rparr>
     in if st \<noteq> QIRAN_OK
        then (let s = s\<lparr>di_failures := di_failures s + 1\<rparr>
              in if di_first_failure s = None then s\<lparr>di_first_failure := Some (de_name e)\<rparr> else s)
        else s)"

text \<open>One turn of the loop of \<^verbatim>\<open>plat_devinit_run_stage\<close>.\<close>

definition devinit_one ::
  "'a devinit_world_scheme devinit_fns \<Rightarrow> plat_devinit_stage \<Rightarrow> nat \<Rightarrow>
   qiran_status \<times> 'a devinit_world_scheme \<Rightarrow> qiran_status \<times> 'a devinit_world_scheme" where
  "devinit_one init stage i = (\<lambda>(overall, w).
    if unat (di_count (w_devinit w)) \<le> i then (overall, w)
    else if de_stage (di_entry (w_devinit w) ! i) \<noteq> stage then (overall, w)
    else (let (st, w) = init (de_fn (di_entry (w_devinit w) ! i)) w;
              w = devinit_upd (devinit_note stage i st) w
          in (if st \<noteq> QIRAN_OK \<and> de_required (di_entry (w_devinit w) ! i) then st else overall, w)))"

definition plat_devinit_run_stage ::
  "'a devinit_world_scheme devinit_fns \<Rightarrow> plat_devinit_stage \<Rightarrow> 'a devinit_world_scheme \<Rightarrow>
   qiran_status \<times> 'a devinit_world_scheme" where
  "plat_devinit_run_stage init stage w =
    (if stage = PLAT_DEVINIT_STAGE_COUNT then (QIRAN_ERR_PARAM, w)
     else fold (devinit_one init stage) [0..<unat PLAT_DEVINIT_MAX] (QIRAN_OK, w))"

text \<open>The loop over the stages, left at the first that fails.\<close>

fun devinit_run_stages ::
  "'a devinit_world_scheme devinit_fns \<Rightarrow> plat_devinit_stage list \<Rightarrow> 'a devinit_world_scheme \<Rightarrow>
   qiran_status \<times> 'a devinit_world_scheme" where
  "devinit_run_stages init [] w = (QIRAN_OK, w)"
| "devinit_run_stages init (stage # stages) w =
     (let (st, w) = plat_devinit_run_stage init stage w
      in if st \<noteq> QIRAN_OK then (st, w) else devinit_run_stages init stages w)"

definition plat_devinit_run ::
  "'a devinit_world_scheme devinit_fns \<Rightarrow> 'a devinit_world_scheme \<Rightarrow> qiran_status \<times> 'a devinit_world_scheme" where
  "plat_devinit_run init w =
    devinit_run_stages init devinit_stages (devinit_upd (\<lambda>s. s\<lparr>di_failures := 0, di_first_failure := None\<rparr>) w)"

definition plat_devinit_count :: "'a devinit_world_scheme \<Rightarrow> u32" where
  "plat_devinit_count w = di_count (w_devinit w)"

definition plat_devinit_failures :: "'a devinit_world_scheme \<Rightarrow> u32" where
  "plat_devinit_failures w = di_failures (w_devinit w)"

text \<open>The caller gives a place for the result; \<^term>\<open>None\<close> is the answer \<^verbatim>\<open>false\<close>.\<close>

definition plat_devinit_result_get :: "u32 \<Rightarrow> 'a devinit_world_scheme \<Rightarrow> plat_devinit_result option" where
  "plat_devinit_result_get i w =
    (if di_count (w_devinit w) \<le> i then None else Some (di_result (w_devinit w) ! unat i))"

definition plat_devinit_first_failure :: "'a devinit_world_scheme \<Rightarrow> string" where
  "plat_devinit_first_failure w = (case di_first_failure (w_devinit w) of None \<Rightarrow> [] | Some name \<Rightarrow> name)"

subsection \<open>One stage\<close>

interpretation devinit: own_state w_devinit "\<lambda>s w. w\<lparr>w_devinit := s\<rparr>"
  by unfold_locales simp_all

definition devinit_fns_ok :: "'a devinit_world_scheme devinit_fns \<Rightarrow> bool" where
  "devinit_fns_ok init \<longleftrightarrow> (\<forall>h. devinit.leaves (init h))"

definition devinit_entries :: "'a devinit_world_scheme \<Rightarrow> devinit_entry list" where
  "devinit_entries w = take (unat (di_count (w_devinit w))) (di_entry (w_devinit w))"

text \<open>The tables have the declared sizes, every registered entry names a stage that is run, and a
  result that is marked as run is that of the entry at its index.\<close>

definition devinit_typed :: "devinit_state \<Rightarrow> bool" where
  "devinit_typed s \<longleftrightarrow> length (di_entry s) = 32 \<and> length (di_result s) = 32 \<and> di_count s \<le> PLAT_DEVINIT_MAX \<and>
     (\<forall>i < unat (di_count s). de_stage (di_entry s ! i) \<in> set devinit_stages) \<and>
     (\<forall>i < 32. dv_ran (di_result s ! i) \<longrightarrow> i < unat (di_count s) \<and>
        dv_name (di_result s ! i) = Some (de_name (di_entry s ! i)) \<and>
        dv_stage (di_result s ! i) = de_stage (di_entry s ! i) \<and>
        dv_required (di_result s ! i) = de_required (di_entry s ! i))"

text \<open>The indices of the entries of a stage, and the calls and outcomes of a list of entries.\<close>

definition stage_entries :: "plat_devinit_stage \<Rightarrow> devinit_state \<Rightarrow> nat list" where
  "stage_entries stage s = filter (\<lambda>i. de_stage (di_entry s ! i) = stage) [0..<unat (di_count s)]"

abbreviation devinit_calls :: "'a devinit_world_scheme devinit_fns \<Rightarrow> devinit_state \<Rightarrow> nat list \<Rightarrow>
  ('a devinit_world_scheme \<Rightarrow> qiran_status \<times> 'a devinit_world_scheme) list" where
  "devinit_calls init s ks \<equiv> map (\<lambda>i. init (de_fn (di_entry s ! i))) ks"

definition devinit_failed :: "devinit_state \<Rightarrow> (nat \<times> qiran_status) list \<Rightarrow> qiran_status list" where
  "devinit_failed s outs = map snd (filter (\<lambda>(i, st). st \<noteq> QIRAN_OK \<and> de_required (di_entry s ! i)) outs)"

definition devinit_noted :: "devinit_state \<Rightarrow> (nat \<times> qiran_status) list \<Rightarrow> devinit_state" where
  "devinit_noted s outs = fold (\<lambda>(i, st) t. devinit_note (de_stage (di_entry s ! i)) i st t) outs s"

lemma devinit_note_keeps [simp]:
  "di_entry (devinit_note g i st s) = di_entry s" "di_count (devinit_note g i st s) = di_count s"
  by (simp_all add: devinit_note_def Let_def)

lemma devinit_noted_keeps [simp]:
  "di_entry (fold (\<lambda>(i, st) t. devinit_note (f i) i st t) outs s) = di_entry s"
  "di_count (fold (\<lambda>(i, st) t. devinit_note (f i) i st t) outs s) = di_count s"
  by (induction outs arbitrary: s) (simp_all add: split_beta)

lemma fold_last_failed:
  "length rs = length ks \<Longrightarrow>
   fold (\<lambda>(i, st) overall. if st \<noteq> QIRAN_OK \<and> de_required (di_entry s ! i) then st else overall) (zip ks rs) r =
    (if devinit_failed s (zip ks rs) = [] then r else last (devinit_failed s (zip ks rs)))"
  by (induction ks rs arbitrary: r rule: list_induct2') (auto simp: devinit_failed_def)

lemma devinit_stage_loop:
  assumes "devinit_fns_ok init" "devinit_typed (w_devinit w)" "stage \<in> set devinit_stages"
  defines "ks \<equiv> stage_entries stage (w_devinit w)"
  defines "c \<equiv> call_all (devinit_calls init (w_devinit w) ks) w"
  defines "failed \<equiv> devinit_failed (w_devinit w) (zip ks (fst c))"
  shows "plat_devinit_run_stage init stage w =
    (if failed = [] then QIRAN_OK else last failed,
     (snd c)\<lparr>w_devinit := devinit_noted (w_devinit w) (zip ks (fst c))\<rparr>)"
proof -
  let ?s = "w_devinit w"
  have n: "unat (di_count ?s) \<le> 32"
    using assms(2) by (simp add: devinit_typed_def PLAT_DEVINIT_MAX_def word_le_nat_alt)
  have ks: "ks = filter (\<lambda>i. i < unat (di_count ?s) \<and> de_stage (di_entry ?s ! i) = stage) [0..<32]"
    unfolding ks_def stage_entries_def filter_used [OF n, symmetric] filter_filter by (simp add: conj_commute)
  have "fold (devinit_one init stage) [0..<32] (QIRAN_OK, w) =
    (fold (\<lambda>(i, st) overall. if st \<noteq> QIRAN_OK \<and> de_required (di_entry ?s ! i) then st else overall) (zip ks (fst c)) QIRAN_OK,
     (snd c)\<lparr>w_devinit := fold (\<lambda>(i, st). devinit_note stage i st) (zip ks (fst c)) ?s\<rparr>)"
    unfolding c_def ks
    by (rule devinit.table_loop [where tbl = "\<lambda>s. (di_entry s, di_count s)" and t = "(di_entry ?s, di_count ?s)"])
      (use assms(1) in \<open>auto simp: devinit_fns_ok_def devinit_one_def devinit_upd_def split_beta Let_def
        devinit.leaves_own\<close>)
  moreover have "fold (\<lambda>(i, st). devinit_note stage i st) (zip ks (fst c)) ?s = devinit_noted ?s (zip ks (fst c))"
    unfolding devinit_noted_def
    by (rule fold_cong) (auto simp: ks_def stage_entries_def dest!: set_zip_leftD)
  moreover have "stage \<noteq> PLAT_DEVINIT_STAGE_COUNT" using assms(3) by (auto simp: devinit_stages_def)
  ultimately show ?thesis
    by (simp add: plat_devinit_run_stage_def PLAT_DEVINIT_MAX_def failed_def fold_last_failed c_def)
qed

text \<open>Running the table keeps what the initialisers keep.\<close>

lemma devinit_run_keeps:
  assumes "\<And>h w. obs (snd (init h w)) = obs w" "\<And>f w. obs (devinit_upd f w) = obs w"
  shows "obs (snd (plat_devinit_run init w)) = obs w"
proof -
  have one: "obs (snd (devinit_one init g i r)) = obs (snd r)" for g i r
    by (simp add: devinit_one_def split_beta Let_def assms)
  have "obs (snd (fold (devinit_one init g) is r)) = obs (snd r)" for g "is" r
    by (induction "is" arbitrary: r) (simp_all add: one)
  then have stage: "obs (snd (plat_devinit_run_stage init g w)) = obs w" for g w
    by (simp add: plat_devinit_run_stage_def)
  have "obs (snd (devinit_run_stages init gs w)) = obs w" for gs w
    by (induction gs arbitrary: w) (simp_all add: split_beta Let_def stage)
  then show ?thesis by (simp add: plat_devinit_run_def assms(2))
qed

subsection \<open>The stages in order\<close>

lemma devinit_static:
  "devinit_failed (devinit_noted s outs) = devinit_failed s"
  "stage_entries g (devinit_noted s outs) = stage_entries g s"
  "devinit_calls init (devinit_noted s outs) ks = devinit_calls init s ks"
  by (simp_all add: devinit_failed_def [abs_def] stage_entries_def devinit_noted_def)

lemma devinit_noted_same [simp]:
  "di_entry (devinit_noted s outs) = di_entry s" "di_count (devinit_noted s outs) = di_count s"
  by (simp_all add: devinit_noted_def)

lemma devinit_noted_append:
  "devinit_noted s (xs @ ys) = devinit_noted (devinit_noted s xs) ys"
  unfolding devinit_noted_def by simp

lemma devinit_note_typed:
  assumes "devinit_typed s" "i < unat (di_count s)" "stage = de_stage (di_entry s ! i)"
  shows "devinit_typed (devinit_note stage i st s)"
proof -
  have "i < length (di_result s)"
    using assms(1,2) by (simp add: devinit_typed_def PLAT_DEVINIT_MAX_def word_le_nat_alt)
  then show ?thesis
    using assms by (auto simp: devinit_typed_def devinit_note_def Let_def nth_list_update)
qed

lemma devinit_noted_typed:
  assumes "devinit_typed s" "\<forall>(i, st) \<in> set outs. i < unat (di_count s)"
  shows "devinit_typed (devinit_noted s outs)"
proof -
  have "devinit_typed (fold (\<lambda>(i, st) t. devinit_note (de_stage (di_entry s ! i)) i st t) outs t)"
    if "devinit_typed t" "di_entry t = di_entry s" "di_count t = di_count s" for t
    using that assms(2)
  proof (induction outs arbitrary: t)
    case (Cons x outs)
    obtain i st where o: "x = (i, st)" by (rule prod.exhaust)
    have "devinit_typed (devinit_note (de_stage (di_entry s ! i)) i st t)"
      using Cons.prems o by (intro devinit_note_typed) simp_all
    then show ?case using Cons o by simp
  qed simp
  then show ?thesis using assms(1) by (simp add: devinit_noted_def)
qed

lemma devinit_outs_used:
  "\<forall>(i, st) \<in> set (zip (stage_entries g s) rs). i < unat (di_count s)"
  by (auto simp: stage_entries_def dest!: set_zip_leftD)

text \<open>The indices called when the first of some stages are begun.\<close>

definition stages_entries :: "plat_devinit_stage list \<Rightarrow> devinit_state \<Rightarrow> nat list" where
  "stages_entries gs s = concat (map (\<lambda>g. stage_entries g s) gs)"

definition devinit_ran :: "'a devinit_world_scheme devinit_fns \<Rightarrow> plat_devinit_stage list \<Rightarrow> nat \<Rightarrow>
    'a devinit_world_scheme \<Rightarrow> qiran_status \<times> 'a devinit_world_scheme \<Rightarrow> bool" where
  "devinit_ran init gs k w r \<longleftrightarrow>
    (let s = w_devinit w; ks = stages_entries (take k gs) s; (sts, u) = call_all (devinit_calls init s ks) w;
         failed = devinit_failed s (zip ks sts)
     in r = (if failed = [] then QIRAN_OK else last failed, u\<lparr>w_devinit := devinit_noted s (zip ks sts)\<rparr>) \<and>
        (failed = [] \<longrightarrow> k = length gs) \<and> (failed \<noteq> [] \<longrightarrow> 0 < k) \<and>
        (\<forall>(i, st) \<in> set (zip ks sts). st \<noteq> QIRAN_OK \<longrightarrow> de_required (di_entry s ! i) \<longrightarrow>
           de_stage (di_entry s ! i) = gs ! (k - 1)))"

lemma devinit_failed_append: "devinit_failed s (xs @ ys) = devinit_failed s xs @ devinit_failed s ys"
  by (simp add: devinit_failed_def)

lemma devinit_failed_ok: "devinit_failed s outs \<noteq> [] \<Longrightarrow> last (devinit_failed s outs) \<noteq> QIRAN_OK"
  using last_in_set [of "devinit_failed s outs"] by (auto simp: devinit_failed_def)

lemma devinit_failed_none:
  "devinit_failed s outs = [] \<longleftrightarrow> (\<forall>(i, st) \<in> set outs. st \<noteq> QIRAN_OK \<longrightarrow> \<not> de_required (di_entry s ! i))"
  by (auto simp: devinit_failed_def filter_empty_conv)

lemma devinit_stages_loop:
  assumes "devinit_fns_ok init" "devinit_typed (w_devinit w)" "set gs \<subseteq> set devinit_stages"
  shows "\<exists>k \<le> length gs. devinit_ran init gs k w (devinit_run_stages init gs w)"
  using assms(2,3)
proof (induction gs arbitrary: w)
  case Nil
  show ?case by (simp add: devinit_ran_def stages_entries_def devinit_failed_def devinit_noted_def)
next
  case (Cons g gs)
  let ?s = "w_devinit w" and ?ks = "stage_entries g (w_devinit w)"
  have g: "g \<in> set devinit_stages" using Cons.prems(2) by simp
  obtain sts u where c: "call_all (devinit_calls init ?s ?ks) w = (sts, u)" by (rule prod.exhaust)
  have len: "length sts = length ?ks" using call_all_length [of "devinit_calls init ?s ?ks" w] by (simp add: c)
  let ?t = "devinit_noted ?s (zip ?ks sts)" and ?f = "devinit_failed ?s (zip ?ks sts)"
  have one: "plat_devinit_run_stage init g w = (if ?f = [] then QIRAN_OK else last ?f, u\<lparr>w_devinit := ?t\<rparr>)"
    using devinit_stage_loop [OF assms(1) Cons.prems(1) g] by (simp add: c)
  have stage: "\<forall>(i, st) \<in> set (zip ?ks sts). de_stage (di_entry ?s ! i) = g"
    by (auto simp: stage_entries_def dest!: set_zip_leftD)
  show ?case
  proof (cases "?f = []")
    case False
    have "devinit_run_stages init (g # gs) w = (last ?f, u\<lparr>w_devinit := ?t\<rparr>)"
      using one False devinit_failed_ok [OF False] by simp
    then have "devinit_ran init (g # gs) 1 w (devinit_run_stages init (g # gs) w)"
      unfolding devinit_ran_def Let_def using False stage by (auto simp: stages_entries_def c)
    then show ?thesis by (intro exI [of _ 1]) simp
  next
    case True
    have go: "devinit_run_stages init (g # gs) w = devinit_run_stages init gs (u\<lparr>w_devinit := ?t\<rparr>)"
      using one True by simp
    have "devinit_typed (w_devinit (u\<lparr>w_devinit := ?t\<rparr>))"
      using devinit_noted_typed [OF Cons.prems(1) devinit_outs_used] by simp
    then obtain k where k: "k \<le> length gs"
        "devinit_ran init gs k (u\<lparr>w_devinit := ?t\<rparr>) (devinit_run_stages init gs (u\<lparr>w_devinit := ?t\<rparr>))"
      using Cons.IH [of "u\<lparr>w_devinit := ?t\<rparr>"] Cons.prems(2) by auto
    let ?ks2 = "stages_entries (take k gs) ?s"
    obtain sts2 u2 where c2: "call_all (devinit_calls init ?s ?ks2) u = (sts2, u2)" by (rule prod.exhaust)
    have "\<forall>f \<in> set (devinit_calls init ?s ?ks2). devinit.leaves f"
      using assms(1) by (auto simp: devinit_fns_ok_def)
    then have c2': "call_all (devinit_calls init ?s ?ks2) (u\<lparr>w_devinit := ?t\<rparr>) = (sts2, u2\<lparr>w_devinit := ?t\<rparr>)"
      using c2 by (simp add: devinit.leaves_calls)
    have st2: "stages_entries (take k gs) ?t = ?ks2" by (simp add: stages_entries_def devinit_static)
    have ks: "stages_entries (take (Suc k) (g # gs)) ?s = ?ks @ ?ks2" by (simp add: stages_entries_def)
    have all: "call_all (devinit_calls init ?s (?ks @ ?ks2)) w = (sts @ sts2, u2)"
      by (simp add: call_all_append c c2)
    have zip: "zip (?ks @ ?ks2) (sts @ sts2) = zip ?ks sts @ zip ?ks2 sts2" using len by simp
    have none: "\<forall>(i, st) \<in> set (zip ?ks sts). st \<noteq> QIRAN_OK \<longrightarrow> \<not> de_required (di_entry ?s ! i)"
      using True by (simp only: devinit_failed_none)
    let ?f2 = "devinit_failed ?s (zip ?ks2 sts2)"
    note r = k(2) [unfolded devinit_ran_def Let_def devinit.own_put devinit_static
      devinit_noted_same st2 c2' prod.case devinit.put_put]
    have r2: "devinit_run_stages init gs (u\<lparr>w_devinit := ?t\<rparr>) =
        (if ?f2 = [] then QIRAN_OK else last ?f2, u2\<lparr>w_devinit := devinit_noted ?t (zip ?ks2 sts2)\<rparr>)"
      by (rule r [THEN conjunct1])
    note r' = r [THEN conjunct2]
    have k2: "?f2 = [] \<Longrightarrow> k = length gs" "?f2 \<noteq> [] \<Longrightarrow> 0 < k" using r' by blast+
    have in2: "de_stage (di_entry ?s ! i) = (g # gs) ! k"
      if "(i, st) \<in> set (zip ?ks2 sts2)" "st \<noteq> QIRAN_OK" "de_required (di_entry ?s ! i)" for i st
    proof -
      have "de_stage (di_entry ?s ! i) = gs ! (k - 1)" using r' that by blast
      moreover have "0 < k" using that(1) by (cases k) (simp_all add: stages_entries_def)
      ultimately show ?thesis by (simp add: nth_Cons')
    qed
    have f: "devinit_failed ?s (zip ?ks sts @ zip ?ks2 sts2) = ?f2" using True by (simp add: devinit_failed_append)
    have stg: "case x of (i, st) \<Rightarrow> st \<noteq> QIRAN_OK \<longrightarrow> de_required (di_entry ?s ! i) \<longrightarrow>
        de_stage (di_entry ?s ! i) = (g # gs) ! (Suc k - 1)" if "x \<in> set (zip ?ks sts @ zip ?ks2 sts2)" for x
    proof (cases x)
      case (Pair i st)
      then have "(i, st) \<in> set (zip ?ks sts) \<or> (i, st) \<in> set (zip ?ks2 sts2)" using that by simp
      then show ?thesis using none in2 [of i st] unfolding Pair by fastforce
    qed
    have "devinit_ran init (g # gs) (Suc k) w (devinit_run_stages init (g # gs) w)"
      unfolding devinit_ran_def ks Let_def all prod.case zip go r2 f devinit_noted_append
      by (intro conjI ballI stg refl impI) (drule k2(1), simp_all)
    then show ?thesis using k(1) by (intro exI [of _ "Suc k"]) simp
  qed
qed

subsection \<open>Properties\<close>

lemma devinit_noted_counts:
  "di_failures (devinit_noted s outs) = di_failures s + of_nat (length (filter (\<lambda>(i, st). st \<noteq> QIRAN_OK) outs))"
  "di_first_failure (devinit_noted s outs) = (case di_first_failure s of Some n \<Rightarrow> Some n
     | None \<Rightarrow> map_option (\<lambda>(i, st). de_name (di_entry s ! i)) (find (\<lambda>(i, st). st \<noteq> QIRAN_OK) outs))"
proof -
  let ?n = "\<lambda>(i, st) t. devinit_note (de_stage (di_entry s ! i)) i st t"
  have "di_entry t = di_entry s \<Longrightarrow>
      di_failures (fold ?n outs t) = di_failures t + of_nat (length (filter (\<lambda>(i, st). st \<noteq> QIRAN_OK) outs)) \<and>
      di_first_failure (fold ?n outs t) = (case di_first_failure t of Some n \<Rightarrow> Some n
        | None \<Rightarrow> map_option (\<lambda>(i, st). de_name (di_entry s ! i)) (find (\<lambda>(i, st). st \<noteq> QIRAN_OK) outs))" for t
  proof (induction outs arbitrary: t)
    case Nil
    then show ?case by (simp split: option.split)
  next
    case (Cons x outs)
    obtain i st where x: "x = (i, st)" by (rule prod.exhaust)
    let ?t = "devinit_note (de_stage (di_entry s ! i)) i st t"
    have t: "di_failures ?t = di_failures t + (if st \<noteq> QIRAN_OK then 1 else 0)"
      "di_first_failure ?t = (if st \<noteq> QIRAN_OK \<and> di_first_failure t = None then Some (de_name (di_entry s ! i))
        else di_first_failure t)"
      using Cons.prems by (simp_all add: devinit_note_def Let_def)
    have "di_entry ?t = di_entry s" using Cons.prems by simp
    from Cons.IH [OF this] show ?case by (auto simp: x t split: option.splits)
  qed
  then show "di_failures (devinit_noted s outs) = di_failures s + of_nat (length (filter (\<lambda>(i, st). st \<noteq> QIRAN_OK) outs))"
    "di_first_failure (devinit_noted s outs) = (case di_first_failure s of Some n \<Rightarrow> Some n
     | None \<Rightarrow> map_option (\<lambda>(i, st). de_name (di_entry s ! i)) (find (\<lambda>(i, st). st \<noteq> QIRAN_OK) outs))"
    by (simp_all add: devinit_noted_def)
qed

text \<open>C19: Devices are brought up in the order of their stages, and in the order of registration within
  one: what is called is every entry of the first \<open>k\<close> stages. It succeeds only if all four stages
  ran and no required device failed; a required device that fails ends it with its own status after
  its stage, so nothing in a later stage is reached through it. Failures of the others are counted,
  and the first is named, without stopping anything.\<close>

theorem devinit_stages_in_order:
  fixes w :: "'a devinit_world_scheme"
  assumes "devinit_fns_ok init" "devinit_typed (w_devinit w)"
  defines "s \<equiv> (w_devinit w)\<lparr>di_failures := 0, di_first_failure := None\<rparr>"
  shows "\<exists>k \<le> 4. let ks = stages_entries (take k devinit_stages) s;
      (sts, u) = call_all (devinit_calls init s ks) (w\<lparr>w_devinit := s\<rparr>);
      failed = devinit_failed s (zip ks sts); t = devinit_noted s (zip ks sts)
    in plat_devinit_run init w = (if failed = [] then QIRAN_OK else last failed, u\<lparr>w_devinit := t\<rparr>) \<and>
      (failed = [] \<longrightarrow> k = 4) \<and>
      (\<forall>(i, st) \<in> set (zip ks sts). st \<noteq> QIRAN_OK \<longrightarrow> de_required (di_entry s ! i) \<longrightarrow>
         de_stage (di_entry s ! i) = devinit_stages ! (k - 1)) \<and>
      di_failures t = of_nat (length (filter (\<lambda>(i, st). st \<noteq> QIRAN_OK) (zip ks sts))) \<and>
      di_first_failure t = map_option (\<lambda>(i, st). de_name (di_entry s ! i))
        (find (\<lambda>(i, st). st \<noteq> QIRAN_OK) (zip ks sts))"
proof -
  have s: "w\<lparr>w_devinit := s\<rparr> = devinit_upd (\<lambda>s. s\<lparr>di_failures := 0, di_first_failure := None\<rparr>) w"
    by (simp add: devinit_upd_def s_def)
  have len: "length devinit_stages = 4" by (simp add: devinit_stages_def)
  have "devinit_typed (w_devinit (w\<lparr>w_devinit := s\<rparr>))"
    using assms(2) by (simp add: s_def devinit_typed_def)
  from devinit_stages_loop [OF assms(1) this, of devinit_stages]
  obtain k where "k \<le> 4" and r: "devinit_ran init devinit_stages k (w\<lparr>w_devinit := s\<rparr>) (plat_devinit_run init w)"
    unfolding plat_devinit_run_def s [symmetric] len by blast
  have "di_failures s = 0" "di_first_failure s = None" by (simp_all add: s_def)
  then show ?thesis
    using \<open>k \<le> 4\<close> r unfolding devinit_ran_def Let_def devinit.own_put devinit.put_put len split_beta devinit_noted_counts
    by (intro exI [of _ k]) simp
qed

text \<open>Registrations and runs in any order.\<close>

datatype devinit_op =
    Di_register "string option" plat_devinit_stage "handle option" bool
  | Di_run_stage plat_devinit_stage
  | Di_run

fun devinit_step ::
  "'a devinit_world_scheme devinit_fns \<Rightarrow> devinit_op \<Rightarrow> 'a devinit_world_scheme \<Rightarrow> 'a devinit_world_scheme" where
  "devinit_step init (Di_register name stage fn required) w = snd (plat_devinit_register name stage fn required w)"
| "devinit_step init (Di_run_stage stage) w = snd (plat_devinit_run_stage init stage w)"
| "devinit_step init Di_run w = snd (plat_devinit_run init w)"

lemma register_typed:
  assumes "devinit_typed (w_devinit w)"
  shows "devinit_typed (w_devinit (snd (plat_devinit_register name stage fn required w)))"
proof (cases "fst (plat_devinit_register name stage fn required w) = QIRAN_OK")
  case True
  let ?s = "w_devinit w"
  have lt: "di_count ?s < 32"
    using True by (auto simp: plat_devinit_register_def PLAT_DEVINIT_MAX_def split: if_splits)
  then have n: "unat (di_count ?s) < 32" "unat (di_count ?s + 1) = Suc (unat (di_count ?s))" "di_count ?s + 1 \<le> 32"
    by (simp_all add: word_less_nat_alt word_le_nat_alt unat_word_ariths)
  have "stage \<in> set devinit_stages"
    using True by (cases stage) (auto simp: plat_devinit_register_def devinit_stages_def)
  then show ?thesis
    using assms True n by (auto simp: plat_devinit_register_def devinit_upd_def devinit_typed_def PLAT_DEVINIT_MAX_def
        nth_list_update less_Suc_eq split: if_splits)
next
  case False
  then show ?thesis using assms by (auto simp: plat_devinit_register_def split: if_splits)
qed

lemma run_stage_typed:
  assumes "devinit_fns_ok init" "devinit_typed (w_devinit w)"
  shows "devinit_typed (w_devinit (snd (plat_devinit_run_stage init stage w)))"
proof (cases "stage \<in> set devinit_stages")
  case True
  then show ?thesis
    using devinit_stage_loop [OF assms True] devinit_noted_typed [OF assms(2) devinit_outs_used] by simp
next
  case False
  then have "stage = PLAT_DEVINIT_STAGE_COUNT" by (cases stage) (simp_all add: devinit_stages_def)
  then show ?thesis using assms(2) by (simp add: plat_devinit_run_stage_def)
qed

lemma run_stages_typed:
  assumes "devinit_fns_ok init"
  shows "devinit_typed (w_devinit w) \<Longrightarrow> devinit_typed (w_devinit (snd (devinit_run_stages init gs w)))"
proof (induction gs arbitrary: w)
  case (Cons g gs)
  then show ?case using run_stage_typed [OF assms Cons.prems, of g] by (simp add: split_beta Let_def)
qed simp

lemma devinit_steps_typed:
  assumes "devinit_fns_ok init" "devinit_typed (w_devinit w)"
  shows "devinit_typed (w_devinit (fold (devinit_step init) ops w))"
proof -
  have reset: "devinit_typed (w_devinit (devinit_upd (\<lambda>s. s\<lparr>di_failures := 0, di_first_failure := None\<rparr>) w)) =
      devinit_typed (w_devinit w)" for w :: "'a devinit_world_scheme"
    by (simp add: devinit_upd_def devinit_typed_def)
  have "devinit_typed (w_devinit (devinit_step init op w))" if "devinit_typed (w_devinit w)" for op w
  proof (cases op)
    case Di_run
    then show ?thesis using that by (simp add: plat_devinit_run_def run_stages_typed [OF assms(1)] reset)
  qed (simp_all add: that register_typed run_stage_typed [OF assms(1)])
  then show ?thesis using assms(2) by (induction ops arbitrary: w) simp_all
qed

text \<open>What the initialisers answered over a history: a log of the index and the status of every call, in
  order, and the result that the last answer of an index leaves.\<close>

definition stage_outs :: "'a devinit_world_scheme devinit_fns \<Rightarrow> plat_devinit_stage \<Rightarrow> 'a devinit_world_scheme \<Rightarrow>
    (nat \<times> qiran_status) list" where
  "stage_outs init g w = (if g = PLAT_DEVINIT_STAGE_COUNT then []
    else let ks = stage_entries g (w_devinit w) in zip ks (fst (call_all (devinit_calls init (w_devinit w) ks) w)))"

fun stages_outs :: "'a devinit_world_scheme devinit_fns \<Rightarrow> plat_devinit_stage list \<Rightarrow> 'a devinit_world_scheme \<Rightarrow>
    (nat \<times> qiran_status) list" where
  "stages_outs init [] w = []"
| "stages_outs init (g # gs) w = stage_outs init g w @
     (let (st, u) = plat_devinit_run_stage init g w in if st \<noteq> QIRAN_OK then [] else stages_outs init gs u)"

fun devinit_outs :: "'a devinit_world_scheme devinit_fns \<Rightarrow> devinit_op \<Rightarrow> 'a devinit_world_scheme \<Rightarrow>
    (nat \<times> qiran_status) list" where
  "devinit_outs init (Di_register name stage fn required) w = []"
| "devinit_outs init (Di_run_stage stage) w = stage_outs init stage w"
| "devinit_outs init Di_run w =
     stages_outs init devinit_stages (devinit_upd (\<lambda>s. s\<lparr>di_failures := 0, di_first_failure := None\<rparr>) w)"

fun devinit_log :: "'a devinit_world_scheme devinit_fns \<Rightarrow> devinit_op list \<Rightarrow> 'a devinit_world_scheme \<Rightarrow>
    (nat \<times> qiran_status) list" where
  "devinit_log init [] w = []"
| "devinit_log init (op # ops) w = devinit_outs init op w @ devinit_log init ops (devinit_step init op w)"

definition entry_result :: "devinit_entry \<Rightarrow> qiran_status \<Rightarrow> plat_devinit_result" where
  "entry_result e st = \<lparr>dv_name = Some (de_name e), dv_stage = de_stage e, dv_result = st,
     dv_required = de_required e, dv_ran = True\<rparr>"

definition logged_result :: "devinit_state \<Rightarrow> (nat \<times> qiran_status) list \<Rightarrow> plat_devinit_result list \<Rightarrow> nat \<Rightarrow> plat_devinit_result" where
  "logged_result s log rs i = (case map_of (rev log) i of None \<Rightarrow> rs ! i | Some st \<Rightarrow> entry_result (di_entry s ! i) st)"

text \<open>The results of state \<open>t\<close> are what the log and the results before it say, and the log names
  registered devices only; the entries that were registered before are still there.\<close>

definition devinit_tells :: "devinit_state \<Rightarrow> (nat \<times> qiran_status) list \<Rightarrow> devinit_state \<Rightarrow> bool" where
  "devinit_tells s log t \<longleftrightarrow> unat (di_count s) \<le> unat (di_count t) \<and>
     (\<forall>i < unat (di_count s). di_entry t ! i = di_entry s ! i) \<and>
     (\<forall>x \<in> set log. fst x < unat (di_count t)) \<and>
     (\<forall>i < 32. di_result t ! i = logged_result t log (di_result s) i)"

lemma devinit_tells_refl: "di_entry t = di_entry s \<Longrightarrow> di_count t = di_count s \<Longrightarrow> di_result t = di_result s \<Longrightarrow> devinit_tells s [] t"
  by (simp add: devinit_tells_def logged_result_def)

lemma devinit_tells_trans:
  assumes "devinit_tells s xs t" "devinit_tells t ys u"
  shows "devinit_tells s (xs @ ys) u"
proof -
  note a = assms [unfolded devinit_tells_def]
  have "di_result u ! i = logged_result u (xs @ ys) (di_result s) i" if i: "i < 32" for i
  proof (cases "map_of (rev ys) i")
    case None
    then have r: "di_result u ! i = di_result t ! i" using a(2) i by (simp add: logged_result_def)
    have t: "di_result t ! i = logged_result t xs (di_result s) i" using a(1) i by simp
    show ?thesis
    proof (cases "map_of (rev xs) i")
      case (Some st)
      then have "(i, st) \<in> set xs" by (auto dest: map_of_SomeD)
      then have "i < unat (di_count t)" using a(1) by auto
      then have "di_entry u ! i = di_entry t ! i" using a(2) by simp
      then show ?thesis using None Some r t by (simp add: logged_result_def map_add_def)
    qed (use None r t in \<open>simp add: logged_result_def map_add_def\<close>)
  qed (use a(2) i in \<open>simp add: logged_result_def map_add_def\<close>)
  moreover have "\<forall>x \<in> set (xs @ ys). fst x < unat (di_count u)" using a by fastforce
  ultimately show ?thesis using a unfolding devinit_tells_def by (auto intro: order_trans)
qed

lemma devinit_noted_tells:
  assumes "length (di_result s) = 32" "\<forall>x \<in> set outs. fst x < unat (di_count s)" "unat (di_count s) \<le> 32"
  shows "devinit_tells s outs (devinit_noted s outs)"
  using assms(2)
proof (induction outs rule: rev_induct)
  case Nil
  show ?case by (simp add: devinit_noted_def devinit_tells_refl)
next
  case (snoc x outs)
  obtain k st where x: "x = (k, st)" by (rule prod.exhaust)
  let ?t = "devinit_noted s outs"
  have len: "length (di_result (devinit_noted s os)) = 32" for os
    using assms(1) unfolding devinit_noted_def
    by (induction os rule: rev_induct) (simp_all add: devinit_note_def Let_def split_beta)
  have u: "devinit_noted s (outs @ [x]) = devinit_note (de_stage (di_entry s ! k)) k st ?t"
    by (simp add: devinit_noted_def x)
  have "di_result (devinit_noted s (outs @ [x])) = (di_result ?t)[k := entry_result (di_entry s ! k) st]"
    unfolding u by (simp add: devinit_note_def Let_def entry_result_def)
  moreover have "k < 32" using snoc.prems assms(3) by (simp add: x)
  ultimately have "devinit_tells ?t [x] (devinit_noted s (outs @ [x]))"
    using snoc.prems len [of outs] by (auto simp: devinit_tells_def logged_result_def nth_list_update x)
  then show ?case using devinit_tells_trans [OF snoc.IH] snoc.prems by simp
qed

lemma devinit_typed_sizes: "devinit_typed s \<Longrightarrow> length (di_result s) = 32 \<and> unat (di_count s) \<le> 32"
  by (simp add: devinit_typed_def PLAT_DEVINIT_MAX_def word_le_nat_alt)

lemma run_stage_tells:
  assumes "devinit_fns_ok init" "devinit_typed (w_devinit w)"
  shows "devinit_tells (w_devinit w) (stage_outs init g w) (w_devinit (snd (plat_devinit_run_stage init g w)))"
proof (cases "g = PLAT_DEVINIT_STAGE_COUNT")
  case True
  then show ?thesis by (simp add: stage_outs_def plat_devinit_run_stage_def devinit_tells_refl)
next
  case False
  then have g: "g \<in> set devinit_stages" by (cases g) (simp_all add: devinit_stages_def)
  let ?o = "stage_outs init g w"
  have "\<forall>x \<in> set ?o. fst x < unat (di_count (w_devinit w))"
    using devinit_outs_used [of g "w_devinit w"] False by (fastforce simp: stage_outs_def Let_def)
  from devinit_noted_tells [OF _ this] show ?thesis
    using devinit_stage_loop [OF assms g] devinit_typed_sizes [OF assms(2)] False by (simp add: stage_outs_def Let_def)
qed

lemma run_stages_tells:
  assumes "devinit_fns_ok init"
  shows "devinit_typed (w_devinit w) \<Longrightarrow>
    devinit_tells (w_devinit w) (stages_outs init gs w) (w_devinit (snd (devinit_run_stages init gs w)))"
proof (induction gs arbitrary: w)
  case (Cons g gs)
  obtain st u where r: "plat_devinit_run_stage init g w = (st, u)" by (rule prod.exhaust)
  have t: "devinit_tells (w_devinit w) (stage_outs init g w) (w_devinit u)" "devinit_typed (w_devinit u)"
    using run_stage_tells [OF assms Cons.prems, of g] run_stage_typed [OF assms Cons.prems, of g] by (simp_all add: r)
  show ?case using t(1) devinit_tells_trans [OF t(1) Cons.IH [OF t(2)]] by (simp add: r)
qed (simp add: devinit_tells_refl)

lemma devinit_steps_tell:
  assumes "devinit_fns_ok init" "devinit_typed (w_devinit w)"
  shows "devinit_tells (w_devinit w) (devinit_log init ops w) (w_devinit (fold (devinit_step init) ops w))"
  using assms(2)
proof (induction ops arbitrary: w)
  case (Cons op ops)
  have "devinit_tells (w_devinit w) (devinit_outs init op w) (w_devinit (devinit_step init op w))"
  proof (cases op)
    case (Di_register name stage fn required)
    then show ?thesis
      using Cons.prems by (auto simp: plat_devinit_register_def devinit_upd_def devinit_tells_def logged_result_def
          PLAT_DEVINIT_MAX_def word_less_nat_alt word_le_nat_alt unat_word_ariths)
  next
    case Di_run
    let ?w = "devinit_upd (\<lambda>s. s\<lparr>di_failures := 0, di_first_failure := None\<rparr>) w"
    have "devinit_typed (w_devinit ?w)" using Cons.prems by (simp add: devinit_upd_def devinit_typed_def)
    from run_stages_tells [OF assms(1) this, of devinit_stages] show ?thesis
      by (simp add: Di_run plat_devinit_run_def devinit_tells_def devinit_upd_def)
  qed (simp add: run_stage_tells [OF assms(1) Cons.prems])
  from devinit_tells_trans [OF this Cons.IH] show ?case
    using devinit_steps_typed [OF assms(1) Cons.prems, of "[op]"] by simp
qed (simp add: devinit_tells_refl)

text \<open>C27: The tables stay well formed under every sequence of registrations and runs, refused ones
  included: sizes and count in bounds, and every entry in a stage that is run. A result can be fetched
  exactly for a registered index. When the device there has been called, the result says so and carries
  the name, the stage and the required mark of its entry and the status of its last call, which the log
  of the calls has; when it has not, the result is the one that was at that index before, so one that
  was not marked as run still is not.\<close>

theorem devinit_tables_typed:
  fixes w :: "'a devinit_world_scheme" and ops :: "devinit_op list" and i :: u32
  assumes "devinit_fns_ok init" "devinit_typed (w_devinit w)"
  defines "w1 \<equiv> fold (devinit_step init) ops w"
  defines "e \<equiv> di_entry (w_devinit w1) ! unat i"
  shows "devinit_typed (w_devinit w1) \<and> plat_devinit_count w1 \<le> PLAT_DEVINIT_MAX \<and>
    plat_devinit_result_get i w1 =
      (if plat_devinit_count w1 \<le> i then None
       else case map_of (rev (devinit_log init ops w)) (unat i) of
         Some st \<Rightarrow> Some \<lparr>dv_name = Some (de_name e), dv_stage = de_stage e, dv_result = st,
           dv_required = de_required e, dv_ran = True\<rparr>
       | None \<Rightarrow> Some (di_result (w_devinit w) ! unat i))"
proof -
  have t: "devinit_typed (w_devinit w1)" unfolding w1_def by (rule devinit_steps_typed [OF assms(1,2)])
  have "unat i < 32" if "i < di_count (w_devinit w1)"
    using that devinit_typed_sizes [OF t] by (simp add: word_less_nat_alt)
  then have "di_result (w_devinit w1) ! unat i = logged_result (w_devinit w1) (devinit_log init ops w) (di_result (w_devinit w)) (unat i)"
    if "i < di_count (w_devinit w1)"
    using that devinit_steps_tell [OF assms(1,2), of ops] by (simp add: devinit_tells_def w1_def)
  then show ?thesis
    using t by (auto simp: plat_devinit_count_def plat_devinit_result_get_def devinit_typed_def logged_result_def
        entry_result_def e_def not_le split: option.splits)
qed

subsection \<open>Witnesses\<close>

text \<open>An empty table, three devices registered out of order, the one on the bus failing unless \<open>ok\<close>.\<close>

definition devinit_clear :: "devinit_world \<Rightarrow> devinit_world" where
  "devinit_clear w = w\<lparr>w_devinit := \<lparr>di_entry = replicate 32 \<lparr>de_name = [], de_stage = PLAT_DEVINIT_BUS, de_fn = 0, de_required = False\<rparr>,
     di_result = replicate 32 \<lparr>dv_name = None, dv_stage = PLAT_DEVINIT_BUS, dv_result = QIRAN_OK, dv_required = False, dv_ran = False\<rparr>,
     di_count = 0, di_failures = 0, di_first_failure = None\<rparr>\<rparr>"

definition devinit_fns0 :: "bool \<Rightarrow> devinit_world devinit_fns" where
  "devinit_fns0 ok h w = (if h = 4 \<and> \<not> ok then QIRAN_ERR_TIMEOUT else QIRAN_OK,
     w\<lparr>w_gic := (w_gic w)\<lparr>gc_enabled := (gc_enabled (w_gic w))(of_nat h := True)\<rparr>\<rparr>)"

definition devinit_ops0 :: "devinit_op list" where
  "devinit_ops0 = [Di_register (Some ''sensor'') PLAT_DEVINIT_DEVICE (Some 9) True,
     Di_register (Some ''spi'') PLAT_DEVINIT_BUS (Some 4) True,
     Di_register None PLAT_DEVINIT_BUS (Some 5) True,
     Di_register (Some ''fan'') PLAT_DEVINIT_BUS (Some 6) False]"

lemma devinit_fns0_ok: "devinit_fns_ok (devinit_fns0 ok)"
  by (simp add: devinit_fns_ok_def devinit.leaves_def devinit_fns0_def)

lemma devinit_clear_typed: "devinit_typed (w_devinit (devinit_clear w))"
  by (simp add: devinit_clear_def devinit_typed_def)

lemma devinit_setup0:
  "w_devinit (fold (devinit_step (devinit_fns0 ok)) devinit_ops0 (devinit_clear w)) = (w_devinit (devinit_clear w))\<lparr>
     di_entry := (di_entry (w_devinit (devinit_clear w)))
       [0 := \<lparr>de_name = ''sensor'', de_stage = PLAT_DEVINIT_DEVICE, de_fn = 9, de_required = True\<rparr>,
        1 := \<lparr>de_name = ''spi'', de_stage = PLAT_DEVINIT_BUS, de_fn = 4, de_required = True\<rparr>,
        2 := \<lparr>de_name = ''fan'', de_stage = PLAT_DEVINIT_BUS, de_fn = 6, de_required = False\<rparr>], di_count := 3\<rparr>"
proof -
  have c: "di_count (w_devinit (devinit_clear w)) = 0" by (simp add: devinit_clear_def)
  show ?thesis
    by (simp add: devinit_ops0_def plat_devinit_register_def devinit_upd_def PLAT_DEVINIT_MAX_def c word_le_nat_alt)
qed

text \<open>The bus fails: the bus stage is finished, the sensor on it is never touched.\<close>

theorem devinit_stages_in_order_witness:
  "\<forall>w. let (st, u) = plat_devinit_run (devinit_fns0 False) (fold (devinit_step (devinit_fns0 False)) devinit_ops0 (devinit_clear w))
    in st = QIRAN_ERR_TIMEOUT \<and> di_first_failure (w_devinit u) = Some ''spi'' \<and> di_failures (w_devinit u) = 1"
proof
  fix w
  let ?f = "devinit_fns0 False"
  define v where "v = fold (devinit_step ?f) devinit_ops0 (devinit_clear w)"
  have typed: "devinit_typed (w_devinit v)"
    unfolding v_def by (rule devinit_steps_typed [OF devinit_fns0_ok devinit_clear_typed])
  define t where "t = (w_devinit v)\<lparr>di_failures := 0, di_first_failure := None\<rparr>"
  have s: "stage_entries PLAT_DEVINIT_BUS t = [1, 2]" "stage_entries PLAT_DEVINIT_DEVICE t = [0]"
    "stage_entries PLAT_DEVINIT_BOARD t = []" "stage_entries PLAT_DEVINIT_LINK t = []"
    "map (\<lambda>i. de_fn (di_entry t ! i)) [1, 2] = [4, 6]" "de_required (di_entry t ! 1)" "\<not> de_required (di_entry t ! 2)"
    "de_name (di_entry t ! 1) = ''spi''" "de_stage (di_entry t ! 1) = PLAT_DEVINIT_BUS" "de_fn (di_entry t ! 1) = 4"
  proof -
    have "length (di_entry (w_devinit (devinit_clear w))) = 32" by (simp add: devinit_clear_def)
    then have e: "di_count t = 3"
      "di_entry t ! 0 = \<lparr>de_name = ''sensor'', de_stage = PLAT_DEVINIT_DEVICE, de_fn = 9, de_required = True\<rparr>"
      "di_entry t ! 1 = \<lparr>de_name = ''spi'', de_stage = PLAT_DEVINIT_BUS, de_fn = 4, de_required = True\<rparr>"
      "di_entry t ! 2 = \<lparr>de_name = ''fan'', de_stage = PLAT_DEVINIT_BUS, de_fn = 6, de_required = False\<rparr>"
      by (simp_all add: t_def v_def devinit_setup0)
    have u: "[0..<unat (3 :: u32)] = [0, 1, 2]" by (simp add: upt_rec)
    show "stage_entries PLAT_DEVINIT_BUS t = [1, 2]" "stage_entries PLAT_DEVINIT_DEVICE t = [0]"
      "stage_entries PLAT_DEVINIT_BOARD t = []" "stage_entries PLAT_DEVINIT_LINK t = []"
      "map (\<lambda>i. de_fn (di_entry t ! i)) [1, 2] = [4, 6]" "de_required (di_entry t ! 1)" "\<not> de_required (di_entry t ! 2)"
      "de_name (di_entry t ! 1) = ''spi''" "de_stage (di_entry t ! 1) = PLAT_DEVINIT_BUS" "de_fn (di_entry t ! 1) = 4"
      unfolding stage_entries_def e(1) u by (simp_all only: list.map filter.simps e devinit_entry.select_convs plat_devinit_stage.distinct if_True if_False simp_thms)
  qed
  have ks: "stages_entries (take k devinit_stages) t = (if k = 0 then [] else if k = 1 then [1, 2] else [1, 2, 0])" if "k \<le> 4" for k
  proof -
    have "k = 0 \<or> k = 1 \<or> k = 2 \<or> k = 3 \<or> k = 4" using that by linarith
    then show ?thesis using s by (auto simp: stages_entries_def devinit_stages_def)
  qed
  obtain k where k: "k \<le> 4" "let ks = stages_entries (take k devinit_stages) t;
      (sts, u) = call_all (devinit_calls ?f t ks) (v\<lparr>w_devinit := t\<rparr>);
      failed = devinit_failed t (zip ks sts); t1 = devinit_noted t (zip ks sts)
    in plat_devinit_run ?f v = (if failed = [] then QIRAN_OK else last failed, u\<lparr>w_devinit := t1\<rparr>) \<and>
      (failed = [] \<longrightarrow> k = 4) \<and>
      (\<forall>(i, st) \<in> set (zip ks sts). st \<noteq> QIRAN_OK \<longrightarrow> de_required (di_entry t ! i) \<longrightarrow>
         de_stage (di_entry t ! i) = devinit_stages ! (k - 1)) \<and>
      di_failures t1 = of_nat (length (filter (\<lambda>(i, st). st \<noteq> QIRAN_OK) (zip ks sts))) \<and>
      di_first_failure t1 = map_option (\<lambda>(i, st). de_name (di_entry t ! i))
        (find (\<lambda>(i, st). st \<noteq> QIRAN_OK) (zip ks sts))"
    using devinit_stages_in_order [OF devinit_fns0_ok [of False] typed] unfolding t_def [symmetric]
    by blast
  note r = k(2) [unfolded Let_def ks [OF k(1)]]
  have f: "devinit_failed t [] = []" by (simp add: devinit_failed_def)
  have stg: "devinit_stages ! (k - 1) \<noteq> PLAT_DEVINIT_BUS" if "1 < k"
  proof -
    have "k = 2 \<or> k = 3 \<or> k = 4" using that k(1) by linarith
    then show ?thesis by (auto simp: devinit_stages_def)
  qed
  have "k \<noteq> 0" using r f by (intro notI) simp
  moreover have "\<not> 1 < k" using r s stg by (intro notI) (simp add: devinit_fns0_def)
  ultimately have one: "k = 1" by simp
  have ks1: "stages_entries (take 1 devinit_stages) t = [1, 2]" using ks [of 1] by simp
  obtain u where c: "call_all (map (\<lambda>i. ?f (de_fn (di_entry t ! i))) [1, 2]) (v\<lparr>w_devinit := t\<rparr>) =
      ([QIRAN_ERR_TIMEOUT, QIRAN_OK], u)"
    using s(5) by (simp add: devinit_fns0_def)
  have f1: "devinit_failed t (zip [1, 2] [QIRAN_ERR_TIMEOUT, QIRAN_OK]) = [QIRAN_ERR_TIMEOUT]"
    using s(6) by (simp add: devinit_failed_def)
  have "fst (plat_devinit_run ?f v) = QIRAN_ERR_TIMEOUT \<and>
    di_first_failure (w_devinit (snd (plat_devinit_run ?f v))) = Some ''spi'' \<and>
    di_failures (w_devinit (snd (plat_devinit_run ?f v))) = 1"
    using k(2) [unfolded Let_def one ks1 c prod.case f1] s(8) by simp
  then show "let (st, u) = plat_devinit_run ?f (fold (devinit_step ?f) devinit_ops0 (devinit_clear w))
    in st = QIRAN_ERR_TIMEOUT \<and> di_first_failure (w_devinit u) = Some ''spi'' \<and> di_failures (w_devinit u) = 1"
    unfolding v_def [symmetric] by (simp add: split_beta Let_def)
qed

text \<open>The refused registration leaves no entry, and the failed initialiser is recorded against its device.\<close>

theorem devinit_tables_typed_witness:
  "\<forall>w. let u = fold (devinit_step (devinit_fns0 False)) (devinit_ops0 @ [Di_run_stage PLAT_DEVINIT_BUS]) (devinit_clear w)
    in plat_devinit_count u = 3 \<and> plat_devinit_result_get 3 u = None \<and>
      plat_devinit_result_get 1 u = Some \<lparr>dv_name = Some ''spi'', dv_stage = PLAT_DEVINIT_BUS,
        dv_result = QIRAN_ERR_TIMEOUT, dv_required = True, dv_ran = True\<rparr> \<and>
      map_option dv_ran (plat_devinit_result_get 0 u) = Some False"
  unfolding Let_def
proof
  fix w
  let ?f = "devinit_fns0 False" and ?ops = "devinit_ops0 @ [Di_run_stage PLAT_DEVINIT_BUS]"
  let ?v = "fold (devinit_step ?f) devinit_ops0 (devinit_clear w)"
  define u where "u = fold (devinit_step ?f) ?ops (devinit_clear w)"
  have v: "devinit_typed (w_devinit ?v)" by (rule devinit_steps_typed [OF devinit_fns0_ok devinit_clear_typed])
  have ks: "stage_entries PLAT_DEVINIT_BUS (w_devinit ?v) = [1, 2]"
  proof -
    have "[0..<unat (3 :: u32)] = [0, 1, 2]" by (simp add: upt_rec)
    then show ?thesis unfolding devinit_setup0 stage_entries_def by (simp add: devinit_clear_def)
  qed
  have log: "devinit_log ?f ?ops (devinit_clear w) = stage_outs ?f PLAT_DEVINIT_BUS ?v"
  proof -
    have "devinit_log init (xs @ ys) x = devinit_log init xs x @ devinit_log init ys (fold (devinit_step init) xs x)"
      for init :: "devinit_world devinit_fns" and xs ys x by (induction xs arbitrary: x) simp_all
    then show ?thesis by (simp add: devinit_ops0_def)
  qed
  have outs: "stage_outs ?f PLAT_DEVINIT_BUS ?v = [(1, QIRAN_ERR_TIMEOUT), (2, QIRAN_OK)]"
  proof -
    have "map (\<lambda>i. de_fn (di_entry (w_devinit ?v) ! i)) [1, 2] = [4, 6]"
      unfolding devinit_setup0 by (simp add: devinit_clear_def)
    then have "devinit_calls ?f (w_devinit ?v) [1, 2] = [?f 4, ?f 6]" by simp
    then show ?thesis unfolding stage_outs_def Let_def ks by (simp add: devinit_fns0_def)
  qed
  have g: "PLAT_DEVINIT_BUS \<in> set devinit_stages" by (simp add: devinit_stages_def)
  have u: "u = snd (plat_devinit_run_stage ?f PLAT_DEVINIT_BUS ?v)"
    unfolding u_def by (simp only: fold_append fold_simps comp_apply devinit_step.simps)
  have s: "di_count (w_devinit u) = di_count (w_devinit ?v)" "di_entry (w_devinit u) = di_entry (w_devinit ?v)"
    unfolding u devinit_stage_loop [OF devinit_fns0_ok v g] snd_conv devinit.own_put by (rule devinit_noted_same)+
  have n: "di_count (w_devinit ?v) = 3" unfolding devinit_setup0 by simp
  note t = devinit_tables_typed [OF devinit_fns0_ok [of False] devinit_clear_typed [of w], where ops = ?ops, folded u_def, THEN conjunct2, THEN conjunct2]
  have c: "plat_devinit_count u = 3" using s(1) n by (simp only: plat_devinit_count_def)
  have len: "length (di_entry (w_devinit (devinit_clear w))) = 32" by (simp add: devinit_clear_def)
  show "plat_devinit_count u = 3 \<and> plat_devinit_result_get 3 u = None \<and>
      plat_devinit_result_get 1 u = Some \<lparr>dv_name = Some ''spi'', dv_stage = PLAT_DEVINIT_BUS,
        dv_result = QIRAN_ERR_TIMEOUT, dv_required = True, dv_ran = True\<rparr> \<and>
      map_option dv_ran (plat_devinit_result_get 0 u) = Some False"
    using t [of 3] t [of 1] t [of 0]
    unfolding s(2) log outs devinit_setup0 c by (simp add: devinit_clear_def word_le_nat_alt)
qed

text \<open>Initialising the table again empties it but keeps the old results: a device registered afterwards
  reports the run of its predecessor until it has been run itself.\<close>

lemma devinit_init_keeps_results:
  assumes "devinit_typed (w_devinit w)" "dv_ran (di_result (w_devinit w) ! 0)"
  shows "plat_devinit_result_get 0 (snd (plat_devinit_register (Some n) PLAT_DEVINIT_BUS (Some h) q
      (plat_devinit_init w))) = Some (di_result (w_devinit w) ! 0)"
  by (simp add: plat_devinit_register_def plat_devinit_init_def devinit_upd_def plat_devinit_result_get_def
      PLAT_DEVINIT_MAX_def)

end
