(* ===== verification/Plat_Post.thy ===== *)
theory Plat_Post
  imports Plat_Devinit "HOL-Library.Monad_Syntax"
begin

section \<open>Power-on self test: \<^verbatim>\<open>src/plat/plat_post.c\<close>\<close>

text \<open>
  The table of self tests, and the memory test, which this module owns. The memory under test is
  hardware: the environment says what writing and reading a word of it and maintaining the cache
  over it do, to it and to anything else meanwhile. The tests of other modules are registered from
  outside. One loop of the memory test doubles an offset until it reaches the size of the region, and
  does not end for a region of more than \<^term>\<open>2 ^ 31 :: nat\<close> words, where the offset becomes zero; it is
  given as many turns as there are offsets before that, and the test is \<^term>\<open>None\<close> beyond them.
\<close>

definition PLAT_POST_MAX :: u32 where "PLAT_POST_MAX = 16"

record 'w mem_env =
  me_write :: "handle \<Rightarrow> u32 \<Rightarrow> u32 \<Rightarrow> 'w \<Rightarrow> 'w"
  me_read :: "handle \<Rightarrow> u32 \<Rightarrow> 'w \<Rightarrow> u32 \<times> 'w"
  me_flush :: "handle \<Rightarrow> u32 \<Rightarrow> 'w \<Rightarrow> 'w"
  me_invalidate :: "handle \<Rightarrow> u32 \<Rightarrow> 'w \<Rightarrow> 'w"

text \<open>A test returns its status, the detail it leaves in the place it was given, and the state. The
  module's own is one of the tests that can be registered.\<close>

datatype plat_post_test = Builtin_memory_test | Ext_test handle

record 'w post_env =
  pe_mem :: "'w mem_env"
  pe_test :: "handle \<Rightarrow> 'w \<Rightarrow> qiran_status \<times> u32 \<times> 'w"

record post_entry =
  pt_name :: string
  pt_test :: plat_post_test

record plat_post_result =
  pr_name :: "string option"
  pr_result :: qiran_status
  pr_detail :: u32
  pr_duration_ms :: u32
  pr_ran :: bool

record post_state =
  po_entry :: "post_entry list"
  po_result :: "plat_post_result list"
  po_count :: u32
  po_failures :: u32
  po_mem_base :: "handle option"
  po_mem_words :: u32

record post_world = devinit_world +
  w_post :: post_state

definition post_upd :: "(post_state \<Rightarrow> post_state) \<Rightarrow> 'a post_world_scheme \<Rightarrow> 'a post_world_scheme" where
  "post_upd f w = w\<lparr>w_post := f (w_post w)\<rparr>"

definition flush :: "'w mem_env \<Rightarrow> handle \<Rightarrow> u32 \<Rightarrow> 'w \<Rightarrow> 'w" where
  "flush M base words w = me_flush M base (words * 4) w"

definition invalidate :: "'w mem_env \<Rightarrow> handle \<Rightarrow> u32 \<Rightarrow> 'w \<Rightarrow> 'w" where
  "invalidate M base words w = me_invalidate M base (words * 4) w"

subsection \<open>The memory test\<close>

text \<open>\<open>fail\<close> is the content of the place for the offending offset.\<close>

definition base_pattern :: u32 where "base_pattern = 0xAAAAAAAA"
definition anti_pattern :: u32 where "anti_pattern = 0x55555555"

fun address_fill :: "nat \<Rightarrow> 'w mem_env \<Rightarrow> handle \<Rightarrow> u32 \<Rightarrow> u32 \<Rightarrow> 'w \<Rightarrow> 'w option" where
  "address_fill n M base words offset w =
    (if offset < words
     then (case n of
         0 \<Rightarrow> None
       | Suc n \<Rightarrow> address_fill n M base words (push_bit 1 offset) (me_write M base offset (base_pattern XOR offset) w))
     else Some w)"

fun address_check :: "nat \<Rightarrow> 'w mem_env \<Rightarrow> handle \<Rightarrow> u32 \<Rightarrow> u32 \<Rightarrow> u32 \<Rightarrow> 'w \<Rightarrow> (qiran_status \<times> u32 \<times> 'w) option" where
  "address_check n M base words offset fail w =
    (if offset < words
     then (case n of
         0 \<Rightarrow> None
       | Suc n \<Rightarrow> (let (v, w) = me_read M base offset w
                  in if v \<noteq> base_pattern XOR offset then Some (QIRAN_ERR_HARDWARE, offset, w)
                     else address_check n M base words (push_bit 1 offset) fail w))
     else Some (QIRAN_OK, fail, w))"

declare address_fill.simps [simp del] address_check.simps [simp del]

definition ADDRESS_TURNS :: nat where "ADDRESS_TURNS = 32"

definition test_address_lines ::
  "'w mem_env \<Rightarrow> handle \<Rightarrow> u32 \<Rightarrow> u32 \<Rightarrow> 'w \<Rightarrow> (qiran_status \<times> u32 \<times> 'w) option" where
  "test_address_lines M base words fail w = do {
     w \<leftarrow> address_fill ADDRESS_TURNS M base words 1 w;
     let w = me_write M base 0 anti_pattern w;
     let w = flush M base words w;
     let w = invalidate M base words w;
     let (v, w) = me_read M base 0 w;
     if v \<noteq> anti_pattern then Some (QIRAN_ERR_HARDWARE, 0, w)
     else address_check ADDRESS_TURNS M base words 1 fail w }"

fun data_lines_from :: "'w mem_env \<Rightarrow> handle \<Rightarrow> nat list \<Rightarrow> u32 \<Rightarrow> 'w \<Rightarrow> qiran_status \<times> u32 \<times> 'w" where
  "data_lines_from M base [] fail w = (QIRAN_OK, fail, w)"
| "data_lines_from M base (b # bs) fail w =
     (let pattern = push_bit b 1;
          w = me_write M base 0 pattern w;
          w = flush M base 1 w;
          w = invalidate M base 1 w;
          (v, w) = me_read M base 0 w
      in if v \<noteq> pattern then (QIRAN_ERR_HARDWARE, of_nat b, w) else data_lines_from M base bs fail w)"

definition test_data_lines :: "'w mem_env \<Rightarrow> handle \<Rightarrow> u32 \<Rightarrow> 'w \<Rightarrow> qiran_status \<times> u32 \<times> 'w" where
  "test_data_lines M base fail w = data_lines_from M base [0..<32] fail w"

text \<open>The value written to and expected from a word in a pass.\<close>

definition cell_value :: "bool \<Rightarrow> u32 \<Rightarrow> u32" where
  "cell_value second i = (if second then NOT i else i)"

definition cells_fill :: "'w mem_env \<Rightarrow> handle \<Rightarrow> bool \<Rightarrow> nat list \<Rightarrow> 'w \<Rightarrow> 'w" where
  "cells_fill M base second is w = fold (\<lambda>i. me_write M base (of_nat i) (cell_value second (of_nat i))) is w"

fun cells_check :: "'w mem_env \<Rightarrow> handle \<Rightarrow> bool \<Rightarrow> nat list \<Rightarrow> u32 \<Rightarrow> 'w \<Rightarrow> qiran_status \<times> u32 \<times> 'w" where
  "cells_check M base second [] fail w = (QIRAN_OK, fail, w)"
| "cells_check M base second (i # is) fail w =
     (let expect = cell_value second (of_nat i); (v, w) = me_read M base (of_nat i) w
      in if v \<noteq> expect then (QIRAN_ERR_HARDWARE, of_nat i, w) else cells_check M base second is fail w)"

fun cells_passes :: "'w mem_env \<Rightarrow> handle \<Rightarrow> u32 \<Rightarrow> bool list \<Rightarrow> u32 \<Rightarrow> 'w \<Rightarrow> qiran_status \<times> u32 \<times> 'w" where
  "cells_passes M base words [] fail w = (QIRAN_OK, fail, w)"
| "cells_passes M base words (second # passes) fail w =
     (let w = cells_fill M base second [0..<unat words] w;
          w = flush M base words w;
          w = invalidate M base words w;
          (st, fail, w) = cells_check M base second [0..<unat words] fail w
      in if st \<noteq> QIRAN_OK then (st, fail, w) else cells_passes M base words passes fail w)"

definition test_cells :: "'w mem_env \<Rightarrow> handle \<Rightarrow> u32 \<Rightarrow> u32 \<Rightarrow> 'w \<Rightarrow> qiran_status \<times> u32 \<times> 'w" where
  "test_cells M base words fail w = cells_passes M base words [False, True] fail w"

text \<open>A caller that gives no place for the offset gets the same with the offset dropped.\<close>

definition plat_post_memory_test ::
  "'w mem_env \<Rightarrow> handle option \<Rightarrow> u32 \<Rightarrow> u32 \<Rightarrow> 'w \<Rightarrow> (qiran_status \<times> u32 \<times> 'w) option" where
  "plat_post_memory_test M base words out w =
    (if base = None \<or> words < 2 then Some (QIRAN_ERR_PARAM, out, w)
     else (let base = the base; out = 0;
               (st, out, w) = test_data_lines M base out w
           in if st \<noteq> QIRAN_OK then Some (st, out, w)
              else do {
                (st, out, w) \<leftarrow> test_address_lines M base words out w;
                if st \<noteq> QIRAN_OK then Some (st, out, w)
                else Some (test_cells M base words out w) }))"

subsection \<open>The table of tests\<close>

definition builtin_memory_test ::
  "'a post_world_scheme post_env \<Rightarrow> u32 \<Rightarrow> 'a post_world_scheme \<Rightarrow> (qiran_status \<times> u32 \<times> 'a post_world_scheme) option" where
  "builtin_memory_test E detail w =
    (if po_mem_base (w_post w) = None then Some (QIRAN_ERR_UNSUPPORTED, detail, w)
     else plat_post_memory_test (pe_mem E) (po_mem_base (w_post w)) (po_mem_words (w_post w)) detail w)"

definition plat_post_register ::
  "string option \<Rightarrow> plat_post_test option \<Rightarrow> 'a post_world_scheme \<Rightarrow> qiran_status \<times> 'a post_world_scheme" where
  "plat_post_register name test w =
    (if name = None \<or> test = None then (QIRAN_ERR_PARAM, w)
     else if PLAT_POST_MAX \<le> po_count (w_post w) then (QIRAN_ERR_RANGE, w)
     else (QIRAN_OK, post_upd (\<lambda>s. s\<lparr>po_entry := (po_entry s)[unat (po_count s) :=
               \<lparr>pt_name = the name, pt_test = the test\<rparr>], po_count := po_count s + 1\<rparr>) w))"

definition plat_post_init :: "'a post_world_scheme \<Rightarrow> 'a post_world_scheme" where
  "plat_post_init w =
    (let w = post_upd (\<lambda>s. s\<lparr>po_count := 0, po_failures := 0, po_mem_base := None, po_mem_words := 0\<rparr>) w
     in snd (plat_post_register (Some ''memory'') (Some Builtin_memory_test) w))"

definition plat_post_set_memory_region ::
  "handle option \<Rightarrow> u32 \<Rightarrow> 'a post_world_scheme \<Rightarrow> qiran_status \<times> 'a post_world_scheme" where
  "plat_post_set_memory_region base bytes w =
    (if base = None \<or> bytes < 8 then (QIRAN_ERR_PARAM, w)
     else (QIRAN_OK, post_upd (\<lambda>s. s\<lparr>po_mem_base := base, po_mem_words := bytes div 4\<rparr>) w))"

definition post_call ::
  "'a post_world_scheme post_env \<Rightarrow> plat_post_test \<Rightarrow> 'a post_world_scheme \<Rightarrow>
   (qiran_status \<times> u32 \<times> 'a post_world_scheme) option" where
  "post_call E t w =
    (case t of Builtin_memory_test \<Rightarrow> builtin_memory_test E 0 w | Ext_test h \<Rightarrow> Some (pe_test E h w))"

text \<open>What is noted of one test.\<close>

definition post_note :: "nat \<Rightarrow> qiran_status \<Rightarrow> u32 \<Rightarrow> u32 \<Rightarrow> post_state \<Rightarrow> post_state" where
  "post_note i st detail duration s =
    (let s = s\<lparr>po_result := (po_result s)[i := \<lparr>pr_name = Some (pt_name (po_entry s ! i)), pr_result = st,
               pr_detail = detail, pr_duration_ms = duration, pr_ran = (st \<noteq> QIRAN_ERR_UNSUPPORTED)\<rparr>]\<rparr>
     in if st \<noteq> QIRAN_ERR_UNSUPPORTED \<and> st \<noteq> QIRAN_OK then s\<lparr>po_failures := po_failures s + 1\<rparr> else s)"

fun post_loop ::
  "'a post_world_scheme post_env \<Rightarrow> nat list \<Rightarrow> qiran_status \<Rightarrow> 'a post_world_scheme \<Rightarrow>
   (qiran_status \<times> 'a post_world_scheme) option" where
  "post_loop E [] overall w = Some (overall, w)"
| "post_loop E (i # is) overall w =
     (if unat (po_count (w_post w)) \<le> i then post_loop E is overall w
      else (let (started, w) = svc_time_now_ms w
            in do {
              (st, detail, w) \<leftarrow> post_call E (pt_test (po_entry (w_post w) ! i)) w;
              let (now, w) = svc_time_now_ms w;
              let w = post_upd (post_note i st detail (ucast (now - started))) w;
              post_loop E is (if st \<noteq> QIRAN_ERR_UNSUPPORTED \<and> st \<noteq> QIRAN_OK then QIRAN_ERR_HARDWARE else overall) w }))"

definition plat_post_run ::
  "'a post_world_scheme post_env \<Rightarrow> 'a post_world_scheme \<Rightarrow> (qiran_status \<times> 'a post_world_scheme) option" where
  "plat_post_run E w =
    post_loop E [0..<unat PLAT_POST_MAX] QIRAN_OK (post_upd (\<lambda>s. s\<lparr>po_failures := 0\<rparr>) w)"

definition plat_post_count :: "'a post_world_scheme \<Rightarrow> u32" where
  "plat_post_count w = po_count (w_post w)"

definition plat_post_failures :: "'a post_world_scheme \<Rightarrow> u32" where
  "plat_post_failures w = po_failures (w_post w)"

definition plat_post_result_get :: "u32 \<Rightarrow> 'a post_world_scheme \<Rightarrow> plat_post_result option" where
  "plat_post_result_get i w =
    (if po_count (w_post w) \<le> i then None else Some (po_result (w_post w) ! unat i))"

end
