(* ===== verification/Post_Memory.thy ===== *)
theory Post_Memory
  imports Plat_Post
begin

section \<open>What the memory test finds\<close>

text \<open>
  The faults the memory test is meant for, as a model of a memory that has any of them: the address
  decoder sends a word offset to a cell, wrongly or not; a data line drives a set of lines, itself and
  any it is shorted to, or nothing if it is open; each cell has bits stuck at one and bits stuck at
  zero. The contract says that the environment's memory is such a memory, the cells being read from
  the state by \<open>cells\<close>, and that maintaining the cache does not change it.
\<close>

record mem_faults =
  mf_decode :: "nat \<Rightarrow> nat"
  mf_drives :: "nat \<Rightarrow> u32"
  mf_high :: "nat \<Rightarrow> u32"
  mf_low :: "nat \<Rightarrow> u32"

definition mem_bus :: "mem_faults \<Rightarrow> u32 \<Rightarrow> u32" where
  "mem_bus F v = fold (\<lambda>b acc. if bit v b then acc OR mf_drives F b else acc) [0..<32] 0"

definition mem_stored :: "mem_faults \<Rightarrow> nat \<Rightarrow> u32 \<Rightarrow> u32" where
  "mem_stored F c v = (mem_bus F v OR mf_high F c) AND NOT (mf_low F c)"

definition mem_with :: "mem_faults \<Rightarrow> 'w mem_env \<Rightarrow> handle \<Rightarrow> nat \<Rightarrow> ('w \<Rightarrow> nat \<Rightarrow> u32) \<Rightarrow> bool" where
  "mem_with F M base n cells \<longleftrightarrow>
    (\<forall>i v w. unat i < n \<longrightarrow> cells (me_write M base i v w) =
       (cells w)(mf_decode F (unat i) := mem_stored F (mf_decode F (unat i)) v)) \<and>
    (\<forall>i w. unat i < n \<longrightarrow> fst (me_read M base i w) = cells w (mf_decode F (unat i)) \<and>
       cells (snd (me_read M base i w)) = cells w) \<and>
    (\<forall>k w. cells (me_flush M base k w) = cells w \<and> cells (me_invalidate M base k w) = cells w)"

definition mem_sound :: "mem_faults \<Rightarrow> nat \<Rightarrow> bool" where
  "mem_sound F n \<longleftrightarrow> inj_on (mf_decode F) {..<n} \<and> (\<forall>b < 32. mf_drives F b = push_bit b 1) \<and>
     (\<forall>i < n. mf_high F (mf_decode F i) = 0 \<and> mf_low F (mf_decode F i) = 0)"

subsection \<open>The lines and the cells\<close>

lemma mem_bus_bit: "bit (mem_bus F v) j \<longleftrightarrow> (\<exists>b < 32. bit v b \<and> bit (mf_drives F b) j)"
proof -
  have "bit (fold (\<lambda>b acc. if bit v b then acc OR mf_drives F b else acc) bs a) j \<longleftrightarrow>
      bit a j \<or> (\<exists>b \<in> set bs. bit v b \<and> bit (mf_drives F b) j)" for bs a
    by (induction bs arbitrary: a) (auto simp: bit_or_iff)
  then show ?thesis by (auto simp: mem_bus_def)
qed

lemma mem_stored_bit:
  "j < 32 \<Longrightarrow> bit (mem_stored F c v) j \<longleftrightarrow> (bit (mem_bus F v) j \<or> bit (mf_high F c) j) \<and> \<not> bit (mf_low F c) j"
  by (simp add: mem_stored_def bit_simps)

lemma line_bit: "bit (2 ^ b :: u32) j \<longleftrightarrow> j < 32 \<and> j = b"
  by (auto simp: bit_exp_iff)

lemma mem_bus_line: "b < 32 \<Longrightarrow> bit (mem_bus F (push_bit b 1)) j \<longleftrightarrow> bit (mf_drives F b) j"
  by (auto simp: mem_bus_bit line_bit)

lemma word_zero_bits: "(\<And>j. j < 32 \<Longrightarrow> \<not> bit (v :: u32) j) \<Longrightarrow> v = 0"
  by (rule bit_word_eqI) simp

text \<open>A word in which every line, driven alone, reads back alone: the lines are separate, and the word
  has no stuck bit.\<close>

lemma lines_alone:
  assumes "\<forall>b < 32. mem_stored F c (push_bit b 1) = push_bit b 1"
  shows "\<forall>b < 32. mf_drives F b = push_bit b 1" "mf_high F c = 0" "mf_low F c = 0"
proof -
  have s: "(bit (mf_drives F b) j \<or> bit (mf_high F c) j) \<and> \<not> bit (mf_low F c) j \<longleftrightarrow> j = b"
    if "b < 32" "j < 32" for b j
    using mem_stored_bit [OF that(2), of F c "push_bit b 1"] mem_bus_line [OF that(1), of F j] assms that
    by (auto simp: line_bit)
  have low: "\<not> bit (mf_low F c) j" if "j < 32" for j using s [OF that that] by simp
  have high: "\<not> bit (mf_high F c) j" if "j < 32" for j
  proof -
    define b :: nat where "b = (if j = 0 then 1 else 0)"
    have "b < 32" "b \<noteq> j" by (simp_all add: b_def)
    then show ?thesis using s [of b j] low that by simp
  qed
  show "mf_high F c = 0" "mf_low F c = 0" using high low by (auto intro: word_zero_bits)
  have "mf_drives F b = push_bit b 1" if "b < 32" for b
    by (rule bit_word_eqI) (use s [OF that] high low that in \<open>auto simp: line_bit\<close>)
  then show "\<forall>b < 32. mf_drives F b = push_bit b 1" by simp
qed

lemma sound_stored:
  assumes "mem_sound F n" "i < n"
  shows "mem_stored F (mf_decode F i) v = v"
proof -
  have "mem_bus F v = v"
    by (rule bit_word_eqI) (use assms in \<open>auto simp: mem_bus_bit mem_sound_def line_bit\<close>)
  then show ?thesis using assms by (simp add: mem_stored_def mem_sound_def)
qed

text \<open>A word that has held a value and its complement has no stuck bit.\<close>

lemma both_polarities:
  assumes "mem_stored F c v = x" "mem_stored F c u = NOT x"
  shows "mf_high F c = 0" "mf_low F c = 0"
proof -
  have "\<not> bit (mf_high F c) j \<and> \<not> bit (mf_low F c) j" if "j < 32" for j
    using mem_stored_bit [OF that, of F c v] mem_stored_bit [OF that, of F c u] assms that
    by (auto simp: bit_not_iff)
  then show "mf_high F c = 0" "mf_low F c = 0" by (auto intro: word_zero_bits)
qed

subsection \<open>The three tests over such a memory\<close>

lemma mem_withD:
  assumes "mem_with F M base n cells"
  shows "unat i < n \<Longrightarrow> cells (me_write M base i v w) =
      (cells w)(mf_decode F (unat i) := mem_stored F (mf_decode F (unat i)) v)"
    "unat i < n \<Longrightarrow> fst (me_read M base i w) = cells w (mf_decode F (unat i))"
    "unat i < n \<Longrightarrow> cells (snd (me_read M base i w)) = cells w"
    "cells (flush M base k w) = cells w" "cells (invalidate M base k w) = cells w"
  using assms by (simp_all add: mem_with_def flush_def invalidate_def)

lemma data_lines_verdict:
  assumes "mem_with F M base n cells" "0 < n"
  shows "fst (data_lines_from M base bs fail w) = QIRAN_OK \<longleftrightarrow>
    (\<forall>b \<in> set bs. mem_stored F (mf_decode F 0) (push_bit b 1) = push_bit b 1)"
proof (induction bs arbitrary: w)
  case (Cons b bs)
  note m = mem_withD [OF assms(1)]
  define p where "p = (push_bit b 1 :: u32)"
  let ?w = "invalidate M base 1 (flush M base 1 (me_write M base 0 p w))"
  obtain v u where r: "me_read M base 0 ?w = (v, u)" by (rule prod.exhaust)
  have "v = fst (me_read M base 0 ?w)" by (simp add: r)
  also have "\<dots> = cells ?w (mf_decode F 0)" using m(2) [of 0 ?w] assms(2) by simp
  also have "\<dots> = mem_stored F (mf_decode F 0) p" using m(1) [of 0 p w] assms(2) by (simp add: m(4,5))
  finally have v: "v = mem_stored F (mf_decode F 0) p" .
  show ?case
  proof (cases "v = p")
    case True
    then show ?thesis using Cons.IH [of u] v r by (simp add: Let_def p_def [symmetric] del: push_bit_of_1)
  next
    case False
    then show ?thesis using v r by (simp add: Let_def p_def [symmetric] del: push_bit_of_1)
  qed
qed simp

lemma cells_check_verdict:
  assumes "mem_with F M base n cells" "n \<le> 2 ^ 32" "set is \<subseteq> {..<n}"
  shows "fst (cells_check M base second is fail w) = QIRAN_OK \<longleftrightarrow>
      (\<forall>i \<in> set is. cells w (mf_decode F i) = cell_value second (of_nat i))"
    "cells (snd (snd (cells_check M base second is fail w))) = cells w"
proof -
  have "(fst (cells_check M base second is fail w) = QIRAN_OK \<longleftrightarrow>
      (\<forall>i \<in> set is. cells w (mf_decode F i) = cell_value second (of_nat i))) \<and>
    cells (snd (snd (cells_check M base second is fail w))) = cells w"
    using assms(3)
  proof (induction "is" arbitrary: w)
    case (Cons i js)
    have i: "unat (of_nat i :: u32) = i" "i < n" using Cons.prems assms(2) by (simp_all add: unat_of_nat)
    obtain v u where r: "me_read M base (of_nat i) w = (v, u)" by (rule prod.exhaust)
    have v: "v = cells w (mf_decode F i)" "cells u = cells w"
      using mem_withD(2,3) [OF assms(1), of "of_nat i" w] i by (simp_all add: r)
    show ?case
    proof (cases "v = cell_value second (of_nat i)")
      case True
      then show ?thesis using Cons.IH [of u] Cons.prems v r by (simp add: Let_def)
    next
      case False
      then show ?thesis using v r by (simp add: Let_def)
    qed
  qed simp
  then show "fst (cells_check M base second is fail w) = QIRAN_OK \<longleftrightarrow>
      (\<forall>i \<in> set is. cells w (mf_decode F i) = cell_value second (of_nat i))"
    "cells (snd (snd (cells_check M base second is fail w))) = cells w" by blast+
qed

text \<open>Filling: what a cell holds afterwards is something it stores, and the value of its own offset if
  the decoder keeps the offsets apart.\<close>

lemma cells_fill_stored:
  assumes "mem_with F M base n cells" "n \<le> 2 ^ 32" "set is \<subseteq> {..<n}"
  shows "i \<in> set is \<or> (\<exists>v. cells w (mf_decode F i) = mem_stored F (mf_decode F i) v) \<Longrightarrow>
    \<exists>v. cells (cells_fill M base second is w) (mf_decode F i) = mem_stored F (mf_decode F i) v"
  using assms(3)
proof (induction "is" arbitrary: w)
  case (Cons k ks)
  have k: "unat (of_nat k :: u32) = k" "k < n" using Cons.prems assms(2) by (simp_all add: unat_of_nat)
  let ?w = "me_write M base (of_nat k) (cell_value second (of_nat k)) w"
  have "cells ?w = (cells w)(mf_decode F k := mem_stored F (mf_decode F k) (cell_value second (of_nat k)))"
    using mem_withD(1) [OF assms(1), of "of_nat k"] k by simp
  then have "i \<in> set ks \<or> (\<exists>v. cells ?w (mf_decode F i) = mem_stored F (mf_decode F i) v)"
    using Cons.prems(1) by auto
  then show ?case using Cons.IH [of ?w] Cons.prems(2) by (simp add: cells_fill_def)
qed (simp add: cells_fill_def)

lemma cells_fill_sound:
  assumes "mem_with F M base n cells" "n \<le> 2 ^ 32" "mem_sound F n" "k \<le> n"
  shows "\<forall>i < k. cells (cells_fill M base second [0..<k] w) (mf_decode F i) = cell_value second (of_nat i)"
  using assms(4)
proof (induction k)
  case (Suc k)
  have k: "unat (of_nat k :: u32) = k" "k < n" using Suc.prems assms(2) by (simp_all add: unat_of_nat)
  have "cells (cells_fill M base second [0..<Suc k] w) =
      (cells (cells_fill M base second [0..<k] w))(mf_decode F k := cell_value second (of_nat k))"
    using mem_withD(1) [OF assms(1), of "of_nat k"] k sound_stored [OF assms(3) k(2)] by (simp add: cells_fill_def)
  moreover have "mf_decode F i \<noteq> mf_decode F k" if "i < k" for i
    using assms(3) that k(2) by (auto simp: mem_sound_def inj_on_def)
  ultimately show ?case using Suc by (auto simp: less_Suc_eq)
qed simp

text \<open>The offsets of the address test are the powers of two below the size of the region.\<close>

lemma offset_unat: "k < 32 \<Longrightarrow> unat (2 ^ k :: u32) = 2 ^ k"
proof -
  assume "k < 32"
  then have "(2 :: nat) ^ k < 2 ^ 32" by (rule power_strict_increasing) simp
  moreover have "(2 ^ k :: u32) = of_nat (2 ^ k)" by simp
  ultimately show ?thesis by (simp only: unat_of_nat) simp
qed

lemma offset_next: "push_bit 1 (2 ^ k :: u32) = 2 ^ Suc k"
  by (simp add: push_bit_eq_mult)

lemma offset_less:
  assumes "unat words \<le> 2 ^ 31" "k \<le> 31"
  shows "(2 ^ k :: u32) < words \<longleftrightarrow> 2 ^ k < unat words" "2 ^ k < unat words \<Longrightarrow> k < 31"
proof -
  show "(2 ^ k :: u32) < words \<longleftrightarrow> 2 ^ k < unat words"
    using assms(2) by (simp add: word_less_nat_alt offset_unat)
  assume "2 ^ k < unat words"
  then have "(2 :: nat) ^ k < 2 ^ 31" using assms(1) by linarith
  then show "k < 31" by (rule power_less_imp_less_exp [rotated]) simp
qed

lemma address_fill_result:
  assumes "mem_with F M base (unat words) cells" "unat words \<le> 2 ^ 31"
  shows "k \<le> 31 \<Longrightarrow> 31 \<le> m + k \<Longrightarrow> \<exists>u. address_fill m M base words (2 ^ k) w = Some u \<and>
    (mem_sound F (unat words) \<longrightarrow> (\<forall>i < unat words. cells u (mf_decode F i) =
       (if \<exists>j \<ge> k. i = 2 ^ j then base_pattern XOR of_nat i else cells w (mf_decode F i))))"
proof (induction m arbitrary: k w)
  case 0
  then have "\<not> (2 ^ k :: u32) < words" using offset_less [OF assms(2), of k] by auto
  moreover have "\<not> (\<exists>j \<ge> k. i = 2 ^ j)" if "i < unat words" for i
  proof -
    have "k = 31" using 0 by simp
    then have "unat words \<le> 2 ^ k" using assms(2) by simp
    moreover have "(2 :: nat) ^ k \<le> 2 ^ j" if "k \<le> j" for j using that by (simp add: power_increasing)
    ultimately show ?thesis using that by (meson le_trans not_le)
  qed
  ultimately show ?case by (auto simp: address_fill.simps)
next
  case (Suc m)
  show ?case
  proof (cases "2 ^ k < unat words")
    case False
    have "\<not> (\<exists>j \<ge> k. i = 2 ^ j)" if "i < unat words" for i
    proof -
      have "(2 :: nat) ^ k \<le> 2 ^ j" if "k \<le> j" for j using that by (simp add: power_increasing)
      then show ?thesis using that False by (meson le_trans not_le)
    qed
    then show ?thesis using False offset_less [OF assms(2) Suc.prems(1)] by (auto simp: address_fill.simps)
  next
    case True
    note k = offset_less(2) [OF assms(2) Suc.prems(1) True]
    let ?w = "me_write M base (2 ^ k) (base_pattern XOR 2 ^ k) w"
    have un: "unat (2 ^ k :: u32) = 2 ^ k" using k by (intro offset_unat) simp
    have step: "address_fill (Suc m) M base words (2 ^ k) w = address_fill m M base words (2 ^ Suc k) ?w"
      using True offset_less(1) [OF assms(2) Suc.prems(1)] offset_next [of k] by (subst address_fill.simps) (simp add: mult.commute)
    from Suc.IH [of "Suc k" ?w] k Suc.prems
    obtain u where u: "address_fill m M base words (2 ^ Suc k) ?w = Some u"
      "mem_sound F (unat words) \<Longrightarrow> i < unat words \<Longrightarrow> cells u (mf_decode F i) =
         (if \<exists>j \<ge> Suc k. i = 2 ^ j then base_pattern XOR of_nat i else cells ?w (mf_decode F i))" for i by auto
    have w: "cells ?w = (cells w)(mf_decode F (2 ^ k) := base_pattern XOR 2 ^ k)" if "mem_sound F (unat words)"
      using mem_withD(1) [OF assms(1), of "2 ^ k"] True sound_stored [OF that True] unfolding un by simp
    have "cells u (mf_decode F i) = (if \<exists>j \<ge> k. i = 2 ^ j then base_pattern XOR of_nat i else cells w (mf_decode F i))"
      if s: "mem_sound F (unat words)" and i: "i < unat words" for i
    proof -
      have inj: "mf_decode F i = mf_decode F (2 ^ k) \<longleftrightarrow> i = 2 ^ k"
        using s i True by (auto simp: mem_sound_def inj_on_def)
      have ex: "(\<exists>j \<ge> k. i = 2 ^ j) \<longleftrightarrow> i = 2 ^ k \<or> (\<exists>j \<ge> Suc k. i = 2 ^ j)"
        by (metis Suc_leD not_less_eq_eq order_antisym order_refl)
      show ?thesis using u(2) [OF s i] w [OF s] inj ex by auto
    qed
    then show ?thesis using u(1) step by auto
  qed
qed

lemma address_check_result:
  assumes "mem_with F M base (unat words) cells" "unat words \<le> 2 ^ 31"
  shows "k \<le> 31 \<Longrightarrow> 31 \<le> m + k \<Longrightarrow> \<exists>r. address_check m M base words (2 ^ k) fail w = Some r \<and>
    ((\<forall>j \<ge> k. 2 ^ j < unat words \<longrightarrow> cells w (mf_decode F (2 ^ j)) = base_pattern XOR 2 ^ j) \<longrightarrow>
     fst r = QIRAN_OK)"
proof (induction m arbitrary: k w)
  case 0
  then have "\<not> (2 ^ k :: u32) < words" using offset_less [OF assms(2), of k] by auto
  then show ?case by (simp add: address_check.simps)
next
  case (Suc m)
  show ?case
  proof (cases "2 ^ k < unat words")
    case False
    then show ?thesis using offset_less [OF assms(2) Suc.prems(1)] by (simp add: address_check.simps)
  next
    case True
    note k = offset_less(2) [OF assms(2) Suc.prems(1) True]
    have un: "unat (2 ^ k :: u32) = 2 ^ k" using k by (intro offset_unat) simp
    obtain v u where r: "me_read M base (2 ^ k) w = (v, u)" by (rule prod.exhaust)
    have v: "v = cells w (mf_decode F (2 ^ k))" "cells u = cells w"
      using mem_withD(2,3) [OF assms(1), of "2 ^ k" w] True unfolding un r by simp_all
    have step: "address_check (Suc m) M base words (2 ^ k) fail w =
        (if v \<noteq> base_pattern XOR 2 ^ k then Some (QIRAN_ERR_HARDWARE, 2 ^ k, u)
         else address_check m M base words (2 ^ Suc k) fail u)"
      using True offset_less(1) [OF assms(2) Suc.prems(1)] offset_next [of k]
      by (subst address_check.simps) (simp add: r mult.commute)
    from Suc.IH [of "Suc k" u] k Suc.prems
    obtain q where q: "address_check m M base words (2 ^ Suc k) fail u = Some q"
      "(\<forall>j \<ge> Suc k. 2 ^ j < unat words \<longrightarrow> cells u (mf_decode F (2 ^ j)) = base_pattern XOR 2 ^ j) \<Longrightarrow> fst q = QIRAN_OK" by auto
    show ?thesis using step q v True by (cases "v = base_pattern XOR 2 ^ k") auto
  qed
qed

lemma test_address_lines_result:
  assumes "mem_with F M base (unat words) cells" "unat words \<le> 2 ^ 31" "0 < unat words"
  shows "\<exists>r. test_address_lines M base words fail w = Some r \<and> (mem_sound F (unat words) \<longrightarrow> fst r = QIRAN_OK)"
proof -
  note m = mem_withD [OF assms(1)]
  obtain u where u: "address_fill ADDRESS_TURNS M base words 1 w = Some u"
    "mem_sound F (unat words) \<Longrightarrow> i < unat words \<Longrightarrow> cells u (mf_decode F i) =
       (if \<exists>j \<ge> 0. i = 2 ^ j then base_pattern XOR of_nat i else cells w (mf_decode F i))" for i
    using address_fill_result [OF assms(1,2), of 0 ADDRESS_TURNS w] by (auto simp: ADDRESS_TURNS_def)
  define u1 where "u1 = invalidate M base words (flush M base words (me_write M base 0 anti_pattern u))"
  have u1: "cells u1 = (cells u)(mf_decode F 0 := mem_stored F (mf_decode F 0) anti_pattern)"
    using m(1) [of 0 anti_pattern u] assms(3) by (simp add: u1_def m(4,5))
  obtain v u2 where r: "me_read M base 0 u1 = (v, u2)" by (rule prod.exhaust)
  have v: "v = mem_stored F (mf_decode F 0) anti_pattern" "cells u2 = cells u1"
    using m(2,3) [of 0 u1] assms(3) by (simp_all add: r u1)
  obtain q where q: "address_check ADDRESS_TURNS M base words 1 fail u2 = Some q"
    "(\<forall>j \<ge> 0. 2 ^ j < unat words \<longrightarrow> cells u2 (mf_decode F (2 ^ j)) = base_pattern XOR 2 ^ j) \<Longrightarrow> fst q = QIRAN_OK"
    using address_check_result [OF assms(1,2), of 0 ADDRESS_TURNS fail u2] by (auto simp: ADDRESS_TURNS_def)
  have "cells u2 (mf_decode F (2 ^ j)) = base_pattern XOR 2 ^ j" if s: "mem_sound F (unat words)" and j: "2 ^ j < unat words" for j
  proof -
    have "mf_decode F (2 ^ j) \<noteq> mf_decode F 0"
      using s j assms(3) inj_onD [of "mf_decode F" "{..<unat words}" "2 ^ j" 0] by (auto simp: mem_sound_def)
    then show ?thesis using u(2) [OF s j] v(2) u1 by auto
  qed
  moreover have "v = anti_pattern" if "mem_sound F (unat words)"
    using v(1) sound_stored [OF that assms(3)] by simp
  ultimately show ?thesis
    using u(1) q unfolding test_address_lines_def
    by (cases q) (auto simp: u1_def [symmetric] r Let_def)
qed

lemma cells_pass:
  assumes "mem_with F M base (unat words) cells" "0 < unat words"
  shows "fst (cells_check M base second [0..<unat words] fail
      (invalidate M base words (flush M base words (cells_fill M base second [0..<unat words] w)))) = QIRAN_OK \<longleftrightarrow>
    (\<forall>i < unat words. cells (cells_fill M base second [0..<unat words] w) (mf_decode F i) = cell_value second (of_nat i))"
proof -
  have n: "unat words \<le> 2 ^ 32" using unat_u32_less [of words] by simp
  show ?thesis
    by (subst cells_check_verdict(1) [OF assms(1) n]) (auto simp: mem_withD(4,5) [OF assms(1)])
qed

lemma test_cells_verdict:
  assumes "mem_with F M base (unat words) cells" "0 < unat words"
  shows "fst (test_cells M base words fail w) = QIRAN_OK \<Longrightarrow> inj_on (mf_decode F) {..<unat words} \<and>
      (\<forall>i < unat words. mf_high F (mf_decode F i) = 0 \<and> mf_low F (mf_decode F i) = 0)"
    "mem_sound F (unat words) \<Longrightarrow> fst (test_cells M base words fail w) = QIRAN_OK"
proof -
  have n: "unat words \<le> 2 ^ 32" using unat_u32_less [of words] by simp
  have sub: "set [0..<unat words] \<subseteq> {..<unat words}" by auto
  let ?fill = "\<lambda>second w. cells_fill M base second [0..<unat words] w"
  let ?run = "\<lambda>second fail w. cells_check M base second [0..<unat words] fail
      (invalidate M base words (flush M base words (?fill second w)))"
  obtain st1 f1 w1 where r1: "?run False fail w = (st1, f1, w1)" by (rule prod_cases3)
  obtain st2 f2 w2 where r2: "?run True f1 w1 = (st2, f2, w2)" by (rule prod_cases3)
  have run: "test_cells M base words fail w = (if st1 \<noteq> QIRAN_OK then (st1, f1, w1) else (st2, f2, w2))"
    using r1 r2 by (simp add: test_cells_def Let_def)
  have pass: "st1 = QIRAN_OK \<longleftrightarrow> (\<forall>i < unat words. cells (?fill False w) (mf_decode F i) = of_nat i)"
    "st2 = QIRAN_OK \<longleftrightarrow> (\<forall>i < unat words. cells (?fill True w1) (mf_decode F i) = NOT (of_nat i))"
    using cells_pass [OF assms, of False fail w] cells_pass [OF assms, of True f1 w1]
    by (simp_all add: r1 r2 cell_value_def)
  show "fst (test_cells M base words fail w) = QIRAN_OK" if s: "mem_sound F (unat words)"
  proof -
    have "st1 = QIRAN_OK" "st2 = QIRAN_OK"
      unfolding pass using cells_fill_sound [OF assms(1) n s order_refl] by (simp_all add: cell_value_def)
    then show ?thesis by (simp add: run)
  qed
  assume "fst (test_cells M base words fail w) = QIRAN_OK"
  then have ok: "st1 = QIRAN_OK" "st2 = QIRAN_OK" by (auto simp: run split: if_splits)
  have "i = j" if "i < unat words" "j < unat words" "mf_decode F i = mf_decode F j" for i j
  proof -
    have "(of_nat i :: u32) = of_nat j" using ok(1) that unfolding pass by metis
    then have "unat (of_nat i :: u32) = unat (of_nat j :: u32)" by simp
    then show ?thesis using that(1,2) unat_u32_less [of words] by (simp add: unat_of_nat_eq_u32)
  qed
  moreover have "mf_high F (mf_decode F i) = 0 \<and> mf_low F (mf_decode F i) = 0" if i: "i < unat words" for i
  proof -
    obtain v where v: "cells (?fill False w) (mf_decode F i) = mem_stored F (mf_decode F i) v"
      using cells_fill_stored [OF assms(1) n sub, of i w False] i by auto
    obtain u where u: "cells (?fill True w1) (mf_decode F i) = mem_stored F (mf_decode F i) u"
      using cells_fill_stored [OF assms(1) n sub, of i w1 True] i by auto
    have "mem_stored F (mf_decode F i) v = of_nat i" "mem_stored F (mf_decode F i) u = NOT (of_nat i)"
      using ok i v u unfolding pass by simp_all
    then show ?thesis using both_polarities by blast
  qed
  ultimately show "inj_on (mf_decode F) {..<unat words} \<and>
      (\<forall>i < unat words. mf_high F (mf_decode F i) = 0 \<and> mf_low F (mf_decode F i) = 0)"
    by (auto intro!: inj_onI)
qed

lemma sound_split:
  assumes "0 < n"
  shows "mem_sound F n \<longleftrightarrow> (\<forall>b < 32. mem_stored F (mf_decode F 0) (push_bit b 1) = push_bit b 1) \<and>
    inj_on (mf_decode F) {..<n} \<and> (\<forall>i < n. mf_high F (mf_decode F i) = 0 \<and> mf_low F (mf_decode F i) = 0)"
  using lines_alone(1) [of F "mf_decode F 0"] sound_stored [OF _ assms, of F] by (auto simp: mem_sound_def)

subsection \<open>Properties\<close>

text \<open>C9: The memory test ends, and passes exactly the memories without a fault: it reports success if and
  only if the decoder tells all the word offsets of the region apart, every data line drives itself
  and nothing else, and no bit of any cell of the region is stuck. This holds from any content of the
  memory, for every region of at least two and at most \<open>2 ^ 31\<close> words.\<close>

theorem memory_test_finds_faults:
  assumes "mem_with F M base (unat words) cells" "2 \<le> unat words" "unat words \<le> 2 ^ 31"
  shows "\<exists>st fail u. plat_post_memory_test M (Some base) words out w = Some (st, fail, u) \<and>
    (st = QIRAN_OK \<longleftrightarrow> mem_sound F (unat words))"
proof -
  have pos: "0 < unat words" and two: "\<not> words < 2" using assms(2) by (simp_all add: word_less_nat_alt)
  let ?lines = "\<forall>b < 32. mem_stored F (mf_decode F 0) (push_bit b 1) = push_bit b 1"
  obtain st f w1 where d: "test_data_lines M base 0 w = (st, f, w1)" by (rule prod_cases3)
  have lines: "st = QIRAN_OK \<longleftrightarrow> ?lines"
    using data_lines_verdict [OF assms(1) pos, of "[0..<32]" 0 w] d by (auto simp: test_data_lines_def)
  note split = sound_split [OF pos, of F]
  show ?thesis
  proof (cases "st = QIRAN_OK")
    case False
    then have "\<not> mem_sound F (unat words)" using lines split by blast
    then show ?thesis using False two by (simp add: plat_post_memory_test_def d)
  next
    case True
    obtain r where r: "test_address_lines M base words f w1 = Some r" "mem_sound F (unat words) \<longrightarrow> fst r = QIRAN_OK"
      using test_address_lines_result [OF assms(1,3) pos, of f w1] by blast
    obtain st2 f2 w2 where "r = (st2, f2, w2)" by (rule prod_cases3)
    then have a: "test_address_lines M base words f w1 = Some (st2, f2, w2)" "mem_sound F (unat words) \<longrightarrow> st2 = QIRAN_OK"
      using r by simp_all
    obtain st3 f3 w3 where c: "test_cells M base words f2 w2 = (st3, f3, w3)" by (rule prod_cases3)
    have cells: "st3 = QIRAN_OK \<longleftrightarrow> mem_sound F (unat words)"
      using test_cells_verdict [OF assms(1) pos, of f2 w2] c lines [THEN iffD1, OF True] split by (metis fst_conv)
    have "plat_post_memory_test M (Some base) words out w =
        Some (if st2 \<noteq> QIRAN_OK then (st2, f2, w2) else (st3, f3, w3))"
      using two True by (simp add: plat_post_memory_test_def d a(1) c)
    then show ?thesis using cells a(2) by (cases "st2 = QIRAN_OK") auto
  qed
qed

subsection \<open>Running every test\<close>

text \<open>The loops of the address test end for any memory.\<close>

lemma address_fill_ends:
  assumes "unat words \<le> 2 ^ 31"
  shows "k \<le> 31 \<Longrightarrow> 31 \<le> m + k \<Longrightarrow> address_fill m M base words (2 ^ k) w \<noteq> None"
proof (induction m arbitrary: k w)
  case (Suc m)
  then show ?case
    using Suc.IH [of "Suc k"] offset_less [OF assms, of k] offset_next [of k]
    by (cases "2 ^ k < unat words") (simp_all add: address_fill.simps [of "Suc m"] mult.commute)
next
  case 0
  then have "\<not> (2 ^ k :: u32) < words" using offset_less [OF assms, of k] by auto
  then show ?case by (simp add: address_fill.simps)
qed

lemma address_check_ends:
  assumes "unat words \<le> 2 ^ 31"
  shows "k \<le> 31 \<Longrightarrow> 31 \<le> m + k \<Longrightarrow> address_check m M base words (2 ^ k) fail w \<noteq> None"
proof (induction m arbitrary: k w)
  case (Suc m)
  then show ?case
    using Suc.IH [of "Suc k"] offset_less [OF assms, of k] offset_next [of k]
    by (cases "2 ^ k < unat words") (simp_all add: address_check.simps [of "Suc m"] mult.commute split_beta Let_def)
next
  case 0
  then have "\<not> (2 ^ k :: u32) < words" using offset_less [OF assms, of k] by auto
  then show ?case by (simp add: address_check.simps)
qed

lemma memory_test_ends:
  assumes "unat words \<le> 2 ^ 31"
  shows "plat_post_memory_test M base words out w \<noteq> None"
proof -
  have "address_fill ADDRESS_TURNS M b words 1 v \<noteq> None" "address_check ADDRESS_TURNS M b words 1 f v \<noteq> None" for b f v
    using address_fill_ends [OF assms, of 0 ADDRESS_TURNS M b v] address_check_ends [OF assms, of 0 ADDRESS_TURNS M b f v]
    by (simp_all add: ADDRESS_TURNS_def)
  then have lines: "test_address_lines M b words f v \<noteq> None" for b f v
    by (auto simp: test_address_lines_def split_beta Let_def bind_eq_None_conv)
  show ?thesis
  proof (cases base)
    case None
    then show ?thesis by (simp add: plat_post_memory_test_def)
  next
    case (Some b)
    obtain st f u where d: "test_data_lines M b 0 w = (st, f, u)" by (rule prod_cases3)
    obtain st2 f2 u2 where a: "test_address_lines M b words f u = Some (st2, f2, u2)"
      using lines [of b f u] by auto
    show ?thesis by (cases "test_cells M b words f2 u2") (simp add: plat_post_memory_test_def Some d a)
  qed
qed

text \<open>What the tests may not do is touch the table they are in. An operation keeps an observation of
  the state if the functions from outside it calls do.\<close>

definition mem_keeps :: "('w \<Rightarrow> 'o) \<Rightarrow> 'w mem_env \<Rightarrow> bool" where
  "mem_keeps obs M \<longleftrightarrow> (\<forall>b i v w. obs (me_write M b i v w) = obs w \<and> obs (snd (me_read M b i w)) = obs w \<and>
     obs (me_flush M b i w) = obs w \<and> obs (me_invalidate M b i w) = obs w)"

definition post_keeps :: "('a post_world_scheme \<Rightarrow> 'o) \<Rightarrow> 'a post_world_scheme post_env \<Rightarrow> bool" where
  "post_keeps obs E \<longleftrightarrow> (\<forall>h w. obs (snd (snd (pe_test E h w))) = obs w) \<and> mem_keeps obs (pe_mem E)"

definition post_env_ok :: "'a post_world_scheme post_env \<Rightarrow> bool" where
  "post_env_ok E \<longleftrightarrow> post_keeps w_post E"

definition post_ok :: "post_state \<Rightarrow> bool" where
  "post_ok s \<longleftrightarrow> length (po_entry s) = 16 \<and> length (po_result s) = 16 \<and> po_count s \<le> PLAT_POST_MAX \<and>
     unat (po_mem_words s) \<le> 2 ^ 31"

lemma mem_ops_keep:
  assumes "mem_keeps obs M"
  shows "obs (me_write M b i v w) = obs w" "obs (snd (me_read M b i w)) = obs w"
    "obs (flush M b i w) = obs w" "obs (invalidate M b i w) = obs w"
  using assms by (simp_all add: mem_keeps_def flush_def invalidate_def)

lemma address_fill_keeps:
  assumes "mem_keeps obs M"
  shows "address_fill m M b words off w = Some u \<Longrightarrow> obs u = obs w"
proof (induction m arbitrary: off w)
  case (Suc m)
  from Suc.prems show ?case
    using Suc.IH by (subst (asm) address_fill.simps) (auto simp: mem_ops_keep [OF assms] split: if_splits)
qed (subst (asm) address_fill.simps, simp split: if_splits)

lemma address_check_keeps:
  assumes "mem_keeps obs M"
  shows "address_check m M b words off f w = Some r \<Longrightarrow> obs (snd (snd r)) = obs w"
proof (induction m arbitrary: off w)
  case (Suc m)
  obtain v u where r: "me_read M b off w = (v, u)" by (rule prod.exhaust)
  have "obs u = obs w" using mem_ops_keep(2) [OF assms, of b off w] by (simp add: r)
  with Suc.prems show ?case
    using Suc.IH [of "push_bit 1 off" u] by (subst (asm) address_check.simps) (auto simp: r split: if_splits)
qed (subst (asm) address_check.simps, auto split: if_splits)

lemma data_lines_keeps:
  assumes "mem_keeps obs M"
  shows "obs (snd (snd (data_lines_from M b bs f w))) = obs w"
  by (induction bs arbitrary: w) (simp_all add: split_beta Let_def mem_ops_keep [OF assms])

lemma cells_keeps:
  assumes "mem_keeps obs M"
  shows "obs (cells_fill M b second is w) = obs w"
    "obs (snd (snd (cells_check M b second is f w))) = obs w"
    "obs (snd (snd (cells_passes M b words ps f w))) = obs w"
proof -
  show fill: "obs (cells_fill M b second is w) = obs w" for second "is" w
    unfolding cells_fill_def by (induction "is" arbitrary: w) (simp_all add: mem_ops_keep [OF assms])
  show check: "obs (snd (snd (cells_check M b second is f w))) = obs w" for second "is" f w
    by (induction "is" arbitrary: w) (simp_all add: split_beta Let_def mem_ops_keep [OF assms])
  show "obs (snd (snd (cells_passes M b words ps f w))) = obs w"
    by (induction ps arbitrary: f w) (simp_all add: split_beta Let_def mem_ops_keep [OF assms] fill check)
qed

lemma memory_test_keeps:
  assumes "mem_keeps obs M" "plat_post_memory_test M base words out w = Some r"
  shows "obs (snd (snd r)) = obs w"
proof -
  have lines: "obs (snd (snd q)) = obs v" if "test_address_lines M b words f v = Some q" for b f v q
    using that unfolding test_address_lines_def
    by (auto simp: bind_eq_Some_conv split_beta Let_def mem_ops_keep [OF assms(1)] address_fill_keeps [OF assms(1)]
        split: if_splits dest!: address_check_keeps [OF assms(1)])
  have cells: "obs (snd (snd (test_cells M b words f v))) = obs v" for b f v
    unfolding test_cells_def by (rule cells_keeps [OF assms(1)])
  show ?thesis
  proof (cases base)
    case None
    then show ?thesis using assms(2) by (auto simp: plat_post_memory_test_def)
  next
    case (Some b)
    obtain st f u where d: "test_data_lines M b 0 w = (st, f, u)" by (rule prod_cases3)
    have u: "obs u = obs w" using data_lines_keeps [OF assms(1), of b "[0..<32]" 0 w] d by (simp add: test_data_lines_def)
    show ?thesis
    proof (cases "words < 2 \<or> st \<noteq> QIRAN_OK")
      case True
      then show ?thesis using assms(2) u by (auto simp: plat_post_memory_test_def Some d split: if_splits)
    next
      case False
      then have "test_address_lines M b words f u \<bind> (\<lambda>(st, out, w). if st \<noteq> QIRAN_OK then Some (st, out, w)
          else Some (test_cells M b words out w)) = Some r"
        using assms(2) by (simp add: plat_post_memory_test_def Some d)
      then obtain q where q: "test_address_lines M b words f u = Some q"
          "(\<lambda>(st, out, w). if st \<noteq> QIRAN_OK then Some (st, out, w) else Some (test_cells M b words out w)) q = Some r"
        by (auto simp: bind_eq_Some_conv)
      obtain st2 f2 u2 where "q = (st2, f2, u2)" by (rule prod_cases3)
      then have a: "test_address_lines M b words f u = Some (st2, f2, u2)"
          "r = (if st2 \<noteq> QIRAN_OK then (st2, f2, u2) else test_cells M b words f2 u2)"
        using q by (auto split: if_splits)
      have "obs u2 = obs u" using lines [OF a(1)] by simp
      then show ?thesis using a(2) u cells [of b f2 u2] by simp
    qed
  qed
qed

lemma post_call_ends:
  assumes "post_env_ok E" "unat (po_mem_words (w_post w)) \<le> 2 ^ 31"
  shows "\<exists>st d u. post_call E t w = Some (st, d, u) \<and> w_post u = w_post w"
proof (cases t)
  case (Ext_test h)
  then show ?thesis
    using assms(1) by (cases "pe_test E h w") (simp add: post_call_def post_env_ok_def post_keeps_def, metis snd_conv)
next
  case Builtin_memory_test
  show ?thesis
  proof (cases "po_mem_base (w_post w) = None")
    case True
    then show ?thesis by (simp add: post_call_def Builtin_memory_test builtin_memory_test_def)
  next
    case False
    obtain r where r: "plat_post_memory_test (pe_mem E) (po_mem_base (w_post w)) (po_mem_words (w_post w)) 0 w = Some r"
      using memory_test_ends [OF assms(2)] by fastforce
    obtain st d u where "r = (st, d, u)" by (rule prod_cases3)
    have "mem_keeps w_post (pe_mem E)" using assms(1) by (simp add: post_env_ok_def post_keeps_def)
    then show ?thesis
      using memory_test_keeps [OF _ r] \<open>r = (st, d, u)\<close> r False
      by (simp add: post_call_def Builtin_memory_test builtin_memory_test_def)
  qed
qed

lemma post_call_keeps:
  assumes "post_keeps obs E" "post_call E t w = Some (st, d, u)"
  shows "obs u = obs w"
proof (cases t)
  case (Ext_test h)
  then show ?thesis using assms by (auto simp: post_call_def post_keeps_def) (metis snd_conv)
next
  case Builtin_memory_test
  have "mem_keeps obs (pe_mem E)" using assms(1) by (simp add: post_keeps_def)
  then show ?thesis
    using assms(2) memory_test_keeps [of obs "pe_mem E"]
    by (fastforce simp: post_call_def Builtin_memory_test builtin_memory_test_def split: if_splits)
qed

lemma post_loop_keeps:
  assumes "post_keeps obs E" "\<And>f w. obs (post_upd f w) = obs w" "\<And>w. obs (snd (svc_time_now_ms w)) = obs w"
  shows "post_loop E is overall w = Some (st, u) \<Longrightarrow> obs u = obs w"
proof (induction "is" arbitrary: overall w)
  case (Cons i js)
  obtain started w1 where n: "svc_time_now_ms w = (started, w1)" by (rule prod.exhaust)
  have w1: "obs w1 = obs w" using assms(3) [of w] by (simp add: n)
  show ?case
  proof (cases "unat (po_count (w_post w)) \<le> i")
    case True
    then show ?thesis using Cons by simp
  next
    case False
    obtain s d w2 where c: "post_call E (pt_test (po_entry (w_post w1) ! i)) w1 = Some (s, d, w2)"
      using Cons.prems False by (auto simp: n bind_eq_Some_conv)
    obtain now w3 where n3: "svc_time_now_ms w2 = (now, w3)" by (rule prod.exhaust)
    have "obs w3 = obs w" using post_call_keeps [OF assms(1) c] assms(3) [of w2] w1 by (simp add: n3)
    then show ?thesis using Cons.prems Cons.IH False by (simp add: n c n3 assms(2))
  qed
qed simp

lemma post_run_keeps:
  assumes "post_keeps obs E" "\<And>f w. obs (post_upd f w) = obs w" "\<And>w. obs (snd (svc_time_now_ms w)) = obs w"
    and "plat_post_run E w = Some (st, u)"
  shows "obs u = obs w"
  using post_loop_keeps [OF assms(1-3)] assms(4) assms(2) by (fastforce simp: plat_post_run_def)

lemma now_post [simp]: "w_post (snd (svc_time_now_ms w)) = w_post w"
  by (simp add: svc_time_now_ms_def Let_def)

text \<open>The report of one test: its name, and the status and detail of a call of it.\<close>

definition post_reported :: "'a post_world_scheme post_env \<Rightarrow> post_entry \<Rightarrow> plat_post_result \<Rightarrow> bool" where
  "post_reported E e r \<longleftrightarrow> pr_name r = Some (pt_name e) \<and> pr_ran r = (pr_result r \<noteq> QIRAN_ERR_UNSUPPORTED) \<and>
     (\<exists>v u. post_call E (pt_test e) v = Some (pr_result r, pr_detail r, u))"

definition post_bad :: "plat_post_result \<Rightarrow> bool" where
  "post_bad r \<longleftrightarrow> pr_ran r \<and> pr_result r \<noteq> QIRAN_OK"

definition post_bads :: "nat \<Rightarrow> post_state \<Rightarrow> nat list" where
  "post_bads k s = filter (\<lambda>i. post_bad (po_result s ! i)) [k..<unat (po_count s)]"

lemma post_loop_run:
  assumes "post_env_ok E"
  shows "post_ok (w_post w) \<Longrightarrow> k \<le> 16 \<Longrightarrow> \<exists>u. post_loop E [k..<16] overall w =
      Some (if post_bads k (w_post u) = [] then overall else QIRAN_ERR_HARDWARE, u) \<and>
    post_ok (w_post u) \<and> po_entry (w_post u) = po_entry (w_post w) \<and> po_count (w_post u) = po_count (w_post w) \<and>
    (\<forall>i < k. po_result (w_post u) ! i = po_result (w_post w) ! i) \<and>
    (\<forall>i \<in> {k..<unat (po_count (w_post w))}. post_reported E (po_entry (w_post w) ! i) (po_result (w_post u) ! i)) \<and>
    po_failures (w_post u) = po_failures (w_post w) + of_nat (length (post_bads k (w_post u)))"
proof (induction "16 - k" arbitrary: k overall w)
  case 0
  then show ?case by (simp add: post_bads_def post_ok_def PLAT_POST_MAX_def word_le_nat_alt)
next
  case (Suc m)
  have k: "k < 16" "m = 16 - Suc k" "Suc k \<le> 16" using Suc.hyps(2) by simp_all
  have up: "[k..<16] = k # [Suc k..<16]" using k by (simp add: upt_rec)
  let ?n = "unat (po_count (w_post w))"
  show ?case
  proof (cases "?n \<le> k")
    case True
    have e: "post_bads k s = []" "post_bads (Suc k) s = []" if "po_count s = po_count (w_post w)" for s
      using True that by (simp_all add: post_bads_def)
    obtain u where "post_loop E [Suc k..<16] overall w = Some (if post_bads (Suc k) (w_post u) = [] then overall else QIRAN_ERR_HARDWARE, u)"
      "post_ok (w_post u)" "po_entry (w_post u) = po_entry (w_post w)" "po_count (w_post u) = po_count (w_post w)"
      "\<forall>i < Suc k. po_result (w_post u) ! i = po_result (w_post w) ! i"
      "po_failures (w_post u) = po_failures (w_post w) + of_nat (length (post_bads (Suc k) (w_post u)))"
      using Suc.hyps(1) [OF k(2) Suc.prems(1) k(3), of overall] by auto
    then show ?thesis using True e [of "w_post u"] by (intro exI [of _ u]) (simp add: up)
  next
    case False
    let ?e = "po_entry (w_post w) ! k"
    obtain started w1 where n1: "svc_time_now_ms w = (started, w1)" by (rule prod.exhaust)
    have w1: "w_post w1 = w_post w" using now_post [of w] by (simp add: n1)
    have "unat (po_mem_words (w_post w1)) \<le> 2 ^ 31" using Suc.prems(1) by (simp add: w1 post_ok_def)
    then obtain st d w2 where c: "post_call E (pt_test ?e) w1 = Some (st, d, w2)" "w_post w2 = w_post w"
      using post_call_ends [OF assms(1), of w1 "pt_test ?e"] w1 by auto
    obtain now w3 where n3: "svc_time_now_ms w2 = (now, w3)" by (rule prod.exhaust)
    have w3: "w_post w3 = w_post w" using now_post [of w2] by (simp add: n3 c(2))
    let ?w4 = "post_upd (post_note k st d (ucast (now - started))) w3"
    let ?r = "\<lparr>pr_name = Some (pt_name ?e), pr_result = st, pr_detail = d, pr_duration_ms = ucast (now - started),
      pr_ran = (st \<noteq> QIRAN_ERR_UNSUPPORTED)\<rparr>"
    let ?o = "if st \<noteq> QIRAN_ERR_UNSUPPORTED \<and> st \<noteq> QIRAN_OK then QIRAN_ERR_HARDWARE else overall"
    have len: "length (po_result (w_post w)) = 16" using Suc.prems(1) by (simp add: post_ok_def)
    have w4: "w_post ?w4 = (w_post w)\<lparr>po_result := (po_result (w_post w))[k := ?r],
        po_failures := po_failures (w_post w) + (if post_bad ?r then 1 else 0)\<rparr>"
      by (simp add: post_upd_def post_note_def w3 post_bad_def Let_def)
    have go: "post_loop E [k..<16] overall w = post_loop E [Suc k..<16] ?o ?w4"
      using False by (simp add: up n1 c(1) n3 w1)
    have "post_ok (w_post ?w4)" using Suc.prems(1) by (simp add: w4 post_ok_def)
    from Suc.hyps(1) [OF k(2) this k(3), of ?o]
    obtain u where u: "post_loop E [Suc k..<16] ?o ?w4 = Some (if post_bads (Suc k) (w_post u) = [] then ?o else QIRAN_ERR_HARDWARE, u)"
      "post_ok (w_post u)" "po_entry (w_post u) = po_entry (w_post w)" "po_count (w_post u) = po_count (w_post w)"
      "\<forall>i < Suc k. po_result (w_post u) ! i = po_result (w_post ?w4) ! i"
      "\<forall>i \<in> {Suc k..<?n}. post_reported E (po_entry (w_post w) ! i) (po_result (w_post u) ! i)"
      "po_failures (w_post u) = po_failures (w_post ?w4) + of_nat (length (post_bads (Suc k) (w_post u)))"
      by (auto simp: w4)
    have rk: "po_result (w_post u) ! k = ?r" using u(5) len k(1) by (simp add: w4)
    have rep: "post_reported E ?e (po_result (w_post u) ! k)"
      unfolding rk post_reported_def using c(1) by auto
    have bads: "post_bads k (w_post u) = (if post_bad ?r then [k] else []) @ post_bads (Suc k) (w_post u)"
      using False by (simp add: post_bads_def u(4) upt_rec [of k] rk)
    have bad: "post_bad ?r \<longleftrightarrow> st \<noteq> QIRAN_ERR_UNSUPPORTED \<and> st \<noteq> QIRAN_OK" by (simp add: post_bad_def)
    have all: "\<forall>i \<in> {k..<?n}. post_reported E (po_entry (w_post w) ! i) (po_result (w_post u) ! i)"
      using u(6) rep by (metis Suc_leI atLeastLessThan_iff le_neq_implies_less)
    have old: "\<forall>i < k. po_result (w_post u) ! i = po_result (w_post w) ! i"
      using u(5) by (simp add: w4)
    have fl: "po_failures (w_post u) = po_failures (w_post w) + of_nat (length (post_bads k (w_post u)))"
      unfolding bads by (simp add: u(7) w4)
    have run: "post_loop E [k..<16] overall w = Some (if post_bads k (w_post u) = [] then overall else QIRAN_ERR_HARDWARE, u)"
      unfolding go u(1) bads bad by simp
    show ?thesis by (intro exI [of _ u] conjI run u(2-4) old all fl)
  qed
qed

text \<open>C21: Every registered test is run, and each gets its own report, also after one has failed: the
  self test passes exactly if no test that ran failed, the failures are counted, and a test that is not
  supported, as the memory test is before a region is set, is recorded as not run instead of as passed.
  A region that can be set is small enough for the test to end.\<close>

theorem post_runs_every_test:
  assumes "post_env_ok E" "post_ok (w_post w)"
  shows "(\<exists>u. plat_post_run E w = Some (if post_bads 0 (w_post u) = [] then QIRAN_OK else QIRAN_ERR_HARDWARE, u) \<and>
      plat_post_failures u = of_nat (length (post_bads 0 (w_post u))) \<and> plat_post_count u = plat_post_count w \<and>
      (\<forall>i < unat (plat_post_count w). post_reported E (po_entry (w_post w) ! i) (po_result (w_post u) ! i))) \<and>
    (fst (plat_post_set_memory_region base bytes w) = QIRAN_OK \<longrightarrow>
      2 \<le> unat (po_mem_words (w_post (snd (plat_post_set_memory_region base bytes w)))) \<and>
      unat (po_mem_words (w_post (snd (plat_post_set_memory_region base bytes w)))) \<le> 2 ^ 31)"
proof -
  let ?w = "post_upd (\<lambda>s. s\<lparr>po_failures := 0\<rparr>) w"
  have "post_ok (w_post ?w)" using assms(2) by (simp add: post_upd_def post_ok_def)
  from post_loop_run [OF assms(1) this, of 0 QIRAN_OK]
  obtain u where u: "post_loop E [0..<16] QIRAN_OK ?w = Some (if post_bads 0 (w_post u) = [] then QIRAN_OK else QIRAN_ERR_HARDWARE, u)"
    "po_count (w_post u) = po_count (w_post w)"
    "\<forall>i \<in> {0..<unat (po_count (w_post w))}. post_reported E (po_entry (w_post w) ! i) (po_result (w_post u) ! i)"
    "po_failures (w_post u) = of_nat (length (post_bads 0 (w_post u)))"
    by (auto simp: post_upd_def)
  have div: "unat (bytes div 4) = unat bytes div 4" by (simp add: unat_div)
  have "2 \<le> unat (po_mem_words (w_post (snd (plat_post_set_memory_region base bytes w)))) \<and>
      unat (po_mem_words (w_post (snd (plat_post_set_memory_region base bytes w)))) \<le> 2 ^ 31"
    if "fst (plat_post_set_memory_region base bytes w) = QIRAN_OK"
    using that unat_u32_less [of bytes]
    by (auto simp: plat_post_set_memory_region_def post_upd_def div word_less_nat_alt split: if_splits)
  moreover have "plat_post_run E w = post_loop E [0..<16] QIRAN_OK ?w"
    by (simp add: plat_post_run_def PLAT_POST_MAX_def)
  ultimately show ?thesis using u by (auto simp: plat_post_failures_def plat_post_count_def)
qed

subsection \<open>Witnesses\<close>

text \<open>A memory with given faults as a state of its own.\<close>

definition mem_env0 :: "mem_faults \<Rightarrow> (nat \<Rightarrow> u32) mem_env" where
  "mem_env0 F = \<lparr>me_write = (\<lambda>b i v w. w(mf_decode F (unat i) := mem_stored F (mf_decode F (unat i)) v)),
     me_read = (\<lambda>b i w. (w (mf_decode F (unat i)), w)), me_flush = (\<lambda>_ _ w. w), me_invalidate = (\<lambda>_ _ w. w)\<rparr>"

definition mem_good :: mem_faults where
  "mem_good = \<lparr>mf_decode = (\<lambda>i. i), mf_drives = (\<lambda>b. push_bit b 1), mf_high = (\<lambda>_. 0), mf_low = (\<lambda>_. 0)\<rparr>"

text \<open>Eight words: a sound memory passes; one whose second address line is open, so that offset 2 reaches
  the cell of offset 0, does not, and neither does one with one bit of one cell stuck.\<close>

theorem memory_test_finds_faults_witness:
  "(\<forall>w. map_option fst (plat_post_memory_test (mem_env0 mem_good) (Some 0) 8 0 w) = Some QIRAN_OK) \<and>
   (\<forall>w. map_option fst (plat_post_memory_test (mem_env0 (mem_good\<lparr>mf_decode := \<lambda>i. if i = 2 then 0 else i\<rparr>))
      (Some 0) 8 0 w) \<noteq> Some QIRAN_OK) \<and>
   (\<forall>w. map_option fst (plat_post_memory_test (mem_env0 (mem_good\<lparr>mf_low := \<lambda>c. if c = 5 then 0x10 else 0\<rparr>))
      (Some 0) 8 0 w) \<noteq> Some QIRAN_OK)"
proof -
  have env: "mem_with F (mem_env0 F) 0 8 (\<lambda>w. w)" for F by (simp add: mem_with_def mem_env0_def)
  have run: "map_option fst (plat_post_memory_test (mem_env0 F) (Some 0) 8 0 w) = Some QIRAN_OK \<longleftrightarrow> mem_sound F 8" for F w
    using memory_test_finds_faults [of F "mem_env0 F" 0 8 "\<lambda>w. w" 0 w] env [of F] by auto
  have "mem_sound mem_good 8" by (simp add: mem_sound_def mem_good_def)
  moreover have "\<not> mem_sound (mem_good\<lparr>mf_decode := \<lambda>i. if i = 2 then 0 else i\<rparr>) 8"
    using inj_onD [of "\<lambda>i. if i = 2 then 0 else i" "{..<8 :: nat}" 2 0] by (auto simp: mem_sound_def)
  moreover have "\<not> mem_sound (mem_good\<lparr>mf_low := \<lambda>c. if c = 5 then 0x10 else 0\<rparr>) 8"
    by (auto simp: mem_sound_def mem_good_def intro!: exI [of _ 5])
  ultimately show ?thesis unfolding run by blast
qed

text \<open>A module's own test and the built-in one with no region: one report each.\<close>

definition post_env0 :: "post_world post_env" where
  "post_env0 = \<lparr>pe_mem = \<lparr>me_write = (\<lambda>_ _ _ w. w), me_read = (\<lambda>_ _ w. (0, w)), me_flush = (\<lambda>_ _ w. w),
       me_invalidate = (\<lambda>_ _ w. w)\<rparr>,
     pe_test = (\<lambda>h w. (QIRAN_ERR_TIMEOUT, 42, w))\<rparr>"

definition post_setup :: "post_world \<Rightarrow> post_world" where
  "post_setup w = snd (plat_post_register (Some ''adc'') (Some (Ext_test 3)) (plat_post_init (w\<lparr>w_post :=
     \<lparr>po_entry = replicate 16 \<lparr>pt_name = [], pt_test = Builtin_memory_test\<rparr>,
      po_result = replicate 16 \<lparr>pr_name = None, pr_result = QIRAN_OK, pr_detail = 0, pr_duration_ms = 0, pr_ran = False\<rparr>,
      po_count = 0, po_failures = 0, po_mem_base = None, po_mem_words = 0\<rparr>\<rparr>)))"

theorem post_runs_every_test_witness:
  "\<forall>w. \<exists>st u. plat_post_run post_env0 (post_setup w) = Some (st, u) \<and>
     pr_name (po_result (w_post u) ! 1) = Some ''adc''"
proof
  fix w
  let ?v = "post_setup w"
  have c: "unat (plat_post_count ?v) = 2" "pt_name (po_entry (w_post ?v) ! 1) = ''adc''" "post_ok (w_post ?v)"
    by (simp_all add: post_setup_def plat_post_init_def plat_post_register_def post_upd_def PLAT_POST_MAX_def
        plat_post_count_def post_ok_def Let_def word_le_nat_alt)
  have e: "post_env_ok post_env0" by (simp add: post_env_ok_def post_keeps_def mem_keeps_def post_env0_def)
  show "\<exists>st u. plat_post_run post_env0 ?v = Some (st, u) \<and> pr_name (po_result (w_post u) ! 1) = Some ''adc''"
    using post_runs_every_test [OF e c(3), THEN conjunct1] c(1,2)
    by (auto simp: post_reported_def)
qed

subsection \<open>Where the test departs from its description\<close>

text \<open>What the data-line test leaves in the place for the offending word offset is the number of the bit:
  the word it fails at is always the first.\<close>

lemma data_lines_offset:
  "data_lines_from M base bs fail w = (st, off, u) \<Longrightarrow> st \<noteq> QIRAN_OK \<Longrightarrow> \<exists>b \<in> set bs. off = of_nat b"
  by (induction bs arbitrary: w) (auto simp: Let_def split_beta split: if_splits)

text \<open>A region of more than \<open>2 ^ 31\<close> words would keep the address test busy for ever: the offset doubles
  to zero and stays there.\<close>

lemma address_fill_zero: "0 < words \<Longrightarrow> address_fill m M base words 0 w = None"
  by (induction m arbitrary: w) (simp_all add: address_fill.simps)

end
