(* ===== verification/Plat_Boot.thy ===== *)
theory Plat_Boot
  imports Post_Memory
begin

section \<open>Start-up: \<^verbatim>\<open>src/plat/plat_boot.c\<close>\<close>

text \<open>
  Bringing up the platform, and the boot sequence of five steps, each retried in place until it passes
  or its fault class is exhausted. The retry loop has no bound of its own and ends only through the
  fault service, so it is a partial function: not returning is \<^term>\<open>None\<close>. The functions registered
  by others and the observer's link are interpreted by the environment; null pointers are
  \<^term>\<open>None\<close>. Arrays over the steps are functions.
\<close>

definition QIRAN_BOOTLOADER_BUDGET_MS :: u32 where "QIRAN_BOOTLOADER_BUDGET_MS = 3000"
definition QIRAN_POST_BUDGET_MS :: u32 where "QIRAN_POST_BUDGET_MS = 5000"
definition QIRAN_DEVINIT_BUDGET_MS :: u32 where "QIRAN_DEVINIT_BUDGET_MS = 12000"
definition QIRAN_LINK_BUDGET_MS :: u32 where "QIRAN_LINK_BUDGET_MS = QIRAN_DEVINIT_BUDGET_MS"

datatype boot_step =
    BOOT_STEP_SAFE_OUTPUTS | BOOT_STEP_PLATFORM | BOOT_STEP_POST | BOOT_STEP_DEVICES
  | BOOT_STEP_LINKS | BOOT_STEP_COUNT

definition boot_steps :: "boot_step list" where
  "boot_steps = [BOOT_STEP_SAFE_OUTPUTS, BOOT_STEP_PLATFORM, BOOT_STEP_POST, BOOT_STEP_DEVICES, BOOT_STEP_LINKS]"

datatype boot_outcome = BOOT_OUTCOME_PENDING | BOOT_OUTCOME_SUCCESS | BOOT_OUTCOME_TERMINAL

record boot_report =
  br_outcome :: boot_outcome
  br_failed_step :: boot_step
  br_attempts :: "boot_step \<Rightarrow> u32"
  br_duration_ms :: "boot_step \<Rightarrow> u32"
  br_over_budget :: "boot_step \<Rightarrow> bool"
  br_total_ms :: u32

record boot_state =
  bo_platform_check :: "handle option"
  bo_link_bringup :: "handle option"
  bo_report :: boot_report

record boot_world = post_world +
  w_boot :: boot_state

record 'w boot_env =
  be_safe :: "'w safe_actions"
  be_check :: "handle \<Rightarrow> 'w \<Rightarrow> qiran_status \<times> 'w"
  be_post :: "'w post_env"
  be_init :: "'w devinit_fns"
  be_link :: "handle \<Rightarrow> 'w \<Rightarrow> qiran_status \<times> 'w"
  be_fdir :: "'w fdir_env"

definition report_upd :: "(boot_report \<Rightarrow> boot_report) \<Rightarrow> 'a boot_world_scheme \<Rightarrow> 'a boot_world_scheme" where
  "report_upd f w = w\<lparr>w_boot := (w_boot w)\<lparr>bo_report := f (bo_report (w_boot w))\<rparr>\<rparr>"

subsection \<open>The platform\<close>

definition plat_early_init :: "'a boot_world_scheme \<Rightarrow> qiran_status \<times> 'a boot_world_scheme" where
  "plat_early_init w =
    (let w = plat_cpu_init w;
         (st, w) = plat_gic_init w
     in if st \<noteq> QIRAN_OK then (st, w)
        else (let w = plat_irq_init w;
                  (st, w) = plat_isr_uart_init None w
              in if st \<noteq> QIRAN_OK then (st, w)
                 else (let w = exec_init w;
                           (st, w) = plat_timer_init w
                       in if st \<noteq> QIRAN_OK then (st, w)
                          else (let w = plat_timer_start w;
                                    w = plat_gic_start w;
                                    w = svc_time_init w
                                in (QIRAN_OK, w)))))"

subsection \<open>The boot sequence\<close>

definition plat_boot_set_platform_check ::
  "handle option \<Rightarrow> 'a boot_world_scheme \<Rightarrow> qiran_status \<times> 'a boot_world_scheme" where
  "plat_boot_set_platform_check check w = (QIRAN_OK, w\<lparr>w_boot := (w_boot w)\<lparr>bo_platform_check := check\<rparr>\<rparr>)"

definition plat_boot_set_link_bringup ::
  "handle option \<Rightarrow> 'a boot_world_scheme \<Rightarrow> qiran_status \<times> 'a boot_world_scheme" where
  "plat_boot_set_link_bringup link w = (QIRAN_OK, w\<lparr>w_boot := (w_boot w)\<lparr>bo_link_bringup := link\<rparr>\<rparr>)"

definition step_platform ::
  "'a boot_world_scheme boot_env \<Rightarrow> 'a boot_world_scheme \<Rightarrow> qiran_status \<times> 'a boot_world_scheme" where
  "step_platform E w =
    (case bo_platform_check (w_boot w) of None \<Rightarrow> (QIRAN_OK, w) | Some check \<Rightarrow> be_check E check w)"

definition step_links ::
  "'a boot_world_scheme boot_env \<Rightarrow> 'a boot_world_scheme \<Rightarrow> qiran_status \<times> 'a boot_world_scheme" where
  "step_links E w =
    (case bo_link_bringup (w_boot w) of None \<Rightarrow> (QIRAN_OK, w) | Some link \<Rightarrow> be_link E link w)"

text \<open>The table of steps: what each runs, its budget and its fault class. There is no entry for
  \<^term>\<open>BOOT_STEP_COUNT\<close>, and no operation uses the last equations.\<close>

fun step_fn ::
  "'a boot_world_scheme boot_env \<Rightarrow> boot_step \<Rightarrow> 'a boot_world_scheme \<Rightarrow> (qiran_status \<times> 'a boot_world_scheme) option" where
  "step_fn E BOOT_STEP_SAFE_OUTPUTS w = Some (plat_safe_outputs_apply (be_safe E) w)"
| "step_fn E BOOT_STEP_PLATFORM w = Some (step_platform E w)"
| "step_fn E BOOT_STEP_POST w = plat_post_run (be_post E) w"
| "step_fn E BOOT_STEP_DEVICES w = Some (plat_devinit_run (be_init E) w)"
| "step_fn E BOOT_STEP_LINKS w = Some (step_links E w)"
| "step_fn E BOOT_STEP_COUNT w = Some (QIRAN_OK, w)"

fun step_budget_ms :: "boot_step \<Rightarrow> u32" where
  "step_budget_ms BOOT_STEP_SAFE_OUTPUTS = QIRAN_BOOTLOADER_BUDGET_MS"
| "step_budget_ms BOOT_STEP_PLATFORM = QIRAN_BOOTLOADER_BUDGET_MS"
| "step_budget_ms BOOT_STEP_POST = QIRAN_POST_BUDGET_MS"
| "step_budget_ms BOOT_STEP_DEVICES = QIRAN_DEVINIT_BUDGET_MS"
| "step_budget_ms BOOT_STEP_LINKS = QIRAN_LINK_BUDGET_MS"
| "step_budget_ms BOOT_STEP_COUNT = 0"

fun step_fault :: "boot_step \<Rightarrow> qiran_fault_id" where
  "step_fault BOOT_STEP_SAFE_OUTPUTS = QIRAN_FAULT_SAFE_OUTPUTS"
| "step_fault BOOT_STEP_PLATFORM = QIRAN_FAULT_BOOT_IMAGE"
| "step_fault BOOT_STEP_POST = QIRAN_FAULT_POST"
| "step_fault BOOT_STEP_DEVICES = QIRAN_FAULT_DEVINIT"
| "step_fault BOOT_STEP_LINKS = QIRAN_FAULT_LINK_ESTABLISH"
| "step_fault BOOT_STEP_COUNT = QIRAN_FAULT_COUNT"

definition step_retryable :: "boot_step \<Rightarrow> bool" where
  "step_retryable index \<longleftrightarrow>
    (case svc_fdir_policy_get (step_fault index) of None \<Rightarrow> False | Some p \<Rightarrow> 0 < fp_limit p)"

text \<open>A step that passed, its run having taken \<open>elapsed\<close>.\<close>

definition step_passed ::
  "'a boot_world_scheme boot_env \<Rightarrow> boot_step \<Rightarrow> u64 \<Rightarrow> u32 \<Rightarrow> 'a boot_world_scheme \<Rightarrow> 'a boot_world_scheme" where
  "step_passed E index step_started elapsed w =
    (let (now, w) = svc_time_now_ms w;
         w = report_upd (\<lambda>r. r\<lparr>br_duration_ms := (br_duration_ms r)(index := ucast (now - step_started))\<rparr>) w;
         w = report_upd (\<lambda>r. r\<lparr>br_over_budget := (br_over_budget r)(index := (step_budget_ms index < elapsed))\<rparr>) w
     in if br_over_budget (bo_report (w_boot w)) index
        then error_handling_service (be_fdir E) (svc_fdir_report (step_fault index) elapsed w)
        else w)"

text \<open>A step given up.\<close>

definition step_given_up :: "boot_step \<Rightarrow> u64 \<Rightarrow> 'a boot_world_scheme \<Rightarrow> 'a boot_world_scheme" where
  "step_given_up index step_started w =
    (let (now, w) = svc_time_now_ms w
     in report_upd (\<lambda>r. r\<lparr>br_duration_ms := (br_duration_ms r)(index := ucast (now - step_started)),
          br_failed_step := index\<rparr>) w)"

text \<open>One run of the step function, timed and counted: the status, the time it took, the state.\<close>

definition step_attempt ::
  "'a boot_world_scheme boot_env \<Rightarrow> boot_step \<Rightarrow> 'a boot_world_scheme \<Rightarrow>
   (qiran_status \<times> u32 \<times> 'a boot_world_scheme) option" where
  "step_attempt E index w =
    (let (started, w) = svc_time_now_ms w
     in do {
       (st, w) \<leftarrow> step_fn E index w;
       let (now, w) = svc_time_now_ms w;
       Some (st, ucast (now - started),
         report_upd (\<lambda>r. r\<lparr>br_attempts := (br_attempts r)(index := br_attempts r index + 1)\<rparr>) w) })"

partial_function (option) run_step_loop ::
  "'a boot_world_scheme boot_env \<Rightarrow> boot_step \<Rightarrow> bool \<Rightarrow> u64 \<Rightarrow> 'a boot_world_scheme \<Rightarrow>
   (bool \<times> 'a boot_world_scheme) option" where
  "run_step_loop E index retryable step_started w = do {
     (st, elapsed, w) \<leftarrow> step_attempt E index w;
     if st = QIRAN_OK then Some (True, step_passed E index step_started elapsed w)
     else (let w = svc_fdir_report (step_fault index) (status_code st) w;
               w = error_handling_service (be_fdir E) w
           in if \<not> retryable \<or> svc_fdir_retries_exhausted (step_fault index) w
              then Some (False, step_given_up index step_started w)
              else run_step_loop E index retryable step_started w) }"

definition run_step ::
  "'a boot_world_scheme boot_env \<Rightarrow> boot_step \<Rightarrow> 'a boot_world_scheme \<Rightarrow> (bool \<times> 'a boot_world_scheme) option" where
  "run_step E index w =
    (let (step_started, w) = svc_time_now_ms w
     in run_step_loop E index (step_retryable index) step_started w)"

text \<open>The loop over the steps, left at the first that is given up.\<close>

fun run_steps ::
  "'a boot_world_scheme boot_env \<Rightarrow> boot_step list \<Rightarrow> 'a boot_world_scheme \<Rightarrow> (bool \<times> 'a boot_world_scheme) option" where
  "run_steps E [] w = Some (True, w)"
| "run_steps E (index # steps) w = do {
     (ok, w) \<leftarrow> run_step E index w;
     if ok then run_steps E steps w else Some (False, w) }"

definition report_reset :: "boot_report \<Rightarrow> boot_report" where
  "report_reset r =
    (fold (\<lambda>i r. r\<lparr>br_attempts := (br_attempts r)(i := 0), br_duration_ms := (br_duration_ms r)(i := 0),
        br_over_budget := (br_over_budget r)(i := False)\<rparr>) boot_steps r)
      \<lparr>br_outcome := BOOT_OUTCOME_PENDING, br_failed_step := BOOT_STEP_COUNT\<rparr>"

definition boot_and_init ::
  "'a boot_world_scheme boot_env \<Rightarrow> 'a boot_world_scheme \<Rightarrow> (qiran_status \<times> 'a boot_world_scheme) option" where
  "boot_and_init E w =
    (let (started, w) = svc_time_now_ms w; w = report_upd report_reset w
     in do {
       (ok, w) \<leftarrow> run_steps E boot_steps w;
       if \<not> ok
       then (let w = report_upd (\<lambda>r. r\<lparr>br_outcome := BOOT_OUTCOME_TERMINAL\<rparr>) w;
                 (now, w) = svc_time_now_ms w;
                 w = report_upd (\<lambda>r. r\<lparr>br_total_ms := ucast (now - started)\<rparr>) w;
                 w = svc_log_event (of_nat (fault_idx QIRAN_FAULT_DEVINIT)) (br_total_ms (bo_report (w_boot w))) w
             in Some (QIRAN_ERR_HARDWARE, w))
       else (let w = report_upd (\<lambda>r. r\<lparr>br_outcome := BOOT_OUTCOME_SUCCESS\<rparr>) w;
                 (now, w) = svc_time_now_ms w;
                 w = report_upd (\<lambda>r. r\<lparr>br_total_ms := ucast (now - started)\<rparr>) w;
                 w = fold (\<lambda>i. svc_fdir_clear (step_fault i)) boot_steps w
             in Some (QIRAN_OK, w)) })"

definition plat_boot_report :: "'a boot_world_scheme \<Rightarrow> boot_report" where
  "plat_boot_report w = bo_report (w_boot w)"

fun plat_boot_step_name :: "boot_step \<Rightarrow> string" where
  "plat_boot_step_name BOOT_STEP_SAFE_OUTPUTS = ''safe_outputs''"
| "plat_boot_step_name BOOT_STEP_PLATFORM = ''platform''"
| "plat_boot_step_name BOOT_STEP_POST = ''post''"
| "plat_boot_step_name BOOT_STEP_DEVICES = ''devices''"
| "plat_boot_step_name BOOT_STEP_LINKS = ''links''"
| "plat_boot_step_name BOOT_STEP_COUNT = ''?''"

subsection \<open>What a step leaves alone\<close>

text \<open>The part of the state no function from outside may change during boot: the boot module's own, the
  table of self tests, and the counts of the boot faults. Of the observer's link this is all that is
  asked beyond what the fault service relies on.\<close>

definition boot_view :: "'a boot_world_scheme \<Rightarrow> boot_state \<times> (u32 \<times> u32 \<times> svc_fdir_record) list" where
  "boot_view w = (w_boot w, map (\<lambda>i. (fd_reported (w_fdir w) (step_fault i), fd_serviced (w_fdir w) (step_fault i),
     fd_record (w_fdir w) (step_fault i))) boot_steps)"

definition boot_env_ok :: "'a boot_world_scheme boot_env \<Rightarrow> bool" where
  "boot_env_ok E \<longleftrightarrow> uplink_ok (be_fdir E) \<and>
    (\<forall>h f v d w. w_boot (snd (fe_report_flag (be_fdir E) h f v d w)) = w_boot w \<and>
       w_post (snd (fe_report_flag (be_fdir E) h f v d w)) = w_post w) \<and>
    (\<forall>h f w. w_boot (snd (fe_request_power_reset (be_fdir E) h f w)) = w_boot w \<and>
       w_post (snd (fe_request_power_reset (be_fdir E) h f w)) = w_post w) \<and>
    (\<forall>h w. boot_view (snd (be_safe E h w)) = boot_view w \<and> w_post (snd (be_safe E h w)) = w_post w) \<and>
    (\<forall>h w. boot_view (snd (be_check E h w)) = boot_view w \<and> w_post (snd (be_check E h w)) = w_post w) \<and>
    (\<forall>h w. boot_view (snd (be_init E h w)) = boot_view w \<and> w_post (snd (be_init E h w)) = w_post w) \<and>
    (\<forall>h w. boot_view (snd (be_link E h w)) = boot_view w \<and> w_post (snd (be_link E h w)) = w_post w) \<and>
    post_keeps boot_view (be_post E) \<and> post_keeps w_post (be_post E)"

lemma boot_env_okD:
  assumes "boot_env_ok E"
  shows "uplink_ok (be_fdir E)"
    "w_boot (snd (fe_report_flag (be_fdir E) h f v d w)) = w_boot w" "w_post (snd (fe_report_flag (be_fdir E) h f v d w)) = w_post w"
    "w_boot (snd (fe_request_power_reset (be_fdir E) h f w)) = w_boot w"
    "w_post (snd (fe_request_power_reset (be_fdir E) h f w)) = w_post w"
    "boot_view (snd (be_safe E h w)) = boot_view w" "w_post (snd (be_safe E h w)) = w_post w"
    "boot_view (snd (be_check E h w)) = boot_view w" "w_post (snd (be_check E h w)) = w_post w"
    "boot_view (snd (be_init E h w)) = boot_view w" "w_post (snd (be_init E h w)) = w_post w"
    "boot_view (snd (be_link E h w)) = boot_view w" "w_post (snd (be_link E h w)) = w_post w"
    "post_keeps boot_view (be_post E)" "post_keeps w_post (be_post E)"
  using assms unfolding boot_env_ok_def by blast+

lemma boot_now [simp]:
  "w_boot (snd (svc_time_now_ms w)) = w_boot w" "w_fdir (snd (svc_time_now_ms w)) = w_fdir w"
  "w_post (snd (svc_time_now_ms w)) = w_post w" "boot_view (snd (svc_time_now_ms w)) = boot_view w"
  by (simp_all add: svc_time_now_ms_def Let_def boot_view_def)

lemma report_upd_fields [simp]:
  "bo_report (w_boot (report_upd f w)) = f (bo_report (w_boot w))" "w_fdir (report_upd f w) = w_fdir w"
  "w_post (report_upd f w) = w_post w" "bo_platform_check (w_boot (report_upd f w)) = bo_platform_check (w_boot w)"
  "bo_link_bringup (w_boot (report_upd f w)) = bo_link_bringup (w_boot w)"
  by (simp_all add: report_upd_def)

lemma boot_view_upds [simp]:
  "boot_view (safe_upd f w) = boot_view w" "w_post (safe_upd f w) = w_post w"
  "boot_view (devinit_upd g w) = boot_view w" "w_post (devinit_upd g w) = w_post w"
  "boot_view (post_upd h w) = boot_view w"
  by (simp_all add: safe_upd_def devinit_upd_def post_upd_def boot_view_def)

text \<open>Any pass of the fault service keeps what the link keeps and the fault service does not own.\<close>

lemma error_handling_keeps:
  assumes "\<And>s w. obs (w\<lparr>w_fdir := s\<rparr>) = obs w" "\<And>f v d w. obs (svc_log_fault f v d w) = obs w"
    and "\<And>h f v d w. obs (snd (fe_report_flag E h f v d w)) = obs w"
    and "\<And>h f w. obs (snd (fe_request_power_reset E h f w)) = obs w"
  shows "obs (error_handling_service E w) = obs w"
proof -
  have esc: "obs (fdir_escalate E f d w) = obs w" for f d w
    by (cases "fp_escalation (k_policy f)") (simp_all add: fdir_escalate_def Let_def split_beta assms)
  have "obs (service_class E f w) = obs w" for f w
    by (cases "fp_severity (k_policy f)") (simp_all add: service_class_def fdir_classify_def Let_def esc assms(1,2))
  then have fold: "obs (fold (service_class E) fs w) = obs w" for fs w
    by (induction fs arbitrary: w) simp_all
  obtain s where "collect_platform_counters w = w\<lparr>w_fdir := s\<rparr>"
    using collect_fdir_only [of w] by (auto simp: fdir_only_def)
  then show ?thesis by (simp add: error_handling_service_def fold assms(1))
qed

lemma boot_error_handling:
  assumes "boot_env_ok E"
  shows "w_boot (error_handling_service (be_fdir E) w) = w_boot w"
    "w_post (error_handling_service (be_fdir E) w) = w_post w"
  by (rule error_handling_keeps; simp add: boot_env_okD [OF assms] svc_log_eqs)+

lemma step_fn_result:
  assumes "boot_env_ok E" "post_ok (w_post w)"
  shows "\<exists>st u. step_fn E index w = Some (st, u) \<and> boot_view u = boot_view w \<and> post_ok (w_post u)"
proof (cases index)
  case BOOT_STEP_SAFE_OUTPUTS
  have "boot_view (snd (plat_safe_outputs_apply (be_safe E) w)) = boot_view w"
    "w_post (snd (plat_safe_outputs_apply (be_safe E) w)) = w_post w"
    by (rule safe_apply_keeps, simp_all add: boot_env_okD [OF assms(1)])+
  then show ?thesis using assms(2) BOOT_STEP_SAFE_OUTPUTS
    by (cases "plat_safe_outputs_apply (be_safe E) w") simp
next
  case BOOT_STEP_PLATFORM
  have "boot_view (snd (step_platform E w)) = boot_view w \<and> w_post (snd (step_platform E w)) = w_post w"
    by (cases "bo_platform_check (w_boot w)") (simp_all add: step_platform_def boot_env_okD [OF assms(1)])
  then show ?thesis using assms(2) BOOT_STEP_PLATFORM by (cases "step_platform E w") simp
next
  case BOOT_STEP_POST
  have E: "post_env_ok (be_post E)" using boot_env_okD [OF assms(1)] by (simp add: post_env_ok_def)
  have "post_ok (w_post (post_upd (\<lambda>s. s\<lparr>po_failures := 0\<rparr>) w))" using assms(2) by (simp add: post_upd_def post_ok_def)
  from post_loop_run [OF E this, of 0 QIRAN_OK]
  obtain st u where u: "plat_post_run (be_post E) w = Some (st, u)" "post_ok (w_post u)"
    by (auto simp: plat_post_run_def PLAT_POST_MAX_def)
  have "boot_view u = boot_view w"
    by (rule post_run_keeps [OF boot_env_okD(14) [OF assms(1)] _ _ u(1)]) simp_all
  then show ?thesis using u BOOT_STEP_POST by simp
next
  case BOOT_STEP_DEVICES
  have "boot_view (snd (plat_devinit_run (be_init E) w)) = boot_view w"
    "w_post (snd (plat_devinit_run (be_init E) w)) = w_post w"
    by (rule devinit_run_keeps, simp_all add: boot_env_okD [OF assms(1)])+
  then show ?thesis using assms(2) BOOT_STEP_DEVICES by (cases "plat_devinit_run (be_init E) w") simp
next
  case BOOT_STEP_LINKS
  have "boot_view (snd (step_links E w)) = boot_view w \<and> w_post (snd (step_links E w)) = w_post w"
    by (cases "bo_link_bringup (w_boot w)") (simp_all add: step_links_def boot_env_okD [OF assms(1)])
  then show ?thesis using assms(2) BOOT_STEP_LINKS by (cases "step_links E w") simp
next
  case BOOT_STEP_COUNT
  then show ?thesis using assms(2) by simp
qed

subsection \<open>One step\<close>

lemma step_fault_facts:
  assumes "i \<in> set boot_steps"
  shows "step_fault i \<notin> platform_faults" "step_fault i \<noteq> QIRAN_FAULT_NONE" "step_fault i \<noteq> QIRAN_FAULT_COUNT"
    "j \<in> set boot_steps \<Longrightarrow> step_fault i = step_fault j \<longleftrightarrow> i = j"
    "i \<noteq> BOOT_STEP_SAFE_OUTPUTS \<Longrightarrow> fdir_critical (step_fault i) \<and> fp_limit (k_policy (step_fault i)) = 3"
    "step_retryable i \<longleftrightarrow> i \<noteq> BOOT_STEP_SAFE_OUTPUTS"
  using assms by (auto simp: boot_steps_def fdir_critical_def fdir_policy_def cfg_consts step_retryable_def svc_fdir_policy_get_def)

text \<open>The effect of anything done for one step on the others: a boot fault with nothing new keeps its
  record, and only the step's own attempts are counted.\<close>

definition step_effect :: "boot_step \<Rightarrow> 'a boot_world_scheme \<Rightarrow> 'a boot_world_scheme \<Rightarrow> bool" where
  "step_effect i w u \<longleftrightarrow>
    (\<forall>j \<in> set boot_steps. j \<noteq> i \<longrightarrow> fd_reported (w_fdir w) (step_fault j) = fd_serviced (w_fdir w) (step_fault j) \<longrightarrow>
       fdir_cell_same (step_fault j) (w_fdir u) (w_fdir w)) \<and>
    (post_ok (w_post w) \<longrightarrow> post_ok (w_post u)) \<and>
    (\<forall>j. j \<noteq> i \<longrightarrow> br_attempts (plat_boot_report u) j = br_attempts (plat_boot_report w) j)"

lemma step_effect_trans: "step_effect i w v \<Longrightarrow> step_effect i v u \<Longrightarrow> step_effect i w u"
  unfolding step_effect_def fdir_cell_same_def by simp

lemma boot_view_cells:
  assumes "boot_view u = boot_view w"
  shows "w_boot u = w_boot w" "i \<in> set boot_steps \<Longrightarrow> fdir_cell_same (step_fault i) (w_fdir u) (w_fdir w)"
  using assms by (auto simp: boot_view_def fdir_cell_same_def)

lemma step_attempt_result:
  assumes "boot_env_ok E" "post_ok (w_post w)" "i \<in> set boot_steps"
  shows "\<exists>st el u. step_attempt E i w = Some (st, el, u) \<and> step_effect i w u \<and>
    fdir_cell_same (step_fault i) (w_fdir u) (w_fdir w) \<and>
    br_attempts (plat_boot_report u) i = br_attempts (plat_boot_report w) i + 1 \<and>
    br_failed_step (plat_boot_report u) = br_failed_step (plat_boot_report w)"
proof -
  obtain started w1 where n1: "svc_time_now_ms w = (started, w1)" by (rule prod.exhaust)
  have w1: "post_ok (w_post w1)" "boot_view w1 = boot_view w" using assms(2) boot_now [of w] by (simp_all add: n1)
  obtain st w2 where f: "step_fn E i w1 = Some (st, w2)" "boot_view w2 = boot_view w" "post_ok (w_post w2)"
    using step_fn_result [OF assms(1) w1(1), of i] w1(2) by auto
  obtain now w3 where n3: "svc_time_now_ms w2 = (now, w3)" by (rule prod.exhaust)
  have w3: "boot_view w3 = boot_view w" "post_ok (w_post w3)" using f(2,3) boot_now [of w2] by (simp_all add: n3)
  let ?u = "report_upd (\<lambda>r. r\<lparr>br_attempts := (br_attempts r)(i := br_attempts r i + 1)\<rparr>) w3"
  have "step_attempt E i w = Some (st, ucast (now - started), ?u)"
    by (simp add: step_attempt_def n1 f(1) n3)
  moreover have "step_effect i w ?u"
    using boot_view_cells [OF w3(1)] w3(2) by (simp add: step_effect_def plat_boot_report_def)
  ultimately show ?thesis
    using boot_view_cells [OF w3(1)] assms(3) by (simp add: plat_boot_report_def)
qed

text \<open>A report of the step's fault and the pass of the service that follows it.\<close>

abbreviation boot_handled :: "'a boot_world_scheme boot_env \<Rightarrow> boot_step \<Rightarrow> u32 \<Rightarrow> 'a boot_world_scheme \<Rightarrow> 'a boot_world_scheme" where
  "boot_handled E i d w \<equiv> error_handling_service (be_fdir E) (svc_fdir_report (step_fault i) d w)"

lemma report_boot [simp]:
  "w_boot (svc_fdir_report f d w) = w_boot w" "w_post (svc_fdir_report f d w) = w_post w"
  by (simp_all add: svc_fdir_report_eq)

lemma boot_handled_effect:
  assumes "boot_env_ok E" "i \<in> set boot_steps"
  shows "step_effect i w (boot_handled E i d w)" "w_boot (boot_handled E i d w) = w_boot w"
proof -
  show b: "w_boot (boot_handled E i d w) = w_boot w" by (simp add: boot_error_handling [OF assms(1)])
  let ?v = "svc_fdir_report (step_fault i) d w"
  have "fdir_cell_same (step_fault j) (w_fdir (boot_handled E i d w)) (w_fdir w)"
    if j: "j \<in> set boot_steps" "j \<noteq> i" and c: "fd_reported (w_fdir w) (step_fault j) = fd_serviced (w_fdir w) (step_fault j)" for j
  proof -
    note f = step_fault_facts [OF j(1)]
    have v: "fdir_cell_same (step_fault j) (w_fdir ?v) (w_fdir w)"
      using report_cell_other [of "step_fault j" "step_fault i" d w] f(4) [OF assms(2)] j by simp
    note e = error_handling_cell [OF boot_env_okD(1) [OF assms(1)] f(1-3), of ?v]
    obtain d2 k where "fd_record (w_fdir (boot_handled E i d w)) (step_fault j) = fdir_class_record (step_fault j)
        (fd_reported (w_fdir ?v) (step_fault j) - fd_serviced (w_fdir ?v) (step_fault j)) d2 k (fd_record (w_fdir ?v) (step_fault j))"
      using e(3) by blast
    then show ?thesis using e(1,2) v c by (simp add: fdir_cell_same_def fdir_class_record_def)
  qed
  then show "step_effect i w (boot_handled E i d w)"
    by (simp add: step_effect_def b plat_boot_report_def boot_error_handling [OF assms(1)])
qed

lemma step_passed_effect:
  assumes "boot_env_ok E" "i \<in> set boot_steps"
  shows "step_effect i w (step_passed E i t el w)"
    "br_attempts (plat_boot_report (step_passed E i t el w)) = br_attempts (plat_boot_report w)"
    "br_failed_step (plat_boot_report (step_passed E i t el w)) = br_failed_step (plat_boot_report w)"
proof -
  obtain now w1 where n1: "svc_time_now_ms w = (now, w1)" by (rule prod.exhaust)
  have w1: "w_boot w1 = w_boot w" "w_fdir w1 = w_fdir w" "w_post w1 = w_post w" using boot_now [of w] by (simp_all add: n1)
  define w2 where "w2 = report_upd (\<lambda>r. r\<lparr>br_over_budget := (br_over_budget r)(i := (step_budget_ms i < el))\<rparr>)
    (report_upd (\<lambda>r. r\<lparr>br_duration_ms := (br_duration_ms r)(i := ucast (now - t))\<rparr>) w1)"
  have e2: "step_effect i w w2" by (simp add: step_effect_def w2_def w1 plat_boot_report_def fdir_cell_same_def)
  have r2: "br_attempts (plat_boot_report w2) = br_attempts (plat_boot_report w)"
    "br_failed_step (plat_boot_report w2) = br_failed_step (plat_boot_report w)"
    by (simp_all add: w2_def plat_boot_report_def w1)
  have p: "step_passed E i t el w = (if br_over_budget (bo_report (w_boot w2)) i then boot_handled E i el w2 else w2)"
    by (simp add: step_passed_def n1 w2_def Let_def)
  show "step_effect i w (step_passed E i t el w)"
    using e2 step_effect_trans [OF e2 boot_handled_effect(1) [OF assms]] by (simp add: p)
  show "br_attempts (plat_boot_report (step_passed E i t el w)) = br_attempts (plat_boot_report w)"
    "br_failed_step (plat_boot_report (step_passed E i t el w)) = br_failed_step (plat_boot_report w)"
    using r2 boot_handled_effect(2) [OF assms, of el w2] by (simp_all add: p plat_boot_report_def)
qed

lemma step_given_up_effect:
  "step_effect i w (step_given_up i t w)" "w_fdir (step_given_up i t w) = w_fdir w"
  "br_attempts (plat_boot_report (step_given_up i t w)) = br_attempts (plat_boot_report w)"
  "br_failed_step (plat_boot_report (step_given_up i t w)) = i"
  using boot_now [of w]
  by (simp_all add: step_given_up_def step_effect_def plat_boot_report_def fdir_cell_same_def split_beta Let_def)

lemma exhausted_counts:
  assumes "fdir_counts f n n e (w_fdir w)" "n < 2 ^ 32" "fdir_critical f"
  shows "svc_fdir_retries_exhausted f w \<longleftrightarrow> unat (fp_limit (k_policy f)) \<le> n"
proof -
  have f: "f \<noteq> QIRAN_FAULT_COUNT" "fp_limit (k_policy f) \<noteq> 0"
    using assms(3) by (auto simp: fdir_critical_def fdir_policy_def)
  have "svc_fdir_occurrences f w = of_nat n"
    using assms(1) f by (simp add: svc_fdir_occurrences_def fdir_unserviced_def fdir_counts_def)
  moreover have "ucast (fp_limit (k_policy f)) \<le> (of_nat n :: u32) \<longleftrightarrow> unat (fp_limit (k_policy f)) \<le> n"
    using assms(2) by (simp add: word_le_nat_alt unat_of_nat_eq_u32 unsigned_ucast_eq take_bit_eq_mod)
      (use unsigned_less [of "fp_limit (k_policy f)", where ?'a = nat] in simp)
  ultimately show ?thesis using f by (simp add: svc_fdir_retries_exhausted_def)
qed

lemma cell_same_counts: "fdir_cell_same f s t \<Longrightarrow> fdir_counts f n m e t \<Longrightarrow> fdir_counts f n m e s"
  by (simp add: fdir_cell_same_def fdir_counts_def)

text \<open>What running a step of \<open>k\<close> attempts leaves: \<open>l\<close> is the attempt it gives up at.\<close>

definition step_ended :: "boot_step \<Rightarrow> nat \<Rightarrow> u32 \<Rightarrow> 'a boot_world_scheme \<Rightarrow> bool \<Rightarrow> nat \<Rightarrow> 'a boot_world_scheme \<Rightarrow> bool" where
  "step_ended i l e w ok k u \<longleftrightarrow> step_effect i w u \<and> 1 \<le> k \<and> k \<le> l \<and>
    br_attempts (plat_boot_report u) i = br_attempts (plat_boot_report w) i + of_nat k \<and>
    (ok \<longrightarrow> br_failed_step (plat_boot_report u) = br_failed_step (plat_boot_report w)) \<and>
    (\<not> ok \<longrightarrow> k = l \<and> br_failed_step (plat_boot_report u) = i \<and>
       fr_escalations (fd_record (w_fdir u) (step_fault i)) = e + 1)"

text \<open>A step of a critical class: with \<open>n\<close> failures counted, it is given up at the third, and it ends.\<close>

lemma run_step_loop_result:
  assumes "boot_env_ok E" "i \<in> set boot_steps" "i \<noteq> BOOT_STEP_SAFE_OUTPUTS"
  shows "fdir_counts (step_fault i) n n e (w_fdir w) \<Longrightarrow> n < 3 \<Longrightarrow> post_ok (w_post w) \<Longrightarrow>
    \<exists>ok k u. run_step_loop E i True t w = Some (ok, u) \<and> step_ended i (3 - n) e w ok k u"
proof (induction "3 - n" arbitrary: n w)
  case 0
  then show ?case by simp
next
  case (Suc m)
  note sf = step_fault_facts [OF assms(2)]
  have cr: "fdir_critical (step_fault i)" "unat (fp_limit (k_policy (step_fault i))) = 3" using sf(5) assms(3) by simp_all
  obtain st el v where a: "step_attempt E i w = Some (st, el, v)" "step_effect i w v"
      "fdir_cell_same (step_fault i) (w_fdir v) (w_fdir w)"
      "br_attempts (plat_boot_report v) i = br_attempts (plat_boot_report w) i + 1"
      "br_failed_step (plat_boot_report v) = br_failed_step (plat_boot_report w)"
    using step_attempt_result [OF assms(1) Suc.prems(3) assms(2)] by blast
  show ?case
  proof (cases "st = QIRAN_OK")
    case True
    then have "run_step_loop E i True t w = Some (True, step_passed E i t el v)"
      by (subst run_step_loop.simps) (simp add: a(1))
    moreover have "step_ended i (3 - n) e w True 1 (step_passed E i t el v)"
      using step_effect_trans [OF a(2) step_passed_effect(1) [OF assms(1,2)]] step_passed_effect(2,3) [OF assms(1,2), of t el v]
        a(4,5) Suc.prems(2) by (simp add: step_ended_def)
    ultimately show ?thesis by blast
  next
    case False
    let ?h = "boot_handled E i (status_code st) v"
    have h: "step_effect i w ?h" "w_boot ?h = w_boot v"
      using step_effect_trans [OF a(2) boot_handled_effect(1) [OF assms(1,2)]] boot_handled_effect(2) [OF assms(1,2)] by blast+
    have "fdir_counts (step_fault i) (Suc n) n e (w_fdir (svc_fdir_report (step_fault i) (status_code st) v))"
      using fdir_counts_report [OF cell_same_counts [OF a(3) Suc.prems(1)] sf(3), of "step_fault i"] by simp
    then have c: "fdir_counts (step_fault i) (Suc n) (Suc n) e (w_fdir ?h)"
      using fdir_counts_service [OF boot_env_okD(1) [OF assms(1)] cr(1) sf(1)] Suc.prems(2) by simp
    have ex: "svc_fdir_retries_exhausted (step_fault i) ?h \<longleftrightarrow> n = 2"
      using exhausted_counts [OF c _ cr(1)] cr(2) Suc.prems(2) by auto
    have go: "run_step_loop E i True t w =
        (if n = 2 then Some (False, step_given_up i t ?h) else run_step_loop E i True t ?h)"
      by (subst run_step_loop.simps) (simp add: a(1) False ex Let_def)
    show ?thesis
    proof (cases "n = 2")
      case True
      have "step_ended i (3 - n) e w False 1 (step_given_up i t ?h)"
        using step_effect_trans [OF h(1) step_given_up_effect(1)] step_given_up_effect(2-4) [of i t ?h] h(2) a(4) True c cr(2)
        by (simp add: step_ended_def plat_boot_report_def fdir_counts_def)
      then show ?thesis using go True by auto
    next
      case False
      then have n: "Suc n < 3" "m = 3 - Suc n" using Suc.prems(2) Suc.hyps(2) by simp_all
      have "post_ok (w_post ?h)" using h(1) Suc.prems(3) by (simp add: step_effect_def)
      then obtain ok k u where u: "run_step_loop E i True t ?h = Some (ok, u)" "step_ended i (3 - Suc n) e ?h ok k u"
        using Suc.hyps(1) [OF n(2) c n(1)] by blast
      have "step_ended i (3 - n) e w ok (Suc k) u"
        using u(2) step_effect_trans [OF h(1), of u] h(2) a(4,5) Suc.prems(2)
        by (auto simp: step_ended_def plat_boot_report_def)
      then show ?thesis using go False u(1) by auto
    qed
  qed
qed

text \<open>A boot fault with nothing counted, as initialisation and clearing leave it.\<close>

definition boot_clean :: "boot_step \<Rightarrow> fdir_state \<Rightarrow> bool" where
  "boot_clean i s \<longleftrightarrow> fd_reported s (step_fault i) = fd_serviced s (step_fault i) \<and>
     fr_occurrences (fd_record s (step_fault i)) = 0 \<and> \<not> fr_elevated (fd_record s (step_fault i))"

definition step_limit :: "boot_step \<Rightarrow> nat" where
  "step_limit i = (if i = BOOT_STEP_SAFE_OUTPUTS then 1 else 3)"

lemma run_step_result:
  assumes "boot_env_ok E" "i \<in> set boot_steps" "boot_clean i (w_fdir w)" "post_ok (w_post w)"
  shows "\<exists>ok k u. run_step E i w = Some (ok, u) \<and>
    step_ended i (step_limit i) (fr_escalations (fd_record (w_fdir w) (step_fault i))) w ok k u"
proof -
  let ?e = "fr_escalations (fd_record (w_fdir w) (step_fault i))"
  note sf = step_fault_facts [OF assms(2)]
  obtain t w1 where n1: "svc_time_now_ms w = (t, w1)" by (rule prod.exhaust)
  have w1: "w_fdir w1 = w_fdir w" "w_post w1 = w_post w" "plat_boot_report w1 = plat_boot_report w"
    using boot_now [of w] by (simp_all add: n1 plat_boot_report_def)
  have eff: "step_ended i l e w1 ok k u \<Longrightarrow> step_ended i l e w ok k u" for l e ok k u
    by (simp add: step_ended_def step_effect_def w1)
  have run: "run_step E i w = run_step_loop E i (i \<noteq> BOOT_STEP_SAFE_OUTPUTS) t w1"
    by (simp add: run_step_def n1 sf(6))
  show ?thesis
  proof (cases "i = BOOT_STEP_SAFE_OUTPUTS")
    case False
    have "unat (fp_limit (k_policy (step_fault i))) = 3" using sf(5) False by simp
    then have "fdir_counts (step_fault i) 0 0 ?e (w_fdir w1)"
      using assms(3) by (simp add: boot_clean_def fdir_counts_def w1)
    then show ?thesis
      using run_step_loop_result [OF assms(1,2) False, of 0 ?e w1 t] assms(4) eff False by (fastforce simp: run step_limit_def w1)
  next
    case True
    obtain st el v where a: "step_attempt E i w1 = Some (st, el, v)" "step_effect i w1 v"
        "fdir_cell_same (step_fault i) (w_fdir v) (w_fdir w1)"
        "br_attempts (plat_boot_report v) i = br_attempts (plat_boot_report w1) i + 1"
        "br_failed_step (plat_boot_report v) = br_failed_step (plat_boot_report w1)"
      using step_attempt_result [OF assms(1) _ assms(2), of w1] assms(4) w1 by auto
    let ?h = "boot_handled E i (status_code st) v" and ?v = "svc_fdir_report (step_fault i) (status_code st) v"
    have go: "run_step E i w = (if st = QIRAN_OK then Some (True, step_passed E i t el v) else Some (False, step_given_up i t ?h))"
      by (subst run, subst run_step_loop.simps) (simp add: a(1) [unfolded True] True Let_def)
    show ?thesis
    proof (cases "st = QIRAN_OK")
      case ok: True
      have ended: "step_ended i (step_limit i) ?e w1 True 1 (step_passed E i t el v)"
        using step_effect_trans [OF a(2) step_passed_effect(1) [OF assms(1,2)]] step_passed_effect(2,3) [OF assms(1,2), of t el v]
          a(4,5) by (simp add: step_ended_def step_limit_def)
      have "run_step E i w = Some (True, step_passed E i t el v)" using go ok by simp
      then show ?thesis using eff [OF ended] by blast
    next
      case bad: False
      have h: "step_effect i w1 ?h" "w_boot ?h = w_boot v"
        using step_effect_trans [OF a(2) boot_handled_effect(1) [OF assms(1,2)]] boot_handled_effect(2) [OF assms(1,2)] by blast+
      have "fd_reported (w_fdir ?v) (step_fault i) - fd_serviced (w_fdir ?v) (step_fault i) = 1"
        and r: "fd_record (w_fdir ?v) (step_fault i) = fd_record (w_fdir w) (step_fault i)"
        using a(3) assms(3) sf(3) by (simp_all add: svc_fdir_report_eq fdir_counted_def fdir_cell_same_def boot_clean_def w1)
      then obtain d k where "fd_record (w_fdir ?h) (step_fault i) = fdir_class_record (step_fault i) 1 d k (fd_record (w_fdir w) (step_fault i))"
        using error_handling_cell(3) [OF boot_env_okD(1) [OF assms(1)] sf(1-3), of ?v] by auto
      then have "fr_escalations (fd_record (w_fdir ?h) (step_fault i)) = ?e + 1"
        using True by (simp add: fdir_class_record_def fdir_escalates_def fdir_policy_def)
      then have ended: "step_ended i (step_limit i) ?e w1 False 1 (step_given_up i t ?h)"
        using step_effect_trans [OF h(1) step_given_up_effect(1)] step_given_up_effect(2-4) [of i t ?h] h(2) a(4) True
        by (simp add: step_ended_def plat_boot_report_def step_limit_def)
      have "run_step E i w = Some (False, step_given_up i t ?h)" using go bad by simp
      then show ?thesis using eff [OF ended] by blast
    qed
  qed
qed

subsection \<open>The sequence\<close>

text \<open>What the sequence of steps leaves: all passed, or one was given up after those before it passed and
  before any after it was begun. Attempts are counted from a report with none.\<close>

definition attempts_of :: "boot_step \<Rightarrow> 'a boot_world_scheme \<Rightarrow> nat" where
  "attempts_of i w = unat (br_attempts (plat_boot_report w) i)"

definition steps_ended :: "boot_step list \<Rightarrow> 'a boot_world_scheme \<Rightarrow> bool \<Rightarrow> 'a boot_world_scheme \<Rightarrow> bool" where
  "steps_ended is w ok u \<longleftrightarrow> (\<forall>i \<in> set is. attempts_of i u \<le> step_limit i) \<and>
    (ok \<longrightarrow> (\<forall>i \<in> set is. 1 \<le> attempts_of i u) \<and> br_failed_step (plat_boot_report u) = br_failed_step (plat_boot_report w)) \<and>
    (\<not> ok \<longrightarrow> (\<exists>pre i post. is = pre @ i # post \<and> br_failed_step (plat_boot_report u) = i \<and>
       attempts_of i u = step_limit i \<and> (\<forall>j \<in> set pre. 1 \<le> attempts_of j u) \<and> (\<forall>j \<in> set post. attempts_of j u = 0) \<and>
       fr_escalations (fd_record (w_fdir u) (step_fault i)) = fr_escalations (fd_record (w_fdir w) (step_fault i)) + 1))"

lemma steps_given_up:
  assumes "is = pre @ i # post" "br_failed_step (plat_boot_report u) = i" "attempts_of i u = step_limit i"
    and "\<forall>j \<in> set pre. 1 \<le> attempts_of j u \<and> attempts_of j u \<le> step_limit j" "\<forall>j \<in> set post. attempts_of j u = 0"
    and "fr_escalations (fd_record (w_fdir u) (step_fault i)) = fr_escalations (fd_record (w_fdir w) (step_fault i)) + 1"
  shows "steps_ended is w False u"
proof -
  have "\<forall>j \<in> set is. attempts_of j u \<le> step_limit j" unfolding assms(1) using assms(3-5) by auto
  moreover have "\<forall>j \<in> set pre. 1 \<le> attempts_of j u" using assms(4) by blast
  ultimately show ?thesis unfolding steps_ended_def using assms by blast
qed

lemma run_steps_result:
  assumes "boot_env_ok E"
  shows "distinct is \<Longrightarrow> set is \<subseteq> set boot_steps \<Longrightarrow> \<forall>i \<in> set is. boot_clean i (w_fdir w) \<and> attempts_of i w = 0 \<Longrightarrow>
    post_ok (w_post w) \<Longrightarrow>
    \<exists>ok u. run_steps E is w = Some (ok, u) \<and> steps_ended is w ok u \<and> (\<forall>j. j \<notin> set is \<longrightarrow> attempts_of j u = attempts_of j w)"
proof (induction "is" arbitrary: w)
  case Nil
  have "steps_ended [] w True w" by (simp add: steps_ended_def)
  then show ?case by auto
next
  case (Cons i js)
  have i: "i \<in> set boot_steps" "boot_clean i (w_fdir w)" "attempts_of i w = 0" using Cons.prems by simp_all
  obtain ok k v where v: "run_step E i w = Some (ok, v)"
      "step_ended i (step_limit i) (fr_escalations (fd_record (w_fdir w) (step_fault i))) w ok k v"
    using run_step_result [OF assms i(1,2) Cons.prems(4)] by blast
  have k: "1 \<le> k" "k \<le> step_limit i" "step_limit i \<le> 3" using v(2) by (simp_all add: step_ended_def step_limit_def)
  then have av: "attempts_of i v = k"
    using v(2) i(3) by (simp add: step_ended_def attempts_of_def unat_of_nat_eq_u32 unat_eq_0)
  have eff: "step_effect i w v" using v(2) by (simp add: step_ended_def)
  have oth: "attempts_of j v = attempts_of j w" if "j \<noteq> i" for j
    using eff that by (simp add: step_effect_def attempts_of_def)
  have ji: "j \<in> set js \<Longrightarrow> j \<noteq> i" for j using Cons.prems(1) by auto
  show ?case
  proof (cases ok)
    case False
    have f: "br_failed_step (plat_boot_report v) = i" "k = step_limit i"
      "fr_escalations (fd_record (w_fdir v) (step_fault i)) = fr_escalations (fd_record (w_fdir w) (step_fault i)) + 1"
      using v(2) False by (simp_all add: step_ended_def)
    have "\<forall>j \<in> set js. attempts_of j v = 0" using oth [OF ji] Cons.prems(3) by simp
    then have "steps_ended (i # js) w False v"
      using f av by (intro steps_given_up [of _ "[]" i js]) simp_all
    then show ?thesis using v(1) False oth by auto
  next
    case True
    have same: "fdir_cell_same (step_fault j) (w_fdir v) (w_fdir w)" if "j \<in> set js" for j
      using eff that ji [OF that] Cons.prems(2,3) by (auto simp: step_effect_def boot_clean_def)
    have "\<forall>j \<in> set js. boot_clean j (w_fdir v) \<and> attempts_of j v = 0"
      using same Cons.prems(3) oth ji by (auto simp: boot_clean_def fdir_cell_same_def)
    moreover have "post_ok (w_post v)" using eff Cons.prems(4) by (simp add: step_effect_def)
    ultimately obtain ok2 u where u: "run_steps E js v = Some (ok2, u)" "steps_ended js v ok2 u"
        "\<forall>j. j \<notin> set js \<longrightarrow> attempts_of j u = attempts_of j v"
      using Cons.IH [of v] Cons.prems(1,2) by auto
    have ai: "attempts_of i u = k" using u(3) av Cons.prems(1) by simp
    have "steps_ended (i # js) w ok2 u"
    proof (cases ok2)
      case ok2: True
      then show ?thesis using u(2) ai k v(2) True by (auto simp: steps_ended_def step_ended_def)
    next
      case bad: False
      then obtain pre f post where f: "js = pre @ f # post" "br_failed_step (plat_boot_report u) = f"
         "attempts_of f u = step_limit f" "\<forall>j \<in> set pre. 1 \<le> attempts_of j u" "\<forall>j \<in> set post. attempts_of j u = 0"
         "fr_escalations (fd_record (w_fdir u) (step_fault f)) = fr_escalations (fd_record (w_fdir v) (step_fault f)) + 1"
        using u(2) by (auto simp: steps_ended_def)
      have "fr_escalations (fd_record (w_fdir v) (step_fault f)) = fr_escalations (fd_record (w_fdir w) (step_fault f))"
        using same [of f] f(1) by (simp add: fdir_cell_same_def)
      moreover have "\<forall>j \<in> set pre. attempts_of j u \<le> step_limit j" using u(2) f(1) by (simp add: steps_ended_def)
      ultimately have "steps_ended (i # js) w False u"
        using f ai k by (intro steps_given_up [of _ "i # pre" f post]) auto
      then show ?thesis using bad by simp
    qed
    moreover have "\<forall>j. j \<notin> set (i # js) \<longrightarrow> attempts_of j u = attempts_of j w" using u(3) oth by simp
    ultimately show ?thesis using v(1) u(1) True by auto
  qed
qed

subsection \<open>Properties\<close>

lemma report_reset_attempts:
  "i \<in> set boot_steps \<Longrightarrow> br_attempts (report_reset r) i = 0" "br_failed_step (report_reset r) = BOOT_STEP_COUNT"
  by (auto simp: report_reset_def boot_steps_def)

lemma clear_boot_faults:
  assumes "i \<in> set boot_steps"
  shows "svc_fdir_occurrences (step_fault i) (fold (\<lambda>i. svc_fdir_clear (step_fault i)) boot_steps w) = 0"
    "w_boot (fold (\<lambda>i. svc_fdir_clear (step_fault i)) boot_steps w) = w_boot w"
proof -
  show "w_boot (fold (\<lambda>i. svc_fdir_clear (step_fault i)) boot_steps w) = w_boot w"
    by (simp add: boot_steps_def svc_fdir_clear_eq)
  show "svc_fdir_occurrences (step_fault i) (fold (\<lambda>i. svc_fdir_clear (step_fault i)) boot_steps w) = 0"
    using assms by (auto simp: boot_steps_def svc_fdir_clear_eq fdir_cleared_def svc_fdir_occurrences_def fdir_unserviced_def)
qed

text \<open>C4: The boot sequence ends, whatever the steps do and however often they fail. Each step is attempted
  at least once and at most to its limit, three times for the four that may be retried and once for the
  safe outputs. Either all five pass, in order, and their faults are cleared; or one is given up at
  its limit: those before it have passed, those after it are never begun, its fault is delivered to the
  observer exactly once more, and boot is reported as terminal with that step.\<close>

theorem boot_ends:
  fixes w :: "'a boot_world_scheme"
  assumes "boot_env_ok E" "post_ok (w_post w)" "\<forall>i \<in> set boot_steps. boot_clean i (w_fdir w)"
  shows "\<exists>st u. boot_and_init E w = Some (st, u) \<and> (\<forall>i \<in> set boot_steps. attempts_of i u \<le> step_limit i) \<and>
    (if st = QIRAN_OK
     then br_outcome (plat_boot_report u) = BOOT_OUTCOME_SUCCESS \<and> br_failed_step (plat_boot_report u) = BOOT_STEP_COUNT \<and>
       (\<forall>i \<in> set boot_steps. 1 \<le> attempts_of i u \<and> svc_fdir_occurrences (step_fault i) u = 0)
     else st = QIRAN_ERR_HARDWARE \<and> br_outcome (plat_boot_report u) = BOOT_OUTCOME_TERMINAL \<and>
       (\<exists>pre i post. boot_steps = pre @ i # post \<and> br_failed_step (plat_boot_report u) = i \<and>
         attempts_of i u = step_limit i \<and> (\<forall>j \<in> set pre. 1 \<le> attempts_of j u) \<and> (\<forall>j \<in> set post. attempts_of j u = 0) \<and>
         fr_escalations (fd_record (w_fdir u) (step_fault i)) = fr_escalations (fd_record (w_fdir w) (step_fault i)) + 1))"
proof -
  obtain started w1 where n1: "svc_time_now_ms w = (started, w1)" by (rule prod.exhaust)
  have w1: "w_fdir w1 = w_fdir w" "w_post w1 = w_post w" using boot_now [of w] by (simp_all add: n1)
  let ?w = "report_upd report_reset w1"
  have "\<forall>i \<in> set boot_steps. boot_clean i (w_fdir ?w) \<and> attempts_of i ?w = 0"
    using assms(3) report_reset_attempts(1) by (simp add: w1 attempts_of_def plat_boot_report_def)
  moreover have "distinct boot_steps" by (simp add: boot_steps_def)
  ultimately obtain ok v where v: "run_steps E boot_steps ?w = Some (ok, v)" "steps_ended boot_steps ?w ok v"
    using run_steps_result [OF assms(1), of boot_steps ?w] assms(2) w1 by auto
  have fs: "br_failed_step (plat_boot_report ?w) = BOOT_STEP_COUNT"
    by (simp add: plat_boot_report_def report_reset_attempts)
  let ?out = "if ok then BOOT_OUTCOME_SUCCESS else BOOT_OUTCOME_TERMINAL"
  obtain now v2 where n2: "svc_time_now_ms (report_upd (\<lambda>r. r\<lparr>br_outcome := ?out\<rparr>) v) = (now, v2)" by (rule prod.exhaust)
  let ?v = "report_upd (\<lambda>r. r\<lparr>br_total_ms := ucast (now - started)\<rparr>) v2"
  have v2: "plat_boot_report ?v = (plat_boot_report v)\<lparr>br_outcome := ?out, br_total_ms := ucast (now - started)\<rparr>"
      "w_fdir ?v = w_fdir v"
    using boot_now(1,2) [of "report_upd (\<lambda>r. r\<lparr>br_outcome := ?out\<rparr>) v"] by (simp_all add: n2 plat_boot_report_def)
  show ?thesis
  proof (cases ok)
    case True
    let ?u = "fold (\<lambda>i. svc_fdir_clear (step_fault i)) boot_steps ?v"
    have "boot_and_init E w = Some (QIRAN_OK, ?u)" using v(1) n2 True by (simp add: boot_and_init_def n1)
    moreover have "plat_boot_report ?u = plat_boot_report ?v"
      using clear_boot_faults(2) [of BOOT_STEP_POST ?v] by (simp add: plat_boot_report_def boot_steps_def)
    ultimately show ?thesis
      using v(2) True v2(1) fs clear_boot_faults(1) [of _ ?v] by (auto simp: steps_ended_def attempts_of_def)
  next
    case False
    let ?u = "svc_log_event (of_nat (fault_idx QIRAN_FAULT_DEVINIT)) (br_total_ms (bo_report (w_boot ?v))) ?v"
    have "boot_and_init E w = Some (QIRAN_ERR_HARDWARE, ?u)" using v(1) n2 False by (simp add: boot_and_init_def n1 Let_def)
    moreover have "plat_boot_report ?u = plat_boot_report ?v" "w_fdir ?u = w_fdir v"
      using v2(2) by (simp_all add: plat_boot_report_def svc_log_eqs)
    ultimately show ?thesis
      using v(2) False v2(1) w1 by (auto simp: steps_ended_def attempts_of_def)
  qed
qed

text \<open>The sequence always ends, and its result is the outcome that is reported.\<close>

lemma boot_runs:
  fixes w :: "'a boot_world_scheme"
  assumes "boot_env_ok E" "post_ok (w_post w)" "\<forall>i \<in> set boot_steps. boot_clean i (w_fdir w)"
  obtains ok v where "run_steps E boot_steps (report_upd report_reset (snd (svc_time_now_ms w))) = Some (ok, v)"
proof -
  let ?w = "report_upd report_reset (snd (svc_time_now_ms w))"
  have "\<forall>i \<in> set boot_steps. boot_clean i (w_fdir ?w) \<and> attempts_of i ?w = 0"
    using assms(3) report_reset_attempts(1) by (simp add: attempts_of_def plat_boot_report_def)
  moreover have "distinct boot_steps" by (simp add: boot_steps_def)
  ultimately show ?thesis
    using that run_steps_result [OF assms(1), of boot_steps ?w] assms(2) by auto
qed

lemma boot_outcomes:
  assumes "run_steps E boot_steps (report_upd report_reset (snd (svc_time_now_ms w))) = Some (ok, v)"
  shows "\<exists>u. boot_and_init E w = Some (if ok then QIRAN_OK else QIRAN_ERR_HARDWARE, u) \<and>
    br_outcome (plat_boot_report u) = (if ok then BOOT_OUTCOME_SUCCESS else BOOT_OUTCOME_TERMINAL)"
proof -
  obtain started w1 where n1: "svc_time_now_ms w = (started, w1)" by (rule prod.exhaust)
  have v: "run_steps E boot_steps (report_upd report_reset w1) = Some (ok, v)" using assms by (simp add: n1)
  let ?out = "if ok then BOOT_OUTCOME_SUCCESS else BOOT_OUTCOME_TERMINAL"
  obtain now v2 where n2: "svc_time_now_ms (report_upd (\<lambda>r. r\<lparr>br_outcome := ?out\<rparr>) v) = (now, v2)" by (rule prod.exhaust)
  let ?v = "report_upd (\<lambda>r. r\<lparr>br_total_ms := ucast (now - started)\<rparr>) v2"
  have out: "br_outcome (plat_boot_report ?v) = ?out"
    using boot_now(1) [of "report_upd (\<lambda>r. r\<lparr>br_outcome := ?out\<rparr>) v"] by (simp add: n2 plat_boot_report_def)
  show ?thesis
  proof (cases ok)
    case True
    then have "boot_and_init E w = Some (QIRAN_OK, fold (\<lambda>i. svc_fdir_clear (step_fault i)) boot_steps ?v)"
      using v n2 by (simp add: boot_and_init_def n1)
    then show ?thesis using out True clear_boot_faults(2) [of BOOT_STEP_POST ?v] by (simp add: plat_boot_report_def boot_steps_def)
  next
    case False
    then show ?thesis using v n2 out by (simp add: boot_and_init_def n1 Let_def plat_boot_report_def svc_log_eqs)
  qed
qed

text \<open>A platform check that never passes.\<close>

definition boot_env0 :: "boot_world boot_env" where
  "boot_env0 = \<lparr>be_safe = (\<lambda>_ w. (QIRAN_OK, w)), be_check = (\<lambda>_ w. (QIRAN_ERR_TIMEOUT, w)),
     be_post = \<lparr>pe_mem = \<lparr>me_write = (\<lambda>_ _ _ w. w), me_read = (\<lambda>_ _ w. (0, w)), me_flush = (\<lambda>_ _ w. w),
       me_invalidate = (\<lambda>_ _ w. w)\<rparr>, pe_test = (\<lambda>_ w. (QIRAN_OK, 0, w))\<rparr>,
     be_init = (\<lambda>_ w. (QIRAN_OK, w)), be_link = (\<lambda>_ w. (QIRAN_OK, w)),
     be_fdir = \<lparr>fe_report_flag = (\<lambda>_ _ _ _ w. (QIRAN_OK, w)), fe_request_power_reset = (\<lambda>_ _ w. (QIRAN_OK, w))\<rparr>\<rparr>"

definition boot_setup :: "boot_world \<Rightarrow> boot_world" where
  "boot_setup w = svc_fdir_init (snd (plat_boot_set_platform_check (Some 5) (w\<lparr>w_post :=
     \<lparr>po_entry = replicate 16 \<lparr>pt_name = [], pt_test = Builtin_memory_test\<rparr>,
      po_result = replicate 16 \<lparr>pr_name = None, pr_result = QIRAN_OK, pr_detail = 0, pr_duration_ms = 0, pr_ran = False\<rparr>,
      po_count = 1, po_failures = 0, po_mem_base = None, po_mem_words = 0\<rparr>\<rparr>)))"

theorem boot_ends_witness:
  "\<forall>w. \<exists>st u. boot_and_init boot_env0 (boot_setup w) = Some (st, u) \<and>
     attempts_of BOOT_STEP_SAFE_OUTPUTS u \<le> 1 \<and> attempts_of BOOT_STEP_PLATFORM u \<le> 3"
proof
  fix w
  have e: "boot_env_ok boot_env0"
    by (simp add: boot_env_ok_def boot_env0_def uplink_ok_def link_keeps_def post_keeps_def mem_keeps_def)
  have p: "post_ok (w_post (boot_setup w))"
    by (simp add: boot_setup_def plat_boot_set_platform_check_def svc_fdir_init_def post_ok_def PLAT_POST_MAX_def)
  have c: "\<forall>i \<in> set boot_steps. boot_clean i (w_fdir (boot_setup w))"
    by (simp add: boot_setup_def svc_fdir_init_def boot_clean_def)
  from boot_ends [OF e p c] show "\<exists>st u. boot_and_init boot_env0 (boot_setup w) = Some (st, u) \<and>
     attempts_of BOOT_STEP_SAFE_OUTPUTS u \<le> 1 \<and> attempts_of BOOT_STEP_PLATFORM u \<le> 3"
    by (fastforce simp: boot_steps_def step_limit_def)
qed

text \<open>With no action registered the first step fails at its first attempt, and that is all that happens.\<close>

lemma no_safe_outputs:
  assumes "sf_count (w_safe w) = 0"
  shows "\<exists>t v. run_steps E boot_steps w = Some (False, step_given_up BOOT_STEP_SAFE_OUTPUTS t
      (boot_handled E BOOT_STEP_SAFE_OUTPUTS (status_code QIRAN_ERR_STATE) v)) \<and>
    (\<forall>E2. run_steps E2 boot_steps w = Some (False, step_given_up BOOT_STEP_SAFE_OUTPUTS t
      (boot_handled E2 BOOT_STEP_SAFE_OUTPUTS (status_code QIRAN_ERR_STATE) v)))"
proof -
  obtain t w1 where n1: "svc_time_now_ms w = (t, w1)" by (rule prod.exhaust)
  obtain t2 w2 where n2: "svc_time_now_ms w1 = (t2, w2)" by (rule prod.exhaust)
  have "w_safe w2 = w_safe w"
    using n1 n2 by (auto simp: svc_time_now_ms_def Let_def)
  then have a: "plat_safe_outputs_apply act w2 =
      (QIRAN_ERR_STATE, safe_upd (\<lambda>s. s\<lparr>sf_applications := sf_applications s + 1\<rparr>) w2)" for act :: "'a boot_world_scheme safe_actions"
    using assms by (simp add: plat_safe_outputs_apply_def safe_upd_def)
  obtain t3 w3 where n3: "svc_time_now_ms (safe_upd (\<lambda>s. s\<lparr>sf_applications := sf_applications s + 1\<rparr>) w2) = (t3, w3)"
    by (rule prod.exhaust)
  let ?v = "report_upd (\<lambda>r. r\<lparr>br_attempts := (br_attempts r)(BOOT_STEP_SAFE_OUTPUTS := br_attempts r BOOT_STEP_SAFE_OUTPUTS + 1)\<rparr>) w3"
  have at: "step_attempt E BOOT_STEP_SAFE_OUTPUTS w1 = Some (QIRAN_ERR_STATE, ucast (t3 - t2), ?v)"
    for E :: "'a boot_world_scheme boot_env"
    by (simp add: step_attempt_def n2 a n3)
  have "\<not> step_retryable BOOT_STEP_SAFE_OUTPUTS" by (simp add: step_retryable_def svc_fdir_policy_get_def fdir_policy_def)
  then have "run_step E BOOT_STEP_SAFE_OUTPUTS w = Some (False, step_given_up BOOT_STEP_SAFE_OUTPUTS t
      (boot_handled E BOOT_STEP_SAFE_OUTPUTS (status_code QIRAN_ERR_STATE) ?v))" for E :: "'a boot_world_scheme boot_env"
    by (simp add: run_step_def n1) (subst run_step_loop.simps, simp add: at Let_def)
  then have "run_steps E boot_steps w = Some (False, step_given_up BOOT_STEP_SAFE_OUTPUTS t
      (boot_handled E BOOT_STEP_SAFE_OUTPUTS (status_code QIRAN_ERR_STATE) ?v))" for E :: "'a boot_world_scheme boot_env"
    by (simp add: boot_steps_def)
  then show ?thesis by blast
qed

text \<open>C13: Nothing is started before the outputs are safe, and with no action registered they are not:
  boot then ends in its first step, and neither its result nor its effect depends on what any check,
  self test, device or link would have done, as none of them is called.\<close>

theorem boot_safe_outputs_first:
  fixes w :: "'a boot_world_scheme" and E E2 :: "'a boot_world_scheme boot_env"
  assumes "plat_safe_outputs_registered w = 0" "be_fdir E2 = be_fdir E"
  shows "boot_and_init E2 w = boot_and_init E w \<and>
    (\<exists>u. boot_and_init E w = Some (QIRAN_ERR_HARDWARE, u))"
proof -
  obtain started w1 where n1: "svc_time_now_ms w = (started, w1)" by (rule prod.exhaust)
  have "w_safe w1 = w_safe w" using n1 by (auto simp: svc_time_now_ms_def Let_def)
  then have "sf_count (w_safe (report_upd report_reset w1)) = 0"
    using assms(1) by (simp add: plat_safe_outputs_registered_def report_upd_def)
  from no_safe_outputs [OF this]
  obtain t v where r: "\<And>E :: 'a boot_world_scheme boot_env. run_steps E boot_steps (report_upd report_reset w1) =
      Some (False, step_given_up BOOT_STEP_SAFE_OUTPUTS t (boot_handled E BOOT_STEP_SAFE_OUTPUTS (status_code QIRAN_ERR_STATE) v))"
    by blast
  show ?thesis by (simp add: boot_and_init_def n1 r assms(2) split_beta Let_def)
qed

theorem boot_safe_outputs_first_witness:
  "\<forall>w. let w = w\<lparr>w_safe := (w_safe w)\<lparr>sf_count := 0\<rparr>\<rparr>
    in boot_and_init boot_env0 w = boot_and_init (boot_env0\<lparr>be_check := (\<lambda>_ w. (QIRAN_OK, w))\<rparr>) w \<and>
      map_option fst (boot_and_init boot_env0 w) = Some QIRAN_ERR_HARDWARE"
proof
  fix w :: boot_world
  define v where "v = w\<lparr>w_safe := (w_safe w)\<lparr>sf_count := 0\<rparr>\<rparr>"
  have r: "plat_safe_outputs_registered v = 0" by (simp add: v_def plat_safe_outputs_registered_def)
  from boot_safe_outputs_first [OF r, of boot_env0 "boot_env0\<lparr>be_check := (\<lambda>_ w. (QIRAN_OK, w))\<rparr>"]
  show "let w = w\<lparr>w_safe := (w_safe w)\<lparr>sf_count := 0\<rparr>\<rparr>
    in boot_and_init boot_env0 w = boot_and_init (boot_env0\<lparr>be_check := (\<lambda>_ w. (QIRAN_OK, w))\<rparr>) w \<and>
      map_option fst (boot_and_init boot_env0 w) = Some QIRAN_ERR_HARDWARE"
    unfolding v_def Let_def by (auto simp: boot_env0_def)
qed

text \<open>C26: The platform comes up whole or not at all. When it does, the tick of the private timer is connected
  and enabled at the controller, the timer runs with the period of the minor cycle, nothing is counted
  yet by the executive and the time service, and every event queue and the receive ring are empty and
  well formed; when it does not, no interrupt is let through and the timer is not started.\<close>

theorem early_init_ready:
  fixes w :: "'a boot_world_scheme"
  assumes "length (rg_buf (ua_rx (w_uart w))) = 256" "\<forall>i. length (iq_q (w_irq w i)) = 8"
    and "plat_early_init w = (st, u)"
  shows "if st = QIRAN_OK
    then gc_started (w_gic u) \<and> gc_lines (w_gic u) (tr_int_id (w_timer w)) = Some Timer_isr \<and>
      gc_enabled (w_gic u) (tr_int_id (w_timer w)) \<and> tr_running (w_timer u) \<and> tr_auto_reload (w_timer u) \<and>
      tr_irq_enabled (w_timer u) \<and> tr_load (w_timer u) = plat_timer_load_value w \<and>
      exec_raw_tick_count u = 0 \<and> exec_minor_tick_count u = 0 \<and> time_at 0 0 u \<and>
      (\<forall>i. irq_invar (w_irq u i) \<and> irq_queue (w_irq u i) = [] \<and> \<not> plat_irq_registered i u) \<and>
      ring_invar (ua_rx (w_uart u)) \<and> ring_queue (ua_rx (w_uart u)) = []
    else gc_started (w_gic u) = gc_started (w_gic w) \<and> tr_running (w_timer u) = tr_running (w_timer w)"
proof -
  let ?w = "plat_cpu_init w"
  have w0: "w_gic ?w = w_gic w" "w_irq ?w = w_irq w" "w_uart ?w = w_uart w" "w_timer ?w = w_timer w"
    by (simp_all add: plat_cpu_init_def Let_def)
  obtain s1 w1 where g: "plat_gic_init ?w = (s1, w1)" by (rule prod.exhaust)
  have w1: "w_irq w1 = w_irq w" "w_uart w1 = w_uart w" "w_timer w1 = w_timer w"
      "gc_started (w_gic w1) = gc_started (w_gic w)" "s1 = QIRAN_OK \<Longrightarrow> gc_ready (w_gic w1)"
    using g w0 by (auto simp: plat_gic_init_def split: if_splits)
  obtain s2 w2 where u: "plat_isr_uart_init None (plat_irq_init w1) = (s2, w2)" by (rule prod.exhaust)
  have len: "length (rg_buf (ua_rx (w_uart (plat_irq_init w1)))) = 256"
    using assms(1) w1 by (simp add: plat_irq_init_def)
  note ring = uart_init_ring [OF len u]
  have w2: "w_irq w2 = (\<lambda>i. irq_reset (w_irq w i))" "w_timer w2 = w_timer w" "w_gic w2 = w_gic w1"
    using u w1 by (auto simp: plat_isr_uart_init_def plat_irq_init_def Let_def svc_ring_init_def split: prod.splits if_splits)
  obtain s3 w3 where t: "plat_timer_init (exec_init w2) = (s3, w3)" by (rule prod.exhaust)
  have w3: "w_irq w3 = w_irq w2" "w_uart w3 = w_uart w2" "w_exec w3 = w_exec (exec_init w2)"
      "tr_running (w_timer w3) = tr_running (w_timer w)" "gc_started (w_gic w3) = gc_started (w_gic w1)"
      "s3 = QIRAN_OK \<Longrightarrow> gc_lines (w_gic w3) (tr_int_id (w_timer w)) = Some Timer_isr \<and> gc_enabled (w_gic w3) (tr_int_id (w_timer w))"
    using t w1 w2 by (auto simp: plat_timer_init_def Let_def timer_upd_def exec_init_def plat_gic_connect_def
        plat_gic_enable_def split: if_splits)
  have e3: "w_timer (exec_init w2) = w_timer w2" by (simp add: exec_init_def)
  have p3: "s3 = QIRAN_OK \<Longrightarrow> w_timer w3 = timer_programmed (w_timer w)"
    using plat_timer_init_ok [of "exec_init w2"] t e3 w2(2) by simp
  have ev: "plat_early_init w = (if s1 \<noteq> QIRAN_OK then (s1, w1) else if s3 \<noteq> QIRAN_OK then (s3, w3)
      else (QIRAN_OK, svc_time_init (plat_gic_start (plat_timer_start w3))))"
    by (simp add: plat_early_init_def g u t ring(1) Let_def)
  have q: "irq_invar (irq_reset (w_irq w i)) \<and> irq_queue (irq_reset (w_irq w i)) = []" for i
    using assms(2) by (simp add: irq_invar_def irq_queue_def irq_reset_def ring_ok_def Q_MASK_def cfg_consts mask_eq_exp_minus_1)
  have late: "w_irq (svc_time_init (plat_gic_start (plat_timer_start w3))) = w_irq w3"
    "w_uart (svc_time_init (plat_gic_start (plat_timer_start w3))) = w_uart w3"
    "w_exec (svc_time_init (plat_gic_start (plat_timer_start w3))) = w_exec w3"
    "w_timer (svc_time_init (plat_gic_start (plat_timer_start w3))) = (w_timer w3)\<lparr>tr_running := True\<rparr>"
    "w_gic (svc_time_init (plat_gic_start (plat_timer_start w3))) = (w_gic w3)\<lparr>gc_started := True\<rparr>"
    "w_time (svc_time_init (plat_gic_start (plat_timer_start w3))) = \<lparr>tm_last_raw = exec_raw_tick_count w3, tm_ticks = 0,
       tm_epoch_ms = 0, tm_epoch_valid = False\<rparr>"
    by (simp_all add: svc_time_init_def plat_gic_start_def plat_timer_start_def timer_upd_def exec_raw_tick_count_def)
  have ex: "ex_isr_ticks (w_exec w3) = 0" "ex_elapsed_minor (w_exec w3) = 0" "exec_raw_tick_count w3 = 0"
    by (simp_all add: w3(3) exec_init_def exec_raw_tick_count_def)
  show ?thesis
  proof (cases "st = QIRAN_OK")
    case True
    then have ok: "s1 = QIRAN_OK" "s3 = QIRAN_OK" "u = svc_time_init (plat_gic_start (plat_timer_start w3))"
      using ev assms(3) by (auto split: if_splits)
    show ?thesis unfolding ok(3)
      using True ok w3 p3 ring w2 ex q by (simp add: late timer_programmed_def plat_timer_load_value_def exec_raw_tick_count_def
        exec_minor_tick_count_def time_at_def plat_irq_registered_def irq_reset_def)
  next
    case False
    then show ?thesis using ev assms(3) w1 w3 by (auto split: if_splits)
  qed
qed

text \<open>What a successful early initialisation leaves: all but the processor, the interrupts, the executive,
  the timer and the clock as it was, and the receive ring empty.\<close>

lemma early_init_only:
  assumes "length (rg_buf (ua_rx (w_uart w))) = 256" "plat_early_init w = (QIRAN_OK, u)"
  shows "ring_invar (ua_rx (w_uart u))" "ring_cap (ua_rx (w_uart u)) = 256"
    "\<exists>c e t q g r m. u = w\<lparr>w_cpu := c, w_exec := e, w_time := t, w_irq := q, w_gic := g, w_uart := r, w_timer := m\<rparr>"
proof -
  define v where "v = plat_irq_init (snd (plat_gic_init (plat_cpu_init w)))"
  have v: "v = w\<lparr>w_cpu := w_cpu v, w_irq := w_irq v, w_gic := w_gic v\<rparr>"
    by (simp add: v_def plat_irq_init_def plat_gic_init_def plat_cpu_init_def Let_def)
  obtain s2 x where x: "plat_isr_uart_init None v = (s2, x)" by (rule prod.exhaust)
  have "length (rg_buf (ua_rx (w_uart v))) = 256" using assms(1) by (subst v) simp
  note ring = uart_init_ring [OF this x]
  have xo: "x = v\<lparr>w_uart := w_uart x\<rparr>"
    using x by (auto simp: plat_isr_uart_init_def Let_def svc_ring_init_def split: prod.splits if_splits)
  obtain s3 y where y: "plat_timer_init (exec_init x) = (s3, y)" by (rule prod.exhaust)
  have yo: "y = x\<lparr>w_exec := w_exec y, w_gic := w_gic y, w_timer := w_timer y\<rparr>"
    using y by (auto simp: plat_timer_init_def timer_upd_def plat_gic_connect_def plat_gic_enable_def exec_init_def Let_def
        split: if_splits prod.splits option.splits)
  have u: "u = svc_time_init (plat_gic_start (plat_timer_start y))"
    using assms(2) x y unfolding v_def by (auto simp: plat_early_init_def Let_def split: prod.splits if_splits)
  have uo: "u = y\<lparr>w_time := w_time u, w_gic := w_gic u, w_timer := w_timer u\<rparr>"
    unfolding u by (simp add: svc_time_init_def plat_gic_start_def plat_timer_start_def timer_upd_def)
  have "w_uart u = w_uart x" by (subst uo, subst yo) simp
  then show "ring_invar (ua_rx (w_uart u))" "ring_cap (ua_rx (w_uart u)) = 256" using ring by simp_all
  have "u = w\<lparr>w_cpu := w_cpu v, w_exec := w_exec y, w_time := w_time u, w_irq := w_irq v, w_gic := w_gic u, w_uart := w_uart x,
      w_timer := w_timer u\<rparr>"
    by (subst uo, subst yo, subst xo, subst v) simp
  then show "\<exists>c e t q g r m. u = w\<lparr>w_cpu := c, w_exec := e, w_time := t, w_irq := q, w_gic := g, w_uart := r, w_timer := m\<rparr>"
    by blast
qed

text \<open>A board whose controller and timer are found.\<close>

definition early_setup :: "'a boot_world_scheme \<Rightarrow> 'a boot_world_scheme" where
  "early_setup w = w\<lparr>w_gic := (w_gic w)\<lparr>gc_ready := True, gc_connect_ok := (\<lambda>_. True)\<rparr>,
     w_timer := (w_timer w)\<lparr>tr_cfg_found := True, tr_cfg_ok := True\<rparr>,
     w_uart := (w_uart w)\<lparr>ua_rx := (ua_rx (w_uart w))\<lparr>rg_buf := replicate 256 0\<rparr>\<rparr>,
     w_irq := (\<lambda>i. (w_irq w i)\<lparr>iq_q := replicate 8 \<lparr>ev_tick = 0, ev_datum = 0, ev_kind = 0, ev_seq = 0\<rparr>\<rparr>)\<rparr>"

lemma early_setup_passes: "fst (plat_early_init (early_setup w)) = QIRAN_OK"
  by (simp add: plat_early_init_def early_setup_def plat_cpu_init_def plat_gic_init_def plat_irq_init_def
      plat_isr_uart_init_def svc_ring_init_def cfg_consts exec_init_def plat_timer_init_def timer_upd_def
      plat_gic_connect_def Let_def)

theorem early_init_ready_witness:
  "\<forall>w :: boot_world. let (st, u) = plat_early_init (early_setup w)
    in st = QIRAN_OK \<and> gc_started (w_gic u) \<and> tr_running (w_timer u) \<and> exec_minor_tick_count u = 0"
proof
  fix w :: boot_world
  obtain st u where p: "plat_early_init (early_setup w) = (st, u)" by (rule prod.exhaust)
  have l: "length (rg_buf (ua_rx (w_uart (early_setup w)))) = 256" "\<forall>i. length (iq_q (w_irq (early_setup w) i)) = 8"
    by (simp_all add: early_setup_def)
  have "st = QIRAN_OK" using early_setup_passes [of w] by (simp add: p)
  then show "let (st, u) = plat_early_init (early_setup w)
    in st = QIRAN_OK \<and> gc_started (w_gic u) \<and> tr_running (w_timer u) \<and> exec_minor_tick_count u = 0"
    using early_init_ready [OF l p] by (simp add: p)
qed

subsection \<open>What the boot sequence leaves alone\<close>

text \<open>An observation of the state that misses everything the boot sequence writes itself, and functions
  from outside that keep it: then boot keeps it.\<close>

definition boot_blind :: "('a boot_world_scheme \<Rightarrow> 'o) \<Rightarrow> bool" where
  "boot_blind obs \<longleftrightarrow> (\<forall>w t. obs (w\<lparr>w_time := t\<rparr>) = obs w) \<and> (\<forall>w b. obs (w\<lparr>w_boot := b\<rparr>) = obs w) \<and>
     (\<forall>w s. obs (w\<lparr>w_fdir := s\<rparr>) = obs w) \<and> (\<forall>w l. obs (w\<lparr>w_log := l\<rparr>) = obs w) \<and>
     (\<forall>w s. obs (w\<lparr>w_safe := s\<rparr>) = obs w) \<and> (\<forall>w d. obs (w\<lparr>w_devinit := d\<rparr>) = obs w) \<and>
     (\<forall>w p. obs (w\<lparr>w_post := p\<rparr>) = obs w)"

definition boot_env_keeps :: "('a boot_world_scheme \<Rightarrow> 'o) \<Rightarrow> 'a boot_world_scheme boot_env \<Rightarrow> bool" where
  "boot_env_keeps obs E \<longleftrightarrow>
     (\<forall>h w. obs (snd (be_safe E h w)) = obs w) \<and> (\<forall>h w. obs (snd (be_check E h w)) = obs w) \<and>
     (\<forall>h w. obs (snd (be_init E h w)) = obs w) \<and> (\<forall>h w. obs (snd (be_link E h w)) = obs w) \<and>
     post_keeps obs (be_post E) \<and>
     (\<forall>h f v d w. obs (snd (fe_report_flag (be_fdir E) h f v d w)) = obs w) \<and>
     (\<forall>h f w. obs (snd (fe_request_power_reset (be_fdir E) h f w)) = obs w)"

lemma boot_blind_upds:
  assumes "boot_blind obs"
  shows "obs (snd (svc_time_now_ms w)) = obs w" "obs (report_upd f w) = obs w" "obs (svc_log_fault i v d w) = obs w"
    "obs (svc_log_event c d w) = obs w" "obs (svc_fdir_report i d w) = obs w" "obs (svc_fdir_clear i w) = obs w"
    "obs (safe_upd g w) = obs w" "obs (devinit_upd k w) = obs w" "obs (post_upd p w) = obs w" "obs (w\<lparr>w_fdir := s\<rparr>) = obs w"
  using assms by (simp_all add: boot_blind_def svc_time_now_ms_def report_upd_def svc_log_eqs svc_fdir_report_eq svc_fdir_clear_eq
      safe_upd_def devinit_upd_def post_upd_def Let_def)

lemma boot_blind_service:
  assumes "boot_blind obs" "boot_env_keeps obs E"
  shows "obs (error_handling_service (be_fdir E) w) = obs w"
  by (rule error_handling_keeps) (use assms in \<open>simp_all add: boot_blind_upds boot_env_keeps_def\<close>)

lemma step_fn_keeps:
  assumes "boot_blind obs" "boot_env_keeps obs E" "step_fn E i w = Some (st, u)"
  shows "obs u = obs w"
proof (cases i)
  case BOOT_STEP_SAFE_OUTPUTS
  have "obs (snd (plat_safe_outputs_apply (be_safe E) w)) = obs w"
    by (rule safe_apply_keeps) (use assms in \<open>simp_all add: boot_blind_upds boot_env_keeps_def\<close>)
  then show ?thesis using assms(3) BOOT_STEP_SAFE_OUTPUTS by (cases "plat_safe_outputs_apply (be_safe E) w") simp
next
  case BOOT_STEP_PLATFORM
  have "obs (snd (step_platform E w)) = obs w"
    using assms(2) by (simp add: step_platform_def boot_env_keeps_def split: option.split)
  then show ?thesis using assms(3) BOOT_STEP_PLATFORM by (cases "step_platform E w") simp
next
  case BOOT_STEP_POST
  then have run: "plat_post_run (be_post E) w = Some (st, u)" using assms(3) by simp
  show ?thesis
    by (rule post_run_keeps [OF _ _ _ run]) (use assms in \<open>simp_all add: boot_blind_upds boot_env_keeps_def\<close>)
next
  case BOOT_STEP_DEVICES
  have "obs (snd (plat_devinit_run (be_init E) w)) = obs w"
    by (rule devinit_run_keeps) (use assms in \<open>simp_all add: boot_blind_upds boot_env_keeps_def\<close>)
  then show ?thesis using assms(3) BOOT_STEP_DEVICES by (cases "plat_devinit_run (be_init E) w") simp
next
  case BOOT_STEP_LINKS
  have "obs (snd (step_links E w)) = obs w"
    using assms(2) by (simp add: step_links_def boot_env_keeps_def split: option.split)
  then show ?thesis using assms(3) BOOT_STEP_LINKS by (cases "step_links E w") simp
qed (use assms(3) in simp)

lemma step_attempt_keeps:
  assumes "boot_blind obs" "boot_env_keeps obs E" "step_attempt E i w = Some (st, el, u)"
  shows "obs u = obs w"
proof -
  obtain t w1 where n: "svc_time_now_ms w = (t, w1)" by (rule prod.exhaust)
  obtain st1 w2 where f: "step_fn E i w1 = Some (st1, w2)"
    using assms(3) by (cases "step_fn E i w1") (auto simp: step_attempt_def n)
  obtain t2 w3 where n2: "svc_time_now_ms w2 = (t2, w3)" by (rule prod.exhaust)
  have "obs w1 = obs w" "obs w3 = obs w2"
    using boot_blind_upds(1) [OF assms(1), of w] boot_blind_upds(1) [OF assms(1), of w2] by (simp_all add: n n2)
  then show ?thesis
    using assms(3) step_fn_keeps [OF assms(1,2) f] by (auto simp: step_attempt_def n f n2 boot_blind_upds(2) [OF assms(1)])
qed

lemma step_ends_keep:
  assumes "boot_blind obs" "boot_env_keeps obs E"
  shows "obs (step_passed E i t el w) = obs w" "obs (step_given_up i t w) = obs w"
proof -
  note k = boot_blind_upds [OF assms(1)] boot_blind_service [OF assms]
  obtain n w1 where n: "svc_time_now_ms w = (n, w1)" by (rule prod.exhaust)
  have "obs w1 = obs w" using k(1) [of w] by (simp add: n)
  then show "obs (step_passed E i t el w) = obs w" "obs (step_given_up i t w) = obs w"
    by (simp_all add: step_passed_def step_given_up_def n Let_def k)
qed

lemma run_step_loop_keeps:
  assumes "boot_blind obs" "boot_env_keeps obs E"
  shows "run_step_loop E i r t w = Some (ok, u) \<Longrightarrow> obs u = obs w"
proof -
  have "run_step_loop F i r t w = Some y \<Longrightarrow> F = E \<longrightarrow> obs (snd y) = obs w" for F y
  proof (induction rule: run_step_loop.raw_induct [rotated, consumes 1, case_names step])
    case (step loop F i r t w y)
    show ?case
    proof
      assume F: "F = E"
      obtain st el v where a: "step_attempt F i w = Some (st, el, v)" using step(2) by (cases "step_attempt F i w") auto
      have v: "obs v = obs w" using step_attempt_keeps [OF assms] a F by simp
      let ?h = "error_handling_service (be_fdir F) (svc_fdir_report (step_fault i) (status_code st) v)"
      have h: "obs ?h = obs w" using v by (simp add: F boot_blind_service [OF assms] boot_blind_upds [OF assms(1)])
      show "obs (snd y) = obs w"
        using step(2) step(1) [of F i r t ?h y] v h F step_ends_keep [OF assms]
        by (auto simp: a [unfolded F] Let_def split: if_splits)
    qed
  qed
  then show "run_step_loop E i r t w = Some (ok, u) \<Longrightarrow> obs u = obs w" by fastforce
qed

lemma run_steps_keep:
  assumes "boot_blind obs" "boot_env_keeps obs E"
  shows "run_steps E is w = Some (ok, u) \<Longrightarrow> obs u = obs w"
proof (induction "is" arbitrary: w)
  case (Cons i js)
  obtain t w1 where n: "svc_time_now_ms w = (t, w1)" by (rule prod.exhaust)
  have w1: "obs w1 = obs w" using boot_blind_upds(1) [OF assms(1), of w] by (simp add: n)
  obtain ok1 v where v: "run_step_loop E i (step_retryable i) t w1 = Some (ok1, v)"
    using Cons.prems by (cases "run_step_loop E i (step_retryable i) t w1") (auto simp: run_step_def n)
  have "obs v = obs w1" by (rule run_step_loop_keeps [OF assms v])
  then show ?case using Cons.prems Cons.IH [of v] w1 v by (auto simp: run_step_def n split: if_splits)
qed simp

lemma boot_keeps:
  assumes "boot_blind obs" "boot_env_keeps obs E" "boot_and_init E w = Some (st, u)"
  shows "obs u = obs w"
proof -
  note k = boot_blind_upds [OF assms(1)]
  obtain t w1 where n: "svc_time_now_ms w = (t, w1)" by (rule prod.exhaust)
  have w1: "obs w1 = obs w" using k(1) [of w] by (simp add: n)
  obtain ok v where v: "run_steps E boot_steps (report_upd report_reset w1) = Some (ok, v)"
    using assms(3) by (cases "run_steps E boot_steps (report_upd report_reset w1)") (auto simp: boot_and_init_def n)
  have "obs v = obs w" using run_steps_keep [OF assms(1,2) v] w1 by (simp add: k)
  moreover have "obs (fold (\<lambda>i. svc_fdir_clear (step_fault i)) is x) = obs x" for "is" x
    by (induction "is" arbitrary: x) (simp_all add: k)
  ultimately show ?thesis
    using assms(3) by (auto simp: boot_and_init_def n v Let_def split_beta k split: if_splits)
qed

end
