(* ===== verification/Binary64.thy ===== *)
theory Binary64
  imports Complex_Main "HOL-Library.Log_Nat" "HOL-Library.Word"
begin

section \<open>The arithmetic of \<^verbatim>\<open>double\<close>\<close>

text \<open>
  A double is a rational, and an operation is the exact one followed by \<open>fl\<close>, rounding to 53 significant
  bits, ties to even, down to the exponent of the subnormal numbers: the arithmetic of binary64 as
  long as no result reaches \<open>2 ^ 1024\<close>. Infinities and invalid operations are not represented; the
  component that computes with doubles shows that it stays clear of them. Its conversion to an unsigned
  word is undefined outside the range of the word.
\<close>

text \<open>Rounding to an integer, ties to even.\<close>

definition rne :: "rat \<Rightarrow> int" where
  "rne q = (let f = \<lfloor>q\<rfloor>; d = q - of_int f
    in if d < 1 / 2 then f else if 1 / 2 < d then f + 1 else if even f then f else f + 1)"

text \<open>The exponent of the last of the 53 bits of a positive number.\<close>

definition dbl_exp :: "rat \<Rightarrow> int" where
  "dbl_exp q = max (if 1 \<le> q then bitlen \<lfloor>q\<rfloor> - 53 else - bitlen (\<lceil>1 / q\<rceil> - 1) - 52) (-1074)"

definition fl :: "rat \<Rightarrow> rat" where
  "fl q = (if q = 0 then 0 else (let e = dbl_exp \<bar>q\<bar> in of_int (rne (q / 2 powi e)) * 2 powi e))"

definition u32_of_dbl :: "rat \<Rightarrow> 32 word option" where
  "u32_of_dbl v = (if -1 < v \<and> v < 4294967296 then Some (of_int \<lfloor>v\<rfloor>) else None)"

definition dbl_of_u32 :: "32 word \<Rightarrow> rat" where
  "dbl_of_u32 n = of_nat (unat n)"

subsection \<open>Rounding to an integer\<close>

lemma rne_bounds: "\<lfloor>q\<rfloor> \<le> rne q" "rne q \<le> \<lceil>q\<rceil>"
proof -
  show "\<lfloor>q\<rfloor> \<le> rne q" by (simp add: rne_def Let_def)
  show "rne q \<le> \<lceil>q\<rceil>" by (auto simp: rne_def Let_def ceiling_altdef)
qed

lemma rne_near: "\<bar>of_int (rne q) - q\<bar> \<le> 1 / 2"
proof -
  have "of_int \<lfloor>q\<rfloor> \<le> q" "q < of_int \<lfloor>q\<rfloor> + 1" by linarith+
  then show ?thesis by (auto simp: rne_def Let_def abs_le_iff)
qed

lemma rne_le_int: "q \<le> of_int n \<Longrightarrow> rne q \<le> n"
  using rne_bounds(2) [of q] by (simp add: ceiling_le_iff order_trans [of _ "\<lceil>q\<rceil>"])

lemma rne_ge_int: "of_int n \<le> q \<Longrightarrow> n \<le> rne q"
  using rne_bounds(1) [of q] by (simp add: le_floor_iff order_trans [of _ "\<lfloor>q\<rfloor>"])

subsection \<open>The exponent\<close>

lemma powi2_pos [simp]: "(0 :: rat) < 2 powi e" "(2 :: rat) powi e \<noteq> 0"
  by (simp_all add: zero_less_power_int)

lemma powi2_add: "(2 :: rat) powi (a + b) = 2 powi a * 2 powi b"
  by (simp add: power_int_add)

text \<open>A normal number scaled by its exponent has its leading bit at place 52.\<close>

lemma dbl_exp_bounds:
  assumes "0 < q"
  shows "q < 2 powi (dbl_exp q + 53)" "dbl_exp q = -1074 \<or> 2 powi (dbl_exp q + 52) \<le> q" "-1074 \<le> dbl_exp q"
proof -
  define k where "k = (if 1 \<le> q then bitlen \<lfloor>q\<rfloor> else - bitlen (\<lceil>1 / q\<rceil> - 1) + 1)"
  have d: "dbl_exp q = max (k - 53) (-1074)" by (simp add: dbl_exp_def k_def algebra_simps)
  have "q < 2 powi k \<and> 2 powi (k - 1) \<le> q"
  proof (cases "1 \<le> q")
    case True
    let ?n = "\<lfloor>q\<rfloor>"
    have n: "0 < ?n" using True by simp
    then have b: "2 ^ nat (bitlen ?n - 1) \<le> ?n" "?n < 2 ^ nat (bitlen ?n)" "1 \<le> bitlen ?n"
      using bitlen_bounds [OF n] bitlen_nonneg [of ?n] by (auto simp: bitlen_alt_def)
    have "(of_int (2 ^ nat (bitlen ?n - 1)) :: rat) \<le> q" using b(1) by (simp only: le_floor_iff)
    moreover have "q < of_int (2 ^ nat (bitlen ?n))" using b(2) by (simp only: floor_less_iff)
    ultimately show ?thesis using True b(3) by (simp add: k_def power_int_def)
  next
    case False
    let ?n = "\<lceil>1 / q\<rceil> - 1"
    have "1 < 1 / q" using False assms by simp
    then have n: "0 < ?n" by (simp add: less_ceiling_iff)
    then have b: "2 ^ nat (bitlen ?n - 1) \<le> ?n" "?n < 2 ^ nat (bitlen ?n)" "1 \<le> bitlen ?n"
      using bitlen_bounds [OF n] bitlen_nonneg [of ?n] by (auto simp: bitlen_alt_def)
    have "(of_int (2 ^ nat (bitlen ?n - 1)) :: rat) < 1 / q" using b(1) by (simp only: less_ceiling_iff [symmetric])
    moreover have "1 / q \<le> of_int (2 ^ nat (bitlen ?n))" using b(2) by (simp only: ceiling_le_iff [symmetric])
    ultimately have "q < 1 / 2 ^ nat (bitlen ?n - 1)" "1 / 2 ^ nat (bitlen ?n) \<le> q"
      using assms by (simp_all add: field_simps)
    then show ?thesis using False b(3)
      by (cases "bitlen ?n = 1") (auto simp: k_def power_int_def inverse_eq_divide power_divide)
  qed
  moreover have "(2 :: rat) powi k \<le> 2 powi (dbl_exp q + 53)" by (rule power_int_increasing) (simp_all add: d)
  ultimately show "q < 2 powi (dbl_exp q + 53)" "dbl_exp q = -1074 \<or> 2 powi (dbl_exp q + 52) \<le> q"
    using d by (auto simp: max_def)
  show "-1074 \<le> dbl_exp q" by (simp add: d)
qed

subsection \<open>Rounding\<close>

text \<open>The numbers that round to themselves, as far as they are needed here: up to 53 bits scaled.\<close>

definition dbl :: "rat \<Rightarrow> bool" where
  "dbl q \<longleftrightarrow> (\<exists>m e. q = of_int m * 2 powi e \<and> \<bar>m\<bar> \<le> 2 ^ 53 \<and> -1074 \<le> e)"

lemma dbl_int: "\<bar>n\<bar> \<le> 2 ^ 53 \<Longrightarrow> dbl (of_int n)"
  unfolding dbl_def by (intro exI [of _ n] exI [of _ 0]) simp

lemma dbl_of_u32 [simp]: "dbl (dbl_of_u32 n)" "0 \<le> dbl_of_u32 n" "dbl_of_u32 n < 2 ^ 32"
proof -
  show "dbl (dbl_of_u32 n)"
    using dbl_int [of "int (unat n)"] unsigned_less [of n, where ?'a = int] by (simp add: dbl_of_u32_def)
  have "unat n < 2 ^ 32" using unsigned_less [of n, where ?'a = nat] by simp
  then have "(of_nat (unat n) :: rat) < of_nat (2 ^ 32)" by (simp only: of_nat_less_iff)
  then show "dbl_of_u32 n < 2 ^ 32" by (simp add: dbl_of_u32_def)
  show "0 \<le> dbl_of_u32 n" using of_nat_0_le_iff [of "unat n", where ?'a = rat] by (simp add: dbl_of_u32_def del: of_nat_0_le_iff)
qed

lemma dbl_of_u32_pos: "n \<noteq> 0 \<Longrightarrow> 1 \<le> dbl_of_u32 n"
  using of_nat_mono [of 1 "unat n", where ?'a = rat] by (simp add: dbl_of_u32_def unat_gt_0 Suc_le_eq)

lemma dbl_powi2: "-1074 \<le> e \<Longrightarrow> dbl (2 powi e)"
  unfolding dbl_def by (intro exI [of _ 1] exI [of _ e]) simp

text \<open>In units of the last place of \<open>x\<close> a representable number is an integer, or lies below every
  number of the binade of \<open>x\<close>.\<close>

lemma dbl_units:
  assumes "dbl r" "0 < x"
  shows "(\<exists>n. r / 2 powi (dbl_exp x) = of_int n) \<or> r / 2 powi (dbl_exp x) \<le> 2 ^ 52 \<and> 2 ^ 52 \<le> x / 2 powi (dbl_exp x)"
proof -
  let ?e = "dbl_exp x"
  obtain m e where r: "r = of_int m * 2 powi e" "\<bar>m\<bar> \<le> 2 ^ 53" "-1074 \<le> e" using assms(1) by (auto simp: dbl_def)
  have q: "r / 2 powi ?e = of_int m * 2 powi (e - ?e)" by (simp add: r power_int_diff)
  show ?thesis
  proof (cases "?e \<le> e")
    case True
    then have "(2 :: rat) powi (e - ?e) = of_int (2 ^ nat (e - ?e))" by (simp add: power_int_def)
    then have "r / 2 powi ?e = of_int (m * 2 ^ nat (e - ?e))" unfolding q by simp
    then show ?thesis by blast
  next
    case False
    then have "?e \<noteq> -1074" using r(3) by auto
    then have "2 powi (?e + 52) \<le> x" using dbl_exp_bounds(2) [OF assms(2)] by blast
    then have "2 ^ 52 * 2 powi ?e \<le> x" by (simp add: powi2_add mult.commute)
    then have x: "2 ^ 52 \<le> x / 2 powi ?e" by (simp add: pos_le_divide_eq)
    have "(of_int m :: rat) \<le> of_int (2 ^ 53)" using r(2) by (simp only: of_int_le_iff)
    then have "(of_int m :: rat) \<le> 2 ^ 53" by simp
    moreover have "(2 :: rat) powi (e - ?e) \<le> 2 powi (-1)" using False by (intro power_int_increasing) simp_all
    ultimately have "of_int m * 2 powi (e - ?e) \<le> 2 ^ 53 * (2 :: rat) powi (-1)"
      by (intro mult_mono) simp_all
    then show ?thesis using x q by (simp add: power_int_def)
  qed
qed

lemma fl_pos: "0 < x \<Longrightarrow> fl x = of_int (rne (x / 2 powi (dbl_exp x))) * 2 powi (dbl_exp x)"
  by (simp add: fl_def Let_def)

lemma fl_zero [simp]: "fl 0 = 0" by (simp add: fl_def)

lemma fl_le:
  assumes "x \<le> r" "dbl r" "0 \<le> x"
  shows "fl x \<le> r"
proof (cases "x = 0")
  case False
  then have x: "0 < x" using assms(3) by simp
  let ?u = "(2 :: rat) powi (dbl_exp x)"
  have le: "x / ?u \<le> r / ?u" using assms(1) by (simp add: divide_right_mono less_imp_le)
  have "of_int (rne (x / ?u)) \<le> r / ?u"
    using dbl_units [OF assms(2) x]
  proof
    assume "\<exists>n. r / ?u = of_int n"
    then show ?thesis using rne_le_int le by auto
  next
    assume "r / ?u \<le> 2 ^ 52 \<and> 2 ^ 52 \<le> x / ?u"
    then have "r / ?u = 2 ^ 52" "x / ?u = 2 ^ 52" using le by linarith+
    then show ?thesis using rne_le_int [of "x / ?u" "2 ^ 52"] by simp
  qed
  then show ?thesis by (simp add: fl_pos [OF x] pos_le_divide_eq)
qed (use assms in simp)

lemma fl_ge:
  assumes "r \<le> x" "dbl r" "0 \<le> x"
  shows "r \<le> fl x"
proof (cases "x = 0")
  case False
  then have x: "0 < x" using assms(3) by simp
  let ?u = "(2 :: rat) powi (dbl_exp x)"
  have le: "r / ?u \<le> x / ?u" using assms(1) by (simp add: divide_right_mono less_imp_le)
  have "r / ?u \<le> of_int (rne (x / ?u))"
    using dbl_units [OF assms(2) x]
  proof
    assume "\<exists>n. r / ?u = of_int n"
    then show ?thesis using rne_ge_int le by auto
  next
    assume a: "r / ?u \<le> 2 ^ 52 \<and> 2 ^ 52 \<le> x / ?u"
    then have "2 ^ 52 \<le> rne (x / ?u)" using rne_ge_int [of "2 ^ 52" "x / ?u"] by simp
    then have "(of_int (2 ^ 52) :: rat) \<le> of_int (rne (x / ?u))" by (simp only: of_int_le_iff)
    then have "(2 ^ 52 :: rat) \<le> of_int (rne (x / ?u))" by simp
    then show ?thesis using a by linarith
  qed
  then show ?thesis by (simp add: fl_pos [OF x] pos_divide_le_eq)
qed (use assms in simp)

lemma fl_exact: "dbl x \<Longrightarrow> 0 \<le> x \<Longrightarrow> fl x = x"
  using fl_le [of x x] fl_ge [of x x] by simp

lemma fl_nonneg: "0 \<le> x \<Longrightarrow> 0 \<le> fl x"
  using fl_ge [of 0 x] dbl_int [of 0] by simp

lemma dbl_fl: "0 \<le> x \<Longrightarrow> dbl (fl x)"
proof (cases "x = 0")
  case False
  assume "0 \<le> x"
  with False have x: "0 < x" by simp
  have "x < 2 ^ 53 * 2 powi (dbl_exp x)" using dbl_exp_bounds(1) [OF x] by (simp add: powi2_add mult.commute)
  then have "x / 2 powi (dbl_exp x) \<le> of_int (2 ^ 53)" by (simp add: pos_divide_le_eq)
  then have "rne (x / 2 powi (dbl_exp x)) \<le> 2 ^ 53" by (rule rne_le_int)
  moreover have "0 \<le> rne (x / 2 powi (dbl_exp x))" using x by (intro rne_ge_int) simp
  ultimately show ?thesis
    using dbl_exp_bounds(3) [OF x] unfolding dbl_def fl_pos [OF x] by (intro exI conjI) (rule refl, simp_all)
qed (use dbl_int [of 0] in simp)

text \<open>The relative error of one rounding of a normal number.\<close>

lemma fl_error:
  assumes "2 powi (-1022) \<le> x"
  shows "\<bar>fl x - x\<bar> \<le> x / 2 ^ 53"
proof -
  have x: "0 < x" using assms powi2_pos(1) [of "-1022"] by linarith
  let ?u = "(2 :: rat) powi (dbl_exp x)"
  have n: "2 powi (dbl_exp x + 52) \<le> x"
  proof (cases "dbl_exp x = -1074")
    case True
    then show ?thesis using assms by simp
  next
    case False
    then show ?thesis using dbl_exp_bounds(2) [OF x] by blast
  qed
  have "\<bar>of_int (rne (x / ?u)) - x / ?u\<bar> * ?u \<le> 1 / 2 * ?u"
    using rne_near [of "x / ?u"] by (intro mult_right_mono) simp_all
  also have "\<bar>of_int (rne (x / ?u)) - x / ?u\<bar> * ?u = \<bar>fl x - x\<bar>"
  proof -
    have "\<bar>of_int (rne (x / ?u)) - x / ?u\<bar> * ?u = \<bar>(of_int (rne (x / ?u)) - x / ?u) * ?u\<bar>"
      by (simp add: abs_mult)
    also have "(of_int (rne (x / ?u)) - x / ?u) * ?u = fl x - x" by (simp add: fl_pos [OF x] left_diff_distrib)
    finally show ?thesis .
  qed
  finally show ?thesis using n by (simp add: powi2_add field_simps)
qed

subsection \<open>Ranges\<close>

text \<open>A number between two powers of two; the bounds follow the operations and survive rounding.\<close>

definition between :: "int \<Rightarrow> int \<Rightarrow> rat \<Rightarrow> bool" where
  "between a b x \<longleftrightarrow> 2 powi a \<le> x \<and> x \<le> 2 powi b"

lemma between_pos: "between a b x \<Longrightarrow> 0 < x"
  unfolding between_def using less_le_trans [OF powi2_pos(1)] by blast

lemma between_weaken: "between a b x \<Longrightarrow> c \<le> a \<Longrightarrow> b \<le> d \<Longrightarrow> between c d x"
  using power_int_increasing [of c a "2 :: rat"] power_int_increasing [of b d "2 :: rat"] unfolding between_def by linarith

lemma between_fl: "between a b x \<Longrightarrow> -1074 \<le> a \<Longrightarrow> between a b (fl x)"
proof -
  assume b: "between a b x" and a: "-1074 \<le> a"
  have x: "0 \<le> x" using between_pos [OF b] by simp
  have "a \<le> b"
  proof (rule ccontr)
    assume "\<not> a \<le> b"
    then have "(2 :: rat) powi b < 2 powi a" by (intro power_int_strict_increasing) simp_all
    then show False using b by (simp add: between_def)
  qed
  then show ?thesis using a b x by (auto simp: between_def intro!: fl_ge fl_le dbl_powi2)
qed

lemma between_mult: "between a b x \<Longrightarrow> between c d y \<Longrightarrow> between (a + c) (b + d) (x * y)"
  unfolding between_def powi2_add by (intro conjI mult_mono) (auto intro: order_trans [OF less_imp_le [OF powi2_pos(1)]])

lemma between_div: "between a b x \<Longrightarrow> between c d y \<Longrightarrow> between (a - d) (b - c) (x / y)"
  unfolding between_def power_int_diff [of "2 :: rat", simplified]
  by (intro conjI frac_le) (auto intro: order_trans [OF less_imp_le [OF powi2_pos(1)]] less_le_trans [OF powi2_pos(1)])

lemma between_u32: "n \<noteq> 0 \<Longrightarrow> between 0 32 (dbl_of_u32 n)"
  using dbl_of_u32_pos [of n] dbl_of_u32(3) [of n] by (simp add: between_def)

end
