(* ===== verification/Data_Product.thy ===== *)
theory Data_Product
  imports Plat_Boot Binary64
begin

section \<open>The derived quantities: \<^verbatim>\<open>src/data/data_product.c\<close>\<close>

text \<open>
  What one run's counts say: visibility, correlation bound, pair rate, brightness and the ratios of
  coincidences to accidentals, in \<^verbatim>\<open>double\<close> arithmetic, and their frame of scaled integers. Every
  operation on doubles is the exact one under \<open>fl\<close>; integers and the constants used here convert
  exactly, but for the coefficient of the correlation bound. The conversion of the bound to the detail of the fault report is undefined
  in C when it does not fit: the operation is then \<^term>\<open>None\<close>. Null pointers are \<^term>\<open>None\<close>.
\<close>

definition DATA_S_COEFFICIENT :: rat where "DATA_S_COEFFICIENT = fl (28284271247461903 / 10 ^ 16)"
definition DATA_SCALE_VISIBILITY :: u32 where "DATA_SCALE_VISIBILITY = 1000000"
definition DATA_SCALE_S_BOUND :: u32 where "DATA_SCALE_S_BOUND = 1000000"
definition DATA_SCALE_CAR :: u32 where "DATA_SCALE_CAR = 1000"
definition DATA_SCALE_BRIGHTNESS :: u32 where "DATA_SCALE_BRIGHTNESS = 1000"
definition DATA_PRODUCT_FRAME_BYTES :: u32 where "DATA_PRODUCT_FRAME_BYTES = 36"

record data_product_input =
  in_coincidence_max :: u32
  in_coincidence_min :: u32
  in_singles_signal :: u32
  in_singles_idler :: u32
  in_central_peak :: u32
  in_accidentals :: u32
  in_integration_ms :: u32
  in_pump_power_uw :: u32
  in_coincidence_window_ps :: u32

record data_product =
  dp_visibility :: rat
  dp_s_bound :: rat
  dp_pair_rate_hz :: rat
  dp_brightness :: rat
  dp_car_measured :: rat
  dp_car_predicted :: rat
  dp_car_lower_bound :: rat
  dp_counts_valid :: bool
  dp_calibrated :: bool
  dp_consistent :: bool

record product_state =
  pd_computed :: u32
  pd_inconsistent :: u32

record product_world = boot_world +
  w_product :: product_state

definition product_upd :: "(product_state \<Rightarrow> product_state) \<Rightarrow> 'a product_world_scheme \<Rightarrow> 'a product_world_scheme" where
  "product_upd f w = w\<lparr>w_product := f (w_product w)\<rparr>"

definition data_product_init :: "'a product_world_scheme \<Rightarrow> 'a product_world_scheme" where
  "data_product_init w = product_upd (\<lambda>s. s\<lparr>pd_computed := 0, pd_inconsistent := 0\<rparr>) w"

definition product_clear :: "data_product \<Rightarrow> data_product" where
  "product_clear out = out\<lparr>dp_visibility := 0, dp_s_bound := 0, dp_pair_rate_hz := 0, dp_brightness := 0,
     dp_car_measured := 0, dp_car_predicted := 0, dp_car_lower_bound := 0,
     dp_counts_valid := False, dp_calibrated := False, dp_consistent := False\<rparr>"

text \<open>The figures from the counts alone, and those that need the ground calibration. A duration in
  milliseconds is converted where it is used.\<close>

definition integration_s :: "data_product_input \<Rightarrow> rat" where
  "integration_s i = fl (dbl_of_u32 (in_integration_ms i) / 1000)"

definition product_counts :: "data_product_input \<Rightarrow> rat \<Rightarrow> data_product \<Rightarrow> data_product" where
  "product_counts i counted out =
    (let out = out\<lparr>dp_visibility := fl (fl (dbl_of_u32 (in_coincidence_max i) - dbl_of_u32 (in_coincidence_min i)) / counted)\<rparr>;
         out = out\<lparr>dp_s_bound := fl (DATA_S_COEFFICIENT * dp_visibility out)\<rparr>;
         out = (if in_accidentals i \<noteq> 0
                then out\<lparr>dp_car_measured := fl (dbl_of_u32 (in_central_peak i) / dbl_of_u32 (in_accidentals i))\<rparr> else out);
         out = (if dp_visibility out < 1
                then (let out = out\<lparr>dp_car_lower_bound := fl (dp_visibility out / fl (1 - dp_visibility out))\<rparr>
                      in out\<lparr>dp_consistent := (dp_car_lower_bound out \<le> dp_car_measured out)\<rparr>)
                else out)
     in out\<lparr>dp_counts_valid := True\<rparr>)"

definition product_calibrated :: "svc_calibration \<Rightarrow> data_product_input \<Rightarrow> data_product \<Rightarrow> data_product" where
  "product_calibrated cal i out =
    (let eta_signal = fl (dbl_of_u32 (ca_branch_efficiency_ppm cal ! 0) / 1000000);
         eta_idler = fl (dbl_of_u32 (ca_branch_efficiency_ppm cal ! 1) / 1000000);
         bandwidth_nm = fl (dbl_of_u32 (ca_spectral_bandwidth_pm cal) / 1000);
         pump_mw = fl (dbl_of_u32 (in_pump_power_uw i) / 1000);
         coincidence_rate = fl (dbl_of_u32 (in_coincidence_max i) / integration_s i)
     in if eta_signal \<le> 0 \<or> eta_idler \<le> 0 then out
        else (let out = out\<lparr>dp_pair_rate_hz := fl (coincidence_rate / fl (eta_signal * eta_idler))\<rparr>;
                  out = (if 0 < pump_mw \<and> 0 < bandwidth_nm
                         then out\<lparr>dp_brightness := fl (dp_pair_rate_hz out / fl (pump_mw * bandwidth_nm))\<rparr> else out);
                  out = (if in_coincidence_window_ps i \<noteq> 0 \<and> in_singles_signal i \<noteq> 0 \<and> in_singles_idler i \<noteq> 0
                         then (let window_s = fl (dbl_of_u32 (in_coincidence_window_ps i) / 10 ^ 12);
                                   singles_s = fl (dbl_of_u32 (in_singles_signal i) / integration_s i);
                                   singles_i = fl (dbl_of_u32 (in_singles_idler i) / integration_s i);
                                   accidental_rate = fl (fl (singles_s * singles_i) * window_s)
                               in if 0 < accidental_rate
                                  then out\<lparr>dp_car_predicted := fl (coincidence_rate / accidental_rate)\<rparr> else out)
                         else out)
              in out\<lparr>dp_calibrated := True\<rparr>))"

definition data_product_compute ::
  "data_product_input option \<Rightarrow> data_product option \<Rightarrow> 'a product_world_scheme \<Rightarrow>
   (qiran_status \<times> data_product option \<times> 'a product_world_scheme) option" where
  "data_product_compute i out w =
    (case (i, out) of
       (Some i, Some out) \<Rightarrow>
         (let out = product_clear out;
              counted = fl (dbl_of_u32 (in_coincidence_max i) + dbl_of_u32 (in_coincidence_min i))
          in if counted \<le> 0 \<or> in_integration_ms i = 0 then Some (QIRAN_ERR_RANGE, Some out, w)
             else if in_coincidence_max i < in_coincidence_min i then Some (QIRAN_ERR_RANGE, Some out, w)
             else (let out = product_counts i counted out;
                       w = product_upd (\<lambda>s. s\<lparr>pd_computed := pd_computed s + 1\<rparr>) w
                   in do {
                     w \<leftarrow> (if in_accidentals i \<noteq> 0 \<and> dp_visibility out < 1 \<and> \<not> dp_consistent out
                           then (let w = product_upd (\<lambda>s. s\<lparr>pd_inconsistent := pd_inconsistent s + 1\<rparr>) w
                                 in do {
                                   detail \<leftarrow> u32_of_dbl (fl (dp_car_lower_bound out * 1000));
                                   Some (svc_fdir_report QIRAN_FAULT_DATA_PRODUCT detail w) })
                           else Some w);
                     Some (QIRAN_OK,
                       Some (case svc_config_calibration w of None \<Rightarrow> out | Some cal \<Rightarrow> product_calibrated cal i out), w) }))
     | _ \<Rightarrow> Some (QIRAN_ERR_PARAM, out, w))"

text \<open>A figure as an integer of the frame, rounded and saturating.\<close>

definition scaled :: "rat \<Rightarrow> u32 \<Rightarrow> u32 option" where
  "scaled value scale =
    (if value \<le> 0 then Some 0
     else (let v = fl (fl (value * dbl_of_u32 scale) + 1 / 2)
           in if 4294967295 \<le> v then Some 0xFFFFFFFF else u32_of_dbl v))"

definition product_flags :: "data_product \<Rightarrow> u8" where
  "product_flags p =
    ((if dp_counts_valid p then 0x01 else 0) OR (if dp_calibrated p then 0x02 else 0) OR
     (if dp_consistent p then 0x04 else 0))"

text \<open>The status, the buffer, and the length written, which a rejected call leaves unset.\<close>

definition data_product_frame ::
  "data_product option \<Rightarrow> u8 list option \<Rightarrow> u32 \<Rightarrow> (qiran_status \<times> u8 list option \<times> u32 option) option" where
  "data_product_frame product buf len =
    (case (product, buf) of
       (Some p, Some bs) \<Rightarrow>
         (if len < DATA_PRODUCT_FRAME_BYTES then Some (QIRAN_ERR_PARAM, buf, None)
          else do {
            a \<leftarrow> scaled (dp_visibility p) DATA_SCALE_VISIBILITY;
            let pos = emit comm_put_u32 a (bs, 0);
            a \<leftarrow> scaled (dp_s_bound p) DATA_SCALE_S_BOUND;
            let pos = emit comm_put_u32 a pos;
            a \<leftarrow> scaled (dp_pair_rate_hz p) 1;
            let pos = emit comm_put_u32 a pos;
            a \<leftarrow> scaled (dp_brightness p) DATA_SCALE_BRIGHTNESS;
            let pos = emit comm_put_u32 a pos;
            a \<leftarrow> scaled (dp_car_measured p) DATA_SCALE_CAR;
            let pos = emit comm_put_u32 a pos;
            a \<leftarrow> scaled (dp_car_predicted p) DATA_SCALE_CAR;
            let pos = emit comm_put_u32 a pos;
            a \<leftarrow> scaled (dp_car_lower_bound p) DATA_SCALE_CAR;
            let pos = emit comm_put_u32 a pos;
            let pos = emit comm_put_u32 (ucast (product_flags p)) pos;
            let (bs, pos) = emit comm_put_u32 0 pos;
            Some (if pos = DATA_PRODUCT_FRAME_BYTES then QIRAN_OK else QIRAN_ERR_INTEGRITY, Some bs, Some pos) })
     | _ \<Rightarrow> Some (QIRAN_ERR_PARAM, buf, None))"

definition data_product_computed :: "'a product_world_scheme \<Rightarrow> u32" where
  "data_product_computed w = pd_computed (w_product w)"

definition data_product_inconsistent :: "'a product_world_scheme \<Rightarrow> u32" where
  "data_product_inconsistent w = pd_inconsistent (w_product w)"

subsection \<open>The visibility\<close>

lemma counts_exact:
  shows "m \<le> M \<Longrightarrow> fl (dbl_of_u32 M - dbl_of_u32 m) = dbl_of_u32 M - dbl_of_u32 m"
    and "fl (dbl_of_u32 M + dbl_of_u32 m) = dbl_of_u32 M + dbl_of_u32 m"
    and "m \<le> M \<Longrightarrow> dbl_of_u32 m \<le> dbl_of_u32 M"
proof -
  have lt: "int (unat M) < 2 ^ 32" "int (unat m) < 2 ^ 32"
    using unsigned_less [of M, where ?'a = int] unsigned_less [of m, where ?'a = int] by simp_all
  have "dbl (of_int (int (unat M) + int (unat m)))" using lt by (intro dbl_int) simp
  then show "fl (dbl_of_u32 M + dbl_of_u32 m) = dbl_of_u32 M + dbl_of_u32 m"
    by (intro fl_exact) (simp_all add: dbl_of_u32_def del: of_nat_unat)
  show le: "m \<le> M \<Longrightarrow> dbl_of_u32 m \<le> dbl_of_u32 M"
    unfolding dbl_of_u32_def by (simp only: of_nat_le_iff word_le_nat_alt)
  have "\<bar>int a - int b\<bar> \<le> 2 ^ 53" if "int a < 2 ^ 32" "int b < 2 ^ 32" for a b
    using that by (simp add: abs_le_iff)
  then have "dbl (of_int (int (unat M) - int (unat m)))" using lt by (intro dbl_int) blast
  then show "m \<le> M \<Longrightarrow> fl (dbl_of_u32 M - dbl_of_u32 m) = dbl_of_u32 M - dbl_of_u32 m"
    using le by (intro fl_exact) (simp_all add: dbl_of_u32_def)
qed

definition exact_visibility :: "u32 \<Rightarrow> u32 \<Rightarrow> rat" where
  "exact_visibility M m = (dbl_of_u32 M - dbl_of_u32 m) / (dbl_of_u32 M + dbl_of_u32 m)"

lemma visibility_range:
  assumes "m \<le> M" "M \<noteq> 0"
  shows "0 \<le> fl (exact_visibility M m)" "fl (exact_visibility M m) \<le> 1" "fl (exact_visibility M m) < 1 \<longleftrightarrow> m \<noteq> 0"
    "unat M \<le> (2 ^ 22 - 1) * unat m \<Longrightarrow> fl (exact_visibility M m) \<le> 1 - 1 / 2 ^ 21"
    "m \<noteq> 0 \<Longrightarrow> fl (exact_visibility M m) \<le> 1 - 1 / 2 ^ 32"
proof -
  have d: "0 < dbl_of_u32 M + dbl_of_u32 m" using dbl_of_u32_pos [OF assms(2)] dbl_of_u32(2) [of m] by linarith
  have v0: "0 \<le> exact_visibility M m" using counts_exact(3) [OF assms(1)] d by (simp add: exact_visibility_def)
  have top: "fl (exact_visibility M m) \<le> 1 - 1 / 2 ^ k"
    if k: "k \<le> 53" "dbl_of_u32 M + dbl_of_u32 m \<le> dbl_of_u32 m * 2 * 2 ^ k" for k :: nat
  proof (rule fl_le [OF _ _ v0])
    have "(1 - 1 / 2 ^ k) * (dbl_of_u32 M + dbl_of_u32 m) = dbl_of_u32 M + dbl_of_u32 m - (dbl_of_u32 M + dbl_of_u32 m) / 2 ^ k"
      by (simp add: left_diff_distrib)
    moreover have "(dbl_of_u32 M + dbl_of_u32 m) / 2 ^ k \<le> dbl_of_u32 m * 2" using k(2) by (simp add: pos_divide_le_eq)
    ultimately show "exact_visibility M m \<le> 1 - 1 / 2 ^ k"
      unfolding exact_visibility_def using d by (simp add: pos_divide_le_eq)
    have "(1 - 1 / 2 ^ k :: rat) = of_int (2 ^ k - 1) * 2 powi (- int k)"
      by (simp add: power_int_minus field_simps)
    moreover have "(2 :: int) ^ k \<le> 2 ^ 53" using k(1) by (rule power_increasing) simp
    ultimately show "dbl (1 - 1 / 2 ^ k :: rat)" using k(1) unfolding dbl_def
      by (intro exI [of _ "2 ^ k - 1 :: int"] exI [of _ "- int k"]) simp
  qed
  show "0 \<le> fl (exact_visibility M m)" using v0 by (rule fl_nonneg)
  have "exact_visibility M m \<le> 1" using d dbl_of_u32(2) [of m] by (simp add: exact_visibility_def pos_divide_le_eq)
  then show "fl (exact_visibility M m) \<le> 1" using fl_le [OF _ _ v0, of 1] dbl_int [of 1] by simp
  have one: "m \<noteq> 0 \<Longrightarrow> dbl_of_u32 M + dbl_of_u32 m \<le> dbl_of_u32 m * 2 * 2 ^ 32"
    using dbl_of_u32_pos [of m] dbl_of_u32(3) [of M] dbl_of_u32(3) [of m] by simp
  show m0: "m \<noteq> 0 \<Longrightarrow> fl (exact_visibility M m) \<le> 1 - 1 / 2 ^ 32" using top [of 32] one by simp
  have "m = 0 \<Longrightarrow> exact_visibility M m = 1" using d by (simp add: exact_visibility_def dbl_of_u32_def)
  then show "fl (exact_visibility M m) < 1 \<longleftrightarrow> m \<noteq> 0"
    using m0 fl_exact [of 1] dbl_int [of 1] by (cases "m = 0") auto
  assume "unat M \<le> (2 ^ 22 - 1) * unat m"
  then have "(of_nat (unat M) :: rat) \<le> of_nat ((2 ^ 22 - 1) * unat m)" by (simp only: of_nat_le_iff)
  then have "dbl_of_u32 M + dbl_of_u32 m \<le> dbl_of_u32 m * 2 * 2 ^ 21" by (simp add: dbl_of_u32_def)
  then show "fl (exact_visibility M m) \<le> 1 - 1 / 2 ^ 21" using top [of 21] by simp
qed

subsection \<open>What an accepted input gives\<close>

lemma product_counts_fields:
  fixes out0
  assumes "in_coincidence_min i \<le> in_coincidence_max i"
  defines "vis \<equiv> fl (exact_visibility (in_coincidence_max i) (in_coincidence_min i))"
    and "out \<equiv> product_counts i (fl (dbl_of_u32 (in_coincidence_max i) + dbl_of_u32 (in_coincidence_min i))) (product_clear out0)"
  shows "dp_visibility out = vis" "dp_s_bound out = fl (DATA_S_COEFFICIENT * vis)"
    "dp_car_measured out = (if in_accidentals i \<noteq> 0 then fl (dbl_of_u32 (in_central_peak i) / dbl_of_u32 (in_accidentals i)) else 0)"
    "dp_car_lower_bound out = (if vis < 1 then fl (vis / fl (1 - vis)) else 0)"
    "dp_consistent out \<longleftrightarrow> vis < 1 \<and> dp_car_lower_bound out \<le> dp_car_measured out"
    "dp_counts_valid out" "\<not> dp_calibrated out"
    "dp_pair_rate_hz out = 0" "dp_brightness out = 0" "dp_car_predicted out = 0"
  by (simp_all add: out_def vis_def product_counts_def product_clear_def Let_def counts_exact assms(1) exact_visibility_def)

lemma product_calibrated_keeps:
  fixes cal i out
  defines "u \<equiv> product_calibrated cal i out"
  shows "dp_visibility u = dp_visibility out" "dp_s_bound u = dp_s_bound out" "dp_car_measured u = dp_car_measured out"
    "dp_car_lower_bound u = dp_car_lower_bound out" "dp_consistent u = dp_consistent out" "dp_counts_valid u = dp_counts_valid out"
  by (simp_all add: u_def product_calibrated_def Let_def)

lemma efficiency_pos: "fl (dbl_of_u32 n / 1000000) \<le> 0 \<longleftrightarrow> n = 0"
proof (cases "n = 0")
  case False
  then have "between (0 - 20) (32 - 19) (fl (dbl_of_u32 n / 1000000))"
    by (intro between_fl between_div between_u32) (simp_all add: between_def)
  then show ?thesis using between_pos False by fastforce
qed (simp add: dbl_of_u32_def)

definition usable_calibration :: "svc_calibration option \<Rightarrow> bool" where
  "usable_calibration c \<longleftrightarrow> (case c of None \<Rightarrow> False
     | Some cal \<Rightarrow> ca_branch_efficiency_ppm cal ! 0 \<noteq> 0 \<and> ca_branch_efficiency_ppm cal ! 1 \<noteq> 0)"

lemma product_calibrated_flag:
  "dp_calibrated (product_calibrated cal i out) \<longleftrightarrow> dp_calibrated out \<or> usable_calibration (Some cal)"
  "\<not> usable_calibration (Some cal) \<Longrightarrow> product_calibrated cal i out = out"
  by (simp_all add: product_calibrated_def Let_def efficiency_pos usable_calibration_def)

lemma counts_positive: "fl (dbl_of_u32 M + dbl_of_u32 m) \<le> 0 \<longleftrightarrow> M = 0 \<and> m = 0"
proof -
  have "0 < dbl_of_u32 a + dbl_of_u32 b" if "a \<noteq> 0" for a b
    using dbl_of_u32_pos [OF that] dbl_of_u32(2) [of b] by linarith
  from this [of M m] this [of m M] have "M \<noteq> 0 \<or> m \<noteq> 0 \<Longrightarrow> 0 < dbl_of_u32 M + dbl_of_u32 m"
    by (auto simp: add.commute)
  moreover have "dbl_of_u32 0 = 0" by (simp add: dbl_of_u32_def)
  ultimately show ?thesis unfolding counts_exact(2) by fastforce
qed

text \<open>The calls accepted, and the report of the inconsistent ones.\<close>

definition product_accepts :: "data_product_input \<Rightarrow> bool" where
  "product_accepts i \<longleftrightarrow> in_coincidence_max i \<noteq> 0 \<and> in_coincidence_min i \<le> in_coincidence_max i \<and> in_integration_ms i \<noteq> 0"

abbreviation counted_product :: "data_product_input \<Rightarrow> data_product \<Rightarrow> data_product" where
  "counted_product i out0 \<equiv> product_counts i
     (fl (dbl_of_u32 (in_coincidence_max i) + dbl_of_u32 (in_coincidence_min i))) (product_clear out0)"

definition product_contradicts :: "data_product_input \<Rightarrow> data_product \<Rightarrow> bool" where
  "product_contradicts i out \<longleftrightarrow> in_accidentals i \<noteq> 0 \<and> dp_visibility out < 1 \<and> \<not> dp_consistent out"

definition product_final :: "data_product_input \<Rightarrow> svc_calibration option \<Rightarrow> data_product \<Rightarrow> data_product" where
  "product_final i c out = (case c of None \<Rightarrow> out | Some cal \<Rightarrow> product_calibrated cal i out)"

lemma compute_rejects:
  assumes "\<not> product_accepts i"
  shows "data_product_compute (Some i) (Some out0) w = Some (QIRAN_ERR_RANGE, Some (product_clear out0), w)"
  using assms counts_positive [of "in_coincidence_max i" "in_coincidence_min i"]
  by (auto simp: data_product_compute_def product_accepts_def Let_def word_gt_0 not_le)

lemma compute_accepts:
  fixes out0 w
  assumes "product_accepts i"
  defines "out \<equiv> counted_product i out0"
    and "v \<equiv> product_upd (\<lambda>s. s\<lparr>pd_computed := pd_computed s + 1\<rparr>) w"
  shows "data_product_compute (Some i) (Some out0) w =
    (if product_contradicts i out
     then map_option (\<lambda>d. (QIRAN_OK, Some (product_final i (svc_config_calibration w) out),
       svc_fdir_report QIRAN_FAULT_DATA_PRODUCT d (product_upd (\<lambda>s. s\<lparr>pd_inconsistent := pd_inconsistent s + 1\<rparr>) v)))
       (u32_of_dbl (fl (dp_car_lower_bound out * 1000)))
     else Some (QIRAN_OK, Some (product_final i (svc_config_calibration w) out), v))"
proof -
  have c: "svc_config_calibration v = svc_config_calibration w"
    "svc_config_calibration (svc_fdir_report f d (product_upd g v)) = svc_config_calibration w" for f d g
    by (simp_all add: v_def product_upd_def svc_config_calibration_def svc_fdir_report_eq)
  have "\<not> in_coincidence_max i < in_coincidence_min i" using assms(1) by (simp add: product_accepts_def not_less)
  then show ?thesis
    using assms(1) counts_positive [of "in_coincidence_max i" "in_coincidence_min i"]
    by (cases "u32_of_dbl (fl (dp_car_lower_bound out * 1000))"; cases "svc_config_calibration w")
      (simp_all add: data_product_compute_def product_accepts_def Let_def out_def [symmetric] v_def [symmetric]
        product_contradicts_def product_final_def c)
qed

lemma coefficient: "between 1 2 DATA_S_COEFFICIENT"
  unfolding DATA_S_COEFFICIENT_def by (intro between_fl) (simp_all add: between_def)

lemma bound_range:
  assumes "0 \<le> v" "v \<le> 1"
  shows "0 \<le> fl (DATA_S_COEFFICIENT * v)" "fl (DATA_S_COEFFICIENT * v) \<le> DATA_S_COEFFICIENT"
proof -
  have c: "0 \<le> DATA_S_COEFFICIENT" using between_pos [OF coefficient] by simp
  then show "0 \<le> fl (DATA_S_COEFFICIENT * v)" using assms by (intro fl_nonneg) simp
  have "dbl DATA_S_COEFFICIENT" unfolding DATA_S_COEFFICIENT_def by (rule dbl_fl) simp
  moreover have "DATA_S_COEFFICIENT * v \<le> DATA_S_COEFFICIENT" using mult_left_le [of v DATA_S_COEFFICIENT] assms c by simp
  ultimately show "fl (DATA_S_COEFFICIENT * v) \<le> DATA_S_COEFFICIENT" using assms c by (intro fl_le) simp_all
qed

lemma product_final_keeps:
  "dp_visibility (product_final i c out) = dp_visibility out" "dp_s_bound (product_final i c out) = dp_s_bound out"
  "dp_car_measured (product_final i c out) = dp_car_measured out"
  "dp_car_lower_bound (product_final i c out) = dp_car_lower_bound out"
  "dp_consistent (product_final i c out) = dp_consistent out" "dp_counts_valid (product_final i c out) = dp_counts_valid out"
  "dp_calibrated (product_final i c out) \<longleftrightarrow> dp_calibrated out \<or> usable_calibration c"
  "\<not> usable_calibration c \<Longrightarrow> product_final i c out = out"
  by (cases c, simp_all add: product_final_def product_calibrated_keeps product_calibrated_flag usable_calibration_def)+

text \<open>C15: What a run's counts give, for every input and every place for the product. Counts that allow
  no result are refused, and then every figure is cleared and nothing else happens. Otherwise the
  visibility lies between zero and one and is one only if the minimum is zero, the correlation bound is
  at most its coefficient, the figures that need the calibration are claimed exactly when it is there
  with both efficiencies, and the run is counted; it is counted as inconsistent, with one fault reported
  that carries a thousand times the bound, exactly when accidentals were measured, the visibility is
  below one, and the bound is above what was measured. One case has no defined result: an inconsistent
  run whose thousandfold bound does not fit the 32 bits it is converted to, which C leaves undefined
  (\<open>product_bound_undefined\<close> is one).\<close>

theorem product_of_counts:
  "case data_product_compute (Some i) (Some out0) w of
     None \<Rightarrow> product_accepts i \<and> in_accidentals i \<noteq> 0 \<and> in_coincidence_min i \<noteq> 0 \<and>
       (let out = counted_product i out0
        in dp_car_measured out < dp_car_lower_bound out \<and> 2 ^ 32 \<le> fl (dp_car_lower_bound out * 1000))
   | Some (st, out1, u) \<Rightarrow> \<exists>out. out1 = Some out \<and>
    (if product_accepts i
     then st = QIRAN_OK \<and> dp_counts_valid out \<and> 0 \<le> dp_visibility out \<and> dp_visibility out \<le> 1 \<and>
       (dp_visibility out < 1 \<longleftrightarrow> in_coincidence_min i \<noteq> 0) \<and>
       0 \<le> dp_s_bound out \<and> dp_s_bound out \<le> DATA_S_COEFFICIENT \<and>
       (dp_calibrated out \<longleftrightarrow> usable_calibration (svc_config_calibration w)) \<and>
       (\<not> dp_calibrated out \<longrightarrow> dp_pair_rate_hz out = 0 \<and> dp_brightness out = 0 \<and> dp_car_predicted out = 0) \<and>
       data_product_computed u = data_product_computed w + 1 \<and>
       (let bad = (in_accidentals i \<noteq> 0 \<and> in_coincidence_min i \<noteq> 0 \<and> dp_car_measured out < dp_car_lower_bound out)
        in data_product_inconsistent u = data_product_inconsistent w + of_bool bad \<and>
          fd_reported (w_fdir u) QIRAN_FAULT_DATA_PRODUCT = fd_reported (w_fdir w) QIRAN_FAULT_DATA_PRODUCT + of_bool bad \<and>
          (bad \<longrightarrow> fl (dp_car_lower_bound out * 1000) < 2 ^ 32 \<and>
             fd_detail (w_fdir u) QIRAN_FAULT_DATA_PRODUCT = of_int \<lfloor>fl (dp_car_lower_bound out * 1000)\<rfloor>))
     else st = QIRAN_ERR_RANGE \<and> out = product_clear out0 \<and> u = w)"
proof (cases "product_accepts i")
  case False
  then show ?thesis using compute_rejects [OF False, of out0 w] by simp
next
  case True
  then have i: "in_coincidence_min i \<le> in_coincidence_max i" "in_coincidence_max i \<noteq> 0" by (simp_all add: product_accepts_def)
  note f = product_counts_fields [OF i(1), of out0] and r = visibility_range [OF i]
  let ?out = "counted_product i out0" and ?c = "svc_config_calibration w"
  let ?bad = "product_contradicts i ?out" and ?b = "fl (dp_car_lower_bound (counted_product i out0) * 1000)"
  have bad: "?bad \<longleftrightarrow> in_accidentals i \<noteq> 0 \<and> in_coincidence_min i \<noteq> 0 \<and> dp_car_measured ?out < dp_car_lower_bound ?out"
    using f r(3) by (auto simp: product_contradicts_def)
  have res: "data_product_computed u = data_product_computed w + 1"
      "data_product_inconsistent u = data_product_inconsistent w + of_bool ?bad"
      "fd_reported (w_fdir u) QIRAN_FAULT_DATA_PRODUCT = fd_reported (w_fdir w) QIRAN_FAULT_DATA_PRODUCT + of_bool ?bad"
      "?bad \<Longrightarrow> fd_detail (w_fdir u) QIRAN_FAULT_DATA_PRODUCT = of_int \<lfloor>?b\<rfloor> \<and> ?b < 2 ^ 32"
      "st = QIRAN_OK \<and> out1 = Some (product_final i ?c ?out)"
    if "data_product_compute (Some i) (Some out0) w = Some (st, out1, u)" for st out1 u
    using that compute_accepts [OF True, of out0 w]
    by (cases ?bad; auto simp: product_upd_def data_product_computed_def data_product_inconsistent_def
        svc_fdir_report_eq fdir_counted_def u32_of_dbl_def split: if_splits)+
  have g: "\<not> dp_calibrated (product_final i ?c ?out) \<Longrightarrow> product_final i ?c ?out = ?out"
    using product_final_keeps(7) [of i ?c ?out] product_final_keeps(8) [of ?c i ?out] f(7) by blast
  show ?thesis
  proof (cases "data_product_compute (Some i) (Some out0) w")
    case None
    have "0 \<le> dp_car_lower_bound ?out * 1000" if ?bad
    proof -
      have "0 \<le> dbl_of_u32 a / dbl_of_u32 b" for a b by (intro divide_nonneg_nonneg dbl_of_u32(2))
      then have "0 \<le> dp_car_measured ?out" unfolding f(3) by (auto intro: fl_nonneg)
      then show ?thesis using that bad by simp
    qed
    then have "?bad \<and> 2 ^ 32 \<le> ?b"
      using None compute_accepts [OF True, of out0 w] fl_nonneg [of "dp_car_lower_bound ?out * 1000"]
      by (auto simp: u32_of_dbl_def split: if_splits)
    then show ?thesis using None True bad by (simp add: Let_def)
  next
    case (Some x)
    obtain st out1 u where x: "x = (st, out1, u)" by (rule prod_cases3)
    note z = res [OF Some [unfolded x]]
    show ?thesis
      using z(1,2,3,5) z(4) [unfolded bad] True f r(1,2,3) bound_range [OF r(1,2)] g
      by (auto simp: Some x bad product_final_keeps Let_def)
  qed
qed

text \<open>Two coincidence counts, no accidentals and no calibration.\<close>

definition product_input0 :: data_product_input where
  "product_input0 = \<lparr>in_coincidence_max = 3, in_coincidence_min = 1, in_singles_signal = 5, in_singles_idler = 5,
     in_central_peak = 2, in_accidentals = 0, in_integration_ms = 1000, in_pump_power_uw = 100, in_coincidence_window_ps = 1000\<rparr>"

definition product0 :: data_product where
  "product0 = \<lparr>dp_visibility = 7, dp_s_bound = 7, dp_pair_rate_hz = 7, dp_brightness = 7, dp_car_measured = 7,
     dp_car_predicted = 7, dp_car_lower_bound = 7, dp_counts_valid = False, dp_calibrated = True, dp_consistent = True\<rparr>"

theorem product_of_counts_witness:
  "\<forall>w. \<exists>out u. data_product_compute (Some product_input0) (Some product0) w = Some (QIRAN_OK, Some out, u) \<and>
     0 \<le> dp_visibility out \<and> dp_visibility out < 1 \<and> data_product_inconsistent u = data_product_inconsistent w"
proof
  fix w
  have a: "product_accepts product_input0" by (simp add: product_accepts_def product_input0_def)
  have "in_accidentals product_input0 = 0" by (simp add: product_input0_def)
  then have n: "\<not> product_contradicts product_input0 out" for out by (simp add: product_contradicts_def)
  have c: "data_product_compute (Some product_input0) (Some product0) w =
      Some (QIRAN_OK, Some (product_final product_input0 (svc_config_calibration w) (counted_product product_input0 product0)),
        product_upd (\<lambda>s. s\<lparr>pd_computed := pd_computed s + 1\<rparr>) w)"
    using compute_accepts [OF a, of product0 w] n by simp
  show "\<exists>out u. data_product_compute (Some product_input0) (Some product0) w = Some (QIRAN_OK, Some out, u) \<and>
     0 \<le> dp_visibility out \<and> dp_visibility out < 1 \<and> data_product_inconsistent u = data_product_inconsistent w"
    using product_of_counts [of product_input0 product0 w, unfolded c] a c by (auto simp: product_input0_def Let_def)
qed

subsection \<open>No figure is out of range\<close>

definition product_figures :: "data_product \<Rightarrow> rat list" where
  "product_figures p = [dp_visibility p, dp_s_bound p, dp_pair_rate_hz p, dp_brightness p, dp_car_measured p,
     dp_car_predicted p, dp_car_lower_bound p]"

definition figure_ok :: "rat \<Rightarrow> bool" where
  "figure_ok x \<longleftrightarrow> x = 0 \<or> between (-128) 128 x"

lemma figure_okI: "between a b x \<Longrightarrow> -128 \<le> a \<Longrightarrow> b \<le> 128 \<Longrightarrow> figure_ok x"
  using between_weaken [of a b x "-128" 128] by (simp add: figure_ok_def)

lemma figure_ok0 [simp]: "figure_ok 0" by (simp add: figure_ok_def)

lemma integration_range: "in_integration_ms i \<noteq> 0 \<Longrightarrow> between (-10) 23 (integration_s i)"
  unfolding integration_s_def
  using between_fl [OF between_div [OF between_u32, of _ 9 10 1000]] by (simp add: between_def)

lemma rate_range:
  assumes "n \<noteq> 0" "in_integration_ms i \<noteq> 0"
  shows "between (-23) 42 (fl (dbl_of_u32 n / integration_s i))"
  using between_fl [OF between_div [OF between_u32 [OF assms(1)] integration_range [OF assms(2)]]] by simp

lemma thousandth_range: "n \<noteq> 0 \<Longrightarrow> between (-10) 23 (fl (dbl_of_u32 n / 1000))"
  using between_fl [OF between_div [OF between_u32, of n 9 10 1000]] by (simp add: between_def)

lemma efficiency_range: "n \<noteq> 0 \<Longrightarrow> between (-20) 13 (fl (dbl_of_u32 n / 1000000))"
  using between_fl [OF between_div [OF between_u32, of n 19 20 1000000]] by (simp add: between_def)

lemma exact_visibility_range:
  assumes "m \<le> M" "M \<noteq> 0" "exact_visibility M m \<noteq> 0"
  shows "between (-33) 0 (exact_visibility M m)"
proof -
  have "m \<noteq> M" using assms(3) by (auto simp: exact_visibility_def)
  then have "unat m < unat M" using assms(1) by (simp add: word_less_nat_alt [symmetric])
  then have "(of_nat (unat m + 1) :: rat) \<le> of_nat (unat M)" by (intro of_nat_mono) simp
  then have "1 \<le> dbl_of_u32 M - dbl_of_u32 m" by (simp add: dbl_of_u32_def)
  moreover have "dbl_of_u32 M - dbl_of_u32 m \<le> 2 ^ 32"
    using dbl_of_u32(3) [of M] dbl_of_u32(2) [of m] by linarith
  ultimately have "between 0 32 (dbl_of_u32 M - dbl_of_u32 m)" by (simp add: between_def)
  moreover have d: "1 \<le> dbl_of_u32 M + dbl_of_u32 m" "dbl_of_u32 M + dbl_of_u32 m \<le> 2 * 2 ^ 32"
    using dbl_of_u32_pos [OF assms(2)] dbl_of_u32(2) [of m] dbl_of_u32(3) [of M] dbl_of_u32(3) [of m] by linarith+
  then have "between 0 33 (dbl_of_u32 M + dbl_of_u32 m)" by (simp add: between_def)
  ultimately have "between (0 - 33) (32 - 0) (exact_visibility M m)" unfolding exact_visibility_def by (intro between_div)
  moreover have "exact_visibility M m \<le> 1" using d(1) dbl_of_u32(2) [of m] by (simp add: exact_visibility_def pos_divide_le_eq)
  ultimately show ?thesis by (simp add: between_def)
qed

lemma counts_figures:
  assumes "product_accepts i"
  shows "list_all figure_ok (product_figures (counted_product i out0))"
proof -
  let ?M = "in_coincidence_max i" and ?m = "in_coincidence_min i"
  have i: "?m \<le> ?M" "?M \<noteq> 0" using assms by (simp_all add: product_accepts_def)
  let ?v = "fl (exact_visibility ?M ?m)"
  note f = product_counts_fields [OF i(1), of out0] and r = visibility_range [OF i]
  have v: "?v = 0 \<or> between (-33) 0 ?v"
    using between_fl [OF exact_visibility_range [OF i]] by (cases "exact_visibility ?M ?m = 0") simp_all
  have "figure_ok (fl (DATA_S_COEFFICIENT * ?v))"
    using v
  proof
    assume "between (-33) 0 ?v"
    from between_fl [OF between_mult [OF coefficient this]] show ?thesis by (rule figure_okI) simp_all
  qed simp
  moreover have "figure_ok (fl (dbl_of_u32 (in_central_peak i) / dbl_of_u32 (in_accidentals i)))" if "in_accidentals i \<noteq> 0"
  proof (cases "in_central_peak i = 0")
    case False
    from between_fl [OF between_div [OF between_u32 [OF False] between_u32 [OF that]]]
    show ?thesis by (rule figure_okI) simp_all
  qed (simp add: dbl_of_u32_def)
  moreover have "figure_ok (fl (?v / fl (1 - ?v)))" if "?v < 1"
  proof -
    have p: "(2 :: rat) powi (-32) = 1 / 2 ^ 32" by (simp add: power_int_def power_divide)
    have "between (-32) 0 (1 - ?v)" using r(1) r(5) r(3) that by (simp add: between_def p)
    from between_fl [OF this] have "between (-32) 0 (fl (1 - ?v))" by simp
    from v show ?thesis
    proof
      assume "between (-33) 0 ?v"
      from between_fl [OF between_div [OF this \<open>between (-32) 0 (fl (1 - ?v))\<close>]] show ?thesis by (rule figure_okI) simp_all
    qed simp
  qed
  moreover have "figure_ok ?v" using v figure_okI [of "-33" 0 ?v] by auto
  ultimately show ?thesis by (simp add: product_figures_def f)
qed

lemma calibrated_figures:
  assumes "product_accepts i" "usable_calibration (Some cal)" "list_all figure_ok (product_figures out)"
  shows "list_all figure_ok (product_figures (product_calibrated cal i out))"
proof -
  have i: "in_coincidence_max i \<noteq> 0" "in_integration_ms i \<noteq> 0" using assms(1) by (simp_all add: product_accepts_def)
  have e: "ca_branch_efficiency_ppm cal ! 0 \<noteq> 0" "ca_branch_efficiency_ppm cal ! 1 \<noteq> 0"
    using assms(2) by (simp_all add: usable_calibration_def)
  let ?rate = "fl (dbl_of_u32 (in_coincidence_max i) / integration_s i)"
  let ?eta = "fl (fl (dbl_of_u32 (ca_branch_efficiency_ppm cal ! 0) / 1000000) * fl (dbl_of_u32 (ca_branch_efficiency_ppm cal ! 1) / 1000000))"
  let ?bw = "fl (dbl_of_u32 (ca_spectral_bandwidth_pm cal) / 1000)" and ?mw = "fl (dbl_of_u32 (in_pump_power_uw i) / 1000)"
  let ?pair = "fl (?rate / ?eta)" and ?w = "fl (dbl_of_u32 (in_coincidence_window_ps i) / 10 ^ 12)"
  let ?acc = "fl (fl (fl (dbl_of_u32 (in_singles_signal i) / integration_s i) * fl (dbl_of_u32 (in_singles_idler i) / integration_s i)) * ?w)"
  have "between (-40) 26 ?eta"
    using between_fl [OF between_mult [OF efficiency_range [OF e(1)] efficiency_range [OF e(2)]]] by simp
  from between_fl [OF between_div [OF rate_range [OF i] this]] have pair: "between (-49) 82 ?pair" by simp
  have bright: "figure_ok (fl (?pair / fl (?mw * ?bw)))" if "0 < ?mw" "0 < ?bw"
  proof -
    have "in_pump_power_uw i \<noteq> 0" "ca_spectral_bandwidth_pm cal \<noteq> 0"
      using that by (auto simp: dbl_of_u32_def)
    then have "between (-20) 46 (fl (?mw * ?bw))"
      using between_fl [OF between_mult [OF thousandth_range thousandth_range]] by simp
    from between_fl [OF between_div [OF pair this]] show ?thesis by (rule figure_okI) simp_all
  qed
  have pred: "figure_ok (fl (?rate / ?acc))"
    if s: "in_coincidence_window_ps i \<noteq> 0" "in_singles_signal i \<noteq> 0" "in_singles_idler i \<noteq> 0"
  proof -
    have w: "between (-40) (-7) ?w"
      using between_fl [OF between_div [OF between_u32 [OF s(1)], of 39 40 "10 ^ 12"]] by (simp add: between_def)
    have "between (-46) 84 (fl (fl (dbl_of_u32 (in_singles_signal i) / integration_s i) * fl (dbl_of_u32 (in_singles_idler i) / integration_s i)))"
      using between_fl [OF between_mult [OF rate_range [OF s(2) i(2)] rate_range [OF s(3) i(2)]]] by simp
    from between_fl [OF between_mult [OF this w]] have "between (-86) 77 ?acc" by simp
    from between_fl [OF between_div [OF rate_range [OF i] this]] show ?thesis by (rule figure_okI) simp_all
  qed
  have "figure_ok ?pair" using pair by (rule figure_okI) simp_all
  then show ?thesis
    using assms(3) bright pred by (simp add: product_figures_def product_calibrated_def Let_def)
qed

text \<open>C32: Whatever is counted and whatever the calibration says, no figure is infinite, undefined or
  denormal: each is zero or lies between \<open>2 ^ -128\<close> and \<open>2 ^ 128\<close>. The computation itself is defined
  for every input without accidentals or without a minimum, and for every ratio of the counts below
  four million: the bound then fits the word of the fault report.\<close>

theorem product_in_range:
  "(data_product_compute (Some i) (Some out0) w = Some (st, Some out, u) \<longrightarrow> list_all figure_ok (product_figures out)) \<and>
   (in_accidentals i = 0 \<or> in_coincidence_min i = 0 \<or>
      unat (in_coincidence_max i) \<le> (2 ^ 22 - 1) * unat (in_coincidence_min i) \<longrightarrow>
    (\<exists>st out u. data_product_compute (Some i) (Some out0) w = Some (st, Some out, u)))"
proof (intro conjI impI)
  assume c: "data_product_compute (Some i) (Some out0) w = Some (st, Some out, u)"
  show "list_all figure_ok (product_figures out)"
  proof (cases "product_accepts i")
    case True
    have "out = product_final i (svc_config_calibration w) (counted_product i out0)"
      using c compute_accepts [OF True, of out0 w] by (auto split: if_splits)
    then show ?thesis
      using counts_figures [OF True, of out0] calibrated_figures [OF True]
        product_final_keeps(8) [of "svc_config_calibration w" i "counted_product i out0"]
      by (cases "usable_calibration (svc_config_calibration w)")
        (auto simp: product_final_def usable_calibration_def split: option.splits)
  next
    case False
    then show ?thesis
      using c compute_rejects [OF False, of out0 w] by (auto simp: product_figures_def product_clear_def)
  qed
next
  assume small: "in_accidentals i = 0 \<or> in_coincidence_min i = 0 \<or>
      unat (in_coincidence_max i) \<le> (2 ^ 22 - 1) * unat (in_coincidence_min i)"
  show "\<exists>st out u. data_product_compute (Some i) (Some out0) w = Some (st, Some out, u)"
  proof (cases "product_accepts i \<and> product_contradicts i (counted_product i out0)")
    case False
    then show ?thesis using compute_rejects [of i out0 w] compute_accepts [of i out0 w] by (cases "product_accepts i") auto
  next
    case True
    then have i: "in_coincidence_min i \<le> in_coincidence_max i" "in_coincidence_max i \<noteq> 0" by (simp_all add: product_accepts_def)
    let ?v = "fl (exact_visibility (in_coincidence_max i) (in_coincidence_min i))"
    note f = product_counts_fields [OF i(1), of out0] and r = visibility_range [OF i]
    have "?v < 1" "in_accidentals i \<noteq> 0" using True by (simp_all add: product_contradicts_def f)
    then have v: "?v \<le> 1 - 1 / 2 ^ 21" using small r(3,4) by auto
    have p: "(2 :: rat) powi (-21) = 1 / 2 ^ 21" by (simp add: power_int_def power_divide)
    have "2 powi (-21) \<le> 1 - ?v" using v by (simp add: p)
    moreover have "dbl (2 powi (-21))" by (rule dbl_powi2) simp
    ultimately have "2 powi (-21) \<le> fl (1 - ?v)" using v by (intro fl_ge) simp_all
    then have d: "1 / 2 ^ 21 \<le> fl (1 - ?v)" by (simp only: p)
    have "?v / fl (1 - ?v) \<le> 1 / (1 / 2 ^ 21)" using r(1,2) d by (intro frac_le) simp_all
    then have q: "?v / fl (1 - ?v) \<le> 2 ^ 21" by simp
    have q0: "0 \<le> ?v / fl (1 - ?v)" using r(1) d by simp
    have "fl (?v / fl (1 - ?v)) \<le> 2 ^ 21" using fl_le [OF q _ q0] dbl_int [of "2 ^ 21"] by simp
    then have "fl (?v / fl (1 - ?v)) * 1000 \<le> 2097152000" "0 \<le> fl (?v / fl (1 - ?v)) * 1000"
      using fl_nonneg [OF q0] by simp_all
    then have "0 \<le> fl (dp_car_lower_bound (counted_product i out0) * 1000)"
        "fl (dp_car_lower_bound (counted_product i out0) * 1000) \<le> 2097152000"
      using \<open>?v < 1\<close> fl_le [of _ "2097152000"] dbl_int [of 2097152000] by (simp_all add: f fl_nonneg)
    then have "u32_of_dbl (fl (dp_car_lower_bound (counted_product i out0) * 1000)) \<noteq> None"
      by (simp add: u32_of_dbl_def)
    then show ?thesis using True compute_accepts [of i out0 w] by auto
  qed
qed

theorem product_in_range_witness:
  "\<forall>w. \<exists>st out u. data_product_compute (Some product_input0) (Some product0) w = Some (st, Some out, u) \<and>
     figure_ok (dp_s_bound out)"
proof
  fix w
  have "in_accidentals product_input0 = 0" by (simp add: product_input0_def)
  then obtain st out u where c: "data_product_compute (Some product_input0) (Some product0) w = Some (st, Some out, u)"
    using product_in_range [of product_input0 product0 w QIRAN_OK product0 w] by blast
  then have "list_all figure_ok (product_figures out)"
    using product_in_range [of product_input0 product0 w st out u] by blast
  with c show "\<exists>st out u. data_product_compute (Some product_input0) (Some product0) w = Some (st, Some out, u) \<and>
     figure_ok (dp_s_bound out)"
    by (auto simp: product_figures_def)
qed

text \<open>Beyond that ratio it need not be: with the highest count against one, the bound does not fit the
  word it is converted to, and the conversion is undefined.\<close>

definition product_input_extreme :: data_product_input where
  "product_input_extreme = product_input0\<lparr>in_coincidence_max := 0xFFFFFFFF, in_accidentals := 1\<rparr>"

lemma product_bound_undefined: "data_product_compute (Some product_input_extreme) (Some out0) w = None"
proof -
  let ?i = product_input_extreme
  have a: "product_accepts ?i" by (simp add: product_accepts_def product_input_extreme_def product_input0_def)
  then have le: "in_coincidence_min ?i \<le> in_coincidence_max ?i" by (simp add: product_accepts_def)
  have v: "exact_visibility (in_coincidence_max ?i) (in_coincidence_min ?i) = 1 - 1 / 2 ^ 31"
    by (simp add: exact_visibility_def product_input_extreme_def product_input0_def dbl_of_u32_def)
  have p: "(2 :: rat) powi (-31) = 1 / 2 ^ 31" by (simp add: power_int_def power_divide)
  have "dbl (1 - 1 / 2 ^ 31)" unfolding dbl_def
    by (rule exI [of _ "2 ^ 31 - 1 :: int"], rule exI [of _ "-31 :: int"], unfold p) simp
  then have f1: "fl (1 - 1 / 2 ^ 31) = 1 - 1 / 2 ^ 31" by (intro fl_exact) simp_all
  have "dbl (1 / 2 ^ 31)" unfolding dbl_def
    by (rule exI [of _ "1 :: int"], rule exI [of _ "-31 :: int"], unfold p) simp
  then have f2: "fl (1 / 2 ^ 31) = 1 / 2 ^ 31" by (intro fl_exact) simp_all
  have f3: "fl (2 ^ 31 - 1) = 2 ^ 31 - 1" using fl_exact [OF dbl_int [of "2 ^ 31 - 1"]] by simp
  have f4: "fl ((2 ^ 31 - 1) * 1000) = (2 ^ 31 - 1) * 1000" using fl_exact [OF dbl_int [of "(2 ^ 31 - 1) * 1000"]] by simp
  have f5: "fl 2 = 2" using fl_exact [OF dbl_int [of 2]] by simp
  note f = product_counts_fields [OF le, of out0, unfolded v f1]
  have b: "dp_car_lower_bound (counted_product ?i out0) = 2 ^ 31 - 1"
  proof -
    have "1 - (1 - 1 / 2 ^ 31) = (1 / 2 ^ 31 :: rat)" by simp
    then have g: "fl (1 - (1 - 1 / 2 ^ 31)) = 1 / 2 ^ 31" using f2 by (simp only:)
    have "(1 - 1 / 2 ^ 31) / (1 / 2 ^ 31) = (2 ^ 31 - 1 :: rat)" by simp
    then show ?thesis unfolding f(4) g using f3 by (simp only:) simp
  qed
  have "dp_car_measured (counted_product ?i out0) = 2"
    unfolding f(3) using f5 by (simp add: product_input_extreme_def product_input0_def dbl_of_u32_def)
  then have "product_contradicts ?i (counted_product ?i out0)"
    using f(1,5) b by (simp add: product_contradicts_def product_input_extreme_def)
  then show ?thesis
    using compute_accepts [OF a, of out0 w] f4 by (simp add: b u32_of_dbl_def)
qed

subsection \<open>The frame\<close>

lemma scaled_defined: "scaled v s = Some (the (scaled v s))"
proof (cases "v \<le> 0")
  case False
  let ?x = "fl (fl (v * dbl_of_u32 s) + 1 / 2)"
  have "0 \<le> v * dbl_of_u32 s" using False by simp
  then have "0 \<le> ?x" using fl_nonneg by simp
  then show ?thesis by (simp add: scaled_def Let_def u32_of_dbl_def)
qed (simp add: scaled_def)

definition frame_words :: "data_product \<Rightarrow> u32 list" where
  "frame_words p =
    [the (scaled (dp_visibility p) 1000000), the (scaled (dp_s_bound p) 1000000), the (scaled (dp_pair_rate_hz p) 1),
     the (scaled (dp_brightness p) 1000), the (scaled (dp_car_measured p) 1000), the (scaled (dp_car_predicted p) 1000),
     the (scaled (dp_car_lower_bound p) 1000), ucast (product_flags p), 0]"

lemma frame_layout:
  assumes "36 \<le> len" "unat len \<le> length bs" "length bs < 2 ^ 32"
  shows "data_product_frame (Some p) (Some bs) len =
    Some (QIRAN_OK, Some (concat (map be32 (frame_words p)) @ drop 36 bs), Some 36)"
proof -
  have n: "36 \<le> length bs" using assms(1,2) by (simp add: word_le_nat_alt)
  have b: "length bs < 4294967296" using assms(3) by simp
  note e = u32_field.emit_cursor [OF _ b]
  have d: "\<exists>a. scaled v s = Some a" for v s using scaled_defined by blast
  obtain a1 where s1: "scaled (dp_visibility p) 1000000 = Some a1" using d by blast
  obtain a2 where s2: "scaled (dp_s_bound p) 1000000 = Some a2" using d by blast
  obtain a3 where s3: "scaled (dp_pair_rate_hz p) 1 = Some a3" using d by blast
  obtain a4 where s4: "scaled (dp_brightness p) 1000 = Some a4" using d by blast
  obtain a5 where s5: "scaled (dp_car_measured p) 1000 = Some a5" using d by blast
  obtain a6 where s6: "scaled (dp_car_predicted p) 1000 = Some a6" using d by blast
  obtain a7 where s7: "scaled (dp_car_lower_bound p) 1000 = Some a7" using d by blast
  note s = s1 s2 s3 s4 s5 s6 s7
  have "data_product_frame (Some p) (Some bs) len =
      (let q = fold (emit comm_put_u32) (frame_words p) (bs, 0)
       in Some (if snd q = 36 then QIRAN_OK else QIRAN_ERR_INTEGRITY, Some (fst q), Some (snd q)))"
    using assms(1) s by (simp add: data_product_frame_def frame_words_def DATA_PRODUCT_FRAME_BYTES_def DATA_SCALE_VISIBILITY_def
        DATA_SCALE_S_BOUND_def DATA_SCALE_CAR_def DATA_SCALE_BRIGHTNESS_def Let_def split_beta not_less)
  also have "fold (emit comm_put_u32) (frame_words p) (bs, 0) = cursor bs (concat (map be32 (frame_words p)))"
    using u32_field.emit_all_cursor [of "[]" "frame_words p" bs] n b
    by (simp add: emit_all_def cursor_start frame_words_def)
  finally show ?thesis by (simp add: cursor_def Let_def frame_words_def)
qed

lemma read_word:
  assumes "k < length ws" "length ws < 2 ^ 16"
  shows "comm_get_u32 (concat (map be32 ws) @ r) (of_nat (4 * k)) = ws ! k"
proof -
  let ?xs = "concat (map be32 (take k ws))"
  have len: "length (concat (map be32 vs)) = 4 * length vs" for vs by (induction vs) simp_all
  have "ws = take k ws @ ws ! k # drop (Suc k) ws" using assms(1) by (rule id_take_nth_drop)
  then have split: "concat (map be32 ws) = ?xs @ be32 (ws ! k) @ concat (map be32 (drop (Suc k) ws))"
    by (metis concat.simps(2) concat_append list.simps(9) map_append)
  have "length ?xs = 4 * k" using assms(1) by (simp add: len)
  then show ?thesis
    unfolding split using u32_field.get_enc [of ?xs "ws ! k" "concat (map be32 (drop (Suc k) ws)) @ r"] assms by simp
qed

text \<open>C33: Framing a product never fails for want of a representable figure. The frame is 36 bytes, and
  reading back its nine words gives each figure in its scale, the flags and zero; nothing beyond the
  frame is written.\<close>

theorem product_frame_read:
  assumes "36 \<le> len" "unat len \<le> length bs" "length bs < 2 ^ 32"
  shows "\<exists>bs1. data_product_frame (Some p) (Some bs) len = Some (QIRAN_OK, Some bs1, Some 36) \<and>
    length bs1 = length bs \<and> drop 36 bs1 = drop 36 bs \<and>
    map (\<lambda>k. comm_get_u32 bs1 (of_nat (4 * k))) [0..<9] = frame_words p"
proof -
  let ?bs = "concat (map be32 (frame_words p)) @ drop 36 bs"
  have n: "36 \<le> length bs" using assms(1,2) by (simp add: word_le_nat_alt)
  have len: "length (concat (map be32 (frame_words p))) = 36" by (simp add: frame_words_def)
  have w: "length (frame_words p) = 9" by (simp add: frame_words_def)
  have "map (\<lambda>k. comm_get_u32 ?bs (of_nat (4 * k))) [0..<9] = frame_words p"
    using read_word [of _ "frame_words p" "drop 36 bs"] by (intro nth_equalityI) (simp_all add: w)
  moreover have "length ?bs = length bs" using n len by simp
  moreover have "drop 36 ?bs = drop 36 bs" using len by simp
  ultimately show ?thesis using frame_layout [OF assms, of p] by blast
qed

theorem product_frame_read_witness:
  "\<forall>p. \<exists>bs1. data_product_frame (Some p) (Some (replicate 40 7)) 40 = Some (QIRAN_OK, Some bs1, Some 36) \<and>
     drop 36 bs1 = [7, 7, 7, 7]"
proof
  fix p
  have e: "drop 36 (replicate 40 (7 :: u8)) = [7, 7, 7, 7]" by (simp add: numeral_eq_Suc)
  show "\<exists>bs1. data_product_frame (Some p) (Some (replicate 40 7)) 40 = Some (QIRAN_OK, Some bs1, Some 36) \<and>
     drop 36 bs1 = [7, 7, 7, 7]"
    using product_frame_read [of 40 "replicate 40 7" p] e by (auto simp: word_le_nat_alt)
qed

lemma scaled_near:
  assumes "v = 0 \<or> 2 powi (-34) \<le> v" "v \<le> 1"
  shows "\<bar>dbl_of_u32 (the (scaled v 1000000)) - 1000000 * v\<bar> \<le> 1 / 2 + 1 / 10 ^ 9 / 2"
proof (cases "v = 0")
  case True
  then show ?thesis by (simp add: scaled_def dbl_of_u32_def)
next
  case False
  then have lo: "2 powi (-34) \<le> v" using assms(1) by simp
  have small: "(2 :: rat) powi (-1022) \<le> 2 powi (-34)" "(2 :: rat) powi (-1022) \<le> 2 powi (-1)"
    by (rule power_int_increasing; simp)+
  have v: "0 < v" using lo powi2_pos(1) [of "-34"] by linarith
  have "dbl_of_u32 1000000 = 1000000" by (simp add: dbl_of_u32_def)
  define x y where "x = fl (v * 1000000)" and "y = fl (x + 1 / 2)"
  have "2 powi (-1022) \<le> v * 1000000" using small(1) lo v by linarith
  then have "\<bar>x - v * 1000000\<bar> \<le> v * 1000000 / 2 ^ 53" unfolding x_def by (rule fl_error)
  moreover have "v * 1000000 / 2 ^ 53 \<le> 1 / 5000000000" using assms(2) by simp
  ultimately have ex: "\<bar>x - v * 1000000\<bar> \<le> 1 / 5000000000" by linarith
  have x0: "0 \<le> x" unfolding x_def using v by (intro fl_nonneg) simp
  have "2 powi (-1022) \<le> x + 1 / 2" using small(2) x0 by (simp add: power_int_def)
  then have y: "\<bar>y - (x + 1 / 2)\<bar> \<le> (x + 1 / 2) / 2 ^ 53" unfolding y_def by (rule fl_error)
  have xt: "x \<le> 1000001" using ex assms(2) by linarith
  then have "(x + 1 / 2) / 2 ^ 53 \<le> 1 / 5000000000" by simp
  then have ey: "\<bar>y - (x + 1 / 2)\<bar> \<le> 1 / 5000000000" using y by linarith
  have y0: "0 \<le> y" unfolding y_def using x0 by (intro fl_nonneg) simp
  have yt: "y \<le> 1000003" using ey xt by linarith
  have "scaled v 1000000 = Some (of_int \<lfloor>y\<rfloor>)"
    using v y0 yt by (simp add: scaled_def Let_def \<open>dbl_of_u32 1000000 = 1000000\<close> x_def [symmetric] y_def [symmetric] u32_of_dbl_def)
  moreover have "dbl_of_u32 (of_int \<lfloor>y\<rfloor>) = of_int \<lfloor>y\<rfloor>"
  proof -
    have "0 \<le> \<lfloor>y\<rfloor>" "\<lfloor>y\<rfloor> < 2 ^ 32" using y0 yt by (simp_all add: floor_less_iff)
    then show ?thesis by (simp add: dbl_of_u32_def unsigned_of_int take_bit_int_eq_self)
  qed
  ultimately have w: "dbl_of_u32 (the (scaled v 1000000)) = of_int \<lfloor>y\<rfloor>" by simp
  have "\<bar>of_int \<lfloor>y\<rfloor> - (y - 1 / 2)\<bar> \<le> 1 / 2" by linarith
  then have "\<bar>of_int \<lfloor>y\<rfloor> - 1000000 * v\<bar> \<le> 1 / 2 + 1 / 2000000000" using ex ey by linarith
  then show ?thesis unfolding w by simp
qed

text \<open>C20: The visibility on the wire is the true ratio of the counts: in millionths, it is within half a
  unit, and one thousandth of a millionth for the arithmetic, of the exact one.\<close>

theorem visibility_on_wire:
  assumes "data_product_compute (Some i) (Some out0) w = Some (QIRAN_OK, Some out, u)"
    and "data_product_frame (Some out) (Some bs) len = Some (st, Some bs1, written)"
    and "36 \<le> len" "unat len \<le> length bs" "length bs < 2 ^ 32"
  shows "\<bar>dbl_of_u32 (comm_get_u32 bs1 0) -
      1000000 * ((dbl_of_u32 (in_coincidence_max i) - dbl_of_u32 (in_coincidence_min i)) /
        (dbl_of_u32 (in_coincidence_max i) + dbl_of_u32 (in_coincidence_min i)))\<bar> \<le> 1 / 2 + 1 / 10 ^ 9"
proof -
  have a: "product_accepts i" using assms(1) compute_rejects [of i out0 w] by auto
  then have i: "in_coincidence_min i \<le> in_coincidence_max i" "in_coincidence_max i \<noteq> 0" by (simp_all add: product_accepts_def)
  let ?a = "exact_visibility (in_coincidence_max i) (in_coincidence_min i)"
  have "dp_visibility out = fl ?a"
    using assms(1) compute_accepts [OF a, of out0 w] product_counts_fields(1) [OF i(1), of out0]
    by (auto simp: product_final_keeps split: if_splits)
  moreover have "comm_get_u32 bs1 0 = the (scaled (dp_visibility out) 1000000)"
  proof -
    have "bs1 = concat (map be32 (frame_words out)) @ drop 36 bs"
      using assms(2) frame_layout [OF assms(3-5), of out] by simp
    then have "comm_get_u32 bs1 (of_nat (4 * 0)) = frame_words out ! 0"
      by (simp only:) (rule read_word, simp_all add: frame_words_def)
    then show ?thesis by (simp add: frame_words_def)
  qed
  ultimately have word: "comm_get_u32 bs1 0 = the (scaled (fl ?a) 1000000)" by simp
  show ?thesis
    unfolding word exact_visibility_def [symmetric]
  proof (cases "?a = 0")
    case True
    then show "\<bar>dbl_of_u32 (the (scaled (fl ?a) 1000000)) - 1000000 * ?a\<bar> \<le> 1 / 2 + 1 / 10 ^ 9"
      by (simp add: scaled_def dbl_of_u32_def)
  next
    case False
    have r: "between (-33) 0 ?a" by (rule exact_visibility_range [OF i False])
    have small: "(2 :: rat) powi (-1022) \<le> 2 powi (-33)" "(2 :: rat) powi (-34) \<le> 2 powi (-33)" by (rule power_int_increasing; simp)+
    have "\<bar>fl ?a - ?a\<bar> \<le> ?a / 2 ^ 53" by (rule fl_error) (use r small in \<open>simp add: between_def\<close>)
    moreover have "?a / 2 ^ 53 \<le> 1 / 10000000000000000 * 2" using r by (simp add: between_def)
    ultimately have e: "\<bar>fl ?a - ?a\<bar> \<le> 1 / 10000000000000000 * 2" by linarith
    have "2 powi (-33) \<le> fl ?a" "fl ?a \<le> 1" using between_fl [OF r] by (simp_all add: between_def)
    then have "\<bar>dbl_of_u32 (the (scaled (fl ?a) 1000000)) - 1000000 * fl ?a\<bar> \<le> 1 / 2 + 1 / 10 ^ 9 / 2"
      using small(2) by (intro scaled_near) linarith+
    then have "\<bar>dbl_of_u32 (the (scaled (fl ?a) 1000000)) - 1000000 * fl ?a\<bar> \<le> 1 / 2 + 1 / 2000000000" by simp
    then have "\<bar>dbl_of_u32 (the (scaled (fl ?a) 1000000)) - 1000000 * ?a\<bar> \<le> 1 / 2 + 1 / 1000000000" using e by linarith
    then show "\<bar>dbl_of_u32 (the (scaled (fl ?a) 1000000)) - 1000000 * ?a\<bar> \<le> 1 / 2 + 1 / 10 ^ 9" by simp
  qed
qed

text \<open>Three counts against one: half a million millionths, exactly.\<close>

theorem visibility_on_wire_witness:
  "\<forall>w. \<exists>out u bs1. data_product_compute (Some product_input0) (Some product0) w = Some (QIRAN_OK, Some out, u) \<and>
     data_product_frame (Some out) (Some (replicate 36 7)) 36 = Some (QIRAN_OK, Some bs1, Some 36) \<and>
     comm_get_u32 bs1 0 = 500000"
proof
  fix w
  have a: "product_accepts product_input0" by (simp add: product_accepts_def product_input0_def)
  have "in_accidentals product_input0 = 0" by (simp add: product_input0_def)
  then obtain out u where c: "data_product_compute (Some product_input0) (Some product0) w = Some (QIRAN_OK, Some out, u)"
    using compute_accepts [OF a, of product0 w] by (simp add: product_contradicts_def)
  let ?bs = "replicate 36 (7 :: u8)"
  have l: "(36 :: u32) \<le> 36" "unat (36 :: u32) \<le> length ?bs" "length ?bs < 2 ^ 32" by simp_all
  obtain bs1 where f: "data_product_frame (Some out) (Some ?bs) 36 = Some (QIRAN_OK, Some bs1, Some 36)"
    using frame_layout [OF l, of out] by simp
  let ?n = "dbl_of_u32 (comm_get_u32 bs1 0)"
  have "dbl_of_u32 (in_coincidence_max product_input0) = 3" "dbl_of_u32 (in_coincidence_min product_input0) = 1"
    by (simp_all add: product_input0_def dbl_of_u32_def)
  then have "\<bar>?n - 500000\<bar> \<le> 1 / 2 + 1 / 10 ^ 9"
    using visibility_on_wire [OF c f l] by simp
  moreover have "(1 / 2 + 1 / 10 ^ 9 :: rat) < 1" by simp
  ultimately have "\<bar>?n - 500000\<bar> < 1" by linarith
  then have "int (unat (comm_get_u32 bs1 0)) = 500000"
    unfolding dbl_of_u32_def by linarith
  then have "comm_get_u32 bs1 0 = 500000" by (simp add: word_uint_eq_iff)
  with c f show "\<exists>out u bs1. data_product_compute (Some product_input0) (Some product0) w = Some (QIRAN_OK, Some out, u) \<and>
     data_product_frame (Some out) (Some (replicate 36 7)) 36 = Some (QIRAN_OK, Some bs1, Some 36) \<and>
     comm_get_u32 bs1 0 = 500000" by blast
qed

end
