(* ===== verification/Exec_Major.thy ===== *)
theory Exec_Major
  imports Data_Product
begin

section \<open>The trace of the major cycle: \<^verbatim>\<open>src/exec/exec_major.c\<close>\<close>

text \<open>
  What a major cycle does: in a build with the bring-up trace, as the configuration has it by default,
  it prints a summary of every component, and now and then the table of tasks. The vendor's print
  function is output only: the state keeps what it is called with, the format and the arguments in
  order. On the target an unsigned long has 32 bits. A flight build prints nothing.
\<close>

datatype trace_arg = Arg_lu u32 | Arg_d int | Arg_s string

type_synonym trace_call = "string \<times> trace_arg list"

record major_state =
  mj_last_table_dump :: u64
  mj_printed :: "trace_call list"

record major_world = product_world +
  w_major :: major_state

definition QIRAN_TRACE_TABLE_PERIOD :: u32 where "QIRAN_TRACE_TABLE_PERIOD = 20"

text \<open>The line end of the formats, a carriage return and a line feed.\<close>

definition line_end :: string where "line_end = [CHR 0x0D, CHR 0x0A]"

definition xil_printf :: "string \<Rightarrow> trace_arg list \<Rightarrow> 'a major_world_scheme \<Rightarrow> 'a major_world_scheme" where
  "xil_printf f args w = w\<lparr>w_major := (w_major w)\<lparr>mj_printed := mj_printed (w_major w) @ [(f, args)]\<rparr>\<rparr>"

subsection \<open>Names and codes\<close>

fun plat_irq_name :: "plat_irq_id \<Rightarrow> string" where
  "plat_irq_name PLAT_IRQ_TIMER = ''timer''"
| "plat_irq_name PLAT_IRQ_WATCHDOG = ''watchdog''"
| "plat_irq_name PLAT_IRQ_DMA = ''dma''"
| "plat_irq_name PLAT_IRQ_SPW = ''spw''"
| "plat_irq_name PLAT_IRQ_UART = ''uart''"
| "plat_irq_name PLAT_IRQ_PL_ERROR = ''plerr''"
| "plat_irq_name PLAT_IRQ_COUNT = ''?''"

fun mission_stage_name :: "mission_stage \<Rightarrow> string" where
  "mission_stage_name STAGE_BOOT = ''BOOT''"
| "mission_stage_name STAGE_PRECOND = ''PRECOND''"
| "mission_stage_name STAGE_LASER_BRINGUP = ''LASER_BRINGUP''"
| "mission_stage_name STAGE_MRR_TUNE = ''MRR_TUNE''"
| "mission_stage_name STAGE_CROW_TUNE = ''CROW_TUNE''"
| "mission_stage_name STAGE_UMZI_TUNE = ''UMZI_TUNE''"
| "mission_stage_name STAGE_DLI_LOCK = ''DLI_LOCK''"
| "mission_stage_name STAGE_SPAD_ENABLE = ''SPAD_ENABLE''"
| "mission_stage_name STAGE_PVS_T1 = ''PVS_T1''"
| "mission_stage_name STAGE_PVS_T2 = ''PVS_T2''"
| "mission_stage_name STAGE_EXPERIMENT = ''EXPERIMENT''"
| "mission_stage_name STAGE_PROCESS = ''PROCESS''"
| "mission_stage_name STAGE_DATA_HANDLING = ''DATA_HANDLING''"
| "mission_stage_name STAGE_COUNT = ''?''"

fun comm_spw_link_state_name :: "comm_spw_state \<Rightarrow> string" where
  "comm_spw_link_state_name SPW_LINK_DOWN = ''down''"
| "comm_spw_link_state_name SPW_LINK_STARTING = ''starting''"
| "comm_spw_link_state_name SPW_LINK_RUN = ''run''"
| "comm_spw_link_state_name SPW_LINK_FAILED = ''failed''"

text \<open>The names of the task table; there is none for an identifier out of range.\<close>

fun exec_task_name :: "exec_task_id \<Rightarrow> string" where
  "exec_task_name EXEC_TASK_INTERRUPTS = ''interrupts''"
| "exec_task_name EXEC_TASK_HEALTH_CHECK = ''health_check''"
| "exec_task_name EXEC_TASK_COMMS = ''comms''"
| "exec_task_name EXEC_TASK_TELECOMMAND = ''telecommand''"
| "exec_task_name EXEC_TASK_PL_CONTROL = ''pl_control''"
| "exec_task_name EXEC_TASK_DATA_PATH = ''data_path''"
| "exec_task_name EXEC_TASK_FDIR = ''fdir''"
| "exec_task_name EXEC_TASK_HEALTH_CONSOLIDATE = ''health_final''"
| "exec_task_name EXEC_TASK_TELEMETRY = ''telemetry''"
| "exec_task_name EXEC_TASK_MAJOR = ''major''"
| "exec_task_name EXEC_TASK_WATCHDOG = ''watchdog''"
| "exec_task_name EXEC_TASK_COUNT = []"

fun cycle_code :: "exec_cycle_class \<Rightarrow> int" where
  "cycle_code EXEC_CYCLE_MINOR = 0"
| "cycle_code EXEC_CYCLE_MAJOR = 1"
| "cycle_code EXEC_CYCLE_SPREAD = 2"

subsection \<open>The trace\<close>

definition trace_interrupts :: "'a major_world_scheme \<Rightarrow> 'a major_world_scheme" where
  "trace_interrupts w =
    (let (last, worst) = plat_timer_isr_cycles w;
         w = xil_printf ''  isr timer=%luc'' [Arg_lu worst] w;
         w = fold (\<lambda>i w. if \<not> plat_irq_registered i w then w
               else (let s = the (plat_irq_stats_get i w)
                     in xil_printf '' %s=%lu/%lu/%luc'' [Arg_s (plat_irq_name i), Arg_lu (iqs_taken s),
                          Arg_lu (iqs_dropped s), Arg_lu (iqs_cycles_worst s)] w)) irq_ids w
     in xil_printf line_end [] w)"

definition trace_task_table :: "'a major_world_scheme \<Rightarrow> 'a major_world_scheme" where
  "trace_task_table w =
    fold (\<lambda>i w. let def = k_task i; st = the (exec_task_stat_get i w)
        in xil_printf (''  %-14s %4d %6lu %8lu %7lu %8lu'' @ line_end) [Arg_s (exec_task_name i), Arg_d (cycle_code (td_cycle def)),
             Arg_lu (ts_runs st), Arg_lu (exec_cycles_to_us (ts_cycles_last st) w),
             Arg_lu (exec_cycles_to_us (exec_task_mean_cycles i w) w),
             Arg_lu (exec_cycles_to_us (ts_cycles_worst st) w)] w)
      exec_tasks (xil_printf (''  task            cls  runs      last    mean    worst  (us)'' @ line_end) [] w)"

definition trace :: "'a major_world_scheme \<Rightarrow> 'a major_world_scheme" where
  "trace w =
    (let st = exec_stats_get w;
         chk = exec_sched_check w;
         w = xil_printf (''t=%lu maj=%lu body=%luus peak=%luus budget=%luus ovr=%lu lost=%lu wdt=%d'' @ line_end)
           [Arg_lu (ucast (exec_minor_tick_count w)), Arg_lu (ucast (st_major_cycles st)),
            Arg_lu (exec_cycles_to_us (st_body_cycles_last st) w), Arg_lu (exec_cycles_to_us (st_body_cycles_worst st) w),
            Arg_lu (exec_cycles_to_us (exec_budget_cycles w) w), Arg_lu (st_overrun_events st),
            Arg_lu (st_overrun_cycles_lost st), Arg_d (of_bool (svc_watchdog_armed w))] w;
         w = trace_interrupts w;
         w = xil_printf (''  sched worst_slot=%lu used=%luus margin=%luus fits=%d complete=%d'' @ line_end)
           [Arg_lu (sk_worst_slot chk), Arg_lu (exec_cycles_to_us (sk_worst_slot_cycles chk) w),
            Arg_lu (exec_cycles_to_us (sk_margin_cycles chk) w), Arg_d (of_bool (sk_fits chk)),
            Arg_d (of_bool (sk_complete chk))] w;
         (elapsed, w) = mission_stage_elapsed_ms w;
         w = xil_printf (''  stage=%s for=%lums entries=%lu tries=%lu reentry=%lu payload=%d stall=%d abort=%d'' @ line_end)
           [Arg_s (mission_stage_name (mission_stage_get w)), Arg_lu elapsed,
            Arg_lu (mission_stage_entries (mission_stage_get w) w), Arg_lu (mission_stage_attempts w),
            Arg_lu (mission_reentries w), Arg_d (uint (payload_code (mission_payload_status w))),
            Arg_d (of_bool (mission_stalled w)), Arg_d (of_bool (mission_aborted w))] w;
         w = xil_printf (''  health=%d monitors=%lu gating=%lu flips=%lu loops=%lu'' @ line_end)
           [Arg_d (uint (health_code (svc_health_state w))), Arg_lu (svc_health_count w), Arg_lu (svc_health_gating_count w),
            Arg_lu (svc_health_transitions w), Arg_lu (photonic_sched_enabled_count w)] w;
         w = xil_printf (''  fdir sev=%lu/%lu/%lu/%lu undeliv=%lu log=%lu/%lu'' @ line_end)
           [Arg_lu (svc_fdir_severity_count QIRAN_SEV_MINOR w), Arg_lu (svc_fdir_severity_count QIRAN_SEV_MEDIUM w),
            Arg_lu (svc_fdir_severity_count QIRAN_SEV_CRITICAL w), Arg_lu (svc_fdir_severity_count QIRAN_SEV_SEVERE w),
            Arg_lu (svc_fdir_undelivered w), Arg_lu (svc_log_fault_total w), Arg_lu (svc_log_dropped w)] w;
         w = xil_printf (''  cfg locked=%d changes=%lu rejected=%lu corrected=%lu cal=%d'' @ line_end)
           [Arg_d (of_bool (svc_config_locked w)), Arg_lu (svc_config_changes w), Arg_lu (svc_config_rejections w),
            Arg_lu (svc_config_corrections w), Arg_d (of_bool (svc_config_calibration_valid w))] w;
         w = xil_printf (''  cmd rx=%lu done=%lu rej=%lu fail=%lu resync=%lu busy=%d'' @ line_end)
           [Arg_lu (comm_cmd_received w), Arg_lu (comm_cmd_completed w), Arg_lu (comm_cmd_rejected w),
            Arg_lu (comm_cmd_failed w), Arg_lu (comm_cmd_resyncs w), Arg_d (of_bool (comm_cmd_in_progress w))] w;
         w = xil_printf (''  hk sent=%lu status=%lu txfail=%lu smpfail=%lu link=%d'' @ line_end)
           [Arg_lu (comm_rs485_hk_frames_sent w), Arg_lu (comm_rs485_hk_status_sent w),
            Arg_lu (comm_rs485_hk_transmit_failures w), Arg_lu (comm_rs485_hk_sample_failures w),
            Arg_d (of_bool (comm_rs485_hk_ready w))] w;
         w = xil_printf (''  spw=%s errs=%lu disc=%lu tx=%lu rx=%lu | out pend=%lu sent=%lu rej=%lu gaps=%lu bad=%lu'' @ line_end)
           [Arg_s (comm_spw_link_state_name (comm_spw_link_state w)), Arg_lu (comm_spw_link_errors w),
            Arg_lu (comm_spw_link_disconnects w), Arg_lu (comm_spw_link_packets_sent w),
            Arg_lu (comm_spw_link_packets_received w), Arg_lu (comm_output_pending w), Arg_lu (comm_output_sent w),
            Arg_lu (comm_output_rejected w), Arg_lu (comm_ccsds_sequence_gaps w), Arg_lu (comm_ccsds_integrity_errors w)] w;
         w = xil_printf (''  data dma=%lu ready=%lu armfail=%lu own_err=%lu | store used=%lu recs=%lu sent=%lu prod=%lu bad=%lu'' @ line_end)
           [Arg_lu (data_path_completions w), Arg_lu (data_path_ready_slots w), Arg_lu (data_path_arm_failures w),
            Arg_lu (storage_ddr_violations w), Arg_lu (storage_nand_used w), Arg_lu (storage_nand_records w),
            Arg_lu (storage_nand_transferred w), Arg_lu (data_product_computed w), Arg_lu (data_product_inconsistent w)] w;
         period = exec_minor_tick_count w div ucast (of_nat QIRAN_MINOR_PER_MAJOR * QIRAN_TRACE_TABLE_PERIOD)
     in if period \<noteq> mj_last_table_dump (w_major w)
        then trace_task_table (w\<lparr>w_major := (w_major w)\<lparr>mj_last_table_dump := period\<rparr>\<rparr>)
        else w)"

definition exec_major_init :: "'a major_world_scheme \<Rightarrow> 'a major_world_scheme" where
  "exec_major_init w = w\<lparr>w_major := (w_major w)\<lparr>mj_last_table_dump := 0\<rparr>\<rparr>"

definition major_cycle_tasks :: "'a major_world_scheme \<Rightarrow> 'a major_world_scheme" where
  "major_cycle_tasks w = trace w"

subsection \<open>Printing only prints\<close>

definition prints :: "nat \<Rightarrow> 'a major_world_scheme \<Rightarrow> 'a major_world_scheme \<Rightarrow> bool" where
  "prints n w u \<longleftrightarrow> (\<exists>ts. length ts = n \<and> u = w\<lparr>w_major := (w_major w)\<lparr>mj_printed := mj_printed (w_major w) @ ts\<rparr>\<rparr>)"

lemma prints_refl: "prints 0 w w" by (simp add: prints_def)

lemma prints_trans:
  assumes "prints n w v" "prints m v u"
  shows "prints (n + m) w u"
proof -
  obtain ts where ts: "length ts = n" "v = w\<lparr>w_major := (w_major w)\<lparr>mj_printed := mj_printed (w_major w) @ ts\<rparr>\<rparr>"
    using assms(1) by (auto simp: prints_def)
  obtain us where us: "length us = m" "u = v\<lparr>w_major := (w_major v)\<lparr>mj_printed := mj_printed (w_major v) @ us\<rparr>\<rparr>"
    using assms(2) by (auto simp: prints_def)
  show ?thesis unfolding prints_def us(2) ts(2)
    by (intro exI [of _ "ts @ us"]) (simp add: ts(1) us(1))
qed

lemma prints_printf: "prints 1 w (xil_printf f args w)"
  unfolding prints_def xil_printf_def by (intro exI [of _ "[(f, args)]"]) simp

lemma prints_fields:
  assumes "prints n w u"
  shows "plat_irq_registered i u = plat_irq_registered i w" "exec_minor_tick_count u = exec_minor_tick_count w"
    "mj_last_table_dump (w_major u) = mj_last_table_dump (w_major w)"
    "w_time u = w_time w" "w_exec u = w_exec w"
  using assms by (auto simp: prints_def plat_irq_registered_def exec_minor_tick_count_def)

lemma let_print:
  assumes "prints n w v" "\<And>u. prints (n + 1) w u \<Longrightarrow> Q (body u)"
  shows "Q (let u = xil_printf f args v in body u)"
  unfolding Let_def by (rule assms(2)) (rule prints_trans [OF assms(1) prints_printf])

lemma prints_irqs:
  assumes "\<And>i w. prints 1 w (g i w)"
  shows "prints (length (filter (\<lambda>i. plat_irq_registered i w) is)) w
    (fold (\<lambda>i w. if \<not> plat_irq_registered i w then w else g i w) is w)"
proof (induction "is" arbitrary: w)
  case Nil
  show ?case by (simp add: prints_refl)
next
  case (Cons i js)
  show ?case
  proof (cases "plat_irq_registered i w")
    case True
    have p: "prints 1 w (g i w)" by (rule assms)
    have "prints (length (filter (\<lambda>i. plat_irq_registered i (g i w)) js)) (g i w)
      (fold (\<lambda>i w. if \<not> plat_irq_registered i w then w else g i w) js (g i w))"
      using Cons.IH [of "g i w"] by (simp add: prints_fields(1) [OF p] prints_fields(1) [OF assms])
    from prints_trans [OF p this] show ?thesis using True by (simp add: prints_fields(1) [OF assms])
  next
    case False
    then show ?thesis using Cons.IH [of w] by simp
  qed
qed

lemma prints_table:
  assumes "\<And>i w. prints 1 w (g i w)"
  shows "prints (length is) w (fold g is w)"
proof (induction "is" arbitrary: w)
  case Nil
  show ?case by (simp add: prints_refl)
next
  case (Cons i js)
  from prints_trans [OF assms [of w i] Cons.IH] show ?case by simp
qed

definition registered_irqs :: "'a major_world_scheme \<Rightarrow> nat" where
  "registered_irqs w = length (filter (\<lambda>i. plat_irq_registered i w) irq_ids)"

lemma trace_interrupts_prints: "prints (registered_irqs w + 2) w (trace_interrupts w)"
proof -
  let ?v = "xil_printf ''  isr timer=%luc'' [Arg_lu (snd (plat_timer_isr_cycles w))] w"
  have r: "registered_irqs ?v = registered_irqs w"
    by (simp add: registered_irqs_def prints_fields(1) [OF prints_printf])
  have "prints (1 + registered_irqs ?v + 1) w (trace_interrupts w)"
    unfolding trace_interrupts_def Let_def split_beta registered_irqs_def
    by (rule prints_trans [OF prints_trans [OF prints_printf prints_irqs [OF prints_printf]] prints_printf])
  then show ?thesis by (simp add: r)
qed

lemma trace_table_prints: "prints 12 w (trace_task_table w)"
proof -
  have "prints (1 + length exec_tasks) w (trace_task_table w)"
    unfolding trace_task_table_def Let_def
    by (rule prints_trans [OF prints_printf prints_table [OF prints_printf]])
  moreover have "1 + length exec_tasks = 12" by (simp add: exec_tasks_def)
  ultimately show ?thesis by (simp only:)
qed

text \<open>What a call of the trace leaves: the clock read, and the lines printed.\<close>

definition traced :: "'a major_world_scheme \<Rightarrow> 'a major_world_scheme \<Rightarrow> bool" where
  "traced w u \<longleftrightarrow> (\<exists>ts. u = w\<lparr>w_time := w_time (snd (svc_time_now_ms w)),
       w_major := \<lparr>mj_last_table_dump = exec_minor_tick_count w div 500, mj_printed = mj_printed (w_major w) @ ts\<rparr>\<rparr> \<and>
     length ts = 12 + registered_irqs w +
       (if mj_last_table_dump (w_major w) = exec_minor_tick_count w div 500 then 0 else 12))"

lemma let_any: "(\<And>u. u = t \<Longrightarrow> Q (body u)) \<Longrightarrow> Q (let u = t in body u)"
  by simp

lemma let_pair: "(\<And>a b. t = (a, b) \<Longrightarrow> Q (f a b)) \<Longrightarrow> Q (let (a, b) = t in f a b)"
  by (simp add: split_beta)

text \<open>The end of the trace: the table, when a period of twenty major cycles has gone by.\<close>

lemma traced_end:
  assumes "prints n w v1" "v2 = v1\<lparr>w_time := w_time (snd (svc_time_now_ms w))\<rparr>" "prints m v2 v3" "n + m = 12 + registered_irqs w"
  shows "traced w (if exec_minor_tick_count v3 div 500 \<noteq> mj_last_table_dump (w_major v3)
    then trace_task_table (v3\<lparr>w_major := (w_major v3)\<lparr>mj_last_table_dump := exec_minor_tick_count v3 div 500\<rparr>\<rparr>) else v3)"
proof -
  obtain ts where ts: "length ts = n" "v1 = w\<lparr>w_major := (w_major w)\<lparr>mj_printed := mj_printed (w_major w) @ ts\<rparr>\<rparr>"
    using assms(1) by (auto simp: prints_def)
  obtain us where us: "length us = m" "v3 = v2\<lparr>w_major := (w_major v2)\<lparr>mj_printed := mj_printed (w_major v2) @ us\<rparr>\<rparr>"
    using assms(3) by (auto simp: prints_def)
  have v3: "v3 = w\<lparr>w_time := w_time (snd (svc_time_now_ms w)),
      w_major := (w_major w)\<lparr>mj_printed := mj_printed (w_major w) @ ts @ us\<rparr>\<rparr>"
    unfolding us(2) assms(2) ts(2) by simp
  have c: "exec_minor_tick_count v3 = exec_minor_tick_count w" "mj_last_table_dump (w_major v3) = mj_last_table_dump (w_major w)"
    unfolding v3 by (simp_all add: exec_minor_tick_count_def)
  let ?d = "exec_minor_tick_count w div 500"
  show ?thesis
  proof (cases "mj_last_table_dump (w_major w) = ?d")
    case True
    have "v3 = w\<lparr>w_time := w_time (snd (svc_time_now_ms w)),
        w_major := \<lparr>mj_last_table_dump = ?d, mj_printed = mj_printed (w_major w) @ ts @ us\<rparr>\<rparr>"
      unfolding v3 using True by simp
    then show ?thesis
      unfolding traced_def using True ts(1) us(1) assms(4) c
      by (intro exI [of _ "ts @ us"]) simp
  next
    case False
    let ?v = "v3\<lparr>w_major := (w_major v3)\<lparr>mj_last_table_dump := ?d\<rparr>\<rparr>"
    obtain xs where xs: "length xs = 12" "trace_task_table ?v = ?v\<lparr>w_major := (w_major ?v)\<lparr>mj_printed := mj_printed (w_major ?v) @ xs\<rparr>\<rparr>"
      using trace_table_prints [of ?v] by (auto simp: prints_def)
    have "trace_task_table ?v = w\<lparr>w_time := w_time (snd (svc_time_now_ms w)),
        w_major := \<lparr>mj_last_table_dump = ?d, mj_printed = mj_printed (w_major w) @ ts @ us @ xs\<rparr>\<rparr>"
      unfolding xs(2) unfolding v3 by simp
    then show ?thesis
      unfolding traced_def using False ts(1) us(1) xs(1) assms(4) c
      by (intro exI [of _ "ts @ us @ xs"]) simp
  qed
qed

lemma trace_traced: "traced w (trace w)"
proof -
  note p = let_print [where Q = "traced w"] and l = let_any [where Q = "traced w"] and lp = let_pair [where Q = "traced w"]
  show ?thesis
    unfolding trace_def
  proof (rule l, rule l, rule p [OF prints_refl], rule l, goal_cases)
    case (1 st chk u1 u2)
    have "registered_irqs u1 = registered_irqs w" by (simp add: registered_irqs_def prints_fields(1) [OF 1(3)])
    then have p2: "prints (registered_irqs w + 3) w u2"
      unfolding 1(4) using prints_trans [OF 1(3) trace_interrupts_prints] by (simp add: numeral_3_eq_3)
    show ?case
    proof (rule p [OF p2], rule lp, goal_cases)
      case (1 u3 elapsed u4)
      have u4: "u4 = u3\<lparr>w_time := w_time (snd (svc_time_now_ms w))\<rparr>"
        using 1(2) prints_fields(4,5) [OF 1(1)]
        by (auto simp: mission_stage_elapsed_ms_def svc_time_now_ms_def exec_raw_tick_count_def Let_def)
      show ?case
        apply (rule p [OF prints_refl])
        apply (erule p)+
        apply (rule l)
        subgoal premises prems
          using traced_end [OF 1(1) u4 prems(1)] prems(2)
          by (simp add: numeral_3_eq_3 QIRAN_MINOR_PER_MAJOR_def QIRAN_TRACE_TABLE_PERIOD_def split: if_split_asm)
        done
    qed
  qed
qed

text \<open>The trace only observes. Whatever the state of the components, a major cycle changes nothing but
  what it prints, its own note of the last table and what reading the clock changes; it makes twelve
  print calls, one more for every registered interrupt, and those of the table of the eleven tasks
  exactly when the count of minor cycles has entered another period of twenty major cycles since the last table.\<close>

theorem major_trace_observes:
  "\<exists>ts. major_cycle_tasks w = w\<lparr>w_time := w_time (snd (svc_time_now_ms w)),
      w_major := \<lparr>mj_last_table_dump = exec_minor_tick_count w div 500, mj_printed = mj_printed (w_major w) @ ts\<rparr>\<rparr> \<and>
    length ts = 12 + registered_irqs w +
      (if mj_last_table_dump (w_major w) = exec_minor_tick_count w div 500 then 0 else 12)"
  using trace_traced [of w] by (simp add: traced_def major_cycle_tasks_def)

end
