(* ===== verification/Main_Loop.thy ===== *)
theory Main_Loop
  imports Exec_Major
begin

section \<open>The program: \<^verbatim>\<open>src/main.c\<close>\<close>

text \<open>
  The endless loop of minor cycles, the tasks of one cycle in their order, and everything done once in
  the first. The functions other modules register are interpreted by one environment; what this source
  tree itself connects is connected here: the command sequence as a consumer of packets, and the
  housekeeping link as the observer's link of the fault service. What arrives from outside in a cycle
  is its input: the ticks taken while asleep and in the windows the executive names, what the
  interrupts do before each task, and a bound on the reads the serial data link goes on filling. A
  cycle that does not end is \<^term>\<open>None\<close>.
\<close>

record 'w main_env =
  ma_hk :: "'w hk_env"
  ma_cmd :: "'w cmd_env"
  ma_spw :: "'w spw_env"
  ma_bytes :: "handle \<Rightarrow> 'w \<Rightarrow> u8 list"
  ma_step :: "handle \<Rightarrow> handle option \<Rightarrow> mission_step \<Rightarrow> 'w \<Rightarrow> mission_step \<times> 'w"
  ma_loop :: "handle \<Rightarrow> handle option \<Rightarrow> 'w \<Rightarrow> qiran_status \<times> 'w"
  ma_nand :: "'w nand_env"
  ma_health :: "'w health_env"
  ma_boot :: "'w boot_env"

record 'w cycle_input =
  ci_wakes :: "nat list"
  ci_mid :: nat
  ci_resync :: nat
  ci_interrupts :: "exec_task_id \<Rightarrow> 'w \<Rightarrow> 'w"
  ci_reads :: nat

subsection \<open>What is connected to what\<close>

definition main_fdir :: "'a major_world_scheme main_env \<Rightarrow> 'a major_world_scheme fdir_env" where
  "main_fdir E = hk_fdir_env (ma_hk E)"

definition main_spw :: "'a major_world_scheme main_env \<Rightarrow> 'a major_world_scheme spw_env" where
  "main_spw E = (ma_spw E)\<lparr>se_consume := process_consume (ma_cmd E) (se_consume (ma_spw E))\<rparr>"

definition main_output :: "'a major_world_scheme main_env \<Rightarrow> 'a major_world_scheme output_env" where
  "main_output E = \<lparr>oe_bytes = ma_bytes E, oe_spw = main_spw E\<rparr>"

definition main_mission :: "'a major_world_scheme main_env \<Rightarrow> 'a major_world_scheme mission_env" where
  "main_mission E = \<lparr>me_step = ma_step E, me_fdir = main_fdir E\<rparr>"

definition main_boot :: "'a major_world_scheme main_env \<Rightarrow> 'a major_world_scheme boot_env" where
  "main_boot E = (ma_boot E)\<lparr>be_fdir := main_fdir E\<rparr>"

subsection \<open>The tasks\<close>

definition service_interrupts :: "'a major_world_scheme \<Rightarrow> 'a major_world_scheme" where
  "service_interrupts w =
    (let w = svc_fdir_service_interrupts w;
         w = comm_spw_link_service_interrupts w;
         w = data_path_service_interrupts w
     in comm_cmd_service_interrupts w)"

definition communication :: "nat \<Rightarrow> 'a major_world_scheme main_env \<Rightarrow> 'a major_world_scheme \<Rightarrow> 'a major_world_scheme option" where
  "communication reads E w = do {
     w \<leftarrow> comm_spw_link_service reads (main_spw E) w;
     w \<leftarrow> comm_output_service 17 (main_output E) w;
     Some (comm_rs485_hk_transmit (ma_hk E) w) }"

definition pl_control :: "'a major_world_scheme main_env \<Rightarrow> 'a major_world_scheme \<Rightarrow> 'a major_world_scheme" where
  "pl_control E w = control_loop_service_calls (ma_loop E) (mission_seq_step (main_mission E) w)"

definition telemetry_write :: "'a major_world_scheme main_env \<Rightarrow> 'a major_world_scheme \<Rightarrow> 'a major_world_scheme" where
  "telemetry_write E w = comm_rs485_hk_stage (ma_hk E) w"

definition subsystem_init :: "'a major_world_scheme main_env \<Rightarrow> 'a major_world_scheme \<Rightarrow> 'a major_world_scheme" where
  "subsystem_init E w =
    (let w = svc_log_init w;
         w = svc_fdir_init w;
         w = svc_config_init w;
         w = svc_health_init w;
         w = snd (svc_watchdog_init (ma_health E) None w);
         w = plat_post_init w;
         w = plat_devinit_init w;
         w = mission_seq_init w;
         w = photonic_sched_init w;
         w = storage_ddr_init w;
         w = storage_nand_init w;
         w = data_product_init w;
         w = data_path_init w;
         w = comm_process_init w;
         w = snd (svc_fdir_set_uplink comm_rs485_hk_uplink w);
         w = exec_major_init w
     in exec_sched_init w)"

definition report_ready :: "'a major_world_scheme main_env \<Rightarrow> 'a major_world_scheme \<Rightarrow> 'a major_world_scheme" where
  "report_ready E w =
    snd (comm_rs485_status_send (ma_hk E)
      (Some \<lparr>sr_payload = mission_payload_status w, sr_health = svc_health_state w,
        sr_interlock = map (\<lambda>_. COMM_INTERLOCK_UNEVALUATED) [0..<COMM_HK_INTERLOCKS],
        sr_fault = QIRAN_FAULT_NONE, sr_severity = QIRAN_SEV_MINOR\<rparr>) w)"

fun outcome_code :: "boot_outcome \<Rightarrow> int" where
  "outcome_code BOOT_OUTCOME_PENDING = 0"
| "outcome_code BOOT_OUTCOME_SUCCESS = 1"
| "outcome_code BOOT_OUTCOME_TERMINAL = 2"

definition boot_trace :: "qiran_status \<Rightarrow> 'a major_world_scheme \<Rightarrow> 'a major_world_scheme" where
  "boot_trace st w =
    (let br = plat_boot_report w;
         w = xil_printf (''boot=%d outcome=%d failed=%s total=%lums'' @ line_end)
           [Arg_d (uint (status_code st)), Arg_d (outcome_code (br_outcome br)),
            Arg_s (plat_boot_step_name (br_failed_step br)), Arg_lu (br_total_ms br)] w
     in xil_printf (''  timer_clk=%luHz load=%lu budget=%luus safe_out=%lu post=%lu dev=%lu'' @ line_end)
           [Arg_lu (plat_timer_clock_hz w), Arg_lu (plat_timer_load_value w),
            Arg_lu (exec_cycles_to_us (exec_budget_cycles w) w), Arg_lu (plat_safe_outputs_registered w),
            Arg_lu (plat_post_count w), Arg_lu (plat_devinit_count w)] w)"

definition first_cycle :: "'a major_world_scheme main_env \<Rightarrow> nat \<Rightarrow> 'a major_world_scheme \<Rightarrow> 'a major_world_scheme option" where
  "first_cycle E mid w = do {
     let w = subsystem_init E w;
     (st, w) \<leftarrow> boot_and_init (main_boot E) w;
     let w = boot_trace st w;
     let w = (if st = QIRAN_OK then report_ready E (svc_config_lock w) else mission_abort QIRAN_FAULT_DEVINIT w);
     Some (exec_resync mid w) }"

subsection \<open>The loop\<close>

text \<open>\<^verbatim>\<open>EXEC_RUN\<close> of a task that may not end, and of one that does.\<close>

definition run_task ::
  "'a major_world_scheme cycle_input \<Rightarrow> exec_task_id \<Rightarrow> ('a major_world_scheme \<Rightarrow> 'a major_world_scheme option) \<Rightarrow>
   'a major_world_scheme \<Rightarrow> 'a major_world_scheme option" where
  "run_task c i call w = map_option (exec_task_leave i) (call (exec_task_enter i (ci_interrupts c i w)))"

definition exec_task ::
  "'a major_world_scheme cycle_input \<Rightarrow> exec_task_id \<Rightarrow> ('a major_world_scheme \<Rightarrow> 'a major_world_scheme) \<Rightarrow>
   'a major_world_scheme \<Rightarrow> 'a major_world_scheme" where
  "exec_task c i call w = exec_run i call (ci_interrupts c i w)"

text \<open>The tasks of a cycle up to the watchdog, and the cycle.\<close>

definition cycle_tasks ::
  "'a major_world_scheme main_env \<Rightarrow> 'a major_world_scheme cycle_input \<Rightarrow> 'a major_world_scheme \<Rightarrow> 'a major_world_scheme option" where
  "cycle_tasks E c w = do {
     let w = exec_task c EXEC_TASK_INTERRUPTS service_interrupts w;
     let w = exec_task c EXEC_TASK_HEALTH_CHECK (health_check (ma_health E)) w;
     w \<leftarrow> run_task c EXEC_TASK_COMMS (communication (ci_reads c) E) w;
     w \<leftarrow> run_task c EXEC_TASK_TELECOMMAND (comm_cmd_service 5 (ma_cmd E)) w;
     let w = exec_task c EXEC_TASK_PL_CONTROL (pl_control E) w;
     let w = exec_task c EXEC_TASK_DATA_PATH (data_path_manage (ma_nand E)) w;
     let w = exec_task c EXEC_TASK_FDIR (error_handling_service (main_fdir E)) w;
     let w = exec_task c EXEC_TASK_HEALTH_CONSOLIDATE health_consolidate w;
     let w = exec_task c EXEC_TASK_TELEMETRY (telemetry_write E) w;
     Some (if exec_major_tick_due w then exec_task c EXEC_TASK_MAJOR major_cycle_tasks w else w) }"

definition main_cycle ::
  "'a major_world_scheme main_env \<Rightarrow> bool \<Rightarrow> 'a major_world_scheme cycle_input \<Rightarrow> 'a major_world_scheme \<Rightarrow> 'a major_world_scheme option" where
  "main_cycle E first c w = do {
     w \<leftarrow> exec_wait_for_minor_tick (ci_wakes c) (ci_mid c) w;
     w \<leftarrow> (if first then first_cycle E (ci_resync c) w else Some w);
     w \<leftarrow> cycle_tasks E c w;
     Some (exec_task c EXEC_TASK_WATCHDOG (watchdog_tickle_if_healthy (ma_health E)) w) }"

fun main_cycles ::
  "'a major_world_scheme main_env \<Rightarrow> bool \<Rightarrow> 'a major_world_scheme cycle_input list \<Rightarrow> 'a major_world_scheme \<Rightarrow> 'a major_world_scheme option" where
  "main_cycles E first [] w = Some w"
| "main_cycles E first (c # cs) w = do { w \<leftarrow> main_cycle E first c w; main_cycles E False cs w }"

text \<open>The program, after as many cycles as there are inputs: stopped for ever, or running.\<close>

datatype 'w main_state = Stopped 'w | Running 'w

definition main ::
  "'a major_world_scheme main_env \<Rightarrow> 'a major_world_scheme cycle_input list \<Rightarrow> 'a major_world_scheme \<Rightarrow>
   'a major_world_scheme main_state option" where
  "main E cs w =
    (let (st, w) = plat_early_init w
     in if st \<noteq> QIRAN_OK then Some (Stopped w) else map_option Running (main_cycles E True cs w))"

subsection \<open>What initialisation establishes\<close>

text \<open>The sizes of the statically allocated arrays, and the invariants of the components.\<close>

definition arrays_sized :: "'a major_world_scheme \<Rightarrow> bool" where
  "arrays_sized w \<longleftrightarrow> length (lg_buf (w_log w)) = 128 \<and> length (po_entry (w_post w)) = 16 \<and>
     length (po_result (w_post w)) = 16 \<and> length (oq_slot (w_output w)) = COMM_OUTPUT_DEPTH \<and>
     length (hk_frame (w_hk w)) = 56 \<and> length (hk_status (w_hk w)) = 20 \<and> length (pa_ready (w_path w)) = 7"

definition components_ok :: "'a major_world_scheme \<Rightarrow> bool" where
  "components_ok w \<longleftrightarrow> log_invar (w_log w) \<and> config_ok (w_config w) \<and> post_ok (w_post w) \<and> loops_ok w \<and>
     ddr_ok (w_ddr w) \<and> ddr_apart (w_ddr w) \<and> path_ok w \<and> ccsds_ok (w_ccsds w) \<and> cmd_ok (w_cmd w) \<and>
     output_ok (w_output w) \<and> hk_ok (w_hk w)"

text \<open>Every initialisation sets its own part of the state.\<close>

lemma svc_log_init_own: "svc_log_init w = w\<lparr>w_log := w_log (svc_log_init w)\<rparr>"
  by (simp add: svc_log_init_def Let_def)

lemma svc_fdir_init_own: "svc_fdir_init w = w\<lparr>w_fdir := w_fdir (svc_fdir_init w)\<rparr>"
  by (simp add: svc_fdir_init_def Let_def)

lemma svc_config_init_own: "svc_config_init w = w\<lparr>w_config := w_config (svc_config_init w)\<rparr>"
  by (simp add: svc_config_init_def Let_def)

lemma svc_health_init_own: "svc_health_init w = w\<lparr>w_health := w_health (svc_health_init w)\<rparr>"
  by (simp add: svc_health_init_def svc_health_register_def Let_def)

lemma svc_watchdog_init_own: "snd (svc_watchdog_init H None w) = w\<lparr>w_watchdog := w_watchdog (snd (svc_watchdog_init H None w))\<rparr>"
  by (simp add: svc_watchdog_init_def Let_def)

lemma plat_post_init_own: "plat_post_init w = w\<lparr>w_post := w_post (plat_post_init w)\<rparr>"
  by (simp add: plat_post_init_def plat_post_register_def post_upd_def Let_def)

lemma plat_devinit_init_own: "plat_devinit_init w = w\<lparr>w_devinit := w_devinit (plat_devinit_init w)\<rparr>"
  by (simp add: plat_devinit_init_def devinit_upd_def Let_def)

lemma photonic_sched_init_own: "photonic_sched_init w = w\<lparr>w_loop := w_loop (photonic_sched_init w)\<rparr>"
  by (simp add: photonic_sched_init_def Let_def)

lemma storage_ddr_init_own: "storage_ddr_init w = w\<lparr>w_ddr := w_ddr (storage_ddr_init w)\<rparr>"
  by (simp add: storage_ddr_init_def ddr_upd_def Let_def)

lemma storage_nand_init_own: "storage_nand_init w = w\<lparr>w_nand := w_nand (storage_nand_init w)\<rparr>"
  by (simp add: storage_nand_init_def nand_upd_def Let_def)

lemma data_product_init_own: "data_product_init w = w\<lparr>w_product := w_product (data_product_init w)\<rparr>"
  by (simp add: data_product_init_def product_upd_def Let_def)

lemma data_path_init_own: "data_path_init w = w\<lparr>w_path := w_path (data_path_init w)\<rparr>"
  by (simp add: data_path_init_def path_upd_def Let_def)

lemma comm_rs485_hk_init_own: "comm_rs485_hk_init w = w\<lparr>w_hk := w_hk (comm_rs485_hk_init w)\<rparr>"
  by (simp add: comm_rs485_hk_init_def hk_upd_def Let_def)

lemma comm_cmd_init_own: "comm_cmd_init w = w\<lparr>w_cmd := w_cmd (comm_cmd_init w)\<rparr>"
  by (simp add: comm_cmd_init_def cmd_upd_def Let_def)

lemma comm_ccsds_init_own: "comm_ccsds_init w = w\<lparr>w_ccsds := w_ccsds (comm_ccsds_init w)\<rparr>"
  by (simp add: comm_ccsds_init_def ccsds_upd_def Let_def)

lemma comm_spw_link_init_own: "comm_spw_link_init w = w\<lparr>w_spw := w_spw (comm_spw_link_init w)\<rparr>"
  by (simp add: comm_spw_link_init_def spw_upd_def Let_def)

lemma comm_output_init_own: "comm_output_init w = w\<lparr>w_output := w_output (comm_output_init w)\<rparr>"
  by (simp add: comm_output_init_def output_upd_def Let_def)

lemma comm_ccsds_register_own: "snd (comm_ccsds_register cls h ctx w) = w\<lparr>w_ccsds := w_ccsds (snd (comm_ccsds_register cls h ctx w))\<rparr>"
  by (simp add: comm_ccsds_register_def ccsds_upd_def Let_def)

lemma svc_fdir_set_uplink_own: "snd (svc_fdir_set_uplink l w) = w\<lparr>w_fdir := w_fdir (snd (svc_fdir_set_uplink l w))\<rparr>"
  by (simp add: svc_fdir_set_uplink_def Let_def split: option.split)

lemma exec_major_init_own: "exec_major_init w = w\<lparr>w_major := w_major (exec_major_init w)\<rparr>"
  by (simp add: exec_major_init_def Let_def)

lemma exec_sched_init_own: "exec_sched_init w = w\<lparr>w_sched := w_sched (exec_sched_init w)\<rparr>"
  by (simp add: exec_sched_init_def Let_def)

lemma mission_seq_init_own: "mission_seq_init w = w\<lparr>w_time := w_time (snd (svc_time_now_ms w)), w_mission := w_mission (mission_seq_init w)\<rparr>"
  by (simp add: mission_seq_init_def svc_time_now_ms_def Let_def)

lemmas inits_own = svc_log_init_own svc_fdir_init_own svc_config_init_own svc_health_init_own
  svc_watchdog_init_own plat_post_init_own plat_devinit_init_own photonic_sched_init_own
  storage_ddr_init_own storage_nand_init_own data_product_init_own data_path_init_own
  comm_rs485_hk_init_own comm_cmd_init_own comm_ccsds_init_own comm_spw_link_init_own
  comm_output_init_own comm_ccsds_register_own svc_fdir_set_uplink_own exec_major_init_own
  exec_sched_init_own mission_seq_init_own

text \<open>The services, then the platform, the mission and the data, then communication: the three groups in
  the order of their calls.\<close>

lemma services_init:
  fixes w :: "'a health_world_scheme"
  shows "\<exists>c h d. snd (svc_watchdog_init H None (svc_health_init (svc_config_init (svc_fdir_init (svc_log_init w))))) =
      w\<lparr>w_log := w_log (svc_log_init w), w_fdir := w_fdir (svc_fdir_init w), w_config := c, w_health := h, w_watchdog := d\<rparr> \<and>
    config_ok c \<and> \<not> cf_locked c \<and> hl_state h = QIRAN_HEALTH_HEALTHY \<and> length (hl_monitor h) = 2 \<and> \<not> wd_armed d"
proof -
  let ?v = "svc_fdir_init (svc_log_init w)"
  define v2 where "v2 = svc_config_init ?v"
  define v3 where "v3 = svc_health_init v2"
  define v4 where "v4 = snd (svc_watchdog_init H None v3)"
  obtain c where c: "v2 = ?v\<lparr>w_config := c\<rparr>" "w_config v2 = c" unfolding v2_def using svc_config_init_own by blast
  obtain h where h: "v3 = v2\<lparr>w_health := h\<rparr>" "w_health v3 = h" unfolding v3_def using svc_health_init_own by blast
  obtain d where d: "v4 = v3\<lparr>w_watchdog := d\<rparr>" "w_watchdog v4 = d" unfolding v4_def using svc_watchdog_init_own by blast
  have "config_ok c" "\<not> cf_locked c"
    unfolding c(2) [symmetric] v2_def by (rule init_ok, simp add: svc_config_init_def)
  moreover have "hl_state h = QIRAN_HEALTH_HEALTHY" "length (hl_monitor h) = 2"
    unfolding h(2) [symmetric] v3_def
    by (simp_all add: svc_health_init_def svc_health_register_def SVC_HEALTH_MONITOR_MAX_def Let_def QIRAN_MINOR_PER_MAJOR_def)
  moreover have "\<not> wd_armed d"
    unfolding d(2) [symmetric] v4_def by (simp add: svc_watchdog_init_def Let_def)
  moreover have "v4 = w\<lparr>w_log := w_log (svc_log_init w), w_fdir := w_fdir (svc_fdir_init w), w_config := c, w_health := h, w_watchdog := d\<rparr>"
    unfolding d(1) h(1) c(1) by (simp add: svc_fdir_init_def svc_log_init_def)
  ultimately show ?thesis unfolding v4_def v3_def v2_def by blast
qed

definition mission_fresh :: "mission_state \<Rightarrow> bool" where
  "mission_fresh m \<longleftrightarrow> (\<forall>s. mi_step m s = None) \<and> mi_attempts m = 0 \<and> \<not> mi_timed_out m \<and> \<not> mi_stalled m \<and>
     mi_abort_cause m = QIRAN_FAULT_NONE \<and> mi_reentries m = 0 \<and> mi_payload m = QIRAN_PAYLOAD_NON_OPERATIONAL"

definition nand_empty :: "nand_state \<Rightarrow> bool" where
  "nand_empty s \<longleftrightarrow> \<not> nd_ready s \<and> nd_used s = 0 \<and> nd_records s = 0 \<and> nd_transferred s = 0 \<and> \<not> nd_transfer_active s"

lemma platform_init:
  fixes w :: "'a post_world_scheme"
  assumes "length (po_entry (w_post w)) = 16" "length (po_result (w_post w)) = 16"
  shows "\<exists>t m n p. storage_nand_init (storage_ddr_init (photonic_sched_init (mission_seq_init (plat_devinit_init (plat_post_init w))))) =
      w\<lparr>w_post := p, w_devinit := w_devinit (plat_devinit_init w), w_time := t, w_mission := m,
        w_loop := w_loop (photonic_sched_init w), w_ddr := w_ddr (storage_ddr_init w), w_nand := n\<rparr> \<and>
    post_ok p \<and> po_count p = 1 \<and> mi_stage m = STAGE_BOOT \<and> \<not> mi_aborted m \<and> mission_fresh m \<and> nand_empty n"
proof -
  define v where "v = plat_devinit_init (plat_post_init w)"
  define vm where "vm = mission_seq_init v"
  define vn where "vn = storage_nand_init (storage_ddr_init (photonic_sched_init vm))"
  obtain p where p: "plat_post_init w = w\<lparr>w_post := p\<rparr>" "w_post (plat_post_init w) = p" using plat_post_init_own by blast
  obtain t m where m: "vm = v\<lparr>w_time := t, w_mission := m\<rparr>" "w_mission vm = m"
    unfolding vm_def using mission_seq_init_own by blast
  obtain n where n: "vn = (storage_ddr_init (photonic_sched_init vm))\<lparr>w_nand := n\<rparr>" "w_nand vn = n"
    unfolding vn_def using storage_nand_init_own by blast
  have "post_ok p" "po_count p = 1" unfolding p(2) [symmetric]
    using assms by (simp_all add: plat_post_init_def plat_post_register_def post_upd_def post_ok_def PLAT_POST_MAX_def Let_def)
  moreover have "mi_stage m = STAGE_BOOT" "\<not> mi_aborted m" "mission_fresh m" unfolding m(2) [symmetric] vm_def
    by (simp_all add: mission_seq_init_def mission_fresh_def svc_time_now_ms_def Let_def)
  moreover have "nand_empty n" unfolding n(2) [symmetric] vn_def by (simp add: storage_nand_init_def nand_upd_def nand_empty_def)
  moreover have "vn = w\<lparr>w_post := p, w_devinit := w_devinit (plat_devinit_init w), w_time := t, w_mission := m,
        w_loop := w_loop (photonic_sched_init w), w_ddr := w_ddr (storage_ddr_init w), w_nand := n\<rparr>"
    unfolding n(1) m(1) v_def p(1)
    by (simp add: plat_devinit_init_def devinit_upd_def photonic_sched_init_def storage_ddr_init_def ddr_upd_def)
  ultimately show ?thesis unfolding vn_def vm_def v_def by blast
qed

lemma process_init:
  fixes w :: "'a hk_world_scheme"
  assumes "length (oq_slot (w_output w)) = COMM_OUTPUT_DEPTH" "length (hk_frame (w_hk w)) = 56" "length (hk_status (w_hk w)) = 20"
  shows "\<exists>h c cs s q. comm_process_init w = w\<lparr>w_hk := h, w_cmd := c, w_ccsds := cs, w_spw := s, w_output := q\<rparr> \<and>
    hk_ok h \<and> cmd_ok c \<and> output_ok q \<and> sp_state s = SPW_LINK_DOWN \<and> ccsds_ok cs \<and> \<not> sp_ops_set s"
proof -
  let ?s = "comm_spw_link_init (comm_ccsds_init (comm_cmd_init (comm_rs485_hk_init w)))"
  obtain s where s: "?s = (comm_ccsds_init (comm_cmd_init (comm_rs485_hk_init w)))\<lparr>w_spw := s\<rparr>" "w_spw ?s = s"
    using comm_spw_link_init_own by blast
  have "hk_ok (w_hk (comm_rs485_hk_init w))"
    using assms(2,3) by (simp add: comm_rs485_hk_init_def hk_upd_def hk_ok_def)
  moreover have "cmd_ok (w_cmd (comm_cmd_init w))" by (simp add: comm_cmd_init_def cmd_upd_def cmd_ok_def cmd_final_def)
  moreover have "output_ok (w_output (comm_output_init w))"
    using assms(1) by (rule output_init_ok)
  moreover have "\<not> sp_ops_set s" "sp_state s = SPW_LINK_DOWN" unfolding s(2) [symmetric]
    by (simp_all add: comm_spw_link_init_def spw_upd_def)
  moreover have "ccsds_ok (w_ccsds (comm_process_init w))"
    using ccsds_init_ok [of w] by (simp add: process_init_ccsds ccsds_ok_def)
  moreover have "comm_process_init w = w\<lparr>w_hk := w_hk (comm_rs485_hk_init w), w_cmd := w_cmd (comm_cmd_init w),
      w_ccsds := w_ccsds (comm_process_init w), w_spw := s, w_output := w_output (comm_output_init w)\<rparr>"
    unfolding process_init_ccsds unfolding comm_process_init_def Let_def s(1)
    by (simp add: comm_output_init_def output_upd_def comm_ccsds_register_def comm_ccsds_init_def ccsds_upd_def
        comm_cmd_init_def cmd_upd_def comm_rs485_hk_init_def hk_upd_def)
  ultimately show ?thesis by blast
qed

text \<open>The parts of the state no initialisation touches: the processor, the executive's ticks, the interrupt
  controller and its queues, the serial port, the memory, the timer, the safe outputs and the boot report.\<close>

definition init_frame where
  "init_frame w = (w_cpu w, w_exec w, (w_gic w, w_irq w), w_uart w, w_mem w, w_timer w, w_safe w, w_boot w)"

text \<open>After initialisation, each part of the state is what its own initialisation makes of it.\<close>

lemma subsystem_init_parts:
  assumes "arrays_sized w"
  shows "components_ok (subsystem_init E w) \<and> log_queue (w_log (subsystem_init E w)) = [] \<and>
    (\<forall>f. svc_fdir_occurrences f (subsystem_init E w) = 0) \<and>
    (\<forall>i. boot_clean i (w_fdir (subsystem_init E w))) \<and> fd_uplink_set (w_fdir (subsystem_init E w)) \<and>
    \<not> svc_config_locked (subsystem_init E w) \<and> svc_health_state (subsystem_init E w) = QIRAN_HEALTH_HEALTHY \<and>
    svc_health_count (subsystem_init E w) = 2 \<and> \<not> svc_watchdog_armed (subsystem_init E w) \<and>
    plat_post_count (subsystem_init E w) = 1 \<and> plat_devinit_count (subsystem_init E w) = 0 \<and>
    mission_stage_get (subsystem_init E w) = STAGE_BOOT \<and> \<not> mission_aborted (subsystem_init E w) \<and>
    comm_spw_link_state (subsystem_init E w) = SPW_LINK_DOWN \<and>
    plat_safe_outputs_registered (subsystem_init E w) = plat_safe_outputs_registered w \<and>
    (mission_fresh (w_mission (subsystem_init E w)) \<and> nand_empty (w_nand (subsystem_init E w)) \<and>
     data_product_computed (subsystem_init E w) = 0 \<and> data_product_inconsistent (subsystem_init E w) = 0 \<and>
     w_devinit (subsystem_init E w) = (w_devinit w)\<lparr>di_count := 0, di_failures := 0, di_first_failure := None\<rparr> \<and>
     sc_stat (w_sched (subsystem_init E w)) = (\<lambda>_. stat_zero) \<and> \<not> sp_ops_set (w_spw (subsystem_init E w)) \<and>
     init_frame (subsystem_init E w) = init_frame w)"
proof -
  note sized = assms [unfolded arrays_sized_def]
  define w1 where "w1 = snd (svc_watchdog_init (ma_health E) None (svc_health_init (svc_config_init (svc_fdir_init (svc_log_init w)))))"
  define w2 where "w2 = storage_nand_init (storage_ddr_init (photonic_sched_init (mission_seq_init (plat_devinit_init (plat_post_init w1)))))"
  define w3 where "w3 = comm_process_init (data_path_init (data_product_init w2))"
  obtain c h d where 1: "w1 = w\<lparr>w_log := w_log (svc_log_init w), w_fdir := w_fdir (svc_fdir_init w), w_config := c,
        w_health := h, w_watchdog := d\<rparr>" "config_ok c" "\<not> cf_locked c" "hl_state h = QIRAN_HEALTH_HEALTHY"
      "length (hl_monitor h) = 2" "\<not> wd_armed d"
    unfolding w1_def using services_init by blast
  have s1: "length (po_entry (w_post w1)) = 16" "length (po_result (w_post w1)) = 16" using sized by (simp_all add: 1(1))
  obtain t m n p where 2: "w2 = w1\<lparr>w_post := p, w_devinit := w_devinit (plat_devinit_init w1), w_time := t, w_mission := m,
        w_loop := w_loop (photonic_sched_init w1), w_ddr := w_ddr (storage_ddr_init w1), w_nand := n\<rparr>"
      "post_ok p" "po_count p = 1" "mi_stage m = STAGE_BOOT" "\<not> mi_aborted m" "mission_fresh m" "nand_empty n"
    unfolding w2_def using platform_init [OF s1] by blast
  let ?v = "data_path_init (data_product_init w2)"
  have s2: "length (oq_slot (w_output ?v)) = COMM_OUTPUT_DEPTH" "length (hk_frame (w_hk ?v)) = 56" "length (hk_status (w_hk ?v)) = 20"
    using sized by (simp_all add: 2(1) 1(1) data_path_init_def path_upd_def data_product_init_def product_upd_def)
  obtain k cm cs s q where 3: "w3 = ?v\<lparr>w_hk := k, w_cmd := cm, w_ccsds := cs, w_spw := s, w_output := q\<rparr>"
      "hk_ok k" "cmd_ok cm" "output_ok q" "sp_state s = SPW_LINK_DOWN" "ccsds_ok cs" "\<not> sp_ops_set s"
    unfolding w3_def using process_init [OF s2] by blast
  have u: "subsystem_init E w = exec_sched_init (exec_major_init (w3\<lparr>w_fdir := (w_fdir w3)\<lparr>fd_uplink := k_uplink, fd_uplink_set := True\<rparr>\<rparr>))"
    by (simp add: subsystem_init_def Let_def svc_fdir_set_uplink_def comm_rs485_hk_uplink_def k_uplink_def
        w1_def [symmetric] w2_def [symmetric] w3_def [symmetric])
  let ?u = "subsystem_init E w"
  have f: "w_log ?u = w_log (svc_log_init w)" "w_fdir ?u = (w_fdir (svc_fdir_init w))\<lparr>fd_uplink := k_uplink, fd_uplink_set := True\<rparr>"
    "w_config ?u = c" "w_health ?u = h" "w_watchdog ?u = d" "w_post ?u = p" "w_devinit ?u = w_devinit (plat_devinit_init w1)"
    "w_mission ?u = m" "w_ddr ?u = w_ddr (storage_ddr_init w1)" "w_loop ?u = w_loop (photonic_sched_init w1)"
    "w_path ?u = w_path (data_path_init w2)" "w_hk ?u = k" "w_cmd ?u = cm" "w_ccsds ?u = cs" "w_spw ?u = s" "w_output ?u = q"
    "w_safe ?u = w_safe w" "w_nand ?u = n"
    unfolding u by (simp_all add: exec_sched_init_def exec_major_init_def 3(1) 2(1) 1(1) data_path_init_def path_upd_def
      data_product_init_def product_upd_def)
  have "log_invar (w_log ?u)" "log_queue (w_log ?u) = []"
    using sized by (simp_all add: f svc_log_init_def log_invar_def log_queue_def ring_ok_def LOG_MASK_def cfg_consts mask_eq_exp_minus_1)
  moreover have "ddr_ok (w_ddr ?u)" "ddr_apart (w_ddr ?u)" unfolding f by (rule ddr_init_ok)+
  moreover have "loops_ok ?u" by (simp add: loops_ok_def f photonic_sched_init_def)
  moreover have "path_ok ?u" using sized by (simp add: path_ok_def path_ready_def f data_path_init_def path_upd_def 2(1) 1(1))
  moreover have "plat_devinit_count ?u = 0" by (simp add: plat_devinit_count_def f plat_devinit_init_def devinit_upd_def)
  moreover have "svc_health_count ?u = 2" using 1(5) by (simp add: svc_health_count_def f)
  moreover have "\<forall>fault. svc_fdir_occurrences fault ?u = 0" "\<forall>i. boot_clean i (w_fdir ?u)" "fd_uplink_set (w_fdir ?u)"
    by (simp_all add: f svc_fdir_init_def svc_fdir_occurrences_def fdir_unserviced_def boot_clean_def)
  moreover have "data_product_computed ?u = 0" "data_product_inconsistent ?u = 0"
    unfolding u by (simp_all add: data_product_computed_def data_product_inconsistent_def exec_sched_init_def exec_major_init_def
        3(1) data_path_init_def path_upd_def data_product_init_def product_upd_def)
  moreover have "w_devinit (subsystem_init E w) = (w_devinit w)\<lparr>di_count := 0, di_failures := 0, di_first_failure := None\<rparr>"
    by (simp add: f plat_devinit_init_def devinit_upd_def 1(1))
  moreover have "sc_stat (w_sched ?u) = (\<lambda>_. stat_zero)" unfolding u by (simp add: exec_sched_init_def)
  moreover have "init_frame ?u = init_frame w"
    unfolding u by (simp add: init_frame_def exec_sched_init_def exec_major_init_def 3(1) 2(1) 1(1) data_path_init_def path_upd_def
      data_product_init_def product_upd_def)
  ultimately show ?thesis
    using 1 2 3 unfolding components_ok_def svc_config_locked_def svc_health_state_def svc_watchdog_armed_def plat_post_count_def
      mission_stage_get_def mission_aborted_def comm_spw_link_state_def plat_safe_outputs_registered_def
    by (simp only: f simp_thms)
qed

text \<open>The device table as it is at power-up: of its size, no result marked as run.\<close>

definition devinit_fresh :: "devinit_state \<Rightarrow> bool" where
  "devinit_fresh s \<longleftrightarrow> length (di_entry s) = 32 \<and> length (di_result s) = 32 \<and> (\<forall>i < 32. \<not> dv_ran (di_result s ! i))"

text \<open>C16: From statically allocated arrays of their sizes, and a device table in which nothing ran yet,
  initialisation leaves the log, the configuration, the self tests, the device table, the control
  loops, the memory regions, the product store, the data path, the packet router, the command
  sequence, the outbound queue and the housekeeping link each in the invariant its own properties start
  from, and nothing yet decided: the log empty, no fault counted and the housekeeping link set as the
  observer's link, the configuration unlocked, the two monitors of the executive registered and the
  state healthy, the watchdog not armed, one self test and no device registered, the mission in its
  first stage with no attempt, no stage function and a payload that does not operate, the product store
  empty and not connected, no product counted, every task's statistics at zero, and the link down and
  not connected. What it does not own stays as it was: the processor, the executive's ticks, the
  interrupt controller and its queues, the serial port, the memory, the timer, the boot report, and
  every safe output registered before, with its place in the table.\<close>

theorem subsystem_init_ready:
  assumes "arrays_sized w" "devinit_fresh (w_devinit w)"
  shows "components_ok (subsystem_init E w) \<and> devinit_typed (w_devinit (subsystem_init E w)) \<and>
    nand_state_ok med ([], [], False) (subsystem_init E w) \<and> log_queue (w_log (subsystem_init E w)) = [] \<and>
    (\<forall>f. svc_fdir_occurrences f (subsystem_init E w) = 0) \<and>
    (\<forall>i. boot_clean i (w_fdir (subsystem_init E w))) \<and> fd_uplink_set (w_fdir (subsystem_init E w)) \<and>
    \<not> svc_config_locked (subsystem_init E w) \<and> svc_health_state (subsystem_init E w) = QIRAN_HEALTH_HEALTHY \<and>
    svc_health_count (subsystem_init E w) = 2 \<and> \<not> svc_watchdog_armed (subsystem_init E w) \<and>
    plat_post_count (subsystem_init E w) = 1 \<and> plat_devinit_count (subsystem_init E w) = 0 \<and>
    mission_stage_get (subsystem_init E w) = STAGE_BOOT \<and> \<not> mission_aborted (subsystem_init E w) \<and>
    mission_fresh (w_mission (subsystem_init E w)) \<and>
    comm_spw_link_state (subsystem_init E w) = SPW_LINK_DOWN \<and> \<not> sp_ops_set (w_spw (subsystem_init E w)) \<and>
    \<not> storage_nand_ready (subsystem_init E w) \<and> storage_nand_used (subsystem_init E w) = 0 \<and>
    data_product_computed (subsystem_init E w) = 0 \<and> data_product_inconsistent (subsystem_init E w) = 0 \<and>
    sc_stat (w_sched (subsystem_init E w)) = (\<lambda>_. stat_zero) \<and>
    (let u = subsystem_init E w in w_cpu u = w_cpu w \<and> w_exec u = w_exec w \<and> w_gic u = w_gic w \<and> w_irq u = w_irq w \<and>
       w_uart u = w_uart w \<and> w_mem u = w_mem w \<and> w_timer u = w_timer w \<and> w_boot u = w_boot w \<and> w_safe u = w_safe w)"
proof -
  note parts = subsystem_init_parts [OF assms(1), of E]
  define u where "u = subsystem_init E w"
  note p = parts [folded u_def]
  have "devinit_typed (w_devinit u)" using p assms(2) by (simp add: devinit_typed_def devinit_fresh_def)
  moreover have "nand_inv med [] 0 u"
    using p by (simp add: nand_inv_def nand_empty_def mem_bytes_def Let_def components_ok_def output_ok_def)
  then have "nand_state_ok med ([], [], False) u" by (rule nand_state_okI) (simp add: nand_handed_def)
  moreover have "\<not> storage_nand_ready u" "storage_nand_used u = 0"
    using p by (simp_all add: storage_nand_ready_def storage_nand_used_def nand_empty_def)
  moreover have "w_cpu u = w_cpu w" "w_exec u = w_exec w" "w_gic u = w_gic w" "w_irq u = w_irq w" "w_uart u = w_uart w"
    "w_mem u = w_mem w" "w_timer u = w_timer w" "w_boot u = w_boot w" "w_safe u = w_safe w"
    using p by (simp_all add: init_frame_def)
  ultimately show ?thesis using p unfolding u_def [symmetric] Let_def by (simp only: simp_thms)
qed

text \<open>Arrays of their sizes, whatever they hold, and a device table as at power-up.\<close>

definition arrays_setup :: "'a major_world_scheme \<Rightarrow> 'a major_world_scheme" where
  "arrays_setup w = w\<lparr>w_log := (w_log w)\<lparr>lg_buf := replicate 128 (lg_buf (w_log w) ! 0)\<rparr>,
     w_post := (w_post w)\<lparr>po_entry := replicate 16 (po_entry (w_post w) ! 0), po_result := replicate 16 (po_result (w_post w) ! 0)\<rparr>,
     w_output := (w_output w)\<lparr>oq_slot := replicate COMM_OUTPUT_DEPTH (oq_slot (w_output w) ! 0)\<rparr>,
     w_hk := (w_hk w)\<lparr>hk_frame := replicate 56 0, hk_status := replicate 20 0\<rparr>,
     w_path := (w_path w)\<lparr>pa_ready := replicate 7 (pa_ready (w_path w) ! 0)\<rparr>,
     w_devinit := (w_devinit w)\<lparr>di_entry := replicate 32 (di_entry (w_devinit w) ! 0),
       di_result := replicate 32 ((di_result (w_devinit w) ! 0)\<lparr>dv_ran := False\<rparr>)\<rparr>\<rparr>"

lemma arrays_setup_sized: "arrays_sized (arrays_setup w)"
  by (simp add: arrays_sized_def arrays_setup_def)

lemma arrays_setup_fresh: "devinit_fresh (w_devinit (arrays_setup w))"
  by (simp add: devinit_fresh_def arrays_setup_def)

theorem subsystem_init_ready_witness:
  "\<forall>E (w :: major_world). let u = subsystem_init E (arrays_setup w)
    in components_ok u \<and> devinit_typed (w_devinit u) \<and> svc_health_count u = 2 \<and> mission_stage_get u = STAGE_BOOT \<and>
      plat_post_count u = 1 \<and> w_safe u = w_safe w"
proof (intro allI)
  fix E :: "major_world main_env" and w :: major_world
  have "w_safe (arrays_setup w) = w_safe w" by (simp add: arrays_setup_def)
  then show "let u = subsystem_init E (arrays_setup w)
    in components_ok u \<and> devinit_typed (w_devinit u) \<and> svc_health_count u = 2 \<and> mission_stage_get u = STAGE_BOOT \<and>
      plat_post_count u = 1 \<and> w_safe u = w_safe w"
    using subsystem_init_ready [OF arrays_setup_sized arrays_setup_fresh, of E w undefined] by (simp add: Let_def)
qed

end
