(* ===== verification/Main_Cycle.thy ===== *)
theory Main_Cycle
  imports Main_Loop
begin

section \<open>What the first cycle decides, and what every cycle ends with\<close>

text \<open>
  Properties of the loop of \<^verbatim>\<open>src/main.c\<close> as a whole. What the program connects to itself, the
  housekeeping link as the observer's link of the fault service, is discharged here: of the functions
  from outside only what they must leave alone is assumed.
\<close>

subsection \<open>What a status frame leaves alone\<close>

text \<open>An observation that misses the clock, the fault service and the housekeeping link: sending a status
  keeps it if the transmitter does.\<close>

definition hk_blind :: "('a hk_world_scheme \<Rightarrow> 'o) \<Rightarrow> bool" where
  "hk_blind obs \<longleftrightarrow> (\<forall>w t. obs (w\<lparr>w_time := t\<rparr>) = obs w) \<and> (\<forall>w s. obs (w\<lparr>w_fdir := s\<rparr>) = obs w) \<and>
     (\<forall>w s. obs (w\<lparr>w_hk := s\<rparr>) = obs w)"

definition hk_tx_keeps :: "('a hk_world_scheme \<Rightarrow> 'o) \<Rightarrow> 'a hk_world_scheme hk_env \<Rightarrow> bool" where
  "hk_tx_keeps obs E \<longleftrightarrow> (\<forall>h c bs w. obs (snd (hke_tx E h c bs w)) = obs w)"

lemma hk_blind_upds:
  assumes "hk_blind obs"
  shows "obs (snd (svc_time_now_ms w)) = obs w" "obs (svc_fdir_report f d w) = obs w" "obs (hk_upd g w) = obs w"
  using assms by (simp_all add: hk_blind_def svc_time_now_ms_def svc_fdir_report_eq hk_upd_def Let_def)

lemma hk_send_keeps:
  assumes "hk_blind obs" "hk_tx_keeps obs E"
  shows "obs (snd (hk_send E data w)) = obs w"
proof (cases "hk_tx (w_hk w)")
  case None
  then show ?thesis by (simp add: hk_send_def hk_blind_upds [OF assms(1)])
next
  case (Some tx)
  obtain st v where t: "hke_tx E tx (hk_tx_ctx (w_hk w)) data w = (st, v)" by (rule prod.exhaust)
  have "obs (snd (hke_tx E tx (hk_tx_ctx (w_hk w)) data w)) = obs w" using assms(2) by (simp add: hk_tx_keeps_def)
  then show ?thesis using Some by (simp add: hk_send_def t hk_blind_upds [OF assms(1)])
qed

lemma status_build_keeps:
  assumes "hk_blind obs"
  shows "obs (snd (snd (snd (comm_rs485_status_build r buf len w)))) = obs w"
  using hk_blind_upds(1) [OF assms, of w]
  by (simp add: comm_rs485_status_build_def case_prod_beta Let_def split: option.split)

lemma status_send_keeps:
  assumes "hk_blind obs" "hk_tx_keeps obs E"
  shows "obs (snd (comm_rs485_status_send E r w)) = obs w"
proof -
  obtain st buf written u where b: "comm_rs485_status_build r (Some (hk_status (w_hk w))) COMM_HK_STATUS_BYTES w =
      (st, buf, written, u)" by (rule prod_cases4)
  have u: "obs u = obs w" using status_build_keeps [OF assms(1), of r "Some (hk_status (w_hk w))" COMM_HK_STATUS_BYTES w]
    by (simp add: b)
  define v where "v = hk_upd (\<lambda>s. s\<lparr>hk_status := the buf\<rparr>) u"
  have v: "obs v = obs w" by (simp add: v_def hk_blind_upds(3) [OF assms(1)] u)
  obtain st2 x where s: "hk_send E (take (unat (the written)) (hk_status (w_hk v))) v = (st2, x)" by (rule prod.exhaust)
  have "obs (snd (hk_send E (take (unat (the written)) (hk_status (w_hk v))) v)) = obs v" by (rule hk_send_keeps [OF assms])
  then have "obs x = obs w" by (simp add: s v)
  moreover have "comm_rs485_status_send E r w = (if st \<noteq> QIRAN_OK then (st, v)
      else (st2, if st2 = QIRAN_OK then hk_upd (\<lambda>s. s\<lparr>hk_status_frames := hk_status_frames s + 1\<rparr>) x else x))"
    unfolding comm_rs485_status_send_def b Let_def split v_def [symmetric] s by simp
  ultimately show ?thesis using v by (simp add: hk_blind_upds(3) [OF assms(1)])
qed

lemma hk_uplink_keeps:
  assumes "hk_blind obs" "hk_tx_keeps obs E"
  shows "obs (snd (fe_report_flag (hk_fdir_env E) h f v d w)) = obs w"
    "obs (snd (fe_request_power_reset (hk_fdir_env E) h f w)) = obs w"
  by (simp_all add: hk_fdir_env_def uplink_report_def uplink_power_reset_def status_send_keeps [OF assms])

subsection \<open>The first cycle\<close>

text \<open>What the functions from outside leave alone while the first cycle runs: the boot module's own state
  and the self tests, the counts of the boot faults, the configuration and the mission. The
  transmitter also leaves the fault service and the log alone.\<close>

definition main_view :: "'a major_world_scheme \<Rightarrow> config_state \<times> mission_state" where
  "main_view w = (w_config w, w_mission w)"

definition main_fns_keep :: "('a major_world_scheme \<Rightarrow> 'o) \<Rightarrow> 'a major_world_scheme main_env \<Rightarrow> bool" where
  "main_fns_keep obs E \<longleftrightarrow>
     (\<forall>h w. obs (snd (be_safe (ma_boot E) h w)) = obs w) \<and> (\<forall>h w. obs (snd (be_check (ma_boot E) h w)) = obs w) \<and>
     (\<forall>h w. obs (snd (be_init (ma_boot E) h w)) = obs w) \<and> (\<forall>h w. obs (snd (be_link (ma_boot E) h w)) = obs w) \<and>
     post_keeps obs (be_post (ma_boot E))"

definition main_env_ok :: "'a major_world_scheme main_env \<Rightarrow> bool" where
  "main_env_ok E \<longleftrightarrow> main_fns_keep boot_view E \<and> main_fns_keep w_post E \<and> main_fns_keep main_view E \<and>
     hk_tx_quiet (ma_hk E) \<and> hk_tx_keeps w_boot (ma_hk E) \<and> hk_tx_keeps w_post (ma_hk E) \<and> hk_tx_keeps main_view (ma_hk E)"

lemma main_blind:
  "hk_blind (w_boot :: 'a major_world_scheme \<Rightarrow> _)" "hk_blind (w_post :: 'a major_world_scheme \<Rightarrow> _)"
  "hk_blind (main_view :: 'a major_world_scheme \<Rightarrow> _)" "boot_blind (main_view :: 'a major_world_scheme \<Rightarrow> _)"
  by (simp_all add: hk_blind_def boot_blind_def main_view_def)

lemma main_boot_ok:
  assumes "main_env_ok E"
  shows "boot_env_ok (main_boot E)"
proof -
  note k = hk_uplink_keeps [OF main_blind(1)] hk_uplink_keeps [OF main_blind(2)]
  have "uplink_ok (hk_fdir_env (ma_hk E))" using assms by (simp add: main_env_ok_def hk_uplink_ok)
  then show ?thesis
    using assms by (simp add: boot_env_ok_def main_env_ok_def main_fns_keep_def main_boot_def main_fdir_def k)
qed

lemma main_boot_keeps:
  assumes "main_env_ok E"
  shows "boot_env_keeps main_view (main_boot E)"
  using assms by (simp add: boot_env_keeps_def main_env_ok_def main_fns_keep_def main_boot_def main_fdir_def
      hk_uplink_keeps [OF main_blind(3)])

text \<open>The trace of the boot result only prints.\<close>

lemma boot_trace_prints: "boot_trace st w = w\<lparr>w_major := w_major (boot_trace st w)\<rparr>"
  by (simp add: boot_trace_def xil_printf_def Let_def)

lemma boot_trace_fields:
  "main_view (boot_trace st w) = main_view w" "w_boot (boot_trace st w) = w_boot w"
  by (simp_all add: main_view_def boot_trace_def xil_printf_def Let_def)

text \<open>A resynchronisation discards what has accumulated and keeps what comes in while it runs.\<close>

lemma exec_ticks_in:
  "ex_isr_ticks (w_exec ((exec_on_minor_tick ^^ n) w)) = ex_isr_ticks (w_exec w) + of_nat n"
  "ex_consumed (w_exec ((exec_on_minor_tick ^^ n) w)) = ex_consumed (w_exec w)"
  "ex_overrun_lost (w_exec ((exec_on_minor_tick ^^ n) w)) = ex_overrun_lost (w_exec w)"
  by (induction n) (simp_all add: exec_tick_def Let_def)

lemma exec_ticks_only: "(exec_on_minor_tick ^^ n) w = w\<lparr>w_exec := w_exec ((exec_on_minor_tick ^^ n) w)\<rparr>"
proof (induction n)
  case (Suc n)
  define v where "v = (exec_on_minor_tick ^^ n) w"
  have "v = w\<lparr>w_exec := w_exec v\<rparr>" using Suc unfolding v_def .
  then have "exec_on_minor_tick v = exec_on_minor_tick (w\<lparr>w_exec := w_exec v\<rparr>)" by simp
  then have e: "exec_on_minor_tick v = w\<lparr>w_exec := exec_tick (w_exec v)\<rparr>" by (simp add: exec_on_minor_tick_def)
  have "(exec_on_minor_tick ^^ Suc n) w = exec_on_minor_tick v" by (simp add: v_def)
  then show ?case unfolding e by simp
qed simp

lemma exec_resync_only:
  "exec_resync mid w = w\<lparr>w_exec := w_exec (exec_resync mid w), w_cpu := w_cpu (exec_resync mid w)\<rparr>"
proof -
  define v where "v = (exec_on_minor_tick ^^ mid) (w\<lparr>w_exec := (advance (ex_isr_ticks (w_exec w) - ex_consumed (w_exec w)) (w_exec w))
    \<lparr>ex_consumed := ex_isr_ticks (w_exec w)\<rparr>\<rparr>)"
  have v: "v = w\<lparr>w_exec := w_exec v\<rparr>" unfolding v_def by (subst exec_ticks_only) simp
  have "exec_resync mid w = v\<lparr>w_exec := w_exec (exec_resync mid w), w_cpu := w_cpu (exec_resync mid w)\<rparr>"
    by (simp add: exec_resync_def v_def [symmetric] plat_cpu_cycle_count_def Let_def)
  then show ?thesis by (subst (asm) v) simp
qed

lemma exec_resync_executive:
  "\<not> exec_major_tick_due (exec_resync mid w)" "exec_pending (exec_resync mid w) = of_nat mid"
  "ex_overrun_lost (w_exec (exec_resync mid w)) = ex_overrun_lost (w_exec w)"
  by (simp_all add: exec_resync_def plat_cpu_cycle_count_def Let_def exec_major_tick_due_def exec_pending_def exec_ticks_in
      advance_def)

definition first_decision :: "'a major_world_scheme main_env \<Rightarrow> qiran_status \<Rightarrow> 'a major_world_scheme \<Rightarrow> 'a major_world_scheme" where
  "first_decision E st w =
    (if st = QIRAN_OK then report_ready E (svc_config_lock w) else mission_abort QIRAN_FAULT_DEVINIT w)"

lemma first_decision_views:
  assumes "main_env_ok E"
  shows "main_view (first_decision E QIRAN_OK w) = ((w_config w)\<lparr>cf_locked := True\<rparr>, w_mission w)"
    "w_boot (first_decision E st w) = w_boot w"
    "\<not> mission_aborted w \<Longrightarrow> st \<noteq> QIRAN_OK \<Longrightarrow> main_view (first_decision E st w) = (w_config w,
       (w_mission w)\<lparr>mi_aborted := True, mi_abort_cause := QIRAN_FAULT_DEVINIT, mi_payload := QIRAN_PAYLOAD_NON_OPERATIONAL\<rparr>)"
proof -
  have k: "hk_tx_keeps w_boot (ma_hk E)" "hk_tx_keeps main_view (ma_hk E)" using assms by (simp_all add: main_env_ok_def)
  show "main_view (first_decision E QIRAN_OK w) = ((w_config w)\<lparr>cf_locked := True\<rparr>, w_mission w)"
    by (simp add: first_decision_def report_ready_def status_send_keeps [OF main_blind(3) k(2)], simp add: main_view_def svc_config_lock_def)
  show "w_boot (first_decision E st w) = w_boot w"
    by (simp add: first_decision_def report_ready_def status_send_keeps [OF main_blind(1) k(1)] svc_config_lock_def
        mission_abort_def mission_upd_def svc_log_eqs Let_def)
  show "main_view (first_decision E st w) = (w_config w, (w_mission w)\<lparr>mi_aborted := True,
      mi_abort_cause := QIRAN_FAULT_DEVINIT, mi_payload := QIRAN_PAYLOAD_NON_OPERATIONAL\<rparr>)"
    if "\<not> mission_aborted w" "st \<noteq> QIRAN_OK"
    using that by (simp add: first_decision_def main_view_def mission_abort_def mission_upd_def mission_aborted_def svc_log_eqs Let_def)
qed

text \<open>Boot in the first cycle ends, and succeeds only with a safe output registered.\<close>

lemma first_boot_runs:
  fixes w :: "'a major_world_scheme"
  assumes "main_env_ok E" "arrays_sized w"
  obtains ok b where "boot_and_init (main_boot E) (subsystem_init E w) = Some (if ok then QIRAN_OK else QIRAN_ERR_HARDWARE, b)"
    "br_outcome (plat_boot_report b) = (if ok then BOOT_OUTCOME_SUCCESS else BOOT_OUTCOME_TERMINAL)"
    "sf_count (w_safe w) = 0 \<longrightarrow> \<not> ok"
proof -
  define s where "s = subsystem_init E w"
  have s: "post_ok (w_post s)" "\<forall>i \<in> set boot_steps. boot_clean i (w_fdir s)" "sf_count (w_safe s) = sf_count (w_safe w)"
    using subsystem_init_parts [OF assms(2), of E, folded s_def] by (simp_all add: components_ok_def plat_safe_outputs_registered_def)
  obtain ok v where r: "run_steps (main_boot E) boot_steps (report_upd report_reset (snd (svc_time_now_ms s))) = Some (ok, v)"
    by (rule boot_runs [OF main_boot_ok [OF assms(1)] s(1,2)])
  have "sf_count (w_safe w) = 0 \<longrightarrow> \<not> ok"
    using no_safe_outputs [of "report_upd report_reset (snd (svc_time_now_ms s))" "main_boot E"] s(3) r
    by (auto simp: report_upd_def svc_time_now_ms_def Let_def)
  then show ?thesis using boot_outcomes [OF r] that [folded s_def] by blast
qed

text \<open>C2: Whatever the devices do, the first cycle ends and decides. Either every step of boot passed: then
  the configuration is locked and the mission goes on from its first stage; or boot is terminal: then
  the configuration stays open to change, and the mission is aborted for the device initialisation
  fault, with the payload reported as not operational. With no safe output registered it is always
  the second. The ticks that went by are not left to be charged as an overrun: only those taken
  during the resynchronisation are pending, and no major cycle is due.\<close>

theorem first_cycle_decides:
  fixes w :: "'a major_world_scheme"
  assumes "main_env_ok E" "arrays_sized w"
  shows "\<exists>u. first_cycle E mid w = Some u \<and> mission_stage_get u = STAGE_BOOT \<and>
    exec_pending u = of_nat mid \<and> \<not> exec_major_tick_due u \<and>
    (if br_outcome (plat_boot_report u) = BOOT_OUTCOME_SUCCESS
     then svc_config_locked u \<and> \<not> mission_aborted u
     else br_outcome (plat_boot_report u) = BOOT_OUTCOME_TERMINAL \<and> \<not> svc_config_locked u \<and> mission_aborted u \<and>
       mission_abort_cause u = QIRAN_FAULT_DEVINIT \<and> mission_payload_status u = QIRAN_PAYLOAD_NON_OPERATIONAL) \<and>
    (plat_safe_outputs_registered w = 0 \<longrightarrow> br_outcome (plat_boot_report u) = BOOT_OUTCOME_TERMINAL)"
proof -
  define s where "s = subsystem_init E w"
  note parts = subsystem_init_parts [OF assms(2), of E, folded s_def]
  have s: "\<not> cf_locked (w_config s)" "mi_stage (w_mission s) = STAGE_BOOT" "\<not> mi_aborted (w_mission s)"
    using parts by (simp_all add: svc_config_locked_def mission_stage_get_def mission_aborted_def)
  obtain ok b where b: "boot_and_init (main_boot E) s = Some (if ok then QIRAN_OK else QIRAN_ERR_HARDWARE, b)"
      "br_outcome (plat_boot_report b) = (if ok then BOOT_OUTCOME_SUCCESS else BOOT_OUTCOME_TERMINAL)"
    and none: "sf_count (w_safe w) = 0 \<longrightarrow> \<not> ok"
    unfolding s_def by (rule first_boot_runs [OF assms])
  have bv: "main_view b = main_view s" by (rule boot_keeps [OF main_blind(4) main_boot_keeps [OF assms(1)] b(1)])
  define t where "t = boot_trace (if ok then QIRAN_OK else QIRAN_ERR_HARDWARE) b"
  have t: "w_config t = w_config s" "w_mission t = w_mission s" "w_boot t = w_boot b"
    using boot_trace_fields [of "if ok then QIRAN_OK else QIRAN_ERR_HARDWARE" b] bv
    by (simp_all add: t_def [symmetric] main_view_def)
  define d where "d = first_decision E (if ok then QIRAN_OK else QIRAN_ERR_HARDWARE) t"
  have fc: "first_cycle E mid w = Some (exec_resync mid d)"
    by (simp add: first_cycle_def s_def [symmetric] b(1) t_def [symmetric] first_decision_def [symmetric] d_def [symmetric] Let_def)
  have e: "w_config (exec_resync mid d) = w_config d" "w_mission (exec_resync mid d) = w_mission d" "w_boot (exec_resync mid d) = w_boot d"
    by (subst exec_resync_only, simp)+
  have db: "w_boot d = w_boot t" unfolding d_def by (rule first_decision_views(2) [OF assms(1)])
  have out: "br_outcome (plat_boot_report (exec_resync mid d)) = (if ok then BOOT_OUTCOME_SUCCESS else BOOT_OUTCOME_TERMINAL)"
    using b(2) by (simp add: plat_boot_report_def e(3) db t(3))
  have "main_view d = (if ok then ((w_config s)\<lparr>cf_locked := True\<rparr>, w_mission s) else (w_config s,
      (w_mission s)\<lparr>mi_aborted := True, mi_abort_cause := QIRAN_FAULT_DEVINIT, mi_payload := QIRAN_PAYLOAD_NON_OPERATIONAL\<rparr>))"
    using first_decision_views(1,3) [OF assms(1), of t] s(3) t by (simp add: d_def mission_aborted_def)
  then show ?thesis
    using s none by (cases ok) (simp_all add: fc out exec_resync_executive main_view_def mission_stage_get_def svc_config_locked_def
      mission_aborted_def mission_abort_cause_def mission_payload_status_def e plat_safe_outputs_registered_def)
qed

text \<open>Functions from outside that do nothing, and a platform check that never passes.\<close>

definition main_env0 :: "'a major_world_scheme main_env" where
  "main_env0 = \<lparr>ma_hk = \<lparr>hke_sample = (\<lambda>_ _ s w. (QIRAN_OK, s, w)), hke_tx = (\<lambda>_ _ _ w. (QIRAN_OK, w))\<rparr>,
     ma_cmd = \<lparr>ke_handler = (\<lambda>_ _ _ w. (QIRAN_OK, w)), ke_tx = (\<lambda>_ _ _ w. (QIRAN_OK, w))\<rparr>,
     ma_spw = \<lparr>se_start = (\<lambda>_ _ w. (QIRAN_OK, w)), se_status = (\<lambda>_ _ up e w. (QIRAN_OK, up, e, w)),
       se_send = (\<lambda>_ _ _ w. (QIRAN_OK, w)), se_receive = (\<lambda>_ _ bs _ w. (0, bs, w)),
       se_consume = (\<lambda>_ _ _ _ w. (QIRAN_OK, w))\<rparr>,
     ma_bytes = (\<lambda>_ _. []), ma_step = (\<lambda>_ _ m w. (m, w)), ma_loop = (\<lambda>_ _ w. (QIRAN_OK, w)),
     ma_nand = \<lparr>ne_erase = (\<lambda>_ _ _ _ w. (QIRAN_OK, w)), ne_write = (\<lambda>_ _ _ _ w. (QIRAN_OK, w)),
       ne_read = (\<lambda>_ _ _ _ w. (QIRAN_OK, [], w))\<rparr>,
     ma_health = \<lparr>he_config = \<lparr>ce_read = (\<lambda>_ _ _ w. (QIRAN_ERR_HARDWARE, [], w)),
         ce_write = (\<lambda>_ _ _ w. (QIRAN_ERR_HARDWARE, w))\<rparr>,
       he_check = (\<lambda>_ _ w. (QIRAN_OK, 0, w)), he_arm = (\<lambda>_ _ w. (QIRAN_OK, w)), he_kick = (\<lambda>_ w. w)\<rparr>,
     ma_boot = \<lparr>be_safe = (\<lambda>_ w. (QIRAN_OK, w)), be_check = (\<lambda>_ w. (QIRAN_ERR_TIMEOUT, w)),
       be_post = \<lparr>pe_mem = \<lparr>me_write = (\<lambda>_ _ _ w. w), me_read = (\<lambda>_ _ w. (0, w)), me_flush = (\<lambda>_ _ w. w),
         me_invalidate = (\<lambda>_ _ w. w)\<rparr>, pe_test = (\<lambda>_ w. (QIRAN_OK, 0, w))\<rparr>,
       be_init = (\<lambda>_ w. (QIRAN_OK, w)), be_link = (\<lambda>_ w. (QIRAN_OK, w)),
       be_fdir = \<lparr>fe_report_flag = (\<lambda>_ _ _ _ w. (QIRAN_OK, w)), fe_request_power_reset = (\<lambda>_ _ w. (QIRAN_OK, w))\<rparr>\<rparr>\<rparr>"

lemma main_env0_ok: "main_env_ok main_env0"
  by (simp add: main_env_ok_def main_fns_keep_def main_env0_def post_keeps_def mem_keeps_def hk_tx_quiet_def hk_tx_keeps_def)

theorem first_cycle_decides_witness:
  "\<forall>w :: major_world. \<exists>u. first_cycle main_env0 3 (arrays_setup w) = Some u \<and>
    mission_stage_get u = STAGE_BOOT \<and> exec_pending u = 3 \<and> \<not> exec_major_tick_due u"
proof
  fix w :: major_world
  from first_cycle_decides [OF main_env0_ok arrays_setup_sized, of 3 w]
  show "\<exists>u. first_cycle main_env0 3 (arrays_setup w) = Some u \<and>
    mission_stage_get u = STAGE_BOOT \<and> exec_pending u = 3 \<and> \<not> exec_major_tick_due u"
    by (auto simp: exec_pending_def)
qed

subsection \<open>The end of every cycle\<close>

definition hk_sample_keeps :: "('a hk_world_scheme \<Rightarrow> 'o) \<Rightarrow> 'a hk_world_scheme hk_env \<Rightarrow> bool" where
  "hk_sample_keeps obs E \<longleftrightarrow> (\<forall>h c s w. obs (snd (snd (hke_sample E h c s w))) = obs w)"

lemma take_sample_keeps:
  assumes "hk_blind obs" "hk_sample_keeps obs E"
  shows "obs (snd (hk_take_sample E w)) = obs w"
proof (cases "hk_sample (w_hk w)")
  case None
  then show ?thesis by (simp add: hk_take_sample_def hk_blind_upds [OF assms(1)])
next
  case (Some fn)
  obtain st sm v where t: "hke_sample E fn (hk_sample_ctx (w_hk w)) zero_sample w = (st, sm, v)" by (rule prod_cases3)
  have "obs (snd (snd (hke_sample E fn (hk_sample_ctx (w_hk w)) zero_sample w))) = obs w"
    using assms(2) by (simp add: hk_sample_keeps_def)
  then show ?thesis using Some by (simp add: hk_take_sample_def t hk_blind_upds [OF assms(1)])
qed

lemma hk_build_keeps:
  assumes "hk_blind obs" "hk_sample_keeps obs E"
  shows "obs (snd (snd (snd (comm_rs485_hk_build E buf len w)))) = obs w"
proof (cases buf)
  case (Some bs)
  have "obs (snd (svc_time_now_ms (snd (svc_time_now_ms v)))) = obs v" for v
    by (simp add: hk_blind_upds(1) [OF assms(1)])
  then show ?thesis
    using Some take_sample_keeps [OF assms, of w] by (simp add: comm_rs485_hk_build_def case_prod_beta Let_def)
qed (simp add: comm_rs485_hk_build_def)

lemma hk_stage_keeps:
  assumes "hk_blind obs" "hk_sample_keeps obs E"
  shows "obs (comm_rs485_hk_stage E w) = obs w"
proof -
  note k = hk_blind_upds [OF assms(1)]
  obtain now w1 where n: "svc_time_now_ms w = (now, w1)" by (rule prod.exhaust)
  have w1: "obs w1 = obs w" using k(1) [of w] by (simp add: n)
  define v where "v = hk_upd (\<lambda>s. s\<lparr>hk_last_attempt_ms := now, hk_attempted := True\<rparr>) w1"
  have v: "obs v = obs w" by (simp add: v_def k w1)
  obtain st frame written x where b: "comm_rs485_hk_build E (Some (hk_frame (w_hk v))) COMM_HK_FRAME_BYTES v = (st, frame, written, x)"
    by (rule prod_cases4)
  have "obs x = obs w"
    using hk_build_keeps [OF assms, of "Some (hk_frame (w_hk v))" COMM_HK_FRAME_BYTES v] by (simp add: b v)
  then show ?thesis
    unfolding comm_rs485_hk_stage_def n Let_def split v_def [symmetric] b by (simp add: k w1)
qed

text \<open>What the verdict and the watchdog are made of.\<close>

definition health_view :: "'a health_world_scheme \<Rightarrow> health_state \<times> watchdog_state" where
  "health_view w = (w_health w, w_watchdog w)"

lemma health_view_blind: "hk_blind (health_view :: 'a hk_world_scheme \<Rightarrow> _)"
  by (simp add: hk_blind_def health_view_def)

lemma task_marks_keep:
  "health_view (exec_task_enter i w) = health_view w" "health_view (exec_task_leave i w) = health_view w"
  by (simp_all add: health_view_def exec_task_enter_def exec_task_leave_def plat_cpu_cycle_count_def Let_def)

lemma major_cycle_keeps: "health_view (major_cycle_tasks w) = health_view w"
proof -
  have "\<exists>m t. trace w = w\<lparr>w_time := t, w_major := m\<rparr>" using trace_traced [of w] unfolding traced_def by blast
  then show ?thesis by (auto simp: major_cycle_tasks_def health_view_def)
qed

lemma consolidated_state:
  "svc_health_state (health_consolidate w) =
    (if list_ex contributing (hl_monitor (w_health (health_consolidate w))) then QIRAN_HEALTH_FAILED else QIRAN_HEALTH_HEALTHY)"
  by (simp add: svc_health_state_def health_consolidate_def Let_def svc_log_eqs)

lemma contributing_ex:
  "list_ex contributing ms \<longleftrightarrow> (\<exists>m \<in> set ms. mo_gating m \<and> mo_tolerance m < mo_consecutive m)"
  by (auto simp: list_ex_iff contributing_def)

end
