(* ===== verification/Main_Run.thy ===== *)
theory Main_Run
  imports Main_Cycle
begin

section \<open>The loop never stops\<close>

text \<open>
  That every cycle of \<^verbatim>\<open>src/main.c\<close> comes to its end. Three of its loops are not bounded by the code
  alone: the wait for a tick, the reads of the serial data link, which end because what the link holds
  is finite and each full read uses some of it up, and the reads of the receive ring, which end because
  the ring is finite and well formed. The ring, and the output queue and the command sequence that
  share it, is what every task has to keep.
\<close>

definition loop_view :: "'a output_world_scheme \<Rightarrow> cmd_state \<times> uart_state \<times> output_state" where
  "loop_view w = (w_cmd w, w_uart w, w_output w)"

definition loop_ready :: "'a output_world_scheme \<Rightarrow> bool" where
  "loop_ready w \<longleftrightarrow> cmd_ready w \<and> output_ok (w_output w)"

lemma ready_view: "loop_view v = loop_view w \<Longrightarrow> loop_ready w \<Longrightarrow> loop_ready v"
  by (simp add: loop_view_def loop_ready_def cmd_ready_def)

lemma loop_view_upds [simp]:
  "loop_view (w\<lparr>w_time := t\<rparr>) = loop_view w" "loop_view (w\<lparr>w_fdir := fd\<rparr>) = loop_view w"
  "loop_view (w\<lparr>w_log := l\<rparr>) = loop_view w" "loop_view (w\<lparr>w_irq := q\<rparr>) = loop_view w"
  "loop_view (w\<lparr>w_cpu := c\<rparr>) = loop_view w" "loop_view (w\<lparr>w_exec := e\<rparr>) = loop_view w"
  "loop_view (w\<lparr>w_sched := s\<rparr>) = loop_view w" "loop_view (w\<lparr>w_health := h\<rparr>) = loop_view w"
  "loop_view (w\<lparr>w_watchdog := d\<rparr>) = loop_view w" "loop_view (w\<lparr>w_config := cf\<rparr>) = loop_view w"
  "loop_view (w\<lparr>w_mission := m\<rparr>) = loop_view w" "loop_view (w\<lparr>w_loop := pl\<rparr>) = loop_view w"
  "loop_view (w\<lparr>w_spw := sp\<rparr>) = loop_view w" "loop_view (w\<lparr>w_ccsds := cc\<rparr>) = loop_view w"
  by (simp_all add: loop_view_def)

lemma loop_view_services [simp]:
  "loop_view (svc_log_event code d w) = loop_view w" "loop_view (svc_log_fault f v d w) = loop_view w"
  "loop_view (svc_fdir_report f d w) = loop_view w" "loop_view (svc_fdir_clear f w) = loop_view w"
  "loop_view (snd (svc_time_now_ms w)) = loop_view w" "loop_view (snd (timeout_arm tt dd w)) = loop_view w"
  "loop_view (snd (timeout_expired tt w)) = loop_view w" "loop_view (snd (plat_cpu_cycle_count w)) = loop_view w"
  "loop_view (spw_upd g w) = loop_view w" "loop_view (ccsds_upd h w) = loop_view w"
  "loop_view (mission_upd mf w) = loop_view w" "loop_view (loop_upd i lf w) = loop_view w"
  by (simp_all add: svc_log_eqs svc_fdir_report_eq svc_fdir_clear_eq svc_time_now_ms_def timeout_arm_def timeout_expired_def
      plat_cpu_cycle_count_def spw_upd_def ccsds_upd_def mission_upd_def loop_upd_def Let_def)

text \<open>On a world with more components, those do not count either.\<close>

lemma loop_view_more [simp]:
  fixes w :: "'a major_world_scheme"
  shows "loop_view (w\<lparr>w_hk := hk\<rparr>) = loop_view w" "loop_view (w\<lparr>w_mem := mm\<rparr>) = loop_view w" "loop_view (w\<lparr>w_ddr := dd\<rparr>) = loop_view w"
  "loop_view (w\<lparr>w_nand := nn\<rparr>) = loop_view w" "loop_view (w\<lparr>w_path := pp\<rparr>) = loop_view w" "loop_view (w\<lparr>w_major := mj\<rparr>) = loop_view w"
  "loop_view (w\<lparr>w_boot := bb\<rparr>) = loop_view w" "loop_view (w\<lparr>w_safe := sf\<rparr>) = loop_view w" "loop_view (w\<lparr>w_devinit := di\<rparr>) = loop_view w"
  "loop_view (w\<lparr>w_post := po\<rparr>) = loop_view w"
  by (simp_all add: loop_view_def)

subsection \<open>Interrupts\<close>

lemma irq_service_ready:
  assumes "\<And>e w. loop_ready w \<Longrightarrow> loop_ready (f e w)" "loop_ready w"
  shows "loop_ready (irq_service irq f w)"
proof -
  have take: "loop_view (snd (plat_irq_take irq w)) = loop_view w" for w :: "'a output_world_scheme"
    by (auto simp: plat_irq_take_def split: option.splits)
  have "loop_ready w \<Longrightarrow> loop_ready (irq_drain n irq f w)" for n and w :: "'a output_world_scheme"
  proof (induction n arbitrary: w)
    case (Suc n)
    obtain ev u where u: "plat_irq_take irq w = (ev, u)" by (rule prod.exhaust)
    then have "loop_ready u" using ready_view [OF take Suc.prems] by simp
    then show ?case using Suc.IH assms(1) u by (cases ev) simp_all
  qed simp
  from this [OF assms(2)] show ?thesis unfolding irq_service_def .
qed

lemma complete_view: "loop_view (Data_Path.complete d w) = loop_view w" for w :: "'a path_world_scheme"
proof -
  have h: "loop_view (snd (storage_ddr_handoff r f t v)) = loop_view v" for r f t and v :: "'a path_world_scheme"
    by (simp add: storage_ddr_handoff_def violation_def ddr_upd_def loop_view_def svc_fdir_report_eq Let_def)
  obtain st v where v: "storage_ddr_handoff (ddr_regions ! unat (d mod 7)) DDR_OWNER_PL_DMA DDR_OWNER_PS_PROCESSING w = (st, v)"
    by (rule prod.exhaust)
  have "loop_view v = loop_view w" using h [of _ _ _ w] v by (metis snd_conv)
  moreover have "loop_view (path_upd f x) = loop_view x" for f and x :: "'a path_world_scheme"
    by (simp add: path_upd_def loop_view_def)
  ultimately show ?thesis by (simp add: Data_Path.complete_def v Let_def)
qed

lemma service_interrupts_ready:
  assumes "loop_ready w"
  shows "loop_ready (service_interrupts w)"
proof -
  have 1: "loop_ready (svc_fdir_service_interrupts w)"
    unfolding svc_fdir_service_interrupts_def Let_def
    by (intro irq_service_ready assms) (simp_all add: ready_view [OF loop_view_services(3)])
  have spw: "loop_view (spw_link_event e v) = loop_view v" for e and v :: "'a major_world_scheme"
    by (simp add: spw_link_event_def)
  have 2: "loop_ready (comm_spw_link_service_interrupts v)" if "loop_ready v" for v :: "'a major_world_scheme"
    unfolding comm_spw_link_service_interrupts_def
    by (cases "sp_ops_set (w_spw v)") (simp_all add: that irq_service_ready ready_view [OF spw])
  have 3: "loop_ready (data_path_service_interrupts v)" if "loop_ready v" for v :: "'a major_world_scheme"
    unfolding data_path_service_interrupts_def
    by (rule irq_service_ready) (use that in \<open>simp_all add: path_event_def ready_view [OF complete_view]\<close>)
  have gap: "loop_ready (cmd_gap_event e v)" if "loop_ready v" for e and v :: "'a major_world_scheme"
    using that gap_event_keeps [of e v]
    by (simp add: loop_ready_def cmd_ready_def) (simp add: cmd_gap_event_def cmd_upd_def)
  have 4: "loop_ready (comm_cmd_service_interrupts v)" if "loop_ready v" for v :: "'a major_world_scheme"
    unfolding comm_cmd_service_interrupts_def by (rule irq_service_ready) (use that gap in simp_all)
  show ?thesis unfolding service_interrupts_def Let_def by (intro 4 3 2 1)
qed

subsection \<open>The monitors\<close>

lemma take_params_view: "loop_view (snd (fold (take_param im) is cw)) = loop_view (snd cw)"
  for cw :: "u32 \<times> 'a output_world_scheme"
proof (induction "is" arbitrary: cw)
  case (Cons i js)
  obtain c w where cw: "cw = (c, w)" by (rule prod.exhaust)
  have "loop_view (snd (take_param im i (c, w))) = loop_view w" by (simp add: take_param_def Let_def)
  then show ?case using Cons.IH [of "take_param im i cw"] by (simp add: cw)
qed simp

lemma verify_view:
  fixes E :: "'a output_world_scheme config_env"
  assumes "\<And>h off n w. loop_view (snd (snd (ce_read E h off n w))) = loop_view w"
  shows "loop_view (snd (svc_config_verify E w)) = loop_view w"
proof -
  have "loop_view (snd (read_params E v)) = loop_view v" for v
  proof -
    obtain st bs w1 where r: "ce_read E (the (cs_read (cf_storage (w_config v)))) SVC_CONFIG_OFFSET_PARAMS sizeof_image v =
        (st, bs, w1)" by (rule prod_cases3)
    then have "loop_view w1 = loop_view v"
      using assms [of "the (cs_read (cf_storage (w_config v)))" SVC_CONFIG_OFFSET_PARAMS sizeof_image v] by simp
    then show ?thesis using take_params_view [where cw = "(0, w1)"] by (simp add: read_params_def r Let_def case_prod_beta)
  qed
  then show ?thesis by (simp add: svc_config_verify_def Let_def case_prod_beta)
qed

definition checks_keep :: "'a output_world_scheme health_env \<Rightarrow> bool" where
  "checks_keep E \<longleftrightarrow> (\<forall>h c w. loop_ready w \<longrightarrow> loop_ready (snd (snd (he_check E h c w)))) \<and>
     (\<forall>h off n w. loop_view (snd (snd (ce_read (he_config E) h off n w))) = loop_view w) \<and>
     (\<forall>h w. loop_view (he_kick E h w) = loop_view w)"

lemma health_check_ready:
  assumes "checks_keep E" "loop_ready w"
  shows "loop_ready (health_check E w)"
proof -
  have mu: "loop_view (monitor_upd i f v) = loop_view v" for i f and v :: "'a output_world_scheme"
    by (simp add: monitor_upd_def)
  have ce: "loop_view (snd (svc_config_verify (he_config E) v)) = loop_view v" for v
    by (rule verify_view) (use assms(1) in \<open>simp add: checks_keep_def\<close>)
  have run: "loop_ready (snd (snd (health_run_check E m v)))" if "loop_ready v" for m v
  proof (cases "mo_check m")
    case Check_exec_timing
    have "loop_view (snd (snd (check_exec_timing v))) = loop_view v" by (simp add: check_exec_timing_def Let_def)
    from ready_view [OF this that] show ?thesis by (simp add: health_run_check_def Check_exec_timing)
  next
    case Check_config_integrity
    from ready_view [OF ce that] show ?thesis
      by (simp add: health_run_check_def Check_config_integrity check_config_integrity_def case_prod_beta Let_def)
  next
    case (Ext_check h)
    then show ?thesis using assms(1) that by (simp add: health_run_check_def checks_keep_def)
  qed
  have one: "loop_ready (health_check_one E i v)" if v: "loop_ready v" for i v
  proof -
    define v1 where "v1 = monitor_upd i (\<lambda>m. m\<lparr>mo_countdown := mo_period m\<rparr>) v"
    obtain st vl v2 where r: "health_run_check E (hl_monitor (w_health v1) ! i) v1 = (st, vl, v2)" by (rule prod_cases3)
    have "loop_ready v1" unfolding v1_def by (rule ready_view [OF mu v])
    from run [OF this, of "hl_monitor (w_health v1) ! i"] have v2: "loop_ready v2" by (simp add: r)
    define v3 where "v3 = monitor_upd i (monitor_ran st vl) v2"
    have v3: "loop_ready v3" unfolding v3_def by (rule ready_view [OF mu v2])
    show ?thesis
      unfolding health_check_one_def Let_def v1_def [symmetric] r split v3_def [symmetric]
      using v v3 ready_view [OF mu v] ready_view [OF loop_view_services(3) v3] by simp
  qed
  have "loop_ready v \<Longrightarrow> loop_ready (fold (health_check_one E) is v)" for "is" v
    by (induction "is" arbitrary: v) (simp_all add: one)
  then show ?thesis using assms(2) by (simp add: health_check_def)
qed

subsection \<open>The serial data link and the output queue\<close>

text \<open>What the functions of the link and of the commands leave alone. The other consumers of packets need
  only keep what the loop relies on.\<close>

definition link_fns_keep :: "'a output_world_scheme spw_env \<Rightarrow> bool" where
  "link_fns_keep E \<longleftrightarrow>
    (\<forall>h c w. loop_view (snd (se_start E h c w)) = loop_view w) \<and>
    (\<forall>h c r x w. loop_view (snd (snd (snd (se_status E h c r x w)))) = loop_view w) \<and>
    (\<forall>h c bs w. loop_view (snd (se_send E h c bs w)) = loop_view w \<and> w_spw (snd (se_send E h c bs w)) = w_spw w) \<and>
    (\<forall>h c bs n w. loop_view (snd (snd (se_receive E h c bs n w))) = loop_view w) \<and>
    (\<forall>h c hdr app w. loop_ready w \<longrightarrow> loop_ready (snd (se_consume E h c hdr app w)))"

lemma receive_ready:
  assumes "\<And>h c hdr app w. loop_ready w \<Longrightarrow> loop_ready (snd (consume h c hdr app w))" "loop_ready w"
  shows "loop_ready (snd (comm_ccsds_receive consume p n w))"
proof -
  have g: "loop_view (ccsds_gap_check cls k v) = loop_view v" for cls k and v :: "'a output_world_scheme"
    by (simp add: ccsds_gap_check_def Let_def)
  have f: "loop_ready (snd (ccsds_refuse f d st w))" for f d st
    by (rule ready_view [OF _ assms(2)]) (simp add: ccsds_refuse_def Let_def)
  have u: "loop_ready (ccsds_upd h (ccsds_gap_check cls k w))" "loop_ready (ccsds_upd e (ccsds_upd h (ccsds_gap_check cls k w)))" for e h cls k
    by (rule ready_view [OF _ assms(2)], simp add: g)+
  show ?thesis
    unfolding comm_ccsds_receive_def Let_def case_prod_beta
    using assms(2) f u assms(1) by (simp split: option.split)
qed

lemma deliver_ready:
  assumes "link_fns_keep E"
  shows "loop_ready w \<Longrightarrow> deliver_received n E w = Some v \<Longrightarrow> loop_ready v"
proof (induction n arbitrary: w)
  case (Suc n)
  obtain k rx w1 where r: "se_receive E (the (so_receive (sp_ops (w_spw w)))) (so_ctx (sp_ops (w_spw w))) (sp_rx (w_spw w)) SPW_RX_BYTES w =
      (k, rx, w1)" by (rule prod_cases3)
  have "loop_view (snd (snd (se_receive E (the (so_receive (sp_ops (w_spw w)))) (so_ctx (sp_ops (w_spw w))) (sp_rx (w_spw w)) SPW_RX_BYTES w)))
      = loop_view w" using assms by (simp add: link_fns_keep_def)
  then have w1: "loop_ready w1" using ready_view Suc.prems(1) by (simp add: r)
  define w2 where "w2 = spw_upd (\<lambda>s. s\<lparr>sp_rx := rx\<rparr>) w1"
  define w3 where "w3 = (if k \<noteq> 0 then snd (comm_ccsds_receive (se_consume E) (Some (sp_rx (w_spw w2))) k
      (spw_upd (\<lambda>s. s\<lparr>sp_received := sp_received s + 1\<rparr>) w2)) else w2)"
  have u: "loop_ready (spw_upd f x)" if "loop_ready x" for f and x :: "'a output_world_scheme"
    by (rule ready_view [OF loop_view_services(9) that])
  have "loop_ready (snd (comm_ccsds_receive (se_consume E) p m x))" if "loop_ready x" for p m x
    by (rule receive_ready) (use assms that in \<open>simp_all add: link_fns_keep_def\<close>)
  then have "loop_ready w3" unfolding w3_def w2_def using w1 u by simp
  moreover have "(if k = SPW_RX_BYTES then deliver_received n E w3 else Some w3) = Some v"
    using Suc.prems(2) unfolding deliver_received.simps Let_def r split w2_def [symmetric] w3_def [symmetric] .
  ultimately show ?case using Suc.IH by (cases "k = SPW_RX_BYTES") simp_all
qed simp

lemma spw_query_view:
  assumes "link_fns_keep E"
  shows "loop_view (snd (snd (spw_query E w))) = loop_view w"
proof -
  obtain st r x v where q: "se_status E (the (so_status (sp_ops (w_spw w)))) (so_ctx (sp_ops (w_spw w))) False (sp_status_word (w_spw w)) w
      = (st, r, x, v)" by (rule prod_cases4)
  have "loop_view (snd (snd (snd (se_status E (the (so_status (sp_ops (w_spw w)))) (so_ctx (sp_ops (w_spw w))) False (sp_status_word (w_spw w)) w))))
      = loop_view w" using assms by (simp add: link_fns_keep_def)
  then show ?thesis by (simp add: spw_query_def q)
qed

lemma spw_steps_view:
  assumes "link_fns_keep E"
  shows "loop_view (spw_down_step E w) = loop_view w" "loop_view (spw_starting_step E w) = loop_view w"
proof -
  have to: "loop_view (spw_to t x) = loop_view x" for t and x :: "'a output_world_scheme" by (simp add: spw_to_def)
  define w1 where "w1 = spw_upd (\<lambda>s. s\<lparr>sp_attempts := sp_attempts s + 1\<rparr>) w"
  obtain st v where s: "se_start E (the (so_start (sp_ops (w_spw w1)))) (so_ctx (sp_ops (w_spw w1))) w1 = (st, v)" by (rule prod.exhaust)
  have "loop_view (snd (se_start E (the (so_start (sp_ops (w_spw w1)))) (so_ctx (sp_ops (w_spw w1))) w1)) = loop_view w1"
    using assms by (simp add: link_fns_keep_def)
  then have v: "loop_view v = loop_view w" unfolding s snd_conv by (simp add: w1_def)
  show "loop_view (spw_down_step E w) = loop_view w"
    unfolding spw_down_step_def Let_def w1_def [symmetric] s split case_prod_beta using v by (simp add: to)
  obtain st2 r v2 where q: "spw_query E w = (st2, r, v2)" by (rule prod_cases3)
  have "loop_view v2 = loop_view w" using spw_query_view [OF assms, of w] by (simp add: q)
  then show "loop_view (spw_starting_step E w) = loop_view w"
    unfolding spw_starting_step_def Let_def q split case_prod_beta by (simp add: to)
qed

lemma spw_service_ready:
  assumes "link_fns_keep E" "\<And>w. deliver_received n E w \<noteq> None" "loop_ready w"
  shows "\<exists>v. comm_spw_link_service n E w = Some v \<and> loop_ready v"
proof -
  obtain st r u where q: "spw_query E w = (st, r, u)" by (rule prod_cases3)
  have u: "loop_ready u" using ready_view [OF spw_query_view [OF assms(1)] assms(3)] by (simp add: q)
  obtain v where v: "deliver_received n E u = Some v" using assms(2) [of u] by auto
  have "loop_ready (spw_to t (svc_fdir_report f d (spw_upd g u)))" for t f d g
    by (rule ready_view [OF _ u]) (simp add: spw_to_def)
  then have "\<exists>v. spw_run_step n E w = Some v \<and> loop_ready v"
    using v deliver_ready [OF assms(1) u v] by (simp add: spw_run_step_def q Let_def)
  then show ?thesis
    using assms(3) ready_view [OF spw_steps_view(1) [OF assms(1)] assms(3)] ready_view [OF spw_steps_view(2) [OF assms(1)] assms(3)]
    by (cases "sp_state (w_spw w)") (simp_all add: comm_spw_link_service_def)
qed

lemma output_turn_keeps:
  assumes "link_fns_keep (oe_spw E)" "output_turn E i w = (go, v)"
  shows "w_cmd v = w_cmd w" "w_uart v = w_uart w"
proof -
  let ?slot = "oq_slot (w_output w) ! i"
  have up: "w_cmd (output_upd f x) = w_cmd x" "w_uart (output_upd f x) = w_uart x" "w_cmd (spw_upd g x) = w_cmd x"
      "w_uart (spw_upd g x) = w_uart x" for f g and x :: "'a output_world_scheme"
    by (simp_all add: output_upd_def spw_upd_def)
  obtain st packet written u where b: "comm_ccsds_build (os_cls ?slot) (Some (oe_bytes E (os_data ?slot) w)) (os_len ?slot)
      (Some (oq_packet (w_output w))) OUTPUT_PACKET_BYTES w = (st, packet, written, u)" by (rule prod_cases4)
  have "loop_view (snd (snd (snd (comm_ccsds_build c d n p l w)))) = loop_view w" for c d n p l
    by (auto simp: comm_ccsds_build_def Let_def split: prod.splits)
  from this [of "os_cls ?slot" "Some (oe_bytes E (os_data ?slot) w)" "os_len ?slot" "Some (oq_packet (w_output w))" OUTPUT_PACKET_BYTES]
  have u: "w_cmd u = w_cmd w" "w_uart u = w_uart w" by (simp_all add: b loop_view_def)
  let ?u = "output_upd (\<lambda>s. s\<lparr>oq_packet := the packet\<rparr>) u"
  obtain st2 t where s: "comm_spw_link_send (oe_spw E) (Some (oq_packet (w_output ?u))) (the written) ?u = (st2, t)"
    by (rule prod.exhaust)
  have k: "w_cmd (snd (comm_spw_link_send (oe_spw E) d n x)) = w_cmd x \<and> w_uart (snd (comm_spw_link_send (oe_spw E) d n x)) = w_uart x" for d n x
  proof -
    have "loop_view (snd (se_send (oe_spw E) h c bs x)) = loop_view x" for h c bs using assms(1) by (simp add: link_fns_keep_def)
    then have "w_cmd (snd (se_send (oe_spw E) h c bs x)) = w_cmd x" "w_uart (snd (se_send (oe_spw E) h c bs x)) = w_uart x" for h c bs
      by (simp_all add: loop_view_def)
    then show ?thesis by (simp add: comm_spw_link_send_def Let_def case_prod_beta up)
  qed
  have t: "w_cmd t = w_cmd w" "w_uart t = w_uart w"
    using k [of "Some (oq_packet (w_output ?u))" "the written" ?u] s u by (simp_all add: up)
  have "v = (if st \<noteq> QIRAN_OK then svc_fdir_report QIRAN_FAULT_OUTPUT_QUEUE (of_nat (class_idx (os_cls ?slot)))
        (output_upd (\<lambda>s. (output_free i s)\<lparr>oq_failed := oq_failed s + 1\<rparr>) ?u)
      else if st2 \<noteq> QIRAN_OK then t else output_upd (\<lambda>s. (output_free i s)\<lparr>oq_sent := oq_sent s + 1\<rparr>) t)"
    using assms(2) unfolding output_turn_def Let_def b split s by (auto split: if_splits)
  then show "w_cmd v = w_cmd w" "w_uart v = w_uart w" using u t by (simp_all add: up)
qed

lemma output_service_ready:
  assumes "link_fns_keep (oe_spw E)" "loop_ready w"
  shows "\<exists>v. comm_output_service 17 E w = Some v \<and> loop_ready v"
proof -
  have ok: "output_env_ok E"
    using assms(1) by (simp add: output_env_ok_def link_fns_keep_def loop_view_def)
  have o: "output_ok (w_output w)" using assms(2) by (simp add: loop_ready_def)
  have keep: "w_cmd (output_in_order E is x) = w_cmd x \<and> w_uart (output_in_order E is x) = w_uart x" for "is" x
  proof (induction "is" arbitrary: x)
    case (Cons i js)
    obtain go y where y: "output_turn E i x = (go, y)" by (rule prod.exhaust)
    from output_turn_keeps [OF assms(1) y] Cons.IH [of y] show ?case by (simp add: y)
  qed simp
  have "comm_spw_link_running w \<Longrightarrow> output_ok (w_output (output_in_order E (output_order (oq_slot (w_output w))) w))"
    using output_service_reference [OF ok o, of 17] order_length [of "oq_slot (w_output w)"] by simp
  then show ?thesis
    using output_service_eq [OF ok o order.refl] keep [of "output_order (oq_slot (w_output w))" w] assms(2)
    by (simp add: loop_ready_def cmd_ready_def)
qed

subsection \<open>Commands\<close>

definition cmd_fns_keep :: "'a output_world_scheme cmd_env \<Rightarrow> bool" where
  "cmd_fns_keep E \<longleftrightarrow> (\<forall>h c p w. loop_view (snd (ke_handler E h c p w)) = loop_view w) \<and>
     (\<forall>h c bs w. loop_view (snd (ke_tx E h c bs w)) = loop_view w)"

lemma cmd_fns_env: "cmd_fns_keep E \<Longrightarrow> cmd_env_ok E"
  by (simp add: cmd_fns_keep_def cmd_env_ok_def loop_view_def)

lemma cmd_output [simp]:
  "w_output (cmd_upd f w) = w_output w" "w_output (svc_log_event c d w) = w_output w" "w_output (snd (svc_time_now_ms w)) = w_output w"
  "w_output (snd (timeout_arm t m w)) = w_output w" "w_output (snd (timeout_expired t w)) = w_output w" "w_output (cmd_receipt w) = w_output w"
  by (simp_all add: cmd_upd_def svc_log_eqs svc_time_now_ms_def timeout_arm_def timeout_expired_def cmd_receipt_def split_beta Let_def)

lemma cmd_calls_output:
  assumes "cmd_fns_keep E"
  shows "w_output (snd (cmd_call E h c p w)) = w_output w" "w_output (send_result E i q r res d w) = w_output w"
    "w_output (cmd_reject E i q r res d w) = w_output w" "w_output (cmd_fail E cc q r res d w) = w_output w"
    "w_output (cmd_complete E cc q r w) = w_output w"
proof -
  have h: "w_output (snd (ke_handler E h c p w)) = w_output w" "w_output (snd (ke_tx E h c bs w)) = w_output w" for h c p bs w
    using assms by (simp_all add: cmd_fns_keep_def loop_view_def)
  show "w_output (snd (cmd_call E h c p w)) = w_output w"
    by (cases h) (simp_all add: cmd_call_def mode_handler_def h)
  have sr: "w_output (send_result E i q r res d w) = w_output w" for i q r res d w
    by (simp add: send_result_def Let_def case_prod_beta h split: option.split)
  show "w_output (send_result E i q r res d w) = w_output w" "w_output (cmd_reject E i q r res d w) = w_output w"
    "w_output (cmd_fail E cc q r res d w) = w_output w" "w_output (cmd_complete E cc q r w) = w_output w"
    by (simp_all add: sr cmd_reject_def cmd_fail_def cmd_complete_def)
qed

lemma cmd_steps_output:
  assumes "cmd_fns_keep E"
  shows "w_output (cmd_process E frame w) = w_output w" "w_output (cmd_track E w) = w_output w"
    "w_output (assemble_byte E b w) = w_output w"
proof -
  note o = cmd_calls_output [OF assms]
  have d: "w_output (cmd_dispatch E c p q r w) = w_output w" for c p q r w
  proof (cases "cm_handler (w_cmd w) c")
    case (Some h)
    obtain st v where c: "cmd_call E h (cm_ctx (w_cmd w) c) p w = (st, v)" by (rule prod.exhaust)
    then have "w_output v = w_output w" using o(1) [of h "cm_ctx (w_cmd w) c" p w] by simp
    then show ?thesis by (simp add: cmd_dispatch_def Some c o Let_def case_prod_beta)
  qed (simp add: cmd_dispatch_def o)
  have p: "w_output (cmd_process E frame w) = w_output w" for frame w
    unfolding process_verdict Let_def by (simp add: d o split: option.split)
  then show "w_output (cmd_process E frame w) = w_output w" "w_output (assemble_byte E b w) = w_output w"
    by (simp_all add: assemble_byte_def Let_def)
  let ?s = "w_cmd w"
  obtain st u where u: "cmd_call E (the (cm_handler ?s (if_id (cm_inflight ?s)))) (cm_ctx ?s (if_id (cm_inflight ?s)))
      (if_parameter (cm_inflight ?s)) w = (st, u)" by (rule prod.exhaust)
  then have k: "w_output u = w_output w"
    using o(1) [of "the (cm_handler ?s (if_id (cm_inflight ?s)))" "cm_ctx ?s (if_id (cm_inflight ?s))" "if_parameter (cm_inflight ?s)" w] by simp
  show "w_output (cmd_track E w) = w_output w"
    by (simp add: cmd_track_def u Let_def case_prod_beta o k)
qed

lemma cmd_process_ready:
  assumes "cmd_fns_keep E" "loop_ready w"
  shows "loop_ready (cmd_process E frame w)"
  using process_keeps [OF cmd_fns_env [OF assms(1)], of w frame] assms
  by (simp add: loop_ready_def cmd_ready_def cmd_steps_output)

lemma process_consume_ready:
  assumes "cmd_fns_keep E" "loop_ready w" "\<And>h c hdr app w. loop_ready w \<Longrightarrow> loop_ready (snd (other h c hdr app w))"
  shows "loop_ready (snd (process_consume E other h c hdr app w))"
  using assms(2,3) cmd_process_ready [OF assms(1,2)]
  by (simp add: process_consume_def consume_command_def comm_cmd_submit_def)

lemma assemble_output:
  assumes "cmd_fns_keep E"
  shows "assemble n E w = Some v \<Longrightarrow> w_output v = w_output w"
proof (induction n arbitrary: w)
  case (Suc n)
  obtain chunk w1 where r: "plat_isr_uart_read True 64 w = (chunk, w1)" by (rule prod.exhaust)
  have w1: "w_output w1 = w_output w" using r by (auto simp: plat_isr_uart_read_def split: prod.splits)
  have "w_output (fold (assemble_byte E) bs x) = w_output x" for bs x
    by (induction bs arbitrary: x) (simp_all add: cmd_steps_output(3) [OF assms])
  then show ?case using Suc w1 by (auto simp: r Let_def split: if_splits)
qed simp

lemma cmd_service_ready:
  assumes "cmd_fns_keep E" "loop_ready w"
  shows "\<exists>v. comm_cmd_service 5 E w = Some v \<and> loop_ready v"
proof -
  note env = cmd_fns_env [OF assms(1)]
  have r: "cmd_ok (w_cmd w)" "ring_invar (ua_rx (w_uart w))" "ring_cap (ua_rx (w_uart w)) = 256" "output_ok (w_output w)"
    using assms(2) by (simp_all add: loop_ready_def cmd_ready_def)
  have t: "cmd_ok (w_cmd (cmd_track E w))" "w_uart (cmd_track E w) = w_uart w" using track_keeps [OF env r(1)] by simp_all
  have "length (ring_queue (ua_rx (w_uart (cmd_track E w)))) < 64 * 5"
    using ring_queue_cap [OF r(2)] r(3) t(2) by simp
  then obtain v where v: "assemble 5 E (cmd_track E w) = Some v" "cmd_ok (w_cmd v)" "ring_invar (ua_rx (w_uart v))"
      "ring_cap (ua_rx (w_uart v)) = 256"
    using assemble_ends [OF env t(1), of 5] r t(2) by auto
  have "w_output v = w_output w" using assemble_output [OF assms(1) v(1)] cmd_steps_output(2) [OF assms(1)] by simp
  then show ?thesis using v r by (simp add: comm_cmd_service_def loop_ready_def cmd_ready_def)
qed

subsection \<open>The payload and the data path\<close>

definition uplink_keeps :: "'a output_world_scheme fdir_env \<Rightarrow> bool" where
  "uplink_keeps F \<longleftrightarrow> (\<forall>h f v d w. loop_view (snd (fe_report_flag F h f v d w)) = loop_view w) \<and>
     (\<forall>h f w. loop_view (snd (fe_request_power_reset F h f w)) = loop_view w)"

lemma escalate_view:
  assumes "uplink_keeps F"
  shows "loop_view (fdir_escalate F f d w) = loop_view w"
  by (cases "fp_escalation (k_policy f)") (use assms in \<open>simp_all add: fdir_escalate_def Let_def split_beta uplink_keeps_def\<close>)

lemma fdir_service_view:
  fixes F :: "'a major_world_scheme fdir_env"
  assumes "uplink_keeps F"
  shows "loop_view (error_handling_service F w) = loop_view w"
  by (rule error_handling_keeps) (use assms in \<open>simp_all add: uplink_keeps_def\<close>)

lemma mission_enter_view: "loop_view (mission_enter s w) = loop_view w"
  for w :: "'a output_world_scheme"
  by (simp add: mission_enter_def Let_def case_prod_beta)

lemma mission_check_view: "loop_view (mission_check_budget w) = loop_view w"
  for w :: "'a output_world_scheme"
  by (simp add: mission_check_budget_def mission_stage_elapsed_ms_def Let_def case_prod_beta)

lemma mission_apply_view:
  assumes "uplink_keeps (me_fdir E)"
  shows "loop_view (mission_apply E out fault w) = loop_view w"
proof -
  have n: "loop_view (svc_fdir_reentry_note (me_fdir E) f v) = loop_view v" for f v
    by (simp add: svc_fdir_reentry_note_def Let_def escalate_view [OF assms])
  show ?thesis by (cases "ms_result out") (simp_all add: mission_apply_def Let_def mission_enter_view n)
qed

lemma mission_step_ready:
  assumes "uplink_keeps (me_fdir E)" "\<And>h c m w. loop_ready w \<Longrightarrow> loop_ready (snd (me_step E h c m w))" "loop_ready w"
  shows "loop_ready (mission_seq_step E w)"
proof -
  define v where "v = mission_check_budget w"
  have v: "loop_ready v" unfolding v_def by (rule ready_view [OF mission_check_view assms(3)])
  have "loop_ready (case mi_step (w_mission v) (mi_stage (w_mission v)) of None \<Rightarrow> v
    | Some step \<Rightarrow> (let (out, w) = me_step E step (mi_ctx (w_mission v) (mi_stage (w_mission v))) m v in mission_apply E out (g out) w))" for m g
  proof (cases "mi_step (w_mission v) (mi_stage (w_mission v))")
    case (Some step)
    obtain out u where u: "me_step E step (mi_ctx (w_mission v) (mi_stage (w_mission v))) m v = (out, u)" by (rule prod.exhaust)
    then have "loop_ready u" using assms(2) [OF v, of step "mi_ctx (w_mission v) (mi_stage (w_mission v))" m] by simp
    from ready_view [OF mission_apply_view [OF assms(1)] this] show ?thesis by (simp add: Some u)
  qed (simp add: v)
  then show ?thesis
    using assms(3) unfolding mission_seq_step_def Let_def v_def [symmetric] by simp
qed

lemma loops_ready:
  assumes "\<And>h c w. loop_ready w \<Longrightarrow> loop_ready (snd (service h c w))" "loop_ready w"
  shows "loop_ready (control_loop_service_calls service w)"
proof -
  have one: "loop_ready (loop_service_one service l v)" if v: "loop_ready v" for l and v :: "'a output_world_scheme"
  proof -
    obtain a w1 where a: "plat_cpu_cycle_count v = (a, w1)" by (rule prod.exhaust)
    have w1: "loop_ready w1" using ready_view [OF loop_view_services(8) v] by (simp add: a)
    obtain st w2 where s: "service (the (pl_service (w_loop w1 l))) (pl_ctx (w_loop w1 l)) w1 = (st, w2)" by (rule prod.exhaust)
    have w2: "loop_ready w2" using assms(1) [OF w1, of "the (pl_service (w_loop w1 l))" "pl_ctx (w_loop w1 l)"] by (simp add: s)
    obtain b w3 where b: "plat_cpu_cycle_count w2 = (b, w3)" by (rule prod.exhaust)
    have w3: "loop_ready w3" using ready_view [OF loop_view_services(8) w2] by (simp add: b)
    have w4: "loop_ready (loop_upd l f w3)" for f by (rule ready_view [OF loop_view_services(12) w3])
    have "loop_ready (svc_fdir_report f d (loop_upd l g w3))" for f d g by (rule ready_view [OF loop_view_services(3) w4])
    then show ?thesis unfolding loop_service_one_def a s b Let_def split using v w4 by simp
  qed
  have "loop_ready v \<Longrightarrow> loop_ready (fold (loop_service_one service) ls v)" for ls and v :: "'a output_world_scheme"
    by (induction ls arbitrary: v) (simp_all add: one)
  then show ?thesis using assms(2) by (simp add: control_loop_service_calls_def)
qed

lemma transfer_ready:
  fixes w :: "'a nand_world_scheme"
  assumes "\<And>h c off n w. loop_view (snd (snd (ne_read E h c off n w))) = loop_view w" "loop_ready w"
  shows "loop_ready (storage_nand_transfer_service E w)"
proof -
  have nu: "loop_view (nand_upd f v) = loop_view v" for f and v :: "'a nand_world_scheme" by (simp add: nand_upd_def loop_view_def)
  have rd: "loop_ready u" if "nand_read E off n v = (st, bs, u)" "loop_ready v" for off n v st bs u
  proof -
    have "loop_view (snd (snd (nand_read E off n v))) = loop_view v" by (simp add: nand_read_def assms(1))
    then show ?thesis using ready_view that by simp
  qed
  have stop: "loop_ready (nand_transfer_stop v)" "loop_ready (nand_transfer_skip f d n v)" if "loop_ready v" for v :: "'a nand_world_scheme" and f d n
    by (rule ready_view [OF _ that], simp add: nand_transfer_stop_def nand_transfer_skip_def nu)+
  have sub: "loop_ready (snd (comm_output_submit cls d n v))" if "loop_ready v" for cls d n and v :: "'a nand_world_scheme"
  proof -
    have "w_cmd (snd (comm_output_submit cls d n v)) = w_cmd v" "w_uart (snd (comm_output_submit cls d n v)) = w_uart v"
      by (simp_all add: comm_output_submit_def output_upd_def split: option.split)
    then show ?thesis using submit_ok [of v cls d n] that by (simp add: loop_ready_def cmd_ready_def)
  qed
  have rec: "loop_ready (nand_transfer_record E t n c v)" if v: "loop_ready v" for t n c v
  proof -
    obtain st bs u where r: "nand_read E (nd_transfer_offset (w_nand v) + NAND_HEADER_BYTES) n v = (st, bs, u)" by (rule prod_cases3)
    have u: "loop_ready (nand_upd (stage_put bs) u)" by (rule ready_view [OF nu rd [OF r v]])
    obtain st2 x where s: "comm_output_submit (class_of (nand_of_code t)) (Some NAND_STAGE) n (nand_upd (stage_put bs) u) = (st2, x)"
      by (rule prod.exhaust)
    have x: "loop_ready x" using sub [OF u, of "class_of (nand_of_code t)" "Some NAND_STAGE" n] by (simp add: s)
    show ?thesis
      unfolding nand_transfer_record_def r Let_def split s using v stop u x ready_view [OF nu x] by simp
  qed
  obtain st h u where r: "nand_read E (nd_transfer_offset (w_nand w)) NAND_HEADER_BYTES w = (st, h, u)" by (rule prod_cases3)
  have u: "loop_ready u" by (rule rd [OF r assms(2)])
  have "loop_ready (svc_log_event a b (nand_upd f w))" for a b f by (rule ready_view [OF _ assms(2)]) (simp add: nu)
  then show ?thesis
    unfolding storage_nand_transfer_service_def r Let_def split using assms(2) stop u rec [OF u] by simp
qed

subsection \<open>A whole cycle\<close>

text \<open>What the functions from outside keep while the loop runs. The ones that drive the payload, the
  monitors and the other consumers of packets may do anything that keeps what the loop relies on;
  they may submit packets, for one. The interrupts of a cycle may do the same.\<close>

definition loop_env_ok :: "'a major_world_scheme main_env \<Rightarrow> bool" where
  "loop_env_ok E \<longleftrightarrow> hk_tx_keeps loop_view (ma_hk E) \<and> hk_sample_keeps loop_view (ma_hk E) \<and> cmd_fns_keep (ma_cmd E) \<and>
     link_fns_keep (ma_spw E) \<and> checks_keep (ma_health E) \<and> main_fns_keep loop_view E \<and>
     (\<forall>h c m w. loop_ready w \<longrightarrow> loop_ready (snd (ma_step E h c m w))) \<and>
     (\<forall>h c w. loop_ready w \<longrightarrow> loop_ready (snd (ma_loop E h c w))) \<and>
     (\<forall>h c off n w. loop_view (snd (snd (ne_read (ma_nand E) h c off n w))) = loop_view w)"

definition cycle_ok :: "'a major_world_scheme main_env \<Rightarrow> 'a major_world_scheme cycle_input \<Rightarrow> bool" where
  "cycle_ok E c \<longleftrightarrow> (\<forall>n \<in> set (ci_wakes c). n < 2 ^ 32) \<and> (\<exists>n \<in> set (ci_wakes c). n \<noteq> 0) \<and>
     (\<forall>w. deliver_received (ci_reads c) (main_spw E) w \<noteq> None) \<and>
     (\<forall>i w. loop_ready w \<longrightarrow> loop_ready (ci_interrupts c i w))"

lemma loop_view_blind: "hk_blind (loop_view :: 'a major_world_scheme \<Rightarrow> _)" "boot_blind (loop_view :: 'a major_world_scheme \<Rightarrow> _)"
  by (simp_all add: hk_blind_def boot_blind_def)

lemma task_marks_ready:
  "loop_ready w \<Longrightarrow> loop_ready (exec_task_enter i w)" "loop_ready w \<Longrightarrow> loop_ready (exec_task_leave i w)"
proof -
  have e: "loop_view (exec_task_enter i w) = loop_view w" "loop_view (exec_task_leave i w) = loop_view w"
    by (simp_all add: exec_task_enter_def exec_task_leave_def plat_cpu_cycle_count_def Let_def)
  show "loop_ready w \<Longrightarrow> loop_ready (exec_task_enter i w)" by (rule ready_view [OF e(1)])
  show "loop_ready w \<Longrightarrow> loop_ready (exec_task_leave i w)" by (rule ready_view [OF e(2)])
qed

lemma exec_task_ready:
  assumes "cycle_ok E c" "loop_ready w" "\<And>v. loop_ready v \<Longrightarrow> loop_ready (f v)"
  shows "loop_ready (exec_task c i f w)"
  using assms unfolding exec_task_def exec_run_def cycle_ok_def by (simp add: task_marks_ready)

lemma run_task_ready:
  assumes "cycle_ok E c" "loop_ready w" "\<And>v. loop_ready v \<Longrightarrow> \<exists>u. f v = Some u \<and> loop_ready u"
  shows "\<exists>v. run_task c i f w = Some v \<and> loop_ready v"
proof -
  have "loop_ready (exec_task_enter i (ci_interrupts c i w))"
    using assms(1,2) unfolding cycle_ok_def by (simp add: task_marks_ready)
  from assms(3) [OF this] obtain u where u: "f (exec_task_enter i (ci_interrupts c i w)) = Some u" "loop_ready u" by blast
  then show ?thesis by (simp add: run_task_def task_marks_ready(2))
qed

lemma main_link_keeps:
  assumes "loop_env_ok E"
  shows "link_fns_keep (main_spw E)"
proof -
  have l: "link_fns_keep (ma_spw E)" "cmd_fns_keep (ma_cmd E)" using assms by (simp_all add: loop_env_ok_def)
  have "loop_ready (snd (process_consume (ma_cmd E) (se_consume (ma_spw E)) h c hdr app w))" if "loop_ready w" for h c hdr app w
    by (rule process_consume_ready [OF l(2) that]) (use l(1) in \<open>simp add: link_fns_keep_def\<close>)
  then show ?thesis using l(1) by (simp add: link_fns_keep_def main_spw_def)
qed

lemma hk_transmit_keeps:
  assumes "hk_blind obs" "hk_tx_keeps obs E"
  shows "obs (comm_rs485_hk_transmit E w) = obs w"
proof -
  obtain st v where s: "hk_send E (take (unat (hk_staged (w_hk w))) (hk_frame (w_hk w))) w = (st, v)" by (rule prod.exhaust)
  have "obs v = obs w" using hk_send_keeps [OF assms, of "take (unat (hk_staged (w_hk w))) (hk_frame (w_hk w))" w] by (simp add: s)
  then show ?thesis by (simp add: comm_rs485_hk_transmit_def s Let_def hk_blind_upds(3) [OF assms(1)])
qed

lemma communication_ready:
  assumes "loop_env_ok E" "cycle_ok E c" "loop_ready w"
  shows "\<exists>v. communication (ci_reads c) E w = Some v \<and> loop_ready v"
proof -
  note l = main_link_keeps [OF assms(1)]
  have reads: "deliver_received (ci_reads c) (main_spw E) v \<noteq> None" for v using assms(2) by (simp add: cycle_ok_def)
  obtain v where v: "comm_spw_link_service (ci_reads c) (main_spw E) w = Some v" "loop_ready v"
    using spw_service_ready [OF l reads assms(3)] by blast
  have "link_fns_keep (oe_spw (main_output E))" using l by (simp add: main_output_def)
  from output_service_ready [OF this v(2)] obtain u where u: "comm_output_service 17 (main_output E) v = Some u" "loop_ready u" by blast
  have "hk_tx_keeps loop_view (ma_hk E)" using assms(1) by (simp add: loop_env_ok_def)
  from ready_view [OF hk_transmit_keeps [OF loop_view_blind(1) this] u(2)]
  show ?thesis by (simp add: communication_def v(1) u(1))
qed

lemma tasks_ready:
  fixes w :: "'a major_world_scheme"
  assumes "loop_env_ok E" "loop_ready w"
  shows "loop_ready (pl_control E w)" "loop_ready (data_path_manage (ma_nand E) w)"
    "loop_ready (error_handling_service (main_fdir E) w)" "loop_ready (health_consolidate w)"
    "loop_ready (telemetry_write E w)" "loop_ready (major_cycle_tasks w)"
    "loop_ready (watchdog_tickle_if_healthy (ma_health E) w)"
proof -
  have tx: "hk_tx_keeps loop_view (ma_hk E)" "hk_sample_keeps loop_view (ma_hk E)" using assms(1) by (simp_all add: loop_env_ok_def)
  have up: "uplink_keeps (main_fdir E)"
    unfolding uplink_keeps_def main_fdir_def using hk_uplink_keeps [OF loop_view_blind(1) tx(1)] by simp
  have "loop_ready (mission_seq_step (main_mission E) w)"
    by (rule mission_step_ready) (use assms up in \<open>simp_all add: main_mission_def loop_env_ok_def\<close>)
  then show "loop_ready (pl_control E w)"
    unfolding pl_control_def by (rule loops_ready [rotated]) (use assms(1) in \<open>simp add: loop_env_ok_def\<close>)
  have "loop_ready (storage_nand_transfer_service (ma_nand E) w)"
    by (rule transfer_ready) (use assms in \<open>simp_all add: loop_env_ok_def\<close>)
  then show "loop_ready (data_path_manage (ma_nand E) w)" using assms(2) by (simp add: data_path_manage_def)
  show "loop_ready (error_handling_service (main_fdir E) w)" by (rule ready_view [OF fdir_service_view [OF up] assms(2)])
  show "loop_ready (health_consolidate w)" by (rule ready_view [OF _ assms(2)]) (simp add: health_consolidate_def Let_def)
  show "loop_ready (telemetry_write E w)"
    unfolding telemetry_write_def by (rule ready_view [OF hk_stage_keeps [OF loop_view_blind(1) tx(2)] assms(2)])
  obtain t m where "trace w = w\<lparr>w_time := t, w_major := m\<rparr>" using trace_traced [of w] unfolding traced_def by blast
  then show "loop_ready (major_cycle_tasks w)" by (intro ready_view [OF _ assms(2)]) (simp add: major_cycle_tasks_def)
  show "loop_ready (watchdog_tickle_if_healthy (ma_health E) w)"
    by (rule ready_view [OF _ assms(2)]) (use assms(1) in \<open>simp add: watchdog_tickle_if_healthy_def loop_env_ok_def checks_keep_def\<close>)
qed

lemma cycle_tasks_ready:
  fixes w :: "'a major_world_scheme"
  assumes "loop_env_ok E" "cycle_ok E c" "loop_ready w"
  shows "\<exists>v. cycle_tasks E c w = Some v \<and> loop_ready v"
proof -
  note t = exec_task_ready [OF assms(2)] and r = tasks_ready [OF assms(1)]
  have k: "checks_keep (ma_health E)" "cmd_fns_keep (ma_cmd E)" using assms(1) by (simp_all add: loop_env_ok_def)
  define a where "a = exec_task c EXEC_TASK_HEALTH_CHECK (health_check (ma_health E)) (exec_task c EXEC_TASK_INTERRUPTS service_interrupts w)"
  have "loop_ready a"
    unfolding a_def by (intro t assms(3) service_interrupts_ready health_check_ready [OF k(1)])
  then have "\<exists>v. run_task c EXEC_TASK_COMMS (communication (ci_reads c) E) a = Some v \<and> loop_ready v"
    by (rule run_task_ready [OF assms(2)]) (rule communication_ready [OF assms(1,2)])
  then obtain b where b: "run_task c EXEC_TASK_COMMS (communication (ci_reads c) E) a = Some b" "loop_ready b" by blast
  have "\<exists>v. run_task c EXEC_TASK_TELECOMMAND (comm_cmd_service 5 (ma_cmd E)) b = Some v \<and> loop_ready v"
    by (rule run_task_ready [OF assms(2) b(2)]) (rule cmd_service_ready [OF k(2)])
  then obtain d where d: "run_task c EXEC_TASK_TELECOMMAND (comm_cmd_service 5 (ma_cmd E)) b = Some d" "loop_ready d" by blast
  define e where "e = exec_task c EXEC_TASK_TELEMETRY (telemetry_write E)
     (exec_task c EXEC_TASK_HEALTH_CONSOLIDATE health_consolidate (exec_task c EXEC_TASK_FDIR (error_handling_service (main_fdir E))
       (exec_task c EXEC_TASK_DATA_PATH (data_path_manage (ma_nand E)) (exec_task c EXEC_TASK_PL_CONTROL (pl_control E) d))))"
  have e: "loop_ready e" unfolding e_def by (intro t d(2) r(1-5))
  have "cycle_tasks E c w = Some (if exec_major_tick_due e then exec_task c EXEC_TASK_MAJOR major_cycle_tasks e else e)"
    unfolding cycle_tasks_def Let_def a_def [symmetric] b(1) bind.bind_lunit d(1) e_def [symmetric] by simp
  then show ?thesis using e t [OF e r(6)] by simp
qed

text \<open>The wait changes the executive and the cycle counter alone.\<close>

lemma exec_wait_only:
  assumes "exec_wait_for_minor_tick wakes mid w = Some u"
  shows "\<exists>e c. u = w\<lparr>w_exec := e, w_cpu := c\<rparr>"
proof -
  have b: "\<exists>e c. exec_wait_begin v = v\<lparr>w_exec := e, w_cpu := c\<rparr>" for v :: "'a exec_world_scheme"
  proof -
    have "exec_wait_begin v = v\<lparr>w_exec := w_exec (exec_wait_begin v), w_cpu := w_cpu (exec_wait_begin v)\<rparr>"
      by (simp add: exec_wait_begin_def plat_cpu_cycle_count_def Let_def)
    then show ?thesis by blast
  qed
  have t: "\<exists>e. (exec_on_minor_tick ^^ n) v = v\<lparr>w_exec := e\<rparr>" for n and v :: "'a exec_world_scheme"
    using exec_ticks_only by blast
  have l: "exec_wait_loop ns v = Some x \<Longrightarrow> \<exists>e. x = v\<lparr>w_exec := e\<rparr>" for ns and v x :: "'a exec_world_scheme"
  proof (induction ns arbitrary: v)
    case Nil
    then have "x = v\<lparr>w_exec := w_exec v\<rparr>" by (simp split: if_splits)
    then show ?case by blast
  next
    case (Cons n ns)
    show ?case
    proof (cases "exec_pending v = 0")
      case True
      then have "exec_wait_loop ns ((exec_on_minor_tick ^^ n) v) = Some x" using Cons.prems by simp
      from Cons.IH [OF this] obtain e where x: "x = ((exec_on_minor_tick ^^ n) v)\<lparr>w_exec := e\<rparr>" by blast
      obtain f where f: "(exec_on_minor_tick ^^ n) v = v\<lparr>w_exec := f\<rparr>" using t by blast
      show ?thesis unfolding x f by auto
    next
      case False
      then have "x = v\<lparr>w_exec := w_exec v\<rparr>" using Cons.prems by simp
      then show ?thesis by blast
    qed
  qed
  obtain x where x: "exec_wait_loop wakes (exec_wait_begin w) = Some x" "u = exec_wait_end mid x"
    using assms by (auto simp: exec_wait_for_minor_tick_def)
  obtain e1 c1 where 1: "exec_wait_begin w = w\<lparr>w_exec := e1, w_cpu := c1\<rparr>" using b by blast
  obtain e2 where "x = w\<lparr>w_exec := e1, w_cpu := c1\<rparr>\<lparr>w_exec := e2\<rparr>" using l [OF x(1)] unfolding 1 by blast
  then have 2: "x = w\<lparr>w_exec := e2, w_cpu := c1\<rparr>" by simp
  define y where "y = x\<lparr>w_exec := exec_account (ex_isr_ticks (w_exec x)) (exec_pending x) (w_exec x)\<rparr>"
  obtain e3 where "(exec_on_minor_tick ^^ mid) y = y\<lparr>w_exec := e3\<rparr>" using t by blast
  then have 3: "(exec_on_minor_tick ^^ mid) y = w\<lparr>w_exec := e3, w_cpu := c1\<rparr>" by (simp add: y_def 2)
  have "u = w\<lparr>w_exec := w_exec u, w_cpu := w_cpu u\<rparr>"
    unfolding x(2) exec_wait_end_def Let_def y_def [symmetric] 3 by (simp add: plat_cpu_cycle_count_def Let_def)
  then show ?thesis by blast
qed

lemma wait_ready:
  fixes w :: "'a major_world_scheme"
  assumes "cycle_ok E c"
  obtains u where "exec_wait_for_minor_tick (ci_wakes c) (ci_mid c) w = Some u" "loop_view u = loop_view w"
    "arrays_sized u = arrays_sized w" "w_uart u = w_uart w"
proof -
  have "exec_wait_for_minor_tick (ci_wakes c) (ci_mid c) w \<noteq> None"
    using exec_wait_returns [of "ci_wakes c" "ci_mid c" w] assms by (simp add: cycle_ok_def)
  then obtain u where u: "exec_wait_for_minor_tick (ci_wakes c) (ci_mid c) w = Some u" by blast
  obtain e k where k: "u = w\<lparr>w_exec := e, w_cpu := k\<rparr>" using exec_wait_only [OF u] by blast
  show ?thesis by (rule that [OF u]) (simp_all add: k loop_view_def arrays_sized_def)
qed

subsection \<open>The first cycle and the loop\<close>

lemma subsystem_init_uart: "w_uart (subsystem_init E w) = w_uart w"
proof -
  have p: "w_uart (comm_process_init v) = w_uart v" for v :: "'b hk_world_scheme"
    by (simp add: comm_process_init_def Let_def comm_ccsds_register_def comm_output_init_def output_upd_def comm_spw_link_init_def
        spw_upd_def comm_ccsds_init_def ccsds_upd_def comm_cmd_init_def cmd_upd_def comm_rs485_hk_init_def hk_upd_def)
  have s: "w_uart (svc_log_init v) = w_uart v" "w_uart (svc_fdir_init v) = w_uart v" "w_uart (svc_config_init v) = w_uart v"
      "w_uart (svc_health_init v) = w_uart v" "w_uart (snd (svc_watchdog_init H None v)) = w_uart v"
      "w_uart (plat_post_init v) = w_uart v" "w_uart (plat_devinit_init v) = w_uart v" "w_uart (mission_seq_init v) = w_uart v"
      "w_uart (photonic_sched_init v) = w_uart v" "w_uart (storage_ddr_init v) = w_uart v" "w_uart (storage_nand_init v) = w_uart v"
      "w_uart (data_product_init v) = w_uart v" "w_uart (data_path_init v) = w_uart v"
      "w_uart (snd (svc_fdir_set_uplink l v)) = w_uart v" "w_uart (exec_major_init v) = w_uart v" "w_uart (exec_sched_init v) = w_uart v"
    for v :: "'a major_world_scheme" and H l
    by (subst inits_own, simp)+
  show ?thesis by (simp add: subsystem_init_def Let_def s p)
qed

lemma first_cycle_ready:
  fixes w :: "'a major_world_scheme"
  assumes "main_env_ok E" "loop_env_ok E" "arrays_sized w" "ring_invar (ua_rx (w_uart w))" "ring_cap (ua_rx (w_uart w)) = 256"
  shows "\<exists>u. first_cycle E mid w = Some u \<and> loop_ready u"
proof -
  define s where "s = subsystem_init E w"
  have s: "loop_ready s"
    using subsystem_init_parts [OF assms(3), of E] assms(4,5)
    by (simp add: s_def loop_ready_def cmd_ready_def components_ok_def subsystem_init_uart)
  obtain st b where b: "boot_and_init (main_boot E) s = Some (st, b)"
    unfolding s_def by (rule first_boot_runs [OF assms(1,3)]) blast
  have tx: "hk_tx_keeps loop_view (ma_hk E)" and fns: "main_fns_keep loop_view E" using assms(2) by (simp_all add: loop_env_ok_def)
  have "boot_env_keeps loop_view (main_boot E)"
    using fns by (simp add: boot_env_keeps_def main_fns_keep_def main_boot_def main_fdir_def hk_uplink_keeps [OF loop_view_blind(1) tx])
  from boot_keeps [OF loop_view_blind(2) this b] have "loop_ready b" by (rule ready_view) (rule s)
  then have t: "loop_ready (boot_trace st b)"
    by (rule ready_view [rotated]) (simp add: boot_trace_def xil_printf_def Let_def)
  have d: "loop_view (first_decision E st v) = loop_view v" for v
    by (simp add: first_decision_def report_ready_def status_send_keeps [OF loop_view_blind(1) tx] svc_config_lock_def mission_abort_def Let_def)
  have r: "loop_view (exec_resync mid v) = loop_view v" for v :: "'a major_world_scheme"
    by (subst exec_resync_only) simp
  have "first_cycle E mid w = Some (exec_resync mid (first_decision E st (boot_trace st b)))"
    by (simp add: first_cycle_def s_def [symmetric] b first_decision_def Let_def)
  then show ?thesis using ready_view [OF r ready_view [OF d t]] by simp
qed

lemma main_cycle_ready:
  fixes w :: "'a major_world_scheme"
  assumes "main_env_ok E" "loop_env_ok E" "cycle_ok E c"
    and "if first then arrays_sized w \<and> ring_invar (ua_rx (w_uart w)) \<and> ring_cap (ua_rx (w_uart w)) = 256 else loop_ready w"
  shows "\<exists>u. main_cycle E first c w = Some u \<and> loop_ready u"
proof -
  obtain x where x: "exec_wait_for_minor_tick (ci_wakes c) (ci_mid c) w = Some x" "loop_view x = loop_view w"
      "arrays_sized x = arrays_sized w" "w_uart x = w_uart w"
    by (rule wait_ready [OF assms(3)])
  have "\<exists>y. (if first then first_cycle E (ci_resync c) x else Some x) = Some y \<and> loop_ready y"
    using first_cycle_ready [OF assms(1,2), of x "ci_resync c"] ready_view [OF x(2)] assms(4) x(3,4) by (cases first) simp_all
  then obtain y where y: "(if first then first_cycle E (ci_resync c) x else Some x) = Some y" "loop_ready y" by blast
  obtain z where z: "cycle_tasks E c y = Some z" "loop_ready z" using cycle_tasks_ready [OF assms(2,3) y(2)] by blast
  show ?thesis
    unfolding main_cycle_def x(1) bind.bind_lunit y(1) z(1)
    using exec_task_ready [OF assms(3) z(2) tasks_ready(7) [OF assms(2)]] by simp
qed

lemma main_cycles_ready:
  fixes w :: "'a major_world_scheme"
  assumes "main_env_ok E" "loop_env_ok E"
  shows "\<forall>c \<in> set cs. cycle_ok E c \<Longrightarrow> loop_ready w \<Longrightarrow> \<exists>u. main_cycles E False cs w = Some u \<and> loop_ready u"
proof (induction cs arbitrary: w)
  case (Cons c cs)
  obtain v where v: "main_cycle E False c w = Some v" "loop_ready v"
    using main_cycle_ready [OF assms, of c False w] Cons.prems by auto
  then show ?case using Cons.IH [OF _ v(2)] Cons.prems by simp
qed simp

subsection \<open>What the serial data link holds\<close>

text \<open>A property of the state that the services, the packet router and the command sequence do not touch.\<close>

definition packet_blind :: "('a cmd_world_scheme \<Rightarrow> bool) \<Rightarrow> bool" where
  "packet_blind P \<longleftrightarrow> (\<forall>w x. P (w\<lparr>w_time := x\<rparr>) = P w) \<and> (\<forall>w x. P (w\<lparr>w_fdir := x\<rparr>) = P w) \<and>
     (\<forall>w x. P (w\<lparr>w_log := x\<rparr>) = P w) \<and> (\<forall>w x. P (w\<lparr>w_ccsds := x\<rparr>) = P w) \<and> (\<forall>w x. P (w\<lparr>w_cmd := x\<rparr>) = P w)"

definition cmd_fns_hold :: "('a cmd_world_scheme \<Rightarrow> bool) \<Rightarrow> 'a cmd_world_scheme cmd_env \<Rightarrow> bool" where
  "cmd_fns_hold P E \<longleftrightarrow> (\<forall>h c p w. P w \<longrightarrow> P (snd (ke_handler E h c p w))) \<and> (\<forall>h c bs w. P w \<longrightarrow> P (snd (ke_tx E h c bs w)))"

lemma packet_blind_upds:
  assumes "packet_blind P"
  shows "P (svc_log_event code d w) = P w" "P (svc_fdir_report f d w) = P w" "P (snd (svc_time_now_ms w)) = P w"
    "P (snd (timeout_arm t m w)) = P w" "P (cmd_upd g w) = P w" "P (ccsds_upd k w) = P w" "P (cmd_receipt w) = P w"
    "P (ccsds_gap_check cls n w) = P w" "P (snd (ccsds_refuse g' dt st w)) = P w"
  using assms
  by (simp_all add: packet_blind_def svc_log_eqs svc_fdir_report_eq svc_time_now_ms_def timeout_arm_def cmd_upd_def
      ccsds_upd_def cmd_receipt_def ccsds_gap_check_def ccsds_refuse_def split_beta Let_def)

lemma cmd_process_holds:
  assumes "packet_blind P" "cmd_fns_hold P E" "P w"
  shows "P (cmd_process E frame w)"
proof -
  note k = packet_blind_upds [OF assms(1)]
  have fn: "P (snd (ke_handler E h c p v))" "P (snd (ke_tx E h c bs v))" if "P v" for h c p bs v
    using assms(2) that by (simp_all add: cmd_fns_hold_def)
  have sr: "P (send_result E i q r res d v)" if "P v" for i q r res d v
    using that by (simp add: send_result_def Let_def split_beta k fn split: option.split)
  have o: "P (cmd_reject E i q r res d v)" "P (cmd_fail E c q r res d v)" "P (cmd_complete E c q r v)" if "P v" for i c q r res d v
    using that by (simp_all add: cmd_reject_def cmd_fail_def cmd_complete_def Let_def sr k)
  have d: "P (cmd_dispatch E c p q r v)" if v: "P v" for c p q r v
  proof (cases "cm_handler (w_cmd v) c")
    case (Some h)
    obtain st u where u: "cmd_call E h (cm_ctx (w_cmd v) c) p v = (st, u)" by (rule prod.exhaust)
    have "P (snd (cmd_call E h (cm_ctx (w_cmd v) c) p v))" by (cases h) (simp_all add: cmd_call_def mode_handler_def fn v)
    then have "P u" by (simp add: u)
    then show ?thesis by (simp add: cmd_dispatch_def Some u o sr k split_beta Let_def)
  qed (simp add: cmd_dispatch_def o v)
  show ?thesis
    unfolding process_verdict Let_def by (simp add: o d k assms(3) split: option.split)
qed

lemma receive_holds:
  assumes "packet_blind P" "\<And>h c hdr app w. P w \<Longrightarrow> P (snd (consume h c hdr app w))" "P w"
  shows "P (snd (comm_ccsds_receive consume p n w))"
  unfolding comm_ccsds_receive_def Let_def case_prod_beta
  using assms(2,3) by (simp add: packet_blind_upds [OF assms(1)] split: option.split)

text \<open>The contract of the link: what it holds, with what still arrives while it is read, is at most \<open>n\<close>
  buffers; a read that fills the buffer uses up some of it; and what is done with a packet adds nothing.
  \<open>held\<close> measures it in what extends the program's state.\<close>

definition link_drains :: "nat \<Rightarrow> ('a \<Rightarrow> nat) \<Rightarrow> 'a major_world_scheme main_env \<Rightarrow> bool" where
  "link_drains n held E \<longleftrightarrow> (\<forall>x. held x \<le> n) \<and>
     (\<forall>h c bs k w. let (got, bs, u) = se_receive (ma_spw E) h c bs k w
       in got = SPW_RX_BYTES \<longrightarrow> held (major_world.more u) < held (major_world.more w)) \<and>
     (\<forall>h c hdr app w. held (major_world.more (snd (se_consume (ma_spw E) h c hdr app w))) \<le> held (major_world.more w)) \<and>
     (\<forall>h c p w. held (major_world.more (snd (ke_handler (ma_cmd E) h c p w))) \<le> held (major_world.more w)) \<and>
     (\<forall>h c bs w. held (major_world.more (snd (ke_tx (ma_cmd E) h c bs w))) \<le> held (major_world.more w))"

lemma deliver_ends:
  fixes w :: "'a major_world_scheme"
  assumes "link_drains n held E"
  shows "held (major_world.more w) < m \<Longrightarrow> deliver_received m (main_spw E) w \<noteq> None"
proof (induction m arbitrary: w)
  case (Suc m)
  let ?ops = "sp_ops (w_spw w)"
  obtain k rx u where r: "se_receive (ma_spw E) (the (so_receive ?ops)) (so_ctx ?ops) (sp_rx (w_spw w)) SPW_RX_BYTES w = (k, rx, u)"
    by (rule prod_cases3)
  define v where "v = spw_upd (\<lambda>s. s\<lparr>sp_rx := rx\<rparr>) u"
  define x where "x = (if k \<noteq> 0 then snd (comm_ccsds_receive (se_consume (main_spw E)) (Some (sp_rx (w_spw v))) k
      (spw_upd (\<lambda>s. s\<lparr>sp_received := sp_received s + 1\<rparr>) v)) else v)"
  have step: "deliver_received (Suc m) (main_spw E) w = (if k = SPW_RX_BYTES then deliver_received m (main_spw E) x else Some x)"
    unfolding deliver_received.simps Let_def v_def x_def using r by (simp add: main_spw_def)
  show ?case
  proof (cases "k = SPW_RX_BYTES")
    case True
    define P where "P y \<longleftrightarrow> held (major_world.more y) \<le> held (major_world.more u)" for y :: "'a major_world_scheme"
    have b: "packet_blind P" by (simp add: packet_blind_def P_def)
    have c: "cmd_fns_hold P (ma_cmd E)"
      using assms unfolding cmd_fns_hold_def P_def link_drains_def by (blast intro: order_trans)
    have "P (snd (process_consume (ma_cmd E) (se_consume (ma_spw E)) h cx hdr app y))" if "P y" for h cx hdr app y
    proof (cases "h = COMMAND_CONSUMER")
      case True
      then show ?thesis
        using cmd_process_holds [OF b c that] that by (simp add: process_consume_def consume_command_def comm_cmd_submit_def)
    next
      case False
      have "held (major_world.more (snd (se_consume (ma_spw E) h cx hdr app y))) \<le> held (major_world.more y)"
        using assms by (simp add: link_drains_def)
      then show ?thesis using that False by (simp add: process_consume_def P_def)
    qed
    then have "P (snd (comm_ccsds_receive (se_consume (main_spw E)) p l y))" if "P y" for p l y
      using receive_holds [OF b _ that] by (simp add: main_spw_def)
    then have "P x" by (simp add: x_def v_def P_def spw_upd_def)
    moreover have "held (major_world.more u) < held (major_world.more w)"
    proof -
      have "let (got, bs, u) = se_receive (ma_spw E) h c bs k w
         in got = SPW_RX_BYTES \<longrightarrow> held (major_world.more u) < held (major_world.more w)" for h c bs k w
        using assms unfolding link_drains_def by blast
      from this [of "the (so_receive ?ops)" "so_ctx ?ops" "sp_rx (w_spw w)" SPW_RX_BYTES w] show ?thesis
        unfolding r Let_def prod.case using True by simp
    qed
    ultimately have "held (major_world.more x) < m" using Suc.prems by (simp add: P_def)
    then show ?thesis unfolding step using Suc.IH True by simp
  next
    case False
    then show ?thesis unfolding step by simp
  qed
qed simp

text \<open>What arrives in a cycle: a tick at some wake-up, interrupts that keep what the loop relies on, and on
  the link what it can hold.\<close>

definition arrivals_ok :: "'a major_world_scheme main_env \<Rightarrow> 'a major_world_scheme cycle_input \<Rightarrow> bool" where
  "arrivals_ok E c \<longleftrightarrow> (\<forall>n \<in> set (ci_wakes c). n < 2 ^ 32) \<and> (\<exists>n \<in> set (ci_wakes c). n \<noteq> 0) \<and>
     (\<forall>i w. loop_ready w \<longrightarrow> loop_ready (ci_interrupts c i w)) \<and> (\<exists>n held. link_drains n held E \<and> n < ci_reads c)"

lemma arrivals_cycle:
  assumes "arrivals_ok E c"
  shows "cycle_ok E c"
proof -
  obtain n held where l: "link_drains n held E" "n < ci_reads c" using assms by (auto simp: arrivals_ok_def)
  have "held (major_world.more w) < ci_reads c" for w :: "'a major_world_scheme"
  proof -
    have "held (major_world.more w) \<le> n" using l(1) unfolding link_drains_def by blast
    then show ?thesis using l(2) by (rule le_less_trans)
  qed
  then have "deliver_received (ci_reads c) (main_spw E) w \<noteq> None" for w by (rule deliver_ends [OF l(1)])
  then show ?thesis using assms by (simp add: cycle_ok_def arrivals_ok_def)
qed

subsection \<open>No cycle hangs\<close>

text \<open>C3: The program never hangs. Either early initialisation fails and it stops for good, or it runs: for
  any number of cycles every one comes to its end, the first with boot and the decision in it
  included, whatever the packets and bytes that arrive say, whatever the interrupts bring and however
  the devices answer, provided that ticks keep coming and that the data link holds a bounded number of
  buffers, which reading uses up faster than it is filled. That the loop over the received packets then
  ends is proved from this contract of a single read. After any cycle the command sequence, the output
  queue and the receive ring are in order.\<close>

theorem main_never_hangs:
  fixes w :: "'a major_world_scheme"
  assumes "main_env_ok E" "loop_env_ok E" "\<forall>c \<in> set cs. arrivals_ok E c"
    and "arrays_sized w" "length (rg_buf (ua_rx (w_uart w))) = 256"
  shows "\<exists>u. main E cs w = Some (if fst (plat_early_init w) = QIRAN_OK then Running u else Stopped u) \<and>
    (fst (plat_early_init w) = QIRAN_OK \<and> cs \<noteq> [] \<longrightarrow>
      cmd_ok (w_cmd u) \<and> output_ok (w_output u) \<and> ring_invar (ua_rx (w_uart u)))"
proof -
  have ok: "\<forall>c \<in> set cs. cycle_ok E c" using assms(3) arrivals_cycle by blast
  obtain st x where x: "plat_early_init w = (st, x)" by (rule prod.exhaust)
  show ?thesis
  proof (cases "st = QIRAN_OK \<and> cs \<noteq> []")
    case True
    then obtain c cs' where c: "cs = c # cs'" by (cases cs) simp_all
    note e = early_init_only [OF assms(5), of x]
    have st: "plat_early_init w = (QIRAN_OK, x)" using x True by simp
    obtain a b d f g h k where xo: "x = w\<lparr>w_cpu := a, w_exec := b, w_time := d, w_irq := f, w_gic := g, w_uart := h, w_timer := k\<rparr>"
      using e(3) [OF st] by blast
    have "arrays_sized x" using assms(4) by (simp add: xo arrays_sized_def)
    then have "\<exists>v. main_cycle E True c x = Some v \<and> loop_ready v"
      using main_cycle_ready [OF assms(1,2), of c True x] e(1,2) [OF st] ok by (simp add: c)
    then obtain v where v: "main_cycle E True c x = Some v" "loop_ready v" by blast
    obtain u where u: "main_cycles E False cs' v = Some u" "loop_ready u"
      using main_cycles_ready [OF assms(1,2) _ v(2), of cs'] ok by (auto simp: c)
    have "main E cs w = Some (Running u)" by (simp add: main_def st c v(1) u(1))
    moreover have "cmd_ok (w_cmd u) \<and> output_ok (w_output u) \<and> ring_invar (ua_rx (w_uart u))"
      using u(2) by (simp add: loop_ready_def cmd_ready_def)
    ultimately show ?thesis using st by auto
  next
    case False
    then show ?thesis by (cases "st = QIRAN_OK") (simp_all add: main_def x)
  qed
qed

text \<open>A tick each cycle, and nothing else from outside.\<close>

definition quiet_input :: "'w cycle_input" where
  "quiet_input = \<lparr>ci_wakes = [1], ci_mid = 0, ci_resync = 0, ci_interrupts = (\<lambda>_ w. w), ci_reads = 1\<rparr>"

definition main_setup :: "'a major_world_scheme \<Rightarrow> 'a major_world_scheme" where
  "main_setup w = arrays_setup (early_setup w)"

lemma main_setup_ok:
  "arrays_sized (main_setup w)" "length (rg_buf (ua_rx (w_uart (main_setup w)))) = 256"
  by (simp_all add: main_setup_def arrays_setup_sized) (simp add: arrays_setup_def early_setup_def)

lemma main_setup_starts: "fst (plat_early_init (main_setup w)) = QIRAN_OK"
proof -
  have "main_setup w = early_setup (main_setup w)" by (simp add: main_setup_def arrays_setup_def early_setup_def)
  then show ?thesis using early_setup_passes [of "main_setup w"] by simp
qed

lemma loop_env0_ok:
  "loop_env_ok (main_env0 :: 'a major_world_scheme main_env)" "cycle_ok (main_env0 :: 'a major_world_scheme main_env) quiet_input"
proof -
  show "loop_env_ok (main_env0 :: 'a major_world_scheme main_env)"
    by (simp add: loop_env_ok_def main_env0_def hk_tx_keeps_def hk_sample_keeps_def cmd_fns_keep_def link_fns_keep_def
        checks_keep_def main_fns_keep_def post_keeps_def mem_keeps_def)
  have "deliver_received 1 (main_spw main_env0) w \<noteq> None" for w :: "'a major_world_scheme"
    by (simp add: main_spw_def main_env0_def Let_def SPW_RX_BYTES_def)
  then show "cycle_ok (main_env0 :: 'a major_world_scheme main_env) quiet_input" by (simp add: cycle_ok_def quiet_input_def)
qed

text \<open>A link that holds up to three full buffers, counted in what extends the state, each read taking one.\<close>

definition busy_env :: "nat major_world_scheme main_env" where
  "busy_env = main_env0\<lparr>ma_spw := (ma_spw main_env0)\<lparr>se_receive := (\<lambda>_ _ bs _ w.
     (if major_world.more w = 0 then 0 else SPW_RX_BYTES, bs, w\<lparr>major_world.more := min (major_world.more w) 3 - 1\<rparr>))\<rparr>\<rparr>"

lemma busy_env_ok: "main_env_ok busy_env" "loop_env_ok busy_env" "link_drains 3 (\<lambda>x. min x 3) busy_env"
proof -
  show "main_env_ok busy_env"
    using main_env0_ok [where 'a = nat] by (simp add: busy_env_def main_env_ok_def main_fns_keep_def)
  have "link_fns_keep (ma_spw busy_env)"
    by (simp add: busy_env_def main_env0_def link_fns_keep_def loop_view_def)
  then show "loop_env_ok busy_env"
    using loop_env0_ok(1) [where 'a = nat] by (simp add: busy_env_def loop_env_ok_def main_fns_keep_def)
  show "link_drains 3 (\<lambda>x. min x 3) busy_env"
    by (auto simp: link_drains_def busy_env_def main_env0_def SPW_RX_BYTES_def)
qed

theorem main_never_hangs_witness:
  "\<forall>w. \<exists>u. main busy_env [quiet_input\<lparr>ci_reads := 4\<rparr>, quiet_input\<lparr>ci_reads := 4\<rparr>] (main_setup w) = Some (Running u) \<and>
    cmd_ok (w_cmd u) \<and> output_ok (w_output u)"
proof
  fix w
  let ?c = "quiet_input\<lparr>ci_reads := 4\<rparr> :: nat major_world_scheme cycle_input"
  have "arrivals_ok busy_env ?c"
    using busy_env_ok(3) by (auto simp: arrivals_ok_def quiet_input_def)
  then have "\<forall>c \<in> set [?c, ?c]. arrivals_ok busy_env c" by simp
  from main_never_hangs [OF busy_env_ok(1,2) this main_setup_ok [of w]] main_setup_starts [of w]
  show "\<exists>u. main busy_env [?c, ?c] (main_setup w) = Some (Running u) \<and>
    cmd_ok (w_cmd u) \<and> output_ok (w_output u)"
    by auto
qed

subsection \<open>The end of every cycle\<close>

text \<open>Of the watchdog, what its last task does with the monitors as it finds them.\<close>

lemma watchdog_task:
  assumes "svc_health_state v = (if list_ex contributing (hl_monitor (w_health v)) then QIRAN_HEALTH_FAILED else QIRAN_HEALTH_HEALTHY)"
  shows "watchdog_tickle_if_healthy H v =
    (if \<exists>m \<in> set (hl_monitor (w_health v)). mo_gating m \<and> mo_tolerance m < mo_consecutive m
     then v\<lparr>w_watchdog := (w_watchdog v)\<lparr>wd_suppressed := svc_watchdog_suppressed_cycles v + 1\<rparr>\<rparr>
     else if svc_watchdog_armed v then he_kick H (the (wb_kick (wd_backend (w_watchdog v)))) v else v)"
  unfolding contributing_ex [symmetric]
  by (cases "list_ex contributing (hl_monitor (w_health v))")
    (simp_all add: watchdog_tickle_if_healthy_def assms svc_watchdog_suppressed_cycles_def svc_watchdog_armed_def)

text \<open>C1: The watchdog is never served on a stale verdict. In every cycle, the first included, serving it
  is the last thing that is done, and it is decided by the monitors as they then stand: with a gating
  monitor beyond its tolerance the cycle is counted as suppressed, and otherwise the timer, if it is
  armed, is kicked. Of what runs between the verdict and the watchdog, sampling for telemetry and
  interrupts, only that they leave the monitors and the watchdog alone is assumed; the major cycle is
  shown to. That the cycle gets that far is part of the claim.\<close>

theorem watchdog_last_and_fresh:
  fixes w :: "'a major_world_scheme"
  assumes "main_env_ok E" "loop_env_ok E" "cycle_ok E c"
    and "hk_sample_keeps health_view (ma_hk E)" "\<forall>i w. health_view (ci_interrupts c i w) = health_view w"
    and "if first then arrays_sized w \<and> ring_invar (ua_rx (w_uart w)) \<and> ring_cap (ua_rx (w_uart w)) = 256 else loop_ready w"
  shows "\<exists>y x v. exec_wait_for_minor_tick (ci_wakes c) (ci_mid c) w \<bind>
      (\<lambda>w. if first then first_cycle E (ci_resync c) w else Some w) = Some y \<and>
    cycle_tasks E c y = Some x \<and> v = exec_task_enter EXEC_TASK_WATCHDOG (ci_interrupts c EXEC_TASK_WATCHDOG x) \<and>
    main_cycle E first c w = Some (exec_task_leave EXEC_TASK_WATCHDOG
      (if \<exists>m \<in> set (hl_monitor (w_health v)). mo_gating m \<and> mo_tolerance m < mo_consecutive m
       then v\<lparr>w_watchdog := (w_watchdog v)\<lparr>wd_suppressed := svc_watchdog_suppressed_cycles v + 1\<rparr>\<rparr>
       else if svc_watchdog_armed v then he_kick (ma_health E) (the (wb_kick (wd_backend (w_watchdog v)))) v else v))"
proof -
  have task: "health_view (exec_task c i f x) = health_view x" if "\<And>y. health_view (f y) = health_view y" for i f x
    by (simp add: exec_task_def exec_run_def task_marks_keep that assms(5))
  obtain u where u: "main_cycle E first c w = Some u" using main_cycle_ready [OF assms(1-3,6)] by blast
  obtain x0 x where x: "exec_wait_for_minor_tick (ci_wakes c) (ci_mid c) w \<bind>
      (\<lambda>w. if first then first_cycle E (ci_resync c) w else Some w) = Some x0" "cycle_tasks E c x0 = Some x" "u = exec_task c EXEC_TASK_WATCHDOG (watchdog_tickle_if_healthy (ma_health E)) x"
    using u by (auto simp: main_cycle_def split: Option.bind_splits)
  obtain z where z: "x =
      (let y = exec_task c EXEC_TASK_TELEMETRY (telemetry_write E) (exec_task_leave EXEC_TASK_HEALTH_CONSOLIDATE (health_consolidate z))
       in if exec_major_tick_due y then exec_task c EXEC_TASK_MAJOR major_cycle_tasks y else y)"
    using x(2) by (auto simp: cycle_tasks_def Let_def exec_task_def [of c EXEC_TASK_HEALTH_CONSOLIDATE] exec_run_def split: Option.bind_splits)
  define v where "v = exec_task_enter EXEC_TASK_WATCHDOG (ci_interrupts c EXEC_TASK_WATCHDOG x)"
  have "health_view (telemetry_write E y) = health_view y" for y
    unfolding telemetry_write_def by (rule hk_stage_keeps [OF health_view_blind assms(4)])
  then have "health_view v = health_view (health_consolidate z)"
    unfolding v_def z by (simp add: task_marks_keep assms(5) task major_cycle_keeps Let_def)
  then have s: "svc_health_state v = (if list_ex contributing (hl_monitor (w_health v)) then QIRAN_HEALTH_FAILED else QIRAN_HEALTH_HEALTHY)"
    using consolidated_state [of z] by (simp add: health_view_def svc_health_state_def)
  have "u = exec_task_leave EXEC_TASK_WATCHDOG (watchdog_tickle_if_healthy (ma_health E) v)"
    unfolding x(3) v_def by (simp add: exec_task_def exec_run_def)
  then show ?thesis unfolding u watchdog_task [OF s] using x(1,2) v_def by blast
qed

theorem watchdog_last_and_fresh_witness:
  "\<forall>w :: major_world. \<exists>v. main_cycle main_env0 True quiet_input (snd (plat_early_init (main_setup w))) =
    Some (exec_task_leave EXEC_TASK_WATCHDOG
      (if \<exists>m \<in> set (hl_monitor (w_health v)). mo_gating m \<and> mo_tolerance m < mo_consecutive m
       then v\<lparr>w_watchdog := (w_watchdog v)\<lparr>wd_suppressed := svc_watchdog_suppressed_cycles v + 1\<rparr>\<rparr>
       else if svc_watchdog_armed v then he_kick (ma_health main_env0) (the (wb_kick (wd_backend (w_watchdog v)))) v else v))"
proof
  fix w :: major_world
  define x where "x = snd (plat_early_init (main_setup w))"
  have st: "plat_early_init (main_setup w) = (QIRAN_OK, x)" using main_setup_starts [of w] by (simp add: x_def prod_eq_iff)
  note e = early_init_only [OF main_setup_ok(2) st]
  obtain a b d f g h k where xo: "x = (main_setup w)\<lparr>w_cpu := a, w_exec := b, w_time := d, w_irq := f, w_gic := g, w_uart := h,
      w_timer := k\<rparr>" using e(3) by blast
  have "arrays_sized x" using main_setup_ok(1) [of w] by (simp add: xo arrays_sized_def)
  then have r: "if True then arrays_sized x \<and> ring_invar (ua_rx (w_uart x)) \<and> ring_cap (ua_rx (w_uart x)) = 256 else loop_ready x"
    using e(1,2) by simp
  have s: "hk_sample_keeps health_view (ma_hk main_env0)" by (simp add: hk_sample_keeps_def main_env0_def)
  have q: "\<forall>i w. health_view (ci_interrupts quiet_input i w) = health_view w" by (simp add: quiet_input_def)
  show "\<exists>v. main_cycle main_env0 True quiet_input (snd (plat_early_init (main_setup w))) =
    Some (exec_task_leave EXEC_TASK_WATCHDOG
      (if \<exists>m \<in> set (hl_monitor (w_health v)). mo_gating m \<and> mo_tolerance m < mo_consecutive m
       then v\<lparr>w_watchdog := (w_watchdog v)\<lparr>wd_suppressed := svc_watchdog_suppressed_cycles v + 1\<rparr>\<rparr>
       else if svc_watchdog_armed v then he_kick (ma_health main_env0) (the (wb_kick (wd_backend (w_watchdog v)))) v else v))"
    using watchdog_last_and_fresh [OF main_env0_ok loop_env0_ok s q r] unfolding x_def [symmetric] by blast
qed

end
