(* ===== verification/Spec2Isabelle.thy ===== *)
theory Spec2Isabelle
  imports Main_Run
begin

text \<open>
  The firmware of the payload controller: a sequential cyclic executive without an operating
  system (\<^verbatim>\<open>src/main.c\<close>). Every 20 ms a minor cycle runs the tasks in a fixed order; every 25
  cycles a major cycle is due. Interrupt handlers only stamp and queue; the cycle takes what they
  queued. The first cycle initialises every module, runs the boot sequence and decides whether the
  mission goes on. This development models every module of \<^verbatim>\<open>src/src\<close> that does something, from the
  checksum up to \<^verbatim>\<open>main\<close>, in the target build with the bring-up trace.

  \<^bold>\<open>Correspondence.\<close> The static variables of one C module are one record (\<open>time_state\<close>,
  \<open>fdir_state\<close>, ...); the records are stacked into one world by record extension, in the order the
  modules call each other, so that a C function is an Isabelle function of the same name on any
  world that has the modules below it: a void function maps the world to the world, a function with
  a result returns the pair. A name that HOL already uses, or that a type has too, gets a suffix
  (\<open>mission_stage_get\<close>). Fixed-width integers are words of the same width; a \<^verbatim>\<open>double\<close> is a rational
  rounded as the hardware rounds it; C arrays are lists of the fixed length, or functions on the
  enumeration that indexes them; a null pointer is \<open>None\<close>, and an output parameter is part of the
  result. What may not end is optional, and so is a conversion C leaves undefined.

  \<^bold>\<open>Code from outside.\<close> A function pointer together with what it points at is a \<open>handle\<close> that an
  environment record interprets: \<open>fdir_env\<close>, \<open>config_env\<close>, \<open>health_env\<close>, \<open>mission_env\<close>, \<open>cmd_env\<close>,
  \<open>spw_env\<close>, \<open>output_env\<close>, \<open>hk_env\<close>, \<open>nand_env\<close>, \<open>mem_env\<close>, \<open>post_env\<close>, \<open>boot_env\<close>, and for the whole
  program \<open>main_env\<close>, in which the functions this source tree connects itself (the command sequence as
  consumer of packets, the housekeeping link as the observer's link) are connected. \<open>cycle_input\<close> is
  what arrives in one cycle: ticks and interrupts, with the fuel of the loop over received packets. What a
  module relies on is a named hypothesis. Those say that a function from outside leaves a module's
  own state alone (\<open>uplink_ok\<close>, \<open>checks_ok\<close>, \<open>steps_ok\<close>, \<open>consumer_ok\<close>, \<open>cmd_env_ok\<close>, \<open>spw_env_ok\<close>,
  \<open>output_env_ok\<close>, \<open>hk_env_ok\<close>, \<open>hk_tx_quiet\<close>, \<open>safe_actions_ok\<close>, \<open>devinit_fns_ok\<close>, \<open>post_env_ok\<close>, \<open>boot_env_ok\<close>,
  \<open>main_env_ok\<close>, \<open>loop_env_ok\<close>), that a use of the observer's link reports at most one failure of that link
  (\<open>link_reports_once\<close>, which the housekeeping link is shown to keep), that a medium returns what was written to it (\<open>storage_ok\<close>,
  \<open>nand_medium_ok\<close>; \<open>mem_with\<close> is memory with given faults), that the data link holds a bounded number of
  buffers and a read that fills the buffer uses up some of it (\<open>link_drains\<close>), or what the input of a
  cycle is like (\<open>arrivals_ok\<close>, \<open>cycle_ok\<close>). Each is shown satisfiable by the witness of a theorem that has it.

  \<^bold>\<open>Theories.\<close>
  \<^item> \<open>Qiran_Prelude\<close>: \<^verbatim>\<open>qiran_types.h\<close> and the constants of \<^verbatim>\<open>qiran_config.h\<close>; lemmas on words.
  \<^item> \<open>Svc_Crc\<close> (\<^verbatim>\<open>svc_crc.c\<close>): the table-driven checksum, a bitwise division it equals, and the
    bursts of damage it detects.
  \<^item> \<open>Comm_Bytes\<close> (\<^verbatim>\<open>comm_bytes.h\<close>): the big-endian fields, as a codec interface (a locale
    interpreted for each width).
  \<^item> \<open>Bounded_Fifo\<close>: the locale of a bounded queue over an array; interpreted by the byte ring, the
    event log and the interrupt queues. \<open>Callback_Table\<close>: the locale of a table of functions that
    have no access to the module's own state; interpreted by the safe outputs and the device table.
  \<^item> \<open>Plat_Cpu\<close>, \<open>Exec_Core\<close>, \<open>Exec_Sched\<close> (\<^verbatim>\<open>plat_cpu.c\<close>, \<^verbatim>\<open>exec_core.c\<close>, \<^verbatim>\<open>exec_sched.c\<close>): the
    tick, the wait with the interrupts that arrive in it, overruns and the major cycle; the task
    measurements and the check that every slot fits.
  \<^item> \<open>Svc_Ring\<close>, \<open>Svc_Time\<close>, \<open>Svc_Log\<close>: the byte ring, the 64-bit clock and timeouts, the event log.
  \<^item> \<open>Plat_Irq\<close>, \<open>Plat_Isr_Uart\<close> (\<^verbatim>\<open>plat_irq.c\<close>, \<^verbatim>\<open>plat_gic.c\<close>, \<^verbatim>\<open>plat_isr_uart.c\<close>): registration, the
    shared handler, the per-source queues, and the serial receiver.
  \<^item> \<open>Svc_Fdir\<close> (\<^verbatim>\<open>svc_fdir.c\<close>): the policy of every fault class, reports, the service pass and
    escalation.
  \<^item> \<open>Svc_Config\<close> (\<^verbatim>\<open>svc_config.c\<close>): parameters with ranges and a lock, their stored image, the
    integrity check and the calibration curve.
  \<^item> \<open>Svc_Health\<close> (\<^verbatim>\<open>svc_health.c\<close>, \<^verbatim>\<open>svc_watchdog.c\<close>): monitors, the verdict and the watchdog.
  \<^item> \<open>Mission_Seq\<close> (\<^verbatim>\<open>mission_seq.c\<close>): the stage machine, refined to an abstract sequence.
  \<^item> \<open>Photonic_Sched\<close> (\<^verbatim>\<open>photonic_sched.c\<close>): the control loops.
  \<^item> \<open>Comm_Ccsds\<close>, \<open>Comm_Cmd\<close>, \<open>Comm_Spw_Link\<close> (\<^verbatim>\<open>comm_ccsds.c\<close>, \<^verbatim>\<open>comm_cmd.c\<close>,
    \<^verbatim>\<open>comm_spw_link.c\<close>): space packets and the routing of what arrives; the framing, checks,
    dispatch and tracking of commands; the bring-up of the data link.
  \<^item> \<open>Comm_Output\<close>, \<open>Comm_Rs485_Hk\<close>, \<open>Comm_Process\<close> (\<^verbatim>\<open>comm_output.c\<close>, \<^verbatim>\<open>comm_rs485_hk.c\<close>,
    \<^verbatim>\<open>comm_process.c\<close>): the queue of packets by priority, equal to one stable sort; the housekeeping and
    status frames, and the delivery of escalated faults; what connects packets to commands.
  \<^item> \<open>Storage_Ddr\<close>, \<open>Storage_Nand\<close>, \<open>Data_Path\<close> (\<^verbatim>\<open>storage_ddr.c\<close>, \<^verbatim>\<open>storage_nand.c\<close>,
    \<^verbatim>\<open>data_path.c\<close>): memory regions with one owner each, refined to separate buffers; the record store
    and its transfer; the queue of buffers the fabric has finished with.
  \<^item> \<open>Binary64\<close>, \<open>Data_Product\<close> (\<^verbatim>\<open>data_product.c\<close>): rounding to 53 bits with its error bounds, and the
    figures of a product with their frame.
  \<^item> \<open>Plat_Timer\<close>, \<open>Plat_Safe_Outputs\<close>, \<open>Plat_Devinit\<close>, \<open>Plat_Post\<close>, \<open>Post_Memory\<close>, \<open>Plat_Boot\<close>
    (\<^verbatim>\<open>plat_timer.c\<close>, \<^verbatim>\<open>plat_safe_outputs.c\<close>, \<^verbatim>\<open>plat_devinit.c\<close>, \<^verbatim>\<open>plat_post.c\<close>, \<^verbatim>\<open>plat_boot.c\<close>): the
    timer and its reload value; the safe-output actions; the staged device initialisers; the self
    tests, and in \<open>Post_Memory\<close> which faults of a memory the memory test finds; early
    initialisation and the boot sequence.
  \<^item> \<open>Exec_Major\<close> (\<^verbatim>\<open>exec_major.c\<close>): the trace of a major cycle, print by print.
  \<^item> \<open>Main_Loop\<close>, \<open>Main_Cycle\<close>, \<open>Main_Run\<close> (\<^verbatim>\<open>main.c\<close>): the tasks, the initialisation, the cycle and the
    loop; what the first cycle decides; that the loop never hangs and ends every cycle with the
    watchdog.

  \<^bold>\<open>What the lemmas show.\<close> Each theory first proves what its operations leave alone, then an
  invariant and that every operation keeps it, then the behaviour of the component over arbitrary
  sequences of its operations (\<open>log_run\<close>, \<open>irq_run\<close>, \<open>fdir_run\<close>, \<open>exec_reach\<close>, \<open>ccsds_step\<close>,
  \<open>cmd_step\<close>, \<open>output_step\<close>, \<open>ddr_run\<close>, \<open>nand_run\<close>, \<open>nand_cycles\<close>, \<open>path_step\<close>, \<open>devinit_step\<close>,
  \<open>main_cycles\<close>). Queues are refined to lists, regions to buffers, the mission sequence to an abstract
  step; encoders and decoders are inverse, and counters account for every event. The history of the
  product store is kept as a ledger of what is held, what was handed over and whether a failed erase
  has destroyed something (\<open>nand_note\<close>), that of the device table as the log of its calls
  (\<open>devinit_log\<close>). The theorems on the whole program are about every initial state whose arrays have
  their lengths (\<open>arrays_sized\<close>): initialisation brings the components it owns into their invariants and
  leaves the rest alone (\<open>subsystem_init_ready\<close>), boot ends whatever the devices do, and every cycle
  after it ends. For those, what each task leaves alone is proved for an arbitrary
  observation that misses what the task itself writes (\<open>hk_blind\<close>, \<open>boot_blind\<close>), or for the part of the
  state the loops of the program depend on (\<open>loop_view\<close>, \<open>loop_ready\<close>).

  \<^bold>\<open>Bounds and fuel.\<close> \<open>exec_wait_loop\<close> follows the list of what each sleep of the processor is
  woken by; \<open>exec_wait_returns\<close> says when it returns. \<open>irq_drain\<close> takes at most as many events as the
  source has queued. \<open>assemble\<close> reads the serial ring in chunks of 64; five reads empty the ring of 256
  bytes (\<open>assemble_ends\<close>). One service of the output queue takes each of its 16 descriptors at
  most once and needs one turn more to find nothing left, 17 in all (\<open>output_service_eq\<close>).
  \<open>deliver_received\<close> reads until the link does not fill the buffer, which the code does not bound:
  its fuel is the input \<open>ci_reads\<close>, and on a link that holds at most \<open>n\<close> buffers and is used up by
  reading, any fuel beyond \<open>n\<close> is enough (\<open>deliver_ends\<close>). The address loops of the memory test double an offset of 32 bits, so
  32 turns (\<open>ADDRESS_TURNS\<close>) are enough whenever they end. The retry loop of a boot step is a partial function
  (\<open>run_step_loop\<close>), which ends because the fault class of every step has a limit (\<open>boot_ends\<close>).
  \<open>Binary64\<close> has no infinities and no undefined results; \<open>product_in_range\<close> shows that no figure of a product
  gets there.

  \<^bold>\<open>Not modelled.\<close> The files under \<^verbatim>\<open>src/hal\<close>, \<^verbatim>\<open>src/board\<close>, the devices of \<^verbatim>\<open>src/photonic\<close>,
  \<^verbatim>\<open>plat_clock.c\<close>, \<^verbatim>\<open>plat_mem.c\<close>, \<^verbatim>\<open>plat_nand.c\<close> and \<^verbatim>\<open>plat_pl_config.c\<close> hold one initialisation function each
  that returns unsupported and that nothing calls; \<^verbatim>\<open>plat_reg.h\<close> holds inline register accesses that
  nothing uses. Left out as well: the names of packet classes, regions, record types, loops and
  command results, strings that only tests read; the stubs of the host build and the flight build
  without the trace; the host tests. Of the vendor's drivers the state keeps what this code sets and
  whether they succeed; barriers, sleeping and the rest of the board support package have no effect
  on a sequential state. Interrupts arrive between tasks and in the windows the code itself names,
  never inside the body of another task.
\<close>

end
